(* ===== verification/Rfb_Prelude.thy ===== *)
theory Rfb_Prelude
  imports Main "HOL-Library.Word"
begin

text \<open>
  The prelude of the development: the byte and string types of the Rust sources, results
  with errors as values, fixed-width integers as little-endian and big-endian byte arrays,
  the Rust \<^verbatim>\<open>str\<close> operations the components use (\<^verbatim>\<open>trim\<close>, \<^verbatim>\<open>split\<close>, \<^verbatim>\<open>starts_with\<close>),
  bounded first-in-first-out bookkeeping, and the generic lemmas about them.

  A Rust \<^verbatim>\<open>str\<close> is modelled by its UTF-8 bytes: a HOL \<^typ>\<open>string\<close> is a list of
  \<^typ>\<open>char\<close>, and a \<^typ>\<open>char\<close> of HOL is one byte. So \<^verbatim>\<open>len()\<close> is \<open>length\<close>, and
  \<^verbatim>\<open>as_bytes()\<close> is a change of type.
\<close>

unbundle bit_operations_syntax

named_theorems wire_simps "equations of the wire encoders and decoders"

section \<open>Types\<close>

type_synonym byte = "8 word"
type_synonym bytes = "byte list"
type_synonym u16 = "16 word"
type_synonym u32 = "32 word"
type_synonym u64 = "64 word"

section \<open>Results\<close>

text \<open>A Rust \<^verbatim>\<open>Result\<close> is a sum, \<open>Inl\<close> the error; \<open>res_bind\<close> is the \<^verbatim>\<open>?\<close> operator.\<close>

fun res_bind :: "'e + 'a \<Rightarrow> ('a \<Rightarrow> 'e + 'b) \<Rightarrow> 'e + 'b" where
  "res_bind (Inl e) f = Inl e"
| "res_bind (Inr a) f = f a"

definition is_ok :: "'e + 'a \<Rightarrow> bool" where
  "is_ok r = (case r of Inl _ \<Rightarrow> False | Inr _ \<Rightarrow> True)"

lemma is_ok_simps [simp]: "is_ok (Inr a)" "\<not> is_ok (Inl e)"
  by (simp_all add: is_ok_def)

lemma res_bind_eq_Inr_conv:
  "res_bind r f = Inr b \<longleftrightarrow> (\<exists>a. r = Inr a \<and> f a = Inr b)"
  by (cases r) auto

lemma res_bind_eq_Inl_conv:
  "res_bind r f = Inl e \<longleftrightarrow> r = Inl e \<or> (\<exists>a. r = Inr a \<and> f a = Inl e)"
  by (cases r) auto

lemma res_bind_cong [fundef_cong]:
  "r = r' \<Longrightarrow> (\<And>a. r' = Inr a \<Longrightarrow> f a = g a) \<Longrightarrow> res_bind r f = res_bind r' g"
  by (cases r') auto

section \<open>Integers as bytes\<close>

lemma unat_lt2p: "unat (w :: 'a::len word) < 2 ^ LENGTH('a)"
  by simp

text \<open>
  \<open>nat_to_le n v\<close> are the \<open>n\<close> low bytes of \<open>v\<close>, least significant first: Rust's
  \<^verbatim>\<open>to_le_bytes\<close> of an \<open>8 * n\<close> bit value; \<^verbatim>\<open>to_be_bytes\<close> is the same reversed.
\<close>

fun nat_to_le :: "nat \<Rightarrow> nat \<Rightarrow> bytes" where
  "nat_to_le 0 v = []"
| "nat_to_le (Suc n) v = word_of_nat v # nat_to_le n (v div 256)"

fun nat_of_le :: "bytes \<Rightarrow> nat" where
  "nat_of_le [] = 0"
| "nat_of_le (b # bs) = unat b + 256 * nat_of_le bs"

definition u16_to_be_bytes :: "u16 \<Rightarrow> bytes" where
  "u16_to_be_bytes w = rev (nat_to_le 2 (unat w))"

definition u16_from_be_bytes :: "bytes \<Rightarrow> u16" where
  "u16_from_be_bytes bs = word_of_nat (nat_of_le (rev bs))"

definition u32_to_be_bytes :: "u32 \<Rightarrow> bytes" where
  "u32_to_be_bytes w = rev (nat_to_le 4 (unat w))"

definition u32_from_be_bytes :: "bytes \<Rightarrow> u32" where
  "u32_from_be_bytes bs = word_of_nat (nat_of_le (rev bs))"

definition u32_to_le_bytes :: "u32 \<Rightarrow> bytes" where
  "u32_to_le_bytes w = nat_to_le 4 (unat w)"

definition u32_from_le_bytes :: "bytes \<Rightarrow> u32" where
  "u32_from_le_bytes bs = word_of_nat (nat_of_le bs)"

definition u64_to_le_bytes :: "u64 \<Rightarrow> bytes" where
  "u64_to_le_bytes w = nat_to_le 8 (unat w)"

definition u64_from_le_bytes :: "bytes \<Rightarrow> u64" where
  "u64_from_le_bytes bs = word_of_nat (nat_of_le bs)"

lemma nat_to_le_4:
  "nat_to_le 4 v = [word_of_nat v, word_of_nat (v div 256), word_of_nat (v div 65536),
     word_of_nat (v div 16777216)]"
proof -
  have four: "(4 :: nat) = Suc (Suc (Suc (Suc 0)))" by simp
  show ?thesis
    unfolding four nat_to_le.simps by (simp add: div_mult2_eq [symmetric])
qed

lemma length_nat_to_le [simp]: "length (nat_to_le n v) = n"
  by (induction n arbitrary: v) auto

lemma unat_byte_of_nat: "unat (word_of_nat v :: byte) = v mod 256"
  by (simp add: unat_of_nat)

lemma nat_of_le_to_le: "nat_of_le (nat_to_le n v) = v mod 256 ^ n"
proof (induction n arbitrary: v)
  case 0
  then show ?case by simp
next
  case (Suc n)
  have "v mod (256 * 256 ^ n) = v mod 256 + 256 * (v div 256 mod 256 ^ n)"
    by (rule mod_mult2_eq [THEN trans]) simp
  with Suc.IH show ?case
    by (simp add: unat_byte_of_nat)
qed

lemma nat_of_le_less: "nat_of_le bs < 256 ^ length bs"
proof (induction bs)
  case Nil
  then show ?case by simp
next
  case (Cons b bs)
  have "unat b < 256" using unat_lt2p [of b] by simp
  with Cons.IH show ?case by simp
qed

lemma nat_to_le_of_le: "nat_to_le (length bs) (nat_of_le bs) = bs"
proof (induction bs)
  case (Cons b bs)
  have "unat b < 256" using unat_lt2p [of b] by simp
  moreover have "(word_of_nat (unat b + 256 * nat_of_le bs) :: byte) = b"
  proof -
    have "(256 :: byte) = 0" by simp
    then have "(256 :: byte) * x = 0" for x by (metis mult_zero_left)
    then show ?thesis by simp
  qed
  ultimately show ?case using Cons.IH by simp
qed simp

lemma u16_be_roundtrip [simp]: "u16_from_be_bytes (u16_to_be_bytes w) = w"
  using unat_lt2p [of w]
  by (simp add: u16_from_be_bytes_def u16_to_be_bytes_def nat_of_le_to_le)

lemma u32_be_roundtrip [simp]: "u32_from_be_bytes (u32_to_be_bytes w) = w"
  using unat_lt2p [of w]
  by (simp add: u32_from_be_bytes_def u32_to_be_bytes_def nat_of_le_to_le)

lemma u32_le_roundtrip [simp]: "u32_from_le_bytes (u32_to_le_bytes w) = w"
  using unat_lt2p [of w]
  by (simp add: u32_from_le_bytes_def u32_to_le_bytes_def nat_of_le_to_le)

lemma u64_le_roundtrip [simp]: "u64_from_le_bytes (u64_to_le_bytes w) = w"
  using unat_lt2p [of w]
  by (simp add: u64_from_le_bytes_def u64_to_le_bytes_def nat_of_le_to_le)

lemma u32_be_canonical: "length bs = 4 \<Longrightarrow> u32_to_be_bytes (u32_from_be_bytes bs) = bs"
  using nat_of_le_less [of "rev bs"] nat_to_le_of_le [of "rev bs"]
  by (simp add: u32_from_be_bytes_def u32_to_be_bytes_def unat_of_nat)

lemma u16_be_canonical: "length bs = 2 \<Longrightarrow> u16_to_be_bytes (u16_from_be_bytes bs) = bs"
  using nat_of_le_less [of "rev bs"] nat_to_le_of_le [of "rev bs"]
  by (simp add: u16_from_be_bytes_def u16_to_be_bytes_def unat_of_nat)

lemma length_int_bytes [simp]:
  "length (u16_to_be_bytes a) = 2" "length (u32_to_be_bytes b) = 4"
  "length (u32_to_le_bytes b) = 4" "length (u64_to_le_bytes c) = 8"
  by (simp_all add: u16_to_be_bytes_def u32_to_be_bytes_def u32_to_le_bytes_def
      u64_to_le_bytes_def)

lemma unat_u32_of_nat: "n < 2 ^ 32 \<Longrightarrow> unat (word_of_nat n :: u32) = n"
  by (simp add: unat_of_nat)

section \<open>Strings\<close>

definition as_bytes :: "string \<Rightarrow> bytes" where
  "as_bytes s = map (\<lambda>c. word_of_nat (of_char c)) s"

definition str_of_bytes :: "bytes \<Rightarrow> string" where
  "str_of_bytes bs = map (\<lambda>b. char_of (unat b)) bs"

lemma char_of_byte_of_char: "char_of (unat (word_of_nat (of_char c) :: byte)) = c"
proof -
  have "(of_char c :: nat) < 256" by simp
  then show ?thesis by (simp add: unat_byte_of_nat)
qed

lemma byte_of_char_of_byte: "(word_of_nat (of_char (char_of (unat b) :: char)) :: byte) = b"
proof -
  have "unat b < 256" using unat_lt2p [of b] by simp
  then show ?thesis by (simp add: of_char_of)
qed

lemma str_of_as_bytes [simp]: "str_of_bytes (as_bytes s) = s"
  by (simp add: str_of_bytes_def as_bytes_def comp_def char_of_byte_of_char)

lemma as_bytes_str_of [simp]: "as_bytes (str_of_bytes bs) = bs"
  by (simp add: str_of_bytes_def as_bytes_def comp_def byte_of_char_of_byte del: of_char_of)

lemma length_as_bytes [simp]: "length (as_bytes s) = length s"
  by (simp add: as_bytes_def)

lemma length_str_of_bytes [simp]: "length (str_of_bytes bs) = length bs"
  by (simp add: str_of_bytes_def)

lemma as_bytes_inj: "as_bytes s = as_bytes t \<longleftrightarrow> s = t"
  by (metis str_of_as_bytes)

text \<open>\<^verbatim>\<open>str::starts_with\<close> and \<^verbatim>\<open>strip_prefix\<close>.\<close>

fun strip_prefix :: "'a list \<Rightarrow> 'a list \<Rightarrow> 'a list option" where
  "strip_prefix [] s = Some s"
| "strip_prefix (p # ps) [] = None"
| "strip_prefix (p # ps) (c # cs) = (if p = c then strip_prefix ps cs else None)"

definition starts_with :: "'a list \<Rightarrow> 'a list \<Rightarrow> bool" where
  "starts_with s p = (strip_prefix p s \<noteq> None)"

lemma strip_prefix_Some: "strip_prefix p s = Some r \<longleftrightarrow> s = p @ r"
  by (induction p s rule: strip_prefix.induct) auto

lemma starts_with_iff: "starts_with s p \<longleftrightarrow> (\<exists>r. s = p @ r)"
  by (auto simp: starts_with_def strip_prefix_Some)

text \<open>\<^verbatim>\<open>str::split\<close> on one separator character: never empty.\<close>

fun split_on :: "'a \<Rightarrow> 'a list \<Rightarrow> 'a list list" where
  "split_on d [] = [[]]"
| "split_on d (c # cs) =
     (if c = d then [] # split_on d cs
      else (case split_on d cs of [] \<Rightarrow> [[c]] | x # xs \<Rightarrow> (c # x) # xs))"

lemma split_on_ne [simp]: "split_on d s \<noteq> []"
  by (induction s) (auto split: list.splits)

lemma split_on_append: "d \<notin> set a \<Longrightarrow> split_on d (a @ d # b) = a # split_on d b"
  by (induction a) auto

lemma split_on_join: "split_on d (a @ d # b) = split_on d a @ split_on d b"
  by (induction a) (auto split: list.splits)

lemma split_on_plain: "d \<notin> set s \<Longrightarrow> split_on d s = [s]"
  by (induction s) auto

text \<open>
  \<^verbatim>\<open>str::trim\<close> removes the characters with the Unicode property \<^verbatim>\<open>White_Space\<close> from both
  ends. \<open>white_space\<close> lists their UTF-8 encodings. UTF-8 is self-synchronising, so on
  valid text a suffix of bytes that spells one of them is that character.
\<close>

definition white_space :: "string list" where
  "white_space =
     [[CHR 0x09], [CHR 0x0A], [CHR 0x0B], [CHR 0x0C], [CHR 0x0D], [CHR 0x20],
      [CHR 0xC2, CHR 0x85], [CHR 0xC2, CHR 0xA0], [CHR 0xE1, CHR 0x9A, CHR 0x80]]
     @ map (\<lambda>k. [CHR 0xE2, CHR 0x80, k])
         [CHR 0x80, CHR 0x81, CHR 0x82, CHR 0x83, CHR 0x84, CHR 0x85, CHR 0x86, CHR 0x87,
          CHR 0x88, CHR 0x89, CHR 0x8A, CHR 0xA8, CHR 0xA9, CHR 0xAF]
     @ [[CHR 0xE2, CHR 0x81, CHR 0x9F], [CHR 0xE3, CHR 0x80, CHR 0x80]]"

fun first_strip :: "'a list list \<Rightarrow> 'a list \<Rightarrow> 'a list option" where
  "first_strip [] s = None"
| "first_strip (p # ps) s =
     (case strip_prefix p s of Some r \<Rightarrow> Some r | None \<Rightarrow> first_strip ps s)"

lemma first_strip_shorter:
  "first_strip ps s = Some r \<Longrightarrow> [] \<notin> set ps \<Longrightarrow> length r < length s"
proof (induction ps s rule: first_strip.induct)
  case (2 p ps s)
  then show ?case
    by (cases p) (auto simp: strip_prefix_Some split: option.splits)
qed simp

text \<open>Drop the listed encodings from the front for as long as one matches.\<close>

function drop_encodings :: "'a list list \<Rightarrow> 'a list \<Rightarrow> 'a list" where
  "drop_encodings ps s =
     (if [] \<in> set ps then s
      else (case first_strip ps s of None \<Rightarrow> s | Some r \<Rightarrow> drop_encodings ps r))"
  by pat_completeness auto
termination
  by (relation "measure (\<lambda>(ps, s). length s)") (auto dest: first_strip_shorter)

declare drop_encodings.simps [simp del]

definition trim_start :: "string \<Rightarrow> string" where
  "trim_start s = drop_encodings white_space s"

definition trim_end :: "string \<Rightarrow> string" where
  "trim_end s = rev (drop_encodings (map rev white_space) (rev s))"

definition trim :: "string \<Rightarrow> string" where
  "trim s = trim_end (trim_start s)"

definition blank :: "string \<Rightarrow> bool" where
  "blank s = (trim s = [])"

lemma drop_encodings_length: "length (drop_encodings ps s) \<le> length s"
proof (induction ps s rule: drop_encodings.induct)
  case (1 ps s)
  show ?case
  proof (cases "[] \<in> set ps \<or> first_strip ps s = None")
    case True
    then show ?thesis by (subst drop_encodings.simps) auto
  next
    case False
    then obtain r where ne: "[] \<notin> set ps" and r: "first_strip ps s = Some r" by auto
    then have "length (drop_encodings ps r) \<le> length r" using 1 by blast
    also have "\<dots> < length s" using r ne by (rule first_strip_shorter)
    finally show ?thesis using ne r by (subst drop_encodings.simps) simp
  qed
qed

lemma blank_Nil [simp]: "blank []"
  by (simp add: blank_def trim_def trim_end_def trim_start_def drop_encodings.simps white_space_def)

text \<open>A character that occurs in no white-space encoding survives trimming.\<close>

lemma first_strip_keeps:
  "first_strip ps s = Some r \<Longrightarrow> c \<in> set s \<Longrightarrow> \<forall>p \<in> set ps. c \<notin> set p \<Longrightarrow> c \<in> set r"
  by (induction ps s rule: first_strip.induct) (auto simp: strip_prefix_Some split: option.splits)

lemma drop_encodings_keeps:
  "c \<in> set s \<Longrightarrow> \<forall>p \<in> set ps. c \<notin> set p \<Longrightarrow> c \<in> set (drop_encodings ps s)"
proof (induction ps s rule: drop_encodings.induct)
  case (1 ps s)
  then show ?case
    using first_strip_keeps [of ps s _ c]
    by (subst drop_encodings.simps) (auto split: option.splits)
qed

lemma not_blankI:
  assumes "c \<in> set s" "\<forall>p \<in> set white_space. c \<notin> set p"
  shows "\<not> blank s"
proof -
  have "c \<in> set (trim_start s)"
    unfolding trim_start_def using assms by (rule drop_encodings_keeps)
  then have "c \<in> set (drop_encodings (map rev white_space) (rev (trim_start s)))"
    using assms(2) by (intro drop_encodings_keeps) auto
  then show ?thesis by (auto simp: blank_def trim_def trim_end_def)
qed

section \<open>Lists and maps\<close>

lemma take_drop_append_eq:
  "length xs = n \<Longrightarrow> take n (xs @ ys) = xs \<and> drop n (xs @ ys) = ys"
  by simp

text \<open>Removing a key from an association list, Rust's \<^verbatim>\<open>HashMap::remove\<close>.\<close>

definition alist_remove :: "'k \<Rightarrow> ('k \<times> 'v) list \<Rightarrow> ('k \<times> 'v) list" where
  "alist_remove k m = filter (\<lambda>p. fst p \<noteq> k) m"

definition alist_insert :: "'k \<Rightarrow> 'v \<Rightarrow> ('k \<times> 'v) list \<Rightarrow> ('k \<times> 'v) list" where
  "alist_insert k v m = (k, v) # alist_remove k m"

lemma map_of_alist_remove [simp]: "map_of (alist_remove k m) = (map_of m)(k := None)"
  by (induction m) (auto simp: alist_remove_def fun_eq_iff)

lemma map_of_alist_insert [simp]: "map_of (alist_insert k v m) = (map_of m)(k \<mapsto> v)"
  by (simp add: alist_insert_def)

lemma distinct_alist_remove [simp]:
  "distinct (map fst m) \<Longrightarrow> distinct (map fst (alist_remove k m))"
  by (simp add: alist_remove_def distinct_map_filter)

lemma distinct_alist_insert [simp]:
  "distinct (map fst m) \<Longrightarrow> distinct (map fst (alist_insert k v m))"
  by (auto simp: alist_insert_def alist_remove_def distinct_map_filter)

text \<open>Saturating addition on \<^typ>\<open>u64\<close>.\<close>

definition u64_saturating_add :: "u64 \<Rightarrow> u64 \<Rightarrow> u64" where
  "u64_saturating_add a b = (if unat a + unat b < 2 ^ 64 then a + b else 18446744073709551615)"

lemma unat_u64_saturating_add:
  "unat (u64_saturating_add a b) = min (unat a + unat b) (2 ^ 64 - 1)"
  using unat_lt2p [of a] unat_lt2p [of b]
  by (auto simp: u64_saturating_add_def unat_word_ariths)

section \<open>Decimal numbers and lines\<close>

text \<open>The decimal rendering \<^verbatim>\<open>{n}\<close> of \<^verbatim>\<open>format!\<close>.\<close>

function dec_string :: "nat \<Rightarrow> string" where
  "dec_string n =
     (if n < 10 then [char_of (48 + n)] else dec_string (n div 10) @ [char_of (48 + n mod 10)])"
  by pat_completeness auto
termination
  by (relation "measure id") auto

declare dec_string.simps [simp del]

definition is_digit :: "char \<Rightarrow> bool" where
  "is_digit c \<longleftrightarrow> 48 \<le> (of_char c :: nat) \<and> (of_char c :: nat) \<le> 57"

definition digits_value :: "string \<Rightarrow> nat" where
  "digits_value s = foldl (\<lambda>v c. 10 * v + (of_char c - 48)) 0 s"

text \<open>
  \<^verbatim>\<open>str::parse\<close> at an unsigned type of \<open>bound\<close> values: an optional plus sign, at least one digit,
  nothing else, and no overflow.
\<close>

definition parse_uint :: "nat \<Rightarrow> string \<Rightarrow> nat option" where
  "parse_uint bound s =
     (let d = (case strip_prefix ''+'' s of Some r \<Rightarrow> r | None \<Rightarrow> s)
      in if d = [] \<or> \<not> list_all is_digit d \<or> bound \<le> digits_value d then None
         else Some (digits_value d))"

lemma digits_value_snoc [simp]: "digits_value (s @ [c]) = 10 * digits_value s + (of_char c - 48)"
  by (simp add: digits_value_def)

lemma of_char_digit [simp]: "d < 10 \<Longrightarrow> of_char (char_of (48 + d) :: char) = (48 + d :: nat)"
  by (simp add: of_char_of)

lemma dec_string_digits: "dec_string n \<noteq> [] \<and> list_all is_digit (dec_string n)"
proof (induction n rule: dec_string.induct)
  case (1 n)
  have one: "is_digit (char_of (48 + d))" if "d < 10" for d :: nat
    using that by (simp add: is_digit_def)
  show ?case
  proof (cases "n < 10")
    case True
    then show ?thesis using one [of n] by (simp add: dec_string.simps [of n])
  next
    case False
    then show ?thesis using 1 one [of "n mod 10"] by (simp add: dec_string.simps [of n])
  qed
qed

lemma digits_value_dec_string [simp]: "digits_value (dec_string n) = n"
proof (induction n rule: dec_string.induct)
  case (1 n)
  have one: "digits_value [char_of (48 + d)] = d" if "d < 10" for d
    using digits_value_snoc [of "[]" "char_of (48 + d)"] that by (simp add: digits_value_def)
  show ?case
  proof (cases "n < 10")
    case True
    then show ?thesis using one [of n] by (simp add: dec_string.simps [of n])
  next
    case False
    then show ?thesis using 1 by (simp add: dec_string.simps [of n])
  qed
qed

lemma parse_uint_dec_string [simp]: "n < bound \<Longrightarrow> parse_uint bound (dec_string n) = Some n"
proof -
  assume "n < bound"
  have "strip_prefix ''+'' (dec_string n) = None"
    using dec_string_digits [of n] by (cases "dec_string n") (auto simp: is_digit_def)
  with \<open>n < bound\<close> dec_string_digits [of n] show ?thesis by (simp add: parse_uint_def)
qed

lemma parse_uint_bound: "parse_uint bound s = Some n \<Longrightarrow> n < bound"
  by (auto simp: parse_uint_def Let_def split: if_splits)

text \<open>\<^verbatim>\<open>str::lines\<close>: a line that ends in a line feed also loses one carriage return before it; a
  last piece without a line feed is a line unless it is empty.\<close>

definition chop_cr :: "string \<Rightarrow> string" where
  "chop_cr l = (if l \<noteq> [] \<and> last l = CHR 0x0D then butlast l else l)"

definition str_lines :: "string \<Rightarrow> string list" where
  "str_lines s =
     (let ps = split_on (CHR 0x0A) s
      in map chop_cr (butlast ps) @ (if last ps = [] then [] else [last ps]))"

definition strip_suffix :: "string \<Rightarrow> string \<Rightarrow> string option" where
  "strip_suffix p s = map_option rev (strip_prefix (rev p) (rev s))"

end
