(* ===== verification/Rfb_Resources.thy ===== *)
theory Rfb_Resources
  imports Rfb_Prelude
begin

text \<open>
  Runtime limits and configuration: \<^verbatim>\<open>rfb-runtime/src/resources.rs\<close> and
  \<^verbatim>\<open>rfb-runtime/src/config.rs\<close>. The contents of \<^verbatim>\<open>/proc/meminfo\<close>, the process environment and
  the build profile are arguments. \<^verbatim>\<open>usize\<close> is \<^typ>\<open>nat\<close>; \<^verbatim>\<open>u64\<close> byte counts are 64-bit words, so
  that the arithmetic of the workspace derivation is the wrapping one of the machine.
\<close>

section \<open>Workspace size\<close>

definition MIB :: u64 where
  "MIB = 1048576"

definition WORKSPACE_TMPFS_BYTES :: u64 where
  "WORKSPACE_TMPFS_BYTES = 256 * 1024 * 1024"

definition WORKSPACE_TMPFS_MIN_BYTES :: u64 where
  "WORKSPACE_TMPFS_MIN_BYTES = 64 * MIB"

definition WORKSPACE_TMPFS_MAX_BYTES :: u64 where
  "WORKSPACE_TMPFS_MAX_BYTES = 1024 * MIB"

definition clamp :: "u64 \<Rightarrow> u64 \<Rightarrow> u64 \<Rightarrow> u64" where
  "clamp v lo hi = (if v < lo then lo else if hi < v then hi else v)"

definition derive_workspace_bytes :: "u64 \<Rightarrow> u64" where
  "derive_workspace_bytes mem_total_bytes =
     (let share_mib = mem_total_bytes div MIB * 2 div 5
      in clamp (share_mib * MIB) WORKSPACE_TMPFS_MIN_BYTES WORKSPACE_TMPFS_MAX_BYTES)"

definition u64_saturating_mul :: "u64 \<Rightarrow> nat \<Rightarrow> u64" where
  "u64_saturating_mul a b =
     (if unat a * b < 2 ^ 64 then word_of_nat (unat a * b) else 18446744073709551615)"

text \<open>
  \<open>meminfo\<close> is \<^verbatim>\<open>None\<close> when the file cannot be read. A \<^verbatim>\<open>MemTotal:\<close> line that does not parse ends
  the search (\<^verbatim>\<open>?\<close>), it does not continue with the next line.
\<close>

fun meminfo_scan :: "string list \<Rightarrow> u64 option" where
  "meminfo_scan [] = None"
| "meminfo_scan (line # rest_lines) =
     (case strip_prefix ''MemTotal:'' line of
        Some rest \<Rightarrow>
          (case strip_suffix '' kB'' (trim rest) of
             None \<Rightarrow> None
           | Some n \<Rightarrow> (case parse_uint (2 ^ 64) (trim n) of
               None \<Rightarrow> None
             | Some kib \<Rightarrow> Some (u64_saturating_mul (word_of_nat kib) 1024)))
      | None \<Rightarrow> meminfo_scan rest_lines)"

definition mem_total_bytes :: "string option \<Rightarrow> u64 option" where
  "mem_total_bytes meminfo = Option.bind meminfo (\<lambda>m. meminfo_scan (str_lines m))"

definition workspace_tmpfs_bytes :: "string option \<Rightarrow> u64" where
  "workspace_tmpfs_bytes meminfo =
     (case map_option derive_workspace_bytes (mem_total_bytes meminfo) of
        Some n \<Rightarrow> n | None \<Rightarrow> WORKSPACE_TMPFS_BYTES)"

section \<open>Limits\<close>

record runtime_limits =
  max_frame_bytes :: nat
  max_event_bytes :: nat
  channel_capacity :: nat
  max_workspace_bytes :: u64
  max_runtime_seconds :: u64

definition limits_default :: "string option \<Rightarrow> runtime_limits" where
  "limits_default meminfo =
     \<lparr>max_frame_bytes = 4 * 1024 * 1024, max_event_bytes = 512 * 1024, channel_capacity = 64,
      max_workspace_bytes = workspace_tmpfs_bytes meminfo, max_runtime_seconds = 1800\<rparr>"

definition limits_validate :: "runtime_limits \<Rightarrow> string + unit" where
  "limits_validate l =
     (if max_frame_bytes l = 0 \<or> max_frame_bytes l > 64 * 1024 * 1024
      then Inl ''invalid max_frame_bytes''
      else if max_event_bytes l = 0 \<or> max_event_bytes l > max_frame_bytes l
      then Inl ''invalid max_event_bytes''
      else if channel_capacity l = 0 \<or> channel_capacity l > 4096
      then Inl ''invalid channel_capacity''
      else if max_runtime_seconds l = 0 then Inl ''invalid max_runtime_seconds''
      else Inr ())"

section \<open>Configuration\<close>

type_synonym environment = "string \<Rightarrow> string option"

definition DEFAULT_VSOCK_PORT :: nat where
  "DEFAULT_VSOCK_PORT = 5000"

definition DEFAULT_FORKD_AGENT_ADDR :: string where
  "DEFAULT_FORKD_AGENT_ADDR = ''0.0.0.0:8888''"

definition DEFAULT_WORKSPACE :: string where
  "DEFAULT_WORKSPACE = ''/workspace''"

definition DEFAULT_ENVIRONMENT_PATH :: string where
  "DEFAULT_ENVIRONMENT_PATH = ''/etc/rfb-runtime/environment''"

definition DEFAULT_FIRECRACKER_BIN :: string where
  "DEFAULT_FIRECRACKER_BIN = ''firecracker''"

record runtime_config =
  vsock_port :: nat
  forkd_agent_addr :: string
  workspace_root :: string
  environment_path :: string
  socket_timeout :: nat
  listen_wait :: nat
  exec_default_timeout :: nat

definition config_default :: runtime_config where
  "config_default =
     \<lparr>vsock_port = DEFAULT_VSOCK_PORT, forkd_agent_addr = DEFAULT_FORKD_AGENT_ADDR,
      workspace_root = DEFAULT_WORKSPACE, environment_path = DEFAULT_ENVIRONMENT_PATH,
      socket_timeout = 10, listen_wait = 5, exec_default_timeout = 1800\<rparr>"

definition or_default :: "'a option \<Rightarrow> 'a \<Rightarrow> 'a" where
  "or_default v d = (case v of Some x \<Rightarrow> x | None \<Rightarrow> d)"

definition env_u32 :: "environment \<Rightarrow> string \<Rightarrow> nat \<Rightarrow> nat" where
  "env_u32 env name d = or_default (Option.bind (env name) (\<lambda>v. parse_uint (2 ^ 32) (trim v))) d"

definition env_secs :: "environment \<Rightarrow> string \<Rightarrow> nat \<Rightarrow> nat" where
  "env_secs env name d = or_default (Option.bind (env name) (\<lambda>v. parse_uint (2 ^ 64) (trim v))) d"

text \<open>\<^verbatim>\<open>.ok().filter(|value| !value.trim().is_empty())\<close>\<close>

definition env_text :: "environment \<Rightarrow> string \<Rightarrow> string \<Rightarrow> string" where
  "env_text env name d =
     or_default (Option.bind (env name) (\<lambda>v. if blank v then None else Some v)) d"

definition configured_vsock_port :: "bool \<Rightarrow> environment \<Rightarrow> nat" where
  "configured_vsock_port debug_assertions env =
     (if debug_assertions then env_u32 env ''RFB_RUNTIME_DEV_VSOCK_PORT'' DEFAULT_VSOCK_PORT
      else DEFAULT_VSOCK_PORT)"

definition firecracker_bin :: "environment \<Rightarrow> string" where
  "firecracker_bin env = env_text env ''RFB_FIRECRACKER_BIN'' DEFAULT_FIRECRACKER_BIN"

definition config_from_environment :: "bool \<Rightarrow> environment \<Rightarrow> runtime_config" where
  "config_from_environment debug_assertions env =
     \<lparr>vsock_port = configured_vsock_port debug_assertions env,
      forkd_agent_addr = env_text env ''FORKD_AGENT_ADDR'' DEFAULT_FORKD_AGENT_ADDR,
      workspace_root = env_text env ''RFB_RUNTIME_WORKSPACE'' DEFAULT_WORKSPACE,
      environment_path = env_text env ''RFB_RUNTIME_ENVIRONMENT'' DEFAULT_ENVIRONMENT_PATH,
      socket_timeout = env_secs env ''RFB_RUNTIME_SOCKET_TIMEOUT'' 10,
      listen_wait = env_secs env ''RFB_RUNTIME_LISTEN_WAIT'' 5,
      exec_default_timeout = env_secs env ''RFB_RUNTIME_EXEC_DEFAULT_TIMEOUT'' 1800\<rparr>"

section \<open>The derivation does not wrap\<close>

lemma unat_mult_small:
  fixes a b :: "'a::len word"
  assumes "unat a * unat b < 2 ^ LENGTH('a)"
  shows "unat (a * b) = unat a * unat b"
  using assms by (simp add: unat_word_ariths)

lemma unat_share:
  "unat (m div MIB * 2 div 5) = unat m div 1048576 * 2 div 5"
proof -
  have q: "unat (m div MIB) = unat m div 1048576"
    by (simp add: unat_div MIB_def)
  have "unat m div 1048576 < 2 ^ 44"
    using unat_lt2p [of m] by simp
  then have "unat (m div MIB * 2) = unat m div 1048576 * 2"
    using unat_mult_small [of "m div MIB" 2] q by simp
  then show ?thesis by (simp add: unat_div)
qed

lemma unat_share_bytes:
  "unat (m div MIB * 2 div 5 * MIB) = unat m div 1048576 * 2 div 5 * 1048576"
proof -
  have "unat m div 1048576 * 2 div 5 * 1048576 \<le> unat m div 1048576 * 1048576"
    by (intro mult_le_mono1) simp
  also have "\<dots> < 2 ^ 64" using unat_lt2p [of m] by simp
  finally show ?thesis
    using unat_mult_small [of "m div MIB * 2 div 5" MIB] unat_share [of m] by (simp add: MIB_def)
qed

lemma unat_tmpfs_bounds:
  "unat WORKSPACE_TMPFS_MIN_BYTES = 64 * 1048576" "unat WORKSPACE_TMPFS_MAX_BYTES = 1024 * 1048576"
  "unat WORKSPACE_TMPFS_BYTES = 256 * 1048576"
  by (simp_all add: WORKSPACE_TMPFS_MIN_BYTES_def WORKSPACE_TMPFS_MAX_BYTES_def
      WORKSPACE_TMPFS_BYTES_def MIB_def)

lemma unat_clamp: "unat (clamp v lo hi) = (if unat v < unat lo then unat lo
    else if unat hi < unat v then unat hi else unat v)"
  by (simp add: clamp_def word_less_nat_alt)

lemma unat_derive_workspace_bytes:
  "unat (derive_workspace_bytes m) =
     (let s = unat m div 1048576 * 2 div 5 * 1048576
      in if s < 64 * 1048576 then 64 * 1048576 else if 1024 * 1048576 < s then 1024 * 1048576 else s)"
  by (simp add: derive_workspace_bytes_def unat_clamp unat_share_bytes unat_tmpfs_bounds Let_def)

section \<open>Properties\<close>

text \<open>
  The size of the workspace file system, whatever \<^verbatim>\<open>/proc/meminfo\<close> says, is a whole number of
  mebibytes between 64 MiB and 1 GiB, so the 64-bit arithmetic never wraps; and above the floor it
  is at most two fifths of the guest's memory.
\<close>

theorem workspace_bytes_bounds:
  "unat (workspace_tmpfs_bytes meminfo) mod 1048576 = 0
   \<and> 64 * 1048576 \<le> unat (workspace_tmpfs_bytes meminfo)
   \<and> unat (workspace_tmpfs_bytes meminfo) \<le> 1024 * 1048576
   \<and> (\<forall>m. unat (derive_workspace_bytes m) = 64 * 1048576
        \<or> 5 * unat (derive_workspace_bytes m) \<le> 2 * unat m)"
proof -
  have d: "unat (derive_workspace_bytes m) mod 1048576 = 0
     \<and> 64 * 1048576 \<le> unat (derive_workspace_bytes m)
     \<and> unat (derive_workspace_bytes m) \<le> 1024 * 1048576
     \<and> (unat (derive_workspace_bytes m) = 64 * 1048576
        \<or> 5 * unat (derive_workspace_bytes m) \<le> 2 * unat m)" for m
  proof -
    have "5 * (unat m div 1048576 * 2 div 5 * 1048576) \<le> 2 * unat m" by linarith
    then show ?thesis by (auto simp: unat_derive_workspace_bytes Let_def)
  qed
  show ?thesis
  proof (cases "mem_total_bytes meminfo")
    case None
    then show ?thesis using d by (simp add: workspace_tmpfs_bytes_def unat_tmpfs_bounds)
  next
    case (Some n)
    then show ?thesis using d [of n] d by (simp add: workspace_tmpfs_bytes_def)
  qed
qed

text \<open>
  Configuration falls back to its documented defaults: with every variable unset or blank,
  \<^verbatim>\<open>from_environment\<close> is \<^verbatim>\<open>RuntimeConfig::default\<close>; and a release build uses port 5000 whatever the
  environment holds. The default limits pass validation on every machine.
\<close>

theorem config_defaults:
  "((\<forall>name. case env name of None \<Rightarrow> True | Some v \<Rightarrow> blank v) \<longrightarrow>
      config_from_environment debug env = config_default
      \<and> firecracker_bin env = DEFAULT_FIRECRACKER_BIN)
   \<and> vsock_port (config_from_environment False env') = 5000
   \<and> limits_validate (limits_default meminfo) = Inr ()"
proof -
  have "env_text env n d = d \<and> env_u32 env n k = k \<and> env_secs env n k = k"
    if "\<forall>name. case env name of None \<Rightarrow> True | Some v \<Rightarrow> blank v" for n d k
    using spec [OF that, of n]
    by (cases "env n")
      (auto simp: env_text_def env_u32_def env_secs_def or_default_def blank_def parse_uint_def)
  then show ?thesis
    by (auto simp: config_from_environment_def config_default_def configured_vsock_port_def
        firecracker_bin_def limits_validate_def limits_default_def DEFAULT_VSOCK_PORT_def)
qed

theorem config_defaults_witness:
  "config_from_environment True (\<lambda>n. if n = ''FORKD_AGENT_ADDR'' then Some [] else None)
     = config_default"
  using config_defaults [of "\<lambda>n. if n = ''FORKD_AGENT_ADDR'' then Some [] else None" True]
  by simp

end
