(* ===== verification/Rfb_Utf8.thy ===== *)
theory Rfb_Utf8
  imports Rfb_Prelude
begin

text \<open>
  The incremental UTF-8 decoder of \<^verbatim>\<open>rfb-runtime/src/utf8_boundary.rs\<close>, which sits between a
  child's output pipe and the transports, together with the two functions of the Rust
  standard library it is specified against: \<^verbatim>\<open>String::from_utf8_lossy\<close> and
  \<^verbatim>\<open>String::from_utf8\<close>.

  The theory shows that chunking is invisible: whatever way a stream is cut into chunks, the
  text mode yields \<^verbatim>\<open>from_utf8_lossy\<close> of the whole stream and the byte mode yields the stream
  itself, while the decoder never holds back more than three bytes.
\<close>

section \<open>UTF-8 in the standard library\<close>

text \<open>Continuation bytes, \<^verbatim>\<open>byte & 0xC0 == 0x80\<close>.\<close>

definition is_cont :: "byte \<Rightarrow> bool" where
  "is_cont b \<longleftrightarrow> b AND 0xC0 = 0x80"

text \<open>\<^verbatim>\<open>utf8_char_width\<close>: the length a first byte announces, 0 when it starts no character.\<close>

definition char_width :: "byte \<Rightarrow> nat" where
  "char_width b =
     (if b \<le> 0x7F then 1
      else if 0xC2 \<le> b \<and> b \<le> 0xDF then 2
      else if 0xE0 \<le> b \<and> b \<le> 0xEF then 3
      else if 0xF0 \<le> b \<and> b \<le> 0xF4 then 4
      else 0)"

text \<open>The second byte: overlong forms, surrogates and values past U+10FFFF are excluded here.\<close>

definition second_ok :: "byte \<Rightarrow> byte \<Rightarrow> bool" where
  "second_ok b0 b1 \<longleftrightarrow>
     (if b0 = 0xE0 then 0xA0 \<le> b1 \<and> b1 \<le> 0xBF
      else if b0 = 0xED then 0x80 \<le> b1 \<and> b1 \<le> 0x9F
      else if b0 = 0xF0 then 0x90 \<le> b1 \<and> b1 \<le> 0xBF
      else if b0 = 0xF4 then 0x80 \<le> b1 \<and> b1 \<le> 0x8F
      else is_cont b1)"

text \<open>
  How many of the \<open>k\<close> bytes expected after a first byte are there: \<open>p\<close> tests the next one,
  the ones after it are plain continuation bytes.
\<close>

fun cont_run :: "nat \<Rightarrow> (byte \<Rightarrow> bool) \<Rightarrow> bytes \<Rightarrow> nat" where
  "cont_run 0 p bs = 0"
| "cont_run (Suc k) p [] = 0"
| "cont_run (Suc k) p (b # bs) = (if p b then Suc (cont_run k is_cont bs) else 0)"

abbreviation seq_run :: "byte \<Rightarrow> bytes \<Rightarrow> nat" where
  "seq_run b bs \<equiv> cont_run (char_width b - 1) (second_ok b) bs"

definition replacement :: bytes where
  "replacement = [0xEF, 0xBF, 0xBD]"

text \<open>
  \<^verbatim>\<open>String::from_utf8_lossy\<close>: valid characters are copied, every maximal subpart of an
  ill-formed sequence becomes one U+FFFD.
\<close>

function from_utf8_lossy :: "bytes \<Rightarrow> bytes" where
  "from_utf8_lossy [] = []"
| "from_utf8_lossy (b # bs) =
     (let w = char_width b; m = seq_run b bs
      in if w = 0 then replacement @ from_utf8_lossy bs
         else if m = w - 1 then b # take m bs @ from_utf8_lossy (drop m bs)
         else replacement @ from_utf8_lossy (drop m bs))"
  by pat_completeness auto
termination
  by (relation "measure length") auto

text \<open>\<^verbatim>\<open>String::from_utf8\<close> succeeds exactly on these byte strings.\<close>

function utf8_valid :: "bytes \<Rightarrow> bool" where
  "utf8_valid [] = True"
| "utf8_valid (b # bs) =
     (let w = char_width b; m = seq_run b bs
      in w \<noteq> 0 \<and> m = w - 1 \<and> utf8_valid (drop m bs))"
  by pat_completeness auto
termination
  by (relation "measure length") auto

declare from_utf8_lossy.simps(2) [simp del] utf8_valid.simps(2) [simp del]

text \<open>A Rust \<^verbatim>\<open>String\<close> always holds valid UTF-8.\<close>

definition is_str :: "string \<Rightarrow> bool" where
  "is_str s \<longleftrightarrow> utf8_valid (as_bytes s)"

definition from_utf8 :: "bytes \<Rightarrow> string option" where
  "from_utf8 bs = (if utf8_valid bs then Some (str_of_bytes bs) else None)"

lemma is_cont_range: "is_cont b \<longleftrightarrow> 0x80 \<le> b \<and> b < 0xC0"
proof -
  have all: "list_all (\<lambda>n::int. (n AND 192 = 128) = (128 \<le> n \<and> n < 192)) [0..255]"
    by code_simp
  have "uint b < 256" using unsigned_less [of b, where ?'a = int] by simp
  then have "uint b \<in> set [0..255]" by simp
  then have "(uint b AND 192 = 128) = (128 \<le> uint b \<and> uint b < 192)"
    using all by (simp only: list_all_iff)
  then show ?thesis
    by (simp add: is_cont_def word_uint_eq_iff uint_and word_le_def word_less_def)
qed

lemma char_width_cont: "is_cont b \<Longrightarrow> char_width b = 0"
  by (auto simp: is_cont_range char_width_def word_le_nat_alt word_less_nat_alt)

lemma char_width_le: "char_width b \<le> 4"
  by (simp add: char_width_def)

lemma second_ok_cont: "second_ok b c \<Longrightarrow> is_cont c"
  by (auto simp: second_ok_def is_cont_range word_le_nat_alt word_less_nat_alt split: if_splits)

lemma cont_run_le: "cont_run k p bs \<le> k" "cont_run k p bs \<le> length bs"
  by (induction k p bs rule: cont_run.induct) auto

lemma cont_run_full:
  assumes "\<And>c. p c \<Longrightarrow> is_cont c" and "cont_run k p bs = length bs" and "c \<in> set bs"
  shows "is_cont c"
  using assms by (induction k p bs rule: cont_run.induct) (auto split: if_splits)

text \<open>
  Appending bytes changes the run only when the run reaches the end with bytes still missing
  and the next byte is a continuation byte.
\<close>

lemma cont_run_append:
  assumes "\<And>c. p c \<Longrightarrow> is_cont c"
    and "cont_run k p bs = length bs \<Longrightarrow> k \<le> length bs \<or> cs = [] \<or> \<not> is_cont (hd cs)"
  shows "cont_run k p (bs @ cs) = cont_run k p bs"
  using assms
proof (induction k p bs rule: cont_run.induct)
  case (2 k p)
  then show ?case by (cases cs) auto
qed auto

section \<open>Cutting a stream\<close>

text \<open>No suffix of \<open>bs\<close> is a well-formed but unfinished start of a character.\<close>

definition no_partial :: "bytes \<Rightarrow> bool" where
  "no_partial bs \<longleftrightarrow>
     (\<forall>u b t. bs = u @ b # t \<longrightarrow> seq_run b t = length t \<longrightarrow> char_width b - 1 \<le> length t)"

lemma no_partial_drop: "no_partial bs \<Longrightarrow> no_partial (drop n bs)"
proof -
  assume np: "no_partial bs"
  have eq: "bs = take n bs @ drop n bs" by simp
  show "no_partial (drop n bs)"
    unfolding no_partial_def
  proof (intro allI impI)
    fix u b t
    assume "drop n bs = u @ b # t" and run: "seq_run b t = length t"
    then have "bs = (take n bs @ u) @ b # t" using eq by simp
    with np run show "char_width b - 1 \<le> length t"
      unfolding no_partial_def by blast
  qed
qed

lemma no_partial_tl: "no_partial (b # bs) \<Longrightarrow> no_partial bs"
  using no_partial_drop [of "b # bs" 1] by simp

text \<open>The lossy conversion distributes over a cut that splits no character.\<close>

lemma from_utf8_lossy_append:
  assumes "no_partial xs \<or> ys = [] \<or> \<not> is_cont (hd ys)"
  shows "from_utf8_lossy (xs @ ys) = from_utf8_lossy xs @ from_utf8_lossy ys"
  using assms
proof (induction xs rule: from_utf8_lossy.induct)
  case 1
  then show ?case by simp
next
  case (2 b bs)
  let ?w = "char_width b" and ?m = "seq_run b bs"
  have run: "seq_run b (bs @ ys) = ?m"
  proof (rule cont_run_append)
    show "is_cont c" if "second_ok b c" for c using that by (rule second_ok_cont)
    show "?w - 1 \<le> length bs \<or> ys = [] \<or> \<not> is_cont (hd ys)" if "?m = length bs"
      using that "2.prems" unfolding no_partial_def by (metis append_Nil)
  qed
  have le: "?m \<le> length bs" by (rule cont_run_le)
  have prem: "no_partial bs \<or> ys = [] \<or> \<not> is_cont (hd ys)"
    "no_partial (drop ?m bs) \<or> ys = [] \<or> \<not> is_cont (hd ys)"
    using "2.prems" no_partial_tl no_partial_drop by blast+
  show ?case
    using "2.IH"(1) [OF refl refl _ prem(1)] "2.IH"(2) [OF refl refl _ _ prem(2)]
      "2.IH"(3) [OF refl refl _ _ prem(2)] le
    by (auto simp: from_utf8_lossy.simps(2) run Let_def simp del: One_nat_def)
qed

section \<open>The chunk decoder\<close>

definition MAX_SEQUENCE :: nat where
  "MAX_SEQUENCE = 4"

record utf8_chunk_decoder =
  pending :: bytes

definition decoder_new :: utf8_chunk_decoder where
  "decoder_new = \<lparr>pending = []\<rparr>"

text \<open>The expected sequence length of a lead byte, \<open>None\<close> for a byte that starts nothing.\<close>

definition expected_len :: "byte \<Rightarrow> nat option" where
  "expected_len b =
     (if b \<le> 0x7F then Some 1
      else if 0xC2 \<le> b \<and> b \<le> 0xDF then Some 2
      else if 0xE0 \<le> b \<and> b \<le> 0xEF then Some 3
      else if 0xF0 \<le> b \<and> b \<le> 0xF4 then Some 4
      else None)"

text \<open>The backwards loop: the indices still to inspect come as a list.\<close>

fun split_scan :: "bytes \<Rightarrow> nat list \<Rightarrow> nat" where
  "split_scan bs [] = length bs"
| "split_scan bs (index # rest) =
     (if bs ! index AND 0xC0 \<noteq> 0x80 then
        (case expected_len (bs ! index) of
           None \<Rightarrow> length bs
         | Some expected \<Rightarrow> if length bs - index < expected then index else length bs)
      else split_scan bs rest)"

definition utf8_safe_split :: "bytes \<Rightarrow> nat" where
  "utf8_safe_split bs =
     (if bs = [] then 0
      else split_scan bs (rev [length bs - (MAX_SEQUENCE - 1)..<length bs]))"

definition decode :: "utf8_chunk_decoder \<Rightarrow> bytes \<Rightarrow> bytes \<times> utf8_chunk_decoder" where
  "decode d chunk =
     (let bs = pending d @ chunk; split = utf8_safe_split bs
      in (from_utf8_lossy (take split bs), d\<lparr>pending := drop split bs\<rparr>))"

definition flush :: "utf8_chunk_decoder \<Rightarrow> bytes \<times> utf8_chunk_decoder" where
  "flush d = (from_utf8_lossy (pending d), d\<lparr>pending := []\<rparr>)"

definition decode_bytes :: "utf8_chunk_decoder \<Rightarrow> bytes \<Rightarrow> bytes \<times> utf8_chunk_decoder" where
  "decode_bytes d chunk =
     (let bs = pending d @ chunk; split = utf8_safe_split bs
      in (take split bs, d\<lparr>pending := drop split bs\<rparr>))"

definition flush_bytes :: "utf8_chunk_decoder \<Rightarrow> bytes \<times> utf8_chunk_decoder" where
  "flush_bytes d = (pending d, d\<lparr>pending := []\<rparr>)"

text \<open>A reader: feed the chunks one after the other, collect what comes out, then flush.\<close>

fun run_chunks ::
  "(utf8_chunk_decoder \<Rightarrow> bytes \<Rightarrow> bytes \<times> utf8_chunk_decoder) \<Rightarrow>
   (utf8_chunk_decoder \<Rightarrow> bytes \<times> utf8_chunk_decoder) \<Rightarrow>
   utf8_chunk_decoder \<Rightarrow> bytes list \<Rightarrow> bytes" where
  "run_chunks dec fl d [] = fst (fl d)"
| "run_chunks dec fl d (c # cs) =
     (case dec d c of (out, d') \<Rightarrow> out @ run_chunks dec fl d' cs)"

section \<open>Correctness\<close>

lemma expected_len_width: "char_width b = (case expected_len b of None \<Rightarrow> 0 | Some w \<Rightarrow> w)"
  by (simp add: expected_len_def char_width_def)

text \<open>
  What the backwards loop finds: the last byte that is not a continuation byte, if it lies in
  the inspected window.
\<close>

lemma split_scan_spec:
  assumes "e \<le> length bs" and "\<And>j. e \<le> j \<Longrightarrow> j < length bs \<Longrightarrow> is_cont (bs ! j)"
  shows "(\<exists>i. s \<le> i \<and> i < length bs \<and> \<not> is_cont (bs ! i)
             \<and> (\<forall>j. i < j \<and> j < length bs \<longrightarrow> is_cont (bs ! j))
             \<and> split_scan bs (rev [s..<e]) = split_scan bs [i])
       \<or> ((\<forall>j. s \<le> j \<and> j < length bs \<longrightarrow> is_cont (bs ! j))
             \<and> split_scan bs (rev [s..<e]) = length bs)"
  using assms
proof (induction e)
  case 0
  then show ?case by auto
next
  case (Suc e)
  show ?case
  proof (cases "s \<le> e")
    case False
    with Suc.prems show ?thesis by auto
  next
    case True
    then have list: "rev [s..<Suc e] = e # rev [s..<e]" by simp
    show ?thesis
    proof (cases "is_cont (bs ! e)")
      case True
      have "is_cont (bs ! j)" if "e \<le> j" "j < length bs" for j
        using that Suc.prems(2) True by (cases "j = e") auto
      moreover have "split_scan bs (rev [s..<Suc e]) = split_scan bs (rev [s..<e])"
        using True list by (simp add: is_cont_def)
      ultimately show ?thesis using Suc.IH Suc.prems(1) by (metis Suc_leD)
    next
      case False
      then have "split_scan bs (rev [s..<Suc e]) = split_scan bs [e]"
        using list by (simp add: is_cont_def)
      then show ?thesis
        using False Suc.prems \<open>s \<le> e\<close> by (intro disjI1 exI [of _ e]) auto
    qed
  qed
qed

lemma no_partial_intro:
  assumes "\<And>k. k < length bs \<Longrightarrow> (\<And>j. k < j \<Longrightarrow> j < length bs \<Longrightarrow> is_cont (bs ! j)) \<Longrightarrow>
    char_width (bs ! k) \<le> length bs - k"
  shows "no_partial bs"
  unfolding no_partial_def
proof (intro allI impI)
  fix u b t
  assume bs: "bs = u @ b # t" and run: "seq_run b t = length t"
  have "is_cont (bs ! j)" if "length u < j" "j < length bs" for j
  proof -
    have "bs ! j = t ! (j - Suc (length u))" and "j - Suc (length u) < length t"
      using that unfolding bs by (simp_all add: nth_append)
    then have "bs ! j \<in> set t" by simp
    show ?thesis
    proof (rule cont_run_full [of "second_ok b"])
      show "seq_run b t = length t" "bs ! j \<in> set t" by fact+
    qed (rule second_ok_cont)
  qed
  moreover have "length u < length bs" using bs by simp
  ultimately have "char_width (bs ! length u) \<le> length bs - length u"
    by (rule assms [rotated])
  with bs show "char_width b - 1 \<le> length t" by simp
qed

text \<open>The cut is safe: at the end with nothing unfinished, or right before a lead byte.\<close>

lemma utf8_safe_split_cases:
  "(utf8_safe_split bs = length bs \<and> no_partial bs)
   \<or> (utf8_safe_split bs < length bs \<and> length bs - utf8_safe_split bs < MAX_SEQUENCE
      \<and> \<not> is_cont (bs ! utf8_safe_split bs))"
proof (cases "bs = []")
  case True
  then show ?thesis by (simp add: utf8_safe_split_def no_partial_def)
next
  case False
  let ?s = "length bs - 3"
  have eq: "utf8_safe_split bs = split_scan bs (rev [?s..<length bs])"
    using False by (simp add: utf8_safe_split_def MAX_SEQUENCE_def)
  from split_scan_spec [of "length bs" bs ?s] consider
    (lead) i where "?s \<le> i" "i < length bs" "\<not> is_cont (bs ! i)"
      "\<And>j. i < j \<Longrightarrow> j < length bs \<Longrightarrow> is_cont (bs ! j)"
      "utf8_safe_split bs = split_scan bs [i]"
  | (none) "\<And>j. ?s \<le> j \<Longrightarrow> j < length bs \<Longrightarrow> is_cont (bs ! j)"
      "utf8_safe_split bs = length bs"
    using eq by auto
  then show ?thesis
  proof cases
    case none
    have "no_partial bs"
    proof (rule no_partial_intro)
      fix k assume "k < length bs"
      show "char_width (bs ! k) \<le> length bs - k"
      proof (cases "?s \<le> k")
        case True
        with none(1) \<open>k < length bs\<close> show ?thesis by (simp add: char_width_cont)
      next
        case False
        then show ?thesis using char_width_le [of "bs ! k"] by linarith
      qed
    qed
    with none(2) show ?thesis by simp
  next
    case (lead i)
    show ?thesis
    proof (cases "length bs - i < char_width (bs ! i)")
      case True
      then have "utf8_safe_split bs = i"
        using lead(3,5) by (auto simp: is_cont_def expected_len_width split: option.splits)
      with lead(1-3) show ?thesis by (auto simp: MAX_SEQUENCE_def)
    next
      case False
      then have "utf8_safe_split bs = length bs"
        using lead(3,5) by (auto simp: is_cont_def expected_len_width split: option.splits)
      moreover have "no_partial bs"
      proof (rule no_partial_intro)
        fix k assume k: "k < length bs"
          and after: "\<And>j. k < j \<Longrightarrow> j < length bs \<Longrightarrow> is_cont (bs ! j)"
        consider "k < i" | "k = i" | "i < k" by linarith
        then show "char_width (bs ! k) \<le> length bs - k"
          using after [of i] lead(2,3) lead(4) [of k] k False by cases (auto simp: char_width_cont)
      qed
      ultimately show ?thesis by simp
    qed
  qed
qed

text \<open>One cut of the joined bytes commutes with the lossy conversion of everything to come.\<close>

lemma from_utf8_lossy_cut:
  "from_utf8_lossy (take (utf8_safe_split bs) bs)
     @ from_utf8_lossy (drop (utf8_safe_split bs) bs @ later) = from_utf8_lossy (bs @ later)"
proof -
  let ?n = "utf8_safe_split bs"
  have "no_partial (take ?n bs) \<or> drop ?n bs @ later = [] \<or> \<not> is_cont (hd (drop ?n bs @ later))"
    using utf8_safe_split_cases [of bs] by (auto simp: hd_append hd_drop_conv_nth)
  then have "from_utf8_lossy (take ?n bs @ (drop ?n bs @ later))
      = from_utf8_lossy (take ?n bs) @ from_utf8_lossy (drop ?n bs @ later)"
    by (rule from_utf8_lossy_append)
  then show ?thesis by (metis append.assoc append_take_drop_id)
qed

lemma run_chunks_decode:
  "run_chunks decode flush d cs = from_utf8_lossy (pending d @ concat cs)"
proof (induction cs arbitrary: d)
  case Nil
  then show ?case by (simp add: flush_def)
next
  case (Cons c cs)
  let ?bs = "pending d @ c"
  have "run_chunks decode flush d (c # cs) =
      from_utf8_lossy (take (utf8_safe_split ?bs) ?bs)
        @ from_utf8_lossy (drop (utf8_safe_split ?bs) ?bs @ concat cs)"
    using Cons.IH [of "snd (decode d c)"]
    by (simp add: decode_def [of d c] Let_def del: take_append drop_append)
  then show ?case
    by (simp add: from_utf8_lossy_cut del: take_append drop_append)
qed

lemma run_chunks_decode_bytes:
  "run_chunks decode_bytes flush_bytes d cs = pending d @ concat cs"
proof (induction cs arbitrary: d)
  case Nil
  then show ?case by (simp add: flush_bytes_def)
next
  case (Cons c cs)
  let ?bs = "pending d @ c"
  have "run_chunks decode_bytes flush_bytes d (c # cs) =
      take (utf8_safe_split ?bs) ?bs @ (drop (utf8_safe_split ?bs) ?bs @ concat cs)"
    using Cons.IH [of "snd (decode_bytes d c)"]
    by (simp add: decode_bytes_def [of d c] Let_def del: take_append drop_append)
  also have "\<dots> = pending d @ concat (c # cs)"
    by (metis append.assoc append_take_drop_id concat.simps(2))
  finally show ?case .
qed

text \<open>
  C33. Chunk boundaries are invisible in text mode: for every way of cutting a stream into
  chunks, the decoded strings and the final flush, put together, are exactly
  \<^verbatim>\<open>String::from_utf8_lossy\<close> of the whole stream, ill-formed bytes included.
\<close>

theorem decode_stream_lossy:
  "run_chunks decode flush decoder_new chunks = from_utf8_lossy (concat chunks)"
  by (simp add: run_chunks_decode decoder_new_def)

text \<open>
  The byte mode is lossless, and the decoder's buffer stays below \<^verbatim>\<open>MAX_SEQUENCE\<close>: the
  outputs and the flush are the original stream byte for byte, and after every chunk, whatever
  was pending before, fewer than four bytes are withheld.
\<close>

theorem decode_bytes_exact_bounded:
  "run_chunks decode_bytes flush_bytes decoder_new chunks = concat chunks
   \<and> length (pending (snd (decode_bytes d chunk))) < MAX_SEQUENCE
   \<and> length (pending (snd (decode d chunk))) < MAX_SEQUENCE"
  using utf8_safe_split_cases [of "pending d @ chunk"]
  by (auto simp: run_chunks_decode_bytes decoder_new_def decode_bytes_def decode_def Let_def
      MAX_SEQUENCE_def)

text \<open>Valid text is a fixed point of the lossy conversion.\<close>

lemma from_utf8_lossy_valid: "utf8_valid bs \<Longrightarrow> from_utf8_lossy bs = bs"
proof (induction bs rule: utf8_valid.induct)
  case (2 b bs)
  then show ?case by (auto simp: utf8_valid.simps(2) from_utf8_lossy.simps(2) Let_def)
qed simp

lemma from_utf8_as_bytes [simp]: "is_str s \<Longrightarrow> from_utf8 (as_bytes s) = Some s"
  by (simp add: from_utf8_def is_str_def)

lemma from_utf8_Some: "from_utf8 bs = Some s \<longleftrightarrow> is_str s \<and> bs = as_bytes s"
  by (auto simp: from_utf8_def is_str_def)

text \<open>ASCII text is a string.\<close>

lemma utf8_valid_ascii: "(\<And>b. b \<in> set bs \<Longrightarrow> b \<le> 0x7F) \<Longrightarrow> utf8_valid bs"
  by (induction bs) (auto simp: utf8_valid.simps(2) char_width_def Let_def)

lemma is_str_ascii: "list_all (\<lambda>c. of_char c < (128 :: nat)) s \<Longrightarrow> is_str s"
  unfolding is_str_def
proof (rule utf8_valid_ascii)
  fix b assume "list_all (\<lambda>c. of_char c < (128 :: nat)) s" and "b \<in> set (as_bytes s)"
  then obtain c where "b = word_of_nat (of_char c)" and c: "of_char c < (128 :: nat)"
    by (auto simp: as_bytes_def list_all_iff)
  then have "unat b = of_char c" by (simp add: unat_byte_of_nat)
  with c show "b \<le> 0x7F" by (simp add: word_le_nat_alt)
qed

end
