(* ===== verification/Zbrt_Wire.thy ===== *)
theory Zbrt_Wire
  imports Rfb_Utf8
begin

text \<open>
  The ZBRT v1 wire protocol, \<^verbatim>\<open>rfb-runtime/src/zeroboot_protocol.rs\<close>: the payload codecs of
  every message, the 28-byte frame header, frame reading from a byte stream, and the host
  session that negotiates capabilities and registers requests.

  A payload decoder of the source takes \<^verbatim>\<open>&mut &[u8]\<close> and may fail: here it is a function
  from the remaining bytes to an error or a value with the bytes left over, and \<open>pbind\<close> is
  sequencing with the \<^verbatim>\<open>?\<close> operator. The contract of a payload codec is the locale
  \<open>wire_codec\<close>; codecs that also reject every truncation satisfy \<open>strict_wire_codec\<close>.
\<close>

datatype io_error = InvalidData string | UnexpectedEof

type_synonym 'a parser = "bytes \<Rightarrow> io_error + ('a \<times> bytes)"

definition pret :: "'a \<Rightarrow> 'a parser" where
  "pret x b = Inr (x, b)"

definition pbind :: "'a parser \<Rightarrow> ('a \<Rightarrow> 'b parser) \<Rightarrow> 'b parser" where
  "pbind p f b = res_bind (p b) (\<lambda>(x, r). f x r)"

section \<open>Field primitives\<close>

definition err :: "string \<Rightarrow> io_error" where
  "err s = InvalidData s"

definition put :: "bytes \<Rightarrow> bytes \<Rightarrow> io_error + bytes" where
  "put out b =
     (if length b < 2 ^ 32 then Inr (out @ u32_to_be_bytes (word_of_nat (length b)) @ b)
      else Inl (err ''field too large''))"

definition get :: "bytes parser" where
  "get b =
     (if length b < 4 then Inl (err ''truncated payload'')
      else (let n = unat (u32_from_be_bytes (take 4 b)); b' = drop 4 b
            in if length b' < n then Inl (err ''truncated payload'')
               else Inr (take n b', drop n b')))"

definition put_text :: "bytes \<Rightarrow> string \<Rightarrow> io_error + bytes" where
  "put_text out s = put out (as_bytes s)"

definition gettext :: "string parser" where
  "gettext = pbind get (\<lambda>x. case from_utf8 x of
     None \<Rightarrow> (\<lambda>_. Inl (err ''invalid utf8'')) | Some s \<Rightarrow> pret s)"

definition getn :: "nat \<Rightarrow> bytes parser" where
  "getn n b = (if length b < n then Inl (err ''truncated payload'') else Inr (take n b, drop n b))"

definition getu8 :: "byte parser" where
  "getu8 = pbind (getn 1) (\<lambda>x. pret (x ! 0))"

definition getflag :: "bool parser" where
  "getflag = pbind (getn 1) (\<lambda>x. pret (x ! 0 \<noteq> 0))"

text \<open>\<^verbatim>\<open>for s in list { text(&mut o, s)? }\<close> and \<^verbatim>\<open>for _ in 0..n { v.push(gettext(b)?) }\<close>.\<close>

fun put_texts :: "bytes \<Rightarrow> string list \<Rightarrow> io_error + bytes" where
  "put_texts out [] = Inr out"
| "put_texts out (s # ss) = res_bind (put_text out s) (\<lambda>out'. put_texts out' ss)"

fun get_texts :: "nat \<Rightarrow> string list parser" where
  "get_texts 0 = pret []"
| "get_texts (Suc n) = pbind gettext (\<lambda>s. pbind (get_texts n) (\<lambda>ss. pret (s # ss)))"

definition u8_try_from :: "string \<Rightarrow> nat \<Rightarrow> io_error + byte" where
  "u8_try_from m n = (if n < 256 then Inr (word_of_nat n) else Inl (err m))"

definition put_opt_text :: "bytes \<Rightarrow> string option \<Rightarrow> io_error + bytes" where
  "put_opt_text out v = (case v of Some s \<Rightarrow> put_text (out @ [1]) s | None \<Rightarrow> Inr (out @ [0]))"

definition get_opt_text :: "string option parser" where
  "get_opt_text =
     pbind getflag (\<lambda>c. if c then pbind gettext (\<lambda>s. pret (Some s)) else pret None)"

text \<open>The \<^verbatim>\<open>decode\<close> of the \<^verbatim>\<open>codec!\<close> macro: all bytes must be consumed.\<close>

definition decode_payload :: "'a parser \<Rightarrow> bytes \<Rightarrow> io_error + 'a" where
  "decode_payload dec b =
     res_bind (dec b) (\<lambda>(v, r). if r \<noteq> [] then Inl (err ''trailing payload'') else Inr v)"

section \<open>Messages\<close>

record hello =
  hello_client :: string
  hello_capabilities :: "string list"

record hello_ack =
  ack_server :: string
  ack_capabilities :: "string list"

record execute =
  exec_argv :: "string list"
  exec_cwd :: "string option"
  exec_stdin :: bytes
  exec_timeout_ms :: u32

record zoutput =
  out_stream :: byte
  out_data :: bytes

record zexit =
  exit_code :: u32
  exit_signal :: "u32 option"

record cancel =
  cancel_reason :: "string option"
  cancel_target :: "bytes option"

record zfs =
  fs_op :: byte
  fs_path :: string
  fs_data :: bytes

record health =
  health_healthy :: bool
  health_message :: "string option"

record zerror =
  err_code :: u32
  err_message :: string

definition hello_encode :: "hello \<Rightarrow> io_error + bytes" where
  "hello_encode x =
     res_bind (put_text [] (hello_client x)) (\<lambda>o1.
     res_bind (u8_try_from ''too many capabilities'' (length (hello_capabilities x))) (\<lambda>n.
     put_texts (o1 @ [n]) (hello_capabilities x)))"

definition first_byte :: "byte parser" where
  "first_byte b = (case b of [] \<Rightarrow> Inl (err ''truncated payload'') | x # r \<Rightarrow> Inr (x, r))"

definition hello_dec :: "hello parser" where
  "hello_dec =
     pbind gettext (\<lambda>client. pbind first_byte (\<lambda>n. pbind (get_texts (unat n)) (\<lambda>capabilities.
     pret \<lparr>hello_client = client, hello_capabilities = capabilities\<rparr>)))"

definition execute_encode :: "execute \<Rightarrow> io_error + bytes" where
  "execute_encode x =
     res_bind (u8_try_from ''too many arguments'' (length (exec_argv x))) (\<lambda>n.
     res_bind (put_texts [n] (exec_argv x)) (\<lambda>o1.
     res_bind (put_opt_text o1 (exec_cwd x)) (\<lambda>o2.
     res_bind (put o2 (exec_stdin x)) (\<lambda>o3.
     Inr (o3 @ u32_to_be_bytes (exec_timeout_ms x))))))"

definition execute_dec :: "execute parser" where
  "execute_dec =
     pbind first_byte (\<lambda>n. pbind (get_texts (unat n)) (\<lambda>argv. pbind get_opt_text (\<lambda>cwd.
     pbind get (\<lambda>stdin. pbind (getn 4) (\<lambda>t.
     pret \<lparr>exec_argv = argv, exec_cwd = cwd, exec_stdin = stdin,
           exec_timeout_ms = u32_from_be_bytes t\<rparr>)))))"

definition output_encode :: "zoutput \<Rightarrow> io_error + bytes" where
  "output_encode x = put [out_stream x] (out_data x)"

definition output_dec :: "zoutput parser" where
  "output_dec =
     pbind getu8 (\<lambda>stream. pbind get (\<lambda>d. pret \<lparr>out_stream = stream, out_data = d\<rparr>))"

definition exit_encode :: "zexit \<Rightarrow> io_error + bytes" where
  "exit_encode x =
     Inr (u32_to_be_bytes (exit_code x)
          @ (case exit_signal x of None \<Rightarrow> [0] | Some v \<Rightarrow> 1 # u32_to_be_bytes v))"

definition exit_dec :: "zexit parser" where
  "exit_dec =
     pbind (getn 4) (\<lambda>c. pbind getflag (\<lambda>f.
     pbind (if f then pbind (getn 4) (\<lambda>v. pret (Some (u32_from_be_bytes v))) else pret None) (\<lambda>sig.
     pret \<lparr>exit_code = u32_from_be_bytes c, exit_signal = sig\<rparr>)))"

definition cancel_encode :: "cancel \<Rightarrow> io_error + bytes" where
  "cancel_encode x =
     res_bind (put_opt_text [] (cancel_reason x)) (\<lambda>o1.
     Inr (case cancel_target x of Some i \<Rightarrow> o1 @ [1] @ i | None \<Rightarrow> o1 @ [0]))"

text \<open>A payload that ends after the reason is the legacy form and targets the active request.\<close>

definition cancel_target_dec :: "bytes option parser" where
  "cancel_target_dec b =
     (if b = [] then Inr (None, b)
      else pbind getflag (\<lambda>f. if f then pbind (getn 16) (\<lambda>i. pret (Some i)) else pret None) b)"

definition cancel_dec :: "cancel parser" where
  "cancel_dec =
     pbind get_opt_text (\<lambda>reason. pbind cancel_target_dec (\<lambda>target.
     pret \<lparr>cancel_reason = reason, cancel_target = target\<rparr>))"

definition fs_encode :: "zfs \<Rightarrow> io_error + bytes" where
  "fs_encode x = res_bind (put_text [fs_op x] (fs_path x)) (\<lambda>o1. put o1 (fs_data x))"

definition fs_dec :: "zfs parser" where
  "fs_dec =
     pbind getu8 (\<lambda>op. pbind gettext (\<lambda>path. pbind get (\<lambda>d.
     pret \<lparr>fs_op = op, fs_path = path, fs_data = d\<rparr>)))"

definition health_encode :: "health \<Rightarrow> io_error + bytes" where
  "health_encode x = put_opt_text [if health_healthy x then 1 else 0] (health_message x)"

definition health_dec :: "health parser" where
  "health_dec =
     pbind getflag (\<lambda>h. pbind get_opt_text (\<lambda>m.
     pret \<lparr>health_healthy = h, health_message = m\<rparr>))"

definition error_encode :: "zerror \<Rightarrow> io_error + bytes" where
  "error_encode x = put_text (u32_to_be_bytes (err_code x)) (err_message x)"

definition error_dec :: "zerror parser" where
  "error_dec =
     pbind (getn 4) (\<lambda>c. pbind gettext (\<lambda>m.
     pret \<lparr>err_code = u32_from_be_bytes c, err_message = m\<rparr>))"

definition hello_ack_encode :: "hello_ack \<Rightarrow> io_error + bytes" where
  "hello_ack_encode x =
     res_bind (put_text [] (ack_server x)) (\<lambda>o1.
     res_bind (u8_try_from ''too many capabilities'' (length (ack_capabilities x))) (\<lambda>n.
     put_texts (o1 @ [n]) (ack_capabilities x)))"

definition hello_ack_dec :: "hello_ack parser" where
  "hello_ack_dec =
     pbind gettext (\<lambda>server. pbind getu8 (\<lambda>n. pbind (get_texts (unat n)) (\<lambda>capabilities.
     pret \<lparr>ack_server = server, ack_capabilities = capabilities\<rparr>)))"

text \<open>The type invariants of the Rust structs: strings are UTF-8, a target is 16 bytes.\<close>

definition wf_opt_str :: "string option \<Rightarrow> bool" where
  "wf_opt_str v = (case v of None \<Rightarrow> True | Some s \<Rightarrow> is_str s)"

definition wf_hello :: "hello \<Rightarrow> bool" where
  "wf_hello x \<longleftrightarrow> is_str (hello_client x) \<and> list_all is_str (hello_capabilities x)"

definition wf_hello_ack :: "hello_ack \<Rightarrow> bool" where
  "wf_hello_ack x \<longleftrightarrow> is_str (ack_server x) \<and> list_all is_str (ack_capabilities x)"

definition wf_execute :: "execute \<Rightarrow> bool" where
  "wf_execute x \<longleftrightarrow> list_all is_str (exec_argv x) \<and> wf_opt_str (exec_cwd x)"

definition wf_cancel :: "cancel \<Rightarrow> bool" where
  "wf_cancel x \<longleftrightarrow> wf_opt_str (cancel_reason x)
     \<and> (case cancel_target x of None \<Rightarrow> True | Some i \<Rightarrow> length i = 16)"

section \<open>The codec contract\<close>

text \<open>
  What the two sides of the wire rely on: decoding reads back what was encoded and stops
  exactly where the encoding ended, whatever follows.
\<close>

locale wire_codec =
  fixes enc :: "'a \<Rightarrow> io_error + bytes"
    and dec :: "'a parser"
    and wf :: "'a \<Rightarrow> bool"
  assumes dec_enc: "wf x \<Longrightarrow> enc x = Inr bs \<Longrightarrow> dec (bs @ r) = Inr (x, r)"
begin

lemma roundtrip:
  assumes "wf x" "enc x = Inr bs"
  shows "decode_payload dec bs = Inr x"
  using dec_enc [OF assms, of "[]"] by (simp add: decode_payload_def)

lemma trailing_rejected:
  assumes "wf x" "enc x = Inr bs" "r \<noteq> []"
  shows "decode_payload dec (bs @ r) = Inl (err ''trailing payload'')"
  using dec_enc [OF assms(1,2), of r] assms(3) by (simp add: decode_payload_def)

lemma enc_prefix_free:
  assumes "wf x" "wf y" "enc x = Inr bs" "enc y = Inr (bs @ r)"
  shows "x = y \<and> r = []"
  using dec_enc [OF assms(1,3), of r] dec_enc [OF assms(2,4), of "[]"] by simp

end

text \<open>A decoder that consumes a definite number of bytes is not confused by what follows.\<close>

locale strict_wire_codec = wire_codec +
  assumes dec_extend: "dec bs = Inr (y, r) \<Longrightarrow> dec (bs @ s) = Inr (y, r @ s)"
begin

lemma truncation_rejected:
  assumes "wf x" "enc x = Inr (p @ q)" "q \<noteq> []"
  shows "\<not> is_ok (decode_payload dec p)"
proof
  assume "is_ok (decode_payload dec p)"
  then obtain y where "dec p = Inr (y, [])"
    by (auto simp: decode_payload_def is_ok_def res_bind_eq_Inr_conv split: sum.splits if_splits)
  then have "dec (p @ q) = Inr (y, q)" using dec_extend [of p y "[]" q] by simp
  with dec_enc [OF assms(1,2), of "[]"] assms(3) show False by simp
qed

end

section \<open>The field primitives keep the contract\<close>

lemma pbind_Inr [simp]: "p b = Inr (x, r) \<Longrightarrow> pbind p f b = f x r"
  by (simp add: pbind_def)

lemma put_eq_Inr:
  "put out b = Inr bs \<longleftrightarrow>
     length b < 2 ^ 32 \<and> bs = out @ u32_to_be_bytes (word_of_nat (length b)) @ b"
  by (auto simp: put_def)

lemma get_put [simp]:
  "length b < 2 ^ 32 \<Longrightarrow> get (u32_to_be_bytes (word_of_nat (length b)) @ b @ r) = Inr (b, r)"
  by (simp add: get_def unat_u32_of_nat)

lemma gettext_put [simp]:
  "is_str s \<Longrightarrow> length s < 2 ^ 32 \<Longrightarrow>
     gettext (u32_to_be_bytes (word_of_nat (length s)) @ as_bytes s @ r) = Inr (s, r)"
  using get_put [of "as_bytes s" r]
  by (simp add: gettext_def pret_def)

lemma getn_append [simp]: "length b = n \<Longrightarrow> getn n (b @ r) = Inr (b, r)"
  by (simp add: getn_def)

lemma getn_exact [simp]: "length b = n \<Longrightarrow> getn n b = Inr (b, [])"
  by (simp add: getn_def)

lemma byte_readers [simp]:
  "getu8 (x # r) = Inr (x, r)" "first_byte (x # r) = Inr (x, r)"
  "getflag (x # r) = Inr (x \<noteq> 0, r)"
  by (simp_all add: getu8_def first_byte_def getflag_def getn_def pret_def pbind_def)

lemma pbind_getflag [simp]: "pbind getflag f (x # r) = f (x \<noteq> 0) r"
  by (simp add: pbind_def)

lemma put_texts_eq_Inr:
  "put_texts out ss = Inr bs \<longleftrightarrow> list_all (\<lambda>s. length s < 2 ^ 32) ss
     \<and> bs = out @ concat (map (\<lambda>s. u32_to_be_bytes (word_of_nat (length s)) @ as_bytes s) ss)"
  by (induction out ss arbitrary: bs rule: put_texts.induct)
    (auto simp: put_text_def put_eq_Inr res_bind_eq_Inr_conv)

lemma get_texts_put [simp]:
  "list_all is_str ss \<Longrightarrow> list_all (\<lambda>s. length s < 2 ^ 32) ss \<Longrightarrow>
   get_texts (length ss)
     (concat (map (\<lambda>s. u32_to_be_bytes (word_of_nat (length s)) @ as_bytes s) ss) @ r)
   = Inr (ss, r)"
  by (induction ss arbitrary: r) (simp_all add: pret_def)

lemma u8_try_from_eq_Inr:
  "u8_try_from m n = Inr x \<longleftrightarrow> n < 256 \<and> x = word_of_nat n"
  by (auto simp: u8_try_from_def)

lemma unat_u8_of_nat [simp]: "n < 256 \<Longrightarrow> unat (word_of_nat n :: byte) = n"
  by (simp add: unat_of_nat)

lemma put_opt_text_eq_Inr:
  "put_opt_text out v = Inr bs \<longleftrightarrow>
     (case v of None \<Rightarrow> bs = out @ [0]
      | Some s \<Rightarrow> length s < 2 ^ 32
          \<and> bs = out @ 1 # u32_to_be_bytes (word_of_nat (length s)) @ as_bytes s)"
  by (auto simp: put_opt_text_def put_text_def put_eq_Inr split: option.splits)

lemma get_opt_text_None [simp]: "get_opt_text (0 # r) = Inr (None, r)"
  by (simp add: get_opt_text_def pret_def)

lemma get_opt_text_Some [simp]:
  "is_str s \<Longrightarrow> length s < 2 ^ 32 \<Longrightarrow>
   get_opt_text (1 # u32_to_be_bytes (word_of_nat (length s)) @ as_bytes s @ r) = Inr (Some s, r)"
  by (simp add: get_opt_text_def pret_def)

lemmas put_eqs = put_eq_Inr put_text_def put_texts_eq_Inr put_opt_text_eq_Inr u8_try_from_eq_Inr
  res_bind_eq_Inr_conv

text \<open>Extension: a decoder that succeeded succeeds the same way with more bytes behind.\<close>

definition extendable :: "'a parser \<Rightarrow> bool" where
  "extendable p \<longleftrightarrow> (\<forall>bs x r s. p bs = Inr (x, r) \<longrightarrow> p (bs @ s) = Inr (x, r @ s))"

named_theorems extend_intros "decoders that commute with appended bytes"

lemma extendableD: "extendable p \<Longrightarrow> p bs = Inr (x, r) \<Longrightarrow> p (bs @ s) = Inr (x, r @ s)"
  by (simp add: extendable_def)

lemma extendable_pret [extend_intros]: "extendable (pret x)"
  by (simp add: extendable_def pret_def)

lemma extendable_fail [extend_intros]: "extendable (\<lambda>_. Inl e)"
  by (simp add: extendable_def)

lemma extendable_pbind [extend_intros]:
  assumes "extendable p" "\<And>x. extendable (f x)"
  shows "extendable (pbind p f)"
  unfolding extendable_def
proof (intro allI impI)
  fix bs y r s
  assume "pbind p f bs = Inr (y, r)"
  then obtain x r' where "p bs = Inr (x, r')" "f x r' = Inr (y, r)"
    by (auto simp: pbind_def res_bind_eq_Inr_conv)
  with assms show "pbind p f (bs @ s) = Inr (y, r @ s)"
    by (simp add: extendableD)
qed

lemma extendable_getn [extend_intros]: "extendable (getn n)"
  by (auto simp: extendable_def getn_def split: if_splits)

lemma extendable_first_byte [extend_intros]: "extendable first_byte"
  by (auto simp: extendable_def first_byte_def split: list.splits)

lemma extendable_get [extend_intros]: "extendable get"
  by (auto simp: extendable_def get_def Let_def split: if_splits)

lemma extendable_if [extend_intros]:
  "extendable p \<Longrightarrow> extendable q \<Longrightarrow> extendable (if c then p else q)"
  by simp

lemma extendable_gettext [extend_intros]: "extendable gettext"
  unfolding gettext_def
proof (rule extendable_pbind)
  show "extendable (case from_utf8 x of None \<Rightarrow> \<lambda>_. Inl (err ''invalid utf8'') | Some s \<Rightarrow> pret s)"
    for x by (cases "from_utf8 x") (simp_all add: extend_intros)
qed (rule extend_intros)

lemma extendable_get_texts [extend_intros]: "extendable (get_texts n)"
  by (induction n) (simp_all add: extend_intros)

lemma extendable_fields [extend_intros]:
  "extendable getu8" "extendable getflag" "extendable get_opt_text"
  by (simp_all add: getu8_def getflag_def get_opt_text_def extend_intros)

section \<open>Every message keeps the contract\<close>

interpretation hello_codec: strict_wire_codec hello_encode hello_dec wf_hello
proof unfold_locales
  show "hello_dec (bs @ r) = Inr (x, r)" if "wf_hello x" "hello_encode x = Inr bs" for x bs r
    using that by (auto simp: hello_encode_def hello_dec_def wf_hello_def put_eqs pret_def)
  show "hello_dec (bs @ s) = Inr (y, r @ s)" if "hello_dec bs = Inr (y, r)" for bs y r s
    using that by (rule extendableD [rotated]) (simp add: hello_dec_def extend_intros)
qed

interpretation hello_ack_codec: strict_wire_codec hello_ack_encode hello_ack_dec wf_hello_ack
proof unfold_locales
  show "hello_ack_dec (bs @ r) = Inr (x, r)"
    if "wf_hello_ack x" "hello_ack_encode x = Inr bs" for x bs r
    using that by (auto simp: hello_ack_encode_def hello_ack_dec_def wf_hello_ack_def put_eqs pret_def)
  show "hello_ack_dec (bs @ s) = Inr (y, r @ s)" if "hello_ack_dec bs = Inr (y, r)" for bs y r s
    using that by (rule extendableD [rotated]) (simp add: hello_ack_dec_def extend_intros)
qed

interpretation execute_codec: strict_wire_codec execute_encode execute_dec wf_execute
proof unfold_locales
  show "execute_dec (bs @ r) = Inr (x, r)"
    if "wf_execute x" "execute_encode x = Inr bs" for x bs r
    using that
    by (cases "exec_cwd x")
      (auto simp: execute_encode_def execute_dec_def wf_execute_def wf_opt_str_def put_eqs pret_def)
  show "execute_dec (bs @ s) = Inr (y, r @ s)" if "execute_dec bs = Inr (y, r)" for bs y r s
    using that by (rule extendableD [rotated]) (simp add: execute_dec_def extend_intros)
qed

interpretation output_codec: strict_wire_codec output_encode output_dec "\<lambda>_. True"
proof unfold_locales
  show "output_dec (bs @ r) = Inr (x, r)" if "output_encode x = Inr bs" for x bs r
    using that by (auto simp: output_encode_def output_dec_def put_eqs pret_def)
  show "output_dec (bs @ s) = Inr (y, r @ s)" if "output_dec bs = Inr (y, r)" for bs y r s
    using that by (rule extendableD [rotated]) (simp add: output_dec_def extend_intros)
qed

interpretation exit_codec: strict_wire_codec exit_encode exit_dec "\<lambda>_. True"
proof unfold_locales
  show "exit_dec (bs @ r) = Inr (x, r)" if "exit_encode x = Inr bs" for x bs r
    using that by (cases "exit_signal x") (auto simp: exit_encode_def exit_dec_def pret_def)
  show "exit_dec (bs @ s) = Inr (y, r @ s)" if "exit_dec bs = Inr (y, r)" for bs y r s
    using that by (rule extendableD [rotated]) (simp add: exit_dec_def extend_intros)
qed

interpretation fs_codec: strict_wire_codec fs_encode fs_dec "\<lambda>x. is_str (fs_path x)"
proof unfold_locales
  show "fs_dec (bs @ r) = Inr (x, r)" if "is_str (fs_path x)" "fs_encode x = Inr bs" for x bs r
    using that by (auto simp: fs_encode_def fs_dec_def put_eqs pret_def)
  show "fs_dec (bs @ s) = Inr (y, r @ s)" if "fs_dec bs = Inr (y, r)" for bs y r s
    using that by (rule extendableD [rotated]) (simp add: fs_dec_def extend_intros)
qed

interpretation health_codec: strict_wire_codec health_encode health_dec
  "\<lambda>x. wf_opt_str (health_message x)"
proof unfold_locales
  show "health_dec (bs @ r) = Inr (x, r)"
    if "wf_opt_str (health_message x)" "health_encode x = Inr bs" for x bs r
    using that
    by (cases "health_message x")
      (auto simp: health_encode_def health_dec_def wf_opt_str_def put_eqs pret_def)
  show "health_dec (bs @ s) = Inr (y, r @ s)" if "health_dec bs = Inr (y, r)" for bs y r s
    using that by (rule extendableD [rotated]) (simp add: health_dec_def extend_intros)
qed

interpretation error_codec: strict_wire_codec error_encode error_dec "\<lambda>x. is_str (err_message x)"
proof unfold_locales
  show "error_dec (bs @ r) = Inr (x, r)"
    if "is_str (err_message x)" "error_encode x = Inr bs" for x bs r
    using that by (auto simp: error_encode_def error_dec_def put_eqs pret_def)
  show "error_dec (bs @ s) = Inr (y, r @ s)" if "error_dec bs = Inr (y, r)" for bs y r s
    using that by (rule extendableD [rotated]) (simp add: error_dec_def extend_intros)
qed

text \<open>
  \<^verbatim>\<open>Cancel\<close> reads back what was encoded, but is not strict: cutting the target off leaves the
  legacy form, which decodes.
\<close>

interpretation cancel_codec: wire_codec cancel_encode cancel_dec wf_cancel
proof unfold_locales
  show "cancel_dec (bs @ r) = Inr (x, r)" if "wf_cancel x" "cancel_encode x = Inr bs" for x bs r
    using that
    by (cases "cancel_reason x"; cases "cancel_target x")
      (auto simp: cancel_encode_def cancel_dec_def cancel_target_dec_def wf_cancel_def
        wf_opt_str_def put_eqs pret_def)
qed

section \<open>Frames\<close>

datatype kind = KHello | KHelloAck | KExecute | KOutput | KExit | KCancel | KCancelAck
  | KFs | KFsResult | KHealth | KHealthAck | KError | KResult

text \<open>The \<^verbatim>\<open>repr(u8)\<close> discriminants.\<close>

fun kind_byte :: "kind \<Rightarrow> byte" where
  "kind_byte KHello = 1"
| "kind_byte KHelloAck = 2"
| "kind_byte KExecute = 3"
| "kind_byte KOutput = 4"
| "kind_byte KExit = 5"
| "kind_byte KCancel = 6"
| "kind_byte KCancelAck = 7"
| "kind_byte KFs = 8"
| "kind_byte KFsResult = 9"
| "kind_byte KHealth = 10"
| "kind_byte KHealthAck = 11"
| "kind_byte KError = 12"
| "kind_byte KResult = 13"

definition kind_parse :: "byte \<Rightarrow> io_error + kind" where
  "kind_parse v =
     (if v = 1 then Inr KHello
      else if v = 2 then Inr KHelloAck
      else if v = 3 then Inr KExecute
      else if v = 4 then Inr KOutput
      else if v = 5 then Inr KExit
      else if v = 6 then Inr KCancel
      else if v = 7 then Inr KCancelAck
      else if v = 8 then Inr KFs
      else if v = 9 then Inr KFsResult
      else if v = 10 then Inr KHealth
      else if v = 11 then Inr KHealthAck
      else if v = 12 then Inr KError
      else if v = 13 then Inr KResult
      else Inl (err ''unknown frame kind''))"

definition MAGIC :: bytes where
  "MAGIC = [0x5A, 0x42, 0x52, 0x54]"

definition VERSION :: byte where
  "VERSION = 1"

definition HEADER_LEN :: nat where
  "HEADER_LEN = 28"

definition MAX_PAYLOAD :: nat where
  "MAX_PAYLOAD = 16 * 1024 * 1024"

record zframe =
  fr_kind :: kind
  fr_flags :: u16
  fr_request_id :: bytes
  fr_payload :: bytes

text \<open>A request id is a \<^verbatim>\<open>[u8; 16]\<close>.\<close>

definition wf_frame :: "zframe \<Rightarrow> bool" where
  "wf_frame f \<longleftrightarrow> length (fr_request_id f) = 16"

definition frame_encode :: "zframe \<Rightarrow> io_error + bytes" where
  "frame_encode f =
     (if fr_flags f \<noteq> 0 \<or> length (fr_payload f) > MAX_PAYLOAD then Inl (err ''invalid frame'')
      else Inr (MAGIC @ [VERSION, kind_byte (fr_kind f)] @ u16_to_be_bytes (fr_flags f)
                @ fr_request_id f @ u32_to_be_bytes (word_of_nat (length (fr_payload f)))
                @ fr_payload f))"

text \<open>\<^verbatim>\<open>Read::read_exact\<close> on the bytes the peer will deliver before it closes.\<close>

definition read_exact :: "nat \<Rightarrow> bytes parser" where
  "read_exact n r = (if length r < n then Inl UnexpectedEof else Inr (take n r, drop n r))"

definition frame_decode :: "zframe parser" where
  "frame_decode =
     pbind (read_exact HEADER_LEN) (\<lambda>h.
       if take 4 h \<noteq> MAGIC \<or> h ! 4 \<noteq> VERSION then (\<lambda>_. Inl (err ''invalid magic or version''))
       else (let flags = u16_from_be_bytes [h ! 6, h ! 7];
                 n = unat (u32_from_be_bytes (take 4 (drop 24 h)))
             in if flags \<noteq> 0 then (\<lambda>_. Inl (err ''unsupported frame flags''))
                else if n > MAX_PAYLOAD then (\<lambda>_. Inl (err ''payload too large''))
                else pbind (read_exact n) (\<lambda>p r.
                  res_bind (kind_parse (h ! 5)) (\<lambda>k.
                    Inr (\<lparr>fr_kind = k, fr_flags = flags,
                          fr_request_id = take 16 (drop 8 h), fr_payload = p\<rparr>, r)))))"

definition read_frame_async :: "zframe parser" where
  "read_frame_async =
     pbind (read_exact HEADER_LEN) (\<lambda>header.
       let n = unat (u32_from_be_bytes (take 4 (drop 24 header)))
       in if n > MAX_PAYLOAD then (\<lambda>_. Inl (err ''payload too large''))
          else pbind (read_exact n) (\<lambda>body r.
            res_bind (frame_decode (header @ body)) (\<lambda>(f, _). Inr (f, r))))"

definition read_frame_sync :: "zframe parser" where
  "read_frame_sync =
     pbind (read_exact HEADER_LEN) (\<lambda>header.
       let n = unat (u32_from_be_bytes (take 4 (drop 24 header)))
       in if n > MAX_PAYLOAD then (\<lambda>_. Inl (err ''payload too large''))
          else pbind (read_exact n) (\<lambda>body r.
            res_bind (frame_decode (header @ body)) (\<lambda>(f, _). Inr (f, r))))"

text \<open>\<^verbatim>\<open>write_frame_async\<close>: encode, then append to what the transport has carried so far.\<close>

definition write_frame_async :: "bytes \<Rightarrow> zframe \<Rightarrow> io_error + bytes" where
  "write_frame_async written f = res_bind (frame_encode f) (\<lambda>b. Inr (written @ b))"

fun write_frames :: "bytes \<Rightarrow> zframe list \<Rightarrow> io_error + bytes" where
  "write_frames written [] = Inr written"
| "write_frames written (f # fs) =
     res_bind (write_frame_async written f) (\<lambda>w. write_frames w fs)"

lemma read_exact_shorter: "read_exact n b = Inr (x, r) \<Longrightarrow> length r = length b - n \<and> n \<le> length b"
  by (auto simp: read_exact_def split: if_splits)

lemma read_frame_async_shorter: "read_frame_async b = Inr (f, r) \<Longrightarrow> length r < length b"
proof -
  assume "read_frame_async b = Inr (f, r)"
  then obtain h b1 n body where
    "read_exact HEADER_LEN b = Inr (h, b1)" "read_exact n b1 = Inr (body, r)"
    by (auto simp: read_frame_async_def pbind_def res_bind_eq_Inr_conv Let_def
        split: if_splits sum.splits prod.splits)
  then show ?thesis by (auto simp: HEADER_LEN_def dest!: read_exact_shorter)
qed

text \<open>
  \<^verbatim>\<open>spawn_frame_reader\<close> of \<^verbatim>\<open>connection_util.rs\<close> on this transport: frames are delivered in
  order until a read fails, and the failure is delivered once, last.
\<close>

function frame_reader :: "bytes \<Rightarrow> zframe list \<times> io_error" where
  "frame_reader b =
     (case read_frame_async b of
        Inl e \<Rightarrow> ([], e)
      | Inr (f, r) \<Rightarrow> (case frame_reader r of (fs, e) \<Rightarrow> (f # fs, e)))"
  by pat_completeness auto
termination
  by (relation "measure length") (auto dest: read_frame_async_shorter)

declare frame_reader.simps [simp del]

definition ZBRT_V1_CAPABILITIES :: "string list" where
  "ZBRT_V1_CAPABILITIES = [''execute'', ''stream'', ''deadline'', ''health'', ''cancel'', ''filesystem'']"

definition hello_frame :: "string \<Rightarrow> bytes \<Rightarrow> io_error + zframe" where
  "hello_frame client request_id =
     res_bind (hello_encode \<lparr>hello_client = client, hello_capabilities = ZBRT_V1_CAPABILITIES\<rparr>)
       (\<lambda>payload. Inr \<lparr>fr_kind = KHello, fr_flags = 0, fr_request_id = request_id,
                        fr_payload = payload\<rparr>)"

subsection \<open>Frame lemmas\<close>

lemma kind_parse_byte [simp]: "kind_parse (kind_byte k) = Inr k"
  by (cases k) (simp_all add: kind_parse_def)

lemma kind_parse_eq_Inr: "kind_parse v = Inr k \<longleftrightarrow> v = kind_byte k"
  by (cases k) (auto simp: kind_parse_def split: if_splits)

lemma read_exact_append [simp]: "length b = n \<Longrightarrow> read_exact n (b @ r) = Inr (b, r)"
  by (simp add: read_exact_def)

lemma extendable_read_exact [extend_intros]: "extendable (read_exact n)"
  by (auto simp: extendable_def read_exact_def split: if_splits)

lemma extendable_res_bind [extend_intros]: "extendable (\<lambda>r. res_bind x (\<lambda>k. Inr (g k, r)))"
  by (auto simp: extendable_def res_bind_eq_Inr_conv)

lemma read_exact_split: "read_exact n b = Inr (x, r) \<Longrightarrow> length x = n \<and> b = x @ r"
  by (auto simp: read_exact_def split: if_splits)

definition frame_header :: "zframe \<Rightarrow> bytes" where
  "frame_header f = MAGIC @ [VERSION, kind_byte (fr_kind f)] @ u16_to_be_bytes (fr_flags f)
     @ fr_request_id f @ u32_to_be_bytes (word_of_nat (length (fr_payload f)))"

lemma frame_encode_eq_Inr:
  "frame_encode f = Inr b \<longleftrightarrow>
     fr_flags f = 0 \<and> length (fr_payload f) \<le> MAX_PAYLOAD \<and> b = frame_header f @ fr_payload f"
  by (auto simp: frame_encode_def frame_header_def)

lemma u16_be_zero: "u16_to_be_bytes 0 = [0, 0]"
  by (simp add: u16_to_be_bytes_def numeral_2_eq_2)

lemma u16_from_be_zero: "u16_from_be_bytes [0, 0] = 0"
  using u16_be_roundtrip [of 0] by (simp add: u16_be_zero)

lemma frame_header_fields:
  assumes "wf_frame f" "fr_flags f = 0" "length (fr_payload f) \<le> MAX_PAYLOAD"
  shows "length (frame_header f) = 28" "take 4 (frame_header f) = MAGIC"
    "frame_header f ! 4 = VERSION" "frame_header f ! 5 = kind_byte (fr_kind f)"
    "frame_header f ! 6 = 0" "frame_header f ! 7 = 0"
    "take 16 (drop 8 (frame_header f)) = fr_request_id f"
    "unat (u32_from_be_bytes (take 4 (drop 24 (frame_header f)))) = length (fr_payload f)"
proof -
  have len: "length (fr_request_id f) = 16" using assms(1) by (simp add: wf_frame_def)
  have small: "length (fr_payload f) < 2 ^ 32" using assms(3) by (simp add: MAX_PAYLOAD_def)
  show "length (frame_header f) = 28" "take 4 (frame_header f) = MAGIC"
    "frame_header f ! 4 = VERSION" "frame_header f ! 5 = kind_byte (fr_kind f)"
    "frame_header f ! 6 = 0" "frame_header f ! 7 = 0"
    "take 16 (drop 8 (frame_header f)) = fr_request_id f"
    using len assms(2) by (simp_all add: frame_header_def MAGIC_def u16_be_zero)
  have "drop 24 (frame_header f) = u32_to_be_bytes (word_of_nat (length (fr_payload f)))"
    using len assms(2) by (simp add: frame_header_def MAGIC_def u16_be_zero)
  then show "unat (u32_from_be_bytes (take 4 (drop 24 (frame_header f)))) = length (fr_payload f)"
    by (simp add: unat_u32_of_nat [OF small])
qed

lemma frame_decode_header:
  assumes "wf_frame f" "fr_flags f = 0" "length (fr_payload f) \<le> MAX_PAYLOAD"
  shows "frame_decode (frame_header f @ fr_payload f @ r) = Inr (f, r)"
  using frame_header_fields [OF assms] assms(2,3)
  by (simp add: frame_decode_def HEADER_LEN_def pret_def u16_from_be_zero)

text \<open>The ZBRT frame is itself a codec in the sense of the contract.\<close>

interpretation frame_codec: strict_wire_codec frame_encode frame_decode wf_frame
proof unfold_locales
  show "frame_decode (bs @ r) = Inr (x, r)" if "wf_frame x" "frame_encode x = Inr bs" for x bs r
    using that frame_decode_header [of x r] by (simp add: frame_encode_eq_Inr)
  have "extendable frame_decode"
    unfolding frame_decode_def Let_def
    by (intro extend_intros)
  then show "frame_decode (bs @ s) = Inr (y, r @ s)" if "frame_decode bs = Inr (y, r)" for bs y r s
    using that by (rule extendableD)
qed

lemma read_frame_async_header:
  assumes "wf_frame f" "fr_flags f = 0" "length (fr_payload f) \<le> MAX_PAYLOAD"
  shows "read_frame_async (frame_header f @ fr_payload f @ r) = Inr (f, r)"
  using frame_header_fields [OF assms] frame_decode_header [OF assms, of "[]"] assms(3)
  by (simp add: read_frame_async_def HEADER_LEN_def)

lemma frame_reader_frames:
  assumes "list_all wf_frame fs" "write_frames [] fs = Inr b" "read_frame_async r = Inl e"
  shows "frame_reader (b @ r) = (fs, e)"
proof -
  have "\<exists>c. b' = w @ c \<and> frame_reader (c @ r) = (gs, e)"
    if "list_all wf_frame gs" "write_frames w gs = Inr b'" for gs w b'
    using that
  proof (induction gs arbitrary: w)
    case Nil
    with assms(3) show ?case by (simp add: frame_reader.simps)
  next
    case (Cons f gs)
    then obtain x where x: "frame_encode f = Inr x" and rest: "write_frames (w @ x) gs = Inr b'"
      by (auto simp: write_frame_async_def res_bind_eq_Inr_conv)
    with Cons obtain c where c: "b' = (w @ x) @ c" "frame_reader (c @ r) = (gs, e)"
      by fastforce
    have "read_frame_async (x @ c @ r) = Inr (f, c @ r)"
      using x Cons.prems(1) read_frame_async_header [of f "c @ r"]
      by (simp add: frame_encode_eq_Inr)
    then have "frame_reader ((x @ c) @ r) = (f # gs, e)"
      using c(2) by (simp add: frame_reader.simps [of "x @ c @ r"])
    with c(1) show ?case by (intro exI [of _ "x @ c"]) simp
  qed
  from this [OF assms(1,2)] show ?thesis by auto
qed

text \<open>Decoding inverts: whatever decodes was, byte for byte, an encoding.\<close>

lemma header_split:
  assumes "length h = 28"
  shows "h = take 4 h @ [h ! 4, h ! 5, h ! 6, h ! 7] @ take 16 (drop 8 h) @ drop 24 h"
proof -
  have "drop 4 h = [h ! 4, h ! 5, h ! 6, h ! 7] @ drop 8 h"
    using assms Cons_nth_drop_Suc [of 4 h] Cons_nth_drop_Suc [of 5 h] Cons_nth_drop_Suc [of 6 h]
      Cons_nth_drop_Suc [of 7 h] by simp
  moreover have "drop 8 h = take 16 (drop 8 h) @ drop 24 h"
    using append_take_drop_id [of 16 "drop 8 h"] by simp
  ultimately show ?thesis by (metis append.assoc append_take_drop_id)
qed

lemma frame_decode_sound:
  assumes "frame_decode b = Inr (f, r)"
  shows "wf_frame f \<and> frame_encode f = Inr (take (length b - length r) b) \<and> length r \<le> length b
    \<and> b = take (length b - length r) b @ r"
proof -
  from assms obtain h b1 k n where
    h: "read_exact 28 b = Inr (h, b1)" and magic: "take 4 h = MAGIC" "h ! 4 = VERSION"
    and flags: "u16_from_be_bytes [h ! 6, h ! 7] = 0"
    and n: "n = unat (u32_from_be_bytes (take 4 (drop 24 h)))" "n \<le> MAX_PAYLOAD"
    and p: "read_exact n b1 = Inr (fr_payload f, r)"
    and k: "h ! 5 = kind_byte k"
    and f: "fr_kind f = k" "fr_flags f = 0" "fr_request_id f = take 16 (drop 8 h)"
    by (auto simp: frame_decode_def HEADER_LEN_def pbind_def res_bind_eq_Inr_conv Let_def pret_def
        kind_parse_eq_Inr split: if_splits sum.splits prod.splits)
  have len: "length h = 28" and b: "b = h @ fr_payload f @ r" and pl: "length (fr_payload f) = n"
    using read_exact_split [OF h] read_exact_split [OF p] by simp_all
  have "[h ! 6, h ! 7] = u16_to_be_bytes 0"
    using u16_be_canonical [of "[h ! 6, h ! 7]"] flags by simp
  moreover have "drop 24 h = u32_to_be_bytes (word_of_nat n)"
    using u32_be_canonical [of "drop 24 h"] len n(1) by simp
  ultimately have "h = frame_header f"
    using header_split [OF len] magic k f pl by (simp add: frame_header_def)
  then have "frame_encode f = Inr (h @ fr_payload f)"
    using f(2) pl n(2) by (simp add: frame_encode_eq_Inr)
  moreover have "wf_frame f" using f(3) len by (simp add: wf_frame_def)
  ultimately show ?thesis using b by simp
qed

lemma read_frame_async_iff_decode:
  "read_frame_async b = Inr (f, r) \<longleftrightarrow> frame_decode b = Inr (f, r)"
proof
  assume "frame_decode b = Inr (f, r)"
  from frame_decode_sound [OF this] obtain e where "wf_frame f" "frame_encode f = Inr e" "b = e @ r"
    by metis
  then show "read_frame_async b = Inr (f, r)"
    using read_frame_async_header [of f r] by (simp add: frame_encode_eq_Inr)
next
  assume "read_frame_async b = Inr (f, r)"
  then obtain h b1 body n x where h: "read_exact 28 b = Inr (h, b1)"
    and n: "n = unat (u32_from_be_bytes (take 4 (drop 24 h)))"
    and body: "read_exact n b1 = Inr (body, r)" and d: "frame_decode (h @ body) = Inr (f, x)"
    by (auto simp: read_frame_async_def HEADER_LEN_def pbind_def res_bind_eq_Inr_conv Let_def
        split: if_splits)
  have len: "length h = 28" "length body = n" and b: "b = (h @ body) @ r"
    using read_exact_split [OF h] read_exact_split [OF body] by simp_all
  from frame_decode_sound [OF d] obtain e where e: "frame_encode f = Inr e" "h @ body = e @ x"
    "wf_frame f" by metis
  have "take 28 e = h" and "length e = 28 + length (fr_payload f)"
    using e len frame_header_fields(1) [of f] by (auto simp: frame_encode_eq_Inr)
  then have "n = length (fr_payload f)"
    using n e frame_header_fields [of f] by (auto simp: frame_encode_eq_Inr)
  with e len \<open>length e = _\<close> have "x = []"
    by (metis append_eq_conv_conj append_self_conv length_append)
  with d b show "frame_decode b = Inr (f, r)"
    using frame_codec.dec_extend [OF d, of r] by simp
qed

section \<open>The host session\<close>

record host_session =
  hs_hello :: "hello option"
  hs_requests :: "bytes \<rightharpoonup> execute"
  hs_next_sequence :: u64

definition host_session_new :: host_session where
  "host_session_new = \<lparr>hs_hello = None, hs_requests = Map.empty, hs_next_sequence = 0\<rparr>"

definition negotiate_capabilities ::
  "host_session \<Rightarrow> hello \<Rightarrow> string list \<Rightarrow> host_session \<times> (io_error + hello_ack)" where
  "negotiate_capabilities s h supported =
     (if blank (hello_client h) then (s, Inl (err ''client is required''))
      else (s\<lparr>hs_hello := Some h\<rparr>,
            Inr \<lparr>ack_server = ''rfb-host'',
                 ack_capabilities = filter (\<lambda>cap. cap \<in> set supported) (hello_capabilities h)\<rparr>))"

definition negotiate :: "host_session \<Rightarrow> hello \<Rightarrow> host_session \<times> (io_error + hello_ack)" where
  "negotiate s h = negotiate_capabilities s h ZBRT_V1_CAPABILITIES"

text \<open>\<^verbatim>\<open>HashMap::insert\<close> stores the new value before its return value is looked at.\<close>

definition submit :: "host_session \<Rightarrow> bytes \<Rightarrow> execute \<Rightarrow> host_session \<times> (io_error + unit)" where
  "submit s i request =
     (if hs_hello s = None then (s, Inl (err ''hello negotiation required''))
      else (let s' = s\<lparr>hs_requests := (hs_requests s)(i \<mapsto> request)\<rparr>
            in if hs_requests s i \<noteq> None then (s', Inl (err ''duplicate request id''))
               else (s', Inr ())))"

definition session_cancel :: "host_session \<Rightarrow> bytes \<Rightarrow> host_session \<times> bool" where
  "session_cancel s i =
     (s\<lparr>hs_requests := (hs_requests s)(i := None)\<rparr>, hs_requests s i \<noteq> None)"

section \<open>Properties\<close>

text \<open>
  C31. Every ZBRT payload codec round-trips: for each of the nine message types, a value whose
  strings are UTF-8 and whose encoding succeeds decodes back to itself, all bytes consumed.
\<close>

theorem zbrt_payload_roundtrip:
  "(wf_hello h \<and> hello_encode h = Inr b1 \<longrightarrow> decode_payload hello_dec b1 = Inr h)
   \<and> (wf_hello_ack a \<and> hello_ack_encode a = Inr b2 \<longrightarrow> decode_payload hello_ack_dec b2 = Inr a)
   \<and> (wf_execute x \<and> execute_encode x = Inr b3 \<longrightarrow> decode_payload execute_dec b3 = Inr x)
   \<and> (output_encode out = Inr b4 \<longrightarrow> decode_payload output_dec b4 = Inr out)
   \<and> (exit_encode ex = Inr b5 \<longrightarrow> decode_payload exit_dec b5 = Inr ex)
   \<and> (wf_cancel c \<and> cancel_encode c = Inr b6 \<longrightarrow> decode_payload cancel_dec b6 = Inr c)
   \<and> (is_str (fs_path f) \<and> fs_encode f = Inr b7 \<longrightarrow> decode_payload fs_dec b7 = Inr f)
   \<and> (wf_opt_str (health_message hl) \<and> health_encode hl = Inr b8
        \<longrightarrow> decode_payload health_dec b8 = Inr hl)
   \<and> (is_str (err_message er) \<and> error_encode er = Inr b9
        \<longrightarrow> decode_payload error_dec b9 = Inr er)"
  using hello_codec.roundtrip hello_ack_codec.roundtrip execute_codec.roundtrip
    output_codec.roundtrip exit_codec.roundtrip cancel_codec.roundtrip fs_codec.roundtrip
    health_codec.roundtrip error_codec.roundtrip
  by simp

text \<open>
  Payload codecs reject truncation and trailing bytes: an encoded message with bytes behind
  it is refused as \<^verbatim>\<open>trailing payload\<close>, and every proper prefix of it is refused. (\<^verbatim>\<open>Cancel\<close>,
  which has a legacy short form, is the one message left out of the second half.)
\<close>

theorem zbrt_payload_strict:
  assumes "q \<noteq> []" "t \<noteq> []"
  shows "(wf_hello h \<and> hello_encode h = Inr (ph @ q) \<longrightarrow>
        decode_payload hello_dec (ph @ q @ t) = Inl (err ''trailing payload'')
        \<and> \<not> is_ok (decode_payload hello_dec ph))
   \<and> (wf_hello_ack a \<and> hello_ack_encode a = Inr (pa @ q) \<longrightarrow>
        decode_payload hello_ack_dec (pa @ q @ t) = Inl (err ''trailing payload'')
        \<and> \<not> is_ok (decode_payload hello_ack_dec pa))
   \<and> (wf_execute x \<and> execute_encode x = Inr (px @ q) \<longrightarrow>
        decode_payload execute_dec (px @ q @ t) = Inl (err ''trailing payload'')
        \<and> \<not> is_ok (decode_payload execute_dec px))
   \<and> (output_encode out = Inr (po @ q) \<longrightarrow>
        decode_payload output_dec (po @ q @ t) = Inl (err ''trailing payload'')
        \<and> \<not> is_ok (decode_payload output_dec po))
   \<and> (exit_encode ex = Inr (pe @ q) \<longrightarrow>
        decode_payload exit_dec (pe @ q @ t) = Inl (err ''trailing payload'')
        \<and> \<not> is_ok (decode_payload exit_dec pe))
   \<and> (is_str (fs_path f) \<and> fs_encode f = Inr (pf @ q) \<longrightarrow>
        decode_payload fs_dec (pf @ q @ t) = Inl (err ''trailing payload'')
        \<and> \<not> is_ok (decode_payload fs_dec pf))
   \<and> (wf_opt_str (health_message hl) \<and> health_encode hl = Inr (pl @ q) \<longrightarrow>
        decode_payload health_dec (pl @ q @ t) = Inl (err ''trailing payload'')
        \<and> \<not> is_ok (decode_payload health_dec pl))
   \<and> (is_str (err_message er) \<and> error_encode er = Inr (pr @ q) \<longrightarrow>
        decode_payload error_dec (pr @ q @ t) = Inl (err ''trailing payload'')
        \<and> \<not> is_ok (decode_payload error_dec pr))"
  using assms hello_codec.trailing_rejected [of h "ph @ q" t] hello_codec.truncation_rejected [of h ph q]
    hello_ack_codec.trailing_rejected [of a "pa @ q" t] hello_ack_codec.truncation_rejected [of a pa q]
    execute_codec.trailing_rejected [of x "px @ q" t] execute_codec.truncation_rejected [of x px q]
    output_codec.trailing_rejected [of out "po @ q" t] output_codec.truncation_rejected [of out po q]
    exit_codec.trailing_rejected [of ex "pe @ q" t] exit_codec.truncation_rejected [of ex pe q]
    fs_codec.trailing_rejected [of f "pf @ q" t] fs_codec.truncation_rejected [of f pf q]
    health_codec.trailing_rejected [of hl "pl @ q" t] health_codec.truncation_rejected [of hl pl q]
    error_codec.trailing_rejected [of er "pr @ q" t] error_codec.truncation_rejected [of er pr q]
  by simp

text \<open>
  C30. A stream of frames is read back exactly: whatever frames were written one after the other,
  followed by a tail that is no frame, the frame reader delivers them all, in order, unchanged,
  and then the failure of the tail.
\<close>

theorem frame_stream_roundtrip:
  assumes "list_all wf_frame fs" "write_frames [] fs = Inr b" "read_frame_async tail = Inl e"
  shows "frame_reader (b @ tail) = (fs, e)"
  using assms by (rule frame_reader_frames)

text \<open>
  The frame format is canonical and the two readers agree: a frame is read from a stream
  exactly when \<^verbatim>\<open>Frame::decode\<close> reads it, and then the consumed bytes are precisely its
  encoding. So flags are zero, the payload is within \<^verbatim>\<open>MAX_PAYLOAD\<close>, the id has 16 bytes, and
  no two byte strings stand for the same frame.
\<close>

theorem read_frame_canonical:
  "(read_frame_async b = Inr (f, r) \<longleftrightarrow> frame_decode b = Inr (f, r))
   \<and> (read_frame_async b = Inr (f, r) \<longleftrightarrow>
        (\<exists>e. wf_frame f \<and> frame_encode f = Inr e \<and> b = e @ r))"
proof -
  have "read_frame_async b = Inr (f, r)"
    if "wf_frame f" "frame_encode f = Inr e" "b = e @ r" for e
    using that read_frame_async_header [of f r] by (simp add: frame_encode_eq_Inr)
  moreover have "\<exists>e. wf_frame f \<and> frame_encode f = Inr e \<and> b = e @ r"
    if "frame_decode b = Inr (f, r)"
    using frame_decode_sound [OF that] by blast
  ultimately show ?thesis using read_frame_async_iff_decode by blast
qed

text \<open>
  Capability negotiation is an intersection: a non-blank client gets exactly those of its
  capabilities that are supported, in its own order, and the session becomes negotiated; a
  request is then accepted under a fresh id and can be cancelled exactly once.
\<close>

theorem negotiate_submit_cancel:
  assumes "\<not> blank (hello_client h)" "hs_requests s i = None"
  shows "\<exists>s' s''. \<exists>a.
     negotiate_capabilities s h supported = (s', Inr a)
     \<and> set (ack_capabilities a) = set (hello_capabilities h) \<inter> set supported
     \<and> submit s' i x = (s'', Inr ())
     \<and> hs_requests s'' = (hs_requests s)(i \<mapsto> x)
     \<and> snd (session_cancel s'' i)
     \<and> \<not> snd (session_cancel (fst (session_cancel s'' i)) i)
     \<and> hs_requests (fst (session_cancel s'' i)) = hs_requests s"
  using assms
  by (auto simp: negotiate_capabilities_def submit_def session_cancel_def fun_eq_iff)

text \<open>
  A rejected duplicate is not harmless: \<^verbatim>\<open>submit\<close> under an id that is already registered
  reports \<^verbatim>\<open>duplicate request id\<close>, yet the request stored under that id is the new one and the
  accepted request is lost.
\<close>

theorem submit_duplicate_overwrites:
  assumes "hs_hello s \<noteq> None" "hs_requests s i = Some x"
  shows "snd (submit s i y) = Inl (err ''duplicate request id'')
    \<and> hs_requests (fst (submit s i y)) i = Some y"
  using assms by (auto simp: submit_def Let_def)

section \<open>Witnesses\<close>

lemma is_str_literals:
  "is_str ''sdk''" "is_str ''execute''" "is_str ''ls''" "is_str ''/tmp''" "is_str ''bad''"
  by (simp_all add: is_str_ascii)

lemmas wire_eval = put_text_def put_def u8_try_from_def put_opt_text_def hello_encode_def
  hello_ack_encode_def execute_encode_def output_encode_def exit_encode_def cancel_encode_def
  fs_encode_def health_encode_def error_encode_def wf_hello_def wf_hello_ack_def wf_execute_def
  wf_cancel_def wf_opt_str_def is_str_literals

theorem zbrt_payload_roundtrip_witness:
  "\<exists>b1 b2 b3 b4 b5 b6 b7 b8 b9.
     hello_encode \<lparr>hello_client = ''sdk'', hello_capabilities = [''execute'']\<rparr> = Inr b1
   \<and> decode_payload hello_dec b1 = Inr \<lparr>hello_client = ''sdk'', hello_capabilities = [''execute'']\<rparr>
   \<and> hello_ack_encode \<lparr>ack_server = ''sdk'', ack_capabilities = [''execute'']\<rparr> = Inr b2
   \<and> decode_payload hello_ack_dec b2 = Inr \<lparr>ack_server = ''sdk'', ack_capabilities = [''execute'']\<rparr>
   \<and> execute_encode \<lparr>exec_argv = [''ls''], exec_cwd = Some ''/tmp'', exec_stdin = [7],
                      exec_timeout_ms = 9\<rparr> = Inr b3
   \<and> decode_payload execute_dec b3 = Inr \<lparr>exec_argv = [''ls''], exec_cwd = Some ''/tmp'',
                      exec_stdin = [7], exec_timeout_ms = 9\<rparr>
   \<and> output_encode \<lparr>out_stream = 1, out_data = [104, 105]\<rparr> = Inr b4
   \<and> decode_payload output_dec b4 = Inr \<lparr>out_stream = 1, out_data = [104, 105]\<rparr>
   \<and> exit_encode \<lparr>exit_code = 3, exit_signal = Some 9\<rparr> = Inr b5
   \<and> decode_payload exit_dec b5 = Inr \<lparr>exit_code = 3, exit_signal = Some 9\<rparr>
   \<and> cancel_encode \<lparr>cancel_reason = Some ''bad'', cancel_target = Some (replicate 16 1)\<rparr> = Inr b6
   \<and> decode_payload cancel_dec b6
       = Inr \<lparr>cancel_reason = Some ''bad'', cancel_target = Some (replicate 16 1)\<rparr>
   \<and> fs_encode \<lparr>fs_op = 2, fs_path = ''/tmp'', fs_data = [1, 2, 3]\<rparr> = Inr b7
   \<and> decode_payload fs_dec b7 = Inr \<lparr>fs_op = 2, fs_path = ''/tmp'', fs_data = [1, 2, 3]\<rparr>
   \<and> health_encode \<lparr>health_healthy = True, health_message = None\<rparr> = Inr b8
   \<and> decode_payload health_dec b8 = Inr \<lparr>health_healthy = True, health_message = None\<rparr>
   \<and> error_encode \<lparr>err_code = 5, err_message = ''bad''\<rparr> = Inr b9
   \<and> decode_payload error_dec b9 = Inr \<lparr>err_code = 5, err_message = ''bad''\<rparr>"
proof -
  let ?h = "\<lparr>hello_client = ''sdk'', hello_capabilities = [''execute'']\<rparr>"
  let ?a = "\<lparr>ack_server = ''sdk'', ack_capabilities = [''execute'']\<rparr>"
  let ?x = "\<lparr>exec_argv = [''ls''], exec_cwd = Some ''/tmp'', exec_stdin = [7], exec_timeout_ms = 9\<rparr>"
  let ?o = "\<lparr>out_stream = 1, out_data = [104, 105]\<rparr>"
  let ?e = "\<lparr>exit_code = 3, exit_signal = Some 9\<rparr>"
  let ?c = "\<lparr>cancel_reason = Some ''bad'', cancel_target = Some (replicate 16 1)\<rparr>"
  let ?f = "\<lparr>fs_op = 2, fs_path = ''/tmp'', fs_data = [1, 2, 3]\<rparr>"
  let ?l = "\<lparr>health_healthy = True, health_message = None\<rparr>"
  let ?r = "\<lparr>err_code = 5, err_message = ''bad''\<rparr>"
  obtain b1 b2 b3 b4 b5 b6 b7 b8 b9 where enc: "hello_encode ?h = Inr b1" "hello_ack_encode ?a = Inr b2"
    "execute_encode ?x = Inr b3" "output_encode ?o = Inr b4" "exit_encode ?e = Inr b5"
    "cancel_encode ?c = Inr b6" "fs_encode ?f = Inr b7" "health_encode ?l = Inr b8"
    "error_encode ?r = Inr b9"
    by (simp add: wire_eval)
  have "wf_hello ?h" "wf_hello_ack ?a" "wf_execute ?x" "wf_cancel ?c" "is_str (fs_path ?f)"
    "wf_opt_str (health_message ?l)" "is_str (err_message ?r)"
    by (simp_all add: wire_eval)
  with enc show ?thesis
    using zbrt_payload_roundtrip [of ?h b1 ?a b2 ?x b3 ?o b4 ?e b5 ?c b6 ?f b7 ?l b8 ?r b9]
    by blast
qed

theorem zbrt_payload_strict_witness:
  "decode_payload exit_dec [0, 0, 0, 3, 0, 9] = Inl (err ''trailing payload'')
   \<and> \<not> is_ok (decode_payload exit_dec [0, 0, 0, 3])
   \<and> decode_payload output_dec [1, 0, 0, 0, 1, 0, 9] = Inl (err ''trailing payload'')
   \<and> \<not> is_ok (decode_payload output_dec [1, 0, 0, 0, 1])
   \<and> decode_payload health_dec [1, 0, 9] = Inl (err ''trailing payload'')
   \<and> \<not> is_ok (decode_payload health_dec [1])"
proof -
  have "exit_encode \<lparr>exit_code = 3, exit_signal = None\<rparr> = Inr ([0, 0, 0, 3] @ [0])"
    "output_encode \<lparr>out_stream = 1, out_data = [0]\<rparr> = Inr ([1, 0, 0, 0, 1] @ [0])"
    "health_encode \<lparr>health_healthy = True, health_message = None\<rparr> = Inr ([1] @ [0])"
    by (simp_all add: wire_eval u32_to_be_bytes_def nat_to_le_4)
  then show ?thesis
    using zbrt_payload_strict [where q = "[0]" and t = "[9]" and pe = "[0, 0, 0, 3]"
        and ex = "\<lparr>exit_code = 3, exit_signal = None\<rparr>"
        and po = "[1, 0, 0, 0, 1]" and out = "\<lparr>out_stream = 1, out_data = [0]\<rparr>"
        and pl = "[1]" and hl = "\<lparr>health_healthy = True, health_message = None\<rparr>"]
    by (simp add: wf_opt_str_def)
qed

theorem frame_stream_roundtrip_witness:
  "\<exists>b. write_frames [] [\<lparr>fr_kind = KHealth, fr_flags = 0, fr_request_id = replicate 16 7,
                         fr_payload = [1, 2]\<rparr>] = Inr b
     \<and> frame_reader (b @ [90]) = ([\<lparr>fr_kind = KHealth, fr_flags = 0,
                         fr_request_id = replicate 16 7, fr_payload = [1, 2]\<rparr>], UnexpectedEof)"
proof -
  let ?f = "\<lparr>fr_kind = KHealth, fr_flags = 0, fr_request_id = replicate 16 7, fr_payload = [1, 2]\<rparr>"
  obtain b where b: "write_frames [] [?f] = Inr b"
    by (simp add: write_frame_async_def frame_encode_def MAX_PAYLOAD_def)
  have "read_frame_async [90] = Inl UnexpectedEof"
    by (simp add: read_frame_async_def pbind_def read_exact_def HEADER_LEN_def)
  then have "frame_reader (b @ [90]) = ([?f], UnexpectedEof)"
    using b by (intro frame_stream_roundtrip) (simp_all add: wf_frame_def)
  with b show ?thesis by blast
qed

theorem negotiate_submit_cancel_witness:
  "\<exists>s' s'' a. negotiate_capabilities host_session_new
       \<lparr>hello_client = ''sdk'', hello_capabilities = [''execute'', ''gpu'']\<rparr> ZBRT_V1_CAPABILITIES
       = (s', Inr a)
     \<and> submit s' (replicate 16 1) \<lparr>exec_argv = [''ls''], exec_cwd = None, exec_stdin = [],
                                   exec_timeout_ms = 9\<rparr> = (s'', Inr ())
     \<and> snd (session_cancel s'' (replicate 16 1))"
proof -
  have "\<not> blank ''sdk''" by (rule not_blankI [of "CHR ''s''"]) (simp_all add: white_space_def)
  then show ?thesis
    using negotiate_submit_cancel [where s = host_session_new and i = "replicate 16 1"
        and h = "\<lparr>hello_client = ''sdk'', hello_capabilities = [''execute'', ''gpu'']\<rparr>"
        and x = "\<lparr>exec_argv = [''ls''], exec_cwd = None, exec_stdin = [], exec_timeout_ms = 9\<rparr>"
        and supported = ZBRT_V1_CAPABILITIES]
    by (fastforce simp: host_session_new_def)
qed

theorem submit_duplicate_overwrites_witness:
  "let x = \<lparr>exec_argv = [''ls''], exec_cwd = None, exec_stdin = [], exec_timeout_ms = 9\<rparr>;
       y = \<lparr>exec_argv = [''rm''], exec_cwd = None, exec_stdin = [], exec_timeout_ms = 9\<rparr>;
       s = \<lparr>hs_hello = Some \<lparr>hello_client = ''sdk'', hello_capabilities = []\<rparr>,
            hs_requests = [[1] \<mapsto> x], hs_next_sequence = 0\<rparr>
   in snd (submit s [1] y) = Inl (err ''duplicate request id'')
      \<and> hs_requests (fst (submit s [1] y)) [1] = Some y"
  unfolding Let_def by (rule submit_duplicate_overwrites) simp_all

end
