(* ===== verification/Rfb_Codec.thy ===== *)
theory Rfb_Codec
  imports Rfb_Resources Zbrt_Wire
begin

text \<open>
  The RFB1 frame codec, \<^verbatim>\<open>rfb-runtime/src/codec.rs\<close>: an 18-byte little-endian header (magic,
  opcode, flags, sequence, length) in front of a serialised and possibly compressed value, and the
  length-delimited frame streams of both transports.

  The serialiser (\<^verbatim>\<open>postcard\<close>) and the compressor (\<^verbatim>\<open>zstd\<close>) are external crates: the record
  \<open>codec_lib\<close> holds the four entry points the codec calls. \<open>zstd_read z n\<close> are the first \<open>n\<close> bytes of
  the decompression of \<open>z\<close>, which is what \<^verbatim>\<open>Decoder::new(z)?.take(n).read_to_end\<close> yields. What
  callers rely on is stated as \<open>lossless\<close>.
\<close>

section \<open>Opcodes and errors\<close>

datatype message_type = MHello | MCapabilities | MStartTurn | MCancelTurn | MEvent | MReadHostFile
  | MReadWorkspaceFile | MWriteWorkspaceFile | MShutdown | MError | MHelloAck | MFileContent
  | MWriteAck

fun message_type_byte :: "message_type \<Rightarrow> byte" where
  "message_type_byte MHello = 1"
| "message_type_byte MCapabilities = 2"
| "message_type_byte MStartTurn = 3"
| "message_type_byte MCancelTurn = 4"
| "message_type_byte MEvent = 5"
| "message_type_byte MReadHostFile = 6"
| "message_type_byte MReadWorkspaceFile = 7"
| "message_type_byte MWriteWorkspaceFile = 8"
| "message_type_byte MShutdown = 9"
| "message_type_byte MError = 10"
| "message_type_byte MHelloAck = 11"
| "message_type_byte MFileContent = 12"
| "message_type_byte MWriteAck = 13"

datatype codec_error = Magic | MessageType byte | TooLarge | Truncated | Serialize string
  | Compression string | InvalidFlags | Trailing | DecompressedTooLarge

fun codec_error_display :: "codec_error \<Rightarrow> string" where
  "codec_error_display Magic = ''invalid frame magic''"
| "codec_error_display (MessageType b) = ''unknown message type '' @ dec_string (unat b)"
| "codec_error_display TooLarge = ''frame exceeds limit''"
| "codec_error_display Truncated = ''truncated frame''"
| "codec_error_display (Serialize e) = ''serialization: '' @ e"
| "codec_error_display (Compression e) = ''compression: '' @ e"
| "codec_error_display InvalidFlags = ''invalid frame flags''"
| "codec_error_display Trailing = ''frame has trailing bytes''"
| "codec_error_display DecompressedTooLarge = ''decompressed payload exceeds limit''"

record rfb1_frame =
  message_type_of :: message_type
  sequence_of :: u64
  compressed_of :: bool
  payload_of :: bytes

record frame_codec =
  compression_threshold :: nat
  max_payload :: nat

record 'a codec_lib =
  postcard_to :: "'a \<Rightarrow> string + bytes"
  postcard_from :: "bytes \<Rightarrow> string + 'a"
  zstd_encode :: "bytes \<Rightarrow> string + bytes"
  zstd_read :: "bytes \<Rightarrow> nat \<Rightarrow> string + bytes"

definition lossless :: "'a codec_lib \<Rightarrow> bool" where
  "lossless lib \<longleftrightarrow>
     (\<forall>v b. postcard_to lib v = Inr b \<longrightarrow> postcard_from lib b = Inr v)
     \<and> (\<forall>raw z n. zstd_encode lib raw = Inr z \<longrightarrow> zstd_read lib z n = Inr (take n raw))"

section \<open>The codec\<close>

definition RFB1_MAGIC :: bytes where
  "RFB1_MAGIC = [0x52, 0x46, 0x42, 0x31]"

definition RFB1_HEADER_LEN :: nat where
  "RFB1_HEADER_LEN = 4 + 1 + 1 + 8 + 4"

definition codec_default :: frame_codec where
  "codec_default = \<lparr>compression_threshold = 1024, max_payload = 16 * 1024 * 1024\<rparr>"

definition codec_from_limits :: "runtime_limits \<Rightarrow> frame_codec" where
  "codec_from_limits limits =
     \<lparr>compression_threshold = 1024, max_payload = max_frame_bytes limits - RFB1_HEADER_LEN\<rparr>"

fun map_err :: "('e \<Rightarrow> 'f) \<Rightarrow> 'e + 'a \<Rightarrow> 'f + 'a" where
  "map_err f (Inl e) = Inl (f e)"
| "map_err f (Inr a) = Inr a"

definition codec_encode ::
  "'a codec_lib \<Rightarrow> frame_codec \<Rightarrow> message_type \<Rightarrow> u64 \<Rightarrow> 'a \<Rightarrow> codec_error + bytes" where
  "codec_encode lib c message_type sequence v =
     res_bind (map_err Serialize (postcard_to lib v)) (\<lambda>raw.
       if length raw > max_payload c then Inl TooLarge
       else (let compressed = (length raw \<ge> compression_threshold c)
             in res_bind (if compressed then map_err Compression (zstd_encode lib raw) else Inr raw)
                  (\<lambda>payload.
                    if length payload > max_payload c then Inl TooLarge
                    else Inr (RFB1_MAGIC @ [message_type_byte message_type]
                              @ [if compressed then 1 else 0] @ u64_to_le_bytes sequence
                              @ u32_to_le_bytes (word_of_nat (length payload)) @ payload))))"

definition parse_message_type :: "byte \<Rightarrow> codec_error + message_type" where
  "parse_message_type b =
     (if b = 1 then Inr MHello
      else if b = 2 then Inr MCapabilities
      else if b = 3 then Inr MStartTurn
      else if b = 4 then Inr MCancelTurn
      else if b = 5 then Inr MEvent
      else if b = 6 then Inr MReadHostFile
      else if b = 7 then Inr MReadWorkspaceFile
      else if b = 8 then Inr MWriteWorkspaceFile
      else if b = 9 then Inr MShutdown
      else if b = 10 then Inr MError
      else if b = 11 then Inr MHelloAck
      else if b = 12 then Inr MFileContent
      else if b = 13 then Inr MWriteAck
      else Inl (MessageType b))"

definition decode_value :: "'a codec_lib \<Rightarrow> frame_codec \<Rightarrow> bool \<Rightarrow> bytes \<Rightarrow> codec_error + (bytes \<times> 'a)" where
  "decode_value lib c compressed encoded =
     (if compressed
      then res_bind (map_err Compression (zstd_read lib encoded (max_payload c + 1))) (\<lambda>payload.
             if length payload > max_payload c then Inl DecompressedTooLarge
             else res_bind (map_err Serialize (postcard_from lib payload)) (\<lambda>v. Inr (payload, v)))
      else res_bind (map_err Serialize (postcard_from lib encoded)) (\<lambda>v. Inr (encoded, v)))"

definition codec_decode ::
  "'a codec_lib \<Rightarrow> frame_codec \<Rightarrow> bytes \<Rightarrow> codec_error + (rfb1_frame \<times> 'a)" where
  "codec_decode lib c bs =
     (if length bs < RFB1_HEADER_LEN then Inl Truncated
      else if take 4 bs \<noteq> RFB1_MAGIC then Inl Magic
      else res_bind (parse_message_type (bs ! 4)) (\<lambda>message_type.
        let flags = bs ! 5 in
        if flags AND NOT 1 \<noteq> 0 then Inl InvalidFlags
        else (let compressed = (flags = 1);
                  sequence = u64_from_le_bytes (take 8 (drop 6 bs));
                  n = unat (u32_from_le_bytes (take 4 (drop 14 bs)))
              in if n > max_payload c then Inl TooLarge
                 else if length bs < RFB1_HEADER_LEN + n then Inl Truncated
                 else if length bs \<noteq> RFB1_HEADER_LEN + n then Inl Trailing
                 else res_bind (decode_value lib c compressed (take n (drop RFB1_HEADER_LEN bs)))
                   (\<lambda>(payload, v).
                     Inr (\<lparr>message_type_of = message_type, sequence_of = sequence,
                           compressed_of = compressed, payload_of = payload\<rparr>, v)))))"

section \<open>Length-delimited streams\<close>

definition codec_io_error :: "codec_error \<Rightarrow> io_error" where
  "codec_io_error e = InvalidData (codec_error_display e)"

text \<open>
  The writers append to what the transport has carried; the readers consume the bytes the peer
  delivers. The blocking and the asynchronous variants differ only in how they wait.
\<close>

definition write_frame ::
  "'a codec_lib \<Rightarrow> bytes \<Rightarrow> frame_codec \<Rightarrow> message_type \<Rightarrow> u64 \<Rightarrow> 'a \<Rightarrow> io_error + bytes" where
  "write_frame lib written c message_type sequence v =
     res_bind (map_err codec_io_error (codec_encode lib c message_type sequence v)) (\<lambda>frame.
       Inr (written @ u32_to_le_bytes (word_of_nat (length frame)) @ frame))"

definition write_frame_blocking ::
  "'a codec_lib \<Rightarrow> bytes \<Rightarrow> frame_codec \<Rightarrow> message_type \<Rightarrow> u64 \<Rightarrow> 'a \<Rightarrow> io_error + bytes" where
  "write_frame_blocking lib written c message_type sequence v =
     res_bind (map_err codec_io_error (codec_encode lib c message_type sequence v)) (\<lambda>frame.
       Inr (written @ u32_to_le_bytes (word_of_nat (length frame)) @ frame))"

definition read_frame :: "'a codec_lib \<Rightarrow> frame_codec \<Rightarrow> (rfb1_frame \<times> 'a) parser" where
  "read_frame lib c =
     pbind (read_exact 4) (\<lambda>len_bytes.
       let n = unat (u32_from_le_bytes len_bytes)
       in if n > RFB1_HEADER_LEN + max_payload c then (\<lambda>_. Inl (InvalidData ''frame too large''))
          else pbind (read_exact n) (\<lambda>frame r.
            res_bind (map_err codec_io_error (codec_decode lib c frame)) (\<lambda>x. Inr (x, r))))"

definition read_frame_blocking :: "'a codec_lib \<Rightarrow> frame_codec \<Rightarrow> (rfb1_frame \<times> 'a) parser" where
  "read_frame_blocking lib c =
     pbind (read_exact 4) (\<lambda>len_bytes.
       let n = unat (u32_from_le_bytes len_bytes)
       in if n > RFB1_HEADER_LEN + max_payload c then (\<lambda>_. Inl (InvalidData ''frame too large''))
          else pbind (read_exact n) (\<lambda>frame r.
            res_bind (map_err codec_io_error (codec_decode lib c frame)) (\<lambda>x. Inr (x, r))))"

section \<open>Lemmas\<close>

lemma map_err_eq_Inr [simp]: "map_err f x = Inr a \<longleftrightarrow> x = Inr a"
  by (cases x) auto

lemma parse_message_type_byte [simp]: "parse_message_type (message_type_byte t) = Inr t"
  by (cases t) (simp_all add: parse_message_type_def)

lemma parse_message_type_eq_Inr: "parse_message_type b = Inr t \<longleftrightarrow> b = message_type_byte t"
  by (cases t) (auto simp: parse_message_type_def split: if_splits)

definition rfb1_header :: "message_type \<Rightarrow> bool \<Rightarrow> u64 \<Rightarrow> nat \<Rightarrow> bytes" where
  "rfb1_header t compressed s n =
     RFB1_MAGIC @ [message_type_byte t] @ [if compressed then 1 else 0] @ u64_to_le_bytes s
     @ u32_to_le_bytes (word_of_nat n)"

lemma codec_encode_eq_Inr:
  "codec_encode lib c t s v = Inr b \<longleftrightarrow>
     (\<exists>raw payload. postcard_to lib v = Inr raw \<and> length raw \<le> max_payload c
        \<and> length payload \<le> max_payload c
        \<and> (if compression_threshold c \<le> length raw then zstd_encode lib raw = Inr payload
           else payload = raw)
        \<and> b = rfb1_header t (compression_threshold c \<le> length raw) s (length payload) @ payload)"
  by (cases "postcard_to lib v"; cases "compression_threshold c \<le> length (projr (postcard_to lib v))";
      cases "zstd_encode lib (projr (postcard_to lib v))")
    (simp_all add: codec_encode_def rfb1_header_def, auto)

lemma rfb1_header_fields:
  shows "length (rfb1_header t z s n) = 18" "take 4 (rfb1_header t z s n) = RFB1_MAGIC"
    "rfb1_header t z s n ! 4 = message_type_byte t"
    "rfb1_header t z s n ! 5 = (if z then 1 else 0)"
    "u64_from_le_bytes (take 8 (drop 6 (rfb1_header t z s n))) = s"
    "n < 2 ^ 32 \<Longrightarrow> unat (u32_from_le_bytes (take 4 (drop 14 (rfb1_header t z s n)))) = n"
  by (simp_all add: rfb1_header_def RFB1_MAGIC_def unat_u32_of_nat)

lemma nth_append_left: "i < length a \<Longrightarrow> (a @ b) ! i = a ! i"
  by (simp add: nth_append)

lemma take_drop_append_left:
  "k + m \<le> length a \<Longrightarrow> take m (drop k (a @ b)) = take m (drop k a)"
  by simp

text \<open>How the decoder treats a genuine header in front of any bytes.\<close>

lemma codec_decode_header:
  assumes "n < 2 ^ 32"
  shows "codec_decode lib c (rfb1_header t z s n @ p) =
    (if n > max_payload c then Inl TooLarge
     else if length p < n then Inl Truncated
     else if length p \<noteq> n then Inl Trailing
     else res_bind (decode_value lib c z p) (\<lambda>(payload, v).
       Inr (\<lparr>message_type_of = t, sequence_of = s, compressed_of = z, payload_of = payload\<rparr>, v)))"
proof -
  let ?h = "rfb1_header t z s n"
  note f = rfb1_header_fields(1-5) [of t z s n] rfb1_header_fields(6) [OF assms, of t z s]
  have "take 4 (?h @ p) = RFB1_MAGIC" "(?h @ p) ! 4 = message_type_byte t"
    "(?h @ p) ! 5 = (if z then 1 else 0)"
    "u64_from_le_bytes (take 8 (drop 6 (?h @ p))) = s"
    "unat (u32_from_le_bytes (take 4 (drop 14 (?h @ p)))) = n"
    "length (?h @ p) = 18 + length p" "drop 18 (?h @ p) = p"
    using f by (simp_all add: nth_append_left take_drop_append_left)
  then show ?thesis
    by (simp add: codec_decode_def RFB1_HEADER_LEN_def Let_def del: take_append drop_append)
qed

lemma decode_value_encoded:
  assumes "lossless lib" "postcard_to lib v = Inr raw" "length raw \<le> max_payload c"
    and "if z then zstd_encode lib raw = Inr payload else payload = raw"
  shows "decode_value lib c z payload = Inr (raw, v)"
proof -
  have "postcard_from lib raw = Inr v"
    using assms(1,2) by (simp add: lossless_def)
  moreover have "z \<Longrightarrow> zstd_read lib payload (max_payload c + 1) = Inr raw"
    using assms(1,3,4) by (simp add: lossless_def)
  ultimately show ?thesis using assms(3,4) by (auto simp: decode_value_def)
qed

lemma codec_roundtrip_lemma:
  assumes "lossless lib" "max_payload c < 2 ^ 32" "codec_encode lib c t s v = Inr b"
  shows "\<exists>raw. postcard_to lib v = Inr raw \<and> length b \<le> RFB1_HEADER_LEN + max_payload c
    \<and> codec_decode lib c b =
        Inr (\<lparr>message_type_of = t, sequence_of = s,
              compressed_of = (compression_threshold c \<le> length raw), payload_of = raw\<rparr>, v)"
proof -
  from assms(3) obtain raw payload where e: "postcard_to lib v = Inr raw"
    "length raw \<le> max_payload c" "length payload \<le> max_payload c"
    "if compression_threshold c \<le> length raw then zstd_encode lib raw = Inr payload
     else payload = raw"
    "b = rfb1_header t (compression_threshold c \<le> length raw) s (length payload) @ payload"
    by (auto simp: codec_encode_eq_Inr)
  have "length payload < 2 ^ 32" using e(3) assms(2) by simp
  then have "codec_decode lib c b =
      Inr (\<lparr>message_type_of = t, sequence_of = s,
            compressed_of = (compression_threshold c \<le> length raw), payload_of = raw\<rparr>, v)"
    using decode_value_encoded [OF assms(1) e(1,2,4)] e(3)
    by (simp add: e(5) codec_decode_header)
  with e(1,3) show ?thesis by (simp add: e(5) RFB1_HEADER_LEN_def rfb1_header_fields)
qed

lemma decode_value_bounds:
  assumes "decode_value lib c z e = Inr (p, v)" "length e \<le> max_payload c"
  shows "length p \<le> max_payload c"
  using assms by (cases z) (auto simp: decode_value_def res_bind_eq_Inr_conv split: if_splits)

lemma codec_decode_bounds:
  assumes "codec_decode lib c b = Inr (frame, v)"
  shows "length b \<le> RFB1_HEADER_LEN + max_payload c \<and> length (payload_of frame) \<le> max_payload c"
proof -
  define n where "n = unat (u32_from_le_bytes (take 4 (drop 14 b)))"
  obtain t where t: "parse_message_type (b ! 4) = Inr t"
    using assms by (cases "parse_message_type (b ! 4)") (simp_all add: codec_decode_def split: if_splits)
  have n: "n \<le> max_payload c" "length b = RFB1_HEADER_LEN + n"
    and d: "res_bind (decode_value lib c (b ! 5 = 1) (take n (drop RFB1_HEADER_LEN b)))
        (\<lambda>(payload, v). Inr (\<lparr>message_type_of = t,
           sequence_of = u64_from_le_bytes (take 8 (drop 6 b)), compressed_of = (b ! 5 = 1),
           payload_of = payload\<rparr>, v)) = Inr (frame, v)"
    using assms unfolding codec_decode_def Let_def t res_bind.simps n_def [symmetric]
    by (simp_all split: if_splits)
  from d obtain p where "decode_value lib c (b ! 5 = 1) (take n (drop RFB1_HEADER_LEN b)) = Inr (p, v)"
    "payload_of frame = p"
    by (auto simp: res_bind_eq_Inr_conv)
  with decode_value_bounds [OF this(1)] n show ?thesis by simp
qed

lemma write_frame_eq_Inr:
  "write_frame lib w c t s v = Inr b \<longleftrightarrow>
     (\<exists>f. codec_encode lib c t s v = Inr f
        \<and> b = w @ u32_to_le_bytes (word_of_nat (length f)) @ f)"
  by (auto simp: write_frame_def res_bind_eq_Inr_conv)

lemma read_frame_written:
  assumes "lossless lib" "RFB1_HEADER_LEN + max_payload c < 2 ^ 32"
    "codec_encode lib c t s v = Inr f"
  shows "\<exists>fr. sequence_of fr = s \<and> message_type_of fr = t \<and> codec_decode lib c f = Inr (fr, v)
    \<and> read_frame lib c (u32_to_le_bytes (word_of_nat (length f)) @ f @ r) = Inr ((fr, v), r)"
proof -
  have "max_payload c < 2 ^ 32" using assms(2) by simp
  from codec_roundtrip_lemma [OF assms(1) this assms(3)] obtain fr where
    "length f \<le> RFB1_HEADER_LEN + max_payload c" "codec_decode lib c f = Inr (fr, v)"
    "sequence_of fr = s" "message_type_of fr = t" by auto
  moreover have "unat (word_of_nat (length f) :: u32) = length f"
    using calculation(1) assms(2) by (intro unat_u32_of_nat) simp
  ultimately show ?thesis
    by (intro exI [of _ fr]) (simp add: read_frame_def)
qed

section \<open>Properties\<close>

text \<open>
  C32. RFB1 frames round-trip and are self-delimiting: with limits that pass validation and a
  lossless serialiser and compressor, an encoded value decodes to itself with its opcode and
  sequence; every proper prefix is \<^verbatim>\<open>Truncated\<close>, every extension is \<^verbatim>\<open>Trailing\<close>; and the
  length-delimited stream reader returns the value and leaves exactly the bytes behind the frame.
\<close>

theorem rfb1_roundtrip:
  assumes "lossless lib" "limits_validate limits = Inr ()" "c = codec_from_limits limits"
    "codec_encode lib c t s v = Inr b"
  shows "\<exists>frame. message_type_of frame = t \<and> sequence_of frame = s
    \<and> codec_decode lib c b = Inr (frame, v)
    \<and> (\<forall>n < length b. codec_decode lib c (take n b) = Inl Truncated)
    \<and> (\<forall>r. r \<noteq> [] \<longrightarrow> codec_decode lib c (b @ r) = Inl Trailing)
    \<and> (\<forall>w r. \<exists>d. write_frame lib w c t s v = Inr (w @ d)
          \<and> read_frame lib c (d @ r) = Inr ((frame, v), r)
          \<and> read_frame_blocking lib c (d @ r) = Inr ((frame, v), r))"
proof -
  have max: "RFB1_HEADER_LEN + max_payload c < 2 ^ 32"
    using assms(2,3)
    by (auto simp: codec_from_limits_def limits_validate_def RFB1_HEADER_LEN_def split: if_splits)
  from assms(4) obtain z payload where b: "b = rfb1_header t z s (length payload) @ payload"
    and len: "length payload \<le> max_payload c" by (auto simp: codec_encode_eq_Inr)
  have small: "length payload < 2 ^ 32" using len max by simp
  have "codec_decode lib c (take n b) = Inl Truncated" if "n < length b" for n
  proof (cases "n < 18")
    case True
    then have "length (take n b) < RFB1_HEADER_LEN"
      by (simp add: RFB1_HEADER_LEN_def min_less_iff_disj)
    then show ?thesis by (simp add: codec_decode_def del: length_take)
  next
    case False
    then have "take n b = rfb1_header t z s (length payload) @ take (n - 18) payload"
      by (simp add: b rfb1_header_fields)
    moreover have "length (take (n - 18) payload) < length payload"
      using that False by (auto simp: b rfb1_header_fields)
    ultimately show ?thesis
      using len by (simp add: codec_decode_header [OF small] min_less_iff_disj del: length_0_conv)
  qed
  moreover have "codec_decode lib c (b @ r) = Inl Trailing" if "r \<noteq> []" for r
    using that len codec_decode_header [OF small, of lib c t z s "payload @ r"] by (simp add: b)
  moreover have "read_frame_blocking lib c = read_frame lib c"
    by (simp add: read_frame_blocking_def read_frame_def)
  moreover obtain frame where "sequence_of frame = s" "message_type_of frame = t"
    "codec_decode lib c b = Inr (frame, v)"
    using read_frame_written [OF assms(1) max assms(4)] by blast
  moreover have "read_frame lib c (u32_to_le_bytes (word_of_nat (length b)) @ b @ r)
      = Inr ((frame, v), r)" for r
    using read_frame_written [OF assms(1) max assms(4), of r] calculation(6) by auto
  ultimately show ?thesis
    using assms(4) by (intro exI [of _ frame]) (auto simp: write_frame_def)
qed

text \<open>
  Decoding is bounded whatever the peer sends and however the libraries behave: an accepted
  frame is no longer than header and payload limit together and its decompressed payload is
  within the limit; a declared length over the limit is reported as \<^verbatim>\<open>TooLarge\<close>, and the stream
  readers refuse such a length before reading the body.
\<close>

theorem rfb1_decode_bounded:
  "(codec_decode lib c b = Inr (frame, v) \<longrightarrow>
      length b \<le> RFB1_HEADER_LEN + max_payload c \<and> length (payload_of frame) \<le> max_payload c)
   \<and> (n < 2 ^ 32 \<and> max_payload c < n \<longrightarrow>
        codec_decode lib c (rfb1_header t z s n @ p) = Inl TooLarge)
   \<and> (m < 2 ^ 32 \<and> RFB1_HEADER_LEN + max_payload c < m \<longrightarrow>
        read_frame lib c (u32_to_le_bytes (word_of_nat m) @ rest) = Inl (InvalidData ''frame too large''))"
proof (intro conjI impI)
  assume "codec_decode lib c b = Inr (frame, v)"
  then show "length b \<le> RFB1_HEADER_LEN + max_payload c" "length (payload_of frame) \<le> max_payload c"
    by (blast dest: codec_decode_bounds)+
next
  assume "n < 2 ^ 32 \<and> max_payload c < n"
  then show "codec_decode lib c (rfb1_header t z s n @ p) = Inl TooLarge"
    by (simp add: codec_decode_header)
next
  assume "m < 2 ^ 32 \<and> RFB1_HEADER_LEN + max_payload c < m"
  then show "read_frame lib c (u32_to_le_bytes (word_of_nat m) @ rest)
      = Inl (InvalidData ''frame too large'')"
    by (simp add: read_frame_def unat_u32_of_nat)
qed

section \<open>Witnesses\<close>

text \<open>A serialiser of byte strings that is the identity, with no compression.\<close>

definition plain_lib :: "bytes codec_lib" where
  "plain_lib = \<lparr>postcard_to = Inr, postcard_from = Inr, zstd_encode = Inr,
                zstd_read = (\<lambda>z n. Inr (take n z))\<rparr>"

lemma lossless_plain_lib: "lossless plain_lib"
  by (simp add: lossless_def plain_lib_def)

theorem rfb1_roundtrip_witness:
  "\<exists>b frame. codec_encode plain_lib (codec_from_limits (limits_default None)) MEvent 4 [1, 2, 3] = Inr b
     \<and> codec_decode plain_lib (codec_from_limits (limits_default None)) b = Inr (frame, [1, 2, 3])
     \<and> sequence_of frame = 4"
proof -
  let ?c = "codec_from_limits (limits_default None)"
  have v: "limits_validate (limits_default None) = Inr ()"
    by (simp add: limits_validate_def limits_default_def)
  obtain b where b: "codec_encode plain_lib ?c MEvent 4 [1, 2, 3] = Inr b"
    by (simp add: codec_encode_def plain_lib_def codec_from_limits_def limits_default_def
        RFB1_HEADER_LEN_def)
  from rfb1_roundtrip [OF lossless_plain_lib v refl b] b show ?thesis by blast
qed

theorem rfb1_decode_bounded_witness:
  "codec_decode plain_lib codec_default (rfb1_header MEvent False 7 16777217 @ [1]) = Inl TooLarge
   \<and> read_frame plain_lib codec_default (u32_to_le_bytes (word_of_nat 16777300) @ [])
      = Inl (InvalidData ''frame too large'')"
  using rfb1_decode_bounded [where lib = plain_lib and c = codec_default and n = 16777217
      and m = 16777300 and t = MEvent and z = False and s = 7 and p = "[1]" and rest = "[]"]
  by (simp add: codec_default_def RFB1_HEADER_LEN_def)

end
