(* ===== verification/Rfb_Session.thy ===== *)
theory Rfb_Session
  imports Rfb_Codec
begin

text \<open>
  The RFB1 session vocabulary, \<^verbatim>\<open>rfb-runtime/src/session.rs\<close>, and the frame streams that carry it,
  \<^verbatim>\<open>rfb-runtime/src/guest_protocol.rs\<close> with \<^verbatim>\<open>write_responses\<close> of
  \<^verbatim>\<open>rfb-runtime/src/guest_connection.rs\<close>.
\<close>

section \<open>Messages\<close>

definition FILE_RPC_MAX_BYTES :: nat where
  "FILE_RPC_MAX_BYTES = 50 * 1024"

record session_request =
  rq_session_id :: string
  rq_request_id :: string
  rq_prompt :: string

record session_event =
  ev_session_id :: string
  ev_sequence :: u64
  ev_kind :: string
  ev_payload :: bytes

record file_read_request =
  frr_request_id :: string
  frr_path :: string
  frr_max_bytes :: nat

record file_write_request =
  fwr_request_id :: string
  fwr_path :: string
  fwr_content :: bytes
  fwr_append :: bool

datatype terminal_stream = Stdout | Stderr

record terminal_event =
  te_stream :: terminal_stream
  te_data :: string
  te_data_bytes :: "bytes option"

datatype runtime_event =
    EStarted u64
  | EProgress u64 string
  | EOutput u64 terminal_event
  | ECompleted u64 "int option"
  | EFailed u64 string
  | ECancelled u64

fun kind_label :: "runtime_event \<Rightarrow> string" where
  "kind_label (EStarted s) = ''turn.started''"
| "kind_label (EProgress s m) = ''turn.progress''"
| "kind_label (EOutput s t) = ''terminal.output''"
| "kind_label (ECompleted s c) = ''turn.completed''"
| "kind_label (EFailed s r) = ''turn.failed''"
| "kind_label (ECancelled s) = ''turn.cancelled''"

fun event_sequence :: "runtime_event \<Rightarrow> u64" where
  "event_sequence (EStarted s) = s"
| "event_sequence (EProgress s m) = s"
| "event_sequence (EOutput s t) = s"
| "event_sequence (ECompleted s c) = s"
| "event_sequence (EFailed s r) = s"
| "event_sequence (ECancelled s) = s"

fun is_terminal :: "runtime_event \<Rightarrow> bool" where
  "is_terminal (ECompleted s c) = True"
| "is_terminal (EFailed s r) = True"
| "is_terminal (ECancelled s) = True"
| "is_terminal _ = False"

datatype control_message =
    CHello u16
  | CCapabilities bool bool
  | CStartTurn session_request
  | CCancel string string
  | CReadWorkspaceFile file_read_request
  | CReadHostFile file_read_request
  | CWriteWorkspaceFile file_write_request
  | CShutdown

fun control_type :: "control_message \<Rightarrow> message_type" where
  "control_type (CHello v) = MHello"
| "control_type (CCapabilities a b) = MCapabilities"
| "control_type (CStartTurn t) = MStartTurn"
| "control_type (CCancel s r) = MCancelTurn"
| "control_type (CReadWorkspaceFile r) = MReadWorkspaceFile"
| "control_type (CReadHostFile r) = MReadHostFile"
| "control_type (CWriteWorkspaceFile r) = MWriteWorkspaceFile"
| "control_type CShutdown = MShutdown"

datatype runtime_message =
    RHelloAck u16
  | RCapabilities bool bool
  | REvent session_event
  | RError string string
  | RFileContent string string bytes
  | RWriteAck string string
  | RShutdownAck

section \<open>Guest frame streams\<close>

definition write_control_message ::
  "control_message codec_lib \<Rightarrow> bytes \<Rightarrow> frame_codec \<Rightarrow> control_message \<Rightarrow> u64 \<Rightarrow> io_error + bytes" where
  "write_control_message lib w c message sequence =
     write_frame lib w c (control_type message) sequence message"

definition write_control_message_blocking ::
  "control_message codec_lib \<Rightarrow> bytes \<Rightarrow> frame_codec \<Rightarrow> control_message \<Rightarrow> u64 \<Rightarrow> io_error + bytes" where
  "write_control_message_blocking lib w c message sequence =
     write_frame_blocking lib w c (control_type message) sequence message"

definition read_runtime_message_with_sequence ::
  "runtime_message codec_lib \<Rightarrow> frame_codec \<Rightarrow> (u64 \<times> runtime_message) parser" where
  "read_runtime_message_with_sequence lib c =
     pbind (read_frame lib c) (\<lambda>(header, message).
       if message_type_of header \<in> {MHelloAck, MCapabilities, MEvent, MShutdown, MError, MFileContent,
            MWriteAck}
       then pret (sequence_of header, message)
       else (\<lambda>_. Inl (InvalidData ''unexpected guest response message type'')))"

definition read_runtime_message_blocking_with_sequence ::
  "runtime_message codec_lib \<Rightarrow> frame_codec \<Rightarrow> (u64 \<times> runtime_message) parser" where
  "read_runtime_message_blocking_with_sequence lib c =
     pbind (read_frame_blocking lib c) (\<lambda>(header, message).
       if message_type_of header \<in> {MHelloAck, MCapabilities, MEvent, MShutdown, MError, MFileContent,
            MWriteAck}
       then pret (sequence_of header, message)
       else (\<lambda>_. Inl (InvalidData ''unexpected guest response message type'')))"

definition read_runtime_message ::
  "runtime_message codec_lib \<Rightarrow> frame_codec \<Rightarrow> runtime_message parser" where
  "read_runtime_message lib c =
     pbind (read_runtime_message_with_sequence lib c) (\<lambda>(sequence, message). pret message)"

definition read_runtime_message_blocking ::
  "runtime_message codec_lib \<Rightarrow> frame_codec \<Rightarrow> runtime_message parser" where
  "read_runtime_message_blocking lib c =
     pbind (read_runtime_message_blocking_with_sequence lib c) (\<lambda>(sequence, message). pret message)"

record sequenced_runtime_message =
  sm_sequence :: u64
  sm_message :: runtime_message

datatype guest_protocol_error = Incomplete string | Decode codec_error | UnexpectedMessage

text \<open>The loop of the source, on the bytes from the cursor on.\<close>

function decode_guest_messages_with_sequence ::
  "runtime_message codec_lib \<Rightarrow> frame_codec \<Rightarrow> bytes
     \<Rightarrow> guest_protocol_error + sequenced_runtime_message list" where
  "decode_guest_messages_with_sequence lib c bs =
     (if bs = [] then Inr []
      else if length bs < 4 then Inl (Incomplete ''length'')
      else (let n = unat (u32_from_le_bytes (take 4 bs)); rest = drop 4 bs
            in if length rest < n then Inl (Incomplete ''payload'')
               else res_bind (map_err Decode (codec_decode lib c (take n rest))) (\<lambda>(header, message).
                 if message_type_of header \<noteq> MHelloAck \<and> message_type_of header \<noteq> MEvent
                    \<and> message_type_of header \<noteq> MCapabilities \<and> message_type_of header \<noteq> MShutdown
                    \<and> message_type_of header \<noteq> MError \<and> message_type_of header \<noteq> MFileContent
                    \<and> message_type_of header \<noteq> MWriteAck
                 then Inl UnexpectedMessage
                 else res_bind (decode_guest_messages_with_sequence lib c (drop n rest)) (\<lambda>ms.
                        Inr (\<lparr>sm_sequence = sequence_of header, sm_message = message\<rparr> # ms)))))"
  by pat_completeness auto
termination
  by (relation "measure (\<lambda>(lib, c, bs). length bs)") auto

declare decode_guest_messages_with_sequence.simps [simp del]

definition decode_guest_messages ::
  "runtime_message codec_lib \<Rightarrow> frame_codec \<Rightarrow> bytes \<Rightarrow> guest_protocol_error + runtime_message list" where
  "decode_guest_messages lib c bs =
     res_bind (decode_guest_messages_with_sequence lib c bs) (\<lambda>ms. Inr (map sm_message ms))"

fun response_type :: "runtime_message \<Rightarrow> message_type" where
  "response_type (RHelloAck v) = MHelloAck"
| "response_type (RCapabilities a b) = MCapabilities"
| "response_type (REvent e) = MEvent"
| "response_type (RError r m) = MError"
| "response_type RShutdownAck = MShutdown"
| "response_type (RFileContent r p b) = MFileContent"
| "response_type (RWriteAck r p) = MWriteAck"

fun write_responses ::
  "runtime_message codec_lib \<Rightarrow> bytes \<Rightarrow> frame_codec \<Rightarrow> u64 \<Rightarrow> runtime_message list \<Rightarrow> io_error + bytes" where
  "write_responses lib w c sequence [] = Inr w"
| "write_responses lib w c sequence (response # responses) =
     res_bind (write_frame lib w c (response_type response) sequence response) (\<lambda>w'.
       write_responses lib w' c sequence responses)"

section \<open>Lemmas\<close>

lemma response_type_accepted:
  "response_type m \<in> {MHelloAck, MCapabilities, MEvent, MShutdown, MError, MFileContent, MWriteAck}"
  by (cases m) simp_all

lemma decode_guest_messages_Nil [simp]:
  "decode_guest_messages_with_sequence lib c [] = Inr []"
  by (simp add: decode_guest_messages_with_sequence.simps)

lemma decode_guest_messages_frame:
  assumes "codec_decode lib c f = Inr (header, m)" "message_type_of header = response_type m"
    "length f < 2 ^ 32"
  shows "decode_guest_messages_with_sequence lib c (u32_to_le_bytes (word_of_nat (length f)) @ f @ r)
    = res_bind (decode_guest_messages_with_sequence lib c r) (\<lambda>ms.
        Inr (\<lparr>sm_sequence = sequence_of header, sm_message = m\<rparr> # ms))"
proof -
  let ?b = "u32_to_le_bytes (word_of_nat (length f)) @ f @ r"
  have "length ?b = 4 + length f + length r" "take 4 ?b = u32_to_le_bytes (word_of_nat (length f))"
    "drop 4 ?b = f @ r" by simp_all
  moreover from this(1) have "?b \<noteq> []" by (metis add_is_0 list.size(3) zero_neq_numeral)
  ultimately show ?thesis
    using response_type_accepted [of m] assms
    by (subst decode_guest_messages_with_sequence.simps)
      (simp add: unat_u32_of_nat Let_def del: take_append drop_append append_is_Nil_conv, auto)
qed

lemma decode_written_responses:
  assumes "lossless lib" "RFB1_HEADER_LEN + max_payload c < 2 ^ 32"
    "write_responses lib w c s ms = Inr b"
  shows "\<exists>d. b = w @ d \<and>
    (\<forall>r. decode_guest_messages_with_sequence lib c (d @ r) =
       res_bind (decode_guest_messages_with_sequence lib c r) (\<lambda>rest.
         Inr (map (\<lambda>m. \<lparr>sm_sequence = s, sm_message = m\<rparr>) ms @ rest)))"
  using assms(3)
proof (induction ms arbitrary: w)
  case Nil
  have "res_bind x Inr = x" for x :: "guest_protocol_error + sequenced_runtime_message list"
    by (cases x) auto
  with Nil show ?case by simp
next
  case (Cons m ms)
  from Cons.prems obtain f where f: "codec_encode lib c (response_type m) s m = Inr f"
    and rest: "write_responses lib (w @ u32_to_le_bytes (word_of_nat (length f)) @ f) c s ms = Inr b"
    by (auto simp: res_bind_eq_Inr_conv write_frame_eq_Inr)
  from read_frame_written [OF assms(1,2) f] obtain fr where fr: "sequence_of fr = s"
    "message_type_of fr = response_type m" "codec_decode lib c f = Inr (fr, m)" by blast
  have len: "length f < 2 ^ 32"
    using codec_roundtrip_lemma [OF assms(1) _ f] assms(2) by auto
  obtain d where d: "b = (w @ u32_to_le_bytes (word_of_nat (length f)) @ f) @ d"
    "\<And>r. decode_guest_messages_with_sequence lib c (d @ r) =
       res_bind (decode_guest_messages_with_sequence lib c r) (\<lambda>rest.
         Inr (map (\<lambda>m. \<lparr>sm_sequence = s, sm_message = m\<rparr>) ms @ rest))"
    using Cons.IH [OF rest] by blast
  have bb: "res_bind (res_bind x (\<lambda>r. Inr (g r))) (\<lambda>ms. Inr (h ms)) = res_bind x (\<lambda>r. Inr (h (g r)))"
    for x :: "guest_protocol_error + sequenced_runtime_message list"
      and g and h :: "sequenced_runtime_message list \<Rightarrow> sequenced_runtime_message list"
    by (cases x) auto
  show ?case
    using d fr decode_guest_messages_frame [OF fr(3,2) len]
    by (intro exI [of _ "u32_to_le_bytes (word_of_nat (length f)) @ f @ d"]) (simp add: bb)
qed

section \<open>Properties\<close>

text \<open>
  What the guest answers is what the host decodes: for validated limits, the bytes that
  \<^verbatim>\<open>write_responses\<close> puts on the wire for a list of responses decode, in one go, to exactly that
  list, in order, each with the sequence of the request; and a stream that carries two batches
  decodes to both.
\<close>

theorem guest_responses_roundtrip:
  assumes "lossless lib" "limits_validate limits = Inr ()" "c = codec_from_limits limits"
    "write_responses lib [] c s ms = Inr b1" "write_responses lib b1 c s' ms' = Inr b2"
  shows "decode_guest_messages lib c b1 = Inr ms
    \<and> decode_guest_messages_with_sequence lib c b2 =
        Inr (map (\<lambda>m. \<lparr>sm_sequence = s, sm_message = m\<rparr>) ms
             @ map (\<lambda>m. \<lparr>sm_sequence = s', sm_message = m\<rparr>) ms')"
proof -
  have max: "RFB1_HEADER_LEN + max_payload c < 2 ^ 32"
    using assms(2,3)
    by (auto simp: codec_from_limits_def limits_validate_def RFB1_HEADER_LEN_def split: if_splits)
  from decode_written_responses [OF assms(1) max assms(4)]
  have one: "decode_guest_messages_with_sequence lib c (b1 @ r) =
       res_bind (decode_guest_messages_with_sequence lib c r) (\<lambda>rest.
         Inr (map (\<lambda>m. \<lparr>sm_sequence = s, sm_message = m\<rparr>) ms @ rest))" for r by auto
  from decode_written_responses [OF assms(1) max assms(5)] obtain d where "b2 = b1 @ d"
    "decode_guest_messages_with_sequence lib c d = Inr (map (\<lambda>m. \<lparr>sm_sequence = s', sm_message = m\<rparr>) ms')"
    by (metis (no_types, lifting) append_Nil2 decode_guest_messages_Nil res_bind.simps(2))
  with one [of d] one [of "[]"] show ?thesis
    by (simp add: decode_guest_messages_def comp_def)
qed

section \<open>Witnesses\<close>

definition ack_lib :: "runtime_message codec_lib" where
  "ack_lib = \<lparr>postcard_to = (\<lambda>m. if m = RShutdownAck then Inr [6] else Inl ''unsupported''),
              postcard_from = (\<lambda>b. if b = [6] then Inr RShutdownAck else Inl ''unsupported''),
              zstd_encode = Inr, zstd_read = (\<lambda>z n. Inr (take n z))\<rparr>"

theorem guest_responses_roundtrip_witness:
  "\<exists>b. write_responses ack_lib [] (codec_from_limits (limits_default None)) 3 [RShutdownAck] = Inr b
     \<and> decode_guest_messages ack_lib (codec_from_limits (limits_default None)) b = Inr [RShutdownAck]"
proof -
  let ?c = "codec_from_limits (limits_default None)"
  have l: "lossless ack_lib" by (simp add: lossless_def ack_lib_def)
  have v: "limits_validate (limits_default None) = Inr ()"
    by (simp add: limits_validate_def limits_default_def)
  obtain b where b: "write_responses ack_lib [] ?c 3 [RShutdownAck] = Inr b"
    by (simp add: write_frame_def codec_encode_def ack_lib_def codec_from_limits_def
        limits_default_def RFB1_HEADER_LEN_def)
  have "write_responses ack_lib b ?c 3 [] = Inr b" by simp
  from guest_responses_roundtrip [OF l v refl b this] b show ?thesis by blast
qed

end
