(* ===== verification/Runtime_Service.thy ===== *)
theory Runtime_Service
  imports Rfb_Session
begin

text \<open>
  The guest-side state machine, \<^verbatim>\<open>rfb-runtime/src/runtime_service/\<close>: identity checks, sequencing,
  the replay caches of completed and cancelled turns, the executor that an in-flight turn takes
  out of the service, cancellation through a shared flag, and shutdown.

  The executor is a trait object. Its vtable is the record \<open>guest_executor\<close> over an abstract
  executor state \<open>'e\<close>; a cancellation flag (\<^verbatim>\<open>Arc<AtomicBool>\<close>) is an address in a heap of booleans
  that executor and service share, so that a store through one is seen by the other. A method
  takes the executor and the heap and returns them with its result. \<^verbatim>\<open>expect\<close> on a missing executor
  is the outcome \<open>Panicked\<close>.
\<close>

section \<open>Executors\<close>

type_synonym flag_heap = "nat \<Rightarrow> bool"

record guest_event =
  ge_kind :: string
  ge_payload :: bytes

record 'e guest_executor =
  x_start_turn :: "session_request \<Rightarrow> 'e \<times> flag_heap \<Rightarrow> (string + guest_event list) \<times> 'e \<times> flag_heap"
  x_cancel :: "string \<Rightarrow> string \<Rightarrow> 'e \<times> flag_heap \<Rightarrow> (string + unit) \<times> 'e \<times> flag_heap"
  x_shutdown :: "'e \<times> flag_heap \<Rightarrow> (string + unit) \<times> 'e \<times> flag_heap"
  x_read_workspace_file :: "file_read_request \<Rightarrow> 'e \<times> flag_heap \<Rightarrow> (string + bytes) \<times> 'e \<times> flag_heap"
  x_write_workspace_file :: "file_write_request \<Rightarrow> 'e \<times> flag_heap \<Rightarrow> (string + unit) \<times> 'e \<times> flag_heap"
  x_filesystem_rpc :: "byte \<Rightarrow> string \<Rightarrow> bytes \<Rightarrow> 'e \<times> flag_heap \<Rightarrow> (string + bytes) \<times> 'e \<times> flag_heap"
  x_cancel_handle :: "'e \<Rightarrow> nat option"
  x_reset_cancel :: "'e \<times> flag_heap \<Rightarrow> 'e \<times> flag_heap"

text \<open>The default methods of the trait and the executor that refuses every turn.\<close>

definition unavailable_executor :: "string guest_executor" where
  "unavailable_executor =
     \<lparr>x_start_turn = (\<lambda>_ s. (Inl (fst s), s)),
      x_cancel = (\<lambda>_ _ s. (Inr (), s)),
      x_shutdown = (\<lambda>s. (Inr (), s)),
      x_read_workspace_file =
        (\<lambda>_ s. (Inl ''structured file RPC is not supported by this executor'', s)),
      x_write_workspace_file =
        (\<lambda>_ s. (Inl ''structured file RPC is not supported by this executor'', s)),
      x_filesystem_rpc = (\<lambda>_ _ _ s. (Inl ''filesystem RPC is not supported by this executor'', s)),
      x_cancel_handle = (\<lambda>_. None),
      x_reset_cancel = (\<lambda>s. s)\<rparr>"

section \<open>The replay caches\<close>

text \<open>
  \<^verbatim>\<open>record_completed\<close> and \<^verbatim>\<open>record_cancelled\<close> share one loop: a map with its keys in insertion
  order, and a queue of tombstones for evicted keys. \<open>trim_front\<close> is the inner
  \<^verbatim>\<open>while queue.len() > LIMIT { queue.pop_front(); }\<close>, \<open>evict_loop\<close> the outer one.
\<close>

type_synonym turn_key = "string \<times> string"
type_synonym replay_store = "turn_key \<Rightarrow> runtime_message list option"

function trim_front :: "nat \<Rightarrow> 'a list \<Rightarrow> 'a list" where
  "trim_front limit q = (if length q > limit then trim_front limit (tl q) else q)"
  by pat_completeness auto
termination
  by (relation "measure (\<lambda>(limit, q). length q)") auto

declare trim_front.simps [simp del]

function evict_loop ::
  "nat \<Rightarrow> replay_store \<times> turn_key list \<times> turn_key list \<Rightarrow> replay_store \<times> turn_key list \<times> turn_key list" where
  "evict_loop limit (store, order, tombs) =
     (if length order > limit
      then (let oldest = hd order
            in evict_loop limit (store(oldest := None), tl order, trim_front limit (tombs @ [oldest])))
      else (store, order, tombs))"
  by pat_completeness auto
termination
  by (relation "measure (\<lambda>(limit, store, order, tombs). length order)") auto

declare evict_loop.simps [simp del]

definition record_entry ::
  "nat \<Rightarrow> turn_key \<Rightarrow> runtime_message list \<Rightarrow> replay_store \<times> turn_key list \<times> turn_key list
     \<Rightarrow> replay_store \<times> turn_key list \<times> turn_key list" where
  "record_entry limit key responses c =
     (case c of (store, order, tombs) \<Rightarrow>
        evict_loop limit
          (store(key \<mapsto> responses), if store key = None then order @ [key] else order, tombs))"

section \<open>The service\<close>

definition COMPLETED_LIMIT :: nat where
  "COMPLETED_LIMIT = 256"

definition CANCELLED_LIMIT :: nat where
  "CANCELLED_LIMIT = 256"

record 'e runtime_service =
  rs_sequence :: u64
  rs_protocol_ready :: bool
  rs_completed_requests :: replay_store
  rs_completed_order :: "turn_key list"
  rs_evicted_requests :: "turn_key list"
  rs_active_sessions :: "(string \<times> string) list"
  rs_cancelled_sessions :: replay_store
  rs_cancelled_order :: "turn_key list"
  rs_evicted_cancelled :: "turn_key list"
  rs_shutdown :: bool
  rs_limits :: runtime_limits
  rs_executor :: "'e option"
  rs_turn_cancel :: "nat option"
  rs_flags :: flag_heap

datatype 'a outcome = Returned 'a | Panicked

definition executor_mut ::
  "('e \<times> flag_heap \<Rightarrow> 'r \<times> 'e \<times> flag_heap) \<Rightarrow> 'e runtime_service
     \<Rightarrow> 'r outcome \<times> 'e runtime_service" where
  "executor_mut f sv =
     (case rs_executor sv of
        None \<Rightarrow> (Panicked, sv)
      | Some e \<Rightarrow> (case f (e, rs_flags sv) of (r, e', h) \<Rightarrow>
          (Returned r, sv\<lparr>rs_executor := Some e', rs_flags := h\<rparr>)))"

definition record_completed ::
  "turn_key \<Rightarrow> runtime_message list \<Rightarrow> 'e runtime_service \<Rightarrow> 'e runtime_service" where
  "record_completed key responses sv =
     (case record_entry COMPLETED_LIMIT key responses
             (rs_completed_requests sv, rs_completed_order sv, rs_evicted_requests sv) of
        (store, order, tombs) \<Rightarrow>
          sv\<lparr>rs_completed_requests := store, rs_completed_order := order, rs_evicted_requests := tombs\<rparr>)"

definition record_cancelled ::
  "turn_key \<Rightarrow> runtime_message list \<Rightarrow> 'e runtime_service \<Rightarrow> 'e runtime_service" where
  "record_cancelled key responses sv =
     (case record_entry CANCELLED_LIMIT key responses
             (rs_cancelled_sessions sv, rs_cancelled_order sv, rs_evicted_cancelled sv) of
        (store, order, tombs) \<Rightarrow>
          sv\<lparr>rs_cancelled_sessions := store, rs_cancelled_order := order, rs_evicted_cancelled := tombs\<rparr>)"

definition evicted_replay_error :: "string \<Rightarrow> runtime_message" where
  "evicted_replay_error request_id =
     RError request_id ''request completed earlier; result no longer available''"

definition evicted_cancelled_error :: "string \<Rightarrow> runtime_message" where
  "evicted_cancelled_error request_id =
     RError request_id ''request was cancelled earlier; terminal no longer available''"

definition validate_identity :: "string \<Rightarrow> string \<Rightarrow> runtime_message option" where
  "validate_identity session_id request_id =
     (if blank session_id \<or> blank request_id
      then Some (RError request_id ''session_id and request_id must be non-empty'') else None)"

fun request_id_of :: "control_message \<Rightarrow> string" where
  "request_id_of (CStartTurn turn) = rq_request_id turn"
| "request_id_of _ = []"

fun response_completes_turn :: "runtime_message \<Rightarrow> bool" where
  "response_completes_turn (REvent e) =
     (ev_kind e \<in> {''turn.completed'', ''turn.failed'', ''turn.cancelled''})"
| "response_completes_turn _ = False"

fun is_error_message :: "runtime_message \<Rightarrow> bool" where
  "is_error_message (RError r m) = True"
| "is_error_message _ = False"

definition next_sequence :: "'e runtime_service \<Rightarrow> u64 \<times> 'e runtime_service" where
  "next_sequence sv =
     (let s = u64_saturating_add (rs_sequence sv) 1 in (s, sv\<lparr>rs_sequence := s\<rparr>))"

definition cancelled_event ::
  "string \<Rightarrow> 'e runtime_service \<Rightarrow> runtime_message list \<times> 'e runtime_service" where
  "cancelled_event session_id sv =
     (case next_sequence sv of (s, sv') \<Rightarrow>
        ([REvent \<lparr>ev_session_id = session_id, ev_sequence = s, ev_kind = ''turn.cancelled'',
                  ev_payload = []\<rparr>], sv'))"

text \<open>\<^verbatim>\<open>events.into_iter().map(|event| Event(.. sequence: self.next() ..)).collect()\<close>\<close>

fun number_events ::
  "string \<Rightarrow> guest_event list \<Rightarrow> 'e runtime_service \<Rightarrow> runtime_message list \<times> 'e runtime_service" where
  "number_events session_id [] sv = ([], sv)"
| "number_events session_id (e # es) sv =
     (case next_sequence sv of (s, sv1) \<Rightarrow>
        (case number_events session_id es sv1 of (ms, sv2) \<Rightarrow>
           (REvent \<lparr>ev_session_id = session_id, ev_sequence = s, ev_kind = ge_kind e,
                    ev_payload = ge_payload e\<rparr> # ms, sv2)))"

section \<open>Operations\<close>

definition store_flag :: "nat option \<Rightarrow> 'e runtime_service \<Rightarrow> 'e runtime_service" where
  "store_flag addr sv =
     (case addr of None \<Rightarrow> sv | Some a \<Rightarrow> sv\<lparr>rs_flags := (rs_flags sv)(a := True)\<rparr>)"

definition handle_start ::
  "'e guest_executor \<Rightarrow> session_request \<Rightarrow> 'e runtime_service
     \<Rightarrow> runtime_message list outcome \<times> 'e runtime_service" where
  "handle_start x request sv =
     (let sid = rq_session_id request; rid = rq_request_id request; key = (sid, rid) in
      case validate_identity sid rid of Some error \<Rightarrow> (Returned [error], sv) | None \<Rightarrow>
      (case rs_completed_requests sv key of Some previous \<Rightarrow> (Returned previous, sv) | None \<Rightarrow>
       if key \<in> set (rs_evicted_requests sv) then (Returned [evicted_replay_error rid], sv)
       else (case rs_cancelled_sessions sv key of
         Some previous \<Rightarrow>
           if previous = [] then (case cancelled_event sid sv of (ms, sv') \<Rightarrow> (Returned ms, sv'))
           else (Returned previous, sv)
       | None \<Rightarrow>
         if key \<in> set (rs_evicted_cancelled sv) then (Returned [evicted_cancelled_error rid], sv)
         else (case map_of (rs_active_sessions sv) sid of
           Some active \<Rightarrow>
             (Returned [RError rid (''session already has an active request: '' @ active)], sv)
         | None \<Rightarrow>
           (case executor_mut (\<lambda>s. ((), x_reset_cancel x s))
                   (sv\<lparr>rs_active_sessions := alist_insert sid rid (rs_active_sessions sv)\<rparr>) of
              (Panicked, sv1) \<Rightarrow> (Panicked, sv1)
            | (Returned _, sv1) \<Rightarrow>
              (case executor_mut (x_start_turn x request) sv1 of
                 (Panicked, sv2) \<Rightarrow> (Panicked, sv2)
               | (Returned result, sv2) \<Rightarrow>
                 (case (case result of
                          Inr events \<Rightarrow> number_events sid events sv2
                        | Inl message \<Rightarrow> ([RError rid message], sv2)) of
                    (responses, sv3) \<Rightarrow>
                      let failed = list_ex is_error_message responses;
                          finished = list_ex response_completes_turn responses;
                          sv4 = (if failed \<or> finished
                                 then sv3\<lparr>rs_active_sessions := alist_remove sid (rs_active_sessions sv3)\<rparr>
                                 else sv3);
                          sv5 = (if \<not> failed \<and> finished then record_completed key responses sv4 else sv4)
                      in (Returned responses, sv5))))))))"

definition handle_cancel ::
  "'e guest_executor \<Rightarrow> string \<Rightarrow> string \<Rightarrow> 'e runtime_service
     \<Rightarrow> runtime_message list outcome \<times> 'e runtime_service" where
  "handle_cancel x sid rid sv =
     (let key = (sid, rid) in
      case validate_identity sid rid of Some error \<Rightarrow> (Returned [error], sv) | None \<Rightarrow>
      (case rs_cancelled_sessions sv key of Some previous \<Rightarrow> (Returned previous, sv) | None \<Rightarrow>
      (case map_of (rs_active_sessions sv) sid of
         None \<Rightarrow> (Returned [RError rid ''request is not active''], sv)
       | Some active \<Rightarrow>
         if active \<noteq> rid
         then (Returned [RError rid (''session has a different active request: '' @ active)], sv)
         else (case executor_mut (x_cancel x sid rid) sv of
           (Panicked, sv1) \<Rightarrow> (Panicked, sv1)
         | (Returned (Inl message), sv1) \<Rightarrow> (Returned [RError rid message], sv1)
         | (Returned (Inr _), sv1) \<Rightarrow>
           (case cancelled_event sid
                   (sv1\<lparr>rs_active_sessions := alist_remove sid (rs_active_sessions sv1)\<rparr>) of
              (responses, sv2) \<Rightarrow> (Returned responses, record_cancelled key responses sv2))))))"

definition cancel_active ::
  "string \<Rightarrow> string \<Rightarrow> 'e runtime_service \<Rightarrow> runtime_message list \<times> 'e runtime_service" where
  "cancel_active sid rid sv =
     (let key = (sid, rid) in
      case validate_identity sid rid of Some error \<Rightarrow> ([error], sv) | None \<Rightarrow>
      (if rs_cancelled_sessions sv key \<noteq> None then ([], sv)
       else (case map_of (rs_active_sessions sv) sid of
         None \<Rightarrow> ([RError rid ''request is not active''], sv)
       | Some active \<Rightarrow>
         if active \<noteq> rid then ([RError rid (''session has a different active request: '' @ active)], sv)
         else ([], record_cancelled key [] (store_flag (rs_turn_cancel sv) sv)))))"

definition hello_reply :: "u16 \<Rightarrow> 'e runtime_service \<Rightarrow> runtime_message list \<times> 'e runtime_service" where
  "hello_reply protocol_version sv =
     (if protocol_version \<noteq> 1
      then ([RError [] (''unsupported protocol version: '' @ dec_string (unat protocol_version))], sv)
      else ([RHelloAck 1], sv\<lparr>rs_protocol_ready := True\<rparr>))"

text \<open>The branch of \<^verbatim>\<open>handle\<close> while an in-flight turn owns the executor.\<close>

definition handle_turn_in_flight ::
  "control_message \<Rightarrow> 'e runtime_service \<Rightarrow> runtime_message list \<times> 'e runtime_service" where
  "handle_turn_in_flight request sv =
     (case request of
        CHello v \<Rightarrow> hello_reply v sv
      | CCapabilities _ _ \<Rightarrow> ([RCapabilities True True], sv)
      | CCancel sid rid \<Rightarrow> cancel_active sid rid sv
      | CShutdown \<Rightarrow> ([RShutdownAck], (store_flag (rs_turn_cancel sv) sv)\<lparr>rs_shutdown := True\<rparr>)
      | CStartTurn _ \<Rightarrow> ([RError (request_id_of request) ''session already has an active request''], sv)
      | _ \<Rightarrow> ([RError (request_id_of request) ''turn in progress; control RPC unavailable''], sv))"

definition handle_shutdown ::
  "'e guest_executor \<Rightarrow> 'e runtime_service \<Rightarrow> runtime_message list \<times> 'e runtime_service" where
  "handle_shutdown x sv =
     (let sv1 = store_flag (rs_turn_cancel sv) sv;
          (result, sv2) = (case rs_executor sv1 of
             None \<Rightarrow> (Inr (), sv1)
           | Some e \<Rightarrow> (case x_shutdown x (e, rs_flags sv1) of (r, e', h) \<Rightarrow>
               (r, sv1\<lparr>rs_executor := Some e', rs_flags := h\<rparr>)))
      in (case result of Inr _ \<Rightarrow> [RShutdownAck] | Inl message \<Rightarrow> [RError [] message],
          sv2\<lparr>rs_active_sessions := [], rs_completed_requests := Map.empty, rs_completed_order := [],
              rs_evicted_requests := [], rs_cancelled_sessions := Map.empty, rs_cancelled_order := [],
              rs_evicted_cancelled := [], rs_shutdown := True\<rparr>))"

definition returned :: "'a \<times> 's \<Rightarrow> 'a outcome \<times> 's" where
  "returned p = (Returned (fst p), snd p)"

definition handle ::
  "'e guest_executor \<Rightarrow> control_message \<Rightarrow> 'e runtime_service
     \<Rightarrow> runtime_message list outcome \<times> 'e runtime_service" where
  "handle x request sv =
     (if rs_shutdown sv \<and> request \<noteq> CShutdown
      then (Returned [RError (request_id_of request) ''runtime has shut down''], sv)
      else if rs_executor sv = None then returned (handle_turn_in_flight request sv)
      else (case request of
        CHello v \<Rightarrow> returned (hello_reply v sv)
      | _ \<Rightarrow>
        if \<not> rs_protocol_ready sv
        then (Returned [RError (request_id_of request)
                ''protocol handshake required before control messages''], sv)
        else (case request of
          CHello v \<Rightarrow> returned (hello_reply v sv)
        | CCapabilities _ _ \<Rightarrow> (Returned [RCapabilities True True], sv)
        | CStartTurn turn \<Rightarrow> handle_start x turn sv
        | CCancel sid rid \<Rightarrow> handle_cancel x sid rid sv
        | CReadWorkspaceFile r \<Rightarrow>
            (case executor_mut (x_read_workspace_file x r) sv of
               (Panicked, sv1) \<Rightarrow> (Panicked, sv1)
             | (Returned (Inr content), sv1) \<Rightarrow>
                 (Returned [RFileContent (frr_request_id r) (frr_path r) content], sv1)
             | (Returned (Inl message), sv1) \<Rightarrow> (Returned [RError (frr_request_id r) message], sv1))
        | CReadHostFile r \<Rightarrow>
            (Returned [RError (frr_request_id r) ''read-only host source RPC is not supported''], sv)
        | CWriteWorkspaceFile r \<Rightarrow>
            (case executor_mut (x_write_workspace_file x r) sv of
               (Panicked, sv1) \<Rightarrow> (Panicked, sv1)
             | (Returned (Inr _), sv1) \<Rightarrow>
                 (Returned [RWriteAck (fwr_request_id r) (fwr_path r)], sv1)
             | (Returned (Inl message), sv1) \<Rightarrow> (Returned [RError (fwr_request_id r) message], sv1))
        | CShutdown \<Rightarrow> returned (handle_shutdown x sv))))"

definition filesystem_rpc ::
  "'e guest_executor \<Rightarrow> byte \<Rightarrow> string \<Rightarrow> bytes \<Rightarrow> 'e runtime_service
     \<Rightarrow> (string + bytes) outcome \<times> 'e runtime_service" where
  "filesystem_rpc x op path d sv =
     (if \<not> rs_protocol_ready sv
      then (Returned (Inl ''protocol handshake required before filesystem RPC''), sv)
      else if rs_executor sv = None
      then (Returned (Inl ''turn in progress; filesystem RPC unavailable''), sv)
      else executor_mut (x_filesystem_rpc x op path d) sv)"

definition spawn_turn ::
  "'e guest_executor \<Rightarrow> session_request \<Rightarrow> 'e runtime_service
     \<Rightarrow> (runtime_message + 'e) \<times> 'e runtime_service" where
  "spawn_turn x turn sv =
     (let sid = rq_session_id turn; rid = rq_request_id turn; key = (sid, rid) in
      if rs_shutdown sv then (Inl (RError rid ''runtime has shut down''), sv)
      else (case validate_identity sid rid of Some error \<Rightarrow> (Inl error, sv) | None \<Rightarrow>
      if rs_completed_requests sv key \<noteq> None then (Inl (RError rid ''request already completed''), sv)
      else if key \<in> set (rs_evicted_requests sv) then (Inl (evicted_replay_error rid), sv)
      else if rs_cancelled_sessions sv key \<noteq> None then (Inl (RError rid ''request was cancelled''), sv)
      else if key \<in> set (rs_evicted_cancelled sv) then (Inl (evicted_cancelled_error rid), sv)
      else (case map_of (rs_active_sessions sv) sid of
        Some active \<Rightarrow> (Inl (RError rid (''session already has an active request: '' @ active)), sv)
      | None \<Rightarrow>
        if \<not> rs_protocol_ready sv
        then (Inl (RError rid ''protocol handshake required before control messages''), sv)
        else (case rs_executor sv of
          None \<Rightarrow>
            (Inl (RError rid (''a previous turn is still finishing (its client disconnected); retry ''
               @ ''shortly, or restart the runtime if this message persists'')), sv)
        | Some executor \<Rightarrow>
          (case x_reset_cancel x (executor, rs_flags sv) of (e', h) \<Rightarrow>
            (Inr e', sv\<lparr>rs_executor := None, rs_flags := h, rs_turn_cancel := x_cancel_handle x e',
                        rs_active_sessions := alist_insert sid rid (rs_active_sessions sv)\<rparr>))))))"

definition replay_cached_turn ::
  "session_request \<Rightarrow> 'e runtime_service \<Rightarrow> runtime_message list option \<times> 'e runtime_service" where
  "replay_cached_turn turn sv =
     (let sid = rq_session_id turn; rid = rq_request_id turn; key = (sid, rid) in
      if rs_shutdown sv then (Some [RError rid ''runtime has shut down''], sv)
      else (case validate_identity sid rid of Some error \<Rightarrow> (Some [error], sv) | None \<Rightarrow>
      (case rs_completed_requests sv key of Some previous \<Rightarrow> (Some previous, sv) | None \<Rightarrow>
      if key \<in> set (rs_evicted_requests sv) then (Some [evicted_replay_error rid], sv)
      else if key \<in> set (rs_evicted_cancelled sv) then (Some [evicted_cancelled_error rid], sv)
      else (case rs_cancelled_sessions sv key of
        Some previous \<Rightarrow>
          if previous = [] then (case cancelled_event sid sv of (ms, sv') \<Rightarrow> (Some ms, sv'))
          else (Some previous, sv)
      | None \<Rightarrow> (None, sv)))))"

definition abandon_active_turn :: "'e runtime_service \<Rightarrow> runtime_message list \<times> 'e runtime_service" where
  "abandon_active_turn sv =
     (map (\<lambda>(session_id, request_id). RError request_id
        (''turn worker died without a result (session '' @ session_id @ '')'')) (rs_active_sessions sv),
      sv\<lparr>rs_active_sessions := [], rs_turn_cancel := None\<rparr>)"

definition complete_turn ::
  "string \<Rightarrow> string \<Rightarrow> string + guest_event list \<Rightarrow> 'e \<Rightarrow> 'e runtime_service
     \<Rightarrow> runtime_message list \<times> 'e runtime_service" where
  "complete_turn sid rid result executor sv =
     (let sv1 = sv\<lparr>rs_executor := Some executor, rs_turn_cancel := None\<rparr>;
          key = (sid, rid);
          cancelled = (rs_cancelled_sessions sv1 key \<noteq> None);
          (responses, sv2) =
            (case result of
               Inr events \<Rightarrow> number_events sid events sv1
             | Inl message \<Rightarrow>
                 if message = ''request cancelled'' \<or> cancelled then cancelled_event sid sv1
                 else ([RError rid message], sv1));
          finished = list_ex response_completes_turn responses;
          failed = list_ex is_error_message responses;
          sv3 = (if finished \<or> failed
                 then sv2\<lparr>rs_active_sessions := alist_remove sid (rs_active_sessions sv2)\<rparr> else sv2);
          sv4 = (if cancelled then record_cancelled key responses sv3
                 else if \<not> failed \<and> finished then record_completed key responses sv3
                 else sv3)
      in (responses, sv4))"

section \<open>Construction\<close>

definition with_executor :: "runtime_limits \<Rightarrow> 'e \<Rightarrow> flag_heap \<Rightarrow> 'e runtime_service" where
  "with_executor limits e h =
     \<lparr>rs_sequence = 0, rs_protocol_ready = False, rs_completed_requests = Map.empty,
      rs_completed_order = [], rs_evicted_requests = [], rs_active_sessions = [],
      rs_cancelled_sessions = Map.empty, rs_cancelled_order = [], rs_evicted_cancelled = [],
      rs_shutdown = False, rs_limits = limits, rs_executor = Some e, rs_turn_cancel = None,
      rs_flags = h\<rparr>"

datatype runtime_backend = Forkd | Unsupported string

definition to_ascii_lowercase :: "string \<Rightarrow> string" where
  "to_ascii_lowercase s =
     map (\<lambda>c. let n = (of_char c :: nat) in if 65 \<le> n \<and> n \<le> 90 then char_of (n + 32) else c) s"

definition parse_runtime_backend :: "string option \<Rightarrow> runtime_backend" where
  "parse_runtime_backend v =
     (let t = (case map_option trim v of Some s \<Rightarrow> if s = [] then None else Some s | None \<Rightarrow> None)
      in case map_option to_ascii_lowercase t of
           None \<Rightarrow> Forkd
         | Some b \<Rightarrow> if b = ''forkd'' then Forkd else Unsupported b)"

text \<open>
  \<^verbatim>\<open>from_environment_with_limits\<close>: the executor is the workspace executor built by \<open>new_workspace\<close>
  (\<^verbatim>\<open>WorkspaceGuestExecutor::new\<close>, left summand) or the unavailable one (right summand).
\<close>

definition from_environment_with_limits ::
  "bool \<Rightarrow> environment \<Rightarrow> (string \<Rightarrow> runtime_limits \<Rightarrow> string + 'w) \<Rightarrow> runtime_limits \<Rightarrow> flag_heap
     \<Rightarrow> ('w + string) runtime_service" where
  "from_environment_with_limits debug env new_workspace limits h =
     (if env ''RFB_RUNTIME_EXECUTOR'' = Some ''workspace''
      then (case new_workspace (workspace_root (config_from_environment debug env)) limits of
              Inr executor \<Rightarrow> with_executor limits (Inl executor) h
            | Inl message \<Rightarrow>
                with_executor limits (Inr (''workspace executor init failed: '' @ message)) h)
      else (let reason = (case parse_runtime_backend (env ''RFB_RUNTIME_BACKEND'') of
                Forkd \<Rightarrow> ''forkd owns Firecracker lifecycle; rfb-runtime is guest-only and must not ''
                          @ ''start a local backend''
              | Unsupported backend \<Rightarrow> ''unsupported backend: '' @ backend @ ''; use forkd'')
            in with_executor limits (Inr (''runtime backend unavailable: '' @ reason)) h))"

section \<open>The replay caches against their specification\<close>

text \<open>
  The specification of a replay cache is a log of the keys recorded so far: the store holds the
  last \<open>limit\<close> of them, the tombstones are the \<open>limit\<close> before those.
\<close>

definition lastn :: "nat \<Rightarrow> 'a list \<Rightarrow> 'a list" where
  "lastn n xs = drop (length xs - n) xs"

fun cache_inv :: "nat \<Rightarrow> replay_store \<times> turn_key list \<times> turn_key list \<Rightarrow> bool" where
  "cache_inv limit (store, order, tombs) \<longleftrightarrow>
     dom store = set order \<and> distinct order \<and> length order \<le> limit \<and> length tombs \<le> limit"

fun cache_log :: "nat \<Rightarrow> turn_key list \<Rightarrow> replay_store \<times> turn_key list \<times> turn_key list \<Rightarrow> bool" where
  "cache_log limit L (store, order, tombs) \<longleftrightarrow>
     cache_inv limit (store, order, tombs) \<and> order = lastn limit L
     \<and> tombs = lastn limit (take (length L - limit) L)"

lemma length_lastn [simp]: "length (lastn n xs) = min n (length xs)"
  by (simp add: lastn_def)

lemma trim_front_eq: "trim_front n q = lastn n q"
proof (induction n q rule: trim_front.induct)
  case (1 n q)
  show ?case
  proof (cases "length q > n")
    case True
    then obtain x xs where "q = x # xs" "n \<le> length xs" by (cases q) auto
    with 1 show ?thesis
      by (subst trim_front.simps) (simp add: lastn_def Suc_diff_le)
  qed (simp add: trim_front.simps lastn_def)
qed

lemma lastn_snoc: "0 < n \<Longrightarrow> lastn n (xs @ [x]) = (if length xs < n then xs @ [x] else tl (lastn n xs) @ [x])"
  by (auto simp: lastn_def Suc_diff_le drop_Suc tl_drop)

lemma lastn_lastn_snoc: "lastn n (lastn n xs @ [x]) = lastn n (xs @ [x])"
  by (cases "length xs \<le> n") (simp_all add: lastn_def Suc_diff_le)

lemma record_entry_cases:
  assumes "cache_inv limit (store, order, tombs)" "0 < limit"
  shows "record_entry limit k v (store, order, tombs) =
    (if store k \<noteq> None then (store(k \<mapsto> v), order, tombs)
     else if length order < limit then (store(k \<mapsto> v), order @ [k], tombs)
     else ((store(k \<mapsto> v))(hd order := None), tl order @ [k], lastn limit (tombs @ [hd order])))"
  using assms
  by (cases order)
    (auto simp: record_entry_def evict_loop.simps [of limit "store(k \<mapsto> v)"] trim_front_eq
      evict_loop.simps Let_def)

lemma record_entry_inv:
  assumes inv: "cache_inv limit (store, order, tombs)" and pos: "0 < limit"
  shows "cache_inv limit (record_entry limit k v (store, order, tombs))"
proof (cases "store k = None \<and> limit \<le> length order")
  case True
  then obtain x xs where x: "order = x # xs" using pos by (cases order) auto
  then have "dom ((store(k \<mapsto> v))(x := None)) = set (xs @ [k])" "k \<notin> set order"
    using inv True by auto
  with True inv pos x show ?thesis
    unfolding record_entry_cases [OF inv pos] by simp
next
  case False
  then show ?thesis using inv unfolding record_entry_cases [OF inv pos] by auto
qed

lemma record_entry_hit:
  assumes inv: "cache_inv limit (store, order, tombs)" and pos: "0 < limit"
  shows "fst (record_entry limit k v (store, order, tombs)) k = Some v"
proof -
  have "hd order \<noteq> k" if "store k = None" "\<not> length order < limit"
  proof -
    have "hd order \<in> dom store" using that(2) inv pos hd_in_set [of order] by (cases order) auto
    with that(1) show ?thesis by auto
  qed
  then show ?thesis by (auto simp: record_entry_cases [OF inv pos])
qed

lemma record_entry_fresh:
  assumes inv: "cache_inv limit (store, order, tombs)" and pos: "0 < limit"
    and fresh: "k' \<noteq> k" "store k' = None" "k' \<notin> set tombs"
  shows "fst (record_entry limit k v (store, order, tombs)) k' = None
    \<and> k' \<notin> set (snd (snd (record_entry limit k v (store, order, tombs))))"
proof -
  have "set (lastn limit (tombs @ [hd order])) \<subseteq> set (tombs @ [hd order])"
    unfolding lastn_def by (rule set_drop_subset)
  moreover have "order \<noteq> [] \<longrightarrow> hd order \<noteq> k'"
    using inv fresh(2) hd_in_set [of order] unfolding cache_inv.simps by (metis domIff)
  ultimately show ?thesis
    using fresh pos unfolding record_entry_cases [OF inv pos] by (cases order) auto
qed

lemma record_entry_log:
  assumes log: "cache_log limit L (store, order, tombs)" and pos: "0 < limit"
  shows "cache_log limit (if store k = None then L @ [k] else L)
           (record_entry limit k v (store, order, tombs))"
proof -
  have inv: "cache_inv limit (store, order, tombs)" and o: "order = lastn limit L"
    and t: "tombs = lastn limit (take (length L - limit) L)" using log by auto
  note inv' = record_entry_inv [OF inv pos, of k v]
  show ?thesis
  proof (cases "store k = None")
    case False
    then show ?thesis using inv' o t unfolding record_entry_cases [OF inv pos] by auto
  next
    case fresh: True
    show ?thesis
    proof (cases "length order < limit")
      case True
      then have "length L < limit" by (simp add: o)
      then have "order = L" "lastn limit (L @ [k]) = L @ [k]" "tombs = []"
        by (simp_all add: o t lastn_def)
      with fresh True inv' \<open>length L < limit\<close> show ?thesis
        unfolding record_entry_cases [OF inv pos] by (simp add: lastn_def)
    next
      case False
      then have len: "limit \<le> length L" by (simp add: o)
      then have "hd order = L ! (length L - limit)"
        using pos by (simp add: o lastn_def hd_drop_conv_nth)
      then have "lastn limit (tombs @ [hd order]) = lastn limit (take (Suc (length L) - limit) L)"
        using len pos by (simp add: t lastn_lastn_snoc take_Suc_conv_app_nth [symmetric] Suc_diff_le)
      moreover have "tl order @ [k] = lastn limit (L @ [k])"
        using len pos by (simp add: o lastn_snoc)
      ultimately show ?thesis
        using fresh False inv' len pos unfolding record_entry_cases [OF inv pos] by simp
    qed
  qed
qed

text \<open>
  What the service promises its clients about either cache: the entry just recorded is found, the
  bounds are kept, and the cache goes on representing the log of recorded keys.
\<close>

locale replay_cache =
  fixes store :: "'s \<Rightarrow> replay_store"
    and order tombs :: "'s \<Rightarrow> turn_key list"
    and rec :: "turn_key \<Rightarrow> runtime_message list \<Rightarrow> 's \<Rightarrow> 's"
    and limit :: nat
  assumes limit_pos: "0 < limit"
    and rec_entry: "(store (rec k v s), order (rec k v s), tombs (rec k v s))
      = record_entry limit k v (store s, order s, tombs s)"
begin

lemma rec_inv:
  "cache_inv limit (store s, order s, tombs s) \<Longrightarrow>
     cache_inv limit (store (rec k v s), order (rec k v s), tombs (rec k v s))"
  unfolding rec_entry by (rule record_entry_inv [OF _ limit_pos])

lemma rec_hit:
  "cache_inv limit (store s, order s, tombs s) \<Longrightarrow> store (rec k v s) k = Some v"
  using record_entry_hit [OF _ limit_pos, of "store s" "order s" "tombs s" k v] rec_entry [of k v s]
  by (metis fst_conv)

lemma rec_fresh:
  assumes "cache_inv limit (store s, order s, tombs s)" "k' \<noteq> k" "store s k' = None" "k' \<notin> set (tombs s)"
  shows "store (rec k v s) k' = None \<and> k' \<notin> set (tombs (rec k v s))"
  using record_entry_fresh [OF assms(1) limit_pos assms(2-4), of v] rec_entry [of k v s]
  by (metis fst_conv snd_conv)

lemma rec_log:
  "cache_log limit L (store s, order s, tombs s) \<Longrightarrow>
     cache_log limit (if store s k = None then L @ [k] else L)
       (store (rec k v s), order (rec k v s), tombs (rec k v s))"
  unfolding rec_entry by (rule record_entry_log [OF _ limit_pos])

lemma log_known:
  assumes "cache_log limit L (store s, order s, tombs s)" "k \<in> set (lastn (2 * limit) L)"
  shows "store s k \<noteq> None \<or> k \<in> set (tombs s)"
proof -
  have dom: "dom (store s) = set (lastn limit L)"
    and tombs: "tombs s = lastn limit (take (length L - limit) L)"
    using assms(1) by auto
  have "lastn (2 * limit) L = tombs s @ lastn limit L"
  proof -
    have "take (length L - limit) L @ lastn limit L = L" by (simp add: lastn_def)
    then have "drop (length L - 2 * limit) L
        = drop (length L - 2 * limit) (take (length L - limit) L) @ lastn limit L"
      by (metis (no_types, lifting) append_Nil2 append_eq_conv_conj append_take_drop_id diff_le_mono2
          drop_append drop_take le_add2 lastn_def mult_2 take_drop diff_is_0_eq drop_0 length_take
          min.absorb2 diff_le_self)
    then show ?thesis by (simp add: lastn_def tombs mult_2)
  qed
  with assms(2) dom show ?thesis by auto
qed

end

interpretation completed_cache: replay_cache rs_completed_requests rs_completed_order
  rs_evicted_requests record_completed COMPLETED_LIMIT
  by unfold_locales (simp_all add: record_completed_def COMPLETED_LIMIT_def split: prod.split)

interpretation cancelled_cache: replay_cache rs_cancelled_sessions rs_cancelled_order
  rs_evicted_cancelled record_cancelled CANCELLED_LIMIT
  by unfold_locales (simp_all add: record_cancelled_def CANCELLED_LIMIT_def split: prod.split)

section \<open>What the operations leave alone\<close>

lemma record_completed_fields [simp]:
  "rs_sequence (record_completed k v sv) = rs_sequence sv"
  "rs_protocol_ready (record_completed k v sv) = rs_protocol_ready sv"
  "rs_active_sessions (record_completed k v sv) = rs_active_sessions sv"
  "rs_cancelled_sessions (record_completed k v sv) = rs_cancelled_sessions sv"
  "rs_cancelled_order (record_completed k v sv) = rs_cancelled_order sv"
  "rs_evicted_cancelled (record_completed k v sv) = rs_evicted_cancelled sv"
  "rs_shutdown (record_completed k v sv) = rs_shutdown sv"
  "rs_executor (record_completed k v sv) = rs_executor sv"
  "rs_turn_cancel (record_completed k v sv) = rs_turn_cancel sv"
  "rs_flags (record_completed k v sv) = rs_flags sv"
  by (simp_all add: record_completed_def split: prod.split)

lemma record_cancelled_fields [simp]:
  "rs_sequence (record_cancelled k v sv) = rs_sequence sv"
  "rs_protocol_ready (record_cancelled k v sv) = rs_protocol_ready sv"
  "rs_active_sessions (record_cancelled k v sv) = rs_active_sessions sv"
  "rs_completed_requests (record_cancelled k v sv) = rs_completed_requests sv"
  "rs_completed_order (record_cancelled k v sv) = rs_completed_order sv"
  "rs_evicted_requests (record_cancelled k v sv) = rs_evicted_requests sv"
  "rs_shutdown (record_cancelled k v sv) = rs_shutdown sv"
  "rs_executor (record_cancelled k v sv) = rs_executor sv"
  "rs_turn_cancel (record_cancelled k v sv) = rs_turn_cancel sv"
  "rs_flags (record_cancelled k v sv) = rs_flags sv"
  by (simp_all add: record_cancelled_def split: prod.split)

fun advance :: "nat \<Rightarrow> u64 \<Rightarrow> u64" where
  "advance 0 s = s"
| "advance (Suc n) s = advance n (u64_saturating_add s 1)"

lemma cancelled_event_eq:
  "cancelled_event sid sv =
     ([REvent \<lparr>ev_session_id = sid, ev_sequence = u64_saturating_add (rs_sequence sv) 1,
               ev_kind = ''turn.cancelled'', ev_payload = []\<rparr>],
      sv\<lparr>rs_sequence := u64_saturating_add (rs_sequence sv) 1\<rparr>)"
  by (simp add: cancelled_event_def next_sequence_def Let_def)

lemma number_events_state:
  "snd (number_events sid es sv) = sv\<lparr>rs_sequence := advance (length es) (rs_sequence sv)\<rparr>"
  by (induction sid es sv rule: number_events.induct)
    (auto simp: next_sequence_def Let_def split: prod.splits)

lemma number_events_messages:
  "fst (number_events sid es sv) =
     map (\<lambda>(i, e). REvent \<lparr>ev_session_id = sid, ev_sequence = advance (Suc i) (rs_sequence sv),
                         ev_kind = ge_kind e, ev_payload = ge_payload e\<rparr>)
       (zip [0..<length es] es)"
proof (induction sid es sv rule: number_events.induct)
  case (2 sid e es sv)
  let ?sv = "sv\<lparr>rs_sequence := u64_saturating_add (rs_sequence sv) 1\<rparr>"
  have "zip [0..<Suc (length es)] (e # es) = (0, e) # map (apfst Suc) (zip [0..<length es] es)"
    by (simp add: upt_rec [of 0] map_Suc_upt [symmetric] zip_map1 apfst_def map_prod_def del: upt_Suc)
  moreover have "fst (number_events sid es ?sv) =
     map (\<lambda>(i, e). REvent \<lparr>ev_session_id = sid, ev_sequence = advance (Suc i) (rs_sequence ?sv),
                         ev_kind = ge_kind e, ev_payload = ge_payload e\<rparr>)
       (zip [0..<length es] es)"
    using 2 [of "u64_saturating_add (rs_sequence sv) 1" ?sv] by (simp add: next_sequence_def Let_def)
  ultimately show ?case
    by (auto simp: next_sequence_def Let_def apfst_def
        split: prod.splits)
qed simp

lemma number_events_eq:
  "number_events sid es sv =
     (fst (number_events sid es sv), sv\<lparr>rs_sequence := advance (length es) (rs_sequence sv)\<rparr>)"
  by (metis number_events_state prod.collapse)

section \<open>The service invariant\<close>

definition service_inv :: "'e runtime_service \<Rightarrow> bool" where
  "service_inv sv \<longleftrightarrow>
     cache_inv COMPLETED_LIMIT (rs_completed_requests sv, rs_completed_order sv, rs_evicted_requests sv)
     \<and> cache_inv CANCELLED_LIMIT (rs_cancelled_sessions sv, rs_cancelled_order sv, rs_evicted_cancelled sv)
     \<and> distinct (map fst (rs_active_sessions sv))
     \<and> list_all (\<lambda>(s, r). \<not> blank s \<and> \<not> blank r) (rs_active_sessions sv)
     \<and> (rs_executor sv = None \<longrightarrow> rs_protocol_ready sv)"

named_theorems inv_intros "updates that keep the service invariant"

lemma service_inv_ignored [simp]:
  "service_inv (sv\<lparr>rs_sequence := a\<rparr>) = service_inv sv"
  "service_inv (sv\<lparr>rs_flags := b\<rparr>) = service_inv sv"
  "service_inv (sv\<lparr>rs_turn_cancel := c\<rparr>) = service_inv sv"
  "service_inv (sv\<lparr>rs_shutdown := d\<rparr>) = service_inv sv"
  by (simp_all add: service_inv_def)

lemma service_inv_updates [inv_intros]:
  "service_inv sv \<Longrightarrow> service_inv (sv\<lparr>rs_executor := Some e\<rparr>)"
  "service_inv sv \<Longrightarrow> service_inv (sv\<lparr>rs_protocol_ready := True\<rparr>)"
  "service_inv sv \<Longrightarrow> service_inv (sv\<lparr>rs_active_sessions := []\<rparr>)"
  "service_inv sv \<Longrightarrow> rs_protocol_ready sv \<Longrightarrow> service_inv (sv\<lparr>rs_executor := None\<rparr>)"
  "service_inv sv \<Longrightarrow> service_inv (sv\<lparr>rs_active_sessions := alist_remove k (rs_active_sessions sv)\<rparr>)"
  by (auto simp: service_inv_def alist_remove_def list_all_iff distinct_map_filter)

lemma service_inv_activate [inv_intros]:
  assumes "service_inv sv" "validate_identity s r = None"
  shows "service_inv (sv\<lparr>rs_active_sessions := alist_insert s r (rs_active_sessions sv)\<rparr>)"
  using assms by (auto simp: service_inv_def validate_identity_def alist_insert_def alist_remove_def
      list_all_iff distinct_map_filter split: if_splits)

lemma service_inv_record [inv_intros]:
  "service_inv sv \<Longrightarrow> service_inv (record_completed k v sv)"
  "service_inv sv \<Longrightarrow> service_inv (record_cancelled k v sv)"
  using completed_cache.rec_inv [of sv k v] cancelled_cache.rec_inv [of sv k v]
  by (simp_all add: service_inv_def)

lemma service_inv_store_flag [simp]: "service_inv (store_flag a sv) = service_inv sv"
  by (simp add: store_flag_def split: option.split)

lemma service_inv_executor_mut:
  "executor_mut f sv = (r, sv') \<Longrightarrow> service_inv sv \<Longrightarrow> service_inv sv'"
  by (auto simp: executor_mut_def intro!: inv_intros split: option.splits prod.splits)

lemma executor_mut_Some:
  "rs_executor sv = Some e \<Longrightarrow> executor_mut f sv =
     (Returned (fst (f (e, rs_flags sv))),
      sv\<lparr>rs_executor := Some (fst (snd (f (e, rs_flags sv)))), rs_flags := snd (snd (f (e, rs_flags sv)))\<rparr>)"
  by (simp add: executor_mut_def split: prod.splits)

text \<open>The state a turn ends in, common to \<^verbatim>\<open>handle_start\<close> and \<^verbatim>\<open>complete_turn\<close>.\<close>

definition settle :: "string \<Rightarrow> runtime_message list \<Rightarrow> 'e runtime_service \<Rightarrow> 'e runtime_service" where
  "settle sid responses sv =
     (if list_ex response_completes_turn responses \<or> list_ex is_error_message responses
      then sv\<lparr>rs_active_sessions := alist_remove sid (rs_active_sessions sv)\<rparr> else sv)"

definition succeeded :: "runtime_message list \<Rightarrow> bool" where
  "succeeded responses \<longleftrightarrow>
     \<not> list_ex is_error_message responses \<and> list_ex response_completes_turn responses"

definition turn_responses ::
  "string \<Rightarrow> string \<Rightarrow> bool \<Rightarrow> string + guest_event list \<Rightarrow> 'e runtime_service
     \<Rightarrow> runtime_message list \<times> 'e runtime_service" where
  "turn_responses sid rid cancelled result sv =
     (case result of
        Inr events \<Rightarrow> number_events sid events sv
      | Inl message \<Rightarrow> if cancelled then cancelled_event sid sv else ([RError rid message], sv))"

lemma complete_turn_eq:
  "complete_turn sid rid result e sv =
     (let cancelled = (rs_cancelled_sessions sv (sid, rid) \<noteq> None);
          (ms, sv2) = turn_responses sid rid (cancelled \<or> result = Inl ''request cancelled'') result
                        (sv\<lparr>rs_executor := Some e, rs_turn_cancel := None\<rparr>);
          sv3 = settle sid ms sv2
      in (ms, if cancelled then record_cancelled (sid, rid) ms sv3
              else if succeeded ms then record_completed (sid, rid) ms sv3 else sv3))"
  by (cases result)
    (auto simp: complete_turn_def turn_responses_def settle_def succeeded_def Let_def
      split: prod.splits)

lemma turn_responses_state:
  "\<exists>q. snd (turn_responses sid rid c result sv) = sv\<lparr>rs_sequence := q\<rparr>"
  by (cases result) (auto simp: turn_responses_def cancelled_event_eq number_events_state,
      (metis runtime_service.surjective runtime_service.update_convs(1))+)

lemma settle_fields [simp]:
  "rs_completed_requests (settle sid ms sv) = rs_completed_requests sv"
  "rs_completed_order (settle sid ms sv) = rs_completed_order sv"
  "rs_evicted_requests (settle sid ms sv) = rs_evicted_requests sv"
  "rs_cancelled_sessions (settle sid ms sv) = rs_cancelled_sessions sv"
  "rs_cancelled_order (settle sid ms sv) = rs_cancelled_order sv"
  "rs_evicted_cancelled (settle sid ms sv) = rs_evicted_cancelled sv"
  "rs_executor (settle sid ms sv) = rs_executor sv" "rs_flags (settle sid ms sv) = rs_flags sv"
  "rs_sequence (settle sid ms sv) = rs_sequence sv" "rs_shutdown (settle sid ms sv) = rs_shutdown sv"
  "rs_turn_cancel (settle sid ms sv) = rs_turn_cancel sv"
  "rs_protocol_ready (settle sid ms sv) = rs_protocol_ready sv"
  by (simp_all add: settle_def)

lemma service_inv_settle [inv_intros]: "service_inv sv \<Longrightarrow> service_inv (settle sid ms sv)"
  by (auto simp: settle_def intro: inv_intros)

lemma service_inv_turn_responses:
  "service_inv sv \<Longrightarrow> service_inv (snd (turn_responses sid rid c result sv))"
  using turn_responses_state [of sid rid c result sv] by auto

text \<open>A fresh turn run in line, once all the guards of \<^verbatim>\<open>handle_start\<close> have passed.\<close>

definition start_fresh ::
  "'e guest_executor \<Rightarrow> session_request \<Rightarrow> 'e \<Rightarrow> 'e runtime_service \<Rightarrow> runtime_message list \<times> 'e runtime_service" where
  "start_fresh x request e sv =
     (let sid = rq_session_id request; rid = rq_request_id request;
          (result, e', h) = x_start_turn x request (x_reset_cancel x (e, rs_flags sv));
          (ms, sv3) = turn_responses sid rid False result
             (sv\<lparr>rs_active_sessions := alist_insert sid rid (rs_active_sessions sv),
                 rs_executor := Some e', rs_flags := h\<rparr>);
          sv4 = settle sid ms sv3
      in (ms, if succeeded ms then record_completed (sid, rid) ms sv4 else sv4))"

definition fresh_turn :: "session_request \<Rightarrow> 'e runtime_service \<Rightarrow> bool" where
  "fresh_turn turn sv \<longleftrightarrow>
     (let key = (rq_session_id turn, rq_request_id turn) in
        validate_identity (fst key) (snd key) = None
        \<and> rs_completed_requests sv key = None \<and> key \<notin> set (rs_evicted_requests sv)
        \<and> rs_cancelled_sessions sv key = None \<and> key \<notin> set (rs_evicted_cancelled sv)
        \<and> map_of (rs_active_sessions sv) (fst key) = None)"

lemma handle_start_fresh:
  assumes "fresh_turn request sv" "rs_executor sv = Some e"
  shows "handle_start x request sv = returned (start_fresh x request e sv)"
  using assms
  by (auto simp: handle_start_def fresh_turn_def start_fresh_def executor_mut_Some Let_def
      returned_def turn_responses_def settle_def succeeded_def split: prod.splits sum.splits)

lemma handle_start_not_fresh:
  assumes "\<not> fresh_turn request sv"
  shows "\<exists>ms q. handle_start x request sv = (Returned ms, sv\<lparr>rs_sequence := q\<rparr>)"
proof -
  have same: "\<exists>q. sv = sv\<lparr>rs_sequence := q\<rparr>" by (metis runtime_service.surjective runtime_service.update_convs(1))
  show ?thesis
    using assms same
    by (auto simp: handle_start_def fresh_turn_def Let_def cancelled_event_eq
        split: option.split)
qed

section \<open>Runs of the service\<close>

text \<open>Every way the connections call into the service, as one operation on its state.\<close>

datatype 'e svc_op =
    OpHandle control_message
  | OpFilesystem byte string bytes
  | OpSpawn session_request
  | OpReplay session_request
  | OpCancelActive string string
  | OpAbandon
  | OpComplete string string "string + guest_event list" 'e

fun svc_apply :: "'e guest_executor \<Rightarrow> 'e svc_op \<Rightarrow> 'e runtime_service \<Rightarrow> 'e runtime_service" where
  "svc_apply x (OpHandle m) sv = snd (handle x m sv)"
| "svc_apply x (OpFilesystem op path d) sv = snd (filesystem_rpc x op path d sv)"
| "svc_apply x (OpSpawn turn) sv = snd (spawn_turn x turn sv)"
| "svc_apply x (OpReplay turn) sv = snd (replay_cached_turn turn sv)"
| "svc_apply x (OpCancelActive sid rid) sv = snd (cancel_active sid rid sv)"
| "svc_apply x OpAbandon sv = snd (abandon_active_turn sv)"
| "svc_apply x (OpComplete sid rid result e) sv = snd (complete_turn sid rid result e sv)"

text \<open>
  How one operation may change a replay cache: not at all, by recording its own key, or by the
  clearing that comes with shutdown.
\<close>

abbreviation completed_of where
  "completed_of sv \<equiv> (rs_completed_requests sv, rs_completed_order sv, rs_evicted_requests sv)"

abbreviation cancelled_of where
  "cancelled_of sv \<equiv> (rs_cancelled_sessions sv, rs_cancelled_order sv, rs_evicted_cancelled sv)"

fun completes_key :: "'e svc_op \<Rightarrow> turn_key option" where
  "completes_key (OpHandle (CStartTurn t)) = Some (rq_session_id t, rq_request_id t)"
| "completes_key (OpComplete sid rid result e) = Some (sid, rid)"
| "completes_key _ = None"

fun cancels_key :: "'e svc_op \<Rightarrow> turn_key option" where
  "cancels_key (OpHandle (CCancel sid rid)) = Some (sid, rid)"
| "cancels_key (OpCancelActive sid rid) = Some (sid, rid)"
| "cancels_key (OpComplete sid rid result e) = Some (sid, rid)"
| "cancels_key _ = None"

definition completed_step :: "turn_key option \<Rightarrow> 'e runtime_service \<Rightarrow> 'e runtime_service \<Rightarrow> bool" where
  "completed_step key sv sv' \<longleftrightarrow>
     completed_of sv' = completed_of sv
     \<or> (\<exists>k v. key = Some k \<and> completed_of sv' = record_entry COMPLETED_LIMIT k v (completed_of sv))
     \<or> rs_shutdown sv'"

definition cancelled_step :: "turn_key option \<Rightarrow> 'e runtime_service \<Rightarrow> 'e runtime_service \<Rightarrow> bool" where
  "cancelled_step key sv sv' \<longleftrightarrow>
     cancelled_of sv' = cancelled_of sv
     \<or> (\<exists>k v. key = Some k \<and> cancelled_of sv' = record_entry CANCELLED_LIMIT k v (cancelled_of sv))
     \<or> rs_shutdown sv'"

definition good_step :: "'e svc_op \<Rightarrow> 'e runtime_service \<Rightarrow> 'e runtime_service \<Rightarrow> bool" where
  "good_step op sv sv' \<longleftrightarrow>
     (service_inv sv \<longrightarrow> service_inv sv')
     \<and> completed_step (completes_key op) sv sv' \<and> cancelled_step (cancels_key op) sv sv'
     \<and> (rs_shutdown sv \<longrightarrow> rs_shutdown sv')"

lemma good_step_same_caches:
  assumes "service_inv sv \<Longrightarrow> service_inv sv'" "completed_of sv' = completed_of sv"
    "cancelled_of sv' = cancelled_of sv" "rs_shutdown sv \<Longrightarrow> rs_shutdown sv'"
  shows "good_step op sv sv'"
  using assms by (auto simp: good_step_def completed_step_def cancelled_step_def)

lemma good_step_refl [simp]: "good_step op sv sv"
  by (rule good_step_same_caches) auto

lemma good_step_sequence [simp]: "good_step op sv (sv\<lparr>rs_sequence := q\<rparr>)"
  by (rule good_step_same_caches) auto

lemma good_step_executor_mut [simp]: "good_step op sv (snd (executor_mut f sv))"
proof (rule good_step_same_caches)
  show "service_inv sv \<Longrightarrow> service_inv (snd (executor_mut f sv))"
    using service_inv_executor_mut [of f sv] by (metis prod.collapse)
qed (auto simp: executor_mut_def split: option.splits prod.splits)

lemma good_step_record:
  assumes "service_inv sv \<Longrightarrow> service_inv sv3" "completed_of sv3 = completed_of sv"
    "cancelled_of sv3 = cancelled_of sv" "rs_shutdown sv3 = rs_shutdown sv"
  shows "completes_key op = Some k \<Longrightarrow> good_step op sv (record_completed k v sv3)"
    "cancels_key op = Some k \<Longrightarrow> good_step op sv (record_cancelled k v sv3)"
  using assms completed_cache.rec_entry [of k v sv3] cancelled_cache.rec_entry [of k v sv3]
  by (auto simp: good_step_def completed_step_def cancelled_step_def intro: service_inv_record)

lemma good_step_complete_turn:
  "good_step (OpComplete sid rid result e) sv (snd (complete_turn sid rid result e sv))"
proof -
  let ?c = "rs_cancelled_sessions sv (sid, rid) \<noteq> None \<or> result = Inl ''request cancelled''"
  let ?sv1 = "sv\<lparr>rs_executor := Some e, rs_turn_cancel := None\<rparr>"
  obtain ms sv2 where r: "turn_responses sid rid ?c result ?sv1 = (ms, sv2)" by fastforce
  obtain q where sv2: "sv2 = ?sv1\<lparr>rs_sequence := q\<rparr>"
    using turn_responses_state [of sid rid ?c result ?sv1] r by auto
  have inv: "service_inv (settle sid ms sv2)" if "service_inv sv"
    unfolding sv2 using that by (auto intro!: inv_intros)
  have same: "completed_of (settle sid ms sv2) = completed_of sv"
    "cancelled_of (settle sid ms sv2) = cancelled_of sv" "rs_shutdown (settle sid ms sv2) = rs_shutdown sv"
    by (simp_all add: sv2)
  have "snd (complete_turn sid rid result e sv) =
      (if rs_cancelled_sessions sv (sid, rid) \<noteq> None then record_cancelled (sid, rid) ms (settle sid ms sv2)
       else if succeeded ms then record_completed (sid, rid) ms (settle sid ms sv2)
       else settle sid ms sv2)"
    unfolding complete_turn_eq Let_def r by simp
  then show ?thesis
    using good_step_record [OF inv same] good_step_same_caches [OF inv same(1,2)] same(3) by simp
qed

lemma good_step_start_fresh:
  assumes "fresh_turn request sv"
  shows "good_step (OpHandle (CStartTurn request)) sv (snd (start_fresh x request e sv))"
proof -
  let ?sid = "rq_session_id request" and ?rid = "rq_request_id request"
  obtain result e' h where t: "x_start_turn x request (x_reset_cancel x (e, rs_flags sv)) = (result, e', h)"
    by (metis prod_cases3)
  let ?sv1 = "sv\<lparr>rs_active_sessions := alist_insert ?sid ?rid (rs_active_sessions sv),
                 rs_executor := Some e', rs_flags := h\<rparr>"
  obtain ms sv2 where r: "turn_responses ?sid ?rid False result ?sv1 = (ms, sv2)" by fastforce
  obtain q where sv2: "sv2 = ?sv1\<lparr>rs_sequence := q\<rparr>"
    using turn_responses_state [of ?sid ?rid False result ?sv1] r by auto
  have id: "validate_identity ?sid ?rid = None"
    using assms by (simp add: fresh_turn_def Let_def)
  have inv: "service_inv (settle ?sid ms sv2)" if "service_inv sv"
  proof -
    have "service_inv ((sv\<lparr>rs_active_sessions := alist_insert ?sid ?rid (rs_active_sessions sv)\<rparr>)
        \<lparr>rs_executor := Some e'\<rparr>)"
      using that id by (intro inv_intros)
    then show ?thesis unfolding sv2 by (intro inv_intros) simp
  qed
  have same: "completed_of (settle ?sid ms sv2) = completed_of sv"
    "cancelled_of (settle ?sid ms sv2) = cancelled_of sv"
    "rs_shutdown (settle ?sid ms sv2) = rs_shutdown sv"
    by (simp_all add: sv2)
  have "snd (start_fresh x request e sv) =
      (if succeeded ms then record_completed (?sid, ?rid) ms (settle ?sid ms sv2)
       else settle ?sid ms sv2)"
    unfolding start_fresh_def Let_def t by (simp add: r)
  then show ?thesis
    using good_step_record(1) [OF inv same] good_step_same_caches [OF inv same(1,2)] same(3) by simp
qed

lemma good_step_handle_start:
  assumes "rs_executor sv = Some e"
  shows "good_step (OpHandle (CStartTurn request)) sv (snd (handle_start x request sv))"
proof (cases "fresh_turn request sv")
  case True
  then show ?thesis
    using handle_start_fresh [OF True assms] good_step_start_fresh [OF True] by (simp add: returned_def)
next
  case False
  from handle_start_not_fresh [OF this, of x] show ?thesis by auto
qed

lemma store_flag_fields [simp]:
  "rs_completed_requests (store_flag a sv) = rs_completed_requests sv"
  "rs_completed_order (store_flag a sv) = rs_completed_order sv"
  "rs_evicted_requests (store_flag a sv) = rs_evicted_requests sv"
  "rs_cancelled_sessions (store_flag a sv) = rs_cancelled_sessions sv"
  "rs_cancelled_order (store_flag a sv) = rs_cancelled_order sv"
  "rs_evicted_cancelled (store_flag a sv) = rs_evicted_cancelled sv"
  "rs_executor (store_flag a sv) = rs_executor sv" "rs_sequence (store_flag a sv) = rs_sequence sv"
  "rs_shutdown (store_flag a sv) = rs_shutdown sv"
  "rs_turn_cancel (store_flag a sv) = rs_turn_cancel sv"
  "rs_active_sessions (store_flag a sv) = rs_active_sessions sv"
  "rs_protocol_ready (store_flag a sv) = rs_protocol_ready sv"
  by (simp_all add: store_flag_def split: option.split)

lemma good_step_cancel_active:
  assumes "cancels_key op = Some (sid, rid)"
  shows "good_step op sv (snd (cancel_active sid rid sv))"
proof -
  have "good_step op sv (record_cancelled (sid, rid) [] (store_flag (rs_turn_cancel sv) sv))"
    using assms by (intro good_step_record(2)) simp_all
  then show ?thesis by (simp add: cancel_active_def Let_def split: option.split)
qed

lemma good_step_handle_cancel:
  assumes "rs_executor sv = Some e"
  shows "good_step (OpHandle (CCancel sid rid)) sv (snd (handle_cancel x sid rid sv))"
proof -
  obtain r e' h where t: "x_cancel x sid rid (e, rs_flags sv) = (r, e', h)" by (metis prod_cases3)
  let ?sv1 = "sv\<lparr>rs_executor := Some e', rs_flags := h\<rparr>"
  have m: "executor_mut (x_cancel x sid rid) sv = (Returned r, ?sv1)"
    using executor_mut_Some [OF assms, of "x_cancel x sid rid"] t by simp
  have "good_step (OpHandle (CCancel sid rid)) sv ?sv1"
    using good_step_executor_mut [of _ sv "x_cancel x sid rid"] m by simp
  moreover have "good_step (OpHandle (CCancel sid rid)) sv
    (record_cancelled (sid, rid) ms
      (?sv1\<lparr>rs_active_sessions := alist_remove sid (rs_active_sessions sv), rs_sequence := q\<rparr>))" for ms q
  proof (rule good_step_record(2))
    assume "service_inv sv"
    then have "service_inv (?sv1\<lparr>rs_active_sessions := alist_remove sid (rs_active_sessions ?sv1)\<rparr>)"
      by (intro inv_intros) (auto intro!: inv_intros)
    then show "service_inv
        (?sv1\<lparr>rs_active_sessions := alist_remove sid (rs_active_sessions sv), rs_sequence := q\<rparr>)" by simp
  qed simp_all
  ultimately show ?thesis
    by (simp add: handle_cancel_def Let_def m cancelled_event_eq split: option.split sum.split)
qed

lemma good_step_shutdown: "good_step op sv (snd (handle_shutdown x sv))"
  by (cases "rs_executor sv")
    (auto simp: good_step_def completed_step_def cancelled_step_def handle_shutdown_def Let_def
      service_inv_def split: prod.splits)

lemma good_step_hello: "good_step op sv (snd (hello_reply v sv))"
  by (auto simp: hello_reply_def intro!: good_step_same_caches inv_intros)

lemma good_step_in_flight: "good_step (OpHandle m) sv (snd (handle_turn_in_flight m sv))"
  by (cases m)
    (auto simp: handle_turn_in_flight_def good_step_hello good_step_cancel_active
      intro!: good_step_same_caches)

lemma good_step_handle: "good_step (OpHandle m) sv (snd (handle x m sv))"
proof (cases "rs_executor sv")
  case None
  then show ?thesis using good_step_in_flight [of m sv] by (simp add: handle_def returned_def)
next
  case (Some e)
  have mut: "good_step (OpHandle m) sv sv'" if "executor_mut f sv = (r, sv')"
    for f :: "'a \<times> flag_heap \<Rightarrow> 'b \<times> 'a \<times> flag_heap" and r sv'
    using good_step_executor_mut [of "OpHandle m" sv f] that by simp
  show ?thesis
  proof (cases "rs_shutdown sv \<and> m \<noteq> CShutdown")
    case False
    show ?thesis
    proof (cases m)
      case (CReadWorkspaceFile r)
      then show ?thesis using False Some mut [where f = "x_read_workspace_file x r"]
        by (auto simp: handle_def returned_def split: outcome.split sum.split prod.split)
    next
      case (CWriteWorkspaceFile r)
      then show ?thesis using False Some mut [where f = "x_write_workspace_file x r"]
        by (auto simp: handle_def returned_def split: outcome.split sum.split prod.split)
    qed (use False Some in \<open>simp_all add: handle_def returned_def good_step_hello
        good_step_handle_start good_step_handle_cancel good_step_shutdown\<close>)
  qed (simp add: handle_def)
qed

lemma spawn_turn_cases:
  "spawn_turn x turn sv =
     (if rs_shutdown sv \<or> \<not> fresh_turn turn sv \<or> \<not> rs_protocol_ready sv \<or> rs_executor sv = None
      then (Inl (projl (fst (spawn_turn x turn sv))), sv)
      else (let (e', h) = x_reset_cancel x (the (rs_executor sv), rs_flags sv) in
        (Inr e', sv\<lparr>rs_executor := None, rs_flags := h, rs_turn_cancel := x_cancel_handle x e',
                    rs_active_sessions := alist_insert (rq_session_id turn) (rq_request_id turn)
                      (rs_active_sessions sv)\<rparr>)))"
  by (auto simp: spawn_turn_def fresh_turn_def Let_def split: option.split prod.split)

lemma good_step_spawn: "good_step (OpSpawn turn) sv (snd (spawn_turn x turn sv))"
proof (cases "rs_shutdown sv \<or> \<not> fresh_turn turn sv \<or> \<not> rs_protocol_ready sv \<or> rs_executor sv = None")
  case True
  then show ?thesis by (subst spawn_turn_cases) simp
next
  case False
  let ?a = "alist_insert (rq_session_id turn) (rq_request_id turn) (rs_active_sessions sv)"
  obtain e' h where r: "x_reset_cancel x (the (rs_executor sv), rs_flags sv) = (e', h)" by fastforce
  have "service_inv (sv\<lparr>rs_executor := None, rs_flags := h, rs_turn_cancel := t, rs_active_sessions := ?a\<rparr>)"
    if inv: "service_inv sv" for t
  proof -
    have "validate_identity (rq_session_id turn) (rq_request_id turn) = None"
      using False by (simp add: fresh_turn_def Let_def)
    with inv have "service_inv ((sv\<lparr>rs_active_sessions := ?a\<rparr>)\<lparr>rs_executor := None\<rparr>)"
      using False by (intro inv_intros) simp_all
    then show ?thesis by (simp add: service_inv_def)
  qed
  then have "good_step (OpSpawn turn) sv
      (sv\<lparr>rs_executor := None, rs_flags := h, rs_turn_cancel := t, rs_active_sessions := ?a\<rparr>)" for t
    by (intro good_step_same_caches) simp_all
  then show ?thesis using False by (subst spawn_turn_cases) (simp add: r)
qed

lemma replay_state: "\<exists>q. snd (replay_cached_turn turn sv) = sv\<lparr>rs_sequence := q\<rparr>"
proof -
  have same: "\<exists>q. sv = sv\<lparr>rs_sequence := q\<rparr>"
    by (metis runtime_service.surjective runtime_service.update_convs(1))
  then show ?thesis
    by (auto simp: replay_cached_turn_def Let_def cancelled_event_eq split: option.split)
qed

lemma svc_apply_good: "good_step op sv (svc_apply x op sv)"
proof (cases op)
  case (OpReplay turn)
  then show ?thesis using replay_state [of turn sv] by auto
next
  case OpAbandon
  then show ?thesis
    by (auto simp: abandon_active_turn_def intro!: good_step_same_caches inv_intros)
next
  case (OpFilesystem o' path d)
  then show ?thesis by (simp add: filesystem_rpc_def)
qed (simp_all add: good_step_handle good_step_spawn good_step_cancel_active good_step_complete_turn)

text \<open>
  A run starts from \<^verbatim>\<open>with_executor\<close> and applies operations; it carries the logs of the keys
  newly stored as completed and as cancelled.
\<close>

definition newly :: "replay_store \<Rightarrow> replay_store \<Rightarrow> turn_key option \<Rightarrow> turn_key list" where
  "newly old new key =
     (case key of Some k \<Rightarrow> if old k = None \<and> new k \<noteq> None then [k] else [] | None \<Rightarrow> [])"

inductive svc_run :: "'e guest_executor \<Rightarrow> 'e runtime_service \<Rightarrow> turn_key list \<Rightarrow> turn_key list \<Rightarrow> bool"
  for x :: "'e guest_executor" where
  start: "svc_run x (with_executor limits e h) [] []"
| op: "svc_run x sv C X \<Longrightarrow> sv' = svc_apply x oper sv \<Longrightarrow>
       svc_run x sv'
         (C @ newly (rs_completed_requests sv) (rs_completed_requests sv') (completes_key oper))
         (X @ newly (rs_cancelled_sessions sv) (rs_cancelled_sessions sv') (cancels_key oper))"

lemma service_inv_with_executor [simp]: "service_inv (with_executor limits e h)"
  by (simp add: service_inv_def with_executor_def)

lemma svc_run_inv: "svc_run x sv C X \<Longrightarrow> service_inv sv"
  by (induction rule: svc_run.induct)
    (auto simp: svc_apply_good [unfolded good_step_def])

lemma cache_log_newly:
  assumes log: "cache_log limit L c" and pos: "0 < limit"
    and "c' = c \<or> (\<exists>k v. key = Some k \<and> c' = record_entry limit k v c)"
  shows "cache_log limit (L @ newly (fst c) (fst c') key) c'"
proof -
  obtain st ord tb where c: "c = (st, ord, tb)" by (cases c)
  have inv: "cache_inv limit (st, ord, tb)" using log unfolding c cache_log.simps by blast
  from assms(3) show ?thesis
  proof
    assume "c' = c"
    moreover have "newly (fst c) (fst c) key = []" by (auto simp: newly_def split: option.split)
    ultimately show ?thesis using log by simp
  next
    assume "\<exists>k v. key = Some k \<and> c' = record_entry limit k v c"
    then obtain k v where k: "key = Some k" "c' = record_entry limit k v c" by blast
    then have "newly (fst c) (fst c') key = (if st k = None then [k] else [])"
      using record_entry_hit [OF inv pos] c by (simp add: newly_def)
    then show ?thesis using record_entry_log [OF _ pos, of L st ord tb k v] log k c by auto
  qed
qed

lemma svc_run_logs:
  "svc_run x sv C X \<Longrightarrow> \<not> rs_shutdown sv \<Longrightarrow>
     cache_log COMPLETED_LIMIT C (completed_of sv) \<and> cache_log CANCELLED_LIMIT X (cancelled_of sv)"
proof (induction rule: svc_run.induct)
  case (start limits e h)
  show ?case by (simp add: with_executor_def lastn_def)
next
  case (op sv C X sv' oper)
  have g: "good_step oper sv sv'" using op.hyps(2) svc_apply_good by simp
  with op.prems have "\<not> rs_shutdown sv" by (auto simp: good_step_def)
  then have "cache_log COMPLETED_LIMIT C (completed_of sv)" "cache_log CANCELLED_LIMIT X (cancelled_of sv)"
    using op.IH by blast+
  moreover have "completed_of sv' = completed_of sv
      \<or> (\<exists>k v. completes_key oper = Some k
            \<and> completed_of sv' = record_entry COMPLETED_LIMIT k v (completed_of sv))"
    "cancelled_of sv' = cancelled_of sv
      \<or> (\<exists>k v. cancels_key oper = Some k
            \<and> cancelled_of sv' = record_entry CANCELLED_LIMIT k v (cancelled_of sv))"
    using g op.prems unfolding good_step_def completed_step_def cancelled_step_def by blast+
  ultimately show ?case
    using cache_log_newly [OF _ completed_cache.limit_pos] cache_log_newly [OF _ cancelled_cache.limit_pos]
    by (metis fst_conv)
qed

section \<open>Lemmas for the properties\<close>

lemma number_events_no_error: "\<not> list_ex is_error_message (fst (number_events sid es sv))"
  by (auto simp: number_events_messages list_ex_iff)

definition terminal_kind :: "string \<Rightarrow> bool" where
  "terminal_kind k \<longleftrightarrow> k \<in> {''turn.completed'', ''turn.failed'', ''turn.cancelled''}"

lemma number_events_finished:
  "list_ex response_completes_turn (fst (number_events sid es sv)) = list_ex (\<lambda>e. terminal_kind (ge_kind e)) es"
proof (induction sid es sv rule: number_events.induct)
  case (2 sid e es sv)
  then show ?case by (auto simp: next_sequence_def Let_def terminal_kind_def split: prod.splits)
qed simp

lemma unat_advance:
  "unat s + n < 2 ^ 64 \<Longrightarrow> unat (advance n s) = unat s + n"
  by (induction n s rule: advance.induct) (simp_all add: unat_u64_saturating_add)

lemma not_fresh_refused:
  assumes "\<not> fresh_turn turn sv"
  shows "\<exists>err. spawn_turn x turn sv = (Inl err, sv)"
    and "rs_executor sv \<noteq> None \<Longrightarrow> \<exists>ms q. handle x (CStartTurn turn) sv = (Returned ms, sv\<lparr>rs_sequence := q\<rparr>)"
proof -
  show "\<exists>err. spawn_turn x turn sv = (Inl err, sv)"
    using assms by (subst spawn_turn_cases) simp
  have same: "\<exists>q. sv = sv\<lparr>rs_sequence := q\<rparr>"
    by (metis runtime_service.surjective runtime_service.update_convs(1))
  show "\<exists>ms q. handle x (CStartTurn turn) sv = (Returned ms, sv\<lparr>rs_sequence := q\<rparr>)"
    if "rs_executor sv \<noteq> None"
    using that same handle_start_not_fresh [OF assms, of x] by (auto simp: handle_def)
qed

lemma known_not_fresh:
  assumes "cache_log COMPLETED_LIMIT C (completed_of sv)" "cache_log CANCELLED_LIMIT X (cancelled_of sv)"
    "(sid, rid) \<in> set (lastn 512 C) \<union> set (lastn 512 X)"
    "rq_session_id turn = sid" "rq_request_id turn = rid"
  shows "\<not> fresh_turn turn sv"
  using completed_cache.log_known [OF assms(1), of "(sid, rid)"]
    cancelled_cache.log_known [OF assms(2), of "(sid, rid)"] assms(3-5)
  by (auto simp: fresh_turn_def Let_def COMPLETED_LIMIT_def CANCELLED_LIMIT_def)

lemma spawn_turn_Inr:
  assumes "spawn_turn x turn sv = (Inr e', sv1)"
  shows "\<exists>h. \<not> rs_shutdown sv \<and> fresh_turn turn sv \<and> rs_protocol_ready sv
     \<and> sv1 = sv\<lparr>rs_executor := None, rs_flags := h, rs_turn_cancel := x_cancel_handle x e',
                 rs_active_sessions := alist_insert (rq_session_id turn) (rq_request_id turn)
                   (rs_active_sessions sv)\<rparr>"
proof (cases "rs_shutdown sv \<or> \<not> fresh_turn turn sv \<or> \<not> rs_protocol_ready sv \<or> rs_executor sv = None")
  case True
  then have "spawn_turn x turn sv = (Inl (projl (fst (spawn_turn x turn sv))), sv)"
    by (subst spawn_turn_cases) simp
  with assms have False by (metis prod.inject sum.distinct(1))
  then show ?thesis ..
next
  case False
  then show ?thesis
    using assms by (subst (asm) spawn_turn_cases) (auto split: prod.splits)
qed

lemma alist_remove_insert_fresh:
  "map_of m k = None \<Longrightarrow> alist_remove k (alist_insert k v m) = m"
  by (induction m) (auto simp: alist_remove_def alist_insert_def split: if_splits)

text \<open>Where the executor is after an operation.\<close>

lemma executor_kept_replay [simp]: "rs_executor (snd (replay_cached_turn turn sv)) = rs_executor sv"
  using replay_state [of turn sv] by auto

lemma executor_kept_abandon [simp]: "rs_executor (snd (abandon_active_turn sv)) = rs_executor sv"
  by (simp add: abandon_active_turn_def)

lemma executor_mut_present: "rs_executor (snd (executor_mut f sv)) = None \<longleftrightarrow> rs_executor sv = None"
  by (auto simp: executor_mut_def split: option.split prod.split)

lemma executor_absent_handle:
  assumes "rs_executor sv = None"
  shows "rs_executor (snd (handle x m sv)) = None"
  using assms
  by (cases m) (auto simp: handle_def handle_turn_in_flight_def returned_def hello_reply_def
      cancel_active_def Let_def split: option.split)

lemma executor_absent_spawn:
  assumes "rs_executor sv = None"
  shows "\<exists>m. spawn_turn x turn sv = (Inl m, sv)"
  using assms by (subst spawn_turn_cases) simp

lemma spawn_takes_executor:
  assumes "spawn_turn x turn sv = (Inr e, sv')"
  shows "rs_executor sv \<noteq> None \<and> rs_executor sv' = None"
  using spawn_turn_Inr [OF assms] assms executor_absent_spawn [of sv x turn] by auto

section \<open>Properties\<close>

text \<open>
  C1. Turns run at most once: in every run of the service, a turn that is among the last 512 to
  have completed or the last 512 to have been cancelled is never given to the executor again.
  Until shutdown, a \<^verbatim>\<open>StartTurn\<close> with its identity is refused by \<^verbatim>\<open>spawn_turn\<close> without any change of
  state, is answered by \<^verbatim>\<open>replay_cached_turn\<close>, and in the serial path leaves executor and flags
  alone. (2 * 256 are the entries and tombstones each cache retains.)
\<close>

theorem turn_runs_at_most_once:
  assumes "svc_run x sv C X" "\<not> rs_shutdown sv"
    "(sid, rid) \<in> set (lastn 512 C) \<union> set (lastn 512 X)"
    "rq_session_id turn = sid" "rq_request_id turn = rid"
  shows "(\<exists>err. spawn_turn x turn sv = (Inl err, sv))
    \<and> fst (replay_cached_turn turn sv) \<noteq> None
    \<and> rs_executor (snd (handle x (CStartTurn turn) sv)) = rs_executor sv
    \<and> rs_flags (snd (handle x (CStartTurn turn) sv)) = rs_flags sv"
proof -
  have logs: "cache_log COMPLETED_LIMIT C (completed_of sv)" "cache_log CANCELLED_LIMIT X (cancelled_of sv)"
    using svc_run_logs [OF assms(1,2)] by blast+
  have stale: "\<not> fresh_turn turn sv" by (rule known_not_fresh [OF logs assms(3-5)])
  have "fst (replay_cached_turn turn sv) \<noteq> None"
    using completed_cache.log_known [OF logs(1), of "(sid, rid)"]
      cancelled_cache.log_known [OF logs(2), of "(sid, rid)"] assms(2-5)
    by (auto simp: replay_cached_turn_def Let_def COMPLETED_LIMIT_def CANCELLED_LIMIT_def
        cancelled_event_eq split: option.split)
  moreover have "rs_executor (snd (handle x (CStartTurn turn) sv)) = rs_executor sv
      \<and> rs_flags (snd (handle x (CStartTurn turn) sv)) = rs_flags sv"
  proof (cases "rs_executor sv = None")
    case True
    then show ?thesis using assms(2) by (simp add: handle_def handle_turn_in_flight_def returned_def)
  next
    case False
    then show ?thesis using not_fresh_refused(2) [OF stale False, of x] by auto
  qed
  ultimately show ?thesis using not_fresh_refused(1) [OF stale, of x] by blast
qed

text \<open>
  C6. The bookkeeping is bounded and consistent in every reachable state: each replay store holds
  exactly the keys of its order queue, without repetition, at most 256 of them, with at most 256
  tombstones; sessions are active at most once and under non-blank identities; and the executor is
  away only after the handshake. Until shutdown the stores are precisely the newest 256 entries of
  the logs and the tombstones the 256 before them.
\<close>

theorem service_bookkeeping:
  assumes "svc_run x sv C X"
  shows "dom (rs_completed_requests sv) = set (rs_completed_order sv) \<and> distinct (rs_completed_order sv)
    \<and> length (rs_completed_order sv) \<le> 256 \<and> length (rs_evicted_requests sv) \<le> 256
    \<and> dom (rs_cancelled_sessions sv) = set (rs_cancelled_order sv) \<and> distinct (rs_cancelled_order sv)
    \<and> length (rs_cancelled_order sv) \<le> 256 \<and> length (rs_evicted_cancelled sv) \<le> 256
    \<and> distinct (map fst (rs_active_sessions sv))
    \<and> (\<forall>(s, r) \<in> set (rs_active_sessions sv). \<not> blank s \<and> \<not> blank r)
    \<and> (rs_executor sv = None \<longrightarrow> rs_protocol_ready sv)
    \<and> (\<not> rs_shutdown sv \<longrightarrow>
         rs_completed_order sv = lastn 256 C
         \<and> rs_evicted_requests sv = lastn 256 (take (length C - 256) C)
         \<and> rs_cancelled_order sv = lastn 256 X
         \<and> rs_evicted_cancelled sv = lastn 256 (take (length X - 256) X))"
proof -
  have "\<not> rs_shutdown sv \<longrightarrow>
         rs_completed_order sv = lastn 256 C
         \<and> rs_evicted_requests sv = lastn 256 (take (length C - 256) C)
         \<and> rs_cancelled_order sv = lastn 256 X
         \<and> rs_evicted_cancelled sv = lastn 256 (take (length X - 256) X)"
    using svc_run_logs [OF assms] unfolding cache_log.simps COMPLETED_LIMIT_def CANCELLED_LIMIT_def
    by blast
  then show ?thesis
    using svc_run_inv [OF assms]
    unfolding service_inv_def cache_inv.simps COMPLETED_LIMIT_def CANCELLED_LIMIT_def list_all_iff
    by blast
qed

text \<open>
  The service never panics: whatever the message and the state, \<^verbatim>\<open>handle\<close> and \<^verbatim>\<open>filesystem_rpc\<close>
  reach for the executor only when it is there.
\<close>

theorem service_never_panics:
  "fst (handle x m sv) \<noteq> Panicked \<and> fst (filesystem_rpc x op path d sv) \<noteq> Panicked"
proof
  have mut: "fst (executor_mut f sv) \<noteq> Panicked" if "rs_executor sv \<noteq> None"
    for f :: "'a \<times> flag_heap \<Rightarrow> 'r \<times> 'a \<times> flag_heap"
    using that executor_mut_Some [of sv _ f] by auto
  show "fst (filesystem_rpc x op path d sv) \<noteq> Panicked"
    using mut [of "x_filesystem_rpc x op path d"] by (simp add: filesystem_rpc_def)
  have start: "fst (handle_start x r sv) \<noteq> Panicked" if "rs_executor sv = Some e" for r e
    using handle_start_fresh [OF _ that, of r x] handle_start_not_fresh [of r sv x]
    by (cases "fresh_turn r sv") (auto simp: returned_def)
  have cancel: "fst (handle_cancel x sid rid sv) \<noteq> Panicked" if "rs_executor sv = Some e" for sid rid e
    using executor_mut_Some [OF that, of "x_cancel x sid rid"]
    by (auto simp: handle_cancel_def Let_def cancelled_event_eq split: option.split sum.split)
  show "fst (handle x m sv) \<noteq> Panicked"
  proof (cases "rs_executor sv")
    case None
    then show ?thesis by (simp add: handle_def returned_def)
  next
    case (Some e)
    have rd: "executor_mut (x_read_workspace_file x r) sv \<noteq> (Panicked, s)"
      "executor_mut (x_write_workspace_file x w) sv \<noteq> (Panicked, s)" for r w s
      by (simp_all add: executor_mut_Some [OF Some])
    show ?thesis
      using Some start cancel rd
      by (cases m) (auto simp: handle_def returned_def split: outcome.split sum.split prod.split)
  qed
qed

text \<open>
  The handshake is a gate: before a \<^verbatim>\<open>Hello\<close> with version 1 was accepted, no message, file
  system request or turn reaches the executor. Every other control message is answered with an
  error and changes nothing, and \<^verbatim>\<open>Hello\<close> itself touches neither executor nor flags.
\<close>

theorem handshake_gate:
  assumes "svc_run x sv C X" "\<not> rs_protocol_ready sv"
  shows "(\<forall>m. rs_executor (snd (handle x m sv)) = rs_executor sv \<and> rs_flags (snd (handle x m sv)) = rs_flags sv)
    \<and> (\<forall>m. (\<forall>v. m \<noteq> CHello v) \<longrightarrow> (\<exists>rid msg. handle x m sv = (Returned [RError rid msg], sv)))
    \<and> (\<forall>turn. \<exists>err. spawn_turn x turn sv = (Inl err, sv))
    \<and> filesystem_rpc x op path d sv
        = (Returned (Inl ''protocol handshake required before filesystem RPC''), sv)"
proof -
  obtain e where e: "rs_executor sv = Some e"
    using svc_run_inv [OF assms(1)] assms(2) by (auto simp: service_inv_def)
  have "\<exists>rid msg. handle x m sv = (Returned [RError rid msg], sv)" if "\<forall>v. m \<noteq> CHello v" for m
    using that assms(2) e by (cases m) (auto simp: handle_def)
  moreover have "rs_executor (snd (handle x m sv)) = rs_executor sv
      \<and> rs_flags (snd (handle x m sv)) = rs_flags sv" for m
  proof (cases m)
    case (CHello v)
    then show ?thesis using e by (auto simp: handle_def hello_reply_def returned_def)
  qed (use assms(2) e in \<open>simp_all add: handle_def\<close>)
  moreover have "\<exists>err. spawn_turn x turn sv = (Inl err, sv)" for turn
    using assms(2) by (subst spawn_turn_cases) simp
  ultimately show ?thesis using assms(2) by (simp add: filesystem_rpc_def)
qed

text \<open>
  Shutdown is final: no operation ever takes it back, and afterwards every control message but
  \<^verbatim>\<open>Shutdown\<close> gets exactly the error \<^verbatim>\<open>runtime has shut down\<close>, no turn can be spawned or replayed,
  and none of this changes the state.
\<close>

theorem shutdown_is_final:
  assumes "rs_shutdown sv"
  shows "rs_shutdown (svc_apply x oper sv)
    \<and> (\<forall>m. m \<noteq> CShutdown \<longrightarrow>
         handle x m sv = (Returned [RError (request_id_of m) ''runtime has shut down''], sv))
    \<and> spawn_turn x turn sv = (Inl (RError (rq_request_id turn) ''runtime has shut down''), sv)
    \<and> replay_cached_turn turn sv = (Some [RError (rq_request_id turn) ''runtime has shut down''], sv)"
  using assms svc_apply_good [of oper sv x]
  by (simp add: good_step_def handle_def spawn_turn_def replay_cached_turn_def)

text \<open>
  C34. A turn that runs to a terminal event gives everything back: after \<^verbatim>\<open>spawn_turn\<close>, a worker that
  delivers events with a terminal among them and was not cancelled, and \<^verbatim>\<open>complete_turn\<close>, the
  executor is home, the active sessions are those from before, the responses are the events in
  order with the kinds and payloads of the executor, a redelivered \<^verbatim>\<open>StartTurn\<close> gets exactly these
  responses again on both paths, and the session accepts a new turn.
\<close>

theorem turn_completes_and_replays:
  assumes run: "svc_run x sv C X" and spawn: "spawn_turn x turn sv = (Inr e1, sv1)"
    and complete: "complete_turn (rq_session_id turn) (rq_request_id turn) (Inr events) e2 sv1 = (ms, sv2)"
    and terminal: "list_ex (\<lambda>e. terminal_kind (ge_kind e)) events"
    and again: "rq_session_id turn' = rq_session_id turn" "rq_request_id turn' \<noteq> rq_request_id turn"
      "fresh_turn turn' sv"
  shows "rs_executor sv2 = Some e2 \<and> rs_active_sessions sv2 = rs_active_sessions sv
    \<and> map (\<lambda>m. case m of REvent e \<Rightarrow> (ev_session_id e, ev_kind e, ev_payload e)) ms
        = map (\<lambda>e. (rq_session_id turn, ge_kind e, ge_payload e)) events
    \<and> replay_cached_turn turn sv2 = (Some ms, sv2)
    \<and> handle x (CStartTurn turn) sv2 = (Returned ms, sv2)
    \<and> (\<exists>e3 sv3. spawn_turn x turn' sv2 = (Inr e3, sv3))"
proof -
  let ?sid = "rq_session_id turn" and ?rid = "rq_request_id turn"
  obtain h where up: "\<not> rs_shutdown sv" "fresh_turn turn sv" "rs_protocol_ready sv"
    and sv1: "sv1 = sv\<lparr>rs_executor := None, rs_flags := h, rs_turn_cancel := x_cancel_handle x e1,
                 rs_active_sessions := alist_insert ?sid ?rid (rs_active_sessions sv)\<rparr>"
    using spawn_turn_Inr [OF spawn] by blast
  have idle: "map_of (rs_active_sessions sv) ?sid = None" "rs_cancelled_sessions sv (?sid, ?rid) = None"
    "rs_completed_requests sv (?sid, ?rid) = None" "validate_identity ?sid ?rid = None"
    using up(2) by (simp_all add: fresh_turn_def Let_def)
  define q where "q = advance (length events) (rs_sequence sv)"
  define sv' where "sv' = sv\<lparr>rs_executor := Some e2, rs_flags := h, rs_turn_cancel := None, rs_sequence := q\<rparr>"
  let ?sv1 = "sv1\<lparr>rs_executor := Some e2, rs_turn_cancel := None\<rparr>"
  define M where "M = fst (number_events ?sid events ?sv1)"
  have num: "number_events ?sid events ?sv1 = (M, ?sv1\<lparr>rs_sequence := q\<rparr>)"
    unfolding M_def using number_events_eq [of ?sid events ?sv1] by (simp add: sv1 q_def)
  have fin: "list_ex response_completes_turn M" "\<not> list_ex is_error_message M"
    using terminal by (simp_all add: M_def number_events_no_error number_events_finished)
  have settled: "settle ?sid M (?sv1\<lparr>rs_sequence := q\<rparr>) = sv'"
    using fin alist_remove_insert_fresh [OF idle(1), of ?rid]
    by (intro runtime_service.equality) (simp_all add: settle_def sv1 sv'_def)
  have "succeeded M" using fin by (simp add: succeeded_def)
  moreover have "rs_cancelled_sessions sv1 (?sid, ?rid) = None" using idle by (simp add: sv1)
  ultimately have "complete_turn ?sid ?rid (Inr events) e2 sv1
      = (M, record_completed (?sid, ?rid) M sv')"
    by (simp add: complete_turn_eq turn_responses_def num settled)
  with complete have ms: "ms = M" and sv2: "sv2 = record_completed (?sid, ?rid) ms sv'" by auto
  have caches: "cache_inv COMPLETED_LIMIT (completed_of sv')"
    using svc_run_inv [OF run] unfolding service_inv_def sv'_def by simp
  then have hit: "rs_completed_requests sv2 (?sid, ?rid) = Some ms"
    unfolding sv2 by (rule completed_cache.rec_hit)
  have "fresh_turn turn' sv2"
    using again completed_cache.rec_fresh [OF caches, of "(?sid, rq_request_id turn')" "(?sid, ?rid)" ms]
    unfolding fresh_turn_def Let_def sv2 by (simp add: sv'_def)
  then have "\<exists>e3 sv3. spawn_turn x turn' sv2 = (Inr e3, sv3)"
    using up by (subst spawn_turn_cases) (simp add: sv2 sv'_def split: prod.split)
  moreover have "map (\<lambda>m. case m of REvent e \<Rightarrow> (ev_session_id e, ev_kind e, ev_payload e)) ms
      = map (\<lambda>e. (?sid, ge_kind e, ge_payload e)) events"
    by (auto simp: ms M_def number_events_messages comp_def case_prod_beta intro: nth_equalityI)
  moreover have "replay_cached_turn turn sv2 = (Some ms, sv2)" "handle x (CStartTurn turn) sv2 = (Returned ms, sv2)"
    using up idle(4) hit
    by (simp_all add: replay_cached_turn_def handle_def handle_start_def Let_def) (simp_all add: sv2 sv'_def)
  ultimately show ?thesis by (simp add: sv2 sv'_def)
qed

text \<open>
  Cancelling an in-flight turn works and is idempotent: after \<^verbatim>\<open>spawn_turn\<close>, \<^verbatim>\<open>cancel_active\<close>
  raises exactly the flag the turn's executor handed out, answers nothing, and a repetition changes
  nothing. Whatever error the worker then reports, the turn ends with one \<^verbatim>\<open>turn.cancelled\<close> event,
  the executor is home, the session is free, and a redelivered \<^verbatim>\<open>StartTurn\<close> or \<^verbatim>\<open>Cancel\<close> gets that
  same event instead of running anything.
\<close>

theorem cancel_in_flight:
  assumes run: "svc_run x sv C X" and spawn: "spawn_turn x turn sv = (Inr e1, sv1)"
    and ids: "sid = rq_session_id turn" "rid = rq_request_id turn"
    and handle: "x_cancel_handle x e1 = Some a"
    and c1: "cancel_active sid rid sv1 = (r1, sv2)"
    and c2: "complete_turn sid rid (Inl message) e2 sv2 = (ms, sv3)"
  shows "r1 = [] \<and> cancel_active sid rid sv2 = ([], sv2) \<and> rs_flags sv2 = (rs_flags sv1)(a := True)
    \<and> (\<exists>q. ms = [REvent \<lparr>ev_session_id = sid, ev_sequence = q, ev_kind = ''turn.cancelled'',
                           ev_payload = []\<rparr>])
    \<and> rs_executor sv3 = Some e2 \<and> rs_active_sessions sv3 = rs_active_sessions sv
    \<and> handle x (CStartTurn turn) sv3 = (Returned ms, sv3)
    \<and> handle x (CCancel sid rid) sv3 = (Returned ms, sv3)"
proof -
  obtain h where up: "\<not> rs_shutdown sv" "fresh_turn turn sv" "rs_protocol_ready sv"
    and sv1: "sv1 = sv\<lparr>rs_executor := None, rs_flags := h, rs_turn_cancel := Some a,
                 rs_active_sessions := alist_insert sid rid (rs_active_sessions sv)\<rparr>"
    using spawn_turn_Inr [OF spawn] ids handle by auto
  have idle: "map_of (rs_active_sessions sv) sid = None" "rs_cancelled_sessions sv (sid, rid) = None"
    "rs_completed_requests sv (sid, rid) = None" "(sid, rid) \<notin> set (rs_evicted_requests sv)"
    "validate_identity sid rid = None"
    using up(2) by (simp_all add: fresh_turn_def Let_def ids)
  define f where "f = sv1\<lparr>rs_flags := h(a := True)\<rparr>"
  have "cancel_active sid rid sv1 = ([], record_cancelled (sid, rid) [] f)"
    using idle by (simp add: cancel_active_def sv1 f_def store_flag_def)
  then have sv2: "sv2 = record_cancelled (sid, rid) [] f" and r1: "r1 = []" using c1 by auto
  have "cache_inv CANCELLED_LIMIT (cancelled_of f)"
    using svc_run_inv [OF run] unfolding service_inv_def f_def sv1 by simp
  then have hit: "rs_cancelled_sessions sv2 (sid, rid) = Some []"
    and inv2: "cache_inv CANCELLED_LIMIT (cancelled_of sv2)"
    unfolding sv2 by (rule cancelled_cache.rec_hit, rule cancelled_cache.rec_inv)
  define q where "q = u64_saturating_add (rs_sequence sv) 1"
  define M where "M = [REvent \<lparr>ev_session_id = sid, ev_sequence = q, ev_kind = ''turn.cancelled'',
                           ev_payload = []\<rparr>]"
  define g where "g = sv2\<lparr>rs_executor := Some e2, rs_turn_cancel := None, rs_sequence := q,
                       rs_active_sessions := rs_active_sessions sv\<rparr>"
  have seq: "rs_sequence sv2 = rs_sequence sv"
    and act: "rs_active_sessions sv2 = alist_insert sid rid (rs_active_sessions sv)"
    by (simp_all add: sv2 f_def sv1)
  have "complete_turn sid rid (Inl message) e2 sv2 = (M, record_cancelled (sid, rid) M g)"
    using hit alist_remove_insert_fresh [OF idle(1), of rid]
    by (simp add: complete_turn_eq turn_responses_def cancelled_event_eq settle_def seq act M_def
        g_def q_def)
  then have ms: "ms = M" and sv3: "sv3 = record_cancelled (sid, rid) M g" using c2 by auto
  have "cache_inv CANCELLED_LIMIT (cancelled_of g)" using inv2 unfolding g_def by simp
  then have hit3: "rs_cancelled_sessions sv3 (sid, rid) = Some M"
    unfolding sv3 by (rule cancelled_cache.rec_hit)
  have "handle x (CStartTurn turn) sv3 = (Returned M, sv3)" "handle x (CCancel sid rid) sv3 = (Returned M, sv3)"
    using hit3 idle up
    by (simp_all add: handle_def handle_start_def handle_cancel_def Let_def ids [symmetric])
      (simp_all add: sv3 g_def sv2 f_def sv1 M_def)
  moreover have "cancel_active sid rid sv2 = ([], sv2)"
    using hit idle by (simp add: cancel_active_def)
  ultimately show ?thesis
    by (simp add: r1 ms sv3 g_def) (simp add: M_def sv2 f_def sv1)
qed

text \<open>
  Sequence numbers are assigned by the service, gap-free and increasing: the events of a
  completed turn carry the numbers following the counter, one each, in order, and the counter
  advances by their number; only at the top of the 64-bit range does it stop.
\<close>

theorem event_sequences_consecutive:
  assumes "complete_turn sid rid (Inr events) e sv = (ms, sv')"
    "unat (rs_sequence sv) + length events < 2 ^ 64"
  shows "map (\<lambda>m. case m of REvent ev \<Rightarrow> unat (ev_sequence ev)) ms
      = [Suc (unat (rs_sequence sv)) ..< Suc (unat (rs_sequence sv) + length events)]
    \<and> unat (rs_sequence sv') = unat (rs_sequence sv) + length events"
proof -
  let ?sv1 = "sv\<lparr>rs_executor := Some e, rs_turn_cancel := None\<rparr>"
  have r: "turn_responses sid rid c (Inr events) ?sv1 = number_events sid events ?sv1" for c
    by (simp add: turn_responses_def)
  obtain M sv2 where n: "number_events sid events ?sv1 = (M, sv2)" by fastforce
  have "fst (complete_turn sid rid (Inr events) e sv) = M"
    "rs_sequence (snd (complete_turn sid rid (Inr events) e sv)) = rs_sequence sv2"
    by (simp_all add: complete_turn_eq r n Let_def)
  then have ms: "ms = fst (number_events sid events ?sv1)"
    and seq: "rs_sequence sv' = rs_sequence (snd (number_events sid events ?sv1))"
    by (simp_all add: assms(1) n)
  have "map (\<lambda>m. case m of REvent ev \<Rightarrow> unat (ev_sequence ev)) ms
      = [Suc (unat (rs_sequence sv)) ..< Suc (unat (rs_sequence sv) + length events)]"
  proof (rule nth_equalityI)
    fix i
    assume "i < length (map (\<lambda>m. case m of REvent ev \<Rightarrow> unat (ev_sequence ev)) ms)"
    then have i: "i < length events" by (simp add: ms number_events_messages)
    then have "unat (advance (Suc i) (rs_sequence sv)) = Suc (unat (rs_sequence sv) + i)"
      using assms(2) unat_advance [of "rs_sequence sv" "Suc i"] by (simp del: advance.simps)
    with i show "map (\<lambda>m. case m of REvent ev \<Rightarrow> unat (ev_sequence ev)) ms ! i
        = [Suc (unat (rs_sequence sv)) ..< Suc (unat (rs_sequence sv) + length events)] ! i"
      by (simp add: ms number_events_messages del: advance.simps upt_Suc)
  qed (simp add: ms number_events_messages del: upt_Suc)
  then show ?thesis
    using assms(2) seq by (simp add: number_events_state unat_advance)
qed

section \<open>Witnesses\<close>

text \<open>An executor that completes every turn at once and hands out flag 0, and a small run of it.\<close>

definition echo_executor :: "unit guest_executor" where
  "echo_executor =
     \<lparr>x_start_turn = (\<lambda>_ s. (Inr [\<lparr>ge_kind = ''turn.completed'', ge_payload = [1]\<rparr>], s)),
      x_cancel = (\<lambda>_ _ s. (Inr (), s)), x_shutdown = (\<lambda>s. (Inr (), s)),
      x_read_workspace_file = (\<lambda>_ s. (Inr [], s)), x_write_workspace_file = (\<lambda>_ s. (Inr (), s)),
      x_filesystem_rpc = (\<lambda>_ _ _ s. (Inr [], s)), x_cancel_handle = (\<lambda>_. Some 0),
      x_reset_cancel = (\<lambda>s. s)\<rparr>"

definition demo_start :: "unit runtime_service" where
  "demo_start = with_executor (limits_default None) () (\<lambda>_. False)"

definition demo_ready :: "unit runtime_service" where
  "demo_ready = demo_start\<lparr>rs_protocol_ready := True\<rparr>"

definition demo_turn :: session_request where
  "demo_turn = \<lparr>rq_session_id = ''s'', rq_request_id = ''r'', rq_prompt = []\<rparr>"

definition demo_next :: session_request where
  "demo_next = \<lparr>rq_session_id = ''s'', rq_request_id = ''t'', rq_prompt = []\<rparr>"

lemma demo_ids [simp]: "\<not> blank ''s''" "\<not> blank ''r''" "\<not> blank ''t''"
  by (rule not_blankI [of "CHR ''s''"], simp, simp add: white_space_def,
      rule not_blankI [of "CHR ''r''"], simp, simp add: white_space_def,
      rule not_blankI [of "CHR ''t''"], simp, simp add: white_space_def)

lemma demo_start_run: "svc_run echo_executor demo_start [] []"
  unfolding demo_start_def by (rule svc_run.start)

lemma demo_ready_run: "svc_run echo_executor demo_ready [] []"
proof -
  have "svc_apply echo_executor (OpHandle (CHello 1)) demo_start = demo_ready"
    by (simp add: handle_def demo_start_def demo_ready_def with_executor_def returned_def hello_reply_def)
  with svc_run.op [OF demo_start_run, of demo_ready "OpHandle (CHello 1)"] show ?thesis
    by (simp add: newly_def)
qed

lemma demo_fresh: "fresh_turn demo_turn demo_ready" "fresh_turn demo_next demo_ready"
  by (simp_all add: fresh_turn_def demo_turn_def demo_next_def demo_ready_def demo_start_def
      with_executor_def validate_identity_def)

lemma demo_spawn:
  "spawn_turn echo_executor demo_turn demo_ready = (Inr (), demo_ready\<lparr>rs_executor := None,
     rs_turn_cancel := Some 0, rs_active_sessions := [(''s'', ''r'')]\<rparr>)"
  by (simp add: spawn_turn_def demo_turn_def demo_ready_def demo_start_def with_executor_def
      validate_identity_def echo_executor_def alist_insert_def alist_remove_def)

lemma demo_done_run:
  "\<exists>sv. svc_run echo_executor sv [(''s'', ''r'')] [] \<and> \<not> rs_shutdown sv"
proof -
  let ?sv = "svc_apply echo_executor (OpHandle (CStartTurn demo_turn)) demo_ready"
  have e: "rs_executor demo_ready = Some ()" "\<not> rs_shutdown demo_ready" "rs_protocol_ready demo_ready"
    by (simp_all add: demo_ready_def demo_start_def with_executor_def)
  have "?sv = snd (start_fresh echo_executor demo_turn () demo_ready)"
    using handle_start_fresh [OF demo_fresh(1) e(1), of echo_executor] e
    by (simp add: handle_def returned_def)
  then have "rs_completed_requests ?sv (''s'', ''r'') \<noteq> None" "\<not> rs_shutdown ?sv"
    by (simp_all add: start_fresh_def echo_executor_def turn_responses_def demo_turn_def next_sequence_def
        settle_def succeeded_def record_completed_def record_entry_def evict_loop.simps COMPLETED_LIMIT_def
        demo_ready_def demo_start_def with_executor_def Let_def)
  moreover have "rs_completed_requests demo_ready = Map.empty"
    by (simp add: demo_ready_def demo_start_def with_executor_def)
  ultimately show ?thesis
    using svc_run.op [OF demo_ready_run refl, of "OpHandle (CStartTurn demo_turn)"]
    by (auto simp: newly_def demo_turn_def)
qed

theorem turn_runs_at_most_once_witness:
  "\<exists>sv err. svc_run echo_executor sv [(''s'', ''r'')] []
     \<and> spawn_turn echo_executor demo_turn sv = (Inl err, sv)"
proof -
  obtain sv where sv: "svc_run echo_executor sv [(''s'', ''r'')] []" "\<not> rs_shutdown sv"
    using demo_done_run by blast
  with turn_runs_at_most_once [OF sv, of "''s''" "''r''" demo_turn] show ?thesis
    by (auto simp: lastn_def demo_turn_def)
qed

theorem service_bookkeeping_witness:
  "length (rs_completed_order demo_ready) \<le> 256 \<and> rs_completed_order demo_ready = lastn 256 []"
  using service_bookkeeping [OF demo_ready_run]
  by (simp add: demo_ready_def demo_start_def with_executor_def)

theorem handshake_gate_witness:
  "\<exists>err. spawn_turn echo_executor demo_turn demo_start = (Inl err, demo_start)"
  using handshake_gate [OF demo_start_run]
  by (simp add: demo_start_def with_executor_def)

theorem shutdown_is_final_witness:
  "rs_shutdown (svc_apply echo_executor (OpSpawn demo_turn) (demo_ready\<lparr>rs_shutdown := True\<rparr>))"
  using shutdown_is_final [of "demo_ready\<lparr>rs_shutdown := True\<rparr>" echo_executor "OpSpawn demo_turn"]
  by simp

theorem turn_completes_and_replays_witness:
  "\<exists>sv1 ms sv2. spawn_turn echo_executor demo_turn demo_ready = (Inr (), sv1)
     \<and> complete_turn ''s'' ''r'' (Inr [\<lparr>ge_kind = ''turn.completed'', ge_payload = [1]\<rparr>]) () sv1 = (ms, sv2)
     \<and> replay_cached_turn demo_turn sv2 = (Some ms, sv2)"
proof -
  let ?es = "[\<lparr>ge_kind = ''turn.completed'', ge_payload = [1]\<rparr>]"
  obtain sv1 where s: "spawn_turn echo_executor demo_turn demo_ready = (Inr (), sv1)"
    using demo_spawn by blast
  obtain ms sv2 where c: "complete_turn (rq_session_id demo_turn) (rq_request_id demo_turn) (Inr ?es) () sv1
      = (ms, sv2)" by fastforce
  have "list_ex (\<lambda>e. terminal_kind (ge_kind e)) ?es" by (simp add: terminal_kind_def)
  from turn_completes_and_replays [OF demo_ready_run s c this _ _ demo_fresh(2)]
  have "replay_cached_turn demo_turn sv2 = (Some ms, sv2)"
    by (simp add: demo_turn_def demo_next_def)
  moreover have "complete_turn ''s'' ''r'' (Inr ?es) () sv1 = (ms, sv2)"
    using c by (simp add: demo_turn_def)
  ultimately show ?thesis using s by blast
qed

theorem cancel_in_flight_witness:
  "\<exists>sv1 sv2 ms sv3. spawn_turn echo_executor demo_turn demo_ready = (Inr (), sv1)
     \<and> cancel_active ''s'' ''r'' sv1 = ([], sv2) \<and> rs_flags sv2 0
     \<and> complete_turn ''s'' ''r'' (Inl ''killed'') () sv2 = (ms, sv3)
     \<and> handle echo_executor (CStartTurn demo_turn) sv3 = (Returned ms, sv3)"
proof -
  obtain sv1 where s: "spawn_turn echo_executor demo_turn demo_ready = (Inr (), sv1)"
    using demo_spawn by blast
  obtain r1 sv2 where c: "cancel_active ''s'' ''r'' sv1 = (r1, sv2)" by fastforce
  obtain ms sv3 where d: "complete_turn ''s'' ''r'' (Inl ''killed'') () sv2 = (ms, sv3)" by fastforce
  have h: "x_cancel_handle echo_executor () = Some 0" by (simp add: echo_executor_def)
  have ids: "''s'' = rq_session_id demo_turn" "''r'' = rq_request_id demo_turn"
    by (simp_all add: demo_turn_def)
  note f = cancel_in_flight [OF demo_ready_run s ids h c d]
  then have "rs_flags sv2 0" by simp
  with f s c d show ?thesis by blast
qed

theorem event_sequences_consecutive_witness:
  "\<exists>ms sv'. complete_turn ''s'' ''r'' (Inr [\<lparr>ge_kind = ''turn.started'', ge_payload = []\<rparr>]) () demo_ready = (ms, sv')
     \<and> unat (rs_sequence sv') = 1"
proof -
  let ?es = "[\<lparr>ge_kind = ''turn.started'', ge_payload = []\<rparr>]"
  obtain ms sv' where c: "complete_turn ''s'' ''r'' (Inr ?es) () demo_ready = (ms, sv')" by fastforce
  have "unat (rs_sequence demo_ready) = 0"
    by (simp add: demo_ready_def demo_start_def with_executor_def)
  with event_sequences_consecutive [OF c] c show ?thesis by auto
qed

end
