(* ===== verification/Guest_Connection.thy ===== *)
theory Guest_Connection
  imports Runtime_Service
begin

text \<open>
  The RFB1 connection server, \<^verbatim>\<open>rfb-runtime/src/guest_connection.rs\<close>: any number of connections
  share one runtime service under a lock; a turn runs on a worker that has taken the executor
  along, and the executor has to come home through \<^verbatim>\<open>complete_turn\<close>, also when the connection that
  started the turn is gone.

  Each critical section under the lock is one step, so all interleavings of connections and
  workers are covered; replaying and claiming a turn are two sections of the source and two steps
  here. The writes of responses are recorded in \<open>cn_written\<close>; a failing transport is the step
  \<open>io_break\<close>, which may happen at any time. A worker runs \<^verbatim>\<open>start_turn\<close> to its end in one step, on the
  flags as they are then.
\<close>

section \<open>State\<close>

definition DETACHED_TURN_WAIT :: nat where
  "DETACHED_TURN_WAIT = 30"

datatype 'e worker =
    Idle
  | Claiming session_request u64
  | Running session_request u64 'e
  | Delivered u64 string string "string + guest_event list" 'e
  | Dead

datatype phase = Serving | Detached1 nat | Detached2 nat | Closed

record 'e conn =
  cn_phase :: phase
  cn_worker :: "'e worker"
  cn_written :: "(u64 \<times> runtime_message) list"

record 'e system =
  sys_service :: "'e runtime_service"
  sys_conns :: "nat \<Rightarrow> 'e conn"

fun worker_active :: "'e worker \<Rightarrow> bool" where
  "worker_active (Running t s e) = True"
| "worker_active (Delivered s sid rid r e) = True"
| "worker_active Dead = True"
| "worker_active _ = False"

fun shutdown_requested :: "control_message \<Rightarrow> bool" where
  "shutdown_requested CShutdown = True"
| "shutdown_requested _ = False"

definition write_all :: "u64 \<Rightarrow> runtime_message list \<Rightarrow> 'e conn \<Rightarrow> 'e conn" where
  "write_all s ms c = c\<lparr>cn_written := cn_written c @ map (Pair s) ms\<rparr>"

text \<open>Leaving the loop: with a turn in flight the detached task takes over.\<close>

definition break_loop :: "'e conn \<Rightarrow> 'e conn" where
  "break_loop c =
     c\<lparr>cn_phase := if worker_active (cn_worker c) then Detached1 0 else Closed\<rparr>"

definition set_conn :: "nat \<Rightarrow> 'e conn \<Rightarrow> 'e runtime_service \<Rightarrow> 'e system \<Rightarrow> 'e system" where
  "set_conn i c sv sys = sys\<lparr>sys_service := sv, sys_conns := (sys_conns sys)(i := c)\<rparr>"

section \<open>Steps\<close>

inductive step :: "'e guest_executor \<Rightarrow> 'e system \<Rightarrow> 'e system \<Rightarrow> bool"
  for x :: "'e guest_executor" where
  replay: "c = sys_conns sys i \<Longrightarrow> cn_phase c = Serving \<Longrightarrow> cn_worker c = Idle \<Longrightarrow>
     replay_cached_turn turn (sys_service sys) = (Some ms, sv) \<Longrightarrow>
     step x sys (set_conn i (write_all s ms c) sv sys)"
| claim: "c = sys_conns sys i \<Longrightarrow> cn_phase c = Serving \<Longrightarrow> cn_worker c = Idle \<Longrightarrow>
     replay_cached_turn turn (sys_service sys) = (None, sv) \<Longrightarrow>
     step x sys (set_conn i (c\<lparr>cn_worker := Claiming turn s\<rparr>) sv sys)"
| spawn: "c = sys_conns sys i \<Longrightarrow> cn_phase c = Serving \<Longrightarrow> cn_worker c = Claiming turn s \<Longrightarrow>
     spawn_turn x turn (sys_service sys) = (Inr e, sv) \<Longrightarrow>
     step x sys (set_conn i (c\<lparr>cn_worker := Running turn s e\<rparr>) sv sys)"
| refuse: "c = sys_conns sys i \<Longrightarrow> cn_phase c = Serving \<Longrightarrow> cn_worker c = Claiming turn s \<Longrightarrow>
     spawn_turn x turn (sys_service sys) = (Inl m, sv) \<Longrightarrow>
     step x sys (set_conn i (write_all s [m] (c\<lparr>cn_worker := Idle\<rparr>)) sv sys)"
| control: "c = sys_conns sys i \<Longrightarrow> cn_phase c = Serving \<Longrightarrow>
     (\<forall>turn t. cn_worker c \<noteq> Claiming turn t) \<Longrightarrow>
     (case request of CStartTurn _ \<Rightarrow> worker_active (cn_worker c) | _ \<Rightarrow> True) \<Longrightarrow>
     handle x request (sys_service sys) = (Returned ms, sv) \<Longrightarrow>
     c' = write_all s ms c \<Longrightarrow>
     step x sys (set_conn i (if shutdown_requested request then break_loop c' else c') sv sys)"
| finish: "c = sys_conns sys i \<Longrightarrow> cn_worker c = Running turn s e \<Longrightarrow>
     x_start_turn x turn (e, rs_flags (sys_service sys)) = (r, e', h) \<Longrightarrow>
     step x sys (set_conn i (c\<lparr>cn_worker := if cn_phase c = Closed then Dead
                   else Delivered s (rq_session_id turn) (rq_request_id turn) r e'\<rparr>)
                 ((sys_service sys)\<lparr>rs_flags := h\<rparr>) sys)"
| panic: "c = sys_conns sys i \<Longrightarrow> cn_worker c = Running turn s e \<Longrightarrow>
     step x sys (set_conn i (c\<lparr>cn_worker := Dead\<rparr>) (sys_service sys) sys)"
| result: "c = sys_conns sys i \<Longrightarrow> cn_phase c = Serving \<Longrightarrow> cn_worker c = Delivered s sid rid r e \<Longrightarrow>
     complete_turn sid rid r e (sys_service sys) = (ms, sv) \<Longrightarrow>
     step x sys (set_conn i (write_all s ms (c\<lparr>cn_worker := Idle\<rparr>)) sv sys)"
| joined: "c = sys_conns sys i \<Longrightarrow> cn_phase c = Serving \<Longrightarrow> cn_worker c = Dead \<Longrightarrow>
     abandon_active_turn (sys_service sys) = (ms, sv) \<Longrightarrow>
     step x sys (set_conn i (write_all 0 ms (c\<lparr>cn_worker := Idle\<rparr>)) sv sys)"
| io_break: "c = sys_conns sys i \<Longrightarrow> cn_phase c = Serving \<Longrightarrow>
     (\<forall>turn t. cn_worker c \<noteq> Claiming turn t) \<Longrightarrow>
     step x sys (set_conn i (break_loop c) (sys_service sys) sys)"
| wait1: "c = sys_conns sys i \<Longrightarrow> cn_phase c = Detached1 t \<Longrightarrow> t + n \<le> DETACHED_TURN_WAIT \<Longrightarrow>
     step x sys (set_conn i (c\<lparr>cn_phase := Detached1 (t + n)\<rparr>) (sys_service sys) sys)"
| deliver1: "c = sys_conns sys i \<Longrightarrow> cn_phase c = Detached1 t \<Longrightarrow> cn_worker c = Delivered s sid rid r e \<Longrightarrow>
     complete_turn sid rid r e (sys_service sys) = (ms, sv) \<Longrightarrow>
     step x sys (set_conn i (c\<lparr>cn_phase := Closed, cn_worker := Idle\<rparr>) sv sys)"
| dropped1: "c = sys_conns sys i \<Longrightarrow> cn_phase c = Detached1 t \<Longrightarrow> cn_worker c = Dead \<Longrightarrow>
     abandon_active_turn (sys_service sys) = (ms, sv) \<Longrightarrow>
     step x sys (set_conn i (c\<lparr>cn_phase := Closed\<rparr>) sv sys)"
| elapsed1: "c = sys_conns sys i \<Longrightarrow> cn_phase c = Detached1 DETACHED_TURN_WAIT \<Longrightarrow>
     abandon_active_turn (sys_service sys) = (ms, sv) \<Longrightarrow>
     step x sys (set_conn i (c\<lparr>cn_phase := Detached2 0\<rparr>) sv sys)"
| wait2: "c = sys_conns sys i \<Longrightarrow> cn_phase c = Detached2 t \<Longrightarrow> t + n \<le> DETACHED_TURN_WAIT + 60 \<Longrightarrow>
     step x sys (set_conn i (c\<lparr>cn_phase := Detached2 (t + n)\<rparr>) (sys_service sys) sys)"
| deliver2: "c = sys_conns sys i \<Longrightarrow> cn_phase c = Detached2 t \<Longrightarrow> cn_worker c = Delivered s sid rid r e \<Longrightarrow>
     complete_turn sid rid r e (sys_service sys) = (ms, sv) \<Longrightarrow>
     step x sys (set_conn i (c\<lparr>cn_phase := Closed, cn_worker := Idle\<rparr>) sv sys)"
| dropped2: "c = sys_conns sys i \<Longrightarrow> cn_phase c = Detached2 t \<Longrightarrow> cn_worker c = Dead \<Longrightarrow>
     step x sys (set_conn i (c\<lparr>cn_phase := Closed\<rparr>) (sys_service sys) sys)"
| elapsed2: "c = sys_conns sys i \<Longrightarrow> cn_phase c = Detached2 (DETACHED_TURN_WAIT + 60) \<Longrightarrow>
     step x sys (set_conn i (c\<lparr>cn_phase := Closed\<rparr>) (sys_service sys) sys)"

definition system_start :: "'e runtime_service \<Rightarrow> 'e system" where
  "system_start sv =
     \<lparr>sys_service = sv, sys_conns = (\<lambda>_. \<lparr>cn_phase = Serving, cn_worker = Idle, cn_written = []\<rparr>)\<rparr>"

section \<open>Where the executor is\<close>

text \<open>A worker holds the executor while it runs, and its undelivered result carries it.\<close>

fun holds :: "'e worker \<Rightarrow> bool" where
  "holds (Running t s e) = True"
| "holds (Delivered s sid rid r e) = True"
| "holds _ = False"

definition owned_once :: "'e system \<Rightarrow> bool" where
  "owned_once sys \<longleftrightarrow>
     (\<forall>i j. holds (cn_worker (sys_conns sys i)) \<and> holds (cn_worker (sys_conns sys j)) \<longrightarrow> i = j)
     \<and> (\<forall>i. holds (cn_worker (sys_conns sys i)) \<longrightarrow> rs_executor (sys_service sys) = None)"

lemma conn_simps [simp]:
  "cn_worker (write_all s ms c) = cn_worker c" "cn_phase (write_all s ms c) = cn_phase c"
  "cn_worker (break_loop c) = cn_worker c"
  "sys_service (set_conn i c sv sys) = sv" "sys_conns (set_conn i c sv sys) = (sys_conns sys)(i := c)"
  by (simp_all add: write_all_def break_loop_def set_conn_def)

lemma owned_once_keep:
  assumes "owned_once sys" "holds (cn_worker c) \<longrightarrow> holds (cn_worker (sys_conns sys i))"
    "rs_executor (sys_service sys) = None \<longrightarrow> rs_executor sv = None"
  shows "owned_once (set_conn i c sv sys)"
  using assms unfolding owned_once_def by (auto split: if_splits)

lemma owned_once_return:
  assumes "owned_once sys" "holds (cn_worker (sys_conns sys i))" "\<not> holds (cn_worker c)"
  shows "owned_once (set_conn i c sv sys)"
  using assms unfolding owned_once_def by (auto split: if_splits)

lemma owned_once_take:
  assumes "owned_once sys" "rs_executor (sys_service sys) \<noteq> None" "rs_executor sv = None"
  shows "owned_once (set_conn i c sv sys)"
  using assms unfolding owned_once_def by (auto split: if_splits)

lemma step_owned_once: "step x sys sys' \<Longrightarrow> owned_once sys \<Longrightarrow> owned_once sys'"
proof (induction rule: step.induct)
  case (replay c sys i turn ms sv s)
  then show ?case
    using executor_kept_replay [of turn "sys_service sys"] by (intro owned_once_keep) auto
next
  case (claim c sys i turn sv s)
  then show ?case
    using executor_kept_replay [of turn "sys_service sys"] by (intro owned_once_keep) auto
next
  case (spawn c sys i turn s e sv)
  then show ?case using spawn_takes_executor [OF spawn(4)] by (intro owned_once_take) auto
next
  case (refuse c sys i turn s m sv)
  then show ?case
    using executor_absent_spawn [of "sys_service sys" x turn] by (intro owned_once_keep) auto
next
  case (control c sys i request ms sv c' s)
  then show ?case
    using executor_absent_handle [of "sys_service sys" x request]
    by (intro owned_once_keep) (auto split: if_splits)
next
  case (joined c sys i ms sv)
  then show ?case
    using executor_kept_abandon [of "sys_service sys"] by (intro owned_once_keep) auto
next
  case (dropped1 c sys i t ms sv)
  then show ?case
    using executor_kept_abandon [of "sys_service sys"] by (intro owned_once_keep) auto
next
  case (elapsed1 c sys i ms sv)
  then show ?case
    using executor_kept_abandon [of "sys_service sys"] by (intro owned_once_keep) auto
qed (rule owned_once_keep owned_once_return; auto)+

lemma reachable_owned_once:
  assumes "(step x)\<^sup>*\<^sup>* (system_start (with_executor limits e h)) sys"
  shows "owned_once sys"
  using assms
proof induction
  case base
  show ?case by (simp add: owned_once_def system_start_def)
qed (rule step_owned_once)

text \<open>The executor is gone: the service has none and nothing still connected carries one.\<close>

definition executor_gone :: "'e system \<Rightarrow> bool" where
  "executor_gone sys \<longleftrightarrow> rs_executor (sys_service sys) = None
     \<and> (\<forall>i. holds (cn_worker (sys_conns sys i)) \<longrightarrow> cn_phase (sys_conns sys i) = Closed)"

lemma executor_gone_keep:
  assumes "executor_gone sys" "holds (cn_worker c) \<longrightarrow> cn_phase c = Closed"
    "rs_executor sv = None"
  shows "executor_gone (set_conn i c sv sys)"
  using assms unfolding executor_gone_def by auto

lemma step_executor_gone: "step x sys sys' \<Longrightarrow> executor_gone sys \<Longrightarrow> executor_gone sys'"
proof (induction rule: step.induct)
  case (replay c sys i turn ms sv s)
  then show ?case
    using executor_kept_replay [of turn "sys_service sys"]
    by (intro executor_gone_keep) (auto simp: executor_gone_def)
next
  case (claim c sys i turn sv s)
  then show ?case
    using executor_kept_replay [of turn "sys_service sys"]
    by (intro executor_gone_keep) (auto simp: executor_gone_def)
next
  case (spawn c sys i turn s e sv)
  then show ?case using spawn_takes_executor [OF spawn(4)] by (auto simp: executor_gone_def)
next
  case (refuse c sys i turn s m sv)
  then show ?case
    using executor_absent_spawn [of "sys_service sys" x turn]
    by (intro executor_gone_keep) (auto simp: executor_gone_def)
next
  case (control c sys i request ms sv c' s)
  then have "\<not> holds (cn_worker c)" by (auto simp: executor_gone_def)
  with control show ?case
    using executor_absent_handle [of "sys_service sys" x request]
    by (intro executor_gone_keep) (auto simp: executor_gone_def)
next
  case (joined c sys i ms sv)
  then show ?case
    using executor_kept_abandon [of "sys_service sys"]
    by (intro executor_gone_keep) (auto simp: executor_gone_def)
next
  case (dropped1 c sys i t ms sv)
  then show ?case
    using executor_kept_abandon [of "sys_service sys"]
    by (intro executor_gone_keep) (auto simp: executor_gone_def)
next
  case (elapsed1 c sys i ms sv)
  then have "\<not> holds (cn_worker c)" by (auto simp: executor_gone_def)
  with elapsed1 show ?case
    using executor_kept_abandon [of "sys_service sys"]
    by (intro executor_gone_keep) (auto simp: executor_gone_def)
qed (auto simp: executor_gone_def break_loop_def split: if_splits)

lemma steps_executor_gone:
  "(step x)\<^sup>*\<^sup>* sys sys' \<Longrightarrow> executor_gone sys \<Longrightarrow> executor_gone sys'"
  by (induction rule: rtranclp_induct) (auto intro: step_executor_gone)

section \<open>Properties\<close>

text \<open>
  C2. Only one turn runs at a time: in every state the connections and workers can reach together,
  at most one worker carries an executor, and while one does the service has none. So two clients
  can never drive the workspace at once, whatever the interleaving, and an executor is never
  duplicated.
\<close>

theorem one_turn_at_a_time:
  assumes "(step x)\<^sup>*\<^sup>* (system_start (with_executor limits e h)) sys"
    "holds (cn_worker (sys_conns sys i))"
  shows "rs_executor (sys_service sys) = None
    \<and> (\<forall>j. j \<noteq> i \<longrightarrow> \<not> holds (cn_worker (sys_conns sys j)))
    \<and> (\<forall>turn. \<exists>m. spawn_turn x turn (sys_service sys) = (Inl m, sys_service sys))"
proof -
  have "owned_once sys" using assms(1) by (rule reachable_owned_once)
  then have "rs_executor (sys_service sys) = None" "\<forall>j. j \<noteq> i \<longrightarrow> \<not> holds (cn_worker (sys_conns sys j))"
    using assms(2) by (auto simp: owned_once_def)
  with executor_absent_spawn show ?thesis by blast
qed

text \<open>
  A disconnect does not strand a turn that finishes in time: from any state in which the worker
  of a connection is running, whether the connection is still served or already detached, the
  worker's end and one delivery step bring the executor back to the service.
\<close>

theorem executor_comes_home:
  assumes "cn_worker (sys_conns sys i) = Running turn s e" "cn_phase (sys_conns sys i) \<noteq> Closed"
  shows "\<exists>sys1 sys2. step x sys sys1 \<and> step x sys1 sys2
    \<and> rs_executor (sys_service sys2) \<noteq> None \<and> cn_worker (sys_conns sys2 i) = Idle"
proof -
  let ?c = "sys_conns sys i"
  obtain r e' h where t: "x_start_turn x turn (e, rs_flags (sys_service sys)) = (r, e', h)"
    by (metis prod_cases3)
  let ?d = "Delivered s (rq_session_id turn) (rq_request_id turn) r e'"
  define sys1 where "sys1 = set_conn i (?c\<lparr>cn_worker := ?d\<rparr>) ((sys_service sys)\<lparr>rs_flags := h\<rparr>) sys"
  have one: "step x sys sys1"
    using step.finish [OF refl assms(1) t] assms(2) by (simp add: sys1_def)
  have c1: "sys_conns sys1 i = ?c\<lparr>cn_worker := ?d\<rparr>" by (simp add: sys1_def)
  obtain ms sv where dn: "complete_turn (rq_session_id turn) (rq_request_id turn) r e' (sys_service sys1) = (ms, sv)"
    by fastforce
  then have home: "rs_executor sv \<noteq> None"
  proof -
    let ?cc = "rs_cancelled_sessions (sys_service sys1) (rq_session_id turn, rq_request_id turn) \<noteq> None
      \<or> r = Inl ''request cancelled''"
    let ?sv = "(sys_service sys1)\<lparr>rs_executor := Some e', rs_turn_cancel := None\<rparr>"
    obtain q where "snd (turn_responses (rq_session_id turn) (rq_request_id turn) ?cc r ?sv) = ?sv\<lparr>rs_sequence := q\<rparr>"
      using turn_responses_state by blast
    then show ?thesis using dn by (auto simp: complete_turn_eq Let_def split: prod.splits if_splits)
  qed
  show ?thesis
  proof (cases "cn_phase ?c")
    case Serving
    then show ?thesis using one home step.result [OF refl, of sys1 i s _ _ r e' ms sv] c1 dn by fastforce
  next
    case (Detached1 t)
    then show ?thesis using one home step.deliver1 [OF refl, of sys1 i t s _ _ r e' ms sv] c1 dn by fastforce
  next
    case (Detached2 t)
    then show ?thesis using one home step.deliver2 [OF refl, of sys1 i t s _ _ r e' ms sv] c1 dn by fastforce
  qed (use assms(2) in simp)
qed

text \<open>
  The second detached wait is shorter than a legal turn: if a connection breaks while its turn is
  running, then 30 and 90 seconds of waiting, with the worker healthy and running all along, end
  with the result channel dropped and the executor gone, although turns may run for 1800 seconds.
  From then on, in every reachable state, no turn is ever accepted again.
\<close>

theorem detached_wait_loses_executor:
  assumes "(step x)\<^sup>*\<^sup>* (system_start (with_executor limits e0 h)) sys"
    "cn_phase (sys_conns sys i) = Serving" "cn_worker (sys_conns sys i) = Running turn s e"
  shows "DETACHED_TURN_WAIT + (DETACHED_TURN_WAIT + 60) < unat (max_runtime_seconds (limits_default meminfo))
    \<and> (\<exists>sys'. (step x)\<^sup>*\<^sup>* sys sys' \<and> cn_worker (sys_conns sys' i) = Running turn s e
         \<and> (\<forall>sys''. (step x)\<^sup>*\<^sup>* sys' sys'' \<longrightarrow>
              rs_executor (sys_service sys'') = None
              \<and> (\<forall>t. \<exists>m. spawn_turn x t (sys_service sys'') = (Inl m, sys_service sys''))))"
proof -
  let ?c = "sys_conns sys i" and ?sv = "sys_service sys"
  obtain ms sv where ab: "abandon_active_turn ?sv = (ms, sv)" by fastforce
  let ?p = "\<lambda>ph. ?c\<lparr>cn_phase := ph\<rparr>"
  let ?s0 = "set_conn i (?p (Detached1 0)) ?sv sys"
  let ?s1 = "set_conn i (?p (Detached1 DETACHED_TURN_WAIT)) ?sv sys"
  let ?s2 = "set_conn i (?p (Detached2 0)) sv sys"
  let ?s3 = "set_conn i (?p (Detached2 (DETACHED_TURN_WAIT + 60))) sv sys"
  let ?s4 = "set_conn i (?p Closed) sv sys"
  have again: "set_conn i c sv2 (set_conn i d sv1 sys) = set_conn i c sv2 sys" for c d sv1 sv2
    by (simp add: set_conn_def)
  have "step x sys ?s0"
    using step.io_break [OF refl assms(2)] assms(3) by (simp add: break_loop_def)
  moreover have "step x ?s0 ?s1"
    using step.wait1 [OF refl, of ?s0 i 0 DETACHED_TURN_WAIT] by (simp add: again)
  moreover have "step x ?s1 ?s2"
    using step.elapsed1 [OF refl, of ?s1 i ms sv] ab by (simp add: again)
  moreover have "step x ?s2 ?s3"
    using step.wait2 [OF refl, of ?s2 i 0 "DETACHED_TURN_WAIT + 60"] by (simp add: again)
  moreover have "step x ?s3 ?s4"
    using step.elapsed2 [OF refl, of ?s3 i] by (simp add: again)
  ultimately have path: "(step x)\<^sup>*\<^sup>* sys ?s4" by (meson converse_rtranclp_into_rtranclp rtranclp.rtrancl_refl)
  have "owned_once sys" using assms(1) by (rule reachable_owned_once)
  moreover have "holds (cn_worker ?c)" using assms(3) by simp
  ultimately have "executor_gone ?s4"
    using executor_kept_abandon [of ?sv] ab unfolding executor_gone_def owned_once_def
    by (metis (no_types, lifting) conn_simps(4,5) fun_upd_apply conn.select_convs(1)
        conn.update_convs(1) conn.surjective snd_conv)
  then have gone: "executor_gone sys''" if "(step x)\<^sup>*\<^sup>* ?s4 sys''" for sys''
    using that by (rule steps_executor_gone [rotated])
  have "\<forall>sys''. (step x)\<^sup>*\<^sup>* ?s4 sys'' \<longrightarrow> rs_executor (sys_service sys'') = None
      \<and> (\<forall>t. \<exists>m. spawn_turn x t (sys_service sys'') = (Inl m, sys_service sys''))"
    using gone executor_absent_spawn unfolding executor_gone_def by blast
  moreover have "cn_worker (sys_conns ?s4 i) = Running turn s e" using assms(3) by simp
  moreover have "DETACHED_TURN_WAIT + (DETACHED_TURN_WAIT + 60) < unat (max_runtime_seconds (limits_default meminfo))"
    by (simp add: DETACHED_TURN_WAIT_def limits_default_def)
  ultimately show ?thesis using path by blast
qed

section \<open>Witnesses\<close>

text \<open>One client says hello and starts a turn.\<close>

lemma demo_system_running:
  "\<exists>sys. (step echo_executor)\<^sup>*\<^sup>* (system_start demo_start) sys
     \<and> cn_phase (sys_conns sys 0) = Serving \<and> cn_worker (sys_conns sys 0) = Running demo_turn 2 ()"
proof -
  let ?start = "system_start demo_start"
  let ?c = "sys_conns ?start 0"
  have h: "handle echo_executor (CHello 1) demo_start = (Returned [RHelloAck 1], demo_ready)"
    by (simp add: handle_def demo_start_def demo_ready_def with_executor_def returned_def hello_reply_def)
  let ?s1 = "set_conn 0 (write_all 1 [RHelloAck 1] ?c) demo_ready ?start"
  have one: "step echo_executor ?start ?s1"
    using step.control [OF refl, of ?start 0 "CHello 1" echo_executor "[RHelloAck 1]" demo_ready _ 1] h
    by (simp add: system_start_def)
  have r: "replay_cached_turn demo_turn demo_ready = (None, demo_ready)"
    by (simp add: replay_cached_turn_def demo_turn_def demo_ready_def demo_start_def with_executor_def
        validate_identity_def)
  let ?c1 = "sys_conns ?s1 0"
  let ?s2 = "set_conn 0 (?c1\<lparr>cn_worker := Claiming demo_turn 2\<rparr>) demo_ready ?s1"
  have two: "step echo_executor ?s1 ?s2"
    using step.claim [OF refl, of ?s1 0 demo_turn demo_ready echo_executor 2] r
    by (simp add: system_start_def)
  obtain sv where sp: "spawn_turn echo_executor demo_turn demo_ready = (Inr (), sv)"
    using demo_spawn by blast
  let ?c2 = "sys_conns ?s2 0"
  let ?s3 = "set_conn 0 (?c2\<lparr>cn_worker := Running demo_turn 2 ()\<rparr>) sv ?s2"
  have three: "step echo_executor ?s2 ?s3"
    using step.spawn [OF refl, of ?s2 0 demo_turn 2 echo_executor "()" sv] sp
    by (simp add: system_start_def)
  from one two three have "(step echo_executor)\<^sup>*\<^sup>* ?start ?s3"
    by (meson converse_rtranclp_into_rtranclp rtranclp.rtrancl_refl)
  moreover have "cn_phase (sys_conns ?s3 0) = Serving" "cn_worker (sys_conns ?s3 0) = Running demo_turn 2 ()"
    by (simp_all add: system_start_def)
  ultimately show ?thesis by blast
qed

theorem one_turn_at_a_time_witness:
  "\<exists>sys. (step echo_executor)\<^sup>*\<^sup>* (system_start demo_start) sys
     \<and> rs_executor (sys_service sys) = None \<and> \<not> holds (cn_worker (sys_conns sys 1))"
proof -
  obtain sys where s: "(step echo_executor)\<^sup>*\<^sup>* (system_start demo_start) sys"
    "cn_worker (sys_conns sys 0) = Running demo_turn 2 ()" using demo_system_running by blast
  then have "holds (cn_worker (sys_conns sys 0))" by simp
  from one_turn_at_a_time [OF s(1) [unfolded demo_start_def] this] s(1) show ?thesis by auto
qed

theorem executor_comes_home_witness:
  "\<exists>sys sys1 sys2. (step echo_executor)\<^sup>*\<^sup>* (system_start demo_start) sys
     \<and> step echo_executor sys sys1 \<and> step echo_executor sys1 sys2
     \<and> rs_executor (sys_service sys2) \<noteq> None"
proof -
  obtain sys where s: "(step echo_executor)\<^sup>*\<^sup>* (system_start demo_start) sys"
    "cn_phase (sys_conns sys 0) = Serving" "cn_worker (sys_conns sys 0) = Running demo_turn 2 ()"
    using demo_system_running by blast
  from executor_comes_home [OF s(3), of echo_executor] s(1,2) show ?thesis by auto
qed

theorem detached_wait_loses_executor_witness:
  "\<exists>sys sys'. (step echo_executor)\<^sup>*\<^sup>* (system_start demo_start) sys \<and> (step echo_executor)\<^sup>*\<^sup>* sys sys'
     \<and> cn_worker (sys_conns sys' 0) = Running demo_turn 2 () \<and> rs_executor (sys_service sys') = None"
proof -
  obtain sys where s: "(step echo_executor)\<^sup>*\<^sup>* (system_start demo_start) sys"
    "cn_phase (sys_conns sys 0) = Serving" "cn_worker (sys_conns sys 0) = Running demo_turn 2 ()"
    using demo_system_running by blast
  from detached_wait_loses_executor [OF s(1) [unfolded demo_start_def] s(2,3)] s(1) show ?thesis
    by blast
qed

end
