(* ===== verification/Contract.thy ===== *)
theory Contract
  imports Rfb_Prelude
begin

text \<open>
  The provider-independent contract of the SDK: \<^verbatim>\<open>rfb/src/core.rs\<close> (specifications, manifests,
  resources and the fail-closed guards of sandbox creation), \<^verbatim>\<open>rfb/src/guest/\<close> (the guest requests,
  their limits and validation, and the operations facade), and the client-side twin of the
  validators, \<^verbatim>\<open>rfb/src/client/validation.rs\<close>.

  A \<^verbatim>\<open>Duration\<close> is its number of nanoseconds. The operations of a sandbox are one function from
  requests to results, the dispatch of the trait.
\<close>

section \<open>Errors and kinds\<close>

datatype backend_kind = InMemory | Process | VirtualMachine | CustomBackend

datatype transport_kind = InProcess | Tcp | UnixSocket | Vsock | CustomTransport

datatype capability = CapExecute | CapSnapshot | CapHealth | CapStream | CapLs | CapFind | CapGrep
  | CapReadFile | CapWriteFile | CapEval | CapCancel

definition all_guest :: "capability list" where
  "all_guest = [CapHealth, CapStream, CapLs, CapFind, CapGrep, CapReadFile, CapWriteFile, CapEval,
     CapCancel]"

datatype manifest_error = EmptyImageRef | EmptyTransport | EmptyProtocol | EmptyArch | InvalidDigest
  | InvalidResources string

datatype contract_error = EmptyCommand | InvalidTimeout | InvalidCwd | InvalidResource string
  | InvalidManifest manifest_error | InvalidPath string | InvalidPattern | LimitExceeded | EmptyCode
  | InvalidEnv | InvalidId

datatype provider_error = InvalidSpec contract_error | UnsupportedCapability capability
  | UnsupportedResource string | Unavailable string

datatype sandbox_error = SInvalidSpec contract_error | SUnsupportedCapability capability
  | SExecution string | STransport string | SNotReady | STimeout

section \<open>Specifications\<close>

record resources =
  cpus :: "u32 option"
  memory_bytes :: "u64 option"
  disk_bytes :: "u64 option"
  pids :: "u32 option"

definition resources_default :: resources where
  "resources_default = \<lparr>cpus = None, memory_bytes = None, disk_bytes = None, pids = None\<rparr>"

definition resources_validate :: "resources \<Rightarrow> contract_error + unit" where
  "resources_validate r =
     (if cpus r = Some 0 \<or> memory_bytes r = Some 0 \<or> disk_bytes r = Some 0 \<or> pids r = Some 0
      then Inl (InvalidResource ''resource limits must be non-zero'') else Inr ())"

record image_manifest =
  image_ref :: string
  image_digest :: "string option"
  image_transport :: string
  image_entrypoint :: "string list"
  image_protocol :: string
  image_arch :: string
  image_resources :: resources

definition image_manifest_new :: "string \<Rightarrow> image_manifest" where
  "image_manifest_new r =
     \<lparr>image_ref = r, image_digest = None, image_transport = ''oci'', image_entrypoint = [],
      image_protocol = ''rfb'', image_arch = ''unknown'', image_resources = resources_default\<rparr>"

definition is_ascii_hexdigit :: "char \<Rightarrow> bool" where
  "is_ascii_hexdigit c \<longleftrightarrow>
     (let n = (of_char c :: nat) in (48 \<le> n \<and> n \<le> 57) \<or> (65 \<le> n \<and> n \<le> 70) \<or> (97 \<le> n \<and> n \<le> 102))"

definition is_sha256_digest :: "string \<Rightarrow> bool" where
  "is_sha256_digest v =
     (let d = (case strip_prefix ''sha256:'' v of Some r \<Rightarrow> r | None \<Rightarrow> v)
      in length d = 64 \<and> list_all is_ascii_hexdigit d)"

definition image_manifest_validate :: "image_manifest \<Rightarrow> manifest_error + unit" where
  "image_manifest_validate m =
     (if blank (image_ref m) then Inl EmptyImageRef
      else if blank (image_transport m) then Inl EmptyTransport
      else if blank (image_protocol m) then Inl EmptyProtocol
      else if blank (image_arch m) then Inl EmptyArch
      else if (case image_digest m of Some d \<Rightarrow> \<not> is_sha256_digest d | None \<Rightarrow> False) then Inl InvalidDigest
      else (case resources_validate (image_resources m) of
              Inr _ \<Rightarrow> Inr ()
            | Inl (InvalidResource x) \<Rightarrow> Inl (InvalidResources x)
            | Inl _ \<Rightarrow> Inl (InvalidResources ''invalid image resources'')))"

record sandbox_spec =
  spec_backend :: "backend_kind option"
  spec_transport :: "transport_kind option"
  spec_resources :: resources
  spec_capabilities :: "capability list"
  spec_image :: "image_manifest option"

definition sandbox_spec_default :: sandbox_spec where
  "sandbox_spec_default = \<lparr>spec_backend = None, spec_transport = None,
     spec_resources = resources_default, spec_capabilities = [], spec_image = None\<rparr>"

definition sandbox_spec_validate :: "sandbox_spec \<Rightarrow> contract_error + unit" where
  "sandbox_spec_validate s =
     res_bind (resources_validate (spec_resources s)) (\<lambda>_.
       case spec_image s of
         None \<Rightarrow> Inr ()
       | Some i \<Rightarrow> (case image_manifest_validate i of Inl e \<Rightarrow> Inl (InvalidManifest e) | Inr _ \<Rightarrow> Inr ()))"

record exec_spec =
  ex_command :: string
  ex_args :: "string list"
  ex_cwd :: "string option"
  ex_stdin :: "bytes option"
  ex_timeout :: "nat option"

definition exec_spec_new :: "string \<Rightarrow> exec_spec" where
  "exec_spec_new c = \<lparr>ex_command = c, ex_args = [], ex_cwd = None, ex_stdin = None, ex_timeout = None\<rparr>"

definition has_dotdot :: "string \<Rightarrow> bool" where
  "has_dotdot p \<longleftrightarrow> ''..'' \<in> set (split_on (CHR ''/'') p)"

definition drive_prefix :: "string \<Rightarrow> bool" where
  "drive_prefix c \<longleftrightarrow> length c \<ge> 2 \<and> c ! 1 = CHR '':''"

definition exec_validate_cwd :: "string \<Rightarrow> contract_error + unit" where
  "exec_validate_cwd c =
     (if c = [] \<or> CHR 0x00 \<in> set c \<or> starts_with c [CHR 0x5C] \<or> CHR 0x5C \<in> set c \<or> drive_prefix c
         \<or> has_dotdot c
      then Inl InvalidCwd else Inr ())"

definition exec_spec_validate :: "exec_spec \<Rightarrow> contract_error + unit" where
  "exec_spec_validate s =
     (if blank (ex_command s) then Inl EmptyCommand
      else if ex_timeout s = Some 0 then Inl InvalidTimeout
      else (case ex_cwd s of Some c \<Rightarrow> exec_validate_cwd c | None \<Rightarrow> Inr ()))"

definition check_create_spec :: "sandbox_spec \<Rightarrow> capability list \<Rightarrow> provider_error + unit" where
  "check_create_spec spec supported =
     (case sandbox_spec_validate spec of
        Inl e \<Rightarrow> Inl (InvalidSpec e)
      | Inr _ \<Rightarrow> (case find (\<lambda>c. c \<notin> set supported) (spec_capabilities spec) of
          Some c \<Rightarrow> Inl (UnsupportedCapability c) | None \<Rightarrow> Inr ()))"

definition u64_div_ceil :: "u64 \<Rightarrow> u64 \<Rightarrow> u64" where
  "u64_div_ceil a b = (if 0 < a mod b then a div b + 1 else a div b)"

definition check_create_resources :: "sandbox_spec \<Rightarrow> bool \<Rightarrow> provider_error + u64 option" where
  "check_create_resources spec memory_mib_supported =
     (let r = spec_resources spec in
      if cpus r \<noteq> None then Inl (UnsupportedResource ''cpus'')
      else if \<not> memory_mib_supported \<and> memory_bytes r \<noteq> None
      then Inl (UnsupportedResource ''memory_bytes'')
      else if disk_bytes r \<noteq> None then Inl (UnsupportedResource ''disk_bytes'')
      else if pids r \<noteq> None then Inl (UnsupportedResource ''pids'')
      else if spec_image spec \<noteq> None then Inl (UnsupportedResource ''image'')
      else Inr (map_option (\<lambda>b. u64_div_ceil b 1048576) (memory_bytes r)))"

section \<open>Guest limits\<close>

definition MAX_GUEST_PATH_BYTES :: nat where "MAX_GUEST_PATH_BYTES = 4096"
definition MAX_GUEST_PATTERN_BYTES :: nat where "MAX_GUEST_PATTERN_BYTES = 1024"
definition MAX_GUEST_RESULTS :: nat where "MAX_GUEST_RESULTS = 1000"
definition MAX_GUEST_RESULT_BYTES :: nat where "MAX_GUEST_RESULT_BYTES = 50 * 1024"
definition MAX_GUEST_CODE_BYTES :: nat where "MAX_GUEST_CODE_BYTES = 1024 * 1024"

definition validate_fs_path :: "string \<Rightarrow> contract_error + unit" where
  "validate_fs_path path =
     (if path = [] \<or> length path > MAX_GUEST_PATH_BYTES \<or> CHR 0x00 \<in> set path
         \<or> (starts_with path ''/'' \<and> path \<noteq> ''/workspace'' \<and> \<not> starts_with path ''/workspace/'')
         \<or> starts_with path [CHR 0x5C] \<or> CHR 0x5C \<in> set path \<or> has_dotdot path
      then Inl (InvalidPath ''must be a non-empty, relative, non-escaping guest path'') else Inr ())"

definition validate_guest_file_path :: "string \<Rightarrow> contract_error + unit" where
  "validate_guest_file_path path =
     (if path = [] \<or> length path > MAX_GUEST_PATH_BYTES \<or> CHR 0x00 \<in> set path
         \<or> starts_with path [CHR 0x5C] \<or> CHR 0x5C \<in> set path \<or> drive_prefix path \<or> has_dotdot path
      then Inl (InvalidPath ''must be a non-empty, non-escaping guest path'') else Inr ())"

definition validate_guest_cwd :: "string \<Rightarrow> contract_error + unit" where
  "validate_guest_cwd cwd = validate_guest_file_path cwd"

definition validate_limit :: "nat \<Rightarrow> nat \<Rightarrow> contract_error + unit" where
  "validate_limit v m = (if v = 0 \<or> v > m then Inl LimitExceeded else Inr ())"

definition validate_payload_size :: "nat \<Rightarrow> nat \<Rightarrow> contract_error + unit" where
  "validate_payload_size v m = (if v > m then Inl LimitExceeded else Inr ())"

definition validate_pattern :: "string \<Rightarrow> contract_error + unit" where
  "validate_pattern pattern =
     (if pattern = [] \<or> CHR 0x00 \<in> set pattern then Inl InvalidPattern
      else if length pattern > MAX_GUEST_PATTERN_BYTES then Inl LimitExceeded else Inr ())"

definition is_id_char :: "char \<Rightarrow> bool" where
  "is_id_char c \<longleftrightarrow>
     (let n = (of_char c :: nat) in (48 \<le> n \<and> n \<le> 57) \<or> (65 \<le> n \<and> n \<le> 90) \<or> (97 \<le> n \<and> n \<le> 122))
     \<or> c = CHR ''-'' \<or> c = CHR ''_''"

definition validate_cancel_id :: "string \<Rightarrow> contract_error + unit" where
  "validate_cancel_id i =
     (if i = [] \<or> length i > 128 \<or> \<not> list_all is_id_char i then Inl InvalidId else Inr ())"

section \<open>Guest requests\<close>

record ls_request =
  ls_path :: string
  ls_max_results :: nat

record find_request =
  find_path :: string
  find_pattern :: string
  find_max_results :: nat

record grep_request =
  grep_path :: string
  grep_pattern :: string
  grep_max_results :: nat
  grep_max_bytes :: nat

record read_request =
  read_path :: string
  read_offset :: "u64 option"
  read_max_bytes :: "nat option"

record write_request =
  write_path :: string
  write_data :: bytes
  write_append :: bool
  write_mode :: "u32 option"

record eval_request =
  eval_cwd :: "string option"
  eval_code :: string
  eval_timeout :: "nat option"

record cancel_request =
  cancel_id :: "string option"

record stream_spec =
  st_command :: string
  st_args :: "string list"
  st_cwd :: "string option"
  st_pty :: "bool option"
  st_env :: "(string \<times> string) list"
  st_timeout :: "nat option"

definition ls_validate :: "ls_request \<Rightarrow> contract_error + unit" where
  "ls_validate r =
     res_bind (validate_fs_path (ls_path r)) (\<lambda>_. validate_limit (ls_max_results r) MAX_GUEST_RESULTS)"

definition find_validate :: "find_request \<Rightarrow> contract_error + unit" where
  "find_validate r =
     res_bind (validate_fs_path (find_path r)) (\<lambda>_.
     res_bind (validate_pattern (find_pattern r)) (\<lambda>_.
     validate_limit (find_max_results r) MAX_GUEST_RESULTS))"

definition grep_validate :: "grep_request \<Rightarrow> contract_error + unit" where
  "grep_validate r =
     res_bind (validate_fs_path (grep_path r)) (\<lambda>_.
     res_bind (validate_pattern (grep_pattern r)) (\<lambda>_.
     res_bind (validate_limit (grep_max_results r) MAX_GUEST_RESULTS) (\<lambda>_.
     validate_limit (grep_max_bytes r) MAX_GUEST_RESULT_BYTES)))"

definition read_validate :: "read_request \<Rightarrow> contract_error + unit" where
  "read_validate r =
     res_bind (validate_guest_file_path (read_path r)) (\<lambda>_.
     case read_max_bytes r of Some m \<Rightarrow> validate_limit m MAX_GUEST_RESULT_BYTES | None \<Rightarrow> Inr ())"

definition write_validate :: "write_request \<Rightarrow> contract_error + unit" where
  "write_validate r =
     res_bind (validate_guest_file_path (write_path r)) (\<lambda>_.
     validate_payload_size (length (write_data r)) MAX_GUEST_RESULT_BYTES)"

definition eval_validate :: "eval_request \<Rightarrow> contract_error + unit" where
  "eval_validate r =
     (if blank (eval_code r) then Inl EmptyCode
      else if length (eval_code r) > MAX_GUEST_CODE_BYTES then Inl LimitExceeded
      else if eval_timeout r = Some 0 then Inl InvalidTimeout
      else (case eval_cwd r of Some cwd \<Rightarrow> validate_guest_cwd cwd | None \<Rightarrow> Inr ()))"

definition cancel_validate :: "cancel_request \<Rightarrow> contract_error + unit" where
  "cancel_validate r = (case cancel_id r of Some i \<Rightarrow> validate_cancel_id i | None \<Rightarrow> Inr ())"

definition stream_validate :: "stream_spec \<Rightarrow> contract_error + unit" where
  "stream_validate s =
     (if blank (st_command s) then Inl EmptyCommand
      else if st_timeout s = Some 0 then Inl InvalidTimeout
      else res_bind (case st_cwd s of Some cwd \<Rightarrow> validate_guest_cwd cwd | None \<Rightarrow> Inr ()) (\<lambda>_.
        if list_ex (\<lambda>(name, v). name = [] \<or> CHR 0x00 \<in> set name \<or> CHR 0x00 \<in> set v) (st_env s)
        then Inl InvalidEnv else Inr ()))"

section \<open>The operations facade\<close>

datatype guest_request =
    GExec exec_spec
  | GLs ls_request
  | GFind find_request
  | GGrep grep_request
  | GRead read_request
  | GWrite write_request
  | GEval eval_request
  | GCancel cancel_request
  | GStream stream_spec

fun request_validate :: "guest_request \<Rightarrow> contract_error + unit" where
  "request_validate (GExec r) = exec_spec_validate r"
| "request_validate (GLs r) = ls_validate r"
| "request_validate (GFind r) = find_validate r"
| "request_validate (GGrep r) = grep_validate r"
| "request_validate (GRead r) = read_validate r"
| "request_validate (GWrite r) = write_validate r"
| "request_validate (GEval r) = eval_validate r"
| "request_validate (GCancel r) = cancel_validate r"
| "request_validate (GStream r) = stream_validate r"

record operations_config =
  default_timeout :: "nat option"

definition apply_default_timeout :: "operations_config \<Rightarrow> nat option \<Rightarrow> nat option" where
  "apply_default_timeout c t = (if t = None then default_timeout c else t)"

fun with_default_timeout :: "operations_config \<Rightarrow> guest_request \<Rightarrow> guest_request" where
  "with_default_timeout c (GExec r) = GExec (r\<lparr>ex_timeout := apply_default_timeout c (ex_timeout r)\<rparr>)"
| "with_default_timeout c (GEval r) = GEval (r\<lparr>eval_timeout := apply_default_timeout c (eval_timeout r)\<rparr>)"
| "with_default_timeout c (GStream r) = GStream (r\<lparr>st_timeout := apply_default_timeout c (st_timeout r)\<rparr>)"
| "with_default_timeout c r = r"

text \<open>\<^verbatim>\<open>GuestOperations::{exec,ls,..,stream}\<close>: each is \<^verbatim>\<open>validated(request.validate(), call)\<close>.\<close>

definition validated :: "contract_error + unit \<Rightarrow> (unit \<Rightarrow> sandbox_error + 'r) \<Rightarrow> sandbox_error + 'r" where
  "validated result call = (case result of Inr _ \<Rightarrow> call () | Inl e \<Rightarrow> Inl (SInvalidSpec e))"

definition guest_operation ::
  "operations_config \<Rightarrow> (guest_request \<Rightarrow> sandbox_error + 'r) \<Rightarrow> guest_request \<Rightarrow> sandbox_error + 'r" where
  "guest_operation c sandbox request =
     (let r = with_default_timeout c request in validated (request_validate r) (\<lambda>_. sandbox r))"

section \<open>The client-side validators\<close>

datatype rfb_error = Validation string

definition client_fs_path :: "string \<Rightarrow> rfb_error + unit" where
  "client_fs_path path =
     (if path = [] \<or> length path > MAX_GUEST_PATH_BYTES \<or> CHR 0x00 \<in> set path
         \<or> (starts_with path ''/'' \<and> path \<noteq> ''/workspace'' \<and> \<not> starts_with path ''/workspace/'')
         \<or> CHR 0x5C \<in> set path \<or> has_dotdot path
      then Inl (Validation (''fs path must be non-empty, at most 4096 bytes, backslash-free, ''
             @ ''and non-escaping'')) else Inr ())"

definition client_file_path :: "string \<Rightarrow> rfb_error + unit" where
  "client_file_path path =
     (if path = [] \<or> length path > MAX_GUEST_PATH_BYTES \<or> CHR 0x00 \<in> set path
         \<or> CHR 0x5C \<in> set path \<or> drive_prefix path \<or> has_dotdot path
      then Inl (Validation (''file path must be non-empty, at most 4096 bytes, backslash-free, ''
             @ ''drive-free, and non-escaping'')) else Inr ())"

definition client_pattern :: "string \<Rightarrow> rfb_error + unit" where
  "client_pattern p =
     (if p = [] \<or> CHR 0x00 \<in> set p then Inl (Validation ''pattern must be non-empty and NUL-free'')
      else if length p > MAX_GUEST_PATTERN_BYTES then Inl (Validation ''pattern exceeds 1024 bytes'')
      else Inr ())"

definition client_limit :: "nat \<Rightarrow> nat \<Rightarrow> string \<Rightarrow> rfb_error + unit" where
  "client_limit v m what = (if v = 0 \<or> v > m then Inl (Validation what) else Inr ())"

definition client_eval_code :: "string \<Rightarrow> rfb_error + unit" where
  "client_eval_code code =
     (if blank code then Inl (Validation ''eval code must not be empty'')
      else if length code > MAX_GUEST_CODE_BYTES then Inl (Validation ''eval code exceeds 1 MiB'')
      else Inr ())"

definition client_sandbox_id :: "string \<Rightarrow> rfb_error + unit" where
  "client_sandbox_id i =
     (if i = [] \<or> length i > 128 \<or> \<not> list_all is_id_char i
      then Inl (Validation ''sandbox id must match [A-Za-z0-9_-]{1,128}'') else Inr ())"

section \<open>Lexical resolution\<close>

text \<open>
  What a path means to the guest: components are taken from the root or from a base directory,
  empty ones and \<^verbatim>\<open>.\<close> are skipped, \<^verbatim>\<open>..\<close> goes up.
\<close>

fun resolve_from :: "string list \<Rightarrow> string list \<Rightarrow> string list" where
  "resolve_from base [] = base"
| "resolve_from base (c # cs) =
     (if c = [] \<or> c = ''.'' then resolve_from base cs
      else if c = ''..'' then resolve_from (butlast base) cs
      else resolve_from (base @ [c]) cs)"

definition resolve :: "string list \<Rightarrow> string \<Rightarrow> string list" where
  "resolve base path =
     resolve_from (if starts_with path ''/'' then [] else base) (split_on (CHR ''/'') path)"

lemma resolve_from_prefix:
  "''..'' \<notin> set cs \<Longrightarrow> \<exists>rest. resolve_from base cs = base @ rest"
proof (induction base cs rule: resolve_from.induct)
  case (2 base c cs)
  then show ?case by auto
qed simp

lemma starts_with_append: "starts_with s p \<longleftrightarrow> (\<exists>r. s = p @ r)"
  by (auto simp: starts_with_def strip_prefix_Some)

lemma backslash_start: "starts_with p [c] \<Longrightarrow> c \<in> set p"
  by (auto simp: starts_with_append)

lemma workspace_components:
  assumes "path = ''/workspace'' \<or> starts_with path ''/workspace/''"
  shows "\<exists>cs. split_on (CHR ''/'') path = [] # ''workspace'' # cs"
proof (cases "path = ''/workspace''")
  case True
  then show ?thesis by simp
next
  case False
  then obtain r where "path = ''/workspace/'' @ r" using assms by (auto simp: starts_with_append)
  then show ?thesis by simp
qed

lemma unat_div_ceil_mib:
  "unat (u64_div_ceil b 1048576) = (if 0 < unat b mod 1048576 then unat b div 1048576 + 1 else unat b div 1048576)"
proof -
  have q: "unat (b div 1048576) = unat b div 1048576" and r: "unat (b mod 1048576) = unat b mod 1048576"
    by (simp_all add: unat_div unat_mod)
  have "unat b div 1048576 + 1 < 2 ^ 64" using unat_lt2p [of b] by simp
  then have "unat (b div 1048576 + 1) = unat b div 1048576 + 1"
    using q by (simp add: unat_word_ariths)
  moreover have "0 < b mod 1048576 \<longleftrightarrow> 0 < unat b mod 1048576"
    using r by (simp add: word_less_nat_alt)
  ultimately show ?thesis using q unfolding u64_div_ceil_def by simp
qed

lemma div_ceil_mib:
  "unat b \<le> unat (u64_div_ceil b 1048576) * 1048576"
  "unat (u64_div_ceil b 1048576) * 1048576 < unat b + 1048576"
  "b \<noteq> 0 \<Longrightarrow> 0 < u64_div_ceil b 1048576"
proof -
  define q r where "q = unat b div 1048576" and "r = unat b mod 1048576"
  have b: "unat b = q * 1048576 + r" and r: "r < 1048576" by (simp_all add: q_def r_def)
  have c: "unat (u64_div_ceil b 1048576) = (if 0 < r then q + 1 else q)"
    by (simp add: unat_div_ceil_mib q_def r_def)
  show up: "unat b \<le> unat (u64_div_ceil b 1048576) * 1048576"
    unfolding c b using r by simp
  show "unat (u64_div_ceil b 1048576) * 1048576 < unat b + 1048576"
    unfolding c b using r by simp
  assume "b \<noteq> 0"
  then have "0 < unat b" by (simp add: unat_gt_0)
  with up show "0 < u64_div_ceil b 1048576" by (auto simp: word_less_nat_alt intro: Nat.gr0I)
qed

section \<open>Properties\<close>

text \<open>
  Accepted file-system paths stay in the workspace: a path that \<^verbatim>\<open>validate_fs_path\<close> accepts,
  resolved lexically by a guest whose working directory is \<^verbatim>\<open>/workspace\<close>, denotes the workspace
  or something below it, and so does an accepted file path or working directory that is relative.
\<close>

theorem fs_path_confined:
  "(is_ok (validate_fs_path path) \<longrightarrow> (\<exists>rest. resolve [''workspace''] path = ''workspace'' # rest))
   \<and> (is_ok (validate_guest_file_path path) \<and> \<not> starts_with path ''/'' \<longrightarrow>
        (\<exists>rest. resolve [''workspace''] path = ''workspace'' # rest))"
proof (intro conjI impI)
  assume ok: "is_ok (validate_fs_path path)"
  then have dd: "''..'' \<notin> set (split_on (CHR ''/'') path)"
    and abs: "starts_with path ''/'' \<Longrightarrow> path = ''/workspace'' \<or> starts_with path ''/workspace/''"
    by (auto simp: validate_fs_path_def has_dotdot_def split: if_splits)
  show "\<exists>rest. resolve [''workspace''] path = ''workspace'' # rest"
  proof (cases "starts_with path ''/''")
    case True
    from workspace_components [OF abs [OF True]] obtain cs
      where "split_on (CHR ''/'') path = [] # ''workspace'' # cs" by blast
    with dd True resolve_from_prefix [of cs "[''workspace'']"] show ?thesis
      by (auto simp: resolve_def)
  next
    case False
    with resolve_from_prefix [OF dd, of "[''workspace'']"] show ?thesis by (auto simp: resolve_def)
  qed
next
  assume "is_ok (validate_guest_file_path path) \<and> \<not> starts_with path ''/''"
  then have "''..'' \<notin> set (split_on (CHR ''/'') path)" "\<not> starts_with path ''/''"
    by (auto simp: validate_guest_file_path_def has_dotdot_def split: if_splits)
  with resolve_from_prefix [of _ "[''workspace'']"] show "\<exists>rest. resolve [''workspace''] path = ''workspace'' # rest"
    by (auto simp: resolve_def)
qed

text \<open>
  Client and contract validate alike: for every input, the local checks of the client accept
  exactly what the checks of the guest requests accept, for paths, file paths, patterns, limits,
  code and identifiers.
\<close>

theorem validators_agree:
  "is_ok (client_fs_path p) = is_ok (validate_fs_path p)
   \<and> is_ok (client_file_path p) = is_ok (validate_guest_file_path p)
   \<and> is_ok (client_pattern p) = is_ok (validate_pattern p)
   \<and> is_ok (client_limit v m what) = is_ok (validate_limit v m)
   \<and> is_ok (client_eval_code p) = is_ok (eval_validate \<lparr>eval_cwd = None, eval_code = p, eval_timeout = None\<rparr>)
   \<and> is_ok (client_sandbox_id p) = is_ok (validate_cancel_id p)"
  using backslash_start [of p]
  by (simp add: client_fs_path_def validate_fs_path_def client_file_path_def
      validate_guest_file_path_def client_pattern_def validate_pattern_def client_limit_def
      validate_limit_def client_eval_code_def eval_validate_def client_sandbox_id_def
      validate_cancel_id_def)

text \<open>
  Creation is fail-closed: if both guards pass, every capability asked for is advertised, no
  limit is zero, and no constraint is dropped: there is no CPU, disk, process or image constraint,
  and a memory limit either is carried over, as the least number of mebibytes that covers it
  (computed without wrap-around), or the backend could not have passed the guard.
\<close>

theorem create_guards_fail_closed:
  assumes "check_create_spec spec supported = Inr ()"
    "check_create_resources spec memory_supported = Inr limit"
  shows "set (spec_capabilities spec) \<subseteq> set supported
    \<and> resources_validate (spec_resources spec) = Inr ()
    \<and> cpus (spec_resources spec) = None \<and> disk_bytes (spec_resources spec) = None
    \<and> pids (spec_resources spec) = None \<and> spec_image spec = None
    \<and> (case memory_bytes (spec_resources spec) of
         None \<Rightarrow> limit = None
       | Some b \<Rightarrow> memory_supported \<and> (\<exists>m. limit = Some m \<and> 0 < m
           \<and> unat b \<le> unat m * 1048576 \<and> unat m * 1048576 < unat b + 1048576))"
proof -
  have "resources_validate (spec_resources spec) = Inr ()"
    using assms(1) by (auto simp: check_create_spec_def sandbox_spec_validate_def
        res_bind_eq_Inr_conv split: sum.splits)
  moreover have "set (spec_capabilities spec) \<subseteq> set supported"
    using assms(1) by (auto simp: check_create_spec_def find_None_iff split: sum.splits option.splits)
  ultimately show ?thesis
    using assms(2) div_ceil_mib
    by (cases "memory_bytes (spec_resources spec)")
      (auto simp: check_create_resources_def resources_validate_def Let_def split: if_splits)
qed

text \<open>
  The operations facade dispatches only valid requests: a sandbox is called at most with the
  request itself, its missing timeout filled with the configured default, and only if that
  request passes its validation; otherwise the caller gets the validation error and the sandbox is
  not consulted. In particular no exec, eval or stream reaches a backend with a zero timeout.
\<close>

theorem guest_operation_fail_closed:
  "(is_ok (request_validate (with_default_timeout c request)) \<longrightarrow>
      guest_operation c sandbox request = sandbox (with_default_timeout c request))
   \<and> (\<not> is_ok (request_validate (with_default_timeout c request)) \<longrightarrow>
      (\<exists>e. \<forall>other. guest_operation c other request = (Inl (SInvalidSpec e) :: sandbox_error + 'r)))
   \<and> \<not> is_ok (request_validate (GExec (r1\<lparr>ex_timeout := Some 0\<rparr>)))
   \<and> \<not> is_ok (request_validate (GEval (r2\<lparr>eval_timeout := Some 0\<rparr>)))
   \<and> \<not> is_ok (request_validate (GStream (r3\<lparr>st_timeout := Some 0\<rparr>)))"
  by (cases "request_validate (with_default_timeout c request)")
    (auto simp: guest_operation_def validated_def exec_spec_validate_def eval_validate_def
      stream_validate_def)

section \<open>Witnesses\<close>

theorem fs_path_confined_witness:
  "\<exists>rest. resolve [''workspace''] ''a/./b'' = ''workspace'' # rest"
proof -
  have "is_ok (validate_fs_path ''a/./b'')"
    by (simp add: validate_fs_path_def MAX_GUEST_PATH_BYTES_def starts_with_def has_dotdot_def)
  then show ?thesis using fs_path_confined [of "''a/./b''"] by blast
qed

theorem create_guards_fail_closed_witness:
  "\<exists>m. check_create_resources (sandbox_spec_default\<lparr>spec_resources :=
        resources_default\<lparr>memory_bytes := Some 1048577\<rparr>\<rparr>) True = Inr (Some m)
     \<and> 1048577 \<le> unat m * 1048576"
proof -
  let ?s = "sandbox_spec_default\<lparr>spec_resources := resources_default\<lparr>memory_bytes := Some 1048577\<rparr>\<rparr>"
  have "check_create_spec ?s [] = Inr ()"
    by (simp add: check_create_spec_def sandbox_spec_validate_def resources_validate_def
        sandbox_spec_default_def resources_default_def)
  moreover have "check_create_resources ?s True = Inr (Some (u64_div_ceil 1048577 1048576))"
    by (simp add: check_create_resources_def sandbox_spec_default_def resources_default_def)
  ultimately show ?thesis
    using create_guards_fail_closed [of ?s "[]" True "Some (u64_div_ceil 1048577 1048576)"]
    by (simp add: sandbox_spec_default_def resources_default_def)
qed

theorem guest_operation_fail_closed_witness:
  "guest_operation \<lparr>default_timeout = Some 5\<rparr> (\<lambda>r. Inr r) (GCancel \<lparr>cancel_id = None\<rparr>)
     = Inr (GCancel \<lparr>cancel_id = None\<rparr>)"
  using guest_operation_fail_closed [of "\<lparr>default_timeout = Some 5\<rparr>" "GCancel \<lparr>cancel_id = None\<rparr>" "\<lambda>r. Inr r"]
  by (simp add: cancel_validate_def)

end
