(* ===== verification/Cluster.thy ===== *)
theory Cluster
  imports Contract
begin

text \<open>
  The cluster provider, \<^verbatim>\<open>rfb/src/cluster.rs\<close>: scheduling of sandbox creation over several forkd
  controller nodes with failover, a half-open recovery gate per node, reconciliation of
  indeterminate failures, and the accounting of in-flight sandboxes.

  The controllers are remote services behind HTTP. The record \<open>controller\<close> holds what the provider
  calls of them, over an arbitrary state \<open>'w\<close> of the outside world, together with the two clocks and
  the rendering of client errors. The counters are natural numbers (\<^verbatim>\<open>AtomicUsize\<close>), the gate is a
  64-bit millisecond time stamp with the saturating addition of the source; the round-robin
  cursor wraps.
\<close>

section \<open>State\<close>

datatype schedule_strategy = LeastInflight | RoundRobin

definition DEFAULT_RECOVERY_INTERVAL :: nat where
  "DEFAULT_RECOVERY_INTERVAL = 30000"

text \<open>
  The part of \<^verbatim>\<open>ForkdConfig\<close> that the cluster sets; the guest profile and capabilities keep their
  defaults. Durations are in milliseconds.
\<close>

record forkd_config =
  fc_base_url :: string
  fc_token :: "string option"
  fc_timeout_ms :: nat
  fc_snapshot_tag :: "string option"
  fc_guest_timeout_ms :: nat

definition forkd_config_default :: forkd_config where
  "forkd_config_default = \<lparr>fc_base_url = ''http://127.0.0.1:8889'', fc_token = None, fc_timeout_ms = 60000,
     fc_snapshot_tag = None, fc_guest_timeout_ms = 30000\<rparr>"

record cluster_config =
  cfg_nodes :: "string list"
  cfg_token :: "string option"
  cfg_timeout_ms :: nat
  cfg_snapshot_tag :: string
  cfg_strategy :: schedule_strategy
  cfg_guest_timeout_ms :: nat
  cfg_recovery_interval_ms :: nat

definition cluster_from_urls :: "string list \<Rightarrow> string \<Rightarrow> cluster_config" where
  "cluster_from_urls urls tag = \<lparr>cfg_nodes = urls, cfg_token = None,
     cfg_timeout_ms = fc_timeout_ms forkd_config_default, cfg_snapshot_tag = tag, cfg_strategy = LeastInflight,
     cfg_guest_timeout_ms = fc_guest_timeout_ms forkd_config_default,
     cfg_recovery_interval_ms = DEFAULT_RECOVERY_INTERVAL\<rparr>"

definition with_recovery_interval :: "cluster_config \<Rightarrow> nat \<Rightarrow> cluster_config" where
  "with_recovery_interval c ms = c\<lparr>cfg_recovery_interval_ms := ms\<rparr>"

definition FAILURE_TRIP :: nat where
  "FAILURE_TRIP = 3"

record node_state =
  base_url :: string
  inflight :: nat
  failures :: nat
  next_trial_ms :: u64

record cluster =
  cl_nodes :: "node_state list"
  cl_snapshot_tag :: string
  cl_strategy :: schedule_strategy
  cl_cursor :: u64
  cl_recovery_interval_ms :: nat

record sandbox_info =
  sb_id :: string
  sb_snapshot_tag :: string
  sb_created_at_unix :: "int option"

record snapshot_info =
  sn_tag :: string
  sn_status :: string
  sn_bootable :: bool
  sn_digest :: "string option"

datatype forkd_client_error = Transport string | Timeout | Http nat string | Decode string | Remote string

record 'w controller =
  k_create :: "string \<Rightarrow> string \<Rightarrow> u64 option \<Rightarrow> 'w \<Rightarrow> (forkd_client_error + sandbox_info) \<times> 'w"
  k_list_sandboxes :: "string \<Rightarrow> 'w \<Rightarrow> (forkd_client_error + sandbox_info list) \<times> 'w"
  k_delete_sandbox :: "string \<Rightarrow> string \<Rightarrow> 'w \<Rightarrow> (forkd_client_error + unit) \<times> 'w"
  k_list_snapshots :: "string \<Rightarrow> 'w \<Rightarrow> (forkd_client_error + snapshot_info list) \<times> 'w"
  k_snapshot_info :: "string \<Rightarrow> string \<Rightarrow> 'w \<Rightarrow> (forkd_client_error + snapshot_info option) \<times> 'w"
  k_capabilities :: "string \<Rightarrow> capability list"
  k_unix_millis :: "'w \<Rightarrow> u64"
  k_unix_secs :: "'w \<Rightarrow> int"
  k_to_string :: "forkd_client_error \<Rightarrow> string"

section \<open>Construction and counters\<close>

text \<open>
  \<open>new_client\<close> is \<^verbatim>\<open>ForkdClient::new\<close>: it fails with a rendered error, or gives a client whose
  \<^verbatim>\<open>base_url()\<close> is the configured one.
\<close>

fun open_nodes ::
  "(forkd_config \<Rightarrow> string + unit) \<Rightarrow> cluster_config \<Rightarrow> string list \<Rightarrow> provider_error + node_state list" where
  "open_nodes new_client config [] = Inr []"
| "open_nodes new_client config (url # urls) =
     (case new_client \<lparr>fc_base_url = url, fc_token = cfg_token config, fc_timeout_ms = cfg_timeout_ms config,
             fc_snapshot_tag = Some (cfg_snapshot_tag config), fc_guest_timeout_ms = cfg_guest_timeout_ms config\<rparr> of
        Inl e \<Rightarrow> Inl (Unavailable e)
      | Inr _ \<Rightarrow> res_bind (open_nodes new_client config urls) (\<lambda>ns.
          Inr (\<lparr>base_url = url, inflight = 0, failures = 0, next_trial_ms = 0\<rparr> # ns)))"

definition cluster_new :: "(forkd_config \<Rightarrow> string + unit) \<Rightarrow> cluster_config \<Rightarrow> provider_error + cluster" where
  "cluster_new new_client config =
     (if cfg_nodes config = [] then Inl (Unavailable ''cluster requires at least one node URL'')
      else if blank (cfg_snapshot_tag config)
      then Inl (Unavailable ''cluster requires a non-empty snapshot tag'')
      else res_bind (open_nodes new_client config (cfg_nodes config)) (\<lambda>nodes.
        Inr \<lparr>cl_nodes = nodes, cl_snapshot_tag = cfg_snapshot_tag config,
             cl_strategy = cfg_strategy config, cl_cursor = 0,
             cl_recovery_interval_ms = cfg_recovery_interval_ms config\<rparr>))"

definition interval_ms :: "cluster \<Rightarrow> u64" where
  "interval_ms cl = word_of_nat (min (cl_recovery_interval_ms cl) (2 ^ 64 - 1))"

definition upd_node :: "nat \<Rightarrow> (node_state \<Rightarrow> node_state) \<Rightarrow> cluster \<Rightarrow> cluster" where
  "upd_node i f cl = cl\<lparr>cl_nodes := (cl_nodes cl)[i := f (cl_nodes cl ! i)]\<rparr>"

definition saturating_decrement :: "nat \<Rightarrow> nat" where
  "saturating_decrement v = v - 1"

definition inflight_arm :: "nat \<Rightarrow> cluster \<Rightarrow> cluster" where
  "inflight_arm i = upd_node i (\<lambda>n. n\<lparr>inflight := inflight n + 1\<rparr>)"

definition inflight_drop :: "nat \<Rightarrow> cluster \<Rightarrow> cluster" where
  "inflight_drop i = upd_node i (\<lambda>n. n\<lparr>inflight := saturating_decrement (inflight n)\<rparr>)"

fun position :: "('a \<Rightarrow> bool) \<Rightarrow> 'a list \<Rightarrow> nat option" where
  "position P [] = None"
| "position P (x # xs) = (if P x then Some 0 else map_option Suc (position P xs))"

definition release :: "string \<Rightarrow> cluster \<Rightarrow> cluster" where
  "release url cl =
     (case position (\<lambda>n. base_url n = url) (cl_nodes cl) of None \<Rightarrow> cl | Some i \<Rightarrow> inflight_drop i cl)"

definition node_status :: "cluster \<Rightarrow> (string \<times> bool \<times> nat) list" where
  "node_status cl = map (\<lambda>n. (base_url n, failures n < FAILURE_TRIP, inflight n)) (cl_nodes cl)"

record node_status_info =
  st_base_url :: string
  st_healthy :: bool
  st_inflight :: nat
  st_failures :: nat
  st_tripped :: bool
  st_next_trial_unix_ms :: "u64 option"

definition node_statuses :: "cluster \<Rightarrow> node_status_info list" where
  "node_statuses cl = map (\<lambda>n. \<lparr>st_base_url = base_url n, st_healthy = failures n < FAILURE_TRIP,
     st_inflight = inflight n, st_failures = failures n, st_tripped = failures n \<ge> FAILURE_TRIP,
     st_next_trial_unix_ms = (if next_trial_ms n \<noteq> 0 then Some (next_trial_ms n) else None)\<rparr>) (cl_nodes cl)"

section \<open>Scheduling\<close>

definition admissible :: "node_state \<Rightarrow> u64 \<Rightarrow> bool" where
  "admissible n now_ms =
     (if failures n < FAILURE_TRIP then True
      else next_trial_ms n = 0 \<or> now_ms \<ge> next_trial_ms n)"

definition candidate_order :: "u64 \<Rightarrow> cluster \<Rightarrow> nat list \<times> cluster" where
  "candidate_order now_ms cl =
     (let len = length (cl_nodes cl);
          anchor = unat (cl_cursor cl) mod len;
          order = map (\<lambda>offset. (anchor + offset) mod len) [0..<len];
          sorted = (if cl_strategy cl = LeastInflight
                    then sort_key (\<lambda>i. inflight (cl_nodes cl ! i)) order else order)
      in (filter (\<lambda>i. admissible (cl_nodes cl ! i) now_ms) sorted, cl\<lparr>cl_cursor := cl_cursor cl + 1\<rparr>))"

text \<open>
  The load of the gate and the compare-and-exchange are separate atomic operations of the source;
  \<open>claim_trial_cas\<close> is the second one, with the gate that was loaded before.
\<close>

definition claim_trial_cas :: "nat \<Rightarrow> u64 \<Rightarrow> u64 \<Rightarrow> cluster \<Rightarrow> bool \<times> cluster" where
  "claim_trial_cas i gate now_ms cl =
     (if next_trial_ms (cl_nodes cl ! i) = gate
      then (True, upd_node i (\<lambda>n. n\<lparr>next_trial_ms := u64_saturating_add now_ms (interval_ms cl)\<rparr>) cl)
      else (False, cl))"

definition claim_trial :: "nat \<Rightarrow> u64 \<Rightarrow> cluster \<Rightarrow> bool \<times> cluster" where
  "claim_trial i now_ms cl =
     (let n = cl_nodes cl ! i in
      if failures n < FAILURE_TRIP then (True, cl)
      else (let gate = next_trial_ms n in
            if gate \<noteq> 0 \<and> now_ms < gate then (False, cl) else claim_trial_cas i gate now_ms cl))"

section \<open>Creation\<close>

datatype create_fault = NodeFault bool | Rejected

fun classify_create_error :: "forkd_client_error \<Rightarrow> create_fault" where
  "classify_create_error (Transport e) = NodeFault True"
| "classify_create_error (Decode e) = NodeFault True"
| "classify_create_error Timeout = NodeFault True"
| "classify_create_error (Remote e) = Rejected"
| "classify_create_error (Http status m) = (if 400 \<le> status \<and> status < 500 then Rejected else NodeFault True)"

definition reconcile :: "'w controller \<Rightarrow> cluster \<Rightarrow> string \<Rightarrow> int \<Rightarrow> 'w \<Rightarrow> 'w" where
  "reconcile k cl url attempt_started_unix w =
     (let now_unix = k_unix_secs k w in
      case k_list_sandboxes k url w of
        (Inl e, w1) \<Rightarrow> w1
      | (Inr sandboxes, w1) \<Rightarrow>
          (case filter (\<lambda>s. sb_snapshot_tag s = cl_snapshot_tag cl
                  \<and> (case sb_created_at_unix s of None \<Rightarrow> False
                     | Some created \<Rightarrow> created \<ge> attempt_started_unix - 1 \<and> created \<le> now_unix + 1)) sandboxes of
             [] \<Rightarrow> w1
           | [orphan] \<Rightarrow> snd (k_delete_sandbox k url (sb_id orphan) w1)
           | _ # _ # _ \<Rightarrow> w1))"

fun create_loop ::
  "'w controller \<Rightarrow> u64 option \<Rightarrow> u64 \<Rightarrow> nat list \<Rightarrow> provider_error option \<Rightarrow> cluster \<Rightarrow> 'w
     \<Rightarrow> (provider_error + sandbox_info \<times> nat) \<times> cluster \<times> 'w" where
  "create_loop k memory now_ms [] last_error cl w =
     (Inl (case last_error of Some e \<Rightarrow> e | None \<Rightarrow> Unavailable ''all cluster nodes are unhealthy''), cl, w)"
| "create_loop k memory now_ms (i # is) last_error cl w =
     (case claim_trial i now_ms cl of
        (False, cl1) \<Rightarrow> create_loop k memory now_ms is last_error cl1 w
      | (True, cl1) \<Rightarrow>
        (let cl2 = inflight_arm i cl1;
             attempt_started_unix = k_unix_secs k w;
             url = base_url (cl_nodes cl ! i)
         in case k_create k url (cl_snapshot_tag cl) memory w of
              (Inr inner, w1) \<Rightarrow>
                (Inr (inner, i), upd_node i (\<lambda>n. n\<lparr>failures := 0, next_trial_ms := 0\<rparr>) cl2, w1)
            | (Inl e, w1) \<Rightarrow>
                (let cl3 = inflight_drop i cl2 in
                 case classify_create_error e of
                   Rejected \<Rightarrow>
                     (Inl (Unavailable (''node '' @ url @ '' rejected create: '' @ k_to_string k e)), cl3, w1)
                 | NodeFault reconcilable \<Rightarrow>
                     create_loop k memory now_ms is
                       (Some (Unavailable (''node '' @ url @ '' failed: '' @ k_to_string k e)))
                       (upd_node i (\<lambda>n. n\<lparr>failures := failures n + 1,
                          next_trial_ms := (if failures n + 1 \<ge> FAILURE_TRIP
                             then max (next_trial_ms n) (u64_saturating_add now_ms (interval_ms cl3))
                             else next_trial_ms n)\<rparr>) cl3)
                       (if reconcilable then reconcile k cl3 url attempt_started_unix w1 else w1))))"

definition cluster_capabilities :: "'w controller \<Rightarrow> cluster \<Rightarrow> capability list" where
  "cluster_capabilities k cl = (case cl_nodes cl of [] \<Rightarrow> [] | n # _ \<Rightarrow> k_capabilities k (base_url n))"

definition create_sandbox_with ::
  "'w controller \<Rightarrow> sandbox_spec \<Rightarrow> cluster \<Rightarrow> 'w
     \<Rightarrow> (provider_error + sandbox_info \<times> nat) \<times> cluster \<times> 'w" where
  "create_sandbox_with k spec cl w =
     (case check_create_spec spec (cluster_capabilities k cl) of
        Inl e \<Rightarrow> (Inl e, cl, w)
      | Inr _ \<Rightarrow> (case check_create_resources spec True of
          Inl e \<Rightarrow> (Inl e, cl, w)
        | Inr memory \<Rightarrow>
          (let now_ms = k_unix_millis k w; (candidates, cl1) = candidate_order now_ms cl
           in create_loop k memory now_ms candidates None cl1 w)))"

definition create_sandbox ::
  "'w controller \<Rightarrow> cluster \<Rightarrow> 'w \<Rightarrow> (provider_error + sandbox_info \<times> nat) \<times> cluster \<times> 'w" where
  "create_sandbox k = create_sandbox_with k sandbox_spec_default"

section \<open>Operations on all nodes\<close>

text \<open>
  The source spawns one task per node and joins them in node order; the calls are made here in node
  order. The branch for a panicking task is not modelled.
\<close>

fun list_nodes :: "'w controller \<Rightarrow> node_state list \<Rightarrow> 'w
    \<Rightarrow> (string \<times> (forkd_client_error + sandbox_info list)) list \<times> 'w" where
  "list_nodes k [] w = ([], w)"
| "list_nodes k (n # ns) w =
     (case k_list_sandboxes k (base_url n) w of (r, w1) \<Rightarrow>
        (case list_nodes k ns w1 of (rs, w2) \<Rightarrow> ((base_url n, r) # rs, w2)))"

record node_sandboxes =
  ns_base_url :: string
  ns_sandboxes :: "sandbox_info list"
  ns_error :: "string option"

definition list_all_nodes :: "'w controller \<Rightarrow> cluster \<Rightarrow> 'w \<Rightarrow> node_sandboxes list \<times> 'w" where
  "list_all_nodes k cl w =
     (case list_nodes k (cl_nodes cl) w of (rs, w1) \<Rightarrow>
        (map (\<lambda>(url, r). case r of
            Inr sandboxes \<Rightarrow> \<lparr>ns_base_url = url, ns_sandboxes = sandboxes, ns_error = None\<rparr>
          | Inl e \<Rightarrow> \<lparr>ns_base_url = url, ns_sandboxes = [], ns_error = Some (k_to_string k e)\<rparr>) rs, w1))"

definition delete_on :: "'w controller \<Rightarrow> string \<Rightarrow> string \<Rightarrow> cluster \<Rightarrow> 'w \<Rightarrow> (provider_error + unit) \<times> 'w" where
  "delete_on k node_base_url sandbox_id cl w =
     (if node_base_url \<notin> set (map base_url (cl_nodes cl))
      then (Inl (Unavailable (''unknown cluster node '' @ node_base_url)), w)
      else (case k_delete_sandbox k node_base_url sandbox_id w of
          (Inr _, w1) \<Rightarrow> (Inr (), w1)
        | (Inl e, w1) \<Rightarrow>
            (Inl (Unavailable (''node '' @ node_base_url @ '' delete failed: '' @ k_to_string k e)), w1)))"

definition probe_node :: "u64 \<Rightarrow> u64 \<Rightarrow> forkd_client_error + sandbox_info list \<Rightarrow> node_state \<Rightarrow> node_state" where
  "probe_node now_ms interval r n =
     (if is_ok r then n\<lparr>failures := 0, next_trial_ms := 0\<rparr>
      else if failures n \<ge> FAILURE_TRIP
      then n\<lparr>next_trial_ms := max (next_trial_ms n) (u64_saturating_add now_ms interval)\<rparr>
      else n)"

definition probe :: "'w controller \<Rightarrow> cluster \<Rightarrow> 'w \<Rightarrow> (string + unit) list \<times> cluster \<times> 'w" where
  "probe k cl w =
     (case list_nodes k (cl_nodes cl) w of (rs, w1) \<Rightarrow>
        (let now_ms = k_unix_millis k w1
         in (map (\<lambda>(_, r). case r of Inr _ \<Rightarrow> Inr () | Inl e \<Rightarrow> Inl (k_to_string k e)) rs,
             cl\<lparr>cl_nodes := map (\<lambda>((_, r), n). probe_node now_ms (interval_ms cl) r n) (zip rs (cl_nodes cl))\<rparr>,
             w1)))"

record preflight_node =
  pf_base_url :: string
  pf_ready :: bool
  pf_digest :: "string option"
  pf_status :: string
  pf_error :: "string option"

definition eq_ignore_ascii_case :: "string \<Rightarrow> string \<Rightarrow> bool" where
  "eq_ignore_ascii_case a b =
     (let low = map (\<lambda>c. let n = (of_char c :: nat) in if 65 \<le> n \<and> n \<le> 90 then n + 32 else n)
      in low a = low b)"

definition preflight_node_of ::
  "'w controller \<Rightarrow> string \<Rightarrow> string \<Rightarrow> 'w \<Rightarrow> (preflight_node \<times> string list) \<times> 'w" where
  "preflight_node_of k tag url w =
     (case k_list_snapshots k url w of (r1, w1) \<Rightarrow>
        (case (case r1 of
            Inr snapshots \<Rightarrow>
              (case find (\<lambda>s. sn_tag s = tag) snapshots of
                 Some s \<Rightarrow>
                   (let ready = (eq_ignore_ascii_case (sn_status s) ''ready'' \<and> sn_bootable s)
                    in (sn_status s, ready, None,
                        if ready then [] else [url @ '': snapshot `'' @ tag @ ''` is not ready/bootable'']))
               | None \<Rightarrow>
                   ([], False, Some (''snapshot tag `'' @ tag @ ''` is not provisioned''),
                    [url @ '': snapshot tag `'' @ tag @ ''` is missing'']))
          | Inl e \<Rightarrow> ([], False, Some (k_to_string k e),
              [url @ '': list_snapshots failed: '' @ k_to_string k e])) of
           (status, ready, error, notes) \<Rightarrow>
         (case k_snapshot_info k url tag w1 of (r2, w2) \<Rightarrow>
           ((case r2 of
              Inr (Some info) \<Rightarrow>
                (\<lparr>pf_base_url = url, pf_ready = ready, pf_digest = sn_digest info,
                  pf_status = (if status = [] then sn_status info else status), pf_error = error\<rparr>, notes)
            | Inr None \<Rightarrow>
                (\<lparr>pf_base_url = url, pf_ready = ready, pf_digest = None, pf_status = status, pf_error = error\<rparr>,
                 notes @ [url @ '': controller has no snapshot detail for `'' @ tag @ ''`''])
            | Inl e \<Rightarrow>
                (\<lparr>pf_base_url = url, pf_ready = ready, pf_digest = None, pf_status = status,
                  pf_error = (if error = None then Some (k_to_string k e) else error)\<rparr>,
                 notes @ [url @ '': snapshot_info failed: '' @ k_to_string k e])), w2))))"

fun preflight_nodes ::
  "'w controller \<Rightarrow> string \<Rightarrow> node_state list \<Rightarrow> 'w \<Rightarrow> (preflight_node list \<times> string list) \<times> 'w" where
  "preflight_nodes k tag [] w = (([], []), w)"
| "preflight_nodes k tag (n # ns) w =
     (case preflight_node_of k tag (base_url n) w of ((entry, notes), w1) \<Rightarrow>
        (case preflight_nodes k tag ns w1 of ((entries, later), w2) \<Rightarrow> ((entry # entries, notes @ later), w2)))"

text \<open>The second loop, over \<open>(digests_agree, expected)\<close>.\<close>

fun digest_loop :: "bool \<Rightarrow> string option \<Rightarrow> preflight_node list \<Rightarrow> bool \<times> string list" where
  "digest_loop agree expected [] = (agree, [])"
| "digest_loop agree expected (n # ns) =
     (case pf_digest n of
        Some d \<Rightarrow> (case expected of
            None \<Rightarrow> digest_loop agree (Some d) ns
          | Some first \<Rightarrow> digest_loop (if first \<noteq> d then False else agree) expected ns)
      | None \<Rightarrow> (case digest_loop False expected ns of (a, notes) \<Rightarrow>
          (a, (pf_base_url n @ '': no snapshot digest reported'') # notes)))"

definition preflight :: "'w controller \<Rightarrow> cluster \<Rightarrow> 'w \<Rightarrow> (preflight_node list \<times> bool \<times> string list) \<times> 'w" where
  "preflight k cl w =
     (case preflight_nodes k (cl_snapshot_tag cl) (cl_nodes cl) w of ((nodes, notes), w1) \<Rightarrow>
        (case digest_loop True None nodes of (agree, later) \<Rightarrow> ((nodes, agree, notes @ later), w1)))"

text \<open>
  Two clusters and controllers for concrete runs: \<open>sample_controller\<close> answers every create with the given
  result at time 100 ms, lists \<open>sandboxes\<close> and records deletions in its state.
\<close>

definition sample_controller ::
  "forkd_client_error + sandbox_info \<Rightarrow> sandbox_info list \<Rightarrow> string list controller" where
  "sample_controller r sandboxes = \<lparr>k_create = (\<lambda>url tag m w. (if url = ''a'' then Inl (Transport ''down'') else r, w)),
     k_list_sandboxes = (\<lambda>url w. (Inr sandboxes, w)),
     k_delete_sandbox = (\<lambda>url sid w. (Inr (), sid # w)),
     k_list_snapshots = (\<lambda>url w. (Inr [\<lparr>sn_tag = ''t'', sn_status = ''Ready'', sn_bootable = True, sn_digest = None\<rparr>], w)),
     k_snapshot_info = (\<lambda>url tag w. (Inr (Some \<lparr>sn_tag = ''t'', sn_status = ''ready'', sn_bootable = True,
        sn_digest = Some ''d''\<rparr>), w)),
     k_capabilities = (\<lambda>url. all_guest), k_unix_millis = (\<lambda>w. 100), k_unix_secs = (\<lambda>w. 50),
     k_to_string = (\<lambda>e. ''error'')\<rparr>"

definition sample_sandbox :: "string \<Rightarrow> sandbox_info" where
  "sample_sandbox i = \<lparr>sb_id = i, sb_snapshot_tag = ''t'', sb_created_at_unix = Some 50\<rparr>"

definition sample_cluster :: "schedule_strategy \<Rightarrow> cluster" where
  "sample_cluster strategy = \<lparr>cl_nodes = [\<lparr>base_url = ''a'', inflight = 0, failures = 2, next_trial_ms = 0\<rparr>,
       \<lparr>base_url = ''b'', inflight = 4, failures = 3, next_trial_ms = 90\<rparr>],
     cl_snapshot_tag = ''t'', cl_strategy = strategy, cl_cursor = 1, cl_recovery_interval_ms = 10\<rparr>"

section \<open>Specification\<close>

text \<open>One round of node faults: the strikes and gates they leave behind.\<close>

definition struck :: "u64 \<Rightarrow> u64 \<Rightarrow> node_state \<Rightarrow> node_state \<Rightarrow> bool" where
  "struck now interval n n' \<longleftrightarrow>
     failures n' = failures n + 1
     \<and> (failures n' \<ge> FAILURE_TRIP \<longrightarrow> u64_saturating_add now interval \<le> next_trial_ms n')"

definition created_in_window :: "string \<Rightarrow> int \<Rightarrow> int \<Rightarrow> sandbox_info \<Rightarrow> bool" where
  "created_in_window tag lo hi s \<longleftrightarrow>
     sb_snapshot_tag s = tag \<and> (\<exists>c. sb_created_at_unix s = Some c \<and> lo \<le> c \<and> c \<le> hi)"

text \<open>The positions of a listing that qualify as the orphan of an attempt.\<close>

definition orphans :: "string \<Rightarrow> int \<Rightarrow> int \<Rightarrow> sandbox_info list \<Rightarrow> nat set" where
  "orphans tag lo hi sandboxes = {p. p < length sandboxes \<and> created_in_window tag lo hi (sandboxes ! p)}"

section \<open>Lemmas\<close>

abbreviation loads :: "cluster \<Rightarrow> nat list" where
  "loads cl \<equiv> map inflight (cl_nodes cl)"

lemma upd_node_fields [simp]:
  "cl_snapshot_tag (upd_node i f cl) = cl_snapshot_tag cl"
  "cl_recovery_interval_ms (upd_node i f cl) = cl_recovery_interval_ms cl"
  "length (cl_nodes (upd_node i f cl)) = length (cl_nodes cl)"
  "interval_ms (upd_node i f cl) = interval_ms cl"
  by (simp_all add: upd_node_def interval_ms_def)

lemma nth_upd_node:
  "i < length (cl_nodes cl) \<Longrightarrow> j < length (cl_nodes cl) \<Longrightarrow>
     cl_nodes (upd_node i f cl) ! j = (if i = j then f (cl_nodes cl ! j) else cl_nodes cl ! j)"
  by (simp add: upd_node_def)

lemma loads_upd_node_same:
  assumes "\<And>n. inflight (f n) = inflight n"
  shows "loads (upd_node i f cl) = loads cl"
  using assms by (simp add: upd_node_def map_update)
    (metis list_update_beyond list_update_id map_update not_le nth_map length_map)

lemma claim_trial_loads [simp]: "loads (snd (claim_trial i now cl)) = loads cl"
  by (simp add: claim_trial_def claim_trial_cas_def Let_def loads_upd_node_same)

lemma claim_trial_length [simp]:
  "length (cl_nodes (snd (claim_trial i now cl))) = length (cl_nodes cl)"
  by (simp add: claim_trial_def claim_trial_cas_def Let_def)

lemma loads_arm: "i < length (cl_nodes cl) \<Longrightarrow> loads (inflight_arm i cl) = (loads cl)[i := loads cl ! i + 1]"
  by (simp add: inflight_arm_def upd_node_def map_update)

lemma loads_drop_arm:
  "i < length (cl_nodes cl) \<Longrightarrow> loads (inflight_drop i (inflight_arm i cl)) = loads cl"
  by (simp add: inflight_arm_def inflight_drop_def upd_node_def map_update saturating_decrement_def)

lemma length_arm_drop [simp]:
  "length (cl_nodes (inflight_arm i cl)) = length (cl_nodes cl)"
  "length (cl_nodes (inflight_drop i cl)) = length (cl_nodes cl)"
  by (simp_all add: inflight_arm_def inflight_drop_def)

lemma create_loop_accounting:
  assumes "create_loop k memory now is last_error cl w = (r, cl', w')" "\<forall>i \<in> set is. i < length (cl_nodes cl)"
  shows "length (cl_nodes cl') = length (cl_nodes cl) \<and>
    (case r of Inl e \<Rightarrow> loads cl' = loads cl
     | Inr (info, i) \<Rightarrow> i \<in> set is \<and> loads cl' = (loads cl)[i := loads cl ! i + 1]
         \<and> failures (cl_nodes cl' ! i) = 0 \<and> next_trial_ms (cl_nodes cl' ! i) = 0)"
  using assms
proof (induction "is" arbitrary: last_error cl w)
  case Nil
  then show ?case by auto
next
  case (Cons i "is")
  obtain won cl1 where c: "claim_trial i now cl = (won, cl1)" by fastforce
  have l1: "loads cl1 = loads cl" "length (cl_nodes cl1) = length (cl_nodes cl)"
    using claim_trial_loads [of i now cl] claim_trial_length [of i now cl] c by simp_all
  have i: "i < length (cl_nodes cl1)" using Cons.prems(2) l1 by simp
  show ?case
  proof (cases won)
    case False
    then have "create_loop k memory now is last_error cl1 w = (r, cl', w')"
      using Cons.prems(1) c by simp
    from Cons.IH [OF this] Cons.prems(2) l1 show ?thesis by (auto split: sum.splits)
  next
    case True
    let ?cl2 = "inflight_arm i cl1"
    let ?cl3 = "inflight_drop i ?cl2"
    obtain a w1 where k: "k_create k (base_url (cl_nodes cl ! i)) (cl_snapshot_tag cl) memory w = (a, w1)"
      by fastforce
    show ?thesis
    proof (cases a)
      case (Inr inner)
      let ?f = "\<lambda>n. n\<lparr>failures := 0, next_trial_ms := 0\<rparr>"
      have "r = Inr (inner, i)" "cl' = upd_node i ?f ?cl2"
        using Cons.prems(1) c True k Inr by (auto simp: Let_def)
      then show ?thesis
        using i l1 loads_arm [OF i] loads_upd_node_same [of ?f i ?cl2] nth_upd_node [of i ?cl2 i ?f]
        by auto
    next
      case (Inl e)
      show ?thesis
      proof (cases "classify_create_error e")
        case Rejected
        then have "cl' = ?cl3" "\<exists>x. r = Inl x"
          using Cons.prems(1) c True k Inl by (auto simp: Let_def)
        then show ?thesis using loads_drop_arm [OF i] l1 by auto
      next
        case (NodeFault b)
        let ?f = "\<lambda>n. n\<lparr>failures := failures n + 1,
            next_trial_ms := (if failures n + 1 \<ge> FAILURE_TRIP
               then max (next_trial_ms n) (u64_saturating_add now (interval_ms ?cl3))
               else next_trial_ms n)\<rparr>"
        have "loads (upd_node i ?f ?cl3) = loads cl"
          using loads_upd_node_same [of ?f i ?cl3] loads_drop_arm [OF i] l1 by simp
        moreover obtain m w2 where "create_loop k memory now is m (upd_node i ?f ?cl3) w2 = (r, cl', w')"
          using Cons.prems(1) c True k Inl NodeFault by (auto simp: Let_def)
        note Cons.IH [OF this]
        ultimately show ?thesis using Cons.prems(2) l1 by (auto split: sum.splits)
      qed
    qed
  qed
qed

text \<open>The rotation of the candidates is HOL's \<open>rotate\<close>.\<close>

lemma rotation_eq: "map (\<lambda>offset. (a mod n + offset) mod n) [0..<n] = rotate a [0..<n]"
  by (rule nth_equalityI) (simp_all add: nth_rotate mod_add_left_eq)

lemma candidate_order_eq:
  "fst (candidate_order now cl) =
     (let order = rotate (unat (cl_cursor cl)) [0..<length (cl_nodes cl)]
      in filter (\<lambda>i. admissible (cl_nodes cl ! i) now)
           (if cl_strategy cl = LeastInflight then sort_key (\<lambda>i. inflight (cl_nodes cl ! i)) order else order))"
  by (simp add: candidate_order_def Let_def rotation_eq)

lemma candidate_order_set:
  "set (fst (candidate_order now cl)) = {i. i < length (cl_nodes cl) \<and> admissible (cl_nodes cl ! i) now}"
  "distinct (fst (candidate_order now cl))"
  by (auto simp: candidate_order_eq Let_def)

lemma candidate_order_nodes [simp]:
  "cl_nodes (snd (candidate_order now cl)) = cl_nodes cl"
  "cl_recovery_interval_ms (snd (candidate_order now cl)) = cl_recovery_interval_ms cl"
  "cl_snapshot_tag (snd (candidate_order now cl)) = cl_snapshot_tag cl"
  by (simp_all add: candidate_order_def Let_def)

lemma claim_trial_admissible:
  assumes "i < length (cl_nodes cl)"
  shows "fst (claim_trial i now cl) = admissible (cl_nodes cl ! i) now"
  by (auto simp: claim_trial_def claim_trial_cas_def admissible_def Let_def)

lemma claim_trial_keeps:
  assumes "i < length (cl_nodes cl)" "j < length (cl_nodes cl)"
  shows "failures (cl_nodes (snd (claim_trial i now cl)) ! j) = failures (cl_nodes cl ! j)
    \<and> (i \<noteq> j \<longrightarrow> cl_nodes (snd (claim_trial i now cl)) ! j = cl_nodes cl ! j)
    \<and> interval_ms (snd (claim_trial i now cl)) = interval_ms cl
    \<and> cl_snapshot_tag (snd (claim_trial i now cl)) = cl_snapshot_tag cl"
  using assms by (auto simp: claim_trial_def claim_trial_cas_def Let_def nth_upd_node)

lemma create_loop_all_fail:
  assumes "\<And>url w. \<exists>e b. fst (k_create k url (cl_snapshot_tag cl) memory w) = Inl e
             \<and> classify_create_error e = NodeFault b"
    and "distinct is" "\<forall>i \<in> set is. i < length (cl_nodes cl) \<and> admissible (cl_nodes cl ! i) now"
    and "create_loop k memory now is last_error cl w = (r, cl', w')"
  shows "(\<exists>e. r = Inl e) \<and> length (cl_nodes cl') = length (cl_nodes cl)
    \<and> (\<forall>j < length (cl_nodes cl).
         if j \<in> set is then struck now (interval_ms cl) (cl_nodes cl ! j) (cl_nodes cl' ! j)
         else cl_nodes cl' ! j = cl_nodes cl ! j)"
  using assms
proof (induction "is" arbitrary: last_error cl w)
  case Nil
  then show ?case by auto
next
  case (Cons i "is")
  have i: "i < length (cl_nodes cl)" "admissible (cl_nodes cl ! i) now" using Cons.prems(3) by simp_all
  obtain cl1 where c: "claim_trial i now cl = (True, cl1)"
    using claim_trial_admissible [OF i(1), of now] i(2) by (metis prod.collapse)
  note keep = claim_trial_keeps [OF i(1), of _ now, unfolded c snd_conv]
  have len: "length (cl_nodes cl1) = length (cl_nodes cl)" using claim_trial_length [of i now cl] c by simp
  let ?cl3 = "inflight_drop i (inflight_arm i cl1)"
  let ?f = "\<lambda>n. n\<lparr>failures := failures n + 1,
      next_trial_ms := (if failures n + 1 \<ge> FAILURE_TRIP
         then max (next_trial_ms n) (u64_saturating_add now (interval_ms ?cl3)) else next_trial_ms n)\<rparr>"
  let ?cl4 = "upd_node i ?f ?cl3"
  have iv: "interval_ms ?cl3 = interval_ms cl" "cl_snapshot_tag ?cl3 = cl_snapshot_tag cl"
    using keep [OF i(1)] by (simp_all add: inflight_drop_def inflight_arm_def)
  have n4: "cl_nodes ?cl4 ! j = (if j = i then ?f (cl_nodes ?cl3 ! j) else cl_nodes cl ! j)"
    if "j < length (cl_nodes cl)" for j
    using that i(1) len keep [OF that]
    by (auto simp: nth_upd_node inflight_drop_def inflight_arm_def)
  have "failures (cl_nodes ?cl3 ! i) = failures (cl_nodes cl ! i)"
    using i(1) len keep [OF i(1)] by (simp add: nth_upd_node inflight_drop_def inflight_arm_def)
  then have st: "struck now (interval_ms cl) (cl_nodes cl ! i) (cl_nodes ?cl4 ! i)"
    using n4 [OF i(1)] iv by (auto simp: struck_def)
  obtain e b w1 where k: "k_create k (base_url (cl_nodes cl ! i)) (cl_snapshot_tag cl) memory w = (Inl e, w1)"
    "classify_create_error e = NodeFault b"
    using Cons.prems(1) by (metis prod.collapse)
  obtain m w2 where rest: "create_loop k memory now is m ?cl4 w2 = (r, cl', w')"
    using Cons.prems(4) c k by (auto simp: Let_def)
  have adm: "\<forall>j \<in> set is. j < length (cl_nodes ?cl4) \<and> admissible (cl_nodes ?cl4 ! j) now"
    using Cons.prems(2,3) n4 len by auto
  have all: "\<And>url w. \<exists>e b. fst (k_create k url (cl_snapshot_tag ?cl4) memory w) = Inl e
             \<and> classify_create_error e = NodeFault b"
    using Cons.prems(1) iv by simp
  have len4: "length (cl_nodes ?cl4) = length (cl_nodes cl)" "interval_ms ?cl4 = interval_ms cl"
    using len iv by simp_all
  have d: "distinct is" using Cons.prems(2) by simp
  have ih: "(\<exists>e. r = Inl e) \<and> length (cl_nodes cl') = length (cl_nodes cl)
    \<and> (\<forall>j < length (cl_nodes cl).
         if j \<in> set is then struck now (interval_ms cl) (cl_nodes ?cl4 ! j) (cl_nodes cl' ! j)
         else cl_nodes cl' ! j = cl_nodes ?cl4 ! j)"
    using Cons.IH [OF all d adm rest] unfolding len4 .
  show ?case
  proof (intro conjI allI impI)
    fix j
    assume j: "j < length (cl_nodes cl)"
    show "if j \<in> set (i # is) then struck now (interval_ms cl) (cl_nodes cl ! j) (cl_nodes cl' ! j)
         else cl_nodes cl' ! j = cl_nodes cl ! j"
      using ih j st n4 [OF j] Cons.prems(2) by (cases "j = i") auto
  qed (use ih in blast)+
qed

lemma singleton_listI: "x \<in> set xs \<Longrightarrow> length xs = 1 \<Longrightarrow> xs = [x]"
  by (cases xs) auto

lemma all_less_two: "(\<forall>j < Suc (Suc 0). P j) \<longleftrightarrow> P 0 \<and> P 1"
  by (auto simp: less_Suc_eq)

lemma digest_loop_some:
  "fst (digest_loop agree (Some d) ns) \<longleftrightarrow> agree \<and> (\<forall>n \<in> set ns. pf_digest n = Some d)"
  by (induction ns arbitrary: agree) (auto simp: case_prod_beta split: option.splits)

lemma digest_loop_none:
  "fst (digest_loop True None ns) \<longleftrightarrow> (\<exists>d. \<forall>n \<in> set ns. pf_digest n = Some d)"
proof (cases ns)
  case (Cons n ms)
  show ?thesis
  proof (cases "pf_digest n")
    case None
    have "\<not> fst (digest_loop False None ms)"
      by (induction ms) (auto simp: digest_loop_some case_prod_beta split: option.splits)
    then show ?thesis using None Cons by (auto simp: case_prod_beta)
  qed (use Cons in \<open>auto simp: digest_loop_some\<close>)
qed simp

lemma preflight_nodes_urls:
  "map pf_base_url (fst (fst (preflight_nodes k tag ns w))) = map base_url ns"
proof (induction ns arbitrary: w)
  case (Cons n ns)
  obtain e ts w1 where a: "preflight_node_of k tag (base_url n) w = ((e, ts), w1)" by (metis prod.exhaust)
  obtain es later w2 where b: "preflight_nodes k tag ns w1 = ((es, later), w2)" by (metis prod.exhaust)
  have "pf_base_url e = base_url n"
    using a by (auto simp: preflight_node_of_def split: sum.splits option.splits prod.splits if_splits)
  then show ?case using a b Cons.IH [of w1] by simp
qed simp

lemma sample_interval: "interval_ms (sample_cluster s) = 10" "interval_ms (c\<lparr>cl_nodes := ns\<rparr>) = interval_ms c"
  "interval_ms (c\<lparr>cl_cursor := u\<rparr>) = interval_ms c"
  by (simp_all add: interval_ms_def sample_cluster_def)

lemma sample_saturating: "u64_saturating_add 100 10 = 110"
  by (simp add: u64_saturating_add_def)

lemma sample_candidates:
  "candidate_order 100 (sample_cluster LeastInflight) = ([0, 1], (sample_cluster LeastInflight)\<lparr>cl_cursor := 2\<rparr>)"
  "candidate_order 100 (sample_cluster RoundRobin) = ([1, 0], (sample_cluster RoundRobin)\<lparr>cl_cursor := 2\<rparr>)"
  by (simp_all add: candidate_order_def sample_cluster_def admissible_def FAILURE_TRIP_def Let_def)

lemma sample_spec_accepted:
  "check_create_spec sandbox_spec_default supported = Inr ()"
  "check_create_resources sandbox_spec_default True = Inr None"
  by (simp_all add: check_create_spec_def check_create_resources_def sandbox_spec_validate_def
      sandbox_spec_default_def resources_default_def resources_validate_def)

lemmas sample_eval = sample_controller_def sample_cluster_def claim_trial_def claim_trial_cas_def
  inflight_arm_def inflight_drop_def upd_node_def saturating_decrement_def FAILURE_TRIP_def
  reconcile_def admissible_def Let_def

lemma sample_run:
  "create_sandbox (sample_controller (Inr (sample_sandbox ''s'')) []) (sample_cluster LeastInflight) []
   = (Inr (sample_sandbox ''s'', 1), (sample_cluster LeastInflight)
       \<lparr>cl_nodes := [\<lparr>base_url = ''a'', inflight = 0, failures = 3, next_trial_ms = 110\<rparr>,
          \<lparr>base_url = ''b'', inflight = 5, failures = 0, next_trial_ms = 0\<rparr>], cl_cursor := 2\<rparr>, [])"
proof -
  let ?k = "sample_controller (Inr (sample_sandbox ''s'')) []"
  have "interval_ms \<lparr>cl_nodes = ns, cl_snapshot_tag = t, cl_strategy = s, cl_cursor = u, cl_recovery_interval_ms = 10\<rparr> = 10"
    for ns t s u by (simp add: interval_ms_def)
  then have "create_loop ?k None 100 [0, 1] None ((sample_cluster LeastInflight)\<lparr>cl_cursor := 2\<rparr>) []
     = (Inr (sample_sandbox ''s'', 1), (sample_cluster LeastInflight)
       \<lparr>cl_nodes := [\<lparr>base_url = ''a'', inflight = 0, failures = 3, next_trial_ms = 110\<rparr>,
          \<lparr>base_url = ''b'', inflight = 5, failures = 0, next_trial_ms = 0\<rparr>], cl_cursor := 2\<rparr>, [])"
    by (simp add: sample_eval sample_saturating)
  moreover have "k_unix_millis ?k [] = 100" by (simp add: sample_controller_def)
  ultimately show ?thesis
    by (simp add: create_sandbox_def create_sandbox_with_def sample_spec_accepted sample_candidates)
qed

section \<open>Properties\<close>

text \<open>
  C5. In-flight accounting. A create either fails and leaves every node's in-flight counter as it was, or
  succeeds on one node that was admissible at the time of the call, adds exactly one to that node's
  counter and to no other, resets the node's failure counter and gate, and dropping the returned
  sandbox's guard restores the counters.
\<close>

theorem create_accounting:
  assumes "create_sandbox_with k spec cl w = (r, cl', w')"
  shows "case r of
      Inl e \<Rightarrow> loads cl' = loads cl
    | Inr (info, i) \<Rightarrow> i < length (cl_nodes cl) \<and> admissible (cl_nodes cl ! i) (k_unix_millis k w)
        \<and> loads cl' = (loads cl)[i := loads cl ! i + 1]
        \<and> failures (cl_nodes cl' ! i) = 0 \<and> next_trial_ms (cl_nodes cl' ! i) = 0
        \<and> loads (inflight_drop i cl') = loads cl"
proof (cases "(\<exists>e. check_create_spec spec (cluster_capabilities k cl) = Inl e)
     \<or> (\<exists>e. check_create_resources spec True = Inl e)")
  case True
  then show ?thesis using assms by (auto simp: create_sandbox_with_def split: sum.splits)
next
  case False
  let ?now = "k_unix_millis k w"
  obtain m where "create_loop k m ?now (fst (candidate_order ?now cl)) None
      (snd (candidate_order ?now cl)) w = (r, cl', w')"
    using False assms by (auto simp: create_sandbox_with_def Let_def split: sum.splits prod.splits)
  from create_loop_accounting [OF this]
  have acc: "length (cl_nodes cl') = length (cl_nodes cl) \<and> (case r of Inl e \<Rightarrow> loads cl' = loads cl
     | Inr (info, i) \<Rightarrow> i < length (cl_nodes cl) \<and> admissible (cl_nodes cl ! i) ?now
         \<and> loads cl' = (loads cl)[i := loads cl ! i + 1]
         \<and> failures (cl_nodes cl' ! i) = 0 \<and> next_trial_ms (cl_nodes cl' ! i) = 0)"
    by (simp add: candidate_order_set split: sum.splits prod.splits)
  have drop: "loads (inflight_drop i cl') = (loads cl')[i := loads cl' ! i - 1]" if "i < length (cl_nodes cl')" for i
    using that by (simp add: inflight_drop_def upd_node_def map_update saturating_decrement_def)
  have "loads (inflight_drop i cl') = loads cl"
    if "i < length (cl_nodes cl)" "loads cl' = (loads cl)[i := loads cl ! i + 1]" for i
  proof -
    have "loads (inflight_drop i cl') = (loads cl)[i := loads cl ! i]"
      using drop [of i] that conjunct1 [OF acc] by simp
    then show ?thesis by (simp only: list_update_id)
  qed
  then show ?thesis using acc by (auto split: sum.splits)
qed

theorem create_accounting_witness:
  "\<exists>cl'. create_sandbox (sample_controller (Inr (sample_sandbox ''s'')) []) (sample_cluster LeastInflight) []
       = (Inr (sample_sandbox ''s'', 1), cl', [])
     \<and> loads cl' = [0, 5] \<and> loads (inflight_drop 1 cl') = loads (sample_cluster LeastInflight)
     \<and> failures (cl_nodes cl' ! 0) = 3 \<and> failures (cl_nodes cl' ! 1) = 0"
proof -
  obtain cl' where run: "create_sandbox (sample_controller (Inr (sample_sandbox ''s'')) [])
      (sample_cluster LeastInflight) [] = (Inr (sample_sandbox ''s'', 1), cl', [])"
    "failures (cl_nodes cl' ! 0) = 3"
    by (simp add: sample_run)
  from create_accounting [OF this(1) [unfolded create_sandbox_def]] run show ?thesis
    by (auto simp: sample_cluster_def)
qed

text \<open>
  Candidate order. For a cluster with at least one node the candidates of a create are exactly the
  admissible nodes, each once. Under round-robin they follow the rotation that starts at the cursor;
  under least-inflight they are ordered by load, and nodes of equal load keep the rotation order. The
  cursor advances by one and nothing else changes.
\<close>

theorem candidate_order_spec:
  assumes "cl_nodes cl \<noteq> []" "candidate_order now cl = (cs, cl')"
  shows "set cs = {i. i < length (cl_nodes cl) \<and> admissible (cl_nodes cl ! i) now} \<and> distinct cs
    \<and> (let rotation = filter (\<lambda>i. admissible (cl_nodes cl ! i) now)
             (rotate (unat (cl_cursor cl)) [0..<length (cl_nodes cl)])
       in if cl_strategy cl = RoundRobin then cs = rotation
          else sorted (map (\<lambda>i. inflight (cl_nodes cl ! i)) cs)
            \<and> (\<forall>load. filter (\<lambda>i. inflight (cl_nodes cl ! i) = load) cs
                = filter (\<lambda>i. inflight (cl_nodes cl ! i) = load) rotation))
    \<and> cl' = cl\<lparr>cl_cursor := cl_cursor cl + 1\<rparr>"
proof -
  have cs: "cs = fst (candidate_order now cl)" using assms by simp
  let ?k = "\<lambda>i. inflight (cl_nodes cl ! i)" and ?P = "\<lambda>i. admissible (cl_nodes cl ! i) now"
  let ?order = "rotate (unat (cl_cursor cl)) [0..<length (cl_nodes cl)]"
  have stable: "filter (\<lambda>i. ?k i = load) (filter ?P (sort_key ?k ?order))
     = filter (\<lambda>i. ?k i = load) (filter ?P ?order)" for load
  proof -
    have swap: "filter (\<lambda>i. ?k i = load) (filter ?P xs) = filter ?P (filter (\<lambda>i. ?k i = load) xs)" for xs
      by (simp add: conj_commute)
    show ?thesis unfolding swap using sort_key_stable [of ?k load ?order] by simp
  qed
  have sorted: "sorted (map ?k (filter ?P (sort_key ?k ?order)))"
    by (simp add: sorted_filter)
  have cl': "cl' = cl\<lparr>cl_cursor := cl_cursor cl + 1\<rparr>"
    using assms(2) by (simp add: candidate_order_def Let_def)
  show ?thesis
  proof (cases "cl_strategy cl")
    case LeastInflight
    then have "cs = filter ?P (sort_key ?k ?order)" by (simp add: cs candidate_order_eq Let_def)
    with LeastInflight show ?thesis
      using candidate_order_set [of now cl] stable sorted unfolding cs [symmetric] cl' Let_def by simp
  next
    case RoundRobin
    then have "cs = filter ?P ?order" by (simp add: cs candidate_order_eq Let_def)
    with RoundRobin show ?thesis
      using candidate_order_set [of now cl] unfolding cs [symmetric] cl' Let_def by simp
  qed
qed

theorem candidate_order_spec_witness:
  "distinct [1, 0 :: nat] \<and> filter (\<lambda>i. admissible (cl_nodes (sample_cluster RoundRobin) ! i) 100)
     (rotate 1 [0..<2]) = [1, 0]"
proof -
  have "cl_nodes (sample_cluster RoundRobin) \<noteq> []" by (simp add: sample_cluster_def)
  from candidate_order_spec [OF this sample_candidates(2)] show ?thesis
    by (simp add: sample_cluster_def Let_def numeral_2_eq_2)
qed

text \<open>
  Half-open recovery admits one probe. Once a caller has claimed a trial on a tripped node at time
  \<open>now\<close>, no caller wins another claim before \<open>now\<close> plus the recovery interval, and a caller that had
  loaded the gate before loses its compare-and-exchange.
\<close>

theorem half_open_single_probe:
  assumes "i < length (cl_nodes cl)" "failures (cl_nodes cl ! i) \<ge> FAILURE_TRIP"
    and "claim_trial i now cl = (True, cl')"
    and "now \<le> later" "later < u64_saturating_add now (interval_ms cl)"
  shows "claim_trial i later cl' = (False, cl')
    \<and> \<not> admissible (cl_nodes cl' ! i) later
    \<and> claim_trial_cas i (next_trial_ms (cl_nodes cl ! i)) racing cl' = (False, cl')"
proof -
  let ?g = "u64_saturating_add now (interval_ms cl)"
  have gate: "next_trial_ms (cl_nodes cl ! i) \<le> now"
    using assms(2,3) by (auto simp: claim_trial_def Let_def split: if_splits)
  have cl': "cl' = upd_node i (\<lambda>n. n\<lparr>next_trial_ms := ?g\<rparr>) cl"
    using assms(2,3) by (auto simp: claim_trial_def claim_trial_cas_def Let_def split: if_splits)
  have n': "cl_nodes cl' ! i = (cl_nodes cl ! i)\<lparr>next_trial_ms := ?g\<rparr>"
    using assms(1) by (simp add: cl' nth_upd_node)
  have "?g \<noteq> 0" "next_trial_ms (cl_nodes cl ! i) \<noteq> ?g" "now < ?g"
    using assms(4,5) gate by (auto simp: word_less_nat_alt word_le_nat_alt)
  then show ?thesis
    using assms(2,5) n' by (auto simp: claim_trial_def claim_trial_cas_def admissible_def Let_def)
qed

theorem half_open_single_probe_witness:
  "\<exists>cl'. claim_trial 1 100 (sample_cluster RoundRobin) = (True, cl') \<and> claim_trial 1 105 cl' = (False, cl')
     \<and> claim_trial_cas 1 90 100 cl' = (False, cl')"
proof -
  let ?cl = "sample_cluster RoundRobin"
  have n: "1 < length (cl_nodes ?cl)" "FAILURE_TRIP \<le> failures (cl_nodes ?cl ! 1)"
    "next_trial_ms (cl_nodes ?cl ! 1) = 90"
    by (simp_all add: sample_cluster_def FAILURE_TRIP_def)
  obtain cl' where c: "claim_trial 1 100 ?cl = (True, cl')"
    using n by (simp add: claim_trial_def claim_trial_cas_def Let_def)
  from half_open_single_probe [OF n(1,2) c, of 105 100] show ?thesis
    using c n(3) by (simp add: sample_interval sample_saturating)
qed

text \<open>
  A round of failures. When every controller answers a create with a node fault, a create whose
  specification is accepted fails, every node that was admissible has exactly one more failure, and each
  of them that is now tripped is gated for at least one recovery interval; the other nodes are unchanged.
  A failed half-open probe is no exception: it adds a failure like any other attempt.
\<close>

theorem create_failure_strikes:
  assumes "check_create_spec spec (cluster_capabilities k cl) = Inr u"
    and "check_create_resources spec True = Inr memory"
    and "\<And>url w. \<exists>e b. fst (k_create k url (cl_snapshot_tag cl) memory w) = Inl e
           \<and> classify_create_error e = NodeFault b"
    and "create_sandbox_with k spec cl w = (r, cl', w')"
  shows "(\<exists>e. r = Inl e) \<and> length (cl_nodes cl') = length (cl_nodes cl)
    \<and> (\<forall>j < length (cl_nodes cl).
         if admissible (cl_nodes cl ! j) (k_unix_millis k w)
         then struck (k_unix_millis k w) (interval_ms cl) (cl_nodes cl ! j) (cl_nodes cl' ! j)
         else cl_nodes cl' ! j = cl_nodes cl ! j)"
proof -
  let ?now = "k_unix_millis k w"
  let ?cl1 = "snd (candidate_order ?now cl)"
  have loop: "create_loop k memory ?now (fst (candidate_order ?now cl)) None ?cl1 w = (r, cl', w')"
    using assms(1,2,4) by (auto simp: create_sandbox_with_def Let_def split: prod.splits)
  have iv: "interval_ms ?cl1 = interval_ms cl" by (simp add: interval_ms_def)
  have "\<forall>i \<in> set (fst (candidate_order ?now cl)). i < length (cl_nodes ?cl1) \<and> admissible (cl_nodes ?cl1 ! i) ?now"
    by (simp add: candidate_order_set)
  moreover have "\<And>url w. \<exists>e b. fst (k_create k url (cl_snapshot_tag ?cl1) memory w) = Inl e
      \<and> classify_create_error e = NodeFault b"
    using assms(3) by simp
  ultimately show ?thesis
    using create_loop_all_fail [OF _ candidate_order_set(2) _ loop] unfolding iv
    by (auto simp: candidate_order_set)
qed

theorem create_failure_strikes_witness:
  "\<exists>e cl' w'. create_sandbox (sample_controller (Inl Timeout) []) (sample_cluster RoundRobin) [] = (Inl e, cl', w')
     \<and> map failures (cl_nodes cl') = [3, 4]"
proof -
  let ?k = "sample_controller (Inl Timeout) []" and ?cl = "sample_cluster RoundRobin"
  obtain r cl' w' where run: "create_sandbox ?k ?cl [] = (r, cl', w')" by (metis prod.exhaust)
  have "\<exists>e b. fst (k_create ?k url (cl_snapshot_tag ?cl) None w) = Inl e \<and> classify_create_error e = NodeFault b"
    for url w by (auto simp: sample_controller_def)
  from create_failure_strikes [OF sample_spec_accepted this run [unfolded create_sandbox_def]]
  have "(\<exists>e. r = Inl e) \<and> length (cl_nodes cl') = 2 \<and> failures (cl_nodes cl' ! 0) = 3 \<and> failures (cl_nodes cl' ! 1) = 4"
    by (auto simp: sample_cluster_def sample_controller_def admissible_def FAILURE_TRIP_def struck_def all_less_two)
  then show ?thesis using run by (auto simp: length_Suc_conv numeral_2_eq_2)
qed

text \<open>
  Reconciliation deletes at most one sandbox. After an indeterminate failure, with the listing
  \<open>sandboxes\<close>, the only request made is the deletion of a sandbox that boots from the cluster's snapshot
  tag, was created inside the window of the attempt, and is the only entry of the listing to do so;
  with no such entry or with several of them nothing is deleted.
\<close>

theorem reconcile_prefers_a_miss:
  assumes "k_list_sandboxes k url w = (Inr sandboxes, w1)"
  shows "(\<forall>p. orphans (cl_snapshot_tag cl) (started - 1) (k_unix_secs k w + 1) sandboxes = {p} \<longrightarrow>
           reconcile k cl url started w = snd (k_delete_sandbox k url (sb_id (sandboxes ! p)) w1))
    \<and> (card (orphans (cl_snapshot_tag cl) (started - 1) (k_unix_secs k w + 1) sandboxes) \<noteq> 1 \<longrightarrow>
           reconcile k cl url started w = w1)"
proof -
  let ?O = "orphans (cl_snapshot_tag cl) (started - 1) (k_unix_secs k w + 1) sandboxes"
  let ?P = "\<lambda>s. sb_snapshot_tag s = cl_snapshot_tag cl
      \<and> (case sb_created_at_unix s of None \<Rightarrow> False
         | Some created \<Rightarrow> created \<ge> started - 1 \<and> created \<le> k_unix_secs k w + 1)"
  have P: "?P s \<longleftrightarrow> created_in_window (cl_snapshot_tag cl) (started - 1) (k_unix_secs k w + 1) s" for s
    by (auto simp: created_in_window_def split: option.splits)
  have card: "length (filter ?P sandboxes) = card ?O"
    by (simp add: length_filter_conv_card orphans_def P)
  have one: "\<exists>p. ?O = {p} \<and> filter ?P sandboxes = [sandboxes ! p]" if one: "card ?O = 1"
  proof -
    obtain p where p: "?O = {p}" using card_1_singletonE [OF one] by blast
    then have "p < length sandboxes" "?P (sandboxes ! p)" by (auto simp: orphans_def simp flip: P)
    then have "sandboxes ! p \<in> set (filter ?P sandboxes)" by simp
    moreover have "length (filter ?P sandboxes) = 1" using card one by simp
    ultimately have "filter ?P sandboxes = [sandboxes ! p]"
      by (rule singleton_listI)
    then show ?thesis using p by blast
  qed
  show ?thesis
  proof (intro conjI allI impI)
    fix p
    assume "?O = {p}"
    then show "reconcile k cl url started w = snd (k_delete_sandbox k url (sb_id (sandboxes ! p)) w1)"
      using one assms(1) by (auto simp: reconcile_def Let_def)
  next
    assume "card ?O \<noteq> 1"
    then have "length (filter ?P sandboxes) \<noteq> 1" using card by simp
    then show "reconcile k cl url started w = w1"
      using assms(1) by (auto simp: reconcile_def Let_def split: list.splits)
  qed
qed

theorem reconcile_prefers_a_miss_witness:
  "reconcile (sample_controller (Inl Timeout) [sample_sandbox ''x'']) (sample_cluster RoundRobin) ''a'' 50 [] = [''x'']
   \<and> reconcile (sample_controller (Inl Timeout) [sample_sandbox ''x'', sample_sandbox ''y''])
       (sample_cluster RoundRobin) ''a'' 50 [] = []"
proof
  let ?k = "\<lambda>ss. sample_controller (Inl Timeout) ss" and ?cl = "sample_cluster RoundRobin"
  have l: "k_list_sandboxes (?k ss) ''a'' [] = (Inr ss, [])" for ss by (simp add: sample_controller_def)
  have o1: "orphans (cl_snapshot_tag ?cl) (50 - 1) (k_unix_secs (?k ss) [] + 1) [sample_sandbox ''x''] = {0}" for ss
    by (auto simp: orphans_def created_in_window_def sample_sandbox_def sample_cluster_def sample_controller_def)
  have o2: "orphans (cl_snapshot_tag ?cl) (50 - 1) (k_unix_secs (?k ss) [] + 1)
      [sample_sandbox ''x'', sample_sandbox ''y''] = {0, 1}" for ss
    by (auto simp: orphans_def created_in_window_def sample_sandbox_def sample_cluster_def sample_controller_def
        less_Suc_eq nth_Cons')
  show "reconcile (?k [sample_sandbox ''x'']) ?cl ''a'' 50 [] = [''x'']"
    using reconcile_prefers_a_miss [OF l [of "[sample_sandbox ''x'']"], of ?cl 50] o1
    by (simp add: sample_sandbox_def) (simp add: sample_controller_def)
  show "reconcile (?k [sample_sandbox ''x'', sample_sandbox ''y'']) ?cl ''a'' 50 [] = []"
    using reconcile_prefers_a_miss [OF l [of "[sample_sandbox ''x'', sample_sandbox ''y'']"], of ?cl 50] o2 by simp
qed

text \<open>
  Preflight. The report has one entry per node in configured order, and \<open>digests_agree\<close> is set exactly
  when every node reported a digest and all of them are the same.
\<close>

theorem preflight_digests_agree:
  assumes "preflight k cl w = ((nodes, agree, notes), w')"
  shows "map pf_base_url nodes = map base_url (cl_nodes cl)
    \<and> (agree \<longleftrightarrow> (\<exists>d. \<forall>n \<in> set nodes. pf_digest n = Some d))"
proof -
  obtain ns where "preflight_nodes k (cl_snapshot_tag cl) (cl_nodes cl) w = ((nodes, ns), w')"
    "agree = fst (digest_loop True None nodes)"
    using assms by (auto simp: preflight_def split: prod.splits)
  then show ?thesis
    using preflight_nodes_urls [of k "cl_snapshot_tag cl" "cl_nodes cl" w] by (simp add: digest_loop_none)
qed

theorem preflight_digests_agree_witness:
  "\<exists>nodes notes w'. preflight (sample_controller (Inl Timeout) []) (sample_cluster RoundRobin) [] = ((nodes, True, notes), w')
     \<and> map pf_base_url nodes = [''a'', ''b''] \<and> map pf_digest nodes = [Some ''d'', Some ''d'']"
proof -
  obtain nodes notes' w' where run: "preflight (sample_controller (Inl Timeout) []) (sample_cluster RoundRobin) []
      = ((nodes, True, notes'), w')" "map pf_digest nodes = [Some ''d'', Some ''d'']"
    by (simp add: preflight_def preflight_node_of_def sample_cluster_def sample_controller_def eq_ignore_ascii_case_def
        Let_def)
  from preflight_digests_agree [OF run(1)] run show ?thesis by (simp add: sample_cluster_def)
qed

end
