(* ===== verification/Orchestration.thy ===== *)
theory Orchestration
  imports Rfb_Prelude
begin

text \<open>
  Host-side orchestration, \<^verbatim>\<open>rfb-runtime/src/orchestration.rs\<close>: the runtime manager that provisions at
  most one worker per session, applies the provisioning timeout, and cancels and destroys workers with
  bounded retries.

  The methods of the manager are asynchronous. Each is split at its suspension points into segments that
  run under one lock; the segments are functions on the manager's state, and \<open>step\<close> interleaves them for
  any number of concurrent calls. The adapter is outside this code: the outcome of each of its calls is
  any value of its result type, and a clock in milliseconds drives \<open>cleanup_with_retry\<close>. The process-wide
  counter behind \<open>vm_id\<close> is a natural number: it does not wrap within fewer than \<open>2 ^ 64\<close> creations.
\<close>

section \<open>Data\<close>

datatype runtime_backend = Forkd | Vsock | Zeroboot | Fake | Unsupported

record runtime_spec =
  sp_backend :: runtime_backend
  sp_mode :: string
  sp_template_dir :: "string option"
  sp_runtime_binary :: "string option"
  sp_snapshot_tag :: string
  sp_memory_mb :: u32
  sp_disk_mb :: u32
  sp_vcpu :: byte
  sp_max_runtime_seconds :: u64
  sp_provision_timeout_seconds :: u64
  sp_cleanup_timeout_seconds :: u64
  sp_cleanup_max_retries :: u32
  sp_cleanup_backoff_ms :: u64

definition runtime_spec_default :: runtime_spec where
  "runtime_spec_default = \<lparr>sp_backend = Forkd, sp_mode = ''auto'', sp_template_dir = None,
     sp_runtime_binary = None, sp_snapshot_tag = ''rfb'', sp_memory_mb = 32, sp_disk_mb = 32, sp_vcpu = 1,
     sp_max_runtime_seconds = 1800, sp_provision_timeout_seconds = 30, sp_cleanup_timeout_seconds = 10,
     sp_cleanup_max_retries = 2, sp_cleanup_backoff_ms = 100\<rparr>"

record worker_handle =
  wh_worker_id :: string
  wh_workspace :: "string option"
  wh_guest_workspace :: "string option"
  wh_guest_address :: "string option"
  wh_sandbox_id :: "string option"

datatype runtime_error = Provisioning_error string | Timeout_error u64 | Adapter_error string

fun runtime_error_display :: "runtime_error \<Rightarrow> string" where
  "runtime_error_display (Provisioning_error m) = ''runtime provisioning failed: '' @ m"
| "runtime_error_display (Timeout_error n) =
     ''runtime provisioning timed out after '' @ dec_string (unat n) @ '' seconds''"
| "runtime_error_display (Adapter_error m) = ''runtime adapter failed: '' @ m"

datatype runtime_status = Provisioning | Running | Cancelling | Stopped | Failed

record runtime_handle =
  session_id :: string
  vm_id :: string
  backend :: runtime_backend
  status :: runtime_status
  error :: "string option"
  workspace :: "string option"
  worker :: "worker_handle option"

text \<open>The locks of the source are the atomicity of the segments; \<open>lifecycle_lock\<close> is the mutex that
  serialises cancel and destroy.\<close>

record manager =
  m_spec :: runtime_spec
  sessions :: "string \<rightharpoonup> runtime_handle"
  generations :: "string \<rightharpoonup> u64"
  next_id :: nat
  lifecycle_lock :: bool

definition with_adapter :: "runtime_spec \<Rightarrow> manager" where
  "with_adapter spec = \<lparr>m_spec = spec, sessions = Map.empty, generations = Map.empty, next_id = 1,
     lifecycle_lock = False\<rparr>"

section \<open>Creation\<close>

definition get_session :: "string \<Rightarrow> manager \<Rightarrow> runtime_handle option" where
  "get_session i m = sessions m i"

definition generation_of :: "string \<Rightarrow> manager \<Rightarrow> u64" where
  "generation_of i m = (case generations m i of Some g \<Rightarrow> g | None \<Rightarrow> 1)"

definition vm_name :: "nat \<Rightarrow> string" where
  "vm_name n = ''vm-'' @ dec_string n"

definition create_prepare :: "string \<Rightarrow> manager \<Rightarrow> u64 \<times> runtime_handle \<times> manager" where
  "create_prepare i m =
     (generation_of i m,
      \<lparr>session_id = i, vm_id = vm_name (next_id m), backend = sp_backend (m_spec m), status = Provisioning,
       error = None, workspace = None, worker = None\<rparr>,
      m\<lparr>next_id := next_id m + 1\<rparr>)"

definition create_insert :: "string \<Rightarrow> runtime_handle \<Rightarrow> manager \<Rightarrow> runtime_handle option \<times> manager" where
  "create_insert i placeholder m =
     (case sessions m i of
        Some h \<Rightarrow> (Some h, m)
      | None \<Rightarrow> (None, m\<lparr>sessions := (sessions m)(i \<mapsto> placeholder)\<rparr>))"

text \<open>
  What awaiting the provisioning task under the timeout can give: the timeout, a task that was
  cancelled, or the adapter's own result.
\<close>

datatype provision_outcome = Timed_Out | Join_Failed | Adapter_Result "runtime_error + worker_handle"

definition provision_timeout :: "runtime_spec \<Rightarrow> u64" where
  "provision_timeout spec = max (sp_provision_timeout_seconds spec) 1"

fun create_outcome :: "runtime_spec \<Rightarrow> provision_outcome \<Rightarrow> runtime_handle \<Rightarrow> runtime_handle" where
  "create_outcome spec Timed_Out h = h\<lparr>status := Failed, error := Some (''runtime provisioning timed out after ''
     @ dec_string (unat (provision_timeout spec)) @ '' seconds'')\<rparr>"
| "create_outcome spec Join_Failed h =
     h\<lparr>status := Failed, error := Some (runtime_error_display (Adapter_error ''provision task cancelled''))\<rparr>"
| "create_outcome spec (Adapter_Result (Inr w)) h =
     h\<lparr>status := Running, workspace := wh_workspace w, worker := Some w\<rparr>"
| "create_outcome spec (Adapter_Result (Inl e)) h =
     h\<lparr>status := Failed, error := Some (runtime_error_display e)\<rparr>"

text \<open>The final table update. The third component is the worker handed to a detached destroy task.\<close>

definition create_finish ::
  "string \<Rightarrow> u64 \<Rightarrow> runtime_handle \<Rightarrow> manager \<Rightarrow> runtime_handle \<times> manager \<times> worker_handle option" where
  "create_finish i generation h m =
     (if generation_of i m = generation \<and> map_option vm_id (sessions m i) = Some (vm_id h)
      then (h, m\<lparr>sessions := (sessions m)(i \<mapsto> h)\<rparr>, None)
      else (case worker h of
          None \<Rightarrow> (h, m, None)
        | Some w \<Rightarrow>
           (let h1 = h\<lparr>worker := None\<rparr>;
                stale_placeholder = (case sessions m i of None \<Rightarrow> False
                   | Some x \<Rightarrow> vm_id x = vm_id h1 \<and> status x = Provisioning);
                m1 = (if stale_placeholder then m\<lparr>sessions := (sessions m)(i := None)\<rparr> else m);
                h2 = (case sessions m1 i of Some current \<Rightarrow> current | None \<Rightarrow> h1)
            in (h2, m1, Some w))))"

section \<open>Cancel and destroy\<close>

definition bump_generation :: "string \<Rightarrow> manager \<Rightarrow> manager" where
  "bump_generation i m = m\<lparr>generations := (generations m)(i \<mapsto> generation_of i m + 1)\<rparr>"

definition cancel_mark :: "string \<Rightarrow> manager \<Rightarrow> manager option" where
  "cancel_mark i m =
     (case sessions m i of None \<Rightarrow> None
      | Some h \<Rightarrow> Some (m\<lparr>sessions := (sessions m)(i \<mapsto> h\<lparr>status := Cancelling\<rparr>)\<rparr>))"

definition cancel_end :: "string \<Rightarrow> runtime_error option \<Rightarrow> manager \<Rightarrow> runtime_handle option \<times> manager" where
  "cancel_end i cleanup_error m =
     (case sessions m i of None \<Rightarrow> (None, m)
      | Some h \<Rightarrow>
         (let h1 = h\<lparr>status := if cleanup_error \<noteq> None then Failed else Stopped,
                      error := map_option runtime_error_display cleanup_error\<rparr>
          in (Some h1, m\<lparr>sessions := (sessions m)(i \<mapsto> h1)\<rparr>)))"

definition destroy_remove :: "string \<Rightarrow> manager \<Rightarrow> runtime_handle option \<times> manager" where
  "destroy_remove i m = (sessions m i, m\<lparr>sessions := (sessions m)(i := None)\<rparr>)"

definition destroy_result :: "runtime_handle \<Rightarrow> runtime_error + unit \<Rightarrow> runtime_handle" where
  "destroy_result h r =
     (if worker h = None then h
      else (case r of Inl e \<Rightarrow> h\<lparr>status := Failed, error := Some (runtime_error_display e)\<rparr>
            | Inr _ \<Rightarrow> h\<lparr>status := Stopped\<rparr>))"

section \<open>Calls without interference\<close>

text \<open>The methods as a single caller sees them, with the outcomes of the adapter as arguments.\<close>

definition create_for_session ::
  "provision_outcome \<Rightarrow> string \<Rightarrow> manager \<Rightarrow> runtime_handle \<times> manager \<times> worker_handle option" where
  "create_for_session out i m =
     (case get_session i m of
        Some h \<Rightarrow> (h, m, None)
      | None \<Rightarrow> (case create_prepare i m of (generation, placeholder, m1) \<Rightarrow>
         (case create_insert i placeholder m1 of
            (Some h, m2) \<Rightarrow> (h, m2, None)
          | (None, m2) \<Rightarrow> create_finish i generation (create_outcome (m_spec m) out placeholder) m2)))"

definition cancel_for_session ::
  "(worker_handle \<Rightarrow> runtime_error + unit) \<Rightarrow> string \<Rightarrow> manager \<Rightarrow> runtime_handle option \<times> manager" where
  "cancel_for_session cleanup i m =
     (let m1 = bump_generation i m in
      case sessions m1 i of
        None \<Rightarrow> (None, m1)
      | Some h \<Rightarrow> (case cancel_mark i m1 of
          None \<Rightarrow> (None, m1)
        | Some m2 \<Rightarrow> cancel_end i (case worker h of None \<Rightarrow> None
             | Some w \<Rightarrow> (case cleanup w of Inl e \<Rightarrow> Some e | Inr _ \<Rightarrow> None)) m2))"

definition destroy_for_session ::
  "(worker_handle \<Rightarrow> runtime_error + unit) \<Rightarrow> string \<Rightarrow> manager \<Rightarrow> runtime_handle option \<times> manager" where
  "destroy_for_session cleanup i m =
     (case destroy_remove i (bump_generation i m) of
        (None, m1) \<Rightarrow> (None, m1)
      | (Some h, m1) \<Rightarrow>
          (Some (case worker h of None \<Rightarrow> h | Some w \<Rightarrow> destroy_result h (cleanup w)), m1))"

section \<open>Cleanup with retries\<close>

text \<open>
  \<open>op n\<close> is the \<open>n\<close>-th invocation: its result and how long it takes in milliseconds. The timeout
  polls the operation before the timer, so an operation that ends with the deadline still counts.
  The result is given with the time of return and the number of invocations made.
\<close>

definition backoff :: "u64 \<Rightarrow> nat \<Rightarrow> nat" where
  "backoff backoff_ms i = min (unat backoff_ms * 2 ^ (min i 6)) (2 ^ 64 - 1)"

fun cleanup_loop ::
  "(nat \<Rightarrow> (runtime_error + unit) \<times> nat) \<Rightarrow> u64 \<Rightarrow> u64 \<Rightarrow> nat \<Rightarrow> nat \<Rightarrow> nat \<Rightarrow> runtime_error option \<Rightarrow> nat
     \<Rightarrow> (runtime_error + unit) \<times> nat \<times> nat" where
  "cleanup_loop op timeout_seconds backoff_ms deadline i retries last_error now =
     (let left = deadline - now;
          gave_up = Inl (case last_error of Some e \<Rightarrow> e | None \<Rightarrow> Adapter_error ''cleanup failed'')
      in if left = 0 then (gave_up, now, i)
         else (let (r, t) = op i;
                   now1 = now + min t left;
                   r1 = (if t \<le> left then r else Inl (Timeout_error timeout_seconds))
               in case r1 of
                    Inr _ \<Rightarrow> (Inr (), now1, i + 1)
                  | Inl e \<Rightarrow>
                     (case retries of
                        0 \<Rightarrow> (Inl e, now1, i + 1)
                      | Suc n \<Rightarrow>
                         (let remaining = deadline - now1
                          in if remaining = 0 then (Inl e, now1, i + 1)
                             else cleanup_loop op timeout_seconds backoff_ms deadline (i + 1) n (Some e)
                                    (now1 + min (backoff backoff_ms i) remaining)))))"

definition cleanup_with_retry ::
  "u64 \<Rightarrow> u32 \<Rightarrow> u64 \<Rightarrow> (nat \<Rightarrow> (runtime_error + unit) \<times> nat) \<Rightarrow> nat \<Rightarrow> (runtime_error + unit) \<times> nat \<times> nat" where
  "cleanup_with_retry timeout_seconds max_retries backoff_ms op now =
     cleanup_loop op timeout_seconds backoff_ms (now + 1000 * unat (max timeout_seconds 1)) 0
       (unat max_retries) None now"

section \<open>Interleaved calls\<close>

text \<open>
  A call between two segments. \<open>tasks\<close> holds the detached tasks: a provisioning task that outlived its
  timeout, watched by a reaper, and a worker to be destroyed. \<open>started\<close>, \<open>made\<close> and \<open>destroyed\<close> record
  which provisionings were started, which of them gave a worker, and which workers the adapter was
  asked to destroy.
\<close>

datatype call =
    Create_Get string
  | Create_Prepare string
  | Create_Insert string u64 runtime_handle
  | Create_Await string u64 runtime_handle
  | Create_Finish string u64 runtime_handle
  | Cancel_Read string
  | Cancel_Mark string "worker_handle option"
  | Cancel_Clean string "worker_handle option"
  | Cancel_End string "runtime_error option"
  | Destroy_Remove string
  | Destroy_Clean runtime_handle
  | Done "runtime_handle option"

datatype task = Reaper string | Destroyer string worker_handle

record sys =
  mgr :: manager
  calls :: "nat \<rightharpoonup> call"
  tasks :: "task set"
  started :: "(string \<times> string) list"
  made :: "(string \<times> worker_handle) list"
  destroyed :: "(string \<times> worker_handle) list"

definition sys_start :: "runtime_spec \<Rightarrow> sys" where
  "sys_start spec = \<lparr>mgr = with_adapter spec, calls = Map.empty, tasks = {}, started = [], made = [], destroyed = []\<rparr>"

definition goto :: "nat \<Rightarrow> call \<Rightarrow> manager \<Rightarrow> sys \<Rightarrow> sys" where
  "goto c k m s = s\<lparr>mgr := m, calls := (calls s)(c \<mapsto> k)\<rparr>"

abbreviation unlock :: "manager \<Rightarrow> manager" where
  "unlock m \<equiv> m\<lparr>lifecycle_lock := False\<rparr>"

definition made_by :: "string \<Rightarrow> provision_outcome \<Rightarrow> (string \<times> worker_handle) list" where
  "made_by vm out = (case out of Adapter_Result (Inr w) \<Rightarrow> [(vm, w)] | _ \<Rightarrow> [])"

inductive step :: "sys \<Rightarrow> sys \<Rightarrow> bool" where
  create_call: "calls s c = None \<Longrightarrow> step s (goto c (Create_Get i) (mgr s) s)"
| create_hit: "calls s c = Some (Create_Get i) \<Longrightarrow> get_session i (mgr s) = Some h \<Longrightarrow>
     step s (goto c (Done (Some h)) (mgr s) s)"
| create_miss: "calls s c = Some (Create_Get i) \<Longrightarrow> get_session i (mgr s) = None \<Longrightarrow>
     step s (goto c (Create_Prepare i) (mgr s) s)"
| create_prepared: "calls s c = Some (Create_Prepare i) \<Longrightarrow> create_prepare i (mgr s) = (g, h, m) \<Longrightarrow>
     step s (goto c (Create_Insert i g h) m s)"
| create_shared: "calls s c = Some (Create_Insert i g h) \<Longrightarrow> create_insert i h (mgr s) = (Some h', m) \<Longrightarrow>
     step s (goto c (Done (Some h')) m s)"
| create_started: "calls s c = Some (Create_Insert i g h) \<Longrightarrow> create_insert i h (mgr s) = (None, m) \<Longrightarrow>
     step s ((goto c (Create_Await i g h) m s)\<lparr>started := (i, vm_id h) # started s\<rparr>)"
| create_awaited: "calls s c = Some (Create_Await i g h) \<Longrightarrow>
     step s ((goto c (Create_Finish i g (create_outcome (m_spec (mgr s)) out h)) (mgr s) s)
       \<lparr>made := made_by (vm_id h) out @ made s,
        tasks := (if out = Timed_Out then insert (Reaper (vm_id h)) (tasks s) else tasks s)\<rparr>)"
| create_finished: "calls s c = Some (Create_Finish i g h) \<Longrightarrow> create_finish i g h (mgr s) = (h', m, d) \<Longrightarrow>
     step s ((goto c (Done (Some h')) m s)
       \<lparr>tasks := (case d of None \<Rightarrow> tasks s | Some w \<Rightarrow> insert (Destroyer (vm_id h) w) (tasks s))\<rparr>)"
| reaped: "Reaper vm \<in> tasks s \<Longrightarrow> out \<noteq> Timed_Out \<Longrightarrow>
     step s (s\<lparr>made := made_by vm out @ made s,
       tasks := (tasks s - {Reaper vm}) \<union> {Destroyer vm w | w. (vm, w) \<in> set (made_by vm out)}\<rparr>)"
| task_destroyed: "Destroyer vm w \<in> tasks s \<Longrightarrow>
     step s (s\<lparr>tasks := tasks s - {Destroyer vm w}, destroyed := (vm, w) # destroyed s\<rparr>)"
| cancel_call: "calls s c = None \<Longrightarrow> \<not> lifecycle_lock (mgr s) \<Longrightarrow>
     step s (goto c (Cancel_Read i) ((bump_generation i (mgr s))\<lparr>lifecycle_lock := True\<rparr>) s)"
| cancel_read: "calls s c = Some (Cancel_Read i) \<Longrightarrow>
     step s (case sessions (mgr s) i of
         None \<Rightarrow> goto c (Done None) (unlock (mgr s)) s
       | Some h \<Rightarrow> goto c (Cancel_Mark i (worker h)) (mgr s) s)"
| cancel_marked: "calls s c = Some (Cancel_Mark i w) \<Longrightarrow>
     step s (case cancel_mark i (mgr s) of
         None \<Rightarrow> goto c (Done None) (unlock (mgr s)) s
       | Some m \<Rightarrow> goto c (Cancel_Clean i w) m s)"
| cancel_cleaned: "calls s c = Some (Cancel_Clean i w) \<Longrightarrow> (w = None \<longrightarrow> e = None) \<Longrightarrow>
     step s (goto c (Cancel_End i e) (mgr s) s)"
| cancel_ended: "calls s c = Some (Cancel_End i e) \<Longrightarrow> cancel_end i e (mgr s) = (h, m) \<Longrightarrow>
     step s (goto c (Done h) (unlock m) s)"
| destroy_call: "calls s c = None \<Longrightarrow> \<not> lifecycle_lock (mgr s) \<Longrightarrow>
     step s (goto c (Destroy_Remove i) ((bump_generation i (mgr s))\<lparr>lifecycle_lock := True\<rparr>) s)"
| destroy_removed: "calls s c = Some (Destroy_Remove i) \<Longrightarrow> destroy_remove i (mgr s) = (r, m) \<Longrightarrow>
     step s (case r of
         None \<Rightarrow> goto c (Done None) (unlock m) s
       | Some h \<Rightarrow> goto c (Destroy_Clean h) m s)"
| destroy_cleaned: "calls s c = Some (Destroy_Clean h) \<Longrightarrow>
     step s ((goto c (Done (Some (destroy_result h r))) (unlock (mgr s)) s)
       \<lparr>destroyed := (case worker h of None \<Rightarrow> destroyed s | Some w \<Rightarrow> (vm_id h, w) # destroyed s)\<rparr>)"

section \<open>Where the workers are\<close>

fun pending :: "call \<Rightarrow> string option" where
  "pending (Create_Insert i g h) = Some (vm_id h)"
| "pending (Create_Await i g h) = Some (vm_id h)"
| "pending (Create_Finish i g h) = Some (vm_id h)"
| "pending _ = None"

text \<open>
  \<open>fresh\<close>: the identifiers of pending creations are allocated, distinct, and no table entry that carries
  one of them has a worker yet. \<open>unmade\<close>: before the adapter has answered, a placeholder has no worker.
\<close>

definition allocated :: "manager \<Rightarrow> string \<Rightarrow> bool" where
  "allocated m v \<longleftrightarrow> (\<exists>n < next_id m. v = vm_name n)"

definition fresh :: "sys \<Rightarrow> bool" where
  "fresh s \<longleftrightarrow>
     (\<forall>c k v. calls s c = Some k \<and> pending k = Some v \<longrightarrow> allocated (mgr s) v
        \<and> (\<forall>c' k'. calls s c' = Some k' \<and> pending k' = Some v \<longrightarrow> c' = c)
        \<and> (\<forall>i h. sessions (mgr s) i = Some h \<and> vm_id h = v \<longrightarrow> worker h = None))
     \<and> (\<forall>i h. sessions (mgr s) i = Some h \<longrightarrow> allocated (mgr s) (vm_id h))"

definition unmade :: "sys \<Rightarrow> bool" where
  "unmade s \<longleftrightarrow> (\<forall>c i g h. calls s c = Some (Create_Insert i g h) \<or> calls s c = Some (Create_Await i g h)
     \<longrightarrow> worker h = None)"

text \<open>The places where a provisioned worker can be.\<close>

definition located :: "sys \<Rightarrow> string \<Rightarrow> worker_handle \<Rightarrow> bool" where
  "located s vm w \<longleftrightarrow>
     (\<exists>i h. sessions (mgr s) i = Some h \<and> vm_id h = vm \<and> worker h = Some w)
     \<or> (\<exists>c i g h. calls s c = Some (Create_Finish i g h) \<and> vm_id h = vm \<and> worker h = Some w)
     \<or> (\<exists>c h. calls s c = Some (Destroy_Clean h) \<and> vm_id h = vm \<and> worker h = Some w)
     \<or> Destroyer vm w \<in> tasks s \<or> (vm, w) \<in> set (destroyed s)"

definition accounted :: "sys \<Rightarrow> bool" where
  "accounted s \<longleftrightarrow> (\<forall>vm w. (vm, w) \<in> set (made s) \<longrightarrow> located s vm w)"

lemma vm_name_inj [simp]: "vm_name a = vm_name b \<longleftrightarrow> a = b"
  by (metis vm_name_def append_same_eq same_append_eq digits_value_dec_string)

lemma goto_simps [simp]:
  "mgr (goto c k m s) = m" "calls (goto c k m s) = (calls s)(c \<mapsto> k)" "tasks (goto c k m s) = tasks s"
  "started (goto c k m s) = started s" "made (goto c k m s) = made s" "destroyed (goto c k m s) = destroyed s"
  by (simp_all add: goto_def)

lemma create_outcome_keeps [simp]: "vm_id (create_outcome spec out h) = vm_id h"
  by (induction spec out h rule: create_outcome.induct) simp_all

text \<open>
  A step of one call keeps \<open>fresh\<close> when the call has no new identifier and every table entry afterwards is
  an old one up to its status, or carries the identifier of the call itself.
\<close>

lemma fresh_call:
  assumes "fresh s" "calls s' = (calls s)(c \<mapsto> k')" "next_id (mgr s') = next_id (mgr s)"
    and "pending k' = None \<or> (\<exists>k. calls s c = Some k \<and> pending k = pending k')"
    and "\<And>j h. sessions (mgr s') j = Some h \<Longrightarrow>
       (\<exists>h0. sessions (mgr s) j = Some h0 \<and> vm_id h = vm_id h0 \<and> worker h = worker h0)
       \<or> (\<exists>k. calls s c = Some k \<and> pending k = Some (vm_id h) \<and> (pending k' = None \<or> worker h = None))"
  shows "fresh s'"
proof -
  have alloc: "allocated (mgr s') v = allocated (mgr s) v" for v by (simp add: allocated_def assms(3))
  have old: "\<exists>k. calls s d = Some k \<and> pending k = Some v" if "calls s' d = Some x" "pending x = Some v" for d x v
    using that assms(2,4) by (auto split: if_splits)
  show ?thesis
    unfolding fresh_def alloc
  proof (intro conjI allI impI; (elim conjE)?)
    fix d x v
    assume dx: "calls s' d = Some x" "pending x = Some v"
    then obtain k where k: "calls s d = Some k" "pending k = Some v" using old by blast
    then show "allocated (mgr s) v" using assms(1) by (auto simp: fresh_def)
    show "c' = d" if "calls s' c' = Some k'" "pending k' = Some v" for c' k'
      using old [OF that] k assms(1) unfolding fresh_def by metis
    show "worker h = None" if h: "sessions (mgr s') i = Some h" "vm_id h = v" for i h
      using assms(5) [OF h(1)]
    proof
      assume "\<exists>h0. sessions (mgr s) i = Some h0 \<and> vm_id h = vm_id h0 \<and> worker h = worker h0"
      then show ?thesis using k h(2) assms(1) unfolding fresh_def by metis
    next
      assume "\<exists>k. calls s c = Some k \<and> pending k = Some (vm_id h) \<and> (pending k' = None \<or> worker h = None)"
      then obtain k0 where k0: "calls s c = Some k0" "pending k0 = Some v" "pending k' = None \<or> worker h = None"
        using h(2) by blast
      then have "d = c" using k assms(1) unfolding fresh_def by metis
      then show ?thesis using k0(3) dx assms(2) by auto
    qed
  next
    fix i h
    assume "sessions (mgr s') i = Some h"
    from assms(5) [OF this] show "allocated (mgr s) (vm_id h)"
      using assms(1) unfolding fresh_def by metis
  qed
qed

text \<open>Most segments leave identifiers and workers of the table as they are.\<close>

definition same_workers :: "manager \<Rightarrow> manager \<Rightarrow> bool" where
  "same_workers m m' \<longleftrightarrow> next_id m' = next_id m
     \<and> (\<forall>j. map_option (\<lambda>h. (vm_id h, worker h)) (sessions m' j) = map_option (\<lambda>h. (vm_id h, worker h)) (sessions m j))"

lemma same_workersD:
  "same_workers m m' \<Longrightarrow> sessions m' j = Some h \<Longrightarrow>
     \<exists>h0. sessions m j = Some h0 \<and> vm_id h = vm_id h0 \<and> worker h = worker h0"
  "same_workers m m' \<Longrightarrow> sessions m j = Some h0 \<Longrightarrow>
     \<exists>h. sessions m' j = Some h \<and> vm_id h = vm_id h0 \<and> worker h = worker h0"
proof -
  let ?p = "map_option (\<lambda>h. (vm_id h, worker h))"
  assume m: "same_workers m m'"
  then have eq: "?p (sessions m' j) = ?p (sessions m j)" by (simp add: same_workers_def)
  show "\<exists>h0. sessions m j = Some h0 \<and> vm_id h = vm_id h0 \<and> worker h = worker h0" if "sessions m' j = Some h"
    using eq that by (cases "sessions m j") auto
  show "\<exists>h. sessions m' j = Some h \<and> vm_id h = vm_id h0 \<and> worker h = worker h0" if "sessions m j = Some h0"
    using eq that by (cases "sessions m' j") auto
qed

lemma same_workers_simps [simp]:
  "same_workers m m" "same_workers m (unlock m') = same_workers m m'"
  "same_workers m ((bump_generation i m)\<lparr>lifecycle_lock := b\<rparr>)"
  by (simp_all add: same_workers_def bump_generation_def)

lemma same_workers_cancel:
  "cancel_mark i m = Some m' \<Longrightarrow> same_workers m m'"
  "cancel_end i e m = (r, m') \<Longrightarrow> same_workers m m'"
  by (auto simp: cancel_mark_def cancel_end_def same_workers_def Let_def split: option.splits)

lemma fresh_ghost [simp]:
  "fresh (s\<lparr>tasks := t\<rparr>) = fresh s" "fresh (s\<lparr>made := l\<rparr>) = fresh s" "fresh (s\<lparr>destroyed := l\<rparr>) = fresh s"
  by (simp_all add: fresh_def)

lemma fresh_same:
  assumes "fresh s" "pending k' = None \<or> (\<exists>k. calls s c = Some k \<and> pending k = pending k')"
    "same_workers (mgr s) (mgr s')" "calls s' = (calls s)(c \<mapsto> k')"
  shows "fresh s'"
proof (rule fresh_call [OF assms(1,4) _ assms(2)])
  show "next_id (mgr s') = next_id (mgr s)" using assms(3) by (simp add: same_workers_def)
qed (use same_workersD(1) [OF assms(3)] in blast)

lemma fresh_prepare:
  assumes "fresh s" "calls s c = Some (Create_Prepare i)" "create_prepare i (mgr s) = (g, h, m)"
  shows "fresh (goto c (Create_Insert i g h) m s)"
proof -
  have m: "m = (mgr s)\<lparr>next_id := next_id (mgr s) + 1\<rparr>" "vm_id h = vm_name (next_id (mgr s))"
    using assms(3) by (auto simp: create_prepare_def)
  have new: "\<not> allocated (mgr s) (vm_id h)" by (auto simp: allocated_def m)
  have grow: "allocated (mgr s) v \<Longrightarrow> allocated m v" for v by (auto simp: allocated_def m)
  have "allocated m (vm_id h)" by (auto simp: allocated_def m)
  moreover have "vm_id h' \<noteq> vm_id h" if "sessions (mgr s) j = Some h'" for j h'
    using that assms(1) new unfolding fresh_def by metis
  moreover have "pending k \<noteq> Some (vm_id h)" if "calls s d = Some k" for d k
    using that assms(1) new unfolding fresh_def by metis
  ultimately show ?thesis
    using assms(1) grow unfolding fresh_def
    by (auto simp: m(1) split: if_splits)
qed

lemma step_unmade: "step s s' \<Longrightarrow> unmade s \<Longrightarrow> unmade s'"
  by (induction rule: step.induct)
    (auto simp: unmade_def create_prepare_def split: option.splits if_splits)

lemma create_finish_table:
  assumes "create_finish i g h m = (h', m', d)"
  shows "next_id m' = next_id m" "generations m' = generations m"
    "sessions m' j = Some x \<Longrightarrow> sessions m j = Some x \<or> x = h"
  using assms by (auto simp: create_finish_def Let_def split: option.splits if_splits)

lemma step_fresh: "step s s' \<Longrightarrow> fresh s \<Longrightarrow> unmade s \<Longrightarrow> fresh s'"
proof (induction rule: step.induct)
  case (create_prepared s c i g h m)
  then show ?case by (simp add: fresh_prepare)
next
  case (create_started s c i g h m)
  have w: "worker h = None" using create_started by (auto simp: unmade_def)
  have m: "m = (mgr s)\<lparr>sessions := (sessions (mgr s))(i \<mapsto> h)\<rparr>"
    using create_started(2) by (auto simp: create_insert_def split: option.splits)
  let ?s' = "(goto c (Create_Await i g h) m s)\<lparr>started := (i, vm_id h) # started s\<rparr>"
  show ?case
  proof (rule fresh_call [OF create_started.prems(1), of ?s' c "Create_Await i g h"])
    show "(\<exists>h0. sessions (mgr s) j = Some h0 \<and> vm_id x = vm_id h0 \<and> worker x = worker h0)
       \<or> (\<exists>k. calls s c = Some k \<and> pending k = Some (vm_id x)
            \<and> (pending (Create_Await i g h) = None \<or> worker x = None))"
      if "sessions (mgr ?s') j = Some x" for j x
      using that w create_started(1) by (auto simp: m split: if_splits)
  qed (use create_started(1) m in simp_all)
next
  case (create_finished s c i g h h' m d)
  let ?s' = "(goto c (Done (Some h')) m s)
    \<lparr>tasks := (case d of None \<Rightarrow> tasks s | Some w \<Rightarrow> insert (Destroyer (vm_id h) w) (tasks s))\<rparr>"
  note table = create_finish_table [OF create_finished(2)]
  show ?case
  proof (rule fresh_call [OF create_finished.prems(1), of ?s' c "Done (Some h')"])
    show "next_id (mgr ?s') = next_id (mgr s)" using table(1) by simp
    show "(\<exists>h0. sessions (mgr s) j = Some h0 \<and> vm_id x = vm_id h0 \<and> worker x = worker h0)
       \<or> (\<exists>k. calls s c = Some k \<and> pending k = Some (vm_id x) \<and> (pending (Done (Some h')) = None \<or> worker x = None))"
      if "sessions (mgr ?s') j = Some x" for j x
      using that table(3) [of j x] create_finished(1) by auto
  qed simp_all
next
  case (reaped vm s out)
  then show ?case by simp
next
  case (task_destroyed vm w s)
  then show ?case by simp
next
  case (destroy_removed s c i r m)
  have m: "m = (mgr s)\<lparr>sessions := (sessions (mgr s))(i := None)\<rparr>"
    using destroy_removed by (simp add: destroy_remove_def)
  show ?case
  proof (cases r)
    case None
    show ?thesis unfolding None option.case
      by (rule fresh_call [OF destroy_removed.prems(1), of _ c "Done None"]) (auto simp: m split: if_splits)
  next
    case (Some h)
    show ?thesis unfolding Some option.case
      by (rule fresh_call [OF destroy_removed.prems(1), of _ c "Destroy_Clean h"]) (auto simp: m split: if_splits)
  qed
next
  case (create_shared s c i g h h' m)
  then have "m = mgr s" by (auto simp: create_insert_def split: option.splits)
  then show ?case by (intro fresh_same [OF create_shared.prems(1), of "Done (Some h')" c]) simp_all
next
  case (cancel_read s c i)
  show ?case
    by (cases "sessions (mgr s) i"; rule fresh_same [OF cancel_read.prems(1), of _ c]) simp_all
next
  case (cancel_marked s c i w)
  show ?case
    by (cases "cancel_mark i (mgr s)"; rule fresh_same [OF cancel_marked.prems(1), of _ c])
      (simp_all add: same_workers_cancel)
next
  case (cancel_ended s c i e h m)
  show ?case
    by (rule fresh_same [OF cancel_ended.prems(1), of _ c])
      (simp_all add: same_workers_cancel(2) [OF cancel_ended(2)])
qed (rule fresh_same, assumption, (simp_all)[3])+

lemma locatedI:
  "sessions (mgr s) i = Some h \<Longrightarrow> vm_id h = vm \<Longrightarrow> worker h = Some w \<Longrightarrow> located s vm w"
  "calls s c = Some (Create_Finish i g h) \<Longrightarrow> vm_id h = vm \<Longrightarrow> worker h = Some w \<Longrightarrow> located s vm w"
  "calls s c = Some (Destroy_Clean h) \<Longrightarrow> vm_id h = vm \<Longrightarrow> worker h = Some w \<Longrightarrow> located s vm w"
  "Destroyer vm w \<in> tasks s \<Longrightarrow> located s vm w"
  "(vm, w) \<in> set (destroyed s) \<Longrightarrow> located s vm w"
  unfolding located_def by blast+

text \<open>
  A step keeps every worker located when the call that moved did not carry one, and the table only
  loses entries without a worker, which all steps but the last ones of create and destroy do.
\<close>

lemma located_call:
  assumes "located s vm w" "calls s' = (calls s)(c \<mapsto> k')"
    and "\<And>i g h. calls s c = Some (Create_Finish i g h) \<Longrightarrow> vm_id h = vm \<Longrightarrow> worker h = Some w \<Longrightarrow> located s' vm w"
    and "\<And>h. calls s c = Some (Destroy_Clean h) \<Longrightarrow> vm_id h = vm \<Longrightarrow> worker h = Some w \<Longrightarrow> located s' vm w"
    and "\<And>j h. sessions (mgr s) j = Some h \<Longrightarrow> vm_id h = vm \<Longrightarrow> worker h = Some w \<Longrightarrow> located s' vm w"
    and "tasks s \<subseteq> tasks s'" "set (destroyed s) \<subseteq> set (destroyed s')"
  shows "located s' vm w"
  using assms(1) unfolding located_def [of s]
proof (elim disjE exE conjE)
  fix d i g h
  assume "calls s d = Some (Create_Finish i g h)" "vm_id h = vm" "worker h = Some w"
  then show ?thesis using assms(2,3) locatedI(2) [of s' d i g h vm w] by (cases "d = c") auto
next
  fix d h
  assume "calls s d = Some (Destroy_Clean h)" "vm_id h = vm" "worker h = Some w"
  then show ?thesis using assms(2,4) locatedI(3) [of s' d h vm w] by (cases "d = c") auto
qed (use assms(5-7) in \<open>auto intro: locatedI(4,5)\<close>)

lemma located_finished:
  assumes "located s vm w" "fresh s" "calls s c = Some (Create_Finish i g h)"
    "create_finish i g h (mgr s) = (h', m, d)"
  shows "located ((goto c (Done (Some h')) m s)
     \<lparr>tasks := (case d of None \<Rightarrow> tasks s | Some w \<Rightarrow> insert (Destroyer (vm_id h) w) (tasks s))\<rparr>) vm w"
    (is "located ?s' vm w")
proof (rule located_call [OF assms(1), of _ c "Done (Some h')"])
  have here: "worker h = Some w \<Longrightarrow> vm_id h = vm \<Longrightarrow> located ?s' vm w"
    using assms(4) by (auto simp: create_finish_def Let_def located_def split: if_splits option.splits)
  show "located ?s' vm w" if "calls s c = Some (Create_Finish i1 g1 h1)" "vm_id h1 = vm" "worker h1 = Some w"
    for i1 g1 h1 using that assms(3) here by simp
  show "located ?s' vm w" if x: "sessions (mgr s) j = Some x" "vm_id x = vm" "worker x = Some w" for j x
  proof -
    have "vm_id x \<noteq> vm_id h" using assms(2,3) x unfolding fresh_def by (metis option.distinct(1) pending.simps(3))
    then have "sessions m j = Some x"
      using assms(4) x(1) by (auto simp: create_finish_def Let_def split: if_splits option.splits)
    then show ?thesis using x by (intro locatedI(1) [of _ j x]) simp_all
  qed
qed (use assms(3) in \<open>auto split: option.splits\<close>)

fun carries :: "call \<Rightarrow> bool" where
  "carries (Create_Finish i g h) = True"
| "carries (Destroy_Clean h) = True"
| "carries _ = False"

lemma located_quiet:
  assumes "located s vm w" "calls s' = (calls s)(c \<mapsto> k')" "pred_option (\<lambda>k. \<not> carries k) (calls s c)"
    and "same_workers (mgr s) (mgr s')" "tasks s \<subseteq> tasks s'" "destroyed s' = destroyed s"
  shows "located s' vm w"
proof (rule located_call [OF assms(1,2)])
  show "located s' vm w" if "sessions (mgr s) j = Some h" "vm_id h = vm" "worker h = Some w" for j h
    using same_workersD(2) [OF assms(4) that(1)] that(2,3) by (auto intro: locatedI(1))
qed (use assms(3,5,6) in auto)

lemma step_located: "step s s' \<Longrightarrow> fresh s \<Longrightarrow> located s vm w \<Longrightarrow> located s' vm w"
proof (induction rule: step.induct)
  case (create_finished s c i g h h' m d)
  then show ?case by (simp add: located_finished)
next
  case (create_prepared s c i g h m)
  show ?case
    by (rule located_call [OF create_prepared.prems(2), of _ c "Create_Insert i g h"])
      (use create_prepared in \<open>auto simp: create_prepare_def intro: locatedI(1)\<close>)
next
  case (create_shared s c i g h h' m)
  then have "m = mgr s" by (auto simp: create_insert_def split: option.splits)
  then show ?case
    by (intro located_quiet [OF create_shared.prems(2), of _ c]) (simp_all add: create_shared(1))
next
  case (create_started s c i g h m)
  then have m: "m = (mgr s)\<lparr>sessions := (sessions (mgr s))(i \<mapsto> h)\<rparr>" "sessions (mgr s) i = None"
    by (auto simp: create_insert_def split: option.splits)
  have keep: "sessions m j = Some x" if "sessions (mgr s) j = Some x" for j x
    using that m by auto
  show ?case
  proof (rule located_call [OF create_started.prems(2), of _ c "Create_Await i g h"])
    show "located ((goto c (Create_Await i g h) m s)\<lparr>started := (i, vm_id h) # started s\<rparr>) vm w"
      if "sessions (mgr s) j = Some x" "vm_id x = vm" "worker x = Some w" for j x
      using that keep [OF that(1)] by (intro locatedI(1) [of _ j x]) simp_all
  qed (use create_started(1) in auto)
next
  case (create_awaited s c i g h out)
  show ?case
    by (rule located_quiet [OF create_awaited.prems(2), of _ c]) (auto simp: create_awaited(1))
next
  case (reaped v s out)
  then show ?case by (auto simp: located_def)
next
  case (task_destroyed v w s)
  then show ?case by (auto simp: located_def)
next
  case (cancel_read s c i)
  show ?case
    by (cases "sessions (mgr s) i"; rule located_quiet [OF cancel_read.prems(2), of _ c])
      (simp_all add: cancel_read(1))
next
  case (cancel_marked s c i w')
  show ?case
    by (cases "cancel_mark i (mgr s)"; rule located_quiet [OF cancel_marked.prems(2), of _ c])
      (simp_all add: same_workers_cancel cancel_marked(1))
next
  case (cancel_ended s c i e h m)
  show ?case
    by (rule located_quiet [OF cancel_ended.prems(2), of _ c])
      (simp_all add: same_workers_cancel(2) [OF cancel_ended(2)] cancel_ended(1))
next
  case (destroy_removed s c i r m)
  then have m: "m = (mgr s)\<lparr>sessions := (sessions (mgr s))(i := None)\<rparr>" "r = sessions (mgr s) i"
    by (simp_all add: destroy_remove_def)
  show ?case
  proof (cases r)
    case None
    then have "same_workers (mgr s) m" using m by (auto simp: same_workers_def)
    then show ?thesis unfolding None option.case
      by (intro located_quiet [OF destroy_removed.prems(2), of _ c]) (simp_all add: destroy_removed(1))
  next
    case (Some h)
    show ?thesis unfolding Some option.case
    proof (rule located_call [OF destroy_removed.prems(2), of _ c "Destroy_Clean h"])
      show "located (goto c (Destroy_Clean h) m s) vm w"
        if "sessions (mgr s) j = Some x" "vm_id x = vm" "worker x = Some w" for j x
        using that Some m
        by (cases "j = i") (auto intro: locatedI(1) [of _ j x] locatedI(3) [of _ c x])
    qed (use destroy_removed(1) in auto)
  qed
next
  case (destroy_cleaned s c h r)
  show ?case
    by (rule located_call [OF destroy_cleaned.prems(2), of _ c "Done (Some (destroy_result h r))"])
      (use destroy_cleaned(1) in \<open>auto intro: locatedI(1,5) split: option.splits\<close>)
qed (rule located_quiet, assumption, simp, simp, simp, simp, simp)+

section \<open>One provisioning per session\<close>

text \<open>
  Until a cancel or destroy is requested for a session, its generation is unset and every create runs
  under generation 1.
\<close>

fun create_generation :: "call \<Rightarrow> (string \<times> u64) option" where
  "create_generation (Create_Insert i g h) = Some (i, g)"
| "create_generation (Create_Await i g h) = Some (i, g)"
| "create_generation (Create_Finish i g h) = Some (i, g)"
| "create_generation _ = None"

fun removes :: "string \<Rightarrow> call \<Rightarrow> bool" where
  "removes i (Destroy_Remove j) = (i = j)"
| "removes i _ = False"

definition undisturbed :: "string \<Rightarrow> sys \<Rightarrow> bool" where
  "undisturbed i s \<longleftrightarrow> generations (mgr s) i = None \<longrightarrow>
     (\<forall>c k. calls s c = Some k \<longrightarrow> \<not> removes i k \<and> (\<forall>g. create_generation k = Some (i, g) \<longrightarrow> g = 1))
     \<and> length (filter (\<lambda>p. fst p = i) (started s)) = (if sessions (mgr s) i = None then 0 else 1)"

lemma step_generations: "step s s' \<Longrightarrow> generations (mgr s') i = None \<Longrightarrow> generations (mgr s) i = None"
proof (induction rule: step.induct)
  case (create_finished s c j g h h' m d)
  then show ?case using create_finish_table(2) [OF create_finished(2)] by simp
qed (auto simp: create_prepare_def create_insert_def cancel_mark_def cancel_end_def destroy_remove_def
    bump_generation_def Let_def split: option.splits if_splits)

lemma undisturbed_finish:
  assumes "undisturbed i s" "calls s c = Some (Create_Finish j g h)" "create_finish j g h (mgr s) = (h', m, d)"
    "generations (mgr s) i = None"
  shows "(sessions m i = None) = (sessions (mgr s) i = None)"
proof (cases "i = j")
  case True
  then have "g = generation_of i (mgr s)" using assms(1,2,4) by (auto simp: undisturbed_def generation_of_def)
  with True show ?thesis
    using assms(3) by (auto simp: create_finish_def Let_def split: option.splits if_splits)
qed (use assms(3) in \<open>auto simp: create_finish_def Let_def split: option.splits if_splits\<close>)

lemma undisturbed_call:
  assumes "undisturbed i s" "generations (mgr s) i = None \<Longrightarrow> \<not> removes i k'
      \<and> (\<forall>g. create_generation k' = Some (i, g) \<longrightarrow> g = 1)"
    "generations (mgr s') i = None \<Longrightarrow> generations (mgr s) i = None"
    "started s' = started s" "generations (mgr s) i = None \<Longrightarrow> (sessions (mgr s') i = None) = (sessions (mgr s) i = None)"
    "calls s' = (calls s)(c \<mapsto> k')"
  shows "undisturbed i s'"
  using assms unfolding undisturbed_def by auto

lemma step_undisturbed: "step s s' \<Longrightarrow> undisturbed i s \<Longrightarrow> undisturbed i s'"
proof (induction rule: step.induct)
  case (create_finished s c j g h h' m d)
  note gen = create_finish_table(2) [OF create_finished(2)]
  show ?case
    by (rule undisturbed_call [OF create_finished.prems, of "Done (Some h')" _ c])
      (simp_all add: gen undisturbed_finish [OF create_finished.prems create_finished(1,2)])
next
  case (create_prepared s c j g h m)
  show ?case
    by (rule undisturbed_call [OF create_prepared.prems, of "Create_Insert j g h" _ c])
      (use create_prepared(2) in \<open>auto simp: create_prepare_def generation_of_def\<close>)
next
  case (create_shared s c j g h h' m)
  then have "m = mgr s" by (auto simp: create_insert_def split: option.splits)
  then show ?case
    by (intro undisturbed_call [OF create_shared.prems, of "Done (Some h')" _ c]) simp_all
next
  case (create_started s c j g h m)
  then have m: "m = (mgr s)\<lparr>sessions := (sessions (mgr s))(j \<mapsto> h)\<rparr>" "sessions (mgr s) j = None"
    by (auto simp: create_insert_def split: option.splits)
  with create_started(1) create_started.prems show ?case
    unfolding undisturbed_def by (auto split: if_splits)
next
  case (create_awaited s c j g h out)
  show ?case
    by (rule undisturbed_call [OF create_awaited.prems, of "Create_Finish j g _" _ c])
      (use create_awaited in \<open>auto simp: undisturbed_def\<close>)
next
  case (cancel_read s c j)
  show ?case
    by (cases "sessions (mgr s) j"; rule undisturbed_call [OF cancel_read.prems, of _ _ c]) simp_all
next
  case (cancel_marked s c j w)
  then show ?case
    by (cases "cancel_mark j (mgr s)"; intro undisturbed_call [OF cancel_marked.prems, of _ _ c])
      (auto simp: cancel_mark_def split: option.splits if_splits)
next
  case (cancel_ended s c j e h m)
  then show ?case
    by (intro undisturbed_call [OF cancel_ended.prems, of "Done h" _ c])
      (auto simp: cancel_end_def Let_def split: option.splits if_splits)
next
  case (destroy_removed s c j r m)
  then have "generations (mgr s) i = None \<Longrightarrow> i \<noteq> j" by (fastforce simp: undisturbed_def)
  with destroy_removed(2) show ?case
    by (cases r; intro undisturbed_call [OF destroy_removed.prems, of _ _ c])
      (auto simp: destroy_remove_def)
next
  case (cancel_call s c j)
  show ?case
    by (rule undisturbed_call [OF cancel_call.prems, of _ _ c])
      (auto simp: bump_generation_def split: if_splits)
next
  case (destroy_call s c j)
  then show ?case
    unfolding undisturbed_def by (auto simp: bump_generation_def split: if_splits)
next
  case (destroy_cleaned s c h r)
  show ?case by (rule undisturbed_call [OF destroy_cleaned.prems, of _ _ c]) simp_all
next
  case (reaped vm s out)
  then show ?case by (simp add: undisturbed_def)
next
  case (task_destroyed vm w s)
  then show ?case by (simp add: undisturbed_def)
qed (rule undisturbed_call, assumption, (simp_all)[5])+

lemma reachable_invariants:
  assumes "step\<^sup>*\<^sup>* (sys_start spec) s"
  shows "fresh s \<and> unmade s \<and> undisturbed i s"
  using assms
proof induction
  case base
  show ?case by (simp add: fresh_def unmade_def undisturbed_def sys_start_def with_adapter_def)
qed (use step_fresh step_unmade step_undisturbed in blast)

lemma step_made:
  assumes "step s s'" "(vm, w) \<in> set (made s')"
  shows "(vm, w) \<in> set (made s) \<or> located s' vm w"
  using assms
proof (induction rule: step.induct)
  case (create_awaited s c i g h out)
  have w: "worker (create_outcome spec out h) = Some w" if "(vm, w) \<in> set (made_by (vm_id h) out)" for spec
    using that by (cases out; cases "case out of Adapter_Result r \<Rightarrow> r | _ \<Rightarrow> Inl undefined")
      (auto simp: made_by_def split: sum.splits)
  have v: "vm = vm_id h" if "(vm, w) \<in> set (made_by (vm_id h) out)"
    using that by (auto simp: made_by_def split: provision_outcome.splits sum.splits)
  from create_awaited(2) consider "(vm, w) \<in> set (made s)" | "(vm, w) \<in> set (made_by (vm_id h) out)" by auto
  then show ?case
  proof cases
    case 2
    show ?thesis
      by (rule disjI2, rule locatedI(2) [of _ c i g "create_outcome (m_spec (mgr s)) out h"])
        (simp_all add: w [OF 2] v [OF 2])
  qed simp
next
  case (reaped vm' s out)
  then show ?case
    by (auto simp: made_by_def intro: locatedI(4) split: provision_outcome.splits sum.splits)
qed (auto split: option.splits)

lemma reachable_accounted:
  assumes "step\<^sup>*\<^sup>* (sys_start spec) s" "(vm, w) \<in> set (made s)"
  shows "located s vm w"
  using assms
proof (induction arbitrary: vm w)
  case base
  then show ?case by (simp add: sys_start_def)
next
  case (step s s')
  have "fresh s" using reachable_invariants [OF step.hyps(1)] by blast
  with step_made [OF step.hyps(2) step.prems] step.IH step_located [OF step.hyps(2)] show ?case by blast
qed

lemma cleanup_loop_bounds:
  assumes "cleanup_loop op t b deadline i retries last_error now = (r, now', n)" "now \<le> deadline"
  shows "now \<le> now' \<and> now' \<le> deadline \<and> i \<le> n \<and> n \<le> i + retries + 1
    \<and> (now < deadline \<longrightarrow> i < n)
    \<and> (r = Inr () \<longrightarrow> i < n \<and> fst (op (n - 1)) = Inr ())
    \<and> (r \<noteq> Inr () \<longrightarrow> n = i + retries + 1 \<or> now' = deadline)"
  using assms
proof (induction retries arbitrary: i last_error now)
  case 0
  then show ?case
    by (subst (asm) cleanup_loop.simps) (auto simp: Let_def min_def split: if_splits prod.splits sum.splits)
next
  case (Suc retries)
  obtain r0 t0 where op: "op i = (r0, t0)" by fastforce
  let ?now1 = "now + min t0 (deadline - now)"
  show ?case
  proof (cases "deadline - now = 0 \<or> t0 \<le> deadline - now \<and> r0 = Inr () \<or> deadline - ?now1 = 0")
    case True
    then show ?thesis
      using Suc.prems op
      by (subst (asm) cleanup_loop.simps) (auto simp: Let_def min_def split: if_splits sum.splits)
  next
    case False
    let ?e = "if t0 \<le> deadline - now then projl r0 else Timeout_error t"
    let ?now2 = "?now1 + min (backoff b i) (deadline - ?now1)"
    have rec: "cleanup_loop op t b deadline (i + 1) retries (Some ?e) ?now2 = (r, now', n)"
      using Suc.prems(1) False op
      by (subst (asm) cleanup_loop.simps) (auto simp: Let_def split: if_splits sum.splits)
    have "?now2 \<le> deadline" "now \<le> ?now2" using False Suc.prems(2) by (auto simp: min_def)
    with Suc.IH [OF rec] show ?thesis by auto
  qed
qed

text \<open>A concrete run: one creation of session \<open>s\<close> whose worker has just been provisioned.\<close>

definition sample_worker :: worker_handle where
  "sample_worker = \<lparr>wh_worker_id = ''w'', wh_workspace = None, wh_guest_workspace = None,
     wh_guest_address = None, wh_sandbox_id = None\<rparr>"

lemma sample_creation:
  "\<exists>s vm. step\<^sup>*\<^sup>* (sys_start runtime_spec_default) s \<and> (vm, sample_worker) \<in> set (made s)
     \<and> generations (mgr s) ''s'' = None \<and> (''s'', vm) \<in> set (started s)"
proof -
  define s0 where "s0 = sys_start runtime_spec_default"
  define s1 where "s1 = goto 0 (Create_Get ''s'') (mgr s0) s0"
  define s2 where "s2 = goto 0 (Create_Prepare ''s'') (mgr s1) s1"
  define h where "h = fst (snd (create_prepare ''s'' (mgr s2)))"
  define s3 where "s3 = goto 0 (Create_Insert ''s'' 1 h) ((mgr s2)\<lparr>next_id := 2\<rparr>) s2"
  define s4 where "s4 = (goto 0 (Create_Await ''s'' 1 h) (snd (create_insert ''s'' h (mgr s3))) s3)
    \<lparr>started := [(''s'', vm_id h)]\<rparr>"
  define out where "out = Adapter_Result (Inr sample_worker)"
  define s5 where "s5 = (goto 0 (Create_Finish ''s'' 1 (create_outcome (m_spec (mgr s4)) out h)) (mgr s4) s4)
    \<lparr>made := [(vm_id h, sample_worker)], tasks := {}\<rparr>"
  note defs = s0_def s1_def s2_def s3_def s4_def s5_def sys_start_def with_adapter_def
    get_session_def create_prepare_def create_insert_def generation_of_def h_def
  have st1: "step s0 s1" unfolding s1_def by (rule step.create_call) (simp add: defs)
  have st2: "step s1 s2" unfolding s2_def by (rule step.create_miss) (simp_all add: defs)
  have st3: "step s2 s3" unfolding s3_def by (rule step.create_prepared) (simp_all add: defs)
  have st4: "step s3 s4"
    using step.create_started [of s3 0 "''s''" 1 h "snd (create_insert ''s'' h (mgr s3))"] by (simp add: defs)
  have st5: "step s4 s5"
    using step.create_awaited [of s4 0 "''s''" 1 h out] by (simp add: defs out_def made_by_def)
  have "step\<^sup>*\<^sup>* s0 s3" using st1 st2 st3 by (auto intro: rtranclp.rtrancl_into_rtrancl)
  then have "step\<^sup>*\<^sup>* s0 s5" using st4 st5 by (auto intro: rtranclp.rtrancl_into_rtrancl)
  moreover have "(vm_id h, sample_worker) \<in> set (made s5)" "generations (mgr s5) ''s'' = None"
    "(''s'', vm_id h) \<in> set (started s5)"
    by (simp_all add: defs)
  ultimately show ?thesis unfolding s0_def by blast
qed

section \<open>Properties\<close>

text \<open>
  C4. No worker is lost. However creations, cancellations and destructions of any sessions interleave,
  and whatever the adapter answers and when, every worker it has provisioned is, in every reachable
  state, recorded in the session table under the identifier it was provisioned for, or about to be
  recorded or rejected by the creation that owns it, or in the hands of a destroy call or of a
  detached destroy task, or the adapter has been asked to destroy it. This includes workers that
  arrive after the provisioning timeout.
\<close>

theorem no_worker_lost:
  assumes "step\<^sup>*\<^sup>* (sys_start spec) s" "(vm, w) \<in> set (made s)"
  shows "(\<exists>i h. sessions (mgr s) i = Some h \<and> vm_id h = vm \<and> worker h = Some w)
     \<or> (\<exists>c i g h. calls s c = Some (Create_Finish i g h) \<and> vm_id h = vm \<and> worker h = Some w)
     \<or> (\<exists>c h. calls s c = Some (Destroy_Clean h) \<and> vm_id h = vm \<and> worker h = Some w)
     \<or> Destroyer vm w \<in> tasks s \<or> (vm, w) \<in> set (destroyed s)"
  using reachable_accounted [OF assms] by (simp add: located_def)

theorem no_worker_lost_witness:
  "\<exists>s vm. (vm, sample_worker) \<in> set (made s) \<and> located s vm sample_worker"
proof -
  obtain s vm where s: "step\<^sup>*\<^sup>* (sys_start runtime_spec_default) s" "(vm, sample_worker) \<in> set (made s)"
    using sample_creation by blast
  then show ?thesis using no_worker_lost [OF s] unfolding located_def by blast
qed

text \<open>
  C7. Concurrent creations share one provisioning. As long as no cancel or destroy has been requested for
  a session, at most one provisioning was ever started for it, however many creations of the session
  run at once, and when one was started the session has an entry that later creations return.
\<close>

theorem provision_deduplicated:
  assumes "step\<^sup>*\<^sup>* (sys_start spec) s" "generations (mgr s) i = None"
  shows "length (filter (\<lambda>p. fst p = i) (started s)) \<le> 1
    \<and> (\<forall>vm. (i, vm) \<in> set (started s) \<longrightarrow>
        (\<exists>h. sessions (mgr s) i = Some h \<and> (\<forall>out. create_for_session out i (mgr s) = (h, mgr s, None))))"
proof -
  have "undisturbed i s" using reachable_invariants [OF assms(1)] by blast
  with assms(2) have len: "length (filter (\<lambda>p. fst p = i) (started s)) = (if sessions (mgr s) i = None then 0 else 1)"
    by (simp add: undisturbed_def)
  have "sessions (mgr s) i \<noteq> None" if "(i, vm) \<in> set (started s)" for vm
  proof -
    have "(i, vm) \<in> set (filter (\<lambda>p. fst p = i) (started s))" using that by simp
    then have "length (filter (\<lambda>p. fst p = i) (started s)) \<noteq> 0" by (metis length_0_conv list.set(1) empty_iff)
    with len show ?thesis by (auto split: if_splits)
  qed
  with len show ?thesis by (auto simp: create_for_session_def get_session_def)
qed

theorem provision_deduplicated_witness:
  "\<exists>s h. step\<^sup>*\<^sup>* (sys_start runtime_spec_default) s \<and> length (filter (\<lambda>p. fst p = ''s'') (started s)) \<le> 1
     \<and> sessions (mgr s) ''s'' = Some h \<and> create_for_session Timed_Out ''s'' (mgr s) = (h, mgr s, None)"
proof -
  obtain s vm where s: "step\<^sup>*\<^sup>* (sys_start runtime_spec_default) s" "generations (mgr s) ''s'' = None"
    "(''s'', vm) \<in> set (started s)"
    using sample_creation by blast
  then show ?thesis using provision_deduplicated [OF s(1,2)] by blast
qed

text \<open>
  C35. Cleanup is bounded. \<open>cleanup_with_retry\<close> returns by the deadline, after at least one and at most
  \<open>max_retries + 1\<close> invocations; success is the success of its last invocation, and it gives up only
  when the invocations are used up or the deadline has come.
\<close>

theorem cleanup_bounded:
  assumes "cleanup_with_retry timeout_seconds max_retries backoff_ms op now = (r, now', n)"
  shows "now \<le> now' \<and> now' \<le> now + 1000 * unat (max timeout_seconds 1)
    \<and> 1 \<le> n \<and> n \<le> unat max_retries + 1
    \<and> (r = Inr () \<longrightarrow> fst (op (n - 1)) = Inr ())
    \<and> (r \<noteq> Inr () \<longrightarrow> n = unat max_retries + 1 \<or> now' = now + 1000 * unat (max timeout_seconds 1))"
proof -
  have "0 < unat (max timeout_seconds 1)" by (cases "timeout_seconds = 0") (auto simp: max_def unat_gt_0)
  then show ?thesis
    using cleanup_loop_bounds [OF assms [unfolded cleanup_with_retry_def]] by auto
qed

theorem cleanup_bounded_witness:
  "\<exists>now' n. cleanup_with_retry 1 2 100 (\<lambda>k. (Inl (Adapter_error ''busy''), 600)) 0
       = (Inl (Timeout_error 1), now', n) \<and> n \<le> 3 \<and> now' = 1000"
proof -
  let ?op = "\<lambda>k. (Inl (Adapter_error ''busy'') :: runtime_error + unit, 600 :: nat)"
  have u: "unat (2 :: u32) = Suc (Suc 0)" by simp
  have run: "cleanup_with_retry 1 2 100 ?op 0 = (Inl (Timeout_error 1), 1000, 2)"
    unfolding cleanup_with_retry_def u by (simp add: backoff_def)
  with u cleanup_bounded [OF run] run show ?thesis by simp
qed

text \<open>
  The life of a session without interference. When the adapter provisions a worker for a new session,
  the caller gets a running handle with that worker; a second creation returns the same handle and
  provisions nothing; a successful cancel keeps the worker under a stopped handle; and a destroy returns
  the handle with the worker and removes the session, also when the cleanup fails, which the returned
  handle then reports.
\<close>

theorem session_lifecycle:
  assumes "sessions m i = None" "create_for_session (Adapter_Result (Inr w)) i m = (h, m1, d)"
    and "cancel_for_session cancel i m1 = (r, m2)" "cancel w = Inr ()"
    and "destroy_for_session destroy i m2 = (r', m3)"
  shows "d = None \<and> status h = Running \<and> worker h = Some w \<and> vm_id h = vm_name (next_id m)
    \<and> (\<forall>out. create_for_session out i m1 = (h, m1, None))
    \<and> r = Some (h\<lparr>status := Stopped, error := None\<rparr>) \<and> get_session i m2 = r
    \<and> (\<exists>h'. r' = Some h' \<and> worker h' = Some w
         \<and> status h' = (if destroy w = Inr () then Stopped else Failed)) \<and> get_session i m3 = None"
proof -
  note create = create_for_session_def create_prepare_def create_insert_def create_finish_def
    get_session_def generation_of_def
  have h: "d = None \<and> status h = Running \<and> worker h = Some w \<and> vm_id h = vm_name (next_id m)" "sessions m1 i = Some h"
    using assms(1,2) by (auto simp: create)
  have c: "r = Some (h\<lparr>status := Stopped, error := None\<rparr>)" "sessions m2 i = r"
    using assms(3,4) h by (auto simp: cancel_for_session_def cancel_mark_def cancel_end_def bump_generation_def Let_def)
  have "\<exists>h'. r' = Some h' \<and> worker h' = Some w \<and> status h' = (if destroy w = Inr () then Stopped else Failed)"
    "sessions m3 i = None"
    using assms(5) h c
    by (auto simp: destroy_for_session_def destroy_remove_def destroy_result_def bump_generation_def split: sum.split)
  with h c show ?thesis by (simp add: create)
qed

theorem session_lifecycle_witness:
  "\<exists>h m1. create_for_session (Adapter_Result (Inr sample_worker)) ''s'' (with_adapter runtime_spec_default) = (h, m1, None)
     \<and> status h = Running \<and> worker h = Some sample_worker \<and> vm_id h = vm_name 1
     \<and> get_session ''s'' (snd (destroy_for_session (\<lambda>_. Inr ()) ''s'' (snd (cancel_for_session (\<lambda>_. Inr ()) ''s'' m1)))) = None"
proof -
  let ?m = "with_adapter runtime_spec_default"
  obtain h m1 d where c: "create_for_session (Adapter_Result (Inr sample_worker)) ''s'' ?m = (h, m1, d)"
    by (metis prod_cases3)
  obtain r m2 where k: "cancel_for_session (\<lambda>_. Inr ()) ''s'' m1 = (r, m2)" by fastforce
  obtain r' m3 where x: "destroy_for_session (\<lambda>_. Inr ()) ''s'' m2 = (r', m3)" by fastforce
  have "sessions ?m ''s'' = None" by (simp add: with_adapter_def)
  from session_lifecycle [OF this c k refl x] c k x show ?thesis
    by (simp add: with_adapter_def)
qed

text \<open>
  C36. A session can be left with a dead placeholder. There is a run in which a destroy is requested between
  the moment a creation reads the generation and the moment it inserts its placeholder, and the
  provisioning then fails: the creation reports the failure, but its placeholder stays in the table
  in status \<open>Provisioning\<close> although no call or task is left that could complete it. Every later
  creation of that session returns the placeholder and provisions nothing.
\<close>

theorem session_left_provisioning:
  "\<exists>s h h'. step\<^sup>*\<^sup>* (sys_start spec) s
     \<and> ran (calls s) \<subseteq> range Done \<and> tasks s = {}
     \<and> calls s 0 = Some (Done (Some h')) \<and> status h' = Failed
     \<and> sessions (mgr s) i = Some h \<and> status h = Provisioning \<and> worker h = None
     \<and> (\<forall>out. create_for_session out i (mgr s) = (h, mgr s, None))"
proof -
  define s0 where "s0 = sys_start spec"
  define s1 where "s1 = goto 0 (Create_Get i) (mgr s0) s0"
  define s2 where "s2 = goto 0 (Create_Prepare i) (mgr s1) s1"
  define h where "h = fst (snd (create_prepare i (mgr s2)))"
  define s3 where "s3 = goto 0 (Create_Insert i 1 h) ((mgr s2)\<lparr>next_id := 2\<rparr>) s2"
  define s4 where "s4 = goto 1 (Destroy_Remove i) ((bump_generation i (mgr s3))\<lparr>lifecycle_lock := True\<rparr>) s3"
  define s5 where "s5 = goto 1 (Done None) (unlock (snd (destroy_remove i (mgr s4)))) s4"
  define s6 where "s6 = (goto 0 (Create_Await i 1 h) (snd (create_insert i h (mgr s5))) s5)
    \<lparr>started := [(i, vm_id h)]\<rparr>"
  define out where "out = Adapter_Result (Inl (Provisioning_error ''x''))"
  define h' where "h' = create_outcome (m_spec (mgr s6)) out h"
  define s7 where "s7 = (goto 0 (Create_Finish i 1 h') (mgr s6) s6)\<lparr>made := [], tasks := {}\<rparr>"
  define s8 where "s8 = (goto 0 (Done (Some h')) (mgr s7) s7)\<lparr>tasks := {}\<rparr>"
  note defs = s0_def s1_def s2_def s3_def s4_def s5_def s6_def s7_def s8_def sys_start_def with_adapter_def
    get_session_def create_prepare_def destroy_remove_def create_insert_def bump_generation_def
    generation_of_def h_def
  have st1: "step s0 s1" unfolding s1_def by (rule step.create_call) (simp add: defs)
  have st2: "step s1 s2" unfolding s2_def by (rule step.create_miss) (simp_all add: defs)
  have st3: "step s2 s3" unfolding s3_def by (rule step.create_prepared) (simp_all add: defs)
  have st4: "step s3 s4" unfolding s4_def by (rule step.destroy_call) (simp_all add: defs)
  have st5: "step s4 s5"
    using step.destroy_removed [of s4 1 i None "snd (destroy_remove i (mgr s4))"] by (simp add: defs)
  have st6: "step s5 s6"
    using step.create_started [of s5 0 i 1 h "snd (create_insert i h (mgr s5))"] by (simp add: defs)
  have st7: "step s6 s7"
    using step.create_awaited [of s6 0 i 1 h out] by (simp add: defs h'_def out_def made_by_def)
  have "create_finish i 1 h' (mgr s7) = (h', mgr s7, None)"
    by (simp add: create_finish_def defs h'_def out_def)
  then have st8: "step s7 s8"
    using step.create_finished [of s7 0 i 1 h' h' "mgr s7" None] by (simp add: s8_def s7_def)
  have "step\<^sup>*\<^sup>* s0 s4" using st1 st2 st3 st4 by (auto intro: rtranclp.rtrancl_into_rtrancl)
  then have "step\<^sup>*\<^sup>* s0 s8" using st5 st6 st7 st8 by (auto intro: rtranclp.rtrancl_into_rtrancl)
  then have "step\<^sup>*\<^sup>* (sys_start spec) s8" by (simp add: s0_def)
  moreover have "ran (calls s8) \<subseteq> range Done" "calls s8 0 = Some (Done (Some h'))" "tasks s8 = {}"
    "sessions (mgr s8) i = Some h" "status h = Provisioning" "worker h = None" "status h' = Failed"
    by (auto simp: defs h'_def out_def ran_def split: if_splits)
  ultimately show ?thesis by (intro exI [of _ s8] exI [of _ h] exI [of _ h'])
    (simp add: create_for_session_def get_session_def)
qed

end
