(* ===== verification/Rfb_Builtin.thy ===== *)
theory Rfb_Builtin
  imports Rfb_Prelude
begin

text \<open>
  The in-process commands shared by the guest transports, \<^verbatim>\<open>rfb-runtime/src/builtin.rs\<close>, over the
  values of \<^verbatim>\<open>serde_json\<close>. A value is the documented enumeration of that library, numbers being integers or,
  kept as their text, fractions; reading and printing JSON text is left to the theories that need it, as
  parameters. The network probe is a parameter.
\<close>

section \<open>JSON values\<close>

datatype json =
    JNull
  | JBool bool
  | JNumber int
  | JFloat string
  | JString string
  | JArray "json list"
  | JObject "(string \<times> json) list"

text \<open>\<^verbatim>\<open>Value::get\<close> with a key, \<^verbatim>\<open>as_array\<close>, \<^verbatim>\<open>as_str\<close>, \<^verbatim>\<open>as_object\<close> and \<^verbatim>\<open>value[key] = v\<close>.\<close>

fun jget :: "string \<Rightarrow> json \<Rightarrow> json option" where
  "jget k (JObject m) = map_of m k"
| "jget k _ = None"

fun as_array :: "json \<Rightarrow> json list option" where
  "as_array (JArray vs) = Some vs"
| "as_array _ = None"

fun as_str :: "json \<Rightarrow> string option" where
  "as_str (JString s) = Some s"
| "as_str _ = None"

fun as_object :: "json \<Rightarrow> (string \<times> json) list option" where
  "as_object (JObject m) = Some m"
| "as_object _ = None"

fun jset :: "string \<Rightarrow> json \<Rightarrow> json \<Rightarrow> json" where
  "jset k v (JObject m) = JObject (alist_insert k v m)"
| "jset k v j = j"

section \<open>Builtins\<close>

datatype builtin_cmd = Echo | BTrue | BFalse | NetProbe

definition basename :: "string \<Rightarrow> string" where
  "basename p = last (split_on (CHR ''/'') p)"

definition builtin_program :: "string \<Rightarrow> builtin_cmd option" where
  "builtin_program program =
     (if CHR ''/'' \<in> set program \<and> \<not> starts_with program ''/'' then None
      else if basename program = ''echo'' then Some Echo
      else if basename program = ''true'' then Some BTrue
      else if basename program = ''false'' then Some BFalse
      else if basename program = ''netprobe'' then Some NetProbe
      else None)"

definition builtin :: "json \<Rightarrow> builtin_cmd option" where
  "builtin request =
     Option.bind (jget ''args'' request) (\<lambda>a.
     Option.bind (as_array a) (\<lambda>args.
     Option.bind (case args of [] \<Rightarrow> None | v # _ \<Rightarrow> Some v) (\<lambda>v.
     Option.bind (as_str v) builtin_program)))"

definition validate_builtin_request :: "json \<Rightarrow> string + unit" where
  "validate_builtin_request request =
     (case Option.bind (jget ''args'' request) as_array of
        None \<Rightarrow> Inl ''args must be an array''
      | Some args \<Rightarrow>
          if args = [] \<or> (\<exists>v \<in> set args. as_str v = None) then Inl ''args must be non-empty strings''
          else (case jget ''env'' request of
              None \<Rightarrow> Inr ()
            | Some env \<Rightarrow> (case as_object env of
                None \<Rightarrow> Inl ''env must be an object''
              | Some m \<Rightarrow> if \<exists>v \<in> snd ` set m. as_str v = None then Inl ''env values must be strings''
                          else Inr ())))"

fun join :: "string \<Rightarrow> string list \<Rightarrow> string" where
  "join sep [] = []"
| "join sep [w] = w"
| "join sep (w # ws) = w @ sep @ join sep ws"

fun filter_strs :: "json list \<Rightarrow> string list" where
  "filter_strs [] = []"
| "filter_strs (v # vs) = (case as_str v of Some s \<Rightarrow> s # filter_strs vs | None \<Rightarrow> filter_strs vs)"

text \<open>
  \<open>reachable\<close> is the outcome of the TCP probe. \<^verbatim>\<open>expect\<close> on the missing array is not reached for
  validated requests; the model gives the empty array there.
\<close>

definition builtin_output :: "(string \<Rightarrow> bool) \<Rightarrow> json list \<Rightarrow> builtin_cmd \<Rightarrow> string \<times> int" where
  "builtin_output reachable args b =
     (case b of
        Echo \<Rightarrow>
          (let arg1 = Option.bind (if 1 < length args then Some (args ! 1) else None) as_str;
               (newline, words) = (if arg1 = Some ''-n'' then (False, drop 2 args) else (True, drop 1 args));
               joined = join '' '' (filter_strs words)
           in (if newline then joined @ [CHR 0x0A] else joined, 0))
      | BTrue \<Rightarrow> ([], 0)
      | BFalse \<Rightarrow> ([], 1)
      | NetProbe \<Rightarrow>
          (let target = (case Option.bind (if 1 < length args then Some (args ! 1) else None) as_str of
                 Some t \<Rightarrow> t | None \<Rightarrow> ''1.1.1.1:80'')
           in if reachable target then (''connected to '' @ target @ [CHR 0x0A], 0)
              else (''no route to '' @ target @ [CHR 0x0A], 1)))"

definition builtin_result :: "(string \<Rightarrow> bool) \<Rightarrow> json \<Rightarrow> builtin_cmd \<Rightarrow> json" where
  "builtin_result reachable request b =
     (let args = (case Option.bind (jget ''args'' request) as_array of Some a \<Rightarrow> a | None \<Rightarrow> []);
          (out, exit_code) = builtin_output reachable args b
      in JObject [(''out'', JString out), (''err'', JString []), (''stdout'', JString out),
           (''stderr'', JString []), (''exit_code'', JNumber exit_code), (''error'', JNull),
           (''timed_out'', JBool False)])"

section \<open>Lemmas\<close>

lemma basename_slash: "CHR ''/'' \<notin> set n \<Longrightarrow> basename (p @ ''/'' @ n) = n"
  by (simp add: basename_def split_on_join split_on_plain)

end
