(* ===== verification/Zbrt_Connection.thy ===== *)
theory Zbrt_Connection
  imports Runtime_Service Rfb_Builtin Zbrt_Wire "HOL-Library.Sublist"
begin

text \<open>
  The ZBRT guest connection, \<^verbatim>\<open>rfb-runtime/src/zeroboot_connection.rs\<close>: frames of the ZBRT wire protocol
  are mapped onto the runtime service. Every connection has a service of its own.

  The handlers are functions of the connection's state; \<open>step\<close> is the \<^verbatim>\<open>select!\<close> loop of \<^verbatim>\<open>serve\<close> together
  with the worker thread of the active turn. The transport is the list of frames written so far and
  the number of frames it still accepts; a write beyond that is an I/O error. JSON text, base64 and
  the rendering of a join error are parameters.

  The fields \<open>zc_accepted\<close> and \<open>zc_finished\<close> only record history: the identifiers of the accepted
  \<^verbatim>\<open>Execute\<close> requests, and the terminal frames written for them.
\<close>

section \<open>State\<close>

definition SESSION_ID :: string where
  "SESSION_ID = ''zeroboot''"

definition WORKER_CHANNEL_CAPACITY :: nat where
  "WORKER_CHANNEL_CAPACITY = 64"

definition TERMINATED_RETENTION :: nat where
  "TERMINATED_RETENTION = 64"

datatype 'e worker_message =
    WOutput bytes guest_event
  | WTerminal bytes string string "string + guest_event list" 'e

record request_entry =
  en_request_id :: string
  en_terminated :: bool

datatype 'e zworker = No_Worker | Working session_request bytes 'e | Sent | Crashed

record 'e zconn =
  zc_service :: "'e runtime_service"
  zc_open :: bool
  zc_handshaked :: bool
  zc_worker_active :: bool
  zc_active_id :: "bytes option"
  zc_requests :: "bytes \<rightharpoonup> request_entry"
  zc_terminated_order :: "bytes list"
  zc_queue :: "'e worker_message list"
  zc_worker :: "'e zworker"
  zc_budget :: "nat option"
  zc_written :: "zframe list"
  zc_accepted :: "bytes list"
  zc_finished :: "zframe list"

record zbrt_lib =
  l_parse :: "string \<Rightarrow> json option"
  l_print :: "json \<Rightarrow> string"
  l_terminal_event :: "bytes \<Rightarrow> terminal_event option"
  l_exit_code :: "bytes \<Rightarrow> int option option"
  l_base64 :: "bytes \<Rightarrow> string"
  l_join_error :: string

definition zconn_start :: "nat option \<Rightarrow> 'e runtime_service \<Rightarrow> 'e zconn" where
  "zconn_start budget sv = \<lparr>zc_service = sv, zc_open = True, zc_handshaked = False, zc_worker_active = False,
     zc_active_id = None, zc_requests = Map.empty, zc_terminated_order = [], zc_queue = [],
     zc_worker = No_Worker, zc_budget = budget, zc_written = [], zc_accepted = [], zc_finished = []\<rparr>"

section \<open>Frames\<close>

abbreviation zreply :: "kind \<Rightarrow> bytes \<Rightarrow> bytes \<Rightarrow> zframe" where
  "zreply k rid payload \<equiv> \<lparr>fr_kind = k, fr_flags = 0, fr_request_id = rid, fr_payload = payload\<rparr>"

definition unwrap_or_default :: "'e + 'a list \<Rightarrow> 'a list" where
  "unwrap_or_default r = (case r of Inr b \<Rightarrow> b | Inl _ \<Rightarrow> [])"

definition fail_closed_error :: "bytes \<Rightarrow> string \<Rightarrow> zframe" where
  "fail_closed_error rid message =
     zreply KError rid (unwrap_or_default (error_encode \<lparr>err_code = 1, err_message = message\<rparr>))"

text \<open>The exit code is an \<^verbatim>\<open>i32\<close>; the wire record holds its bit pattern.\<close>

definition exit_frame :: "bytes \<Rightarrow> int \<Rightarrow> zframe" where
  "exit_frame rid code =
     zreply KExit rid (unwrap_or_default (exit_encode \<lparr>exit_code = word_of_int code, exit_signal = None\<rparr>))"

definition cancel_ack :: "bytes \<Rightarrow> zframe" where
  "cancel_ack rid = zreply KCancelAck rid []"

definition i32_try_from :: "int \<Rightarrow> int option" where
  "i32_try_from v = (if - (2 ^ 31) \<le> v \<and> v < 2 ^ 31 then Some v else None)"

fun terminal_scan :: "zbrt_lib \<Rightarrow> bytes \<Rightarrow> runtime_message list \<Rightarrow> zframe option" where
  "terminal_scan lib rid [] = None"
| "terminal_scan lib rid (m # ms) =
     (case m of
        RError _ message \<Rightarrow> Some (fail_closed_error rid message)
      | REvent e \<Rightarrow>
          if ev_kind e = ''turn.cancelled'' then Some (exit_frame rid (- 1))
          else if ev_kind e = ''turn.completed''
          then Some (exit_frame rid (case Option.bind (Option.bind (l_exit_code lib (ev_payload e)) (\<lambda>c. c)) i32_try_from of
                 Some code \<Rightarrow> code | None \<Rightarrow> - 1))
          else terminal_scan lib rid ms
      | _ \<Rightarrow> terminal_scan lib rid ms)"

definition terminal_frame :: "zbrt_lib \<Rightarrow> bytes \<Rightarrow> runtime_message list \<Rightarrow> zframe" where
  "terminal_frame lib rid responses =
     (case terminal_scan lib rid responses of
        Some f \<Rightarrow> f | None \<Rightarrow> fail_closed_error rid ''turn finished without a terminal event'')"

fun runtime_error_to_frame :: "bytes \<Rightarrow> runtime_message \<Rightarrow> zframe" where
  "runtime_error_to_frame rid (RError _ message) = fail_closed_error rid message"
| "runtime_error_to_frame rid _ = fail_closed_error rid ''request rejected''"

definition hex_digit :: "nat \<Rightarrow> char" where
  "hex_digit n = char_of (if n < 10 then 48 + n else 87 + n)"

definition hex_id :: "bytes \<Rightarrow> string" where
  "hex_id rid = concat (map (\<lambda>b. [hex_digit (unat b div 16), hex_digit (unat b mod 16)]) rid)"

definition normalize_workspace_path :: "string \<Rightarrow> string" where
  "normalize_workspace_path path =
     (if path = ''/workspace'' then ''.''
      else (case strip_prefix ''/workspace/'' path of Some rest \<Rightarrow> rest | None \<Rightarrow> path))"

definition execute_prompt :: "zbrt_lib \<Rightarrow> execute \<Rightarrow> json" where
  "execute_prompt lib exec =
     (let p0 = JObject [(''op'', JString ''exec''), (''args'', JArray (map JString (exec_argv exec))),
            (''cwd'', JString (normalize_workspace_path (case exec_cwd exec of Some c \<Rightarrow> c | None \<Rightarrow> ''.'')))];
          p1 = (if exec_stdin exec \<noteq> [] then jset ''stdin_b64'' (JString (l_base64 lib (exec_stdin exec))) p0 else p0)
      in if exec_timeout_ms exec > 0
         then jset ''timeout_ms'' (JNumber (int (unat (exec_timeout_ms exec)))) p1 else p1)"

definition execute_to_turn :: "zbrt_lib \<Rightarrow> bytes \<Rightarrow> execute \<Rightarrow> session_request" where
  "execute_to_turn lib rid exec =
     \<lparr>rq_session_id = SESSION_ID, rq_request_id = hex_id rid, rq_prompt = l_print lib (execute_prompt lib exec)\<rparr>"

section \<open>Writing\<close>

definition emit :: "zframe \<Rightarrow> 'e zconn \<Rightarrow> bool \<times> 'e zconn" where
  "emit f c =
     (if is_ok (frame_encode f) \<and> zc_budget c \<noteq> Some 0
      then (True, c\<lparr>zc_written := zc_written c @ [f], zc_budget := map_option (\<lambda>n. n - 1) (zc_budget c)\<rparr>)
      else (False, c))"

definition output_frame :: "zbrt_lib \<Rightarrow> bytes \<Rightarrow> guest_event \<Rightarrow> (io_error + zframe) option" where
  "output_frame lib rid event =
     (if ge_kind event \<noteq> ''terminal.output'' then None
      else (case l_terminal_event lib (ge_payload event) of
          None \<Rightarrow> None
        | Some t \<Rightarrow> Some (res_bind
            (output_encode \<lparr>out_stream = (case te_stream t of Stdout \<Rightarrow> 0 | Stderr \<Rightarrow> 1),
               out_data = (case te_data_bytes t of Some b \<Rightarrow> b | None \<Rightarrow> as_bytes (te_data t))\<rparr>)
            (\<lambda>payload. Inr (zreply KOutput rid payload)))))"

definition forward_event :: "zbrt_lib \<Rightarrow> bytes \<Rightarrow> guest_event \<Rightarrow> 'e zconn \<Rightarrow> bool \<times> 'e zconn" where
  "forward_event lib rid event c =
     (case output_frame lib rid event of
        None \<Rightarrow> (True, c) | Some (Inl e) \<Rightarrow> (False, c) | Some (Inr f) \<Rightarrow> emit f c)"

fun forward_events :: "zbrt_lib \<Rightarrow> bytes \<Rightarrow> guest_event list \<Rightarrow> 'e zconn \<Rightarrow> bool \<times> 'e zconn" where
  "forward_events lib rid [] c = (True, c)"
| "forward_events lib rid (e # es) c =
     (case forward_event lib rid e c of
        (False, c1) \<Rightarrow> (False, c1) | (True, c1) \<Rightarrow> forward_events lib rid es c1)"

section \<open>Requests\<close>

text \<open>\<open>entry.terminated = true\<close> and the eviction of the oldest terminated entries.\<close>

fun evict_terminated :: "bytes list \<Rightarrow> (bytes \<rightharpoonup> request_entry) \<Rightarrow> bytes list \<times> (bytes \<rightharpoonup> request_entry)" where
  "evict_terminated [] reqs = ([], reqs)"
| "evict_terminated (oldest # order) reqs =
     (if length (oldest # order) > TERMINATED_RETENTION then evict_terminated order (reqs(oldest := None))
      else (oldest # order, reqs))"

definition mark_terminated :: "bytes \<Rightarrow> 'e zconn \<Rightarrow> 'e zconn" where
  "mark_terminated rid c =
     (case zc_requests c rid of
        None \<Rightarrow> c
      | Some entry \<Rightarrow>
          (case evict_terminated (zc_terminated_order c @ [rid])
                  ((zc_requests c)(rid \<mapsto> entry\<lparr>en_terminated := True\<rparr>)) of
             (order, reqs) \<Rightarrow> c\<lparr>zc_requests := reqs, zc_terminated_order := order\<rparr>))"

text \<open>Write the terminal frame of a request.\<close>

definition emit_terminal :: "zbrt_lib \<Rightarrow> bytes \<Rightarrow> runtime_message list \<Rightarrow> 'e zconn \<Rightarrow> bool \<times> 'e zconn" where
  "emit_terminal lib rid responses c =
     (let f = terminal_frame lib rid responses in
      case emit f c of (ok, c1) \<Rightarrow> (ok, if ok then c1\<lparr>zc_finished := zc_finished c1 @ [f]\<rparr> else c1))"

text \<open>
  The fast path for built-in commands, run inside the loop: \<open>live\<close> are the events the executor sends to
  the sink, \<open>panics\<close> whether it panics.
\<close>

definition execute_inline ::
  "'e guest_executor \<Rightarrow> zbrt_lib \<Rightarrow> bytes \<Rightarrow> session_request \<Rightarrow> 'e \<Rightarrow> guest_event list \<Rightarrow> bool \<Rightarrow> 'e zconn
     \<Rightarrow> bool \<times> 'e zconn" where
  "execute_inline x lib rid turn e live panics c =
     (if panics then
        (case abandon_active_turn (zc_service c) of (responses, sv) \<Rightarrow>
          (case emit_terminal lib rid responses (c\<lparr>zc_service := sv\<rparr>) of
             (False, c1) \<Rightarrow> (False, c1) | (True, c1) \<Rightarrow> (True, mark_terminated rid c1)))
      else
        (case x_start_turn x turn (e, rs_flags (zc_service c)) of (result, e', h) \<Rightarrow>
          (case forward_events lib rid live (c\<lparr>zc_service := (zc_service c)\<lparr>rs_flags := h\<rparr>\<rparr>) of
             (False, c1) \<Rightarrow>
               (False, c1\<lparr>zc_service := snd (complete_turn (rq_session_id turn) (rq_request_id turn)
                  (Inl ''connection failed mid-turn'') e' (zc_service c1))\<rparr>)
           | (True, c1) \<Rightarrow>
               (case complete_turn (rq_session_id turn) (rq_request_id turn) result e' (zc_service c1) of
                  (responses, sv) \<Rightarrow>
                    (case emit_terminal lib rid responses (c1\<lparr>zc_service := sv\<rparr>) of
                       (False, c2) \<Rightarrow> (False, c2) | (True, c2) \<Rightarrow> (True, mark_terminated rid c2))))))"

text \<open>The handlers give the success of their own writes, an optional reply, and the new state.\<close>

definition handle_execute ::
  "'e guest_executor \<Rightarrow> zbrt_lib \<Rightarrow> bytes \<Rightarrow> bytes \<Rightarrow> guest_event list \<Rightarrow> bool \<Rightarrow> 'e zconn
     \<Rightarrow> bool \<times> zframe option \<times> 'e zconn" where
  "handle_execute x lib rid payload live panics c =
     (case decode_payload execute_dec payload of
        Inl _ \<Rightarrow> (True, Some (fail_closed_error rid ''invalid Execute payload''), c)
      | Inr exec \<Rightarrow>
        if exec_argv exec = [] then (True, Some (fail_closed_error rid ''argv is empty''), c)
        else if zc_worker_active c then (True, Some (fail_closed_error rid ''a turn is already active''), c)
        else if zc_requests c rid \<noteq> None then (True, Some (fail_closed_error rid ''duplicate request id''), c)
        else
          (let turn = execute_to_turn lib rid exec in
           case spawn_turn x turn (zc_service c) of
             (Inl message, sv) \<Rightarrow> (True, Some (runtime_error_to_frame rid message), c\<lparr>zc_service := sv\<rparr>)
           | (Inr e, sv) \<Rightarrow>
              (let c1 = c\<lparr>zc_service := sv, zc_accepted := zc_accepted c @ [rid],
                     zc_requests := (zc_requests c)(rid \<mapsto> \<lparr>en_request_id = rq_request_id turn, en_terminated = False\<rparr>)\<rparr>
               in if builtin (case l_parse lib (rq_prompt turn) of Some v \<Rightarrow> v | None \<Rightarrow> JNull) \<noteq> None
                  then (case execute_inline x lib rid turn e live panics c1 of (ok, c2) \<Rightarrow> (ok, None, c2))
                  else (True, None, c1\<lparr>zc_worker := Working turn rid e, zc_worker_active := True,
                         zc_active_id := Some rid\<rparr>))))"

definition handle_hello :: "bytes \<Rightarrow> bytes \<Rightarrow> zframe" where
  "handle_hello rid payload =
     (case decode_payload hello_dec payload of
        Inl _ \<Rightarrow> fail_closed_error rid ''invalid Hello payload''
      | Inr hello \<Rightarrow>
         if blank (hello_client hello) then fail_closed_error rid ''client is required''
         else (case hello_ack_encode \<lparr>ack_server = ''rfb-zeroboot-guest'', ack_capabilities = ZBRT_V1_CAPABILITIES\<rparr> of
             Inl _ \<Rightarrow> fail_closed_error rid ''encode HelloAck failed''
           | Inr b \<Rightarrow> zreply KHelloAck rid b))"

definition handle_fs ::
  "'e guest_executor \<Rightarrow> zbrt_lib \<Rightarrow> bytes \<Rightarrow> bytes \<Rightarrow> 'e runtime_service \<Rightarrow> zframe \<times> 'e runtime_service" where
  "handle_fs x lib rid payload sv =
     (case decode_payload fs_dec payload of
        Inl _ \<Rightarrow> (fail_closed_error rid ''invalid Fs payload'', sv)
      | Inr fs \<Rightarrow>
         (case filesystem_rpc x (fs_op fs) (normalize_workspace_path (fs_path fs)) (fs_data fs) sv of
            (Panicked, sv1) \<Rightarrow> (fail_closed_error rid (''fs rpc task failed: '' @ l_join_error lib), sv1)
          | (Returned (Inr b), sv1) \<Rightarrow> (zreply KFsResult rid b, sv1)
          | (Returned (Inl message), sv1) \<Rightarrow> (fail_closed_error rid message, sv1)))"

fun first_error :: "runtime_message list \<Rightarrow> string option" where
  "first_error [] = None"
| "first_error (RError _ message # ms) = Some message"
| "first_error (_ # ms) = first_error ms"

definition handle_cancel_frame ::
  "bytes \<Rightarrow> bytes \<Rightarrow> bytes option \<Rightarrow> (bytes \<rightharpoonup> request_entry) \<Rightarrow> 'e runtime_service
     \<Rightarrow> zframe \<times> 'e runtime_service" where
  "handle_cancel_frame rid payload active_id reqs sv =
     (case decode_payload cancel_dec payload of
        Inl _ \<Rightarrow> (fail_closed_error rid ''invalid Cancel payload'', sv)
      | Inr cancel \<Rightarrow>
        (let target = cancel_target cancel in
         if (case Option.bind target reqs of Some entry \<Rightarrow> en_terminated entry | None \<Rightarrow> False)
         then (cancel_ack rid, sv)
         else (case active_id of
             None \<Rightarrow> (cancel_ack rid, sv)
           | Some active \<Rightarrow>
               if target \<noteq> None \<and> target \<noteq> Some active
               then (fail_closed_error rid ''cancel target does not match active request'', sv)
               else (case reqs active of
                   None \<Rightarrow> (cancel_ack rid, sv)
                 | Some entry \<Rightarrow>
                    (case cancel_active SESSION_ID (en_request_id entry) sv of (responses, sv1) \<Rightarrow>
                      (case first_error responses of
                         Some message \<Rightarrow> (fail_closed_error rid message, sv1)
                       | None \<Rightarrow> (cancel_ack rid, sv1)))))))"

definition handle_health :: "bytes \<Rightarrow> bytes \<Rightarrow> zframe" where
  "handle_health rid payload =
     (case decode_payload health_dec payload of
        Inl _ \<Rightarrow> fail_closed_error rid ''invalid Health payload''
      | Inr _ \<Rightarrow> (case health_encode \<lparr>health_healthy = True, health_message = Some ''ready''\<rparr> of
          Inl _ \<Rightarrow> fail_closed_error rid ''encode HealthAck failed''
        | Inr b \<Rightarrow> zreply KHealthAck rid b))"

section \<open>The loop\<close>

text \<open>
  Leaving the loop: the active turn is cancelled, and the worker channel is drained and dropped, so
  nothing the worker sends afterwards is seen.
\<close>

definition teardown :: "'e zconn \<Rightarrow> 'e zconn" where
  "teardown c =
     c\<lparr>zc_open := False, zc_queue := [],
       zc_service := (case Option.bind (zc_active_id c) (zc_requests c) of
          None \<Rightarrow> zc_service c
        | Some entry \<Rightarrow> snd (cancel_active SESSION_ID (en_request_id entry) (zc_service c)))\<rparr>"

definition continue :: "bool \<times> 'e zconn \<Rightarrow> 'e zconn" where
  "continue r = (case r of (True, c) \<Rightarrow> c | (False, c) \<Rightarrow> teardown c)"

definition dispatch ::
  "'e guest_executor \<Rightarrow> zbrt_lib \<Rightarrow> zframe \<Rightarrow> guest_event list \<Rightarrow> bool \<Rightarrow> 'e zconn
     \<Rightarrow> bool \<times> zframe option \<times> 'e zconn" where
  "dispatch x lib f live panics c =
     (let rid = fr_request_id f; payload = fr_payload f in
      if \<not> zc_handshaked c \<and> fr_kind f \<noteq> KHello
      then (True, Some (fail_closed_error rid ''protocol handshake required''), c)
      else (case fr_kind f of
          KHello \<Rightarrow>
            (let sv = snd (handle x (CHello 1) (zc_service c)); reply = handle_hello rid payload
             in (True, Some reply, c\<lparr>zc_service := sv,
                   zc_handshaked := (zc_handshaked c \<or> fr_kind reply = KHelloAck)\<rparr>))
        | KExecute \<Rightarrow> handle_execute x lib rid payload live panics c
        | KCancel \<Rightarrow> (case handle_cancel_frame rid payload (zc_active_id c) (zc_requests c) (zc_service c) of
            (reply, sv) \<Rightarrow> (True, Some reply, c\<lparr>zc_service := sv\<rparr>))
        | KHealth \<Rightarrow> (True, Some (handle_health rid payload), c)
        | KFs \<Rightarrow> (case handle_fs x lib rid payload (zc_service c) of
            (reply, sv) \<Rightarrow> (True, Some reply, c\<lparr>zc_service := sv\<rparr>))
        | _ \<Rightarrow> (True, Some (fail_closed_error rid ''unsupported request kind''), c)))"

definition on_frame ::
  "'e guest_executor \<Rightarrow> zbrt_lib \<Rightarrow> zframe \<Rightarrow> guest_event list \<Rightarrow> bool \<Rightarrow> 'e zconn \<Rightarrow> 'e zconn" where
  "on_frame x lib f live panics c =
     (case dispatch x lib f live panics c of
        (False, _, c1) \<Rightarrow> teardown c1
      | (True, None, c1) \<Rightarrow> c1
      | (True, Some reply, c1) \<Rightarrow> continue (emit reply c1))"

fun on_worker_message :: "zbrt_lib \<Rightarrow> 'e worker_message \<Rightarrow> 'e zconn \<Rightarrow> 'e zconn" where
  "on_worker_message lib (WOutput rid event) c =
     (if zc_active_id c = Some rid then continue (forward_event lib rid event c) else c)"
| "on_worker_message lib (WTerminal rid sid rid_str result e) c =
     (case complete_turn sid rid_str result e (zc_service c) of (responses, sv) \<Rightarrow>
        (case emit_terminal lib rid responses (c\<lparr>zc_service := sv, zc_worker_active := False,
                zc_worker := No_Worker, zc_active_id := None\<rparr>) of
           (False, c1) \<Rightarrow> teardown c1
         | (True, c1) \<Rightarrow> mark_terminated rid c1))"

definition on_worker_panic :: "zbrt_lib \<Rightarrow> 'e zconn \<Rightarrow> 'e zconn" where
  "on_worker_panic lib c =
     (case abandon_active_turn (zc_service c) of (responses, sv) \<Rightarrow>
        (let c1 = c\<lparr>zc_service := sv, zc_worker_active := False, zc_worker := No_Worker, zc_active_id := None\<rparr>
         in case zc_active_id c of
              None \<Rightarrow> c1
            | Some rid \<Rightarrow> continue (emit_terminal lib rid responses c1)))"

text \<open>
  The \<^verbatim>\<open>select!\<close> polls the channel first, but a worker can send between that poll and the one of its join
  handle: the join is seen with whatever the channel holds. What is left in it then stays there, since the
  channel is only polled while a worker is active.
\<close>

inductive zstep :: "'e guest_executor \<Rightarrow> zbrt_lib \<Rightarrow> 'e zconn \<Rightarrow> 'e zconn \<Rightarrow> bool"
  for x :: "'e guest_executor" and lib :: zbrt_lib where
  worker_output: "zc_open c \<Longrightarrow> zc_worker c = Working turn rid e \<Longrightarrow>
     length (zc_queue c) < WORKER_CHANNEL_CAPACITY \<Longrightarrow>
     zstep x lib c (c\<lparr>zc_queue := zc_queue c @ [WOutput rid event]\<rparr>)"
| worker_done: "zc_open c \<Longrightarrow> zc_worker c = Working turn rid e \<Longrightarrow>
     length (zc_queue c) < WORKER_CHANNEL_CAPACITY \<Longrightarrow>
     x_start_turn x turn (e, rs_flags (zc_service c)) = (r, e', h) \<Longrightarrow>
     zstep x lib c (c\<lparr>zc_worker := Sent, zc_service := (zc_service c)\<lparr>rs_flags := h\<rparr>,
       zc_queue := zc_queue c @ [WTerminal rid (rq_session_id turn) (rq_request_id turn) r e']\<rparr>)"
| worker_crash: "zc_open c \<Longrightarrow> zc_worker c = Working turn rid e \<Longrightarrow>
     zstep x lib c (c\<lparr>zc_worker := Crashed\<rparr>)"
| received: "zc_open c \<Longrightarrow> zc_worker_active c \<Longrightarrow> zc_queue c = m # q \<Longrightarrow>
     zstep x lib c (on_worker_message lib m (c\<lparr>zc_queue := q\<rparr>))"
| joined: "zc_open c \<Longrightarrow> zc_worker_active c \<Longrightarrow> zc_worker c = Crashed \<Longrightarrow>
     zstep x lib c (on_worker_panic lib c)"
| frame: "zc_open c \<Longrightarrow> zstep x lib c (on_frame x lib f live panics c)"
| hangup: "zc_open c \<Longrightarrow> zstep x lib c (teardown c)"

section \<open>The invariant of an open connection\<close>

abbreviation finished_ids :: "'e zconn \<Rightarrow> bytes list" where
  "finished_ids c \<equiv> map fr_request_id (zc_finished c)"

fun outputs_of :: "bytes \<Rightarrow> 'e worker_message \<Rightarrow> bool" where
  "outputs_of rid (WOutput r ev) = (r = rid)"
| "outputs_of rid (WTerminal r a b c d) = False"

text \<open>
  The channel holds output of the active request, closed by its terminal when the worker is done; without an
  active request it can hold the rest of a worker that died, whose executor is gone.
\<close>

fun channel_ok :: "bytes option \<Rightarrow> bool \<Rightarrow> 'e zworker \<Rightarrow> 'e worker_message list \<Rightarrow> bool" where
  "channel_ok None act w q \<longleftrightarrow> \<not> act \<and> w = No_Worker"
| "channel_ok (Some rid) act w q \<longleftrightarrow> act \<and>
     (case w of
        No_Worker \<Rightarrow> False
      | Working t r e \<Rightarrow> r = rid \<and> list_all (outputs_of rid) q
      | Crashed \<Rightarrow> list_all (outputs_of rid) q
      | Sent \<Rightarrow> (\<exists>outs sid r res e. q = outs @ [WTerminal rid sid r res e] \<and> list_all (outputs_of rid) outs))"

text \<open>The request table holds the retained terminated requests and at most one other, while the
  executor is away.\<close>

definition table_ok :: "bytes option \<Rightarrow> (bytes \<rightharpoonup> request_entry) \<Rightarrow> bytes list \<Rightarrow> 'e runtime_service \<Rightarrow> bool" where
  "table_ok active reqs order sv \<longleftrightarrow>
     distinct order \<and> length order \<le> TERMINATED_RETENTION
     \<and> (\<forall>i \<in> set order. \<exists>en. reqs i = Some en \<and> en_terminated en)
     \<and> (\<forall>i en. reqs i = Some en \<and> en_terminated en \<longrightarrow> i \<in> set order)
     \<and> (dom reqs = set order \<and> active = None
        \<or> (\<exists>i. dom reqs = insert i (set order) \<and> i \<notin> set order \<and> rs_executor sv = None
             \<and> (active = None \<or> active = Some i)))"

definition balanced :: "bytes option \<Rightarrow> bytes list \<Rightarrow> bytes list \<Rightarrow> bool" where
  "balanced active accepted finished \<longleftrightarrow>
     (\<forall>i. count_list accepted i = count_list finished i + (if active = Some i then 1 else 0))"

definition zinv :: "'e zconn \<Rightarrow> bool" where
  "zinv c \<longleftrightarrow>
     channel_ok (zc_active_id c) (zc_worker_active c) (zc_worker c) (zc_queue c)
     \<and> length (zc_queue c) \<le> WORKER_CHANNEL_CAPACITY
     \<and> (zc_active_id c = None \<and> zc_queue c \<noteq> [] \<longrightarrow> rs_executor (zc_service c) = None)
     \<and> table_ok (zc_active_id c) (zc_requests c) (zc_terminated_order c) (zc_service c)
     \<and> balanced (zc_active_id c) (zc_accepted c) (finished_ids c)"

text \<open>What is known of any connection, open or not.\<close>

definition zhist :: "'e zconn \<Rightarrow> bool" where
  "zhist c \<longleftrightarrow>
     (\<forall>i. count_list (finished_ids c) i \<le> count_list (zc_accepted c) i
        \<and> count_list (zc_accepted c) i \<le> count_list (finished_ids c) i + 1)
     \<and> subseq (zc_finished c) (zc_written c)
     \<and> (\<forall>f \<in> set (zc_finished c). fr_kind f = KExit \<or> fr_kind f = KError)"

section \<open>Lemmas\<close>

text \<open>Writing touches nothing but the transport.\<close>

lemma emit_cases:
  obtains b where "emit f c = (True, c\<lparr>zc_written := zc_written c @ [f], zc_budget := b\<rparr>)"
  | "emit f c = (False, c)"
  by (cases "is_ok (frame_encode f) \<and> zc_budget c \<noteq> Some 0") (auto simp: emit_def)

lemma forward_event_effect:
  "\<exists>fs b. snd (forward_event lib rid ev c) = c\<lparr>zc_written := zc_written c @ fs, zc_budget := b\<rparr>"
proof -
  have same: "\<exists>fs b. c = c\<lparr>zc_written := zc_written c @ fs, zc_budget := b\<rparr>"
    by (intro exI [of _ "[]"] exI [of _ "zc_budget c"]) simp
  have "\<exists>fs b. snd (emit f c) = c\<lparr>zc_written := zc_written c @ fs, zc_budget := b\<rparr>" for f
    using same by (cases rule: emit_cases [of f c]) auto
  with same show ?thesis by (simp add: forward_event_def split: option.split sum.split)
qed

lemma forward_events_effect:
  "\<exists>fs b. snd (forward_events lib rid evs c) = c\<lparr>zc_written := zc_written c @ fs, zc_budget := b\<rparr>"
proof (induction evs arbitrary: c)
  case Nil
  show ?case by (intro exI [of _ "[]"] exI [of _ "zc_budget c"]) simp
next
  case (Cons ev evs)
  obtain fs b where f: "snd (forward_event lib rid ev c) = c\<lparr>zc_written := zc_written c @ fs, zc_budget := b\<rparr>"
    using forward_event_effect by blast
  let ?c1 = "c\<lparr>zc_written := zc_written c @ fs, zc_budget := b\<rparr>"
  show ?case
  proof (cases "fst (forward_event lib rid ev c)")
    case True
    then have "forward_events lib rid (ev # evs) c = forward_events lib rid evs ?c1"
      using f by (simp add: case_prod_beta prod_eq_iff split: prod.split bool.split)
    moreover obtain gs b' where "snd (forward_events lib rid evs ?c1)
        = ?c1\<lparr>zc_written := zc_written ?c1 @ gs, zc_budget := b'\<rparr>"
      using Cons.IH by blast
    ultimately show ?thesis by (intro exI [of _ "fs @ gs"] exI [of _ b']) simp
  next
    case False
    then have "snd (forward_events lib rid (ev # evs) c) = ?c1"
      using f by (simp add: case_prod_beta split: prod.split bool.split)
    then show ?thesis by blast
  qed
qed

lemma terminal_scan_frame:
  "terminal_scan lib rid ms = Some f \<Longrightarrow> fr_request_id f = rid \<and> (fr_kind f = KExit \<or> fr_kind f = KError)"
  by (induction ms) (auto simp: fail_closed_error_def exit_frame_def split: runtime_message.splits if_splits)

lemma terminal_frame_fields:
  "fr_request_id (terminal_frame lib rid ms) = rid"
  "fr_kind (terminal_frame lib rid ms) = KExit \<or> fr_kind (terminal_frame lib rid ms) = KError"
  by (auto simp: terminal_frame_def fail_closed_error_def dest: terminal_scan_frame split: option.split)

lemma emit_terminal_cases:
  obtains b where "emit_terminal lib rid ms c = (True, c\<lparr>zc_written := zc_written c @ [terminal_frame lib rid ms],
      zc_budget := b, zc_finished := zc_finished c @ [terminal_frame lib rid ms]\<rparr>)"
  | "emit_terminal lib rid ms c = (False, c)"
  by (cases rule: emit_cases [of "terminal_frame lib rid ms" c]) (auto simp: emit_terminal_def Let_def)

lemma evict_terminated_snoc:
  assumes "length order \<le> TERMINATED_RETENTION"
  shows "evict_terminated (order @ [rid]) reqs =
    (if length order < TERMINATED_RETENTION then (order @ [rid], reqs)
     else (tl order @ [rid], reqs(hd order := None)))"
  using assms by (cases order; cases "tl order") (auto simp: TERMINATED_RETENTION_def)

lemma table_ok_accept:
  assumes "table_ok None reqs order sv" "reqs rid = None" "rs_executor sv \<noteq> None" "rs_executor sv' = None"
    "\<not> en_terminated en"
  shows "table_ok (Some rid) (reqs(rid \<mapsto> en)) order sv'"
proof -
  have d: "dom reqs = set order" using assms(1,3) by (auto simp: table_ok_def)
  then have "rid \<notin> set order" using assms(2) by auto
  then show ?thesis using assms d unfolding table_ok_def by (auto split: if_splits)
qed

lemma table_ok_abandon:
  assumes "table_ok (Some rid) reqs order sv" "rs_executor sv' = None"
  shows "table_ok None reqs order sv'"
  using assms unfolding table_ok_def by auto

lemma table_ok_service:
  assumes "table_ok active reqs order sv" "rs_executor sv = None \<Longrightarrow> rs_executor sv' = None"
  shows "table_ok active reqs order sv'"
  using assms unfolding table_ok_def by blast

lemma table_ok_finish:
  assumes "table_ok (Some rid) (zc_requests c) (zc_terminated_order c) sv"
  shows "table_ok None (zc_requests (mark_terminated rid c)) (zc_terminated_order (mark_terminated rid c)) sv'"
proof -
  let ?reqs = "zc_requests c" and ?order = "zc_terminated_order c"
  have t: "distinct ?order" "length ?order \<le> TERMINATED_RETENTION"
    "\<forall>i \<in> set ?order. \<exists>en. ?reqs i = Some en \<and> en_terminated en"
    "\<forall>i en. ?reqs i = Some en \<and> en_terminated en \<longrightarrow> i \<in> set ?order"
    "dom ?reqs = insert rid (set ?order)" "rid \<notin> set ?order"
    using assms by (auto simp: table_ok_def)
  obtain en where en: "?reqs rid = Some en" using t(5) by blast
  let ?r = "?reqs(rid \<mapsto> en\<lparr>en_terminated := True\<rparr>)"
  show ?thesis
  proof (cases "length ?order < TERMINATED_RETENTION")
    case True
    then have "mark_terminated rid c = c\<lparr>zc_requests := ?r, zc_terminated_order := ?order @ [rid]\<rparr>"
      using en t(2) by (simp add: mark_terminated_def evict_terminated_snoc)
    then show ?thesis using True t by (auto simp: table_ok_def)
  next
    case False
    then obtain o1 os where o: "?order = o1 # os" by (cases ?order) (auto simp: TERMINATED_RETENTION_def)
    have m: "mark_terminated rid c = c\<lparr>zc_requests := ?r(o1 := None), zc_terminated_order := os @ [rid]\<rparr>"
      using en t(2) False o by (simp add: mark_terminated_def evict_terminated_snoc)
    have "o1 \<noteq> rid" "o1 \<notin> set os" using t(1,6) o by auto
    then show ?thesis using t o unfolding m table_ok_def by auto
  qed
qed

lemma mark_terminated_fields [simp]:
  "zc_service (mark_terminated rid c) = zc_service c" "zc_open (mark_terminated rid c) = zc_open c"
  "zc_worker_active (mark_terminated rid c) = zc_worker_active c"
  "zc_active_id (mark_terminated rid c) = zc_active_id c" "zc_queue (mark_terminated rid c) = zc_queue c"
  "zc_worker (mark_terminated rid c) = zc_worker c" "zc_accepted (mark_terminated rid c) = zc_accepted c"
  "zc_finished (mark_terminated rid c) = zc_finished c" "zc_written (mark_terminated rid c) = zc_written c"
  by (simp_all add: mark_terminated_def split: option.split prod.split)

lemma balanced_finish: "balanced (Some rid) accepted finished \<Longrightarrow> balanced None accepted (finished @ [rid])"
  unfolding balanced_def by (auto split: if_splits)

lemma balanced_accept: "balanced None accepted finished \<Longrightarrow> balanced (Some rid) (accepted @ [rid]) finished"
  unfolding balanced_def by auto

lemma zhist_teardown [simp]: "zhist (teardown c) = zhist c"
  by (simp add: zhist_def teardown_def)

lemma zhist_mark [simp]: "zhist (mark_terminated rid c) = zhist c"
  by (simp add: zhist_def)

lemma open_teardown [simp]: "zc_open (teardown c) = False"
  by (simp add: teardown_def)

lemma zhist_written:
  "zhist c \<Longrightarrow> zhist (c\<lparr>zc_written := zc_written c @ fs, zc_budget := b\<rparr>)"
  by (auto simp: zhist_def)

lemma zinv_written [simp]:
  "zinv (c\<lparr>zc_written := w, zc_budget := b\<rparr>) = zinv c"
  by (simp add: zinv_def)

lemma zinv_service:
  "zinv c \<Longrightarrow> (rs_executor (zc_service c) = None \<Longrightarrow> rs_executor sv = None) \<Longrightarrow> zinv (c\<lparr>zc_service := sv\<rparr>)"
  unfolding zinv_def by (auto intro: table_ok_service)

lemma zhist_service [simp]: "zhist (c\<lparr>zc_service := sv\<rparr>) = zhist c"
  by (simp add: zhist_def)

lemma zhist_balanced:
  assumes "zhist c" "balanced (Some rid) (zc_accepted c) (finished_ids c)"
  shows "zhist (c\<lparr>zc_written := zc_written c @ [terminal_frame lib rid ms], zc_budget := b,
     zc_finished := zc_finished c @ [terminal_frame lib rid ms]\<rparr>)"
  using assms terminal_frame_fields [of lib rid ms]
  unfolding zhist_def balanced_def by (auto split: if_splits)

text \<open>The end of a request: its terminal frame, then the table.\<close>

lemma terminal_sound:
  assumes "zhist c" "channel_ok None (zc_worker_active c) (zc_worker c) (zc_queue c)" "zc_active_id c = None"
    "balanced (Some rid) (zc_accepted c) (finished_ids c)"
    "table_ok (Some rid) (zc_requests c) (zc_terminated_order c) svx"
    "emit_terminal lib rid ms c = (ok, c1)"
    and q: "zc_queue c \<noteq> [] \<longrightarrow> rs_executor (zc_service c) = None" "length (zc_queue c) \<le> WORKER_CHANNEL_CAPACITY"
  shows "zhist c1 \<and> (ok \<longrightarrow> zinv (mark_terminated rid c1))
    \<and> (ok \<longrightarrow> rs_executor (zc_service c) = None \<longrightarrow> zinv c1)"
proof (cases rule: emit_terminal_cases [of lib rid ms c])
  case (1 b)
  have c1: "ok" "c1 = c\<lparr>zc_written := zc_written c @ [terminal_frame lib rid ms], zc_budget := b,
      zc_finished := zc_finished c @ [terminal_frame lib rid ms]\<rparr>"
    using 1 assms(6) by auto
  have ids: "finished_ids c1 = finished_ids c @ [rid]" by (simp add: c1 terminal_frame_fields(1))
  have bal: "balanced None (zc_accepted c1) (finished_ids c1)"
    using balanced_finish [OF assms(4)] unfolding ids by (simp add: c1)
  have tab: "table_ok (Some rid) (zc_requests c1) (zc_terminated_order c1) svx" using assms(5) by (simp add: c1)
  have "zinv (mark_terminated rid c1)"
    using assms(2,3) q table_ok_finish [OF tab] bal unfolding zinv_def by (simp add: c1)
  moreover have "zinv c1" if "rs_executor (zc_service c) = None"
    using assms(2,3) q table_ok_abandon [OF tab that] bal that unfolding zinv_def by (simp add: c1)
  moreover have "zhist c1" using zhist_balanced [OF assms(1,4)] c1 by simp
  ultimately show ?thesis by blast
qed (use assms in auto)

lemma cancel_active_executor [simp]: "rs_executor (snd (cancel_active sid rid sv)) = rs_executor sv"
  by (simp add: cancel_active_def record_cancelled_def store_flag_def Let_def split: option.split prod.split)

lemma handle_fs_executor:
  assumes "rs_executor sv = None"
  shows "rs_executor (snd (handle_fs x lib rid payload sv)) = None"
  using assms by (auto simp: handle_fs_def filesystem_rpc_def split: sum.split)

lemma handle_cancel_executor:
  "rs_executor (snd (handle_cancel_frame rid payload a reqs sv)) = rs_executor sv"
  by (auto simp: handle_cancel_frame_def Let_def case_prod_beta split: sum.split option.split)

lemma inline_sound:
  assumes "zhist c" "channel_ok None (zc_worker_active c) (zc_worker c) (zc_queue c)" "zc_active_id c = None"
    "balanced (Some rid) (zc_accepted c) (finished_ids c)"
    "table_ok (Some rid) (zc_requests c) (zc_terminated_order c) sv0"
    "execute_inline x lib rid turn e live panics c = (ok, c')"
    and q: "zc_queue c = []"
  shows "zhist c' \<and> (ok \<longrightarrow> zinv c')"
proof (cases panics)
  case True
  obtain ms sv where a: "abandon_active_turn (zc_service c) = (ms, sv)" by fastforce
  obtain ok1 c1 where t: "emit_terminal lib rid ms (c\<lparr>zc_service := sv\<rparr>) = (ok1, c1)" by fastforce
  have "zhist c1 \<and> (ok1 \<longrightarrow> zinv (mark_terminated rid c1))"
    using terminal_sound [OF _ _ _ _ _ t, where svx = sv0] assms(1-5) q by simp
  then show ?thesis using assms(6) a t True by (cases ok1) (auto simp: execute_inline_def)
next
  case False
  obtain r e' h where x: "x_start_turn x turn (e, rs_flags (zc_service c)) = (r, e', h)" by (metis prod_cases3)
  let ?c0 = "c\<lparr>zc_service := (zc_service c)\<lparr>rs_flags := h\<rparr>\<rparr>"
  obtain okf c1 where f: "forward_events lib rid live ?c0 = (okf, c1)" by fastforce
  obtain fs b where c1: "c1 = ?c0\<lparr>zc_written := zc_written ?c0 @ fs, zc_budget := b\<rparr>"
    using forward_events_effect [of lib rid live ?c0] f by auto
  have h1: "zhist c1" unfolding c1 by (rule zhist_written) (simp add: assms(1))
  obtain ms sv where k: "complete_turn (rq_session_id turn) (rq_request_id turn) r e' (zc_service c1) = (ms, sv)"
    by fastforce
  obtain ok1 c2 where t: "emit_terminal lib rid ms (c1\<lparr>zc_service := sv\<rparr>) = (ok1, c2)" by fastforce
  have "zhist c2 \<and> (ok1 \<longrightarrow> zinv (mark_terminated rid c2))"
  proof -
    have "zhist (c1\<lparr>zc_service := sv\<rparr>)" using h1 by simp
    from terminal_sound [OF this _ _ _ _ t, where svx = sv0] show ?thesis
      using assms(2-5) q by (simp add: c1)
  qed
  then show ?thesis
    using assms(6) False x f k t h1 by (cases okf; cases ok1) (auto simp: execute_inline_def)
qed

lemma execute_sound:
  assumes "zhist c" "zinv c" "handle_execute x lib rid payload live panics c = (ok, reply, c')"
  shows "zhist c' \<and> (ok \<longrightarrow> zinv c')"
proof (cases "\<exists>exec. decode_payload execute_dec payload = Inr exec \<and> exec_argv exec \<noteq> []
    \<and> \<not> zc_worker_active c \<and> zc_requests c rid = None")
  case False
  then have "c' = c" using assms(3) by (auto simp: handle_execute_def split: sum.splits if_splits)
  then show ?thesis using assms by simp
next
  case True
  then obtain exec where exec: "decode_payload execute_dec payload = Inr exec" "exec_argv exec \<noteq> []"
    "\<not> zc_worker_active c" "zc_requests c rid = None" by blast
  let ?turn = "execute_to_turn lib rid exec"
  obtain r sv where sp: "spawn_turn x ?turn (zc_service c) = (r, sv)" by fastforce
  show ?thesis
  proof (cases r)
    case (Inl m)
    have "sv = zc_service c" using sp Inl by (subst (asm) spawn_turn_cases) (auto split: if_splits option.splits prod.splits)
    then show ?thesis using assms exec sp Inl by (auto simp: handle_execute_def Let_def)
  next
    case (Inr e)
    have ex: "rs_executor (zc_service c) \<noteq> None" "rs_executor sv = None"
      using spawn_takes_executor [of x ?turn "zc_service c" e sv] sp Inr by auto
    have act: "zc_active_id c = None" "channel_ok None (zc_worker_active c) (zc_worker c) (zc_queue c)" "zc_queue c = []"
      using assms(2) exec(3) ex(1) by (cases "zc_active_id c"; auto simp add: zinv_def)+
    define c1 where "c1 = c\<lparr>zc_service := sv, zc_accepted := zc_accepted c @ [rid],
       zc_requests := (zc_requests c)(rid \<mapsto> \<lparr>en_request_id = rq_request_id ?turn, en_terminated = False\<rparr>)\<rparr>"
    have bal: "balanced None (zc_accepted c) (finished_ids c)" using assms(2) act by (simp add: zinv_def)
    have b1: "balanced (Some rid) (zc_accepted c1) (finished_ids c1)"
      using balanced_accept [OF bal] by (simp add: c1_def)
    have t1: "table_ok (Some rid) (zc_requests c1) (zc_terminated_order c1) sv"
      using assms(2) act exec(4) ex by (auto simp: c1_def zinv_def intro!: table_ok_accept)
    have h1: "zhist c1" using assms(1) bal unfolding zhist_def balanced_def c1_def by auto
    show ?thesis
    proof (cases "builtin (case l_parse lib (rq_prompt ?turn) of Some v \<Rightarrow> v | None \<Rightarrow> JNull) = None")
      case True
      then have "c' = c1\<lparr>zc_worker := Working ?turn rid e, zc_worker_active := True, zc_active_id := Some rid\<rparr>"
        using assms(3) exec sp Inr by (simp add: handle_execute_def Let_def c1_def)
      then show ?thesis using h1 b1 t1 act by (simp add: zinv_def zhist_def c1_def WORKER_CHANNEL_CAPACITY_def)
    next
      case False
      then have "execute_inline x lib rid ?turn e live panics c1 = (ok, c')"
        using assms(3) exec sp Inr by (auto simp: handle_execute_def Let_def c1_def split: prod.splits)
      from inline_sound [OF h1 _ _ b1 t1 this] act show ?thesis by (simp add: c1_def)
    qed
  qed
qed

lemma continue_sound:
  assumes "zhist c" "zinv c" "snd r = c\<lparr>zc_written := zc_written c @ fs, zc_budget := b\<rparr>"
  shows "zhist (continue r) \<and> (zc_open (continue r) \<longrightarrow> zinv (continue r))"
proof -
  have "zhist (snd r)" "zinv (snd r)" using zhist_written [OF assms(1), of b fs] assms(2,3) by simp_all
  then show ?thesis by (cases r; cases "fst r") (auto simp: continue_def)
qed

lemma emit_effect: "\<exists>fs b. snd (emit f c) = c\<lparr>zc_written := zc_written c @ fs, zc_budget := b\<rparr>"
proof (cases rule: emit_cases [of f c])
  case 2
  then show ?thesis by (intro exI [of _ "[]"] exI [of _ "zc_budget c"]) simp
qed auto

lemma dispatch_sound:
  assumes "zhist c" "zinv c" "dispatch x lib f live panics c = (ok, reply, c')"
  shows "zhist c' \<and> (ok \<longrightarrow> zinv c')"
proof (cases "zc_handshaked c \<or> fr_kind f = KHello")
  case False
  then show ?thesis using assms by (auto simp: dispatch_def Let_def)
next
  case True
  have hello: "zinv (c\<lparr>zc_service := snd (handle x (CHello 1) (zc_service c)), zc_handshaked := hs\<rparr>)" for hs
    using zinv_service [OF assms(2), of "snd (handle x (CHello 1) (zc_service c))"] executor_absent_handle
    by (auto simp: zinv_def)
  have hh: "zhist (c\<lparr>zc_service := sv, zc_handshaked := hs\<rparr>)" for sv hs
    using assms(1) by (simp add: zhist_def)
  have cancel: "zinv (c\<lparr>zc_service := snd (handle_cancel_frame r p a q (zc_service c))\<rparr>)" for r p a q
    by (rule zinv_service [OF assms(2)]) (simp add: handle_cancel_executor)
  have fs: "zinv (c\<lparr>zc_service := snd (handle_fs x lib r p (zc_service c))\<rparr>)" for r p
    by (rule zinv_service [OF assms(2)]) (simp add: handle_fs_executor)
  show ?thesis
  proof (cases "fr_kind f = KExecute")
    case True
    with \<open>zc_handshaked c \<or> fr_kind f = KHello\<close> show ?thesis
      using assms by (intro execute_sound [of c x lib "fr_request_id f" "fr_payload f" live panics ok reply])
        (auto simp: dispatch_def Let_def)
  next
    case False
    with True show ?thesis
      using assms hello hh cancel fs
      by (cases "fr_kind f") (auto simp: dispatch_def Let_def case_prod_beta)
  qed
qed

lemma frame_sound:
  assumes "zhist c" "zinv c"
  shows "zhist (on_frame x lib f live panics c)
    \<and> (zc_open (on_frame x lib f live panics c) \<longrightarrow> zinv (on_frame x lib f live panics c))"
proof -
  obtain ok reply c1 where d: "dispatch x lib f live panics c = (ok, reply, c1)" by (metis prod_cases3)
  note s = dispatch_sound [OF assms d]
  show ?thesis
  proof (cases "ok \<and> reply \<noteq> None")
    case True
    then obtain r where r: "reply = Some r" by auto
    obtain fs b where "snd (emit r c1) = c1\<lparr>zc_written := zc_written c1 @ fs, zc_budget := b\<rparr>"
      using emit_effect by blast
    with continue_sound [OF _ _ this] s True r d show ?thesis by (auto simp: on_frame_def)
  qed (use s d in \<open>auto simp: on_frame_def split: bool.splits\<close>)
qed

lemma message_sound:
  assumes "zhist c" "zinv c" "zc_worker_active c" "zc_queue c = m # q"
    and c'_def: "c' = on_worker_message lib m (c\<lparr>zc_queue := q\<rparr>)"
  shows "zhist c' \<and> (zc_open c' \<longrightarrow> zinv c')"
proof -
  let ?c0 = "c\<lparr>zc_queue := q\<rparr>"
  obtain rid where rid: "zc_active_id c = Some rid" using assms(2,3) by (cases "zc_active_id c") (auto simp: zinv_def)
  have h0: "zhist ?c0" using assms(1) by (simp add: zhist_def)
  show ?thesis
  proof (cases m)
    case (WOutput r ev)
    have "zinv ?c0" using assms(2,4) WOutput rid
      by (auto simp: zinv_def Cons_eq_append_conv split: zworker.splits)
    moreover obtain fs b where "snd (forward_event lib r ev ?c0) = ?c0\<lparr>zc_written := zc_written ?c0 @ fs, zc_budget := b\<rparr>"
      using forward_event_effect by blast
    ultimately show ?thesis using continue_sound [OF h0] h0 WOutput by (simp add: c'_def)
  next
    case (WTerminal r sid rs res e)
    have q: "r = rid" "q = []"
      using assms(2,4) WTerminal rid by (auto simp: zinv_def Cons_eq_append_conv split: zworker.splits)
    obtain ms sv where k: "complete_turn sid rs res e (zc_service c) = (ms, sv)" by fastforce
    let ?c1 = "?c0\<lparr>zc_service := sv, zc_worker_active := False, zc_worker := No_Worker, zc_active_id := None\<rparr>"
    obtain ok c2 where t: "emit_terminal lib rid ms ?c1 = (ok, c2)" by fastforce
    have "zhist ?c1" using assms(1) by (simp add: zhist_def)
    from terminal_sound [OF this _ _ _ _ t, where svx = "zc_service c"]
    have "zhist c2 \<and> (ok \<longrightarrow> zinv (mark_terminated rid c2))"
      using assms(2) rid q by (simp add: zinv_def)
    then show ?thesis using WTerminal k t q by (cases ok) (simp_all add: c'_def)
  qed
qed

lemma panic_sound:
  assumes "zhist c" "zinv c" "zc_worker_active c"
    and c'_def: "c' = on_worker_panic lib c"
  shows "zhist c' \<and> (zc_open c' \<longrightarrow> zinv c')"
proof -
  obtain rid where rid: "zc_active_id c = Some rid" using assms(2,3) by (cases "zc_active_id c") (auto simp: zinv_def)
  obtain ms sv where a: "abandon_active_turn (zc_service c) = (ms, sv)" by fastforce
  have away: "rs_executor (zc_service c) = None"
    using assms(2) rid by (auto simp: zinv_def table_ok_def)
  then have sv: "rs_executor sv = None" using executor_kept_abandon [of "zc_service c"] a by simp
  let ?c1 = "c\<lparr>zc_service := sv, zc_worker_active := False, zc_worker := No_Worker, zc_active_id := None\<rparr>"
  obtain ok c2 where t: "emit_terminal lib rid ms ?c1 = (ok, c2)" by fastforce
  have "zhist ?c1" using assms(1) by (simp add: zhist_def)
  from terminal_sound [OF this _ _ _ _ t, where svx = "zc_service c"]
  have "zhist c2 \<and> (ok \<longrightarrow> zinv c2)" using assms(2) rid sv by (simp add: zinv_def)
  then show ?thesis using a t rid by (cases ok) (simp_all add: c'_def on_worker_panic_def continue_def)
qed

lemma step_sound:
  assumes "zstep x lib c c'" "zhist c" "zc_open c \<longrightarrow> zinv c"
  shows "zhist c' \<and> (zc_open c' \<longrightarrow> zinv c')"
  using assms
proof (induction rule: zstep.induct)
  case (worker_output c turn rid e event)
  then show ?case by (cases "zc_active_id c") (auto simp: zinv_def zhist_def)
next
  case (worker_done c turn rid e r e' h)
  then show ?case
    by (cases "zc_active_id c") (auto simp: zinv_def zhist_def table_ok_def)
next
  case (worker_crash c turn rid e)
  then show ?case by (cases "zc_active_id c") (auto simp: zinv_def zhist_def)
next
  case (received c m q)
  then show ?case using message_sound by blast
next
  case (joined c)
  then show ?case using panic_sound by blast
next
  case (frame c f live panics)
  then show ?case using frame_sound by blast
qed simp

lemma reachable_sound:
  assumes "(zstep x lib)\<^sup>*\<^sup>* (zconn_start budget (with_executor limits e h)) c"
  shows "zhist c \<and> (zc_open c \<longrightarrow> zinv c)"
  using assms
proof induction
  case base
  show ?case by (simp add: zhist_def zinv_def zconn_start_def table_ok_def balanced_def
        WORKER_CHANNEL_CAPACITY_def TERMINATED_RETENTION_def)
qed (use step_sound in blast)

section \<open>The handshake\<close>

lemma hello_keeps_executor: "rs_executor (snd (handle x (CHello v) sv)) = rs_executor sv"
  by (auto simp: handle_def handle_turn_in_flight_def returned_def hello_reply_def split: option.split)

lemma handshake_kept:
  "zc_handshaked (teardown c) = zc_handshaked c" "zc_handshaked (mark_terminated rid c) = zc_handshaked c"
  "zc_handshaked (snd (emit f c)) = zc_handshaked c"
  "zc_handshaked (snd (emit_terminal lib rid ms c)) = zc_handshaked c"
  by (auto simp: teardown_def mark_terminated_def emit_def emit_terminal_def Let_def case_prod_beta split: option.split)

lemma handshake_continue: "zc_handshaked (continue r) = zc_handshaked (snd r)"
  by (auto simp: continue_def handshake_kept split: prod.split bool.split)

lemma handshake_forward:
  "zc_handshaked (snd (forward_event lib rid ev c)) = zc_handshaked c"
  "zc_handshaked (snd (forward_events lib rid evs c)) = zc_handshaked c"
  using forward_event_effect [of lib rid ev c] forward_events_effect [of lib rid evs c] by auto

lemma handshake_panic: "zc_handshaked (on_worker_panic lib c) = zc_handshaked c"
  by (auto simp: on_worker_panic_def Let_def case_prod_beta handshake_continue handshake_kept split: option.split)

lemma handshake_message: "zc_handshaked (on_worker_message lib m c) = zc_handshaked c"
  by (cases m) (auto simp: case_prod_beta handshake_continue handshake_forward handshake_kept split: bool.split)

lemma handshake_inline: "zc_handshaked (snd (execute_inline x lib rid turn e live panics c)) = zc_handshaked c"
  by (auto simp: execute_inline_def case_prod_beta handshake_forward handshake_kept split: bool.split)

lemma handshake_execute:
  "zc_handshaked (snd (snd (handle_execute x lib rid payload live panics c))) = zc_handshaked c"
  by (auto simp: handle_execute_def Let_def case_prod_beta handshake_inline split: sum.split)

lemma handshake_dispatch:
  "zc_handshaked c \<Longrightarrow> zc_handshaked (snd (snd (dispatch x lib f live panics c)))"
  by (auto simp: dispatch_def Let_def case_prod_beta handshake_execute split: kind.split)

text \<open>Before the handshake the connection has written nothing but errors, and nothing has reached the
  executor.\<close>

definition untouched :: "'e \<Rightarrow> 'e zconn \<Rightarrow> bool" where
  "untouched e c \<longleftrightarrow> zc_accepted c = [] \<and> zc_requests c = Map.empty \<and> zc_worker c = No_Worker
     \<and> \<not> zc_worker_active c \<and> zc_active_id c = None \<and> rs_executor (zc_service c) = Some e
     \<and> (\<forall>f \<in> set (zc_written c). fr_kind f = KError)"

lemma continue_emit_cases:
  obtains b where "continue (emit f c) = c\<lparr>zc_written := zc_written c @ [f], zc_budget := b\<rparr>"
  | "continue (emit f c) = teardown c"
  by (cases rule: emit_cases [of f c]) (auto simp: continue_def)

lemma untouched_teardown [simp]: "untouched e (teardown c) = untouched e c"
  by (auto simp: untouched_def teardown_def)

lemma untouched_error:
  assumes "untouched e c" "fr_kind f = KError"
  shows "untouched e (continue (emit f c))"
proof (cases rule: continue_emit_cases [of f c])
  case (1 b)
  then show ?thesis using assms by (auto simp: untouched_def)
next
  case 2
  then show ?thesis using assms(1) by simp
qed

lemma handle_hello_kind: "fr_kind (handle_hello rid p) = KHelloAck \<or> fr_kind (handle_hello rid p) = KError"
  by (auto simp: handle_hello_def fail_closed_error_def split: sum.split)

lemma step_untouched:
  assumes "zstep x lib c c'" "\<not> zc_handshaked c \<longrightarrow> untouched e c"
  shows "\<not> zc_handshaked c' \<longrightarrow> untouched e c'"
  using assms
proof (induction rule: zstep.induct)
  case (received c m q)
  then show ?case using handshake_message [of lib m "c\<lparr>zc_queue := q\<rparr>"] by (auto simp: untouched_def)
next
  case (joined c)
  then show ?case using handshake_panic [of lib c] by (auto simp: untouched_def)
next
  case (frame c f live panics)
  show ?case
  proof (cases "zc_handshaked c")
    case False
    then have u: "untouched e c" using frame by simp
    show ?thesis
    proof (cases "fr_kind f = KHello")
      case True
      let ?r = "handle_hello (fr_request_id f) (fr_payload f)"
      let ?c1 = "c\<lparr>zc_service := snd (handle x (CHello 1) (zc_service c)), zc_handshaked := (fr_kind ?r = KHelloAck)\<rparr>"
      have f: "on_frame x lib f live panics c = continue (emit ?r ?c1)"
        using True False by (simp add: on_frame_def dispatch_def Let_def)
      have "untouched e ?c1" using u by (simp add: untouched_def hello_keeps_executor)
      then have "untouched e (continue (emit ?r ?c1))" if "fr_kind ?r = KError"
        by (rule untouched_error [OF _ that])
      moreover have "zc_handshaked (continue (emit ?r ?c1))" if "fr_kind ?r = KHelloAck"
        using that by (simp add: handshake_continue handshake_kept)
      ultimately show ?thesis
        using handle_hello_kind [of "fr_request_id f" "fr_payload f"] unfolding f by blast
    next
      case not_hello: False
      then have "on_frame x lib f live panics c
          = continue (emit (fail_closed_error (fr_request_id f) ''protocol handshake required'') c)"
        using False by (simp add: on_frame_def dispatch_def Let_def)
      then show ?thesis using untouched_error [OF u] by (simp add: fail_closed_error_def)
    qed
  next
    case True
    then have "zc_handshaked (on_frame x lib f live panics c)"
      using handshake_dispatch [OF True, of x lib f live panics]
      by (auto simp: on_frame_def case_prod_beta handshake_continue handshake_kept split: bool.split option.split)
    then show ?thesis by simp
  qed
next
  case (hangup c)
  then show ?case by (simp add: handshake_kept)
qed (auto simp: untouched_def)

lemma reachable_untouched:
  assumes "(zstep x lib)\<^sup>*\<^sup>* (zconn_start budget (with_executor limits e h)) c" "\<not> zc_handshaked c"
  shows "untouched e c"
  using assms
proof (induction)
  case base
  show ?case by (simp add: untouched_def zconn_start_def with_executor_def)
next
  case (step c c')
  then show ?case using step_untouched [OF step.hyps(2), of e] by simp
qed

section \<open>Identifiers\<close>

lemma hex_digit_inj: "a < 16 \<Longrightarrow> b < 16 \<Longrightarrow> hex_digit a = hex_digit b \<longleftrightarrow> a = b"
proof -
  assume ab: "a < 16" "b < 16"
  let ?f = "\<lambda>n :: nat. if n < 10 then 48 + n else 87 + n"
  have "hex_digit n = char_of (?f n) \<and> ?f n < 256" if "n < 16" for n using that by (simp add: hex_digit_def)
  then have "of_char (hex_digit n) = ?f n" if "n < 16" for n
    using that by (simp del: if_split add: of_char_of)
  then have "hex_digit a = hex_digit b \<Longrightarrow> ?f a = ?f b" using ab by metis
  then show ?thesis using ab by (auto split: if_splits)
qed

lemma div_mod_eq16: "a div 16 = b div 16 \<and> a mod 16 = b mod 16 \<longleftrightarrow> a = (b :: nat)"
  by (metis div_mult_mod_eq)

lemma hex_id_inj: "hex_id a = hex_id b \<longleftrightarrow> a = b"
proof (induction a arbitrary: b)
  case Nil
  show ?case by (cases b) (auto simp: hex_id_def)
next
  case (Cons x a)
  show ?case
  proof (cases b)
    case (Cons y b')
    have "unat x div 16 < 16" "unat y div 16 < 16" using unat_lt2p [of x] unat_lt2p [of y] by simp_all
    then have "hex_id (x # a) = hex_id (y # b') \<longleftrightarrow>
        unat x div 16 = unat y div 16 \<and> unat x mod 16 = unat y mod 16 \<and> hex_id a = hex_id b'"
      by (simp add: hex_id_def hex_digit_inj)
    also have "\<dots> \<longleftrightarrow> unat x = unat y \<and> a = b'"
      using Cons.IH [of b'] div_mod_eq16 [of "unat x" "unat y"] by auto
    finally show ?thesis using Cons by (simp add: word_unat_eq_iff)
  qed (simp add: hex_id_def)
qed

section \<open>Progress\<close>

text \<open>The frame of an output message can be written, when the transport accepts it.\<close>

fun message_fits :: "zbrt_lib \<Rightarrow> 'e worker_message \<Rightarrow> bool" where
  "message_fits lib (WOutput rid event) =
     (case output_frame lib rid event of
        None \<Rightarrow> True | Some (Inl e) \<Rightarrow> False | Some (Inr f) \<Rightarrow> is_ok (frame_encode f))"
| "message_fits lib (WTerminal rid sid rid_str result e) = True"

text \<open>
  The terminal frame the connection owes its active request: the one of the executor's result while the
  worker runs, of the result in the channel when it has sent one, and of the abandoned turn when it died.
\<close>

definition owed_frame :: "'e guest_executor \<Rightarrow> zbrt_lib \<Rightarrow> bytes \<Rightarrow> 'e zconn \<Rightarrow> zframe" where
  "owed_frame x lib rid c = terminal_frame lib rid (fst
     (case zc_worker c of
        Working turn r e \<Rightarrow>
          (case x_start_turn x turn (e, rs_flags (zc_service c)) of (result, e', h) \<Rightarrow>
             complete_turn (rq_session_id turn) (rq_request_id turn) result e' ((zc_service c)\<lparr>rs_flags := h\<rparr>))
      | Sent \<Rightarrow>
          (case last (zc_queue c) of
             WTerminal r sid rid_str result e \<Rightarrow> complete_turn sid rid_str result e (zc_service c)
           | WOutput r event \<Rightarrow> ([], zc_service c))
      | _ \<Rightarrow> abandon_active_turn (zc_service c)))"

text \<open>The request has ended with this frame, and the connection is open for the next one.\<close>

definition answered_by :: "zframe \<Rightarrow> 'e zconn \<Rightarrow> 'e zconn \<Rightarrow> bool" where
  "answered_by f c c' \<longleftrightarrow> zc_open c' \<and> zc_active_id c' = None \<and> zc_finished c' = zc_finished c @ [f]
     \<and> (\<exists>w. zc_written c' = w @ [f])"

lemma emit_accepted:
  assumes "zc_budget c = None" "is_ok (frame_encode f)"
  shows "emit f c = (True, c\<lparr>zc_written := zc_written c @ [f]\<rparr>)"
  using assms by (simp add: emit_def)

lemma forward_accepted:
  assumes "zc_budget c = None" "message_fits lib (WOutput rid event)"
  shows "\<exists>fs. forward_event lib rid event c = (True, c\<lparr>zc_written := zc_written c @ fs\<rparr>)"
proof -
  have "\<exists>fs. (True, c) = (True, c\<lparr>zc_written := zc_written c @ fs\<rparr>)" by (rule exI [of _ "[]"]) simp
  then show ?thesis
    using assms emit_accepted [OF assms(1)] by (auto simp: forward_event_def split: option.splits sum.splits)
qed

lemma drain:
  assumes "zc_open c" "zc_worker_active c" "zc_active_id c = Some rid" "zc_budget c = None"
    "zc_queue c = outs @ rest" "list_all (outputs_of rid) outs" "list_all (message_fits lib) outs"
  shows "\<exists>w. (zstep x lib)\<^sup>*\<^sup>* c (c\<lparr>zc_queue := rest, zc_written := w\<rparr>)"
  using assms
proof (induction outs arbitrary: c)
  case Nil
  then have "c\<lparr>zc_queue := rest, zc_written := zc_written c\<rparr> = c" by (cases c) simp
  then show ?case by (metis rtranclp.rtrancl_refl)
next
  case (Cons m outs)
  obtain ev where m: "m = WOutput rid ev" using Cons.prems(6) by (cases m) auto
  let ?c0 = "c\<lparr>zc_queue := outs @ rest\<rparr>"
  obtain fs where f: "forward_event lib rid ev ?c0 = (True, ?c0\<lparr>zc_written := zc_written ?c0 @ fs\<rparr>)"
    using forward_accepted [of ?c0 lib rid ev] Cons.prems(4,7) m by auto
  let ?c1 = "?c0\<lparr>zc_written := zc_written ?c0 @ fs\<rparr>"
  have "on_worker_message lib m ?c0 = ?c1" using m f Cons.prems(3) by (simp add: continue_def)
  then have step: "zstep x lib c ?c1"
    using zstep.received [OF Cons.prems(1,2), of m "outs @ rest" x lib] Cons.prems(5) by simp
  obtain w where "(zstep x lib)\<^sup>*\<^sup>* ?c1 (?c1\<lparr>zc_queue := rest, zc_written := w\<rparr>)"
    using Cons.IH [of ?c1] Cons.prems by auto
  then have "(zstep x lib)\<^sup>*\<^sup>* ?c1 (c\<lparr>zc_queue := rest, zc_written := w\<rparr>)" by simp
  then show ?case using step by (blast intro: converse_rtranclp_into_rtranclp)
qed

lemma complete_turn_executor: "rs_executor (snd (complete_turn sid rs res e sv)) \<noteq> None"
proof -
  let ?sv = "sv\<lparr>rs_executor := Some e, rs_turn_cancel := None\<rparr>"
  have "rs_executor (snd (turn_responses sid rs c res ?sv)) = Some e" for c
    using turn_responses_state [of sid rs c res ?sv] by auto
  then show ?thesis by (simp add: complete_turn_eq Let_def case_prod_beta)
qed

lemma terminal_answers:
  assumes "zc_open c" "zc_worker_active c" "zc_queue c = [WTerminal rid sid rs res e]" "zc_budget c = None"
    and f: "f = terminal_frame lib rid (fst (complete_turn sid rs res e (zc_service c)))" "is_ok (frame_encode f)"
  shows "\<exists>c'. zstep x lib c c' \<and> answered_by f c c' \<and> rs_executor (zc_service c') \<noteq> None"
proof -
  let ?m = "WTerminal rid sid rs res e"
  obtain ms sv where k: "complete_turn sid rs res e (zc_service c) = (ms, sv)" by fastforce
  have sv: "rs_executor sv \<noteq> None" using complete_turn_executor [of sid rs res e "zc_service c"] k by simp
  have "on_worker_message lib ?m (c\<lparr>zc_queue := []\<rparr>) = mark_terminated rid (c\<lparr>zc_queue := [], zc_service := sv,
      zc_worker_active := False, zc_worker := No_Worker, zc_active_id := None, zc_written := zc_written c @ [f],
      zc_finished := zc_finished c @ [f]\<rparr>)"
    using f k assms(4) by (simp add: emit_terminal_def emit_accepted Let_def)
  then have "answered_by f c (on_worker_message lib ?m (c\<lparr>zc_queue := []\<rparr>))
      \<and> rs_executor (zc_service (on_worker_message lib ?m (c\<lparr>zc_queue := []\<rparr>))) \<noteq> None"
    using assms(1) sv by (simp add: answered_by_def)
  then show ?thesis using zstep.received [OF assms(1-3)] by blast
qed

lemma panic_answers:
  assumes "zc_open c" "zc_worker_active c" "zc_worker c = Crashed" "zc_active_id c = Some rid" "zc_budget c = None"
    and f: "f = terminal_frame lib rid (fst (abandon_active_turn (zc_service c)))" "is_ok (frame_encode f)"
  shows "\<exists>c'. zstep x lib c c' \<and> answered_by f c c' \<and> rs_executor (zc_service c') = rs_executor (zc_service c)"
proof -
  obtain ms sv where k: "abandon_active_turn (zc_service c) = (ms, sv)" by fastforce
  have t: "terminal_frame lib rid ms = f" using f(1) k by simp
  have sv: "rs_executor sv = rs_executor (zc_service c)" using executor_kept_abandon [of "zc_service c"] k by simp
  have "on_worker_panic lib c = c\<lparr>zc_service := sv, zc_worker_active := False, zc_worker := No_Worker,
      zc_active_id := None, zc_written := zc_written c @ [f], zc_finished := zc_finished c @ [f]\<rparr>"
    using t assms(4,5) emit_accepted [of "c\<lparr>zc_service := sv, zc_worker_active := False, zc_worker := No_Worker, zc_active_id := None\<rparr>" f] f(2)
    by (simp add: on_worker_panic_def k emit_terminal_def continue_def)
  then have "answered_by f c (on_worker_panic lib c)
      \<and> rs_executor (zc_service (on_worker_panic lib c)) = rs_executor (zc_service c)"
    using assms(1) sv by (simp add: answered_by_def)
  then show ?thesis using zstep.joined [OF assms(1-3)] by blast
qed

lemma answered_by_later:
  assumes "(zstep x lib)\<^sup>*\<^sup>* c c1" "zc_finished c1 = zc_finished c" "\<exists>c'. zstep x lib c1 c' \<and> answered_by f c1 c' \<and> P c'"
  shows "\<exists>c'. (zstep x lib)\<^sup>*\<^sup>* c c' \<and> answered_by f c c' \<and> P c'"
  using assms by (auto simp: answered_by_def intro: rtranclp.rtrancl_into_rtrancl)

text \<open>The three places a worker can be in.\<close>

lemma working_answers:
  assumes "zinv c" "zc_open c" "zc_active_id c = Some rid" "zc_budget c = None" "zc_worker c = Working t r e"
    "list_all (message_fits lib) (zc_queue c)" "is_ok (frame_encode (owed_frame x lib rid c))"
  shows "\<exists>c'. (zstep x lib)\<^sup>*\<^sup>* c c' \<and> answered_by (owed_frame x lib rid c) c c' \<and> rs_executor (zc_service c') \<noteq> None"
proof -
  have act: "zc_worker_active c" and q: "list_all (outputs_of rid) (zc_queue c)" "r = rid"
    using assms(1,3,5) by (auto simp: zinv_def)
  obtain w where c1: "(zstep x lib)\<^sup>*\<^sup>* c (c\<lparr>zc_queue := [], zc_written := w\<rparr>)"
    using drain [OF assms(2) act assms(3,4), of "zc_queue c" "[]" lib x] q(1) assms(6) by auto
  obtain res e' h where x: "x_start_turn x t (e, rs_flags (zc_service c)) = (res, e', h)" by (metis prod_cases3)
  let ?c1 = "c\<lparr>zc_queue := [], zc_written := w\<rparr>"
  let ?c2 = "?c1\<lparr>zc_worker := Sent, zc_service := (zc_service ?c1)\<lparr>rs_flags := h\<rparr>,
     zc_queue := zc_queue ?c1 @ [WTerminal rid (rq_session_id t) (rq_request_id t) res e']\<rparr>"
  have "zstep x lib ?c1 ?c2"
    using assms(2,5) q(2) x by (intro zstep.worker_done) (simp_all add: WORKER_CHANNEL_CAPACITY_def)
  then have c2: "(zstep x lib)\<^sup>*\<^sup>* c ?c2" using c1 by (rule rtranclp.rtrancl_into_rtrancl [rotated])
  have f: "owed_frame x lib rid c
      = terminal_frame lib rid (fst (complete_turn (rq_session_id t) (rq_request_id t) res e' (zc_service ?c2)))"
    by (simp add: owed_frame_def assms(5) x)
  show ?thesis
    by (rule answered_by_later [OF c2 _ terminal_answers [OF _ _ _ _ f assms(7)]])
      (use assms(2,4) act in simp_all)
qed

lemma sent_answers:
  assumes "zinv c" "zc_open c" "zc_active_id c = Some rid" "zc_budget c = None" "zc_worker c = Sent"
    "list_all (message_fits lib) (zc_queue c)" "is_ok (frame_encode (owed_frame x lib rid c))"
  shows "\<exists>c'. (zstep x lib)\<^sup>*\<^sup>* c c' \<and> answered_by (owed_frame x lib rid c) c c' \<and> rs_executor (zc_service c') \<noteq> None"
proof -
  obtain outs sid rs res e where q: "zc_worker_active c" "zc_queue c = outs @ [WTerminal rid sid rs res e]"
    "list_all (outputs_of rid) outs" using assms(1,3,5) by (auto simp: zinv_def)
  obtain w where c1: "(zstep x lib)\<^sup>*\<^sup>* c (c\<lparr>zc_queue := [WTerminal rid sid rs res e], zc_written := w\<rparr>)"
    using drain [OF assms(2) q(1) assms(3,4) q(2,3), of lib x] assms(6) q(2) by auto
  let ?c1 = "c\<lparr>zc_queue := [WTerminal rid sid rs res e], zc_written := w\<rparr>"
  have f: "owed_frame x lib rid c = terminal_frame lib rid (fst (complete_turn sid rs res e (zc_service ?c1)))"
    by (simp add: owed_frame_def assms(5) q(2))
  show ?thesis
    by (rule answered_by_later [OF c1 _ terminal_answers [OF _ _ _ _ f assms(7)]]) (use assms(2,4) q(1) in simp_all)
qed

lemma crashed_answers:
  assumes "zinv c" "zc_open c" "zc_active_id c = Some rid" "zc_budget c = None" "zc_worker c = Crashed"
    "list_all (message_fits lib) (zc_queue c)" "is_ok (frame_encode (owed_frame x lib rid c))"
  shows "\<exists>c'. (zstep x lib)\<^sup>*\<^sup>* c c' \<and> answered_by (owed_frame x lib rid c) c c' \<and> rs_executor (zc_service c') = None"
proof -
  have act: "zc_worker_active c" and q: "list_all (outputs_of rid) (zc_queue c)" using assms(1,3,5) by (auto simp: zinv_def)
  have away: "rs_executor (zc_service c) = None" using assms(1,3) by (auto simp: zinv_def table_ok_def)
  obtain w where c1: "(zstep x lib)\<^sup>*\<^sup>* c (c\<lparr>zc_queue := [], zc_written := w\<rparr>)"
    using drain [OF assms(2) act assms(3,4), of "zc_queue c" "[]" lib x] q assms(6) by auto
  let ?c1 = "c\<lparr>zc_queue := [], zc_written := w\<rparr>"
  have f: "owed_frame x lib rid c = terminal_frame lib rid (fst (abandon_active_turn (zc_service ?c1)))"
    by (simp add: owed_frame_def assms(5))
  have "\<exists>c'. zstep x lib ?c1 c' \<and> answered_by (owed_frame x lib rid c) ?c1 c' \<and> rs_executor (zc_service c') = None"
    using panic_answers [of ?c1 rid, OF _ _ _ _ _ f assms(7)] assms(2-5) act away by simp
  then show ?thesis using answered_by_later [OF c1] by simp
qed

section \<open>Properties\<close>

text \<open>
  C3. Exactly one terminal frame per accepted request. In every state a connection can reach, for every
  request identifier the terminal frames written for it number at most the accepted \<^verbatim>\<open>Execute\<close>
  requests with it and at most one less; while the connection is open they differ exactly for the one
  request in flight. The terminal frames appear among the frames written, in this order, and are
  \<^verbatim>\<open>Exit\<close> or \<^verbatim>\<open>Error\<close> frames. This covers worker and in-process execution, cancellation, panics of the
  executor and failures of the transport.
\<close>

theorem one_terminal_per_request:
  assumes "(zstep x lib)\<^sup>*\<^sup>* (zconn_start budget (with_executor limits e h)) c"
  shows "count_list (finished_ids c) rid \<le> count_list (zc_accepted c) rid
    \<and> count_list (zc_accepted c) rid \<le> count_list (finished_ids c) rid + 1
    \<and> (zc_open c \<longrightarrow> count_list (zc_accepted c) rid
         = count_list (finished_ids c) rid + (if zc_active_id c = Some rid then 1 else 0))
    \<and> subseq (zc_finished c) (zc_written c)
    \<and> (\<forall>f \<in> set (zc_finished c). fr_kind f = KExit \<or> fr_kind f = KError)"
  using reachable_sound [OF assms] by (auto simp: zhist_def zinv_def balanced_def)

text \<open>
  C8. The request in flight can always be answered. From every reachable state of an open connection with an
  active request, when the transport accepts writes and the frames of the queued output and the terminal
  frame can be encoded, there are steps after which the connection is still open and ready for the next
  request, and the last frame written, the one terminal frame of the request, is the one owed to it: of the
  executor's result when the worker runs or has sent it, and of the abandoned turn when it died. The
  executor is then back in the service, unless the worker died.
\<close>

theorem active_request_answered:
  assumes "(zstep x lib)\<^sup>*\<^sup>* (zconn_start budget (with_executor limits e h)) c"
    "zc_open c" "zc_active_id c = Some rid" "zc_budget c = None"
    "list_all (message_fits lib) (zc_queue c)" "is_ok (frame_encode (owed_frame x lib rid c))"
  shows "\<exists>c'. (zstep x lib)\<^sup>*\<^sup>* c c' \<and> zc_open c' \<and> zc_active_id c' = None
     \<and> zc_finished c' = zc_finished c @ [owed_frame x lib rid c] \<and> (\<exists>w. zc_written c' = w @ [owed_frame x lib rid c])
     \<and> (rs_executor (zc_service c') = None) = (zc_worker c = Crashed)"
proof -
  have inv: "zinv c" using reachable_sound [OF assms(1)] assms(2) by blast
  show ?thesis
  proof (cases "zc_worker c")
    case No_Worker
    then show ?thesis using inv assms(3) by (simp add: zinv_def)
  next
    case (Working t r e)
    with working_answers [OF inv assms(2-4) Working assms(5,6)] show ?thesis by (auto simp: answered_by_def)
  next
    case Sent
    with sent_answers [OF inv assms(2-4) Sent assms(5,6)] show ?thesis by (auto simp: answered_by_def)
  next
    case Crashed
    with crashed_answers [OF inv assms(2-4) Crashed assms(5,6)] show ?thesis by (auto simp: answered_by_def)
  qed
qed

text \<open>
  C9. The bookkeeping of an open connection is bounded: the request table never holds more than 65 entries,
  of which 64 are the latest terminated requests, and the channel never more than 64 messages. While a
  request is active the service has no executor, so no second turn can start.
\<close>

theorem connection_bounded:
  assumes "(zstep x lib)\<^sup>*\<^sup>* (zconn_start budget (with_executor limits e h)) c" "zc_open c"
  shows "finite (dom (zc_requests c)) \<and> card (dom (zc_requests c)) \<le> 65
    \<and> distinct (zc_terminated_order c) \<and> length (zc_terminated_order c) \<le> 64 \<and> length (zc_queue c) \<le> 64
    \<and> (zc_active_id c \<noteq> None \<longrightarrow> rs_executor (zc_service c) = None)"
proof -
  have inv: "zinv c" using reachable_sound [OF assms(1)] assms(2) by blast
  then have t: "table_ok (zc_active_id c) (zc_requests c) (zc_terminated_order c) (zc_service c)"
    "length (zc_queue c) \<le> 64"
    by (simp_all add: zinv_def WORKER_CHANNEL_CAPACITY_def)
  have len: "length (zc_terminated_order c) \<le> 64" using t(1) by (simp add: table_ok_def TERMINATED_RETENTION_def)
  have "card (set (zc_terminated_order c)) \<le> 64" using card_length len by (rule le_trans)
  moreover from t(1) consider "dom (zc_requests c) = set (zc_terminated_order c)" "zc_active_id c = None"
    | i where "dom (zc_requests c) = insert i (set (zc_terminated_order c))" "rs_executor (zc_service c) = None"
    by (auto simp: table_ok_def)
  then have "finite (dom (zc_requests c)) \<and> card (dom (zc_requests c)) \<le> card (set (zc_terminated_order c)) + 1
      \<and> (zc_active_id c \<noteq> None \<longrightarrow> rs_executor (zc_service c) = None)"
    by cases (auto simp: card_insert_if)
  ultimately show ?thesis using t len by (auto simp: table_ok_def)
qed

text \<open>
  The wire handshake is a gate: as long as no \<^verbatim>\<open>Hello\<close> was accepted, whatever frames arrive, the connection
  has answered with \<^verbatim>\<open>Error\<close> frames only, has accepted no request, and the executor is where and what it
  was at the start.
\<close>

theorem wire_handshake_gate:
  assumes "(zstep x lib)\<^sup>*\<^sup>* (zconn_start budget (with_executor limits e h)) c" "\<not> zc_handshaked c"
  shows "(\<forall>f \<in> set (zc_written c). fr_kind f = KError) \<and> zc_accepted c = [] \<and> zc_worker c = No_Worker
    \<and> rs_executor (zc_service c) = Some e"
  using reachable_untouched [OF assms] by (simp add: untouched_def)

text \<open>
  A request keeps its identity and content on its way to the executor: when the JSON library reads the
  prompt back as it was printed, the turn's prompt parses to an object with exactly the arguments of the
  \<^verbatim>\<open>Execute\<close>, the working directory made relative to the workspace, the standard input in base64 and
  the deadline when there are any; and different wire identifiers never share a turn identifier.
\<close>

theorem execute_turn_faithful:
  assumes "l_parse lib (l_print lib (execute_prompt lib exec)) = Some (execute_prompt lib exec)"
  shows "(\<exists>p. l_parse lib (rq_prompt (execute_to_turn lib rid exec)) = Some p
      \<and> jget ''op'' p = Some (JString ''exec'')
      \<and> jget ''args'' p = Some (JArray (map JString (exec_argv exec)))
      \<and> jget ''cwd'' p = Some (JString (normalize_workspace_path (case exec_cwd exec of Some c \<Rightarrow> c | None \<Rightarrow> ''.'')))
      \<and> jget ''stdin_b64'' p = (if exec_stdin exec = [] then None else Some (JString (l_base64 lib (exec_stdin exec))))
      \<and> jget ''timeout_ms'' p = (if exec_timeout_ms exec = 0 then None
           else Some (JNumber (int (unat (exec_timeout_ms exec))))))
    \<and> (rq_request_id (execute_to_turn lib rid exec) = rq_request_id (execute_to_turn lib rid' exec') \<longleftrightarrow> rid = rid')"
proof -
  have "jget k (execute_prompt lib exec) =
      (if k = ''op'' then Some (JString ''exec'')
       else if k = ''args'' then Some (JArray (map JString (exec_argv exec)))
       else if k = ''cwd'' then Some (JString (normalize_workspace_path (case exec_cwd exec of Some c \<Rightarrow> c | None \<Rightarrow> ''.'')))
       else if k = ''stdin_b64'' \<and> exec_stdin exec \<noteq> [] then Some (JString (l_base64 lib (exec_stdin exec)))
       else if k = ''timeout_ms'' \<and> exec_timeout_ms exec \<noteq> 0 then Some (JNumber (int (unat (exec_timeout_ms exec))))
       else None)" for k
    by (simp add: execute_prompt_def Let_def word_neq_0_conv alist_insert_def alist_remove_def)
  then show ?thesis using assms by (simp add: execute_to_turn_def hex_id_inj)
qed

section \<open>Witnesses\<close>

text \<open>A session on a one-request script: a greeting, then an \<^verbatim>\<open>Execute\<close> that goes to a worker.\<close>

definition demo_lib :: zbrt_lib where
  "demo_lib = \<lparr>l_parse = (\<lambda>s. if s = ''p'' then Some (JObject [(''timeout_ms'', JNumber 9),
       (''op'', JString ''exec''), (''args'', JArray [JString ''ls'']), (''cwd'', JString ''src'')]) else None),
     l_print = (\<lambda>_. ''p''), l_terminal_event = (\<lambda>_. None), l_exit_code = (\<lambda>_. Some (Some 0)),
     l_base64 = (\<lambda>_. []), l_join_error = []\<rparr>"

definition demo_exec :: execute where
  "demo_exec = \<lparr>exec_argv = [''ls''], exec_cwd = Some ''/workspace/src'', exec_stdin = [], exec_timeout_ms = 9\<rparr>"

definition demo_id :: bytes where
  "demo_id = [1, 1, 1, 1, 1, 1, 1, 1, 1, 1, 1, 1, 1, 1, 1, 1]"

definition demo_hello_payload :: bytes where
  "demo_hello_payload = unwrap_or_default (hello_encode \<lparr>hello_client = ''sdk'', hello_capabilities = []\<rparr>)"

definition demo_exec_payload :: bytes where
  "demo_exec_payload = unwrap_or_default (execute_encode demo_exec)"

lemma demo_payloads:
  "decode_payload hello_dec demo_hello_payload = Inr \<lparr>hello_client = ''sdk'', hello_capabilities = []\<rparr>"
  "decode_payload execute_dec demo_exec_payload = Inr demo_exec"
proof -
  let ?h = "\<lparr>hello_client = ''sdk'', hello_capabilities = []\<rparr>"
  have "is_str ''/workspace/src''" by (simp add: is_str_ascii)
  then have wf: "wf_hello ?h" "wf_execute demo_exec" by (simp_all add: wire_eval demo_exec_def)
  have "hello_encode ?h = Inr demo_hello_payload" "execute_encode demo_exec = Inr demo_exec_payload"
    by (simp_all add: wire_eval demo_hello_payload_def demo_exec_payload_def demo_exec_def unwrap_or_default_def)
  then show "decode_payload hello_dec demo_hello_payload = Inr ?h"
    "decode_payload execute_dec demo_exec_payload = Inr demo_exec"
    using wf hello_codec.roundtrip execute_codec.roundtrip by blast+
qed

definition demo_conn0 :: "unit zconn" where
  "demo_conn0 = zconn_start None demo_start"

definition demo_conn1 :: "unit zconn" where
  "demo_conn1 = on_frame echo_executor demo_lib (zreply KHello demo_id demo_hello_payload) [] False demo_conn0"

definition demo_conn2 :: "unit zconn" where
  "demo_conn2 = on_frame echo_executor demo_lib (zreply KExecute demo_id demo_exec_payload) [] False demo_conn1"

lemma demo_not_blank: "\<not> blank ''sdk''" "\<not> blank SESSION_ID" "\<not> blank (hex_id demo_id)"
proof -
  show "\<not> blank ''sdk''" by (rule not_blankI [of "CHR ''s''"]) (simp_all add: white_space_def)
  show "\<not> blank SESSION_ID" by (rule not_blankI [of "CHR ''z''"]) (simp_all add: white_space_def SESSION_ID_def)
  have zero: "char_of (48 :: nat) = CHR ''0''" by code_simp
  show "\<not> blank (hex_id demo_id)"
    by (rule not_blankI [of "CHR ''0''"]) (simp_all add: white_space_def hex_id_def demo_id_def hex_digit_def zero)
qed

lemma demo_greeting:
  "\<exists>b. handle_hello demo_id demo_hello_payload = zreply KHelloAck demo_id b \<and> length b \<le> MAX_PAYLOAD"
  by (simp add: handle_hello_def demo_payloads demo_not_blank wire_eval ZBRT_V1_CAPABILITIES_def MAX_PAYLOAD_def)

lemma demo_handle: "snd (handle echo_executor (CHello 1) demo_start) = demo_ready"
  by (simp add: handle_def demo_start_def demo_ready_def with_executor_def returned_def hello_reply_def)

lemma demo_conn1_eq:
  "\<exists>f. demo_conn1 = demo_conn0\<lparr>zc_service := demo_ready, zc_handshaked := True, zc_written := [f]\<rparr>"
proof -
  obtain b where b: "handle_hello demo_id demo_hello_payload = zreply KHelloAck demo_id b" "length b \<le> MAX_PAYLOAD"
    using demo_greeting by blast
  have c: "zc_service demo_conn0 = demo_start" "zc_handshaked demo_conn0 = False" "zc_budget demo_conn0 = None"
    "zc_written demo_conn0 = []" by (simp_all add: demo_conn0_def zconn_start_def)
  show ?thesis
    using b(2) by (intro exI [of _ "zreply KHelloAck demo_id b"])
      (simp add: demo_conn1_def on_frame_def dispatch_def Let_def b(1) c demo_handle emit_def frame_encode_def
        continue_def is_ok_def)
qed

lemma demo_spawn_exec:
  "\<exists>sv. spawn_turn echo_executor (execute_to_turn demo_lib demo_id demo_exec) demo_ready = (Inr (), sv)"
  by (simp add: spawn_turn_def execute_to_turn_def demo_ready_def demo_start_def with_executor_def
      validate_identity_def echo_executor_def demo_not_blank)

lemma demo_conn2_fields:
  "zc_open demo_conn2" "zc_active_id demo_conn2 = Some demo_id" "zc_accepted demo_conn2 = [demo_id]"
  "zc_finished demo_conn2 = []"
proof -
  obtain f where c1: "demo_conn1 = demo_conn0\<lparr>zc_service := demo_ready, zc_handshaked := True, zc_written := [f]\<rparr>"
    using demo_conn1_eq by blast
  obtain sv where sv: "spawn_turn echo_executor (execute_to_turn demo_lib demo_id demo_exec) demo_ready = (Inr (), sv)"
    using demo_spawn_exec by blast
  have argv: "exec_argv demo_exec \<noteq> []" by (simp add: demo_exec_def)
  have bi: "builtin (case l_parse demo_lib (rq_prompt (execute_to_turn demo_lib demo_id demo_exec)) of
      Some v \<Rightarrow> v | None \<Rightarrow> JNull) = None"
    by (simp add: execute_to_turn_def demo_lib_def builtin_def builtin_program_def basename_def)
  have c0: "zc_open demo_conn0" "\<not> zc_worker_active demo_conn0" "zc_requests demo_conn0 = Map.empty"
    "zc_accepted demo_conn0 = []" "zc_finished demo_conn0 = []" by (simp_all add: demo_conn0_def zconn_start_def)
  show "zc_open demo_conn2" "zc_active_id demo_conn2 = Some demo_id" "zc_accepted demo_conn2 = [demo_id]"
    "zc_finished demo_conn2 = []"
    by (simp_all add: demo_conn2_def on_frame_def dispatch_def Let_def handle_execute_def demo_payloads argv c1 sv bi c0)
qed

lemma demo_run:
  "(zstep echo_executor demo_lib)\<^sup>*\<^sup>* (zconn_start None (with_executor (limits_default None) () (\<lambda>_. False))) demo_conn2"
proof -
  have "zc_open demo_conn0" by (simp add: demo_conn0_def zconn_start_def)
  then have "zstep echo_executor demo_lib demo_conn0 demo_conn1" unfolding demo_conn1_def by (rule zstep.frame)
  moreover obtain f where c1: "demo_conn1 = demo_conn0\<lparr>zc_service := demo_ready, zc_handshaked := True, zc_written := [f]\<rparr>"
    using demo_conn1_eq by blast
  with \<open>zc_open demo_conn0\<close> have "zc_open demo_conn1" by (simp add: c1)
  then have "zstep echo_executor demo_lib demo_conn1 demo_conn2" unfolding demo_conn2_def by (rule zstep.frame)
  ultimately show ?thesis unfolding demo_conn0_def demo_start_def by (meson rtranclp.simps)
qed

theorem one_terminal_per_request_witness:
  "count_list (zc_accepted demo_conn2) demo_id = count_list (finished_ids demo_conn2) demo_id + 1"
  using one_terminal_per_request [OF demo_run, of demo_id] demo_conn2_fields by simp

lemma demo_conn2_worker:
  "\<exists>t. zc_worker demo_conn2 = Working t demo_id ()" "zc_budget demo_conn2 = None" "zc_queue demo_conn2 = []"
proof -
  obtain f where c1: "demo_conn1 = demo_conn0\<lparr>zc_service := demo_ready, zc_handshaked := True, zc_written := [f]\<rparr>"
    using demo_conn1_eq by blast
  obtain sv where sv: "spawn_turn echo_executor (execute_to_turn demo_lib demo_id demo_exec) demo_ready = (Inr (), sv)"
    using demo_spawn_exec by blast
  have argv: "exec_argv demo_exec \<noteq> []" by (simp add: demo_exec_def)
  have bi: "builtin (case l_parse demo_lib (rq_prompt (execute_to_turn demo_lib demo_id demo_exec)) of
      Some v \<Rightarrow> v | None \<Rightarrow> JNull) = None"
    by (simp add: execute_to_turn_def demo_lib_def builtin_def builtin_program_def basename_def)
  have c0: "\<not> zc_worker_active demo_conn0" "zc_requests demo_conn0 = Map.empty" "zc_budget demo_conn0 = None"
    "zc_queue demo_conn0 = []" by (simp_all add: demo_conn0_def zconn_start_def)
  show "\<exists>t. zc_worker demo_conn2 = Working t demo_id ()" "zc_budget demo_conn2 = None" "zc_queue demo_conn2 = []"
    by (simp_all add: demo_conn2_def on_frame_def dispatch_def Let_def handle_execute_def demo_payloads argv c1 sv bi c0)
qed

lemma demo_owed: "is_ok (frame_encode (owed_frame echo_executor demo_lib demo_id demo_conn2))"
proof -
  obtain t where t: "zc_worker demo_conn2 = Working t demo_id ()" using demo_conn2_worker(1) by blast
  let ?sv = "(zc_service demo_conn2)\<lparr>rs_flags := rs_flags (zc_service demo_conn2)\<rparr>"
  let ?ms = "fst (complete_turn (rq_session_id t) (rq_request_id t) (Inr [\<lparr>ge_kind = ''turn.completed'', ge_payload = [1]\<rparr>]) () ?sv)"
  have "\<exists>ev. ?ms = [REvent ev] \<and> ev_kind ev = ''turn.completed''" by (simp add: complete_turn_def Let_def case_prod_beta)
  then obtain ev where ms: "?ms = [REvent ev]" "ev_kind ev = ''turn.completed''" by blast
  have "owed_frame echo_executor demo_lib demo_id demo_conn2 = exit_frame demo_id 0"
    using ms by (simp add: owed_frame_def t echo_executor_def terminal_frame_def demo_lib_def i32_try_from_def)
  then show ?thesis
    by (simp add: exit_frame_def frame_encode_def is_ok_def exit_encode_def unwrap_or_default_def wire_eval MAX_PAYLOAD_def)
qed

theorem active_request_answered_witness:
  "\<exists>c'. (zstep echo_executor demo_lib)\<^sup>*\<^sup>* demo_conn2 c' \<and> zc_open c' \<and> zc_active_id c' = None
     \<and> finished_ids c' = [demo_id] \<and> rs_executor (zc_service c') \<noteq> None"
proof -
  have f: "fr_request_id (owed_frame echo_executor demo_lib demo_id demo_conn2) = demo_id"
    by (simp add: owed_frame_def terminal_frame_fields)
  have q: "list_all (message_fits demo_lib) (zc_queue demo_conn2)" by (simp add: demo_conn2_worker(3))
  from active_request_answered [OF demo_run demo_conn2_fields(1,2) demo_conn2_worker(2) q demo_owed]
  show ?thesis using demo_conn2_fields(4) demo_conn2_worker(1) f by auto
qed

theorem connection_bounded_witness:
  "card (dom (zc_requests demo_conn2)) \<le> 65 \<and> rs_executor (zc_service demo_conn2) = None"
  using connection_bounded [OF demo_run demo_conn2_fields(1)] demo_conn2_fields by simp

theorem wire_handshake_gate_witness:
  "\<exists>c. c = on_frame echo_executor demo_lib (zreply KExecute demo_id demo_exec_payload) [] False demo_conn0
     \<and> zc_accepted c = [] \<and> rs_executor (zc_service c) = Some ()"
proof -
  let ?c = "on_frame echo_executor demo_lib (zreply KExecute demo_id demo_exec_payload) [] False demo_conn0"
  have "zc_open demo_conn0" by (simp add: demo_conn0_def zconn_start_def)
  then have "(zstep echo_executor demo_lib)\<^sup>*\<^sup>* (zconn_start None (with_executor (limits_default None) () (\<lambda>_. False))) ?c"
    using zstep.frame [of demo_conn0] unfolding demo_conn0_def demo_start_def by blast
  moreover have "\<not> zc_handshaked ?c"
    by (cases rule: continue_emit_cases [of "fail_closed_error demo_id ''protocol handshake required''" demo_conn0])
      (simp_all add: on_frame_def dispatch_def Let_def teardown_def demo_conn0_def zconn_start_def)
  ultimately have "zc_accepted ?c = [] \<and> rs_executor (zc_service ?c) = Some ()"
    using wire_handshake_gate [of echo_executor demo_lib None "limits_default None" "()" "\<lambda>_. False" ?c] by simp
  then show ?thesis by simp
qed

theorem execute_turn_faithful_witness:
  "\<exists>p. l_parse demo_lib (rq_prompt (execute_to_turn demo_lib demo_id demo_exec)) = Some p
     \<and> jget ''args'' p = Some (JArray [JString ''ls'']) \<and> jget ''cwd'' p = Some (JString ''src'')
     \<and> jget ''stdin_b64'' p = None \<and> jget ''timeout_ms'' p = Some (JNumber 9)"
proof -
  have "l_parse demo_lib (l_print demo_lib (execute_prompt demo_lib demo_exec)) = Some (execute_prompt demo_lib demo_exec)"
    by (simp add: demo_lib_def demo_exec_def execute_prompt_def Let_def normalize_workspace_path_def
        alist_insert_def alist_remove_def)
  from execute_turn_faithful [OF this, of demo_id] show ?thesis
    by (auto simp: demo_exec_def normalize_workspace_path_def)
qed

end
