(* ===== verification/Guest_Fs.thy ===== *)
theory Guest_Fs
  imports Rfb_Prelude "HOL-Library.AList" "HOL-Library.Sublist"
begin

text \<open>
  The file system of the guest, as \<^verbatim>\<open>std::fs\<close> presents it on Linux: a tree of directories, regular files
  with their permission bits, and symbolic links, together with the calls the workspace code makes.
  Path resolution follows the kernel: links are expanded in place, at most forty of them, a path that
  ends in a slash or a dot has to name a directory, and \<^verbatim>\<open>O_CREAT\<close> also creates the target of a
  dangling link.

  The runtime is the guest's first process and runs as root, so permission bits are stored but never
  refuse an access; failures of the device are not modelled. A path is the list of its components.
\<close>

section \<open>The tree\<close>

type_synonym path = "string list"

datatype node = File bytes nat | Dir "(string \<times> node) list" | Link string

datatype errno = ENOENT | ENOTDIR | EISDIR | EEXIST | ELOOP | EINVAL

fun is_dir :: "node \<Rightarrow> bool" where
  "is_dir (Dir es) = True"
| "is_dir _ = False"

fun is_link :: "node \<Rightarrow> bool" where
  "is_link (Link t) = True"
| "is_link _ = False"

fun lookup :: "node \<Rightarrow> path \<Rightarrow> node option" where
  "lookup n [] = Some n"
| "lookup (Dir es) (c # cs) = Option.bind (map_of es c) (\<lambda>n. lookup n cs)"
| "lookup _ (c # cs) = None"

text \<open>Set or remove the directory entry at a path whose parent is a directory.\<close>

definition set_entry :: "string \<Rightarrow> node option \<Rightarrow> (string \<times> node) list \<Rightarrow> (string \<times> node) list" where
  "set_entry c v es = (case v of Some n \<Rightarrow> AList.update c n es | None \<Rightarrow> AList.delete c es)"

fun put_at :: "path \<Rightarrow> node option \<Rightarrow> node \<Rightarrow> node" where
  "put_at [] v n = n"
| "put_at (c # cs) v (Dir es) =
     (if cs = [] then Dir (set_entry c v es)
      else (case map_of es c of
          Some n \<Rightarrow> Dir (AList.update c (put_at cs v n) es)
        | None \<Rightarrow> Dir es))"
| "put_at (c # cs) v n = n"

section \<open>Paths\<close>

text \<open>
  The components the kernel sees in a path string; an empty component is a repeated slash, and a
  trailing slash acts like a final dot.
\<close>

definition os_components :: "string \<Rightarrow> path" where
  "os_components s =
     filter (\<lambda>c. c \<noteq> []) (split_on (CHR ''/'') s)
     @ (if s \<noteq> [] \<and> last s = CHR ''/'' then [''.''] else [])"

definition is_absolute :: "string \<Rightarrow> bool" where
  "is_absolute s = starts_with s ''/''"

text \<open>\<^verbatim>\<open>Path::components\<close> of an absolute path drops the dots; \<^verbatim>\<open>file_name\<close> and \<^verbatim>\<open>parent\<close> work on what is left.\<close>

definition normals :: "path \<Rightarrow> path" where
  "normals p = filter (\<lambda>c. c \<noteq> ''.'') p"

definition file_name :: "path \<Rightarrow> string option" where
  "file_name p = (if normals p = [] \<or> last (normals p) = ''..'' then None else Some (last (normals p)))"

definition trim_dots :: "path \<Rightarrow> path" where
  "trim_dots p = rev (dropWhile (\<lambda>c. c = ''.'') (rev p))"

definition parent :: "path \<Rightarrow> path option" where
  "parent p = (if normals p = [] then None else Some (trim_dots (butlast (trim_dots p))))"

section \<open>Resolution\<close>

definition MAXSYMLINKS :: nat where
  "MAXSYMLINKS = 40"

text \<open>
  \<open>resolve create fs n cur todo\<close> follows \<open>todo\<close> from the directory \<open>cur\<close> with \<open>n\<close> links left. With
  \<open>create\<close> the last component may be missing, as for \<^verbatim>\<open>O_CREAT\<close>.
\<close>

function resolve :: "bool \<Rightarrow> node \<Rightarrow> nat \<Rightarrow> path \<Rightarrow> path \<Rightarrow> errno + path" where
  "resolve create fs n cur [] = Inr cur"
| "resolve create fs n cur (c # todo) =
     (if c = ''.'' then resolve create fs n cur todo
      else if c = ''..'' then resolve create fs n (butlast cur) todo
      else (case lookup fs (cur @ [c]) of
          None \<Rightarrow> if create \<and> todo = [] then Inr (cur @ [c]) else Inl ENOENT
        | Some (Dir es) \<Rightarrow> resolve create fs n (cur @ [c]) todo
        | Some (File b m) \<Rightarrow> if todo = [] then Inr (cur @ [c]) else Inl ENOTDIR
        | Some (Link t) \<Rightarrow>
            (case n of
               0 \<Rightarrow> Inl ELOOP
             | Suc k \<Rightarrow> resolve create fs k (if is_absolute t then [] else cur) (os_components t @ todo))))"
  by pat_completeness auto
termination
  by (relation "measures [\<lambda>(create, fs, n, cur, todo). n, \<lambda>(create, fs, n, cur, todo). length todo]") auto

section \<open>Calls\<close>

definition canonicalize :: "node \<Rightarrow> path \<Rightarrow> errno + path" where
  "canonicalize fs p = resolve False fs MAXSYMLINKS [] p"

definition open_at :: "node \<Rightarrow> path \<Rightarrow> errno + node" where
  "open_at fs p =
     res_bind (canonicalize fs p) (\<lambda>q. case lookup fs q of Some n \<Rightarrow> Inr n | None \<Rightarrow> Inl ENOENT)"

definition path_exists :: "node \<Rightarrow> path \<Rightarrow> bool" where
  "path_exists fs p = is_ok (open_at fs p)"

definition path_is_dir :: "node \<Rightarrow> path \<Rightarrow> bool" where
  "path_is_dir fs p = (case open_at fs p of Inr n \<Rightarrow> is_dir n | Inl _ \<Rightarrow> False)"

text \<open>\<^verbatim>\<open>File::open\<close> with \<^verbatim>\<open>read_to_end\<close>; \<^verbatim>\<open>fs::read_dir\<close>.\<close>

definition read_file :: "node \<Rightarrow> path \<Rightarrow> errno + bytes" where
  "read_file fs p =
     res_bind (open_at fs p) (\<lambda>n. case n of File b m \<Rightarrow> Inr b | _ \<Rightarrow> Inl EISDIR)"

definition read_dir :: "node \<Rightarrow> path \<Rightarrow> errno + (string \<times> node) list" where
  "read_dir fs p =
     res_bind (open_at fs p) (\<lambda>n. case n of Dir es \<Rightarrow> Inr es | _ \<Rightarrow> Inl ENOTDIR)"

text \<open>The length \<^verbatim>\<open>stat\<close> reports, \<open>dir_len\<close> being what the file system gives for a directory.\<close>

fun node_len :: "nat \<Rightarrow> node \<Rightarrow> nat" where
  "node_len dir_len (File b m) = length b"
| "node_len dir_len (Dir es) = dir_len"
| "node_len dir_len (Link t) = length t"

fun node_mode :: "nat \<Rightarrow> node \<Rightarrow> nat" where
  "node_mode dir_mode (File b m) = m"
| "node_mode dir_mode _ = dir_mode"

text \<open>The directory that holds the last component of a path, and that component.\<close>

definition resolve_parent :: "node \<Rightarrow> path \<Rightarrow> errno + path \<times> string" where
  "resolve_parent fs p =
     (case (parent p, file_name p) of
        (Some d, Some c) \<Rightarrow>
          res_bind (canonicalize fs d) (\<lambda>q.
            case lookup fs q of Some (Dir es) \<Rightarrow> Inr (q, c) | _ \<Rightarrow> Inl ENOTDIR)
      | _ \<Rightarrow> Inl EEXIST)"

definition mkdir :: "path \<Rightarrow> node \<Rightarrow> (errno + unit) \<times> node" where
  "mkdir p fs =
     (case resolve_parent fs p of
        Inl e \<Rightarrow> (Inl e, fs)
      | Inr (q, c) \<Rightarrow>
          if lookup fs (q @ [c]) \<noteq> None then (Inl EEXIST, fs)
          else (Inr (), put_at (q @ [c]) (Some (Dir [])) fs))"

text \<open>\<^verbatim>\<open>fs::create_dir_all\<close>.\<close>

lemma normals_trim_dots [simp]: "normals (trim_dots p) = normals p"
  by (induction p rule: rev_induct) (simp_all add: normals_def trim_dots_def)

lemma trim_dots_cases: "trim_dots p = [] \<or> (\<exists>q c. trim_dots p = q @ [c] \<and> c \<noteq> ''.'')"
proof (induction p rule: rev_induct)
  case (snoc x xs)
  then show ?case by (cases "x = ''.''") (auto simp: trim_dots_def)
qed (simp add: trim_dots_def)

lemma parent_normals:
  assumes "parent p = Some d"
  shows "normals p = normals d @ [last (normals p)]"
proof -
  have "normals p \<noteq> []" using assms by (auto simp: parent_def)
  then have "trim_dots p \<noteq> []" using normals_trim_dots [of p] by (metis filter.simps(1) normals_def)
  then obtain q c where q: "trim_dots p = q @ [c]" "c \<noteq> ''.''" using trim_dots_cases [of p] by blast
  have "normals p = normals q @ [c]" using normals_trim_dots [of p] q by (simp add: normals_def)
  moreover have "normals d = normals q" using assms q by (auto simp: parent_def split: if_splits)
  ultimately show ?thesis by simp
qed

lemma length_normals_parent: "parent p = Some d \<Longrightarrow> length (normals d) < length (normals p)"
  by (metis parent_normals length_append_singleton lessI)

function create_dir_all :: "path \<Rightarrow> node \<Rightarrow> (errno + unit) \<times> node" where
  "create_dir_all p fs =
     (case mkdir p fs of
        (Inr _, fs1) \<Rightarrow> (Inr (), fs1)
      | (Inl e, _) \<Rightarrow>
          if e \<noteq> ENOENT then (if path_is_dir fs p then (Inr (), fs) else (Inl e, fs))
          else (case parent p of
              None \<Rightarrow> (Inl e, fs)
            | Some d \<Rightarrow>
                (case create_dir_all d fs of
                   (Inl e1, fs1) \<Rightarrow> (Inl e1, fs1)
                 | (Inr _, fs1) \<Rightarrow>
                     (case mkdir p fs1 of
                        (Inr _, fs2) \<Rightarrow> (Inr (), fs2)
                      | (Inl e2, _) \<Rightarrow> if path_is_dir fs1 p then (Inr (), fs1) else (Inl e2, fs1)))))"
  by pat_completeness auto
termination
  by (relation "measure (\<lambda>(p, fs). length (normals p))") (auto dest: length_normals_parent)

declare create_dir_all.simps [simp del]

text \<open>\<^verbatim>\<open>O_CREAT\<close> with \<^verbatim>\<open>O_TRUNC\<close> or \<^verbatim>\<open>O_APPEND\<close>, and the bytes written; \<open>mode\<close> is that of a new file.\<close>

definition write_file :: "bool \<Rightarrow> nat \<Rightarrow> path \<Rightarrow> bytes \<Rightarrow> node \<Rightarrow> (errno + unit) \<times> node" where
  "write_file app mode p data fs =
     (case resolve True fs MAXSYMLINKS [] p of
        Inl e \<Rightarrow> (Inl e, fs)
      | Inr q \<Rightarrow>
          (case lookup fs q of
             None \<Rightarrow> (Inr (), put_at q (Some (File data mode)) fs)
           | Some (File b m) \<Rightarrow> (Inr (), put_at q (Some (File (if app then b @ data else data) m)) fs)
           | Some _ \<Rightarrow> (Inl EISDIR, fs)))"

definition set_permissions :: "nat \<Rightarrow> path \<Rightarrow> node \<Rightarrow> (errno + unit) \<times> node" where
  "set_permissions mode p fs =
     (case canonicalize fs p of
        Inl e \<Rightarrow> (Inl e, fs)
      | Inr q \<Rightarrow>
          (case lookup fs q of
             Some (File b m) \<Rightarrow> (Inr (), put_at q (Some (File b mode)) fs)
           | _ \<Rightarrow> (Inr (), fs)))"

definition remove_file :: "path \<Rightarrow> node \<Rightarrow> (errno + unit) \<times> node" where
  "remove_file p fs =
     (case resolve_parent fs p of
        Inl e \<Rightarrow> (Inl e, fs)
      | Inr (q, c) \<Rightarrow>
          (case lookup fs (q @ [c]) of
             None \<Rightarrow> (Inl ENOENT, fs)
           | Some (Dir es) \<Rightarrow> (Inl EISDIR, fs)
           | Some _ \<Rightarrow> (Inr (), put_at (q @ [c]) None fs)))"

text \<open>\<^verbatim>\<open>rename\<close> of a file or link over a name that is not a directory.\<close>

definition rename :: "path \<Rightarrow> path \<Rightarrow> node \<Rightarrow> (errno + unit) \<times> node" where
  "rename p p' fs =
     (case (resolve_parent fs p, resolve_parent fs p') of
        (Inr (q, c), Inr (q', c')) \<Rightarrow>
          (case lookup fs (q @ [c]) of
             None \<Rightarrow> (Inl ENOENT, fs)
           | Some n \<Rightarrow>
              (case lookup fs (q' @ [c']) of
                 Some (Dir es) \<Rightarrow> (Inl EISDIR, fs)
               | _ \<Rightarrow> if q @ [c] = q' @ [c'] then (Inr (), fs)
                      else (Inr (), put_at (q' @ [c']) (Some n) (put_at (q @ [c]) None fs))))
      | (Inl e, _) \<Rightarrow> (Inl e, fs)
      | (_, Inl e) \<Rightarrow> (Inl e, fs))"

section \<open>Laws of the tree\<close>

lemma lookup_append: "lookup n (p @ q) = Option.bind (lookup n p) (\<lambda>m. lookup m q)"
  by (induction n p rule: lookup.induct) (auto split: Option.bind_splits)

lemma lookup_snoc: "lookup n (p @ [c]) = Option.bind (lookup n p) (\<lambda>m. lookup m [c])"
  by (rule lookup_append)

lemma map_of_set_entry: "map_of (set_entry c v es) = (map_of es)(c := v)"
  by (auto simp: set_entry_def update_conv' delete_conv' split: option.splits)

definition has_parent :: "node \<Rightarrow> path \<Rightarrow> bool" where
  "has_parent fs p \<longleftrightarrow> p \<noteq> [] \<and> (\<exists>es. lookup fs (butlast p) = Some (Dir es))"

lemma lookup_put_same: "has_parent fs p \<Longrightarrow> lookup (put_at p v fs) p = v"
proof (induction p v fs rule: put_at.induct)
  case (2 c cs v es)
  then show ?case
    by (cases "cs = []")
      (auto simp: has_parent_def map_of_set_entry update_conv' split: option.splits Option.bind_splits)
qed (auto simp: has_parent_def split: if_splits)

lemma lookup_put_parallel: "p \<parallel> q \<Longrightarrow> lookup (put_at p v fs) q = lookup fs q"
proof (induction p v fs arbitrary: q rule: put_at.induct)
  case (2 c cs v es)
  then obtain d ds where q: "q = d # ds" by (cases q) (auto simp: parallel_def)
  show ?case
  proof (cases "c = d")
    case True
    then have "cs \<parallel> ds" using 2(2) q by (auto simp: parallel_def)
    then have "cs \<noteq> []" by (auto simp: parallel_def)
    then show ?thesis using 2(1) \<open>cs \<parallel> ds\<close> True q
      by (auto simp: update_conv' split: option.splits Option.bind_splits)
  next
    case False
    then show ?thesis using q
      by (cases "cs = []") (auto simp: map_of_set_entry update_conv' split: option.splits)
  qed
qed auto

lemma lookup_put_above: "r \<noteq> [] \<Longrightarrow> lookup (put_at (q @ r) v fs) q = map_option (put_at r v) (lookup fs q)"
proof (induction q arbitrary: fs)
  case (Cons c q)
  then have "q @ r \<noteq> []" by simp
  with Cons show ?case
    by (cases fs) (auto simp: update_conv' split: option.splits Option.bind_splits)
qed simp

lemma lookup_put_below: "has_parent fs p \<Longrightarrow> lookup (put_at p v fs) (p @ r) = Option.bind v (\<lambda>n. lookup n r)"
  by (simp add: lookup_append lookup_put_same)

lemma is_dir_put_at [simp]: "is_dir (put_at p v n) = is_dir n"
  by (cases "(p, v, n)" rule: put_at.cases) (auto split: option.splits)

text \<open>A name elsewhere, or a directory on the way: a put leaves every directory that is not below it a directory.\<close>

lemma dir_put:
  assumes "lookup fs q = Some (Dir es)" "\<not> prefix p q"
  shows "\<exists>es'. lookup (put_at p v fs) q = Some (Dir es')"
proof (cases "prefix q p")
  case True
  then obtain r where r: "p = q @ r" by (auto elim: prefixE)
  then have "r \<noteq> []" using assms(2) by auto
  then show ?thesis using lookup_put_above [of r q v fs] r assms(1)
    by (cases "put_at r v (Dir es)") (use is_dir_put_at [of r v "Dir es"] in auto)
next
  case False
  then show ?thesis using assms lookup_put_parallel [of p q v fs] by (auto simp: parallel_def)
qed

lemma has_parent_put:
  assumes "has_parent fs q" "\<not> prefix p (butlast q)"
  shows "has_parent (put_at p v fs) q"
  using assms dir_put [of fs "butlast q" _ p v] by (auto simp: has_parent_def)

section \<open>Laws of resolution\<close>

definition plain :: "path \<Rightarrow> bool" where
  "plain p \<longleftrightarrow> ''.'' \<notin> set p \<and> ''..'' \<notin> set p"

lemma plain_simps [simp]:
  "plain []" "plain (c # p) \<longleftrightarrow> c \<noteq> ''.'' \<and> c \<noteq> ''..'' \<and> plain p" "plain (p @ q) \<longleftrightarrow> plain p \<and> plain q"
  by (auto simp: plain_def)

lemma plain_butlast: "plain p \<Longrightarrow> plain (butlast p)"
  by (auto simp: plain_def dest: in_set_butlastD)

lemma plain_normals: "plain p \<Longrightarrow> normals p = p"
  by (induction p) (auto simp: normals_def)

lemma dir_above:
  assumes "lookup fs (p @ q) = Some n" "q \<noteq> []"
  shows "\<exists>es. lookup fs p = Some (Dir es)"
proof -
  obtain m where "lookup fs p = Some m" "lookup m q = Some n"
    using assms(1) by (auto simp: lookup_append split: Option.bind_splits)
  then show ?thesis using assms(2) by (cases m; cases q) auto
qed

lemma dir_root: "lookup fs p = Some (Dir es) \<Longrightarrow> \<exists>es'. lookup fs [] = Some (Dir es')"
  using dir_above [of fs "[]" p] by (cases p) auto

lemma dir_butlast:
  "lookup fs p = Some (Dir es) \<Longrightarrow> \<exists>es'. lookup fs (butlast p) = Some (Dir es')"
  by (cases p rule: rev_cases) (auto dest: dir_above [of fs _ "[_]", simplified])

text \<open>Where resolution ends: at a plain path that holds no link, or, with \<open>create\<close>, at a free name in a directory.\<close>

lemma resolve_sound:
  assumes "resolve create fs n cur todo = Inr q" "lookup fs cur = Some (Dir es)" "plain cur"
  shows "plain q \<and> (case lookup fs q of Some m \<Rightarrow> \<not> is_link m | None \<Rightarrow> create \<and> has_parent fs q)"
  using assms
proof (induction create fs n cur todo arbitrary: es rule: resolve.induct)
  case (2 create fs n cur c todo)
  show ?case
  proof (cases "c = ''.'' \<or> c = ''..''")
    case True
    then show ?thesis using 2 dir_butlast [OF 2(6)] by (auto simp: plain_butlast split: if_splits)
  next
    case False
    show ?thesis
    proof (cases "lookup fs (cur @ [c])")
      case None
      then show ?thesis using 2(5-7) False by (auto simp: has_parent_def split: if_splits)
    next
      case (Some m)
      then show ?thesis
      proof (cases m)
        case (File b k)
        then show ?thesis using 2(5,7) False Some by (auto split: if_splits)
      next
        case (Dir es')
        then show ?thesis using 2(3) [OF _ _ Some Dir, of es'] 2(5,7) False Some by simp
      next
        case (Link t)
        then obtain k where n: "n = Suc k" using 2(5) False Some by (cases n) auto
        obtain es0 where "lookup fs [] = Some (Dir es0)" using dir_root [OF 2(6)] by blast
        then show ?thesis
          using 2(4) [OF _ _ Some Link n, of es] 2(4) [OF _ _ Some Link n, of es0] 2(5-7) False Some Link n
          by (cases "is_absolute t") auto
      qed
    qed
  qed
qed auto

text \<open>Resolution of a plain path that exists and is no link is the path itself.\<close>

lemma resolve_plain:
  assumes "lookup fs (cur @ todo) = Some m" "\<not> is_link m" "plain todo"
  shows "resolve create fs n cur todo = Inr (cur @ todo)"
  using assms
proof (induction todo arbitrary: cur)
  case (Cons c todo)
  show ?case
  proof (cases "todo = []")
    case False
    then have "\<exists>es. lookup fs (cur @ [c]) = Some (Dir es)"
      using Cons.prems(1) dir_above [of fs "cur @ [c]" todo] by simp
    then show ?thesis using Cons.IH [of "cur @ [c]"] Cons.prems by auto
  qed (use Cons.prems in \<open>auto split: node.splits\<close>)
qed simp

text \<open>With \<open>create\<close>, a free name in a directory resolves to itself.\<close>

lemma resolve_free:
  assumes "lookup fs (cur @ todo @ [c]) = None" "lookup fs (cur @ todo) = Some (Dir es)" "plain (todo @ [c])"
  shows "resolve True fs n cur (todo @ [c]) = Inr (cur @ todo @ [c])"
  using assms
proof (induction todo arbitrary: cur)
  case (Cons d todo)
  have "\<exists>es. lookup fs (cur @ [d]) = Some (Dir es)"
    using Cons.prems(2) dir_above [of fs "cur @ [d]" todo] by (cases "todo = []") auto
  then show ?case using Cons.IH [of "cur @ [d]"] Cons.prems by auto
qed auto

text \<open>Away from links, resolution either fails or ends at the path itself.\<close>

definition link_on :: "node \<Rightarrow> path \<Rightarrow> path \<Rightarrow> bool" where
  "link_on fs cur p \<longleftrightarrow> (\<exists>q t. prefix q p \<and> lookup fs (cur @ q) = Some (Link t))"

lemma link_on_Cons: "link_on fs cur (c # p) \<longleftrightarrow> (\<exists>t. lookup fs cur = Some (Link t)) \<or> link_on fs (cur @ [c]) p"
  by (auto simp: link_on_def prefix_Cons)

lemma resolve_link_free:
  assumes "resolve create fs n cur todo = Inr q" "''..'' \<notin> set todo" "\<not> link_on fs cur (normals todo)"
  shows "q = cur @ normals todo"
  using assms
proof (induction todo arbitrary: cur)
  case (Cons c todo)
  show ?case
  proof (cases "c = ''.''")
    case False
    then have nl: "\<not> link_on fs (cur @ [c]) (normals todo)" using Cons.prems(3) by (simp add: link_on_Cons normals_def)
    then have "lookup fs (cur @ [c]) \<noteq> Some (Link t)" for t by (force simp: link_on_def)
    then show ?thesis
      using Cons.prems(1,2) Cons.IH [of "cur @ [c]"] nl False
      by (auto simp: normals_def split: option.splits node.splits if_splits)
  qed (use Cons in \<open>simp add: normals_def\<close>)
qed (simp add: normals_def)

lemma resolve_dots:
  "set todo \<subseteq> {''.''} \<Longrightarrow> resolve create fs n cur todo = Inr cur"
  by (induction todo) auto

text \<open>Below a directory tree without links only its own names are reached.\<close>

definition link_free_below :: "node \<Rightarrow> path \<Rightarrow> bool" where
  "link_free_below fs root \<longleftrightarrow> (\<forall>q t. prefix root q \<longrightarrow> lookup fs q \<noteq> Some (Link t))"

lemma not_link_on:
  assumes "lookup fs root = Some m" "link_free_below fs root" "prefix root p"
  shows "\<not> link_on fs [] p"
proof
  assume "link_on fs [] p"
  then obtain q t where q: "prefix q p" "lookup fs q = Some (Link t)" by (auto simp: link_on_def)
  then have "\<not> prefix root q" using assms(2) by (auto simp: link_free_below_def)
  then have "prefix q root" "q \<noteq> root" using prefix_same_cases [OF q(1) assms(3)] by auto
  then obtain r where "root = q @ r" "r \<noteq> []" by (auto elim: prefixE)
  then show False using dir_above [of fs q r m] assms(1) q(2) by auto
qed

lemma canonicalize_sound:
  assumes "canonicalize fs p = Inr q" "is_dir fs"
  obtains m where "lookup fs q = Some m" "\<not> is_link m" "plain q"
proof -
  obtain es where "lookup fs [] = Some (Dir es)" using assms(2) by (cases fs) auto
  then show thesis
    using resolve_sound [of False fs MAXSYMLINKS "[]" p q es] assms(1) that
    by (auto simp: canonicalize_def split: option.splits)
qed

lemma canonicalize_physical:
  "lookup fs p = Some m \<Longrightarrow> \<not> is_link m \<Longrightarrow> plain p \<Longrightarrow> canonicalize fs p = Inr p"
  using resolve_plain [of fs "[]" p m False] by (simp add: canonicalize_def)

lemma canonicalize_idem: "canonicalize fs p = Inr q \<Longrightarrow> is_dir fs \<Longrightarrow> canonicalize fs q = Inr q"
  by (meson canonicalize_physical canonicalize_sound)

lemma set_trim_dots: "set (trim_dots p) \<subseteq> set p"
  by (auto simp: trim_dots_def dest: set_dropWhileD)

lemma set_parent: "parent p = Some d \<Longrightarrow> set d \<subseteq> set p"
  using set_trim_dots [of p] set_trim_dots [of "butlast (trim_dots p)"]
  by (auto simp: parent_def dest: in_set_butlastD split: if_splits)

lemma normals_empty: "normals p = [] \<longleftrightarrow> set p \<subseteq> {''.''}"
  by (auto simp: normals_def filter_empty_conv)

lemma normals_append [simp]: "normals (p @ q) = normals p @ normals q"
  by (simp add: normals_def)

lemma path_exists_root: "is_dir fs \<Longrightarrow> normals p = [] \<Longrightarrow> path_exists fs p"
  by (simp add: path_exists_def open_at_def canonicalize_def resolve_dots normals_empty is_ok_def)

text \<open>A path to a regular file with a slash behind it does not resolve.\<close>

lemma resolve_trailing:
  assumes "resolve False fs n cur todo = Inr q" "lookup fs q = Some (File b m)" "lookup fs cur = Some (Dir es)"
  shows "resolve False fs n cur (todo @ [''.'']) = Inl ENOTDIR"
  using assms
proof (induction False fs n cur todo arbitrary: es rule: resolve.induct)
  case (2 fs n cur c todo)
  show ?case
  proof (cases "c = ''.'' \<or> c = ''..''")
    case True
    then show ?thesis using 2 dir_butlast [OF 2(7)] by (auto split: if_splits)
  next
    case False
    then obtain x where x: "lookup fs (cur @ [c]) = Some x" using 2(5) by (auto split: option.splits if_splits)
    then show ?thesis
    proof (cases x)
      case (File b' k)
      then show ?thesis using 2(5) False x by (auto split: if_splits)
    next
      case (Dir es')
      then show ?thesis using 2(3) [OF _ _ x Dir, of es'] 2(5,6) False x by simp
    next
      case (Link t)
      then obtain k where n: "n = Suc k" using 2(5) False x by (cases n) auto
      obtain es0 where "lookup fs [] = Some (Dir es0)" using dir_root [OF 2(7)] by blast
      then show ?thesis
        using 2(4) [OF _ _ x Link n, of es] 2(4) [OF _ _ x Link n, of es0] 2(5-7) False x Link n
        by (cases "is_absolute t") auto
    qed
  qed
qed auto

lemma physical_not_link_on:
  assumes "lookup fs p = Some m" "\<not> is_link m"
  shows "\<not> link_on fs [] p"
proof
  assume "link_on fs [] p"
  then obtain q t where q: "prefix q p" "lookup fs q = Some (Link t)" by (auto simp: link_on_def)
  then obtain r where "p = q @ r" by (auto elim: prefixE)
  then show False using assms q(2) dir_above [of fs q r m] by (cases "r = []") auto
qed

section \<open>Calls on plain paths\<close>

lemma plain_last:
  assumes "plain p" "p \<noteq> []"
  shows "parent p = Some (butlast p)" "file_name p = Some (last p)"
proof -
  have td: "trim_dots r = r" if "plain r" for r using that by (cases r rule: rev_cases) (auto simp: trim_dots_def)
  have "last p \<noteq> ''..''" using assms(1) last_in_set [OF assms(2)] unfolding plain_def by metis
  then show "parent p = Some (butlast p)" "file_name p = Some (last p)"
    using assms td [of p] td [of "butlast p"] by (simp_all add: parent_def file_name_def plain_normals plain_butlast)
qed

lemma has_parentI: "lookup fs d = Some (Dir es) \<Longrightarrow> has_parent fs (d @ [c])"
  by (simp add: has_parent_def)

lemma resolve_parent_plain:
  assumes "plain p" "has_parent fs p"
  shows "resolve_parent fs p = Inr (butlast p, last p)"
proof -
  obtain es where es: "lookup fs (butlast p) = Some (Dir es)" "p \<noteq> []" using assms(2) by (auto simp: has_parent_def)
  then have "canonicalize fs (butlast p) = Inr (butlast p)"
    using canonicalize_physical [OF es(1)] assms(1) by (simp add: plain_butlast)
  then show ?thesis using plain_last [OF assms(1) es(2)] es by (simp add: resolve_parent_def)
qed

lemma has_parent_snoc: "has_parent fs p \<Longrightarrow> butlast p @ [last p] = p"
  by (simp add: has_parent_def)

lemma resolve_create_plain:
  assumes "plain p" "has_parent fs p" "lookup fs p = None \<or> (\<exists>m. lookup fs p = Some m \<and> \<not> is_link m)"
  shows "resolve True fs n [] p = Inr p"
proof (cases "lookup fs p")
  case None
  obtain es where "lookup fs (butlast p) = Some (Dir es)" "p \<noteq> []" using assms(2) by (auto simp: has_parent_def)
  then show ?thesis
    using resolve_free [of fs "[]" "butlast p" "last p" es n] None assms(1) has_parent_snoc [OF assms(2)] by simp
qed (use assms resolve_plain [of fs "[]" p] in auto)

lemma write_file_plain:
  assumes "plain p" "has_parent fs p"
  shows "lookup fs p = None \<Longrightarrow> write_file app mode p d fs = (Inr (), put_at p (Some (File d mode)) fs)"
    "lookup fs p = Some (File b m) \<Longrightarrow>
       write_file app mode p d fs = (Inr (), put_at p (Some (File (if app then b @ d else d) m)) fs)"
    "lookup fs p = Some (Dir es) \<Longrightarrow> write_file app mode p d fs = (Inl EISDIR, fs)"
  using resolve_create_plain [OF assms] by (simp_all add: write_file_def)

lemma mkdir_plain:
  assumes "plain p" "has_parent fs p"
  shows "mkdir p fs = (if lookup fs p = None then (Inr (), put_at p (Some (Dir [])) fs) else (Inl EEXIST, fs))"
  using resolve_parent_plain [OF assms] has_parent_snoc [OF assms(2)] by (simp add: mkdir_def)

section \<open>The files of a tree\<close>

text \<open>A tree as a map from paths to what is not a directory.\<close>

definition leaf :: "node \<Rightarrow> path \<Rightarrow> node option" where
  "leaf fs q = (case lookup fs q of Some n \<Rightarrow> if is_dir n then None else Some n | None \<Rightarrow> None)"

lemma leaf_Some [simp]: "leaf fs q = Some n \<longleftrightarrow> lookup fs q = Some n \<and> \<not> is_dir n"
  by (auto simp: leaf_def split: option.splits)

lemma lookup_below_leaf: "lookup fs p = Some n \<Longrightarrow> \<not> is_dir n \<Longrightarrow> r \<noteq> [] \<Longrightarrow> lookup fs (p @ r) = None"
  by (cases n; cases r) (auto simp: lookup_append)

lemma lookup_below_missing: "lookup fs p = None \<Longrightarrow> lookup fs (p @ r) = None"
  by (simp add: lookup_append)

lemma path_cases:
  obtains "p \<parallel> q" | "q = p" | r where "q = p @ r" "r \<noteq> []" | r where "p = q @ r" "r \<noteq> []"
  by (metis append_Nil2 parallelI prefixE)

lemma dir_on_the_way:
  assumes "has_parent fs (q @ r)" "r \<noteq> []"
  shows "\<exists>es. lookup fs q = Some (Dir es)"
proof -
  obtain es where "lookup fs (q @ butlast r) = Some (Dir es)"
    using assms by (auto simp: has_parent_def butlast_append)
  then show ?thesis using dir_above [of fs q "butlast r"] by (cases "butlast r = []") auto
qed

lemma leaf_put:
  assumes "has_parent fs p" "\<forall>n. lookup fs p = Some n \<longrightarrow> \<not> is_dir n" "\<forall>n. v = Some n \<longrightarrow> \<not> is_dir n"
  shows "leaf (put_at p v fs) = (leaf fs)(p := v)"
proof
  fix q
  show "leaf (put_at p v fs) q = ((leaf fs)(p := v)) q"
  proof (cases rule: path_cases [of p q])
    case 1
    then show ?thesis using lookup_put_parallel [OF 1, of v fs] by (auto simp: leaf_def parallel_def)
  next
    case 2
    then show ?thesis using lookup_put_same [OF assms(1), of v] assms(3) by (auto simp: leaf_def split: option.splits)
  next
    case (3 r)
    have "lookup (put_at p v fs) q = None"
      using 3 lookup_put_below [OF assms(1), of v r] assms(3) by (cases v) (use lookup_below_leaf [of _ "[]"] in auto)
    moreover have "lookup fs q = None"
      using 3 assms(2) by (cases "lookup fs p") (auto simp: lookup_below_missing lookup_below_leaf)
    ultimately show ?thesis using 3 by (simp add: leaf_def)
  next
    case (4 r)
    obtain es where "lookup fs q = Some (Dir es)" using dir_on_the_way [of fs q r] assms(1) 4 by auto
    then show ?thesis using 4 lookup_put_above [OF 4(2), of q v fs] by (auto simp: leaf_def)
  qed
qed

lemma leaf_mkdir:
  assumes "has_parent fs p" "lookup fs p = None"
  shows "leaf (put_at p (Some (Dir [])) fs) = leaf fs"
proof
  fix q
  show "leaf (put_at p (Some (Dir [])) fs) q = leaf fs q"
  proof (cases rule: path_cases [of p q])
    case 1
    then show ?thesis using lookup_put_parallel [OF 1, of "Some (Dir [])" fs] by (auto simp: leaf_def)
  next
    case (3 r)
    then show ?thesis
      using lookup_put_below [OF assms(1), of "Some (Dir [])" r] lookup_below_missing [OF assms(2), of r]
      by (cases r) (auto simp: leaf_def)
  next
    case (4 r)
    obtain es where "lookup fs q = Some (Dir es)" using dir_on_the_way [of fs q r] assms(1) 4 by auto
    then show ?thesis using 4 lookup_put_above [OF 4(2), of q "Some (Dir [])" fs] by (auto simp: leaf_def)
  qed (use assms lookup_put_same [OF assms(1)] in \<open>auto simp: leaf_def\<close>)
qed

section \<open>The size of a tree\<close>

fun entries_size :: "(string \<times> node) list \<Rightarrow> nat" where
  "entries_size [] = 0"
| "entries_size ((name, n) # es) =
     (case n of Dir sub \<Rightarrow> entries_size sub | File b m \<Rightarrow> length b | Link t \<Rightarrow> length t) + entries_size es"

definition node_size :: "node \<Rightarrow> nat" where
  "node_size n = (case n of Dir es \<Rightarrow> entries_size es | File b m \<Rightarrow> length b | Link t \<Rightarrow> length t)"

abbreviation opt_size :: "node option \<Rightarrow> nat" where
  "opt_size v \<equiv> (case v of Some n \<Rightarrow> node_size n | None \<Rightarrow> 0)"

lemma node_size_simps [simp]:
  "node_size (File b m) = length b" "node_size (Link t) = length t" "node_size (Dir es) = entries_size es"
  "entries_size ((name, n) # es) = node_size n + entries_size es"
  by (simp_all add: node_size_def)

declare entries_size.simps(2) [simp del]

lemma entries_size_update:
  "entries_size (AList.update c v es) + opt_size (map_of es c) = entries_size es + node_size v"
proof (induction es)
  case (Cons e es)
  then show ?case by (cases e) auto
qed simp

lemma node_size_put:
  "has_parent fs p \<Longrightarrow> node_size (put_at p (Some v) fs) + opt_size (lookup fs p) = node_size fs + node_size v"
proof (induction p "Some v" fs rule: put_at.induct)
  case (2 c cs es)
  show ?case
  proof (cases "cs = []")
    case True
    then show ?thesis using entries_size_update [of c v es] by (cases "map_of es c") (auto simp: set_entry_def)
  next
    case False
    then obtain n where n: "map_of es c = Some n" "has_parent n cs"
      using 2(2) by (auto simp: has_parent_def split: Option.bind_splits)
    then show ?thesis using 2(1) [OF False n] entries_size_update [of c "put_at cs (Some v) n" es] False by simp
  qed
qed (auto simp: has_parent_def split: if_splits)

section \<open>Adding directories\<close>

text \<open>
  A tree has grown by directories on the way to \<open>d\<close>: it has the same files, and every object keeps its
  kind and size.
\<close>

definition grown :: "path \<Rightarrow> node \<Rightarrow> node \<Rightarrow> bool" where
  "grown d fs fs1 \<longleftrightarrow> leaf fs1 = leaf fs
     \<and> (\<forall>q n. lookup fs q = Some n \<longrightarrow>
          (\<exists>n'. lookup fs1 q = Some n' \<and> is_dir n' = is_dir n \<and> node_size n' = node_size n))
     \<and> (\<forall>q. lookup fs1 q \<noteq> None \<longrightarrow> lookup fs q \<noteq> None \<or> prefix q d)"

lemma grown_refl [simp]: "grown d fs fs"
  by (simp add: grown_def)

lemma grown_trans: "grown d a b \<Longrightarrow> grown d b c \<Longrightarrow> grown d a c"
  unfolding grown_def by metis

lemma grown_further: "grown d a b \<Longrightarrow> grown (d @ e) a b"
  unfolding grown_def using prefix_prefix by blast

lemma grown_mkdir:
  assumes "has_parent fs p" "lookup fs p = None"
  shows "grown p fs (put_at p (Some (Dir [])) fs)"
  unfolding grown_def
proof (intro conjI allI impI)
  fix q n assume q: "lookup fs q = Some n"
  show "\<exists>n'. lookup (put_at p (Some (Dir [])) fs) q = Some n' \<and> is_dir n' = is_dir n \<and> node_size n' = node_size n"
  proof (cases rule: path_cases [of p q])
    case 1
    then show ?thesis using q by (simp add: lookup_put_parallel)
  next
    case (4 r)
    have "lookup fs (q @ r) = None" "has_parent n r" using assms q 4
      by (auto simp: has_parent_def butlast_append lookup_append)
    then have "lookup n r = None" "has_parent n r" using q by (auto simp: lookup_append)
    then show ?thesis using 4 q node_size_put [of n r "Dir []"] lookup_put_above [OF 4(2), of q "Some (Dir [])" fs] by simp
  qed (use assms q lookup_below_missing in auto)
next
  fix q assume q: "lookup (put_at p (Some (Dir [])) fs) q \<noteq> None"
  show "lookup fs q \<noteq> None \<or> prefix q p"
  proof (cases rule: path_cases [of p q])
    case 1
    then show ?thesis using q by (simp add: lookup_put_parallel)
  next
    case (3 r)
    then show ?thesis using q lookup_put_below [OF assms(1), of "Some (Dir [])" r] by (cases r) auto
  qed auto
qed (rule leaf_mkdir [OF assms])

lemma grown_link_on: "grown d fs fs1 \<Longrightarrow> link_on fs1 cur p = link_on fs cur p"
proof -
  assume "grown d fs fs1"
  then have "leaf fs1 q = Some (Link t) \<longleftrightarrow> leaf fs q = Some (Link t)" for q t by (simp only: grown_def)
  then show ?thesis by (simp add: link_on_def)
qed

lemma grown_dir: "grown d fs fs1 \<Longrightarrow> lookup fs q = Some (Dir es) \<Longrightarrow> \<exists>es'. lookup fs1 q = Some (Dir es')"
  unfolding grown_def by (metis is_dir.elims(2) is_dir.simps(1))

lemma path_is_dir_plain:
  assumes "plain p" "\<not> link_on fs [] p"
  shows "path_is_dir fs p \<longleftrightarrow> (\<exists>es. lookup fs p = Some (Dir es))"
proof
  assume "path_is_dir fs p"
  then obtain q n where q: "resolve False fs MAXSYMLINKS [] p = Inr q" "lookup fs q = Some n" "is_dir n"
    by (auto simp: path_is_dir_def open_at_def canonicalize_def res_bind_eq_Inr_conv split: sum.splits option.splits)
  then have "q = p" using resolve_link_free [OF q(1)] assms by (auto simp: plain_normals) (auto simp: plain_def)
  then show "\<exists>es. lookup fs p = Some (Dir es)" using q by (cases n) auto
qed (use canonicalize_physical [OF _ _ assms(1)] in \<open>auto simp: path_is_dir_def open_at_def\<close>)

lemma mkdir_at_grown:
  assumes "plain p" "has_parent fs p" "\<not> link_on fs [] p"
    "mk = (case mkdir p fs of (Inr _, fs2) \<Rightarrow> (Inr (), fs2)
       | (Inl e, _) \<Rightarrow> if path_is_dir fs p then (Inr (), fs) else (Inl e, fs))"
  shows "grown p fs (snd mk) \<and> (fst mk = Inr () \<longrightarrow> (\<exists>es. lookup (snd mk) p = Some (Dir es)))"
proof (cases "lookup fs p")
  case None
  then show ?thesis
    using assms(4) grown_mkdir [OF assms(2) None] lookup_put_same [OF assms(2)] by (simp add: mkdir_plain [OF assms(1,2)])
next
  case (Some n)
  then show ?thesis
    using assms(4) path_is_dir_plain [OF assms(1,3)] by (cases n) (simp_all add: mkdir_plain [OF assms(1,2)])
qed

lemma create_dir_all_grown:
  assumes "plain p" "is_dir fs" "\<not> link_on fs [] p" "create_dir_all p fs = (r, fs1)"
  shows "grown p fs fs1 \<and> (r = Inr () \<longrightarrow> (\<exists>es. lookup fs1 p = Some (Dir es)))"
  using assms
proof (induction p arbitrary: r fs1 rule: rev_induct)
  case Nil
  then have "path_is_dir fs []" by (cases fs) (auto simp: path_is_dir_def open_at_def canonicalize_def)
  moreover have "mkdir [] fs = (Inl EEXIST, fs)"
    by (simp add: mkdir_def resolve_parent_def parent_def normals_def)
  ultimately show ?case using Nil(2,4) by (cases fs) (auto simp: create_dir_all.simps [of "[]"])
next
  case (snoc c d)
  note last = plain_last [OF snoc(2)]
  have nl: "\<not> link_on fs [] d" using snoc(4) by (auto simp: link_on_def intro: prefix_prefix)
  show ?case
  proof (cases "\<exists>es. lookup fs d = Some (Dir es)")
    case True
    then have hp: "has_parent fs (d @ [c])" by (auto simp: has_parent_def)
    then show ?thesis
      using mkdir_at_grown [OF snoc(2) hp snoc(4) refl] snoc(5) mkdir_plain [OF snoc(2) hp]
      by (auto simp: create_dir_all.simps [of "d @ [c]"] split: if_splits)
  next
    case False
    then have np: "\<not> path_is_dir fs (d @ [c])"
      using path_is_dir_plain [OF snoc(2,4)] dir_above [of fs d "[c]"] by auto
    obtain e where m: "mkdir (d @ [c]) fs = (Inl e, fs)"
    proof -
      have "lookup fs q \<noteq> Some (Dir es)" if "canonicalize fs d = Inr q" for q es
        using resolve_link_free [of False fs MAXSYMLINKS "[]" d q] that nl False snoc(2)
        by (auto simp: canonicalize_def plain_normals) (auto simp: plain_def)
      then have "\<exists>e. resolve_parent fs (d @ [c]) = Inl e"
        using last by (cases "canonicalize fs d") (auto simp: resolve_parent_def split: option.splits node.splits)
      then show thesis using that by (auto simp: mkdir_def)
    qed
    obtain r1 fs2 where d: "create_dir_all d fs = (r1, fs2)" by fastforce
    have g: "grown d fs fs2" "r1 = Inr () \<Longrightarrow> \<exists>es. lookup fs2 d = Some (Dir es)"
      using snoc(1) [OF _ snoc(3) nl d] snoc(2) by auto
    show ?thesis
    proof (cases "e = ENOENT \<and> r1 = Inr ()")
      case True
      then have hp: "has_parent fs2 (d @ [c])" using g(2) by (auto simp: has_parent_def)
      have "\<not> link_on fs2 [] (d @ [c])" using grown_link_on [OF g(1)] snoc(4) by simp
      from mkdir_at_grown [OF snoc(2) hp this refl]
      show ?thesis using True m d snoc(5) last grown_trans [OF grown_further [OF g(1)]]
        by (auto simp: create_dir_all.simps [of "d @ [c]"] mkdir_plain [OF snoc(2) hp] split: if_splits)
    next
      case False
      then show ?thesis using m d snoc(5) last np grown_further [OF g(1)]
        by (cases r1) (auto simp: create_dir_all.simps [of "d @ [c]"] split: if_splits)
    qed
  qed
qed

section \<open>Overwriting and removing\<close>

lemma update_same: "map_of es c = Some n \<Longrightarrow> AList.update c n es = es"
  by (induction es) auto

lemma delete_fresh: "map_of es c = None \<Longrightarrow> AList.delete c es = es"
  by (metis delete_id map_of_eq_None_iff)

lemma put_put_same: "put_at p (Some v) (put_at p (Some w) fs) = put_at p (Some v) fs"
proof (induction p "Some w" fs rule: put_at.induct)
  case (2 c cs es)
  then show ?case by (auto simp: set_entry_def update_conv' split: option.splits)
qed auto

lemma remove_fresh: "lookup fs p = None \<Longrightarrow> put_at p None (put_at p (Some w) fs) = fs"
proof (induction p "Some w" fs rule: put_at.induct)
  case (2 c cs es)
  then show ?case
    by (auto simp: set_entry_def update_conv' delete_fresh update_same delete_update_same split: option.splits Option.bind_splits)
qed auto

lemma has_parent_put_self: "has_parent fs p \<Longrightarrow> has_parent (put_at p v fs) p"
proof -
  assume p: "has_parent fs p"
  then have "length (butlast p) < length p" by (simp add: has_parent_def)
  then have "\<not> prefix p (butlast p)" by (metis leD prefix_length_le)
  then show ?thesis using p by (rule has_parent_put [rotated])
qed

text \<open>A file put under a fresh name and renamed over another name of the same directory is a single put.\<close>

lemma set_permissions_file:
  assumes "plain p" "has_parent fs p"
  shows "set_permissions m p (put_at p (Some (File b k)) fs) = (Inr (), put_at p (Some (File b m)) fs)"
proof -
  have "lookup (put_at p (Some (File b k)) fs) p = Some (File b k)" using assms(2) by (rule lookup_put_same)
  then show ?thesis using canonicalize_physical [of "put_at p (Some (File b k)) fs" p "File b k"] assms(1)
    by (simp add: set_permissions_def put_put_same)
qed

lemma rename_fresh:
  assumes "plain p" "plain t" "has_parent fs p" "has_parent fs t" "lookup fs t = None" "t \<parallel> p"
  shows "rename t p (put_at t (Some n) fs) =
    (case lookup fs p of Some (Dir es) \<Rightarrow> (Inl EISDIR, put_at t (Some n) fs) | _ \<Rightarrow> (Inr (), put_at p (Some n) fs))"
proof -
  let ?fs = "put_at t (Some n) fs"
  have "\<not> prefix t (butlast p)" using assms(6) by (meson parallelD1 prefix_order.trans prefixeq_butlast)
  then have "has_parent ?fs p" using assms(3) by (rule has_parent_put [rotated])
  then have "resolve_parent ?fs p = Inr (butlast p, last p)" "resolve_parent ?fs t = Inr (butlast t, last t)"
    using resolve_parent_plain assms(1,2) has_parent_put_self [OF assms(4)] by blast+
  moreover have "lookup ?fs t = Some n" "lookup ?fs p = lookup fs p" "p \<noteq> t"
    using lookup_put_same [OF assms(4)] lookup_put_parallel [OF assms(6)] assms(6) by auto
  ultimately show ?thesis
    using has_parent_snoc [OF assms(3)] has_parent_snoc [OF assms(4)] remove_fresh [OF assms(5), of n]
    by (auto simp: rename_def split: option.splits node.splits)
qed

lemma remove_file_fresh:
  assumes "plain t" "has_parent fs t" "lookup fs t = None"
  shows "remove_file t (put_at t (Some (File b m)) fs) = (Inr (), fs)"
  using resolve_parent_plain [OF assms(1) has_parent_put_self [OF assms(2)]] lookup_put_same [OF assms(2)]
    has_parent_snoc [OF assms(2)] remove_fresh [OF assms(3)]
  by (simp add: remove_file_def)

end
