(* ===== verification/Path_Policy.thy ===== *)
theory Path_Policy
  imports Guest_Fs Rfb_Builtin
begin

text \<open>
  Confinement of guest paths to the workspace: \<^verbatim>\<open>rfb-runtime/src/policy.rs\<close>, which the ZBRT workspace executor
  uses, and \<^verbatim>\<open>guest_path\<close> of \<^verbatim>\<open>rfb-runtime/src/agent/transport.rs\<close>, which the NDJSON agent uses, with the
  other request checks of that file. Roots are absolute paths.
\<close>

section \<open>policy.rs\<close>

datatype policy_error = Escape | ReadOnly | NotAllowed

fun policy_message :: "policy_error \<Rightarrow> string" where
  "policy_message Escape = ''path escapes allowed root''"
| "policy_message ReadOnly = ''write is not allowed for read-only host path''"
| "policy_message NotAllowed = ''path is not inside an allowed root''"

record path_policy =
  pp_read_only_host_roots :: "path list"
  pp_workspace_root :: path

text \<open>\<^verbatim>\<open>Path::join\<close> with a relative path; joining the empty path adds a slash.\<close>

definition join_path :: "path \<Rightarrow> string \<Rightarrow> path" where
  "join_path root rel = root @ (if rel = [] then [''.''] else os_components rel)"

text \<open>The loop that canonicalizes the deepest ancestor it can, collecting the components behind it.\<close>

function deepest_existing :: "node \<Rightarrow> path \<Rightarrow> path \<Rightarrow> policy_error + path \<times> path" where
  "deepest_existing fs existing missing =
     (case canonicalize fs existing of
        Inr resolved \<Rightarrow> Inr (resolved, missing)
      | Inl _ \<Rightarrow>
          (case file_name existing of
             None \<Rightarrow> Inl Escape
           | Some name \<Rightarrow>
              (case parent existing of
                 None \<Rightarrow> Inl Escape
               | Some d \<Rightarrow> deepest_existing fs d (name # missing))))"
  by pat_completeness auto
termination
  by (relation "measure (\<lambda>(fs, existing, missing). length (normals existing))") (auto dest: length_normals_parent)

declare deepest_existing.simps [simp del]

definition safe_join :: "node \<Rightarrow> path \<Rightarrow> string \<Rightarrow> policy_error + path" where
  "safe_join fs root rel =
     (if is_absolute rel \<or> ''..'' \<in> set (os_components rel) then Inl Escape
      else
        (let candidate = join_path root rel in
         if \<not> prefix (normals root) (normals candidate) then Inl Escape
         else (case canonicalize fs root of
             Inl _ \<Rightarrow> Inr candidate
           | Inr canonical_root \<Rightarrow>
               res_bind (deepest_existing fs candidate []) (\<lambda>(existing, missing).
                 let resolved = existing @ missing in
                 if prefix canonical_root resolved then Inr resolved else Inl Escape))))"

definition workspace_path :: "node \<Rightarrow> path_policy \<Rightarrow> string \<Rightarrow> policy_error + path" where
  "workspace_path fs pol rel = safe_join fs (pp_workspace_root pol) rel"

definition host_read_path :: "node \<Rightarrow> path_policy \<Rightarrow> nat \<Rightarrow> string \<Rightarrow> policy_error + path" where
  "host_read_path fs pol i rel =
     (if i < length (pp_read_only_host_roots pol) then safe_join fs (pp_read_only_host_roots pol ! i) rel
      else Inl NotAllowed)"

definition can_write_host :: "path_policy \<Rightarrow> string \<Rightarrow> policy_error + unit" where
  "can_write_host pol p = Inl ReadOnly"

section \<open>agent/transport.rs\<close>

definition MAX_PATH :: nat where "MAX_PATH = 4096"
definition MAX_PATTERN :: nat where "MAX_PATTERN = 1024"
definition MAX_RESULTS :: nat where "MAX_RESULTS = 1000"
definition AGENT_MAX_BYTES :: nat where "AGENT_MAX_BYTES = 50 * 1024"
definition MAX_CODE :: nat where "MAX_CODE = 1024 * 1024"

datatype guest_path_error = Invalid string | Denied string | Os errno

text \<open>The deepest ancestor that exists; the walk stops at the root.\<close>

function existing_ancestor :: "node \<Rightarrow> path \<Rightarrow> path \<Rightarrow> path \<times> path" where
  "existing_ancestor fs existing behind =
     (if path_exists fs existing then (existing, behind)
      else (case parent existing of
          None \<Rightarrow> (existing, behind)
        | Some d \<Rightarrow> existing_ancestor fs d ((case file_name existing of Some n \<Rightarrow> n | None \<Rightarrow> []) # behind)))"
  by pat_completeness auto
termination
  by (relation "measure (\<lambda>(fs, existing, behind). length (normals existing))") (auto dest: length_normals_parent)

declare existing_ancestor.simps [simp del]

text \<open>The lexical part: the request's path relative to the workspace.\<close>

definition guest_relative :: "json option \<Rightarrow> guest_path_error + string" where
  "guest_relative v =
     (let raw = (case Option.bind v as_str of Some s \<Rightarrow> s | None \<Rightarrow> ''.'') in
      if raw = [] \<or> length raw > MAX_PATH \<or> CHR 0x00 \<in> set raw \<or> CHR 0x5C \<in> set raw
         \<or> ''..'' \<in> set (split_on (CHR ''/'') raw) \<or> (length raw \<ge> 2 \<and> raw ! 1 = CHR '':'')
      then Inl (Invalid ''invalid guest path'')
      else
        (let stripped = strip_prefix ''/workspace'' raw;
             inside = (case stripped of Some rest \<Rightarrow> rest = [] \<or> starts_with rest ''/'' | None \<Rightarrow> False);
             rel = (case stripped of Some rest \<Rightarrow> if inside then dropWhile (\<lambda>c. c = CHR ''/'') rest else raw | None \<Rightarrow> raw)
         in if starts_with raw ''/'' \<and> \<not> inside then Inl (Invalid ''invalid guest path'') else Inr rel))"

text \<open>The part that consults the file system.\<close>

definition anchor_path :: "node \<Rightarrow> path \<Rightarrow> string \<Rightarrow> guest_path_error + path" where
  "anchor_path fs root rel =
     (case existing_ancestor fs (join_path root rel) [] of (existing, behind) \<Rightarrow>
        res_bind (if path_exists fs existing
                  then (case canonicalize fs existing of Inr r \<Rightarrow> Inr r | Inl e \<Rightarrow> Inl (Os e))
                  else Inr existing) (\<lambda>anchored.
          if anchored \<noteq> root \<and> \<not> prefix (normals root) (normals anchored)
          then Inl (Denied ''guest path escapes workspace'')
          else Inr (anchored @ behind)))"

definition guest_path :: "node \<Rightarrow> path \<Rightarrow> json option \<Rightarrow> guest_path_error + path" where
  "guest_path fs host_root v =
     res_bind (guest_relative v) (\<lambda>rel.
       anchor_path fs (case canonicalize fs host_root of Inr r \<Rightarrow> r | Inl _ \<Rightarrow> host_root) rel)"

definition as_u64 :: "json \<Rightarrow> nat option" where
  "as_u64 v = (case v of JNumber n \<Rightarrow> if 0 \<le> n \<and> n < 2 ^ 64 then Some (nat n) else None | _ \<Rightarrow> None)"

definition agent_limit :: "json option \<Rightarrow> nat \<Rightarrow> nat \<Rightarrow> string + nat" where
  "agent_limit v mx dflt =
     (let n = (case Option.bind v as_u64 of Some n \<Rightarrow> n | None \<Rightarrow> dflt)
      in if n = 0 \<or> n > mx then Inl ''guest result limit exceeded'' else Inr n)"

definition agent_pattern :: "json \<Rightarrow> string + string" where
  "agent_pattern request =
     (case Option.bind (jget ''pattern'' request) as_str of
        None \<Rightarrow> Inl ''pattern must be a string''
      | Some p \<Rightarrow> if p = [] \<or> length p > MAX_PATTERN \<or> CHR 0x00 \<in> set p then Inl ''invalid guest pattern'' else Inr p)"

section \<open>What the policies give\<close>

lemma file_name_plain: "file_name p = Some n \<Longrightarrow> n \<noteq> ''.'' \<and> n \<noteq> ''..''"
  using last_in_set [of "normals p"] by (auto simp: file_name_def normals_def split: if_splits)

lemma deepest_existing_sound:
  assumes "deepest_existing fs e ms = Inr (r, ms')" "is_dir fs" "plain ms"
  shows "plain ms' \<and> canonicalize fs r = Inr r \<and> plain r"
  using assms
proof (induction fs e ms rule: deepest_existing.induct)
  case (1 fs e ms)
  show ?case
  proof (cases "canonicalize fs e")
    case (Inr q)
    then show ?thesis using 1(2-4) canonicalize_idem canonicalize_sound
      by (subst (asm) deepest_existing.simps) (auto elim: canonicalize_sound)
  next
    case (Inl err)
    then obtain name d where s: "file_name e = Some name" "parent e = Some d"
      "deepest_existing fs d (name # ms) = Inr (r, ms')"
      using 1(2) by (subst (asm) deepest_existing.simps) (auto split: option.splits)
    then show ?thesis using 1(1) [OF Inl s] 1(3,4) file_name_plain [OF s(1)] by simp
  qed
qed

text \<open>
  The contract of a path guard: an accepted path lies, as a list of components, below the real location of
  the root. What that gives the file operations is proved once for every guard.
\<close>

locale path_guard =
  fixes guard :: "node \<Rightarrow> path \<Rightarrow> 'r \<Rightarrow> 'e + path"
  assumes guarded: "is_dir fs \<Longrightarrow> canonicalize fs root = Inr croot \<Longrightarrow> guard fs root r = Inr p \<Longrightarrow>
    plain p \<and> prefix croot p"
begin

lemma not_linked:
  assumes "is_dir fs" "canonicalize fs root = Inr croot" "guard fs root r = Inr p" "link_free_below fs croot"
  shows "\<not> link_on fs [] p"
proof -
  obtain m where "lookup fs croot = Some m" using canonicalize_sound [OF assms(2,1)] by blast
  then show ?thesis using not_link_on assms(4) guarded [OF assms(1-3)] by blast
qed

lemma resolves_to_itself:
  assumes "is_dir fs" "canonicalize fs root = Inr croot" "guard fs root r = Inr p" "\<not> link_on fs [] p"
    "resolve create fs n [] p = Inr q"
  shows "q = p \<and> prefix croot q"
proof -
  have "plain p" "prefix croot p" using guarded [OF assms(1-3)] by simp_all
  then show ?thesis
    using resolve_link_free [OF assms(5)] assms(4) by (simp add: plain_normals) (auto simp: plain_def)
qed

lemma reads_below:
  assumes "is_dir fs" "canonicalize fs root = Inr croot" "guard fs root r = Inr p" "\<not> link_on fs [] p"
    "open_at fs p = Inr m"
  shows "lookup fs p = Some m \<and> prefix croot p"
proof -
  obtain q where q: "resolve False fs MAXSYMLINKS [] p = Inr q" "lookup fs q = Some m"
    using assms(5) by (auto simp: open_at_def canonicalize_def res_bind_eq_Inr_conv split: option.splits)
  then show ?thesis using resolves_to_itself [OF assms(1-4) q(1)] by auto
qed

lemma writes_below:
  assumes "is_dir fs" "canonicalize fs root = Inr croot" "guard fs root r = Inr p" "\<not> link_on fs [] p"
    "write_file app mode p d fs = (res, fs')" "q \<parallel> croot"
  shows "lookup fs' q = lookup fs q"
proof -
  have "p' \<parallel> q" if "resolve True fs MAXSYMLINKS [] p = Inr p'" for p'
    using resolves_to_itself [OF assms(1-4) that] assms(6) by (meson parallelE parallelI prefix_order.trans prefix_same_cases)
  then show ?thesis
    using assms(5) lookup_put_parallel
    by (auto simp: write_file_def split: sum.splits option.splits node.splits)
qed

end

lemma safe_join_guarded:
  assumes "is_dir fs" "canonicalize fs root = Inr croot" "safe_join fs root rel = Inr p"
  shows "plain p \<and> prefix croot p"
proof -
  obtain e ms where d: "deepest_existing fs (join_path root rel) [] = Inr (e, ms)" "p = e @ ms" "prefix croot p"
    using assms(2,3) by (auto simp: safe_join_def Let_def res_bind_eq_Inr_conv split: if_splits)
  show ?thesis using deepest_existing_sound [OF d(1) assms(1)] d(2,3) by simp
qed

interpretation policy: path_guard safe_join
  by unfold_locales (rule safe_join_guarded)

lemma existing_ancestor_sound:
  assumes "existing_ancestor fs e ms = (e', ms')" "is_dir fs" "plain ms"
  shows "plain ms' \<and> path_exists fs e'"
  using assms
proof (induction fs e ms rule: existing_ancestor.induct)
  case (1 fs e ms)
  show ?case
  proof (cases "path_exists fs e")
    case False
    then have "normals e \<noteq> []" using path_exists_root [OF 1(3)] by blast
    then obtain d where d: "parent e = Some d" by (auto simp: parent_def)
    let ?n = "case file_name e of Some n \<Rightarrow> n | None \<Rightarrow> []"
    have "existing_ancestor fs d (?n # ms) = (e', ms')"
      using 1(2) False d by (subst (asm) existing_ancestor.simps) simp
    moreover have "plain (?n # ms)" using 1(4) file_name_plain [of e] by (cases "file_name e") simp_all
    ultimately show ?thesis using 1(1) [OF False d] 1(3) by blast
  qed (use 1(2,4) in \<open>simp add: existing_ancestor.simps [of fs e]\<close>)
qed

lemma guest_path_guarded:
  assumes "is_dir fs" "canonicalize fs root = Inr croot" "guest_path fs root v = Inr p"
  shows "plain p \<and> prefix croot p"
proof -
  obtain rel where "anchor_path fs croot rel = Inr p"
    using assms(2,3) by (auto simp: guest_path_def res_bind_eq_Inr_conv)
  moreover obtain e ms where e: "existing_ancestor fs (join_path croot rel) [] = (e, ms)" by fastforce
  ultimately have p: "res_bind (if path_exists fs e then (case canonicalize fs e of Inr r \<Rightarrow> Inr r | Inl x \<Rightarrow> Inl (Os x))
        else Inr e) (\<lambda>anchored. if anchored \<noteq> croot \<and> \<not> prefix (normals croot) (normals anchored)
           then Inl (Denied ''guest path escapes workspace'') else Inr (anchored @ ms)) = Inr p"
    by (simp add: anchor_path_def)
  have s: "plain ms" "path_exists fs e" using existing_ancestor_sound [OF e assms(1)] by simp_all
  then obtain r where r: "canonicalize fs e = Inr r" "p = r @ ms" "r = croot \<or> prefix (normals croot) (normals r)"
    using p by (auto simp: res_bind_eq_Inr_conv split: sum.splits if_splits)
  have "plain r" "plain croot" using canonicalize_sound [OF r(1) assms(1)] canonicalize_sound [OF assms(2,1)] by blast+
  then show ?thesis using r(2,3) s(1) by (auto simp: plain_normals)
qed

interpretation agent: path_guard guest_path
  by unfold_locales (rule guest_path_guarded)

section \<open>Without links\<close>

lemma deepest_existing_exact:
  assumes "is_dir fs" "''..'' \<notin> set e" "\<not> link_on fs [] (normals e)"
  shows "\<exists>r ms'. deepest_existing fs e ms = Inr (r, ms') \<and> r @ ms' = normals e @ ms"
  using assms
proof (induction fs e ms rule: deepest_existing.induct)
  case (1 fs e ms)
  show ?case
  proof (cases "canonicalize fs e")
    case (Inr q)
    then have "q = normals e" using resolve_link_free 1(3,4) by (force simp: canonicalize_def)
    then show ?thesis using Inr by (simp add: deepest_existing.simps [of fs e])
  next
    case (Inl err)
    have ne: "normals e \<noteq> []" using Inl by (auto simp: canonicalize_def resolve_dots normals_empty)
    then obtain d where d: "parent e = Some d" by (auto simp: parent_def)
    have "last (normals e) \<noteq> ''..''" using last_in_set [OF ne] 1(3) by (auto simp: normals_def)
    then have f: "file_name e = Some (last (normals e))" using ne by (simp add: file_name_def)
    have n: "normals e = normals d @ [last (normals e)]" using parent_normals [OF d] .
    have "''..'' \<notin> set d" using set_parent [OF d] 1(3) by blast
    moreover have "\<not> link_on fs [] (normals d)" using 1(4) prefixI [OF n] by (auto simp: link_on_def intro: prefix_order.trans)
    ultimately obtain r ms' where "deepest_existing fs d (last (normals e) # ms) = Inr (r, ms')"
      "r @ ms' = normals d @ last (normals e) # ms"
      using 1(1) [OF Inl f d] 1(2) by blast
    then show ?thesis using Inl f d n by (subst deepest_existing.simps) auto
  qed
qed

lemma safe_join_link_free:
  assumes "is_dir fs" "canonicalize fs root = Inr root" "link_free_below fs root"
  shows "safe_join fs root rel =
    (if is_absolute rel \<or> ''..'' \<in> set (os_components rel) then Inl Escape
     else Inr (root @ normals (os_components rel)))"
proof (cases "is_absolute rel \<or> ''..'' \<in> set (os_components rel)")
  case False
  let ?c = "join_path root rel"
  obtain m where m: "lookup fs root = Some m" "plain root" using canonicalize_sound [OF assms(2,1)] by blast
  have nc: "normals ?c = root @ normals (os_components rel)"
    using m(2) by (cases "rel = []") (auto simp: join_path_def plain_normals normals_def [of "[_]"] os_components_def)
  have "\<not> link_on fs [] (normals ?c)" using not_link_on [OF m(1) assms(3)] nc by simp
  moreover have "''..'' \<notin> set ?c" using False m(2) by (auto simp: join_path_def plain_def)
  ultimately obtain r ms where "deepest_existing fs ?c [] = Inr (r, ms)" "r @ ms = normals ?c"
    using deepest_existing_exact [of fs ?c "[]"] assms(1) by auto
  then show ?thesis using False assms(2) nc m(2) by (simp add: safe_join_def Let_def plain_normals)
qed (simp add: safe_join_def)

section \<open>A single name\<close>

definition simple_name :: "string \<Rightarrow> bool" where
  "simple_name c \<longleftrightarrow> c \<noteq> [] \<and> CHR ''/'' \<notin> set c \<and> c \<noteq> ''.'' \<and> c \<noteq> ''..''"

lemma simple_name_components:
  assumes "simple_name c"
  shows "os_components c = [c]" "os_components (c @ ''/'') = [c, ''.'']" "\<not> is_absolute c" "\<not> is_absolute (c @ ''/'')"
proof -
  have c: "c \<noteq> []" "CHR ''/'' \<notin> set c" using assms by (simp_all add: simple_name_def)
  have "last c \<noteq> CHR ''/''" using last_in_set [OF c(1)] c(2) by metis
  then show "os_components c = [c]" "os_components (c @ ''/'') = [c, ''.'']"
    using c split_on_append [of "CHR ''/''" c "[]"] by (simp_all add: os_components_def split_on_plain)
  show "\<not> is_absolute c" "\<not> is_absolute (c @ ''/'')"
    using c by (cases c; auto simp: is_absolute_def starts_with_def)+
qed

lemma simple_name_last:
  assumes "simple_name c" "plain root" "ds = [] \<or> ds = [''.'']"
  shows "file_name (root @ c # ds) = Some c" "parent (root @ c # ds) = Some root"
proof -
  have "trim_dots root = root" using assms(2) by (cases root rule: rev_cases) (auto simp: trim_dots_def)
  then show "file_name (root @ c # ds) = Some c" "parent (root @ c # ds) = Some root"
    using assms(1,3) by (auto simp: simple_name_def file_name_def normals_def parent_def trim_dots_def)
qed

text \<open>What the policy makes of a name in the root, with or without a slash.\<close>

lemma safe_join_name:
  assumes "is_dir fs" "canonicalize fs root = Inr root" "simple_name c" "s = [] \<or> s = ''/''"
  shows "safe_join fs root (c @ s) =
    (case canonicalize fs (root @ os_components (c @ s)) of
       Inr q \<Rightarrow> if prefix root q then Inr q else Inl Escape
     | Inl _ \<Rightarrow> Inr (root @ [c]))"
proof -
  note comps = simple_name_components [OF assms(3)]
  obtain ds where ds: "os_components (c @ s) = c # ds" "ds = [] \<or> ds = [''.'']" using assms(4) comps by auto
  have pl: "plain root" using canonicalize_sound [OF assms(2,1)] by blast
  have c: "c \<noteq> []" "c \<noteq> ''.''" "c \<noteq> ''..''" using assms(3) by (simp_all add: simple_name_def)
  have "deepest_existing fs (root @ c # ds) [] =
      (case canonicalize fs (root @ c # ds) of Inr q \<Rightarrow> Inr (q, []) | Inl _ \<Rightarrow> Inr (root, [c]))"
    using simple_name_last [OF assms(3) pl ds(2)] assms(2)
    by (subst deepest_existing.simps) (simp add: deepest_existing.simps [of fs root] split: sum.splits)
  then show ?thesis using ds assms(2,4) comps c
    by (auto simp: safe_join_def Let_def join_path_def normals_def split: sum.splits)
qed

section \<open>Properties\<close>

text \<open>
  C22. Both guards confine: a path that \<^verbatim>\<open>PathPolicy::safe_join\<close> or the agent's \<^verbatim>\<open>guest_path\<close> accepts lies below the
  real location of the root. As long as no component of it is a symbolic link, what is opened through it
  is the object of that name and what is written through it changes nothing beside the root; this is the
  case when the tree below the root has no links, and for the policy also whenever the requested path
  resolves, links included, because the accepted path is then the place it resolves to.
\<close>

theorem path_guards_confine:
  assumes "is_dir fs" "canonicalize fs root = Inr croot" "safe_join fs root rel = Inr p \<or> guest_path fs root v = Inr p"
  shows "plain p \<and> prefix croot p
    \<and> (\<not> link_on fs [] p \<longrightarrow>
         (\<forall>m. open_at fs p = Inr m \<longrightarrow> lookup fs p = Some m)
       \<and> (\<forall>app mode d res fs' q. write_file app mode p d fs = (res, fs') \<and> q \<parallel> croot \<longrightarrow> lookup fs' q = lookup fs q))
    \<and> (link_free_below fs croot \<longrightarrow> \<not> link_on fs [] p)
    \<and> (safe_join fs root rel = Inr p \<and> canonicalize fs (join_path root rel) = Inr r \<longrightarrow> p = r \<and> \<not> link_on fs [] p)"
proof -
  have here: "p = r \<and> \<not> link_on fs [] p"
    if "safe_join fs root rel = Inr p" "canonicalize fs (join_path root rel) = Inr r"
  proof -
    have "p = r" using that assms(2)
      by (simp add: safe_join_def Let_def deepest_existing.simps [of fs "join_path root rel"] split: if_splits)
    then show ?thesis using canonicalize_sound [OF that(2) assms(1)] physical_not_link_on by blast
  qed
  from assms(3) show ?thesis
  proof
    assume j: "safe_join fs root rel = Inr p"
    note g = policy.reads_below [OF assms(1,2) j] policy.writes_below [OF assms(1,2) j] policy.not_linked [OF assms(1,2) j]
    show ?thesis using policy.guarded [OF assms(1,2) j] g here j by blast
  next
    assume j: "guest_path fs root v = Inr p"
    note g = agent.reads_below [OF assms(1,2) j] agent.writes_below [OF assms(1,2) j] agent.not_linked [OF assms(1,2) j]
    show ?thesis using agent.guarded [OF assms(1,2) j] g here by blast
  qed
qed

text \<open>
  In a workspace without symbolic links the policy is exactly the lexical rule: absolute paths and paths
  with a parent component are refused, every other path is the workspace root followed by the components
  of the request.
\<close>

theorem policy_exact_without_links:
  assumes "is_dir fs" "canonicalize fs root = Inr root" "link_free_below fs root" "pp_workspace_root pol = root"
  shows "workspace_path fs pol rel =
    (if is_absolute rel \<or> ''..'' \<in> set (os_components rel) then Inl Escape
     else Inr (root @ normals (os_components rel)))"
  using safe_join_link_free [OF assms(1-3)] assms(4) by (simp add: workspace_path_def)

text \<open>
  C40. Links that do not resolve are not checked. For a link in the workspace that leads to a regular file outside,
  the policy refuses its name, yet accepts the name followed by a slash, and the file outside is read
  through the path it returns. For a link whose target does not exist yet the policy accepts the name, and
  appending through it creates the file outside the workspace.
\<close>

theorem symlink_escapes_policy:
  assumes "is_dir fs" "canonicalize fs root = Inr root" "simple_name c"
    "lookup fs (root @ [c]) = Some (Link t)" "\<not> prefix root q"
  shows "(canonicalize fs (root @ [c]) = Inr q \<and> lookup fs q = Some (File b m) \<longrightarrow>
       safe_join fs root c = Inl Escape \<and> safe_join fs root (c @ ''/'') = Inr (root @ [c])
     \<and> read_file fs (root @ [c]) = Inr b)
    \<and> (canonicalize fs (root @ [c]) = Inl ENOENT \<and> resolve True fs MAXSYMLINKS [] (root @ [c]) = Inr q
         \<and> lookup fs q = None \<longrightarrow>
       safe_join fs root c = Inr (root @ [c])
     \<and> write_file True mode (root @ [c]) d fs = (Inr (), put_at q (Some (File d mode)) fs))"
proof (intro conjI impI)
  note name = safe_join_name [OF assms(1-3)] simple_name_components [OF assms(3)]
  assume q: "canonicalize fs (root @ [c]) = Inr q \<and> lookup fs q = Some (File b m)"
  show "safe_join fs root c = Inl Escape" using name(1) [of "[]"] name(2) q assms(5) by simp
  obtain es where "lookup fs [] = Some (Dir es)" using assms(1) by (cases fs) auto
  then have "canonicalize fs (root @ [c, ''.'']) = Inl ENOTDIR"
    using resolve_trailing [of fs MAXSYMLINKS "[]" "root @ [c]" q b m] q by (simp add: canonicalize_def)
  then show "safe_join fs root (c @ ''/'') = Inr (root @ [c])" using name(1) [of "''/''"] name(3) by simp
  show "read_file fs (root @ [c]) = Inr b" using q by (simp add: read_file_def open_at_def)
next
  assume q: "canonicalize fs (root @ [c]) = Inl ENOENT \<and> resolve True fs MAXSYMLINKS [] (root @ [c]) = Inr q
    \<and> lookup fs q = None"
  then show "safe_join fs root c = Inr (root @ [c])"
    using safe_join_name [OF assms(1-3), of "[]"] simple_name_components [OF assms(3)] by simp
  show "write_file True mode (root @ [c]) d fs = (Inr (), put_at q (Some (File d mode)) fs)"
    using q by (simp add: write_file_def)
qed

section \<open>Witnesses\<close>

definition demo_tree :: node where
  "demo_tree = Dir [(''ws'', Dir [(''f'', File [1] 420), (''l'', Link ''/etc/pw''), (''d'', Link ''/etc/no'')]),
     (''etc'', Dir [(''pw'', File [7] 384)])]"

definition plain_tree :: node where
  "plain_tree = Dir [(''ws'', Dir [(''f'', File [1] 420)])]"

lemma demo_tree_facts:
  "is_dir demo_tree" "canonicalize demo_tree [''ws''] = Inr [''ws'']"
  "lookup demo_tree [''ws'', ''l''] = Some (Link ''/etc/pw'')" "lookup demo_tree [''etc'', ''pw''] = Some (File [7] 384)"
  "canonicalize demo_tree [''ws'', ''l''] = Inr [''etc'', ''pw'']" "simple_name ''l''"
  by (simp_all add: demo_tree_def canonicalize_def MAXSYMLINKS_def is_absolute_def starts_with_def os_components_def
      simple_name_def numeral_eq_Suc)

lemma plain_tree_facts:
  "is_dir plain_tree" "canonicalize plain_tree [''ws''] = Inr [''ws'']" "link_free_below plain_tree [''ws'']"
proof -
  show "link_free_below plain_tree [''ws'']"
    unfolding link_free_below_def
  proof (intro allI impI)
    fix q t assume "prefix [''ws''] q"
    then obtain r where "q = ''ws'' # r" by (auto simp: prefix_def)
    then show "lookup plain_tree q \<noteq> Some (Link t)"
      by (cases r; cases "tl r") (auto simp: plain_tree_def split: if_splits)
  qed
qed (simp_all add: plain_tree_def canonicalize_def)

theorem path_guards_confine_witness:
  "safe_join plain_tree [''ws''] ''f'' = Inr [''ws'', ''f''] \<and> prefix [''ws''] [''ws'', ''f'']
   \<and> \<not> link_on plain_tree [] [''ws'', ''f'']"
proof -
  have "safe_join plain_tree [''ws''] ''f'' = Inr [''ws'', ''f'']"
    using safe_join_link_free [OF plain_tree_facts, of "''f''"]
    by (simp add: os_components_def normals_def is_absolute_def starts_with_def)
  then show ?thesis
    using path_guards_confine [OF plain_tree_facts(1,2), of "''f''" "[''ws'', ''f'']"] plain_tree_facts(3) by blast
qed

theorem policy_exact_without_links_witness:
  "workspace_path plain_tree \<lparr>pp_read_only_host_roots = [], pp_workspace_root = [''ws'']\<rparr> ''a//b/'' = Inr [''ws'', ''a'', ''b'']"
  using policy_exact_without_links [OF plain_tree_facts, of "\<lparr>pp_read_only_host_roots = [], pp_workspace_root = [''ws'']\<rparr>" "''a//b/''"]
  by (simp add: os_components_def normals_def is_absolute_def starts_with_def)

theorem symlink_escapes_policy_witness:
  "safe_join demo_tree [''ws''] ''l'' = Inl Escape \<and> safe_join demo_tree [''ws''] ''l/'' = Inr [''ws'', ''l'']
   \<and> read_file demo_tree [''ws'', ''l''] = Inr [7]"
  using symlink_escapes_policy [of demo_tree "[''ws'']" "''l''" "''/etc/pw''" "[''etc'', ''pw'']" "[7]" 384] demo_tree_facts
  by simp

end
