(* ===== verification/Workspace_Files.thy ===== *)
theory Workspace_Files
  imports Path_Policy Rfb_Session Rfb_Resources
begin

text \<open>
  The file operations of the workspace executor, \<^verbatim>\<open>rfb-runtime/src/workspace_executor/filesystem.rs\<close> with the
  state of \<^verbatim>\<open>workspace_executor/mod.rs\<close>: bounded reads, atomic and appending writes, and the cached size of
  the workspace that enforces \<^verbatim>\<open>max_workspace_bytes\<close>. Sizes are \<^verbatim>\<open>u64\<close> with saturating addition, as natural
  numbers.
\<close>

section \<open>State\<close>

text \<open>
  What the operating system decides: the size and permissions it reports for a directory, the
  permissions of a new file, the text of an error, and the suffix that makes a temporary name unique.
\<close>

record os_env =
  os_dir_len :: nat
  os_dir_mode :: nat
  os_new_mode :: nat
  os_error :: "errno \<Rightarrow> string"
  os_tmp_suffix :: string

text \<open>
  The executor. The size cache is shared by all executors on the same root, like the files, so both
  are part of the state; the cancellation flag is an address in the heap of flags.
\<close>

record workspace =
  ws_policy :: path_policy
  ws_limits :: runtime_limits
  ws_active :: "(string \<times> string) option"
  ws_cancel :: nat
  ws_cache :: "nat option"
  ws_fs :: node

definition workspace_new ::
  "os_env \<Rightarrow> path \<Rightarrow> runtime_limits \<Rightarrow> nat \<Rightarrow> nat option \<Rightarrow> node \<Rightarrow> (string + workspace) \<times> node" where
  "workspace_new os root limits flag cache fs =
     (case limits_validate limits of
        Inl e \<Rightarrow> (Inl e, fs)
      | Inr _ \<Rightarrow>
          (case create_dir_all root fs of
             (Inl e, fs1) \<Rightarrow> (Inl (os_error os e), fs1)
           | (Inr _, fs1) \<Rightarrow>
               (Inr \<lparr>ws_policy = \<lparr>pp_read_only_host_roots = [], pp_workspace_root = root\<rparr>, ws_limits = limits,
                     ws_active = None, ws_cancel = flag, ws_cache = cache, ws_fs = fs1\<rparr>, fs1)))"

section \<open>Sizes\<close>

definition sat_add :: "nat \<Rightarrow> nat \<Rightarrow> nat" where
  "sat_add a b = min (a + b) (2 ^ 64 - 1)"

text \<open>\<^verbatim>\<open>workspace_size\<close> of the entries of a directory; an entry's own metadata does not follow links.\<close>

fun size_loop :: "nat \<Rightarrow> (string \<times> node) list \<Rightarrow> nat" where
  "size_loop acc [] = acc"
| "size_loop acc ((name, n) # es) =
     size_loop (sat_add acc (case n of Dir sub \<Rightarrow> size_loop 0 sub | File b m \<Rightarrow> length b | Link t \<Rightarrow> length t)) es"

definition workspace_size :: "os_env \<Rightarrow> node \<Rightarrow> path \<Rightarrow> string + nat" where
  "workspace_size os fs root =
     (case read_dir fs root of Inl e \<Rightarrow> Inl (os_error os e) | Inr es \<Rightarrow> Inr (size_loop 0 es))"

section \<open>Reading\<close>

definition resolve_workspace :: "workspace \<Rightarrow> string \<Rightarrow> string + path" where
  "resolve_workspace ws p =
     (case workspace_path (ws_fs ws) (ws_policy ws) p of Inl e \<Rightarrow> Inl (policy_message e) | Inr q \<Rightarrow> Inr q)"

definition os_result :: "os_env \<Rightarrow> errno + 'a \<Rightarrow> string + 'a" where
  "os_result os r = (case r of Inl e \<Rightarrow> Inl (os_error os e) | Inr x \<Rightarrow> Inr x)"

definition filesystem_read :: "os_env \<Rightarrow> workspace \<Rightarrow> file_read_request \<Rightarrow> string + bytes" where
  "filesystem_read os ws request =
     (if frr_max_bytes request = 0 \<or> frr_max_bytes request > FILE_RPC_MAX_BYTES then Inl ''invalid max_bytes''
      else
        res_bind (resolve_workspace ws (frr_path request)) (\<lambda>path.
        res_bind (os_result os (read_file (ws_fs ws) path)) (\<lambda>content.
          let data = take (frr_max_bytes request + 1) content in
          if length data > frr_max_bytes request then Inl ''file exceeds max_bytes'' else Inr data)))"

text \<open>\<^verbatim>\<open>seek\<close> takes the offset as a signed 64-bit number.\<close>

definition filesystem_read_offset ::
  "os_env \<Rightarrow> workspace \<Rightarrow> string \<Rightarrow> nat \<Rightarrow> nat \<Rightarrow> string + bytes \<times> bool \<times> nat" where
  "filesystem_read_offset os ws p max_bytes offset =
     (if max_bytes = 0 \<or> max_bytes > FILE_RPC_MAX_BYTES then Inl ''invalid max_bytes''
      else
        res_bind (resolve_workspace ws p) (\<lambda>path.
        res_bind (os_result os (open_at (ws_fs ws) path)) (\<lambda>file.
        res_bind (if offset \<ge> 2 ^ 63 then Inl (os_error os EINVAL) else Inr ()) (\<lambda>_.
        res_bind (os_result os (read_file (ws_fs ws) path)) (\<lambda>content.
          let data = take (max_bytes + 1) (drop offset content)
          in Inr (take max_bytes data, length data > max_bytes, node_len (os_dir_len os) file))))))"

section \<open>Writing\<close>

text \<open>The temporary name beside a path.\<close>

definition tmp_path :: "os_env \<Rightarrow> path \<Rightarrow> path option" where
  "tmp_path os p =
     (case (parent p, file_name p) of (Some d, Some c) \<Rightarrow> Some (d @ [c @ os_tmp_suffix os]) | _ \<Rightarrow> None)"

text \<open>
  The system calls of an atomic write. A call gives its result and the states the file system passes through;
  a write passes through one for each number of bytes written so far. The file written is the one just
  created, so that bytes go behind those already there.
\<close>

datatype syscall = SysCreate path | SysWrite path bytes | SysChmod nat path | SysRename path path

fun sys_states :: "os_env \<Rightarrow> syscall \<Rightarrow> node \<Rightarrow> (errno + unit) \<times> node list" where
  "sys_states os (SysCreate t) fs = (case write_file False (os_new_mode os) t [] fs of (r, fs1) \<Rightarrow> (r, [fs1]))"
| "sys_states os (SysWrite t d) fs =
     (fst (write_file True (os_new_mode os) t d fs),
      map (\<lambda>n. snd (write_file True (os_new_mode os) t (take n d) fs)) [0 ..< length d + 1])"
| "sys_states os (SysChmod m t) fs = (case set_permissions m t fs of (r, fs1) \<Rightarrow> (r, [fs1]))"
| "sys_states os (SysRename t p) fs = (case rename t p fs of (r, fs1) \<Rightarrow> (r, [fs1]))"

text \<open>The chain of \<^verbatim>\<open>and_then\<close>: the first call that fails ends it. The states begin with the one it starts in.\<close>

fun run_calls :: "os_env \<Rightarrow> syscall list \<Rightarrow> node \<Rightarrow> (errno + unit) \<times> node list" where
  "run_calls os [] fs = (Inr (), [fs])"
| "run_calls os (call # calls) fs =
     (case sys_states os call fs of
        (Inl e, states) \<Rightarrow> (Inl e, fs # states)
      | (Inr _, states) \<Rightarrow> (case run_calls os calls (last states) of (r, later) \<Rightarrow> (r, fs # states @ later)))"

definition overwrite_calls :: "os_env \<Rightarrow> path \<Rightarrow> path \<Rightarrow> bytes \<Rightarrow> node \<Rightarrow> syscall list" where
  "overwrite_calls os tmp p content fs =
     (let preserve_mode = (case open_at fs p of Inr n \<Rightarrow> Some (node_mode (os_dir_mode os) n) | Inl _ \<Rightarrow> None)
      in [SysCreate tmp, SysWrite tmp content]
         @ (case preserve_mode of Some m \<Rightarrow> [SysChmod m tmp] | None \<Rightarrow> []) @ [SysRename tmp p])"

text \<open>\<^verbatim>\<open>write_atomic\<close>: its result with all states on the way, and with the last one.\<close>

definition write_atomic_run :: "os_env \<Rightarrow> path \<Rightarrow> bytes \<Rightarrow> node \<Rightarrow> (string + unit) \<times> node list" where
  "write_atomic_run os p content fs =
     (case tmp_path os p of
        None \<Rightarrow> (Inl ''invalid path'', [fs])
      | Some tmp \<Rightarrow>
          (case run_calls os (overwrite_calls os tmp p content fs) fs of
             (Inl e, states) \<Rightarrow> (Inl (os_error os e), states @ [snd (remove_file tmp (last states))])
           | (Inr _, states) \<Rightarrow> (Inr (), states)))"

definition write_atomic :: "os_env \<Rightarrow> path \<Rightarrow> bytes \<Rightarrow> node \<Rightarrow> (string + unit) \<times> node" where
  "write_atomic os p content fs = (case write_atomic_run os p content fs of (r, states) \<Rightarrow> (r, last states))"

abbreviation ws_root :: "workspace \<Rightarrow> path" where
  "ws_root ws \<equiv> pp_workspace_root (ws_policy ws)"

text \<open>The cached or freshly measured size, and the size after the write.\<close>

definition used_bytes :: "os_env \<Rightarrow> workspace \<Rightarrow> string + nat" where
  "used_bytes os ws =
     (case ws_cache ws of Some used \<Rightarrow> Inr used | None \<Rightarrow> workspace_size os (ws_fs ws) (ws_root ws))"

definition projected_bytes :: "os_env \<Rightarrow> file_write_request \<Rightarrow> node \<Rightarrow> path \<Rightarrow> nat \<Rightarrow> nat" where
  "projected_bytes os request fs p used =
     (let existing = (case open_at fs p of Inr n \<Rightarrow> node_len (os_dir_len os) n | Inl _ \<Rightarrow> 0) in
      if fwr_append request then sat_add used (length (fwr_content request))
      else sat_add (used - existing) (length (fwr_content request)))"

definition make_parents :: "path \<Rightarrow> node \<Rightarrow> (errno + unit) \<times> node" where
  "make_parents p fs = (case parent p of Some d \<Rightarrow> create_dir_all d fs | None \<Rightarrow> (Inr (), fs))"

definition write_content :: "os_env \<Rightarrow> file_write_request \<Rightarrow> path \<Rightarrow> node \<Rightarrow> (string + unit) \<times> node" where
  "write_content os request p fs =
     (if fwr_append request
      then (case write_file True (os_new_mode os) p (fwr_content request) fs of (r, fs2) \<Rightarrow> (os_result os r, fs2))
      else write_atomic os p (fwr_content request) fs)"

definition filesystem_write :: "os_env \<Rightarrow> file_write_request \<Rightarrow> workspace \<Rightarrow> (string + unit) \<times> workspace" where
  "filesystem_write os request ws =
     (if length (fwr_content request) > FILE_RPC_MAX_BYTES
      then (Inl (''file exceeds the '' @ dec_string FILE_RPC_MAX_BYTES @ ''-byte file rpc limit''), ws)
      else (case resolve_workspace ws (fwr_path request) of
        Inl e \<Rightarrow> (Inl e, ws)
      | Inr path \<Rightarrow>
        (case used_bytes os ws of
           Inl e \<Rightarrow> (Inl e, ws)
         | Inr used \<Rightarrow>
           (let projected = projected_bytes os request (ws_fs ws) path used in
            if projected > unat (max_workspace_bytes (ws_limits ws))
            then (Inl ''workspace exceeds max_workspace_bytes'', ws\<lparr>ws_cache := Some used\<rparr>)
            else (case make_parents path (ws_fs ws) of
                (Inl e, fs1) \<Rightarrow> (Inl (os_error os e), ws\<lparr>ws_cache := Some used, ws_fs := fs1\<rparr>)
              | (Inr _, fs1) \<Rightarrow>
                  (case write_content os request path fs1 of
                     (Inl e, fs2) \<Rightarrow> (Inl e, ws\<lparr>ws_cache := Some used, ws_fs := fs2\<rparr>)
                   | (Inr _, fs2) \<Rightarrow> (Inr (), ws\<lparr>ws_fs := fs2, ws_cache := Some projected\<rparr>)))))))"

definition invalidate_workspace_size :: "workspace \<Rightarrow> workspace" where
  "invalidate_workspace_size ws = ws\<lparr>ws_cache := None\<rparr>"

section \<open>An atomic write is a single update\<close>

text \<open>The temporary name is unused: it carries the time and the process number.\<close>

definition tmp_fresh :: "os_env \<Rightarrow> node \<Rightarrow> path \<Rightarrow> bool" where
  "tmp_fresh os fs p \<longleftrightarrow> length (os_tmp_suffix os) \<ge> 3
     \<and> (p \<noteq> [] \<longrightarrow> lookup fs (butlast p @ [last p @ os_tmp_suffix os]) = None)"

abbreviation kept_mode :: "os_env \<Rightarrow> node \<Rightarrow> path \<Rightarrow> nat" where
  "kept_mode os fs p \<equiv>
     (case open_at fs p of Inr n \<Rightarrow> node_mode (os_dir_mode os) n | Inl _ \<Rightarrow> os_new_mode os)"

lemma beside_parallel:
  assumes "p \<noteq> []" "s \<noteq> []"
  shows "butlast p @ [last p @ s] \<parallel> p"
proof -
  let ?t = "butlast p @ [last p @ s]"
  have len: "length ?t = length p" using assms(1) by simp
  have "?t \<noteq> p"
  proof
    assume "?t = p"
    then have "last ?t = last p" by (rule arg_cong)
    then show False using assms(2) by simp
  qed
  then show ?thesis using len by (metis append_eq_append_conv append_Nil2 parallelI prefixE)
qed

lemma tmp_facts:
  assumes "plain p" "has_parent fs p" "tmp_fresh os fs p"
  defines "t \<equiv> butlast p @ [last p @ os_tmp_suffix os]"
  shows "tmp_path os p = Some t" "plain t" "has_parent fs t" "lookup fs t = None" "t \<parallel> p"
proof -
  have ne: "p \<noteq> []" using assms(2) by (simp add: has_parent_def)
  have suf: "length (os_tmp_suffix os) \<ge> 3" "lookup fs t = None" using assms(3) ne by (simp_all add: tmp_fresh_def t_def)
  have "last p @ os_tmp_suffix os \<noteq> ''.''" "last p @ os_tmp_suffix os \<noteq> ''..''"
    using suf(1) by (auto dest: arg_cong [where f = length])
  then show "plain t" using assms(1) by (simp add: t_def plain_butlast)
  show "has_parent fs t" using assms(2) by (simp add: t_def has_parent_def)
  show "t \<parallel> p" unfolding t_def using suf(1) by (intro beside_parallel [OF ne]) auto
  show "tmp_path os p = Some t" using plain_last [OF assms(1) ne] by (simp add: tmp_path_def t_def)
  show "lookup fs t = None" by (rule suf(2))
qed

lemma fill_created:
  assumes "plain t" "has_parent fs t"
  shows "write_file True mode t d (put_at t (Some (File [] m)) fs) = (Inr (), put_at t (Some (File d m)) fs)"
  using write_file_plain(2) [OF assms(1) has_parent_put_self [OF assms(2)] lookup_put_same [OF assms(2)], of True mode d "[]" m]
  by (simp add: put_put_same)

lemma run_call:
  "sys_states os call fs = (Inr u, [x]) \<Longrightarrow>
     run_calls os (call # calls) fs = (case run_calls os calls x of (r, later) \<Rightarrow> (r, fs # x # later))"
  by simp

text \<open>
  The calls of a write beside and onto a plain path: their result, the state they end in, and all the states on
  the way, which have some content in the temporary file, or the whole at its place.
\<close>

lemma overwrite_run:
  assumes "plain p" "has_parent fs p" "tmp_fresh os fs p"
  defines "t \<equiv> butlast p @ [last p @ os_tmp_suffix os]"
  shows "\<exists>states k. run_calls os (overwrite_calls os t p content fs) fs =
      (case lookup fs p of Some (Dir es) \<Rightarrow> (Inl EISDIR, states) | _ \<Rightarrow> (Inr (), states))
    \<and> last states = (case lookup fs p of
        Some (Dir es) \<Rightarrow> put_at t (Some (File content k)) fs | _ \<Rightarrow> put_at p (Some (File content (kept_mode os fs p))) fs)
    \<and> (\<forall>s \<in> set states. s = fs \<or> (\<exists>d m. s = put_at t (Some (File d m)) fs)
         \<or> s = put_at p (Some (File content (kept_mode os fs p))) fs \<and> (\<forall>es. lookup fs p \<noteq> Some (Dir es)))"
proof -
  note tmp = tmp_facts [OF assms(1-3), folded t_def]
  note ht = tmp(3) and pt = tmp(2)
  let ?T = "\<lambda>d m. put_at t (Some (File d m)) fs" and ?n = "os_new_mode os"
  let ?F = "\<lambda>m. put_at p (Some (File content m)) fs"
  let ?w = "map (\<lambda>n. ?T (take n content) ?n) [0 ..< length content + 1]"
  let ?D = "\<exists>es. lookup fs p = Some (Dir es)"
  have c: "sys_states os (SysCreate t) fs = (Inr (), [?T [] ?n])"
    using write_file_plain(1) [OF pt ht tmp(4)] by simp
  have w: "sys_states os (SysWrite t content) (?T [] ?n) = (Inr (), ?w)" by (simp add: fill_created [OF pt ht])
  have lw: "last ?w = ?T content ?n" by simp
  have r: "run_calls os [SysRename t p] (?T content k) =
      (if ?D then (Inl EISDIR, [?T content k, ?T content k]) else (Inr (), [?T content k, ?F k, ?F k]))" for k
    using rename_fresh [OF assms(1) pt assms(2) ht tmp(4,5)] by (auto split: option.split node.split)
  have h: "sys_states os (SysChmod k t) (?T content ?n) = (Inr (), [?T content k])" for k
    using set_permissions_file [OF pt ht] by simp
  define rest where "rest = (case open_at fs p of Inr n \<Rightarrow> [SysChmod (node_mode (os_dir_mode os) n) t] | Inl _ \<Rightarrow> []) @ [SysRename t p]"
  obtain later where l: "run_calls os rest (?T content ?n) = ((if ?D then Inl EISDIR else Inr ()), later)" "later \<noteq> []"
    "last later = (if ?D then ?T content (kept_mode os fs p) else ?F (kept_mode os fs p))"
    "\<forall>s \<in> set later. (\<exists>d m. s = ?T d m) \<or> s = ?F (kept_mode os fs p) \<and> \<not> ?D"
  proof (cases "open_at fs p")
    case (Inl e)
    show ?thesis by (rule that [of "snd (run_calls os rest (?T content ?n))"]) (use Inl r [of ?n] in \<open>auto simp: rest_def\<close>)
  next
    case (Inr n)
    let ?k = "node_mode (os_dir_mode os) n"
    have "run_calls os rest (?T content ?n) = (case run_calls os [SysRename t p] (?T content ?k) of
        (r, ss) \<Rightarrow> (r, ?T content ?n # ?T content ?k # ss))"
      by (simp add: rest_def Inr run_call [OF h] del: run_calls.simps)
    then show ?thesis
      by (intro that [of "snd (run_calls os rest (?T content ?n))"]) (use Inr r [of ?k] in auto)
  qed
  have calls: "overwrite_calls os t p content fs = SysCreate t # SysWrite t content # rest"
    by (simp add: overwrite_calls_def rest_def split: sum.split)
  have run: "run_calls os (overwrite_calls os t p content fs) fs
      = ((if ?D then Inl EISDIR else Inr ()), fs # ?T [] ?n # ?T [] ?n # ?w @ later)"
    unfolding calls using c w lw l(1) by (simp del: sys_states.simps upt_Suc add: l(1))
  show ?thesis
    by (rule exI [of _ "fs # ?T [] ?n # ?T [] ?n # ?w @ later"], rule exI [of _ "kept_mode os fs p"])
      (use run l(2-4) in \<open>auto split: option.split node.split\<close>)
qed

lemma write_atomic_plain:
  assumes "plain p" "has_parent fs p" "tmp_fresh os fs p"
  shows "write_atomic os p content fs =
    (case lookup fs p of
       Some (Dir es) \<Rightarrow> (Inl (os_error os EISDIR), fs)
     | _ \<Rightarrow> (Inr (), put_at p (Some (File content (kept_mode os fs p))) fs))"
proof -
  let ?t = "butlast p @ [last p @ os_tmp_suffix os]"
  note tmp = tmp_facts [OF assms(1-3)]
  obtain states k where run: "run_calls os (overwrite_calls os ?t p content fs) fs =
      (case lookup fs p of Some (Dir es) \<Rightarrow> (Inl EISDIR, states) | _ \<Rightarrow> (Inr (), states))"
    "last states = (case lookup fs p of
        Some (Dir es) \<Rightarrow> put_at ?t (Some (File content k)) fs | _ \<Rightarrow> put_at p (Some (File content (kept_mode os fs p))) fs)"
    using overwrite_run [OF assms, of content] by blast
  show ?thesis
    using run remove_file_fresh [OF tmp(2-4), of content k]
    by (auto simp: write_atomic_def write_atomic_run_def tmp(1) split: option.splits node.splits)
qed

section \<open>The effect of a write\<close>

text \<open>A workspace whose root is a real directory and which has no symbolic links.\<close>

definition link_free_workspace :: "workspace \<Rightarrow> bool" where
  "link_free_workspace ws \<longleftrightarrow> is_dir (ws_fs ws) \<and> canonicalize (ws_fs ws) (ws_root ws) = Inr (ws_root ws)
     \<and> (\<exists>es. lookup (ws_fs ws) (ws_root ws) = Some (Dir es)) \<and> link_free_below (ws_fs ws) (ws_root ws)"

lemma resolve_workspace_below:
  assumes "link_free_workspace ws" "resolve_workspace ws rel = Inr p"
  shows "plain p" "prefix (ws_root ws) p" "\<not> link_on (ws_fs ws) [] p"
proof -
  have w: "is_dir (ws_fs ws)" "canonicalize (ws_fs ws) (ws_root ws) = Inr (ws_root ws)"
    "link_free_below (ws_fs ws) (ws_root ws)" "safe_join (ws_fs ws) (ws_root ws) rel = Inr p"
    using assms by (simp_all add: link_free_workspace_def resolve_workspace_def workspace_path_def split: sum.splits)
  show "plain p" "prefix (ws_root ws) p" using policy.guarded [OF w(1,2,4)] by simp_all
  show "\<not> link_on (ws_fs ws) [] p" using policy.not_linked [OF w(1,2,4,3)] .
qed

text \<open>What a file becomes.\<close>

definition file_after :: "os_env \<Rightarrow> file_write_request \<Rightarrow> node option \<Rightarrow> node" where
  "file_after os request old =
     (case old of
        Some (File b m) \<Rightarrow> File ((if fwr_append request then b else []) @ fwr_content request) m
      | _ \<Rightarrow> File (fwr_content request) (os_new_mode os))"

lemma open_at_plain:
  assumes "plain p" "\<not> link_on fs [] p"
  shows "open_at fs p = Inr n \<longleftrightarrow> lookup fs p = Some n"
proof
  assume "open_at fs p = Inr n"
  then obtain q where q: "resolve False fs MAXSYMLINKS [] p = Inr q" "lookup fs q = Some n"
    by (auto simp: open_at_def canonicalize_def res_bind_eq_Inr_conv split: option.splits)
  have "q = p" using resolve_link_free [OF q(1)] assms by (simp add: plain_normals) (simp add: plain_def)
  then show "lookup fs p = Some n" using q by simp
next
  assume l: "lookup fs p = Some n"
  then have "\<not> is_link n" using assms(2) by (cases n) (auto simp: link_on_def)
  then show "open_at fs p = Inr n" using canonicalize_physical [OF l _ assms(1)] l by (simp add: open_at_def)
qed

lemma write_content_at:
  assumes "plain p" "has_parent fs p" "\<not> link_on fs [] p" "tmp_fresh os fs p"
    "write_content os request p fs = (r, fs2)"
  shows "if \<exists>es. lookup fs p = Some (Dir es) then \<not> is_ok r \<and> fs2 = fs
    else r = Inr () \<and> fs2 = put_at p (Some (file_after os request (leaf fs p))) fs"
proof (cases "lookup fs p")
  case None
  then have "leaf fs p = None" "\<not> is_ok (open_at fs p)"
    using open_at_plain [OF assms(1,3)] by (auto simp: leaf_def is_ok_def split: sum.splits)
  then show ?thesis
    using None assms(5) write_file_plain(1) [OF assms(1,2) None] write_atomic_plain [OF assms(1,2,4)]
    by (auto simp: write_content_def file_after_def os_result_def is_ok_def split: if_splits sum.splits)
next
  case (Some n)
  then have o: "open_at fs p = Inr n" "\<not> is_link n"
    using open_at_plain [OF assms(1,3)] assms(3) by (auto simp: link_on_def elim!: is_link.elims)
  show ?thesis
  proof (cases n)
    case (File b m)
    then show ?thesis
      using Some assms(5) write_file_plain(2) [OF assms(1,2), of b m] write_atomic_plain [OF assms(1,2,4)] o
      by (auto simp: write_content_def file_after_def os_result_def leaf_def split: if_splits)
  next
    case (Dir es)
    then show ?thesis
      using Some assms(5) write_file_plain(3) [OF assms(1,2), of es] write_atomic_plain [OF assms(1,2,4)]
      by (auto simp: write_content_def os_result_def is_ok_def split: if_splits)
  qed (use o in auto)
qed

text \<open>The three ways a write can end.\<close>

lemma filesystem_write_cases [consumes 4, case_names refused parents failed written]:
  assumes "filesystem_write os request ws = (r, ws')" "resolve_workspace ws (fwr_path request) = Inr p"
    "make_parents p (ws_fs ws) = (r1, fs1)" "write_content os request p fs1 = (r2, fs2)"
  obtains (refused) "\<not> is_ok r" "ws' = ws \<or> (\<exists>u. used_bytes os ws = Inr u \<and> ws' = ws\<lparr>ws_cache := Some u\<rparr>)"
  | (parents) u where "\<not> is_ok r" "\<not> is_ok r1" "used_bytes os ws = Inr u" "ws' = ws\<lparr>ws_cache := Some u, ws_fs := fs1\<rparr>"
  | (failed) u where "\<not> is_ok r" "is_ok r1" "\<not> is_ok r2" "used_bytes os ws = Inr u"
      "ws' = ws\<lparr>ws_cache := Some u, ws_fs := fs2\<rparr>"
  | (written) u where "r = Inr ()" "is_ok r1" "is_ok r2" "used_bytes os ws = Inr u"
      "projected_bytes os request (ws_fs ws) p u \<le> unat (max_workspace_bytes (ws_limits ws))"
      "ws' = ws\<lparr>ws_fs := fs2, ws_cache := Some (projected_bytes os request (ws_fs ws) p u)\<rparr>"
proof (cases "length (fwr_content request) > FILE_RPC_MAX_BYTES \<or> \<not> is_ok (used_bytes os ws)")
  case True
  then have "\<not> is_ok r \<and> ws' = ws" using assms(1,2) by (auto simp: filesystem_write_def is_ok_def split: sum.splits if_splits)
  then show thesis using refused by blast
next
  case False
  then obtain u where u: "used_bytes os ws = Inr u" by (auto simp: is_ok_def split: sum.splits)
  let ?pr = "projected_bytes os request (ws_fs ws) p u"
  have w: "filesystem_write os request ws =
     (if ?pr > unat (max_workspace_bytes (ws_limits ws))
      then (Inl ''workspace exceeds max_workspace_bytes'', ws\<lparr>ws_cache := Some u\<rparr>)
      else (case r1 of
          Inl e \<Rightarrow> (Inl (os_error os e), ws\<lparr>ws_cache := Some u, ws_fs := fs1\<rparr>)
        | Inr _ \<Rightarrow> (case r2 of
            Inl e \<Rightarrow> (Inl e, ws\<lparr>ws_cache := Some u, ws_fs := fs2\<rparr>)
          | Inr _ \<Rightarrow> (Inr (), ws\<lparr>ws_fs := fs2, ws_cache := Some ?pr\<rparr>))))"
    using False by (cases r1) (simp_all add: filesystem_write_def Let_def u assms(2-4))
  consider (over) "?pr > unat (max_workspace_bytes (ws_limits ws))"
    | (mk) e where "?pr \<le> unat (max_workspace_bytes (ws_limits ws))" "r1 = Inl e"
    | (wr) e where "?pr \<le> unat (max_workspace_bytes (ws_limits ws))" "r1 = Inr ()" "r2 = Inl e"
    | (ok) "?pr \<le> unat (max_workspace_bytes (ws_limits ws))" "r1 = Inr ()" "r2 = Inr ()"
    by (cases r1; cases r2) force+
  then show thesis
  proof cases
    case over
    then have "r = Inl ''workspace exceeds max_workspace_bytes''" "ws' = ws\<lparr>ws_cache := Some u\<rparr>" using w assms(1) by auto
    then show thesis using u by (intro refused) (auto simp: is_ok_def)
  next
    case mk
    then show thesis using w u assms(1) by (intro parents [of u]) (auto simp: is_ok_def)
  next
    case wr
    then show thesis using w u assms(1) by (intro failed [of u]) (auto simp: is_ok_def)
  next
    case ok
    then show thesis using w u assms(1) by (intro written [of u]) (auto simp: is_ok_def)
  qed
qed

lemma make_parents_grown:
  assumes "plain p" "is_dir fs" "\<not> link_on fs [] p" "make_parents p fs = (r1, fs1)"
  shows "grown (butlast p) fs fs1" "is_ok r1 \<Longrightarrow> p \<noteq> [] \<Longrightarrow> has_parent fs1 p"
proof -
  have "grown (butlast p) fs fs1 \<and> (is_ok r1 \<and> p \<noteq> [] \<longrightarrow> has_parent fs1 p)"
  proof (cases "p = []")
    case True
    then show ?thesis using assms(4) by (auto simp: make_parents_def parent_def normals_def)
  next
    case False
    have "prefix (butlast p) p" by (rule prefixeq_butlast)
    then have "\<not> link_on fs [] (butlast p)" using assms(3) by (auto simp: link_on_def intro: prefix_order.trans)
    moreover have "create_dir_all (butlast p) fs = (r1, fs1)"
      using assms(4) plain_last [OF assms(1) False] by (simp add: make_parents_def)
    ultimately show ?thesis
      using create_dir_all_grown [OF plain_butlast [OF assms(1)] assms(2)] False
      by (cases r1) (auto simp: has_parent_def is_ok_def)
  qed
  then show "grown (butlast p) fs fs1" "is_ok r1 \<Longrightarrow> p \<noteq> [] \<Longrightarrow> has_parent fs1 p" by blast+
qed

lemma tmp_fresh_grown:
  assumes "tmp_fresh os fs p" "grown (butlast p) fs fs1"
  shows "tmp_fresh os fs1 p"
proof -
  let ?t = "butlast p @ [last p @ os_tmp_suffix os]"
  have "\<not> prefix ?t (butlast p)" by (auto dest: prefix_length_le)
  then show ?thesis using assms unfolding tmp_fresh_def grown_def by blast
qed

lemma write_content_root:
  assumes "is_dir fs" "write_content os request [] fs = (r, fs2)"
  shows "\<not> is_ok r" "fs2 = fs"
  using assms
  by (cases fs; auto simp: write_content_def write_file_def write_atomic_def write_atomic_run_def tmp_path_def parent_def
      normals_def os_result_def is_ok_def split: if_splits)+

lemma grown_butlast: "grown (butlast p) fs fs1 \<Longrightarrow> grown p fs fs1"
  using grown_further [of "butlast p" fs fs1 "[last p]"] by (cases "p = []") auto

text \<open>A write adds directories, and on success puts the file.\<close>

lemma write_effect:
  assumes "link_free_workspace ws" "resolve_workspace ws (fwr_path request) = Inr p" "tmp_fresh os (ws_fs ws) p"
    "filesystem_write os request ws = (r, ws')"
  shows "\<exists>fs1. grown p (ws_fs ws) fs1 \<and> ws_policy ws' = ws_policy ws \<and> ws_limits ws' = ws_limits ws \<and>
    (if is_ok r then has_parent fs1 p \<and> (\<forall>n. lookup fs1 p = Some n \<longrightarrow> \<not> is_dir n)
       \<and> ws_fs ws' = put_at p (Some (file_after os request (leaf (ws_fs ws) p))) fs1
     else ws_fs ws' = fs1)"
proof -
  note below = resolve_workspace_below [OF assms(1,2)]
  have d: "is_dir (ws_fs ws)" using assms(1) by (simp add: link_free_workspace_def)
  obtain r1 fs1 where mk: "make_parents p (ws_fs ws) = (r1, fs1)" by fastforce
  obtain r2 fs2 where wc: "write_content os request p fs1 = (r2, fs2)" by fastforce
  note g = make_parents_grown [OF below(1) d below(3) mk]
  have leaf: "leaf fs1 = leaf (ws_fs ws)" using g(1) by (simp add: grown_def)
  have d1: "is_dir fs1" using grown_dir [OF g(1), of "[]"] d by (cases "ws_fs ws") auto
  have at: "if \<exists>es. lookup fs1 p = Some (Dir es) then \<not> is_ok r2 \<and> fs2 = fs1
      else r2 = Inr () \<and> fs2 = put_at p (Some (file_after os request (leaf fs1 p))) fs1" if "is_ok r1" "p \<noteq> []"
    using write_content_at [OF below(1) g(2) _ tmp_fresh_grown [OF assms(3) g(1)] wc] that below(3)
      grown_link_on [OF g(1)] by simp
  note gp = grown_butlast [OF g(1)]
  from assms(4,2) mk wc show ?thesis
  proof (cases rule: filesystem_write_cases)
    case refused
    then show ?thesis by (intro exI [of _ "ws_fs ws"]) auto
  next
    case (parents u)
    then show ?thesis using gp by (intro exI [of _ fs1]) simp
  next
    case (failed u)
    have "fs2 = fs1" using at failed write_content_root [OF d1] wc by (cases "p = []") (auto split: if_splits simp: is_ok_def)
    then show ?thesis using failed gp by (intro exI [of _ fs1]) simp
  next
    case (written u)
    then have ne: "p \<noteq> []" using write_content_root [OF d1] wc by auto
    then show ?thesis using written at gp g(2) leaf
      by (intro exI [of _ fs1]) (auto simp: is_ok_def split: if_splits elim: is_dir.elims)
  qed
qed

section \<open>Workspaces stay workspaces\<close>

lemma link_free_workspaceI:
  assumes "link_free_workspace ws" "ws_policy ws' = ws_policy ws" "lookup (ws_fs ws') (ws_root ws) = Some (Dir es)"
    "\<And>q t. leaf (ws_fs ws') q = Some (Link t) \<Longrightarrow> leaf (ws_fs ws) q = Some (Link t)"
  shows "link_free_workspace ws'"
proof -
  have "plain (ws_root ws)"
    using assms(1) canonicalize_sound [of "ws_fs ws" "ws_root ws" "ws_root ws"] by (auto simp: link_free_workspace_def)
  then have "canonicalize (ws_fs ws') (ws_root ws) = Inr (ws_root ws)" using canonicalize_physical [OF assms(3)] by simp
  moreover have "is_dir (ws_fs ws')" using dir_root [OF assms(3)] by auto
  moreover have "link_free_below (ws_fs ws') (ws_root ws)"
    using assms(1,4) by (auto simp: link_free_workspace_def link_free_below_def)
  ultimately show ?thesis using assms(2,3) by (simp add: link_free_workspace_def)
qed

lemma write_below_root:
  assumes "link_free_workspace ws" "resolve_workspace ws rel = Inr p" "grown p (ws_fs ws) fs1"
    "\<forall>n. lookup fs1 p = Some n \<longrightarrow> \<not> is_dir n"
  obtains r es where "p = ws_root ws @ r" "r \<noteq> []" "lookup fs1 (ws_root ws) = Some (Dir es)"
proof -
  obtain es where "lookup (ws_fs ws) (ws_root ws) = Some (Dir es)" using assms(1) by (auto simp: link_free_workspace_def)
  then obtain es' where root: "lookup fs1 (ws_root ws) = Some (Dir es')" using grown_dir [OF assms(3)] by blast
  moreover obtain r where "p = ws_root ws @ r" using resolve_workspace_below(2) [OF assms(1,2)] by (auto elim: prefixE)
  ultimately show thesis using assms(4) that by (cases "r = []") auto
qed

lemma write_keeps_workspace:
  assumes "link_free_workspace ws" "resolve_workspace ws (fwr_path request) = Inr p" "tmp_fresh os (ws_fs ws) p"
    "filesystem_write os request ws = (r, ws')"
  shows "leaf (ws_fs ws') = (if is_ok r then (leaf (ws_fs ws))(p \<mapsto> file_after os request (leaf (ws_fs ws) p))
      else leaf (ws_fs ws))"
    "link_free_workspace ws'"
proof -
  let ?f = "file_after os request (leaf (ws_fs ws) p)"
  obtain fs1 where e: "grown p (ws_fs ws) fs1" "ws_policy ws' = ws_policy ws"
    "if is_ok r then has_parent fs1 p \<and> (\<forall>n. lookup fs1 p = Some n \<longrightarrow> \<not> is_dir n) \<and> ws_fs ws' = put_at p (Some ?f) fs1
     else ws_fs ws' = fs1"
    using write_effect [OF assms] by blast
  have f: "\<not> is_dir ?f" "\<And>t. ?f \<noteq> Link t" by (simp_all add: file_after_def split: option.splits node.splits)
  have l1: "leaf fs1 = leaf (ws_fs ws)" using e(1) by (simp add: grown_def)
  show leaf: "leaf (ws_fs ws') = (if is_ok r then (leaf (ws_fs ws))(p \<mapsto> ?f) else leaf (ws_fs ws))"
    using e(3) f(1) l1 leaf_put [of fs1 p "Some ?f"] by (cases "is_ok r") simp_all
  have "\<exists>es. lookup (ws_fs ws') (ws_root ws) = Some (Dir es)"
  proof (cases "is_ok r")
    case True
    then obtain q es where q: "p = ws_root ws @ q" "q \<noteq> []" "lookup fs1 (ws_root ws) = Some (Dir es)"
      using write_below_root [OF assms(1,2) e(1)] e(3) by auto
    then have "\<not> prefix p (ws_root ws)" by (auto dest: prefix_length_le)
    then show ?thesis using dir_put [OF q(3), of p] e(3) True by simp
  next
    case False
    then show ?thesis using e(1,3) assms(1) grown_dir [OF e(1)] by (auto simp: link_free_workspace_def)
  qed
  then obtain es where root: "lookup (ws_fs ws') (ws_root ws) = Some (Dir es)" by blast
  show "link_free_workspace ws'"
  proof (rule link_free_workspaceI [OF assms(1) e(2) root])
    fix q t assume "leaf (ws_fs ws') q = Some (Link t)"
    then show "leaf (ws_fs ws) q = Some (Link t)"
      unfolding leaf using f(2) by (simp only: fun_upd_apply split: if_splits) auto
  qed
qed

section \<open>The size cache\<close>

definition size_of :: "workspace \<Rightarrow> nat" where
  "size_of ws = opt_size (lookup (ws_fs ws) (ws_root ws))"

definition cache_exact :: "workspace \<Rightarrow> bool" where
  "cache_exact ws \<longleftrightarrow> (case ws_cache ws of None \<Rightarrow> True | Some u \<Rightarrow> u = size_of ws)"

lemma size_loop_sum: "acc \<le> 2 ^ 64 - 1 \<Longrightarrow> size_loop acc es = min (acc + entries_size es) (2 ^ 64 - 1)"
proof (induction acc es rule: size_loop.induct)
  case (2 acc name n es)
  then show ?case by (cases n) (auto simp: sat_add_def min_def)
qed simp

lemma used_bytes_exact:
  assumes "link_free_workspace ws" "cache_exact ws" "size_of ws < 2 ^ 64"
  shows "used_bytes os ws = Inr (size_of ws)"
proof (cases "ws_cache ws")
  case None
  obtain es where es: "lookup (ws_fs ws) (ws_root ws) = Some (Dir es)" "canonicalize (ws_fs ws) (ws_root ws) = Inr (ws_root ws)"
    using assms(1) by (auto simp: link_free_workspace_def)
  then show ?thesis using None assms(3)
    by (simp add: used_bytes_def workspace_size_def read_dir_def open_at_def size_of_def size_loop_sum)
qed (use assms(2) in \<open>simp add: used_bytes_def cache_exact_def\<close>)

lemma size_after_write:
  assumes "link_free_workspace ws" "resolve_workspace ws rel = Inr p" "grown p (ws_fs ws) fs1" "has_parent fs1 p"
    "\<forall>n. lookup fs1 p = Some n \<longrightarrow> \<not> is_dir n"
  shows "opt_size (lookup (put_at p (Some f) fs1) (ws_root ws)) + opt_size (leaf (ws_fs ws) p) = size_of ws + node_size f"
proof -
  obtain r es where r: "p = ws_root ws @ r" "r \<noteq> []" "lookup fs1 (ws_root ws) = Some (Dir es)"
    using write_below_root [OF assms(1-3,5)] .
  obtain n where n: "lookup (ws_fs ws) (ws_root ws) = Some n" using assms(1) by (auto simp: link_free_workspace_def)
  then have s: "entries_size es = size_of ws" using assms(3) r(3) by (fastforce simp: grown_def size_of_def)
  have "has_parent (Dir es) r" using assms(4) r by (auto simp: has_parent_def butlast_append lookup_append)
  moreover have "lookup (Dir es) r = leaf (ws_fs ws) p"
  proof -
    have "lookup fs1 p = lookup (Dir es) r" using r by (simp add: lookup_append)
    moreover have "leaf fs1 p = lookup fs1 p" using assms(5) by (cases "lookup fs1 p") (auto simp: leaf_def)
    ultimately show ?thesis using assms(3) by (simp add: grown_def)
  qed
  ultimately show ?thesis
    using node_size_put [of "Dir es" r f] lookup_put_above [OF r(2), of "ws_root ws" "Some f" fs1] r s by simp
qed

lemma write_cache:
  assumes "filesystem_write os request ws = (r, ws')" "resolve_workspace ws (fwr_path request) = Inr p"
    "used_bytes os ws = Inr u"
  shows "if is_ok r then ws_cache ws' = Some (projected_bytes os request (ws_fs ws) p u)
      \<and> projected_bytes os request (ws_fs ws) p u \<le> unat (max_workspace_bytes (ws_limits ws))
    else ws_cache ws' = ws_cache ws \<or> ws_cache ws' = Some u"
proof -
  obtain r1 fs1 where mk: "make_parents p (ws_fs ws) = (r1, fs1)" by fastforce
  obtain r2 fs2 where wc: "write_content os request p fs1 = (r2, fs2)" by fastforce
  from assms(1,2) mk wc show ?thesis
    by (cases rule: filesystem_write_cases) (use assms(3) in \<open>auto simp: is_ok_def\<close>)
qed

lemma projected_exact:
  assumes "link_free_workspace ws" "resolve_workspace ws (fwr_path request) = Inr p"
    "\<forall>n. lookup (ws_fs ws) p = Some n \<longrightarrow> \<not> is_dir n"
    "projected_bytes os request (ws_fs ws) p u < 2 ^ 64 - 1"
  shows "projected_bytes os request (ws_fs ws) p u = u - (if fwr_append request then 0 else opt_size (leaf (ws_fs ws) p))
    + length (fwr_content request)"
proof -
  note o = open_at_plain [OF resolve_workspace_below(1,3) [OF assms(1,2)]]
  have "(case open_at (ws_fs ws) p of Inr n \<Rightarrow> node_len (os_dir_len os) n | Inl _ \<Rightarrow> 0) = opt_size (leaf (ws_fs ws) p)"
  proof (cases "lookup (ws_fs ws) p")
    case None
    then show ?thesis using o by (auto simp: leaf_def split: sum.splits)
  next
    case (Some n)
    then have "open_at (ws_fs ws) p = Inr n" using o by blast
    then show ?thesis using Some assms(3) by (cases n) (auto simp: leaf_def)
  qed
  then show ?thesis using assms(4) by (auto simp: projected_bytes_def sat_add_def Let_def min_def split: if_splits)
qed

lemma file_after_size:
  assumes "\<And>n. old = Some n \<Longrightarrow> \<not> is_dir n \<and> \<not> is_link n"
  shows "node_size (file_after os request old) = (if fwr_append request then opt_size old else 0) + length (fwr_content request)"
proof (cases old)
  case (Some n)
  then show ?thesis using assms [OF Some] by (cases n) (simp_all add: file_after_def)
qed (simp add: file_after_def)

lemma size_of_grown: "link_free_workspace ws \<Longrightarrow> grown p (ws_fs ws) (ws_fs ws') \<Longrightarrow> ws_policy ws' = ws_policy ws \<Longrightarrow>
  size_of ws' = size_of ws"
  by (fastforce simp: link_free_workspace_def grown_def size_of_def)

section \<open>Properties\<close>

text \<open>
  C23. A write is an update of one file. In a workspace without symbolic links, and with a temporary name that is
  not in use, a successful write changes exactly the file the request names: its new content is the
  content written, behind the old one for an append, with the permissions the file had. A failing write
  changes no file. The workspace keeps its shape, and reading the path back within the limits gives what
  was written.
\<close>

theorem write_updates_one_file:
  assumes "link_free_workspace ws" "resolve_workspace ws (fwr_path request) = Inr p" "tmp_fresh os (ws_fs ws) p"
    "filesystem_write os request ws = (r, ws')"
  shows "leaf (ws_fs ws') = (if is_ok r then (leaf (ws_fs ws))(p \<mapsto> file_after os request (leaf (ws_fs ws) p))
      else leaf (ws_fs ws))
    \<and> link_free_workspace ws'
    \<and> (\<forall>b m k i. is_ok r \<and> file_after os request (leaf (ws_fs ws) p) = File b m \<and> length b \<le> k \<and> 0 < k
         \<and> k \<le> FILE_RPC_MAX_BYTES \<longrightarrow>
         filesystem_read os ws' \<lparr>frr_request_id = i, frr_path = fwr_path request, frr_max_bytes = k\<rparr> = Inr b)"
proof (intro conjI allI impI)
  note keep = write_keeps_workspace [OF assms]
  show "leaf (ws_fs ws') = (if is_ok r then (leaf (ws_fs ws))(p \<mapsto> file_after os request (leaf (ws_fs ws) p))
      else leaf (ws_fs ws))" "link_free_workspace ws'" by (rule keep)+
  fix b m k i assume f: "is_ok r \<and> file_after os request (leaf (ws_fs ws) p) = File b m \<and> length b \<le> k \<and> 0 < k
    \<and> k \<le> FILE_RPC_MAX_BYTES"
  have "leaf (ws_fs ws') p = Some (File b m)" unfolding keep(1) using f by simp
  then have l: "lookup (ws_fs ws') p = Some (File b m)" by simp
  have "ws_policy ws' = ws_policy ws" using write_effect [OF assms] by blast
  then have rp: "resolve_workspace ws' (fwr_path request) = Inr p"
    using assms(1,2) keep(2) safe_join_link_free
    by (simp add: resolve_workspace_def workspace_path_def link_free_workspace_def)
  then have "plain p" using resolve_workspace_below(1) [OF keep(2)] by blast
  then have "read_file (ws_fs ws') p = Inr b" using canonicalize_physical [OF l] l by (simp add: read_file_def open_at_def)
  then show "filesystem_read os ws' \<lparr>frr_request_id = i, frr_path = fwr_path request, frr_max_bytes = k\<rparr> = Inr b"
    using f rp by (simp add: filesystem_read_def Let_def os_result_def)
qed

text \<open>
  The size cache is exact and the limit holds: if the cached size, when there is one, is the size of the
  workspace, then it still is after any write, successful or not, and a successful write leaves the
  workspace within \<^verbatim>\<open>max_workspace_bytes\<close>.
\<close>

theorem size_cache_exact:
  assumes "link_free_workspace ws" "resolve_workspace ws (fwr_path request) = Inr p" "tmp_fresh os (ws_fs ws) p"
    "filesystem_write os request ws = (r, ws')" "cache_exact ws" "size_of ws < 2 ^ 64"
    "unat (max_workspace_bytes (ws_limits ws)) < 2 ^ 64 - 1"
  shows "cache_exact ws' \<and> (is_ok r \<longrightarrow> size_of ws' \<le> unat (max_workspace_bytes (ws_limits ws)))"
proof -
  let ?f = "file_after os request (leaf (ws_fs ws) p)" and ?u = "size_of ws"
  let ?pr = "projected_bytes os request (ws_fs ws) p ?u"
  note cache = write_cache [OF assms(4,2) used_bytes_exact [OF assms(1,5,6)]]
  obtain fs1 where e: "grown p (ws_fs ws) fs1" "ws_policy ws' = ws_policy ws"
    "if is_ok r then has_parent fs1 p \<and> (\<forall>n. lookup fs1 p = Some n \<longrightarrow> \<not> is_dir n) \<and> ws_fs ws' = put_at p (Some ?f) fs1
     else ws_fs ws' = fs1"
    using write_effect [OF assms(1-4)] by blast
  show ?thesis
  proof (cases "is_ok r")
    case True
    have "\<forall>n. lookup (ws_fs ws) p = Some n \<longrightarrow> \<not> is_dir n" using e(1,3) True by (fastforce simp: grown_def)
    moreover have "?pr < 2 ^ 64 - 1" using cache True assms(7) by simp
    ultimately have pr: "?pr = ?u - (if fwr_append request then 0 else opt_size (leaf (ws_fs ws) p))
        + length (fwr_content request)" using projected_exact [OF assms(1,2)] by blast
    have "size_of ws' + opt_size (leaf (ws_fs ws) p) = ?u + node_size ?f"
      using size_after_write [OF assms(1,2) e(1)] e(2,3) True by (simp add: size_of_def)
    moreover have "\<not> is_dir n \<and> \<not> is_link n" if "leaf (ws_fs ws) p = Some n" for n
      using resolve_workspace_below(3) [OF assms(1,2)] that by (cases n) (auto simp: link_on_def)
    then have "node_size ?f = (if fwr_append request then opt_size (leaf (ws_fs ws) p) else 0)
        + length (fwr_content request)" by (rule file_after_size)
    moreover have "opt_size (leaf (ws_fs ws) p) \<le> ?u"
      using size_after_write [OF assms(1,2) e(1), of "File [] 0"] e(3) True le_add2 by (metis add_0_right list.size(3) node_size_simps(1))
    ultimately have "size_of ws' = ?pr" using pr by (cases "fwr_append request") auto
    then show ?thesis using cache True by (simp add: cache_exact_def)
  next
    case False
    then have "size_of ws' = ?u" using e size_of_grown [OF assms(1), of p ws'] by simp
    then show ?thesis using cache False assms(5) by (auto simp: cache_exact_def split: option.splits)
  qed
qed

section \<open>Crashes\<close>

text \<open>
  C26. An overwrite is atomic: in every state the file system passes through during the write, the file has either
  its old content and permissions or the complete new content with the same permissions, and every other
  file except the temporary one is as it was. So whenever the process dies, this is what it leaves. The path
  is below real directories, not a directory itself, and the temporary name is unused.
\<close>

theorem write_atomic_crash_safe:
  assumes "plain p" "has_parent fs p" "tmp_fresh os fs p" "\<forall>n. lookup fs p = Some n \<longrightarrow> \<not> is_dir n"
    "s \<in> set (snd (write_atomic_run os p content fs))"
  shows "(leaf s p = leaf fs p \<or> leaf s p = Some (File content (kept_mode os fs p)))
    \<and> (\<forall>q. q \<noteq> p \<and> q \<noteq> butlast p @ [last p @ os_tmp_suffix os] \<longrightarrow> leaf s q = leaf fs q)"
proof -
  let ?t = "butlast p @ [last p @ os_tmp_suffix os]"
  note tmp = tmp_facts [OF assms(1-3)]
  have nodir: "lookup fs p \<noteq> Some (Dir es)" for es using assms(4) by auto
  have leaf: "leaf (put_at ?t (Some (File d m)) fs) = (leaf fs)(?t \<mapsto> File d m)" for d m
    using leaf_put [OF tmp(3), of "Some (File d m)"] tmp(4) by simp
  have final: "leaf (put_at p (Some (File content (kept_mode os fs p))) fs) = (leaf fs)(p \<mapsto> File content (kept_mode os fs p))"
    using leaf_put [OF assms(2), of "Some (File content (kept_mode os fs p))"] assms(4) by simp
  obtain states where run: "run_calls os (overwrite_calls os ?t p content fs) fs = (Inr (), states)"
    "\<forall>s \<in> set states. s = fs \<or> (\<exists>d m. s = put_at ?t (Some (File d m)) fs)
         \<or> s = put_at p (Some (File content (kept_mode os fs p))) fs"
    using overwrite_run [OF assms(1-3), of content] nodir by (auto split: option.splits node.splits)
  have "s \<in> set states" using assms(5) by (simp add: write_atomic_run_def tmp(1) run(1))
  with run(2) consider "s = fs" | d m where "s = put_at ?t (Some (File d m)) fs"
    | "s = put_at p (Some (File content (kept_mode os fs p))) fs" by blast
  then show ?thesis
    by cases (use leaf final tmp(5) in \<open>auto simp del: leaf_Some\<close>)
qed

section \<open>Witnesses\<close>

definition demo_os :: os_env where
  "demo_os = \<lparr>os_dir_len = 40, os_dir_mode = 493, os_new_mode = 420, os_error = (\<lambda>_. ''error''), os_tmp_suffix = ''.7.1.tmp''\<rparr>"

definition demo_ws :: workspace where
  "demo_ws = \<lparr>ws_policy = \<lparr>pp_read_only_host_roots = [], pp_workspace_root = [''ws'']\<rparr>,
     ws_limits = \<lparr>max_frame_bytes = 1, max_event_bytes = 1, channel_capacity = 1, max_workspace_bytes = 100,
        max_runtime_seconds = 1\<rparr>,
     ws_active = None, ws_cancel = 0, ws_cache = None, ws_fs = plain_tree\<rparr>"

definition demo_append :: file_write_request where
  "demo_append = \<lparr>fwr_request_id = ''r'', fwr_path = ''f'', fwr_content = [5, 6], fwr_append = True\<rparr>"

lemma demo_ws_ok: "link_free_workspace demo_ws" "resolve_workspace demo_ws ''f'' = Inr [''ws'', ''f'']"
  "tmp_fresh demo_os plain_tree [''ws'', ''f'']"
proof -
  show "link_free_workspace demo_ws"
    using plain_tree_facts by (simp add: link_free_workspace_def demo_ws_def) (simp add: plain_tree_def)
  show "resolve_workspace demo_ws ''f'' = Inr [''ws'', ''f'']"
    using safe_join_link_free [OF plain_tree_facts, of "''f''"]
    by (simp add: resolve_workspace_def workspace_path_def demo_ws_def os_components_def normals_def is_absolute_def starts_with_def)
  show "tmp_fresh demo_os plain_tree [''ws'', ''f'']" by (simp add: tmp_fresh_def demo_os_def plain_tree_def)
qed

lemma demo_write_ok: "\<exists>ws'. filesystem_write demo_os demo_append demo_ws = (Inr (), ws')"
proof -
  have u: "used_bytes demo_os demo_ws = Inr 1"
    by (simp add: used_bytes_def workspace_size_def read_dir_def open_at_def canonicalize_def demo_ws_def plain_tree_def sat_add_def)
  have m: "make_parents [''ws'', ''f''] plain_tree = (Inr (), plain_tree)"
    by (simp add: make_parents_def parent_def normals_def trim_dots_def create_dir_all.simps mkdir_def resolve_parent_def
        file_name_def path_is_dir_def open_at_def canonicalize_def plain_tree_def)
  have c: "\<exists>fs2. write_content demo_os demo_append [''ws'', ''f''] plain_tree = (Inr (), fs2)"
    by (simp add: write_content_def demo_append_def write_file_def plain_tree_def os_result_def)
  have p: "projected_bytes demo_os demo_append plain_tree [''ws'', ''f''] 1 = 3"
    by (simp add: projected_bytes_def demo_append_def sat_add_def)
  have d: "ws_fs demo_ws = plain_tree" "max_workspace_bytes (ws_limits demo_ws) = 100" "fwr_path demo_append = ''f''"
    "length (fwr_content demo_append) = 2" by (simp_all add: demo_ws_def demo_append_def)
  show ?thesis using c by (auto simp: filesystem_write_def Let_def u m p [simplified] d demo_ws_ok FILE_RPC_MAX_BYTES_def)
qed

theorem write_updates_one_file_witness:
  "\<exists>ws'. filesystem_write demo_os demo_append demo_ws = (Inr (), ws')
     \<and> filesystem_read demo_os ws' \<lparr>frr_request_id = ''q'', frr_path = ''f'', frr_max_bytes = 9\<rparr> = Inr [1, 5, 6]"
proof -
  obtain ws' where w: "filesystem_write demo_os demo_append demo_ws = (Inr (), ws')" using demo_write_ok by blast
  have f: "file_after demo_os demo_append (leaf (ws_fs demo_ws) [''ws'', ''f'']) = File [1, 5, 6] 420"
    by (simp add: file_after_def demo_append_def demo_ws_def plain_tree_def leaf_def)
  have "resolve_workspace demo_ws (fwr_path demo_append) = Inr [''ws'', ''f'']" "tmp_fresh demo_os (ws_fs demo_ws) [''ws'', ''f'']"
    using demo_ws_ok by (simp_all add: demo_append_def demo_ws_def)
  from write_updates_one_file [OF demo_ws_ok(1) this w] f w show ?thesis
    by (auto simp: is_ok_def demo_append_def FILE_RPC_MAX_BYTES_def)
qed

theorem size_cache_exact_witness:
  "\<exists>ws'. filesystem_write demo_os demo_append demo_ws = (Inr (), ws') \<and> cache_exact ws' \<and> size_of ws' \<le> 100"
proof -
  obtain ws' where w: "filesystem_write demo_os demo_append demo_ws = (Inr (), ws')" using demo_write_ok by blast
  have "resolve_workspace demo_ws (fwr_path demo_append) = Inr [''ws'', ''f'']" "tmp_fresh demo_os (ws_fs demo_ws) [''ws'', ''f'']"
    using demo_ws_ok by (simp_all add: demo_append_def demo_ws_def)
  moreover have "cache_exact demo_ws" "size_of demo_ws < 2 ^ 64" "unat (max_workspace_bytes (ws_limits demo_ws)) < 2 ^ 64 - 1"
    by (simp_all add: cache_exact_def demo_ws_def size_of_def plain_tree_def)
  ultimately have "cache_exact ws' \<and> size_of ws' \<le> unat (max_workspace_bytes (ws_limits demo_ws))"
    using size_cache_exact [OF demo_ws_ok(1) _ _ w] by (simp add: is_ok_def)
  then show ?thesis using w by (simp add: demo_ws_def)
qed

theorem write_atomic_crash_safe_witness:
  "list_all (\<lambda>s. leaf s [''ws'', ''f''] = Some (File [1] 420) \<or> leaf s [''ws'', ''f''] = Some (File [5, 6] 420))
     (snd (write_atomic_run demo_os [''ws'', ''f''] [5, 6] plain_tree))"
  unfolding list_all_iff
proof
  fix s assume s: "s \<in> set (snd (write_atomic_run demo_os [''ws'', ''f''] [5, 6] plain_tree))"
  have "plain [''ws'', ''f'']" "has_parent plain_tree [''ws'', ''f'']" by (simp_all add: has_parent_def plain_tree_def)
  moreover have "lookup plain_tree [''ws'', ''f''] = Some (File [1] 420)" by (simp add: plain_tree_def)
  moreover from this have "kept_mode demo_os plain_tree [''ws'', ''f''] = 420"
    using canonicalize_physical [of plain_tree "[''ws'', ''f'']"] by (simp add: open_at_def)
  ultimately show "leaf s [''ws'', ''f''] = Some (File [1] 420) \<or> leaf s [''ws'', ''f''] = Some (File [5, 6] 420)"
    using write_atomic_crash_safe [OF _ _ demo_ws_ok(3) _ s] by (simp add: leaf_def)
qed

end
