(* ===== verification/Glob.thy ===== *)
theory Glob
  imports Guest_Fs Rfb_Utf8 Rfb_Builtin
begin

text \<open>
  Name search, \<^verbatim>\<open>rfb-runtime/src/glob.rs\<close>: the iterative matcher of one backtracking point, against the usual
  recursive meaning of a pattern, and the bounded walk that both \<^verbatim>\<open>find\<close> implementations share. The
  cancellation flag of the walk is a function of the number of directory entries visited so far.
\<close>

section \<open>Matching\<close>

abbreviation star :: byte where "star \<equiv> 0x2A"

text \<open>The main loop: \<open>None\<close> is \<^verbatim>\<open>return false\<close>, \<open>Some pi\<close> the position in the pattern when the text is used up.\<close>

function glob_loop :: "bytes \<Rightarrow> bytes \<Rightarrow> nat \<Rightarrow> nat \<Rightarrow> nat option \<Rightarrow> nat \<Rightarrow> nat option" where
  "glob_loop p t pi ti st mark =
     (if ti < length t then
        (if pi < length p \<and> p ! pi = star then glob_loop p t (pi + 1) ti (Some pi) ti
         else if pi < length p \<and> p ! pi = t ! ti then glob_loop p t (pi + 1) (ti + 1) st mark
         else (case st of
             Some s \<Rightarrow> glob_loop p t (s + 1) (mark + 1) st (mark + 1)
           | None \<Rightarrow> None))
      else Some pi)"
  by pat_completeness auto
termination
  by (relation "measures [\<lambda>(p, t, pi, ti, st, mark). if mark \<le> ti then length t - mark else length t + 1,
      \<lambda>(p, t, pi, ti, st, mark). length t - ti, \<lambda>(p, t, pi, ti, st, mark). length p - pi]") auto

declare glob_loop.simps [simp del]

function skip_stars :: "bytes \<Rightarrow> nat \<Rightarrow> nat" where
  "skip_stars p pi = (if pi < length p \<and> p ! pi = star then skip_stars p (pi + 1) else pi)"
  by pat_completeness auto
termination
  by (relation "measure (\<lambda>(p, pi). length p - pi)") auto

declare skip_stars.simps [simp del]

definition glob_matches :: "string \<Rightarrow> string \<Rightarrow> bool" where
  "glob_matches pattern text =
     (let p = as_bytes pattern; t = as_bytes text in
      case glob_loop p t 0 0 None 0 of
        None \<Rightarrow> False
      | Some pi \<Rightarrow> skip_stars p pi = length p)"

section \<open>The meaning of a pattern\<close>

fun glob :: "bytes \<Rightarrow> bytes \<Rightarrow> bool" where
  "glob [] t \<longleftrightarrow> t = []"
| "glob (c # p) [] \<longleftrightarrow> c = star \<and> glob p []"
| "glob (c # p) (d # t) \<longleftrightarrow> (if c = star then glob p (d # t) \<or> glob (c # p) t else c = d \<and> glob p t)"

lemma glob_star: "glob (star # p) t \<longleftrightarrow> (\<exists>x y. t = x @ y \<and> glob p y)"
proof (induction t)
  case (Cons d t)
  have "(\<exists>x y. d # t = x @ y \<and> glob p y) \<longleftrightarrow> glob p (d # t) \<or> (\<exists>x y. t = x @ y \<and> glob p y)"
    by (auto simp: Cons_eq_append_conv)
  then show ?case using Cons by simp
qed auto

lemma glob_star_grow: "glob (star # p) y \<Longrightarrow> glob (star # p) (x @ y)"
  by (auto simp: glob_star) (metis append_assoc)

lemma glob_literal: "star \<notin> set w \<Longrightarrow> glob (w @ p) t \<longleftrightarrow> (\<exists>y. t = w @ y \<and> glob p y)"
proof (induction w arbitrary: t)
  case (Cons c w)
  then show ?case by (cases t) auto
qed simp

lemma glob_stars: "glob p [] \<longleftrightarrow> set p \<subseteq> {star}"
  by (induction p) auto

text \<open>A later star makes the earlier one superfluous once the word between them has been found.\<close>

lemma glob_forget:
  assumes "star \<notin> set w"
  shows "glob (star # w @ star # p) (w @ u) \<longleftrightarrow> glob (star # p) u"
proof
  assume "glob (star # w @ star # p) (w @ u)"
  then obtain x v where "w @ u = x @ w @ v" "glob (star # p) v"
    using assms by (auto simp: glob_star [of "w @ star # p"] glob_literal)
  then have "length v \<le> length u" "drop (length (w @ u) - length v) (w @ u) = v" by (auto simp: append_eq_conv_conj)
  then have "drop (length u - length v) u = v" by (metis add_diff_assoc append_take_drop_id drop_append drop_all diff_add_inverse length_append le_add1 append_Nil add_diff_cancel_left')
  then show "glob (star # p) u" using \<open>glob (star # p) v\<close> glob_star_grow by (metis append_take_drop_id)
next
  assume "glob (star # p) u"
  then have "glob (w @ star # p) (w @ u)" using assms by (auto simp: glob_literal)
  then show "glob (star # w @ star # p) (w @ u)" by (metis append_Nil glob_star)
qed

section \<open>The loop computes the meaning\<close>

lemma skip_stars_end: "pi \<le> length p \<Longrightarrow> skip_stars p pi = length p \<longleftrightarrow> glob (drop pi p) []"
proof (induction p pi rule: skip_stars.induct)
  case (1 p pi)
  show ?case
  proof (cases "pi < length p")
    case True
    then have "drop pi p = p ! pi # drop (pi + 1) p" by (simp add: Cons_nth_drop_Suc)
    then show ?thesis using 1 True by (subst skip_stars.simps) (auto simp: glob_stars)
  qed (use 1(2) in \<open>auto simp: skip_stars.simps [of p "length p"]\<close>)
qed

text \<open>The word between the last star and the position in the pattern is the text read since the mark.\<close>

fun since_star :: "bytes \<Rightarrow> bytes \<Rightarrow> nat \<Rightarrow> nat \<Rightarrow> nat option \<Rightarrow> nat \<Rightarrow> bool" where
  "since_star p t pi ti None mark = True"
| "since_star p t pi ti (Some s) mark \<longleftrightarrow> s < length p \<and> p ! s = star \<and> mark \<le> ti
     \<and> (\<exists>w. star \<notin> set w \<and> drop (s + 1) p = w @ drop pi p \<and> drop mark t = w @ drop ti t)"

fun outstanding :: "bytes \<Rightarrow> bytes \<Rightarrow> nat \<Rightarrow> nat \<Rightarrow> nat option \<Rightarrow> nat \<Rightarrow> bool" where
  "outstanding p t pi ti None mark = glob (drop pi p) (drop ti t)"
| "outstanding p t pi ti (Some s) mark = glob (drop s p) (drop mark t)"

lemma drop_star: "s < length p \<Longrightarrow> p ! s = star \<Longrightarrow> drop s p = star # drop (s + 1) p"
  by (metis Cons_nth_drop_Suc Suc_eq_plus1)

lemma outstanding_star:
  assumes "since_star p t pi ti st mark" "pi < length p" "p ! pi = star"
  shows "outstanding p t pi ti st mark \<longleftrightarrow> outstanding p t (pi + 1) ti (Some pi) ti"
proof (cases st)
  case (Some s)
  then obtain w where w: "star \<notin> set w" "drop (s + 1) p = w @ drop pi p" "drop mark t = w @ drop ti t"
    "drop s p = star # drop (s + 1) p" using assms(1) drop_star by auto
  then show ?thesis using Some glob_forget [OF w(1)] drop_star [OF assms(2,3)] by simp
qed simp

lemma outstanding_mismatch:
  assumes "since_star p t pi ti (Some s) mark" "ti < length t" "\<not> (pi < length p \<and> p ! pi = star)"
    "\<not> (pi < length p \<and> p ! pi = t ! ti)"
  shows "outstanding p t pi ti (Some s) mark \<longleftrightarrow> outstanding p t (s + 1) (mark + 1) (Some s) (mark + 1)"
proof -
  obtain w where w: "star \<notin> set w" "drop (s + 1) p = w @ drop pi p" "drop mark t = w @ drop ti t"
    "drop s p = star # drop (s + 1) p" "mark < length t" using assms(1,2) drop_star by auto
  have ti: "drop ti t = t ! ti # drop (ti + 1) t" using assms(2) by (simp add: Cons_nth_drop_Suc)
  have "\<not> glob (drop pi p) (drop ti t)"
    using assms(3,4) ti by (cases "pi < length p") (auto simp: Cons_nth_drop_Suc [symmetric])
  then have "\<not> glob (drop (s + 1) p) (drop mark t)" using w by (simp add: glob_literal)
  moreover have "drop mark t = t ! mark # drop (mark + 1) t" using w(5) by (simp add: Cons_nth_drop_Suc)
  ultimately show ?thesis using w(4) by simp
qed

lemma mismatch_fails:
  assumes "ti < length t" "\<not> (pi < length p \<and> p ! pi = star)" "\<not> (pi < length p \<and> p ! pi = t ! ti)"
  shows "\<not> glob (drop pi p) (drop ti t)"
proof -
  have "drop ti t = t ! ti # drop (ti + 1) t" using assms(1) by (simp add: Cons_nth_drop_Suc)
  then show ?thesis using assms(2,3) by (cases "pi < length p") (auto simp: Cons_nth_drop_Suc [symmetric])
qed

lemma outstanding_match:
  assumes "since_star p t pi ti st mark" "ti < length t" "pi < length p" "p ! pi \<noteq> star" "p ! pi = t ! ti"
  shows "since_star p t (pi + 1) (ti + 1) st mark
    \<and> (outstanding p t pi ti st mark \<longleftrightarrow> outstanding p t (pi + 1) (ti + 1) st mark)"
proof -
  have d: "drop pi p = p ! pi # drop (pi + 1) p" "drop ti t = t ! ti # drop (ti + 1) t"
    using assms(2,3) by (simp_all add: Cons_nth_drop_Suc)
  show ?thesis
  proof (cases st)
    case (Some s)
    then obtain w where w: "star \<notin> set w" "drop (s + 1) p = w @ drop pi p" "drop mark t = w @ drop ti t"
      using assms(1) by auto
    then have "star \<notin> set (w @ [p ! pi])" "drop (s + 1) p = (w @ [p ! pi]) @ drop (pi + 1) p"
      "drop mark t = (w @ [p ! pi]) @ drop (ti + 1) t" using d assms(4,5) by simp_all
    then show ?thesis using Some assms(1) by (auto simp del: append_assoc)
  qed (use d assms(4,5) in simp)
qed

lemma glob_word_end:
  assumes "star \<notin> set w"
  shows "glob (star # w @ p) w \<longleftrightarrow> glob p []"
proof
  assume "glob (star # w @ p) w"
  then obtain x z where x: "w = x @ w @ z" "glob p z" using assms by (auto simp: glob_star glob_literal)
  then have "length w = length x + (length w + length z)" by (metis length_append)
  then show "glob p []" using x(2) by simp
next
  assume "glob p []"
  then have "glob (w @ p) w" using assms by (simp add: glob_literal)
  then show "glob (star # w @ p) w" unfolding glob_star by (intro exI [of _ "[]"] exI [of _ w]) simp
qed

lemma outstanding_end:
  assumes "since_star p t pi (length t) st mark" "pi \<le> length p"
  shows "outstanding p t pi (length t) st mark \<longleftrightarrow> skip_stars p pi = length p"
proof (cases st)
  case (Some s)
  then obtain w where w: "star \<notin> set w" "drop (s + 1) p = w @ drop pi p" "drop mark t = w"
    "drop s p = star # drop (s + 1) p" using assms(1) drop_star by auto
  then show ?thesis using Some skip_stars_end [OF assms(2)] glob_word_end [OF w(1)] by simp
qed (use skip_stars_end [OF assms(2)] in simp)

lemma glob_loop_outstanding:
  assumes "since_star p t pi ti st mark" "pi \<le> length p" "ti \<le> length t"
  shows "(case glob_loop p t pi ti st mark of None \<Rightarrow> False | Some pi' \<Rightarrow> skip_stars p pi' = length p)
    \<longleftrightarrow> outstanding p t pi ti st mark"
  using assms
proof (induction p t pi ti st mark rule: glob_loop.induct)
  case (1 p t pi ti st mark)
  consider (stop) "ti = length t" | (st) "ti < length t" "pi < length p" "p ! pi = star"
    | (eq) "ti < length t" "pi < length p" "p ! pi \<noteq> star" "p ! pi = t ! ti"
    | (ne) "ti < length t" "\<not> (pi < length p \<and> p ! pi = star)" "\<not> (pi < length p \<and> p ! pi = t ! ti)"
    using 1(6) by fastforce
  then show ?case
  proof cases
    case stop
    then show ?thesis using outstanding_end [of p t pi st mark] 1(4,5) by (simp add: glob_loop.simps [of p t pi])
  next
    case st
    then have "glob_loop p t pi ti st mark = glob_loop p t (pi + 1) ti (Some pi) ti"
      by (subst glob_loop.simps) simp
    moreover have "since_star p t (pi + 1) ti (Some pi) ti" using st by (auto intro: exI [of _ "[]"])
    ultimately show ?thesis using 1(1) st 1(6) outstanding_star [OF 1(4) st(2,3)] by simp
  next
    case eq
    then have "glob_loop p t pi ti st mark = glob_loop p t (pi + 1) (ti + 1) st mark"
      by (subst glob_loop.simps) simp
    then show ?thesis using 1(2) eq outstanding_match [OF 1(4) eq] by simp
  next
    case ne
    show ?thesis
    proof (cases st)
      case None
      then show ?thesis using mismatch_fails [OF ne] ne by (subst glob_loop.simps) auto
    next
      case (Some s)
      then have g: "glob_loop p t pi ti st mark = glob_loop p t (s + 1) (mark + 1) (Some s) (mark + 1)"
        using ne by (subst glob_loop.simps) auto
      have b: "s + 1 \<le> length p" "mark + 1 \<le> length t" "since_star p t (s + 1) (mark + 1) (Some s) (mark + 1)"
        using 1(4) Some ne(1) by (auto intro: exI [of _ "[]"])
      then show ?thesis using 1(3) [OF ne Some] g outstanding_mismatch [of p t pi ti s mark] 1(4) ne Some by simp
    qed
  qed
qed

section \<open>The bounded walk\<close>

text \<open>The name reported for an entry: its path relative to the root of the search.\<close>

definition lossy :: "string \<Rightarrow> string" where
  "lossy s = str_of_bytes (from_utf8_lossy (as_bytes s))"

definition shown_path :: "path \<Rightarrow> string" where
  "shown_path p = map (\<lambda>c. if c = CHR 0x5C then CHR ''/'' else c) (lossy (join ''/'' p))"

text \<open>
  \<open>bounded_name_walk matcher mx skip cancel rel es k out\<close> works through the entries \<open>es\<close> of the directory \<open>rel\<close>;
  \<open>k\<close> counts the entries visited. The result carries the flag, the count and the names found.
\<close>

fun bounded_name_walk ::
  "(string \<Rightarrow> bool) \<Rightarrow> nat \<Rightarrow> bool \<Rightarrow> (nat \<Rightarrow> bool) \<Rightarrow> path \<Rightarrow> (string \<times> node) list \<Rightarrow> nat \<Rightarrow> string list
     \<Rightarrow> string + bool \<times> nat \<times> string list" where
  "bounded_name_walk matcher mx skip cancel rel [] k out = Inr (mx \<le> length out, k, out)"
| "bounded_name_walk matcher mx skip cancel rel ((name, n) # es) k out =
     (if cancel k then Inl ''request cancelled''
      else if skip \<and> is_link n then bounded_name_walk matcher mx skip cancel rel es (k + 1) out
      else if mx \<le> length out then Inr (True, k + 1, out)
      else
        (let out1 = (if matcher (lossy name) then out @ [shown_path (rel @ [name])] else out) in
         case n of
           Dir sub \<Rightarrow>
             (case bounded_name_walk matcher mx skip cancel (rel @ [name]) sub (k + 1) out1 of
                Inl e \<Rightarrow> Inl e
              | Inr (stop, k2, out2) \<Rightarrow>
                  if stop then Inr (True, k2, out2) else bounded_name_walk matcher mx skip cancel rel es k2 out2)
         | _ \<Rightarrow> bounded_name_walk matcher mx skip cancel rel es (k + 1) out1))"

text \<open>All names below a directory that match, in the order of the tree.\<close>

fun all_matches :: "(string \<Rightarrow> bool) \<Rightarrow> bool \<Rightarrow> path \<Rightarrow> (string \<times> node) list \<Rightarrow> string list" where
  "all_matches matcher skip rel [] = []"
| "all_matches matcher skip rel ((name, n) # es) =
     (if skip \<and> is_link n then []
      else (if matcher (lossy name) then [shown_path (rel @ [name])] else [])
           @ (case n of Dir sub \<Rightarrow> all_matches matcher skip (rel @ [name]) sub | _ \<Rightarrow> []))
     @ all_matches matcher skip rel es"

fun entry_count :: "(string \<times> node) list \<Rightarrow> nat" where
  "entry_count [] = 0"
| "entry_count ((name, n) # es) = 1 + (case n of Dir sub \<Rightarrow> entry_count sub | _ \<Rightarrow> 0) + entry_count es"

lemma bounded_name_walk_spec:
  assumes "\<forall>i. k \<le> i \<and> i < k + entry_count es \<longrightarrow> \<not> cancel i" "length out \<le> mx"
  shows "\<exists>k2. k \<le> k2 \<and> k2 \<le> k + entry_count es \<and> bounded_name_walk matcher mx skip cancel rel es k out =
    Inr (mx \<le> length (out @ all_matches matcher skip rel es), k2, take mx (out @ all_matches matcher skip rel es))"
  using assms
proof (induction matcher skip rel es arbitrary: k out rule: all_matches.induct)
  case (2 matcher skip rel name n es)
  note sub = 2(1) and rest = 2(2) and len = 2(4)
  have live: "\<not> cancel i" if "k \<le> i" "i < k + entry_count ((name, n) # es)" for i using 2(3) that by blast
  then have ck: "\<not> cancel k" by simp
  let ?out = "if matcher (lossy name) then out @ [shown_path (rel @ [name])] else out"
  have es: "\<exists>k2. k \<le> k2 \<and> k2 \<le> k + entry_count ((name, n) # es) \<and>
      bounded_name_walk matcher mx skip cancel rel es k1 o1 =
        Inr (mx \<le> length (o1 @ all_matches matcher skip rel es), k2, take mx (o1 @ all_matches matcher skip rel es))"
    if k1: "k \<le> k1" "k1 + entry_count es \<le> k + entry_count ((name, n) # es)" and "length o1 \<le> mx" for k1 o1
  proof -
    have "\<forall>i. k1 \<le> i \<and> i < k1 + entry_count es \<longrightarrow> \<not> cancel i" using k1 live by (meson le_trans less_le_trans)
    from rest [OF this that(3)] show ?thesis using k1 by (meson le_trans)
  qed
  consider (link) "skip \<and> is_link n" | (full) "\<not> (skip \<and> is_link n)" "mx \<le> length out"
    | (leaf) "\<not> (skip \<and> is_link n)" "length out < mx" "\<not> is_dir n"
    | (dir) s where "length out < mx" "n = Dir s" by (cases n) force+
  then show ?case
  proof cases
    case link
    then show ?thesis using es [of "k + 1" out] len ck by (cases n) auto
  next
    case full
    then show ?thesis using ck len by (intro exI [of _ "k + 1"]) auto
  next
    case leaf
    then show ?thesis using es [of "k + 1" ?out] ck by (cases n) (auto simp: Let_def)
  next
    case dir
    let ?all = "?out @ all_matches matcher skip (rel @ [name]) s"
    have "\<exists>k2. k + 1 \<le> k2 \<and> k2 \<le> k + 1 + entry_count s \<and>
        bounded_name_walk matcher mx skip cancel (rel @ [name]) s (k + 1) ?out = Inr (mx \<le> length ?all, k2, take mx ?all)"
    proof (intro sub)
      show "\<forall>i. k + 1 \<le> i \<and> i < k + 1 + entry_count s \<longrightarrow> \<not> cancel i" using live dir(2) by simp
    qed (use dir in auto)
    then obtain k2 where k2: "k + 1 \<le> k2" "k2 \<le> k + 1 + entry_count s"
      "bounded_name_walk matcher mx skip cancel (rel @ [name]) s (k + 1) ?out = Inr (mx \<le> length ?all, k2, take mx ?all)"
      by blast
    show ?thesis
    proof (cases "mx \<le> length ?all")
      case True
      then show ?thesis using k2 dir ck by (intro exI [of _ k2]) (auto simp: Let_def)
    next
      case False
      then have "take mx ?all = ?all" by simp
      then show ?thesis using es [of k2 ?all] False k2 dir ck by (auto simp: Let_def)
    qed
  qed
qed auto

section \<open>Properties\<close>

lemma glob_matches_glob: "glob_matches pattern name \<longleftrightarrow> glob (as_bytes pattern) (as_bytes name)"
  using glob_loop_outstanding [of "as_bytes pattern" "as_bytes name" 0 0 None 0]
  by (simp add: glob_matches_def Let_def split: option.splits)

text \<open>
  C24. The matcher decides the pattern language: for every pattern and name the loop ends and answers yes exactly
  when the name can be obtained from the pattern by putting any bytes for each star.
\<close>

theorem glob_matches_spec: "glob_matches pattern name \<longleftrightarrow> glob (as_bytes pattern) (as_bytes name)"
  by (rule glob_matches_glob)

text \<open>
  The bounded walk returns the first \<open>mx\<close> matching names of the tree in its order, links being left out when
  they are to be skipped, provided the request is not cancelled while it visits the entries. Its flag says
  that at least \<open>mx\<close> names match, so it is raised also when nothing has been left out.
\<close>

theorem walk_finds_first_matches:
  assumes "\<forall>i < entry_count es. \<not> cancel i"
  shows "\<exists>k. bounded_name_walk matcher mx skip cancel [] es 0 [] =
    Inr (mx \<le> length (all_matches matcher skip [] es), k, take mx (all_matches matcher skip [] es))"
  using bounded_name_walk_spec [of 0 es cancel "[]" mx matcher skip "[]"] assms by auto

theorem walk_finds_first_matches_witness:
  "\<exists>k. bounded_name_walk (glob_matches ''a*'') 1 True (\<lambda>_. False) [] [(''ab'', File [] 0)] 0 [] = Inr (True, k, [''ab''])"
proof -
  have "glob_matches ''a*'' ''ab''" unfolding glob_matches_glob by (simp add: as_bytes_def)
  moreover have "lossy ''ab'' = ''ab''" by code_simp
  moreover have "shown_path [''ab''] = ''ab''" by code_simp
  ultimately show ?thesis
    using walk_finds_first_matches [of "[(''ab'', File [] 0)]" "\<lambda>_. False" "glob_matches ''a*''" 1 True] by simp
qed

end
