(* ===== verification/Child_Capture.thy ===== *)
theory Child_Capture
  imports Rfb_Utf8 Rfb_Session Rfb_Builtin
begin

text \<open>
  How a command's output is captured: the tail of \<^verbatim>\<open>exec_inner\<close> in
  \<^verbatim>\<open>rfb-runtime/src/workspace_executor/process.rs\<close> (the \<^verbatim>\<open>poll\<close> loop over the two pipes, the wait for the exit
  status, the result) with \<^verbatim>\<open>forward_chunk\<close>, \<^verbatim>\<open>capture_chunk\<close> and \<^verbatim>\<open>bounded\<close>.

  What the operating system answers in one round of the loop is a \<open>tick\<close>; times are milliseconds. The
  live events go to \<open>cp_sink\<close> in the order in which the attached consumer gets them.
\<close>

section \<open>Output values\<close>

definition byte_array :: "bytes \<Rightarrow> json" where
  "byte_array bs = JArray (map (\<lambda>b. JNumber (uint b)) bs)"

text \<open>\<^verbatim>\<open>bounded\<close>: text when the bounded prefix is text up to a cut character, else bytes.\<close>

definition bounded_output :: "bytes \<Rightarrow> nat \<Rightarrow> json" where
  "bounded_output bs mx =
     (let slice = take mx bs in
      if utf8_valid slice then JString (str_of_bytes slice)
      else (let stable = fst (decode_bytes decoder_new slice) in
            if utf8_valid stable then JString (str_of_bytes stable) else byte_array slice))"

definition exec_result :: "json \<Rightarrow> json \<Rightarrow> json \<Rightarrow> bool \<Rightarrow> json" where
  "exec_result out er code success =
     JObject [(''stdout'', out), (''stderr'', er), (''exit_code'', code), (''success'', JBool success)]"

definition stream_of :: "nat \<Rightarrow> terminal_stream" where
  "stream_of index = (if index = 0 then Stdout else Stderr)"

definition forward_chunk :: "nat \<Rightarrow> bytes \<Rightarrow> terminal_event list" where
  "forward_chunk index bs =
     (if bs = [] then []
      else if utf8_valid bs then [\<lparr>te_stream = stream_of index, te_data = str_of_bytes bs, te_data_bytes = None\<rparr>]
      else [\<lparr>te_stream = stream_of index, te_data = [], te_data_bytes = Some bs\<rparr>])"

section \<open>Reading a pipe\<close>

record pipe =
  pi_data :: bytes
  pi_decoder :: utf8_chunk_decoder
  pi_done :: bool
  pi_failure :: "string option"

definition pipe_new :: pipe where
  "pipe_new = \<lparr>pi_data = [], pi_decoder = decoder_new, pi_done = False, pi_failure = None\<rparr>"

datatype read_result = RData bytes | REof | RWouldBlock | RInterrupted | RError string

text \<open>\<^verbatim>\<open>capture_chunk\<close>: keep bytes up to the limit, and pass the decoded chunk on.\<close>

definition capture_chunk :: "nat \<Rightarrow> nat \<Rightarrow> bytes \<Rightarrow> pipe \<Rightarrow> pipe \<times> terminal_event list" where
  "capture_chunk limit index chunk p =
     (case decode_bytes (pi_decoder p) chunk of (out, dec) \<Rightarrow>
        (p\<lparr>pi_data := (if length (pi_data p) < limit
              then pi_data p @ take (min (limit - length (pi_data p)) (length chunk)) chunk else pi_data p),
           pi_decoder := dec\<rparr>,
         forward_chunk index out))"

text \<open>The inner loop of a round: read until the pipe would block, fails or ends.\<close>

fun read_pipe :: "nat \<Rightarrow> nat \<Rightarrow> read_result list \<Rightarrow> pipe \<Rightarrow> pipe \<times> terminal_event list" where
  "read_pipe limit index [] p = (p, [])"
| "read_pipe limit index (r # rs) p =
     (case r of
        REof \<Rightarrow> (case flush_bytes (pi_decoder p) of (tail, dec) \<Rightarrow>
            (p\<lparr>pi_decoder := dec, pi_done := True\<rparr>, forward_chunk index tail))
      | RData chunk \<Rightarrow> (case capture_chunk limit index chunk p of (p1, ev1) \<Rightarrow>
            case read_pipe limit index rs p1 of (p2, ev2) \<Rightarrow> (p2, ev1 @ ev2))
      | RWouldBlock \<Rightarrow> (p, [])
      | RInterrupted \<Rightarrow> read_pipe limit index rs p
      | RError e \<Rightarrow> (p\<lparr>pi_done := True, pi_failure := Some e\<rparr>, []))"

section \<open>The poll loop\<close>

text \<open>What \<^verbatim>\<open>poll\<close> gives, with what the reads of a ready pipe then return (\<open>None\<close>: not ready).\<close>

datatype poll_result = PInterrupted | PFailed string | PReady "read_result list option" "read_result list option"

text \<open>\<open>tk_now\<close> is the clock of the deadline check, \<open>tk_later\<close> that of a deadline set afterwards.\<close>

record tick =
  tk_cancel :: bool
  tk_now :: nat
  tk_later :: nat
  tk_exited :: bool
  tk_poll :: poll_result

record capture =
  cp_out :: pipe
  cp_err :: pipe
  cp_sink :: "terminal_event list"
  cp_drain :: "nat option"
  cp_kills :: nat

definition capture_new :: capture where
  "capture_new = \<lparr>cp_out = pipe_new, cp_err = pipe_new, cp_sink = [], cp_drain = None, cp_kills = 0\<rparr>"

definition DRAIN_CAP :: nat where
  "DRAIN_CAP = 5000"

definition read_out :: "nat \<Rightarrow> read_result list option \<Rightarrow> capture \<Rightarrow> capture" where
  "read_out limit r c =
     (case r of None \<Rightarrow> c
      | Some rs \<Rightarrow> if pi_done (cp_out c) then c
          else (case read_pipe limit 0 rs (cp_out c) of (p, evs) \<Rightarrow> c\<lparr>cp_out := p, cp_sink := cp_sink c @ evs\<rparr>))"

definition read_err :: "nat \<Rightarrow> read_result list option \<Rightarrow> capture \<Rightarrow> capture" where
  "read_err limit r c =
     (case r of None \<Rightarrow> c
      | Some rs \<Rightarrow> if pi_done (cp_err c) then c
          else (case read_pipe limit 1 rs (cp_err c) of (p, evs) \<Rightarrow> c\<lparr>cp_err := p, cp_sink := cp_sink c @ evs\<rparr>))"

definition capture_tick :: "nat \<Rightarrow> nat \<Rightarrow> tick \<Rightarrow> capture \<Rightarrow> string + capture" where
  "capture_tick deadline limit t c =
     (if tk_cancel t then Inl ''request cancelled''
      else if (case cp_drain c of Some d \<Rightarrow> d | None \<Rightarrow> deadline) \<le> tk_now t
      then (if cp_drain c = None then Inl ''command timed out''
            else Inr (c\<lparr>cp_kills := cp_kills c + 1, cp_drain := Some (tk_later t + 1000)\<rparr>))
      else (let c1 = (if cp_drain c = None \<and> tk_exited t then c\<lparr>cp_drain := Some (tk_later t + DRAIN_CAP)\<rparr> else c) in
            case tk_poll t of
              PInterrupted \<Rightarrow> Inr c1
            | PFailed e \<Rightarrow> Inl (''poll child pipes: '' @ e)
            | PReady r0 r1 \<Rightarrow> Inr (read_err limit r1 (read_out limit r0 c1))))"

text \<open>The loop over the rounds observed: it has returned an error, left the loop, or still runs.\<close>

datatype capture_end = Failed string | Drained capture | Running capture

fun capture_loop :: "nat \<Rightarrow> nat \<Rightarrow> tick list \<Rightarrow> capture \<Rightarrow> capture_end" where
  "capture_loop deadline limit ts c =
     (if pi_done (cp_out c) \<and> pi_done (cp_err c) then Drained c
      else (case ts of
          [] \<Rightarrow> Running c
        | t # ts' \<Rightarrow> (case capture_tick deadline limit t c of
              Inl e \<Rightarrow> Failed e | Inr c' \<Rightarrow> capture_loop deadline limit ts' c')))"

declare capture_loop.simps [simp del]

section \<open>The exit status and the result\<close>

record wait_obs =
  wt_status :: "string + (int option \<times> bool) option"
  wt_cancel :: bool
  wt_now :: nat

fun wait_loop :: "nat \<Rightarrow> wait_obs list \<Rightarrow> (string + int option \<times> bool) option" where
  "wait_loop deadline [] = None"
| "wait_loop deadline (w # ws) =
     (case wt_status w of
        Inl e \<Rightarrow> Some (Inl e)
      | Inr (Some status) \<Rightarrow> Some (Inr status)
      | Inr None \<Rightarrow>
          if wt_cancel w then Some (Inl ''request cancelled'')
          else if deadline \<le> wt_now w then Some (Inl ''command timed out'')
          else wait_loop deadline ws)"

text \<open>The whole wait; \<open>None\<close> when the rounds given do not suffice for it to return.\<close>

definition child_result :: "nat \<Rightarrow> nat \<Rightarrow> tick list \<Rightarrow> wait_obs list \<Rightarrow> (string + json) option" where
  "child_result deadline limit ts ws =
     (case capture_loop deadline limit ts capture_new of
        Running _ \<Rightarrow> None
      | Failed e \<Rightarrow> Some (Inl e)
      | Drained c \<Rightarrow>
          (case wait_loop deadline ws of
             None \<Rightarrow> None
           | Some (Inl e) \<Rightarrow> Some (Inl e)
           | Some (Inr (code, success)) \<Rightarrow>
               Some (case pi_failure (cp_out c) of
                   Some e \<Rightarrow> Inl e
                 | None \<Rightarrow> (case pi_failure (cp_err c) of
                     Some e \<Rightarrow> Inl e
                   | None \<Rightarrow> Inr (exec_result (bounded_output (pi_data (cp_out c)) limit)
                       (bounded_output (pi_data (cp_err c)) limit)
                       (case code of Some n \<Rightarrow> JNumber n | None \<Rightarrow> JNull) success)))))"

section \<open>Nothing is lost or garbled\<close>

text \<open>The bytes an event carries, and those the consumer of one stream has heard.\<close>

definition event_bytes :: "terminal_event \<Rightarrow> bytes" where
  "event_bytes e = (case te_data_bytes e of Some bs \<Rightarrow> bs | None \<Rightarrow> as_bytes (te_data e))"

definition heard :: "nat \<Rightarrow> terminal_event list \<Rightarrow> bytes" where
  "heard index evs = concat (map event_bytes (filter (\<lambda>e. te_stream e = stream_of index) evs))"

text \<open>The bytes a pipe delivers before it blocks, fails or ends.\<close>

fun read_data :: "read_result list \<Rightarrow> bytes" where
  "read_data (RData b # rs) = b @ read_data rs"
| "read_data (RInterrupted # rs) = read_data rs"
| "read_data _ = []"

lemma heard_append [simp]: "heard i (xs @ ys) = heard i xs @ heard i ys" "heard i [] = []"
  by (simp_all add: heard_def)

lemma forward_chunk_facts:
  "heard i (forward_chunk i bs) = bs" "e \<in> set (forward_chunk i bs) \<Longrightarrow> te_stream e = stream_of i"
  "e \<in> set (forward_chunk i bs) \<Longrightarrow> event_bytes e \<noteq> []"
  "utf8_valid bs \<Longrightarrow> e \<in> set (forward_chunk i bs) \<Longrightarrow> te_data_bytes e = None"
  by (auto simp: forward_chunk_def heard_def event_bytes_def split: if_splits)

text \<open>A safe cut of valid text leaves two valid texts.\<close>

lemma utf8_valid_cut:
  assumes "no_partial xs \<or> ys = [] \<or> \<not> is_cont (hd ys)" and "utf8_valid (xs @ ys)"
  shows "utf8_valid xs \<and> utf8_valid ys"
  using assms
proof (induction xs rule: utf8_valid.induct)
  case 1
  then show ?case by simp
next
  case (2 b bs)
  let ?w = "char_width b" and ?m = "seq_run b bs"
  have run: "seq_run b (bs @ ys) = ?m"
  proof (rule cont_run_append)
    show "is_cont c" if "second_ok b c" for c using that by (rule second_ok_cont)
    show "?w - 1 \<le> length bs \<or> ys = [] \<or> \<not> is_cont (hd ys)" if "?m = length bs"
      using that "2.prems"(1) unfolding no_partial_def by (metis append_Nil)
  qed
  have le: "?m \<le> length bs" by (rule cont_run_le)
  have prem: "no_partial (drop ?m bs) \<or> ys = [] \<or> \<not> is_cont (hd ys)"
    using "2.prems"(1) no_partial_tl no_partial_drop by blast
  have v: "?w \<noteq> 0" "?m = ?w - 1" "utf8_valid (drop ?m bs @ ys)"
    using "2.prems"(2) le by (auto simp: utf8_valid.simps(2) run Let_def simp del: One_nat_def)
  from "2.IH" [OF refl refl prem v(3)] v show ?case
    by (simp add: utf8_valid.simps(2) Let_def)
qed

lemma decode_bytes_facts:
  assumes "decode_bytes d chunk = (out, d')"
  shows "out @ pending d' = pending d @ chunk" "length (pending d') \<le> 3"
    "utf8_valid (pending d @ chunk @ later) \<Longrightarrow> utf8_valid out \<and> utf8_valid (pending d' @ later)"
proof -
  let ?bs = "pending d @ chunk"
  let ?n = "utf8_safe_split ?bs"
  have d: "out = take ?n ?bs" "pending d' = drop ?n ?bs"
    using assms by (auto simp: decode_bytes_def Let_def)
  show eq: "out @ pending d' = ?bs" unfolding d by (rule append_take_drop_id)
  show "length (pending d') \<le> 3"
    using utf8_safe_split_cases [of ?bs] by (auto simp: d MAX_SEQUENCE_def)
  assume v: "utf8_valid (pending d @ chunk @ later)"
  have "no_partial out \<or> pending d' @ later = [] \<or> \<not> is_cont (hd (pending d' @ later))"
    using utf8_safe_split_cases [of ?bs] unfolding d
    by (auto simp: hd_append hd_drop_conv_nth simp del: take_append drop_append length_append)
  moreover have "utf8_valid (out @ (pending d' @ later))" using v eq by (metis append.assoc)
  ultimately show "utf8_valid out \<and> utf8_valid (pending d' @ later)" by (rule utf8_valid_cut)
qed

text \<open>
  The state of a pipe against what its consumer has heard: the captured bytes are the first ones of
  the stream; as long as the stream is text, so is every event; nothing is withheld at the end.
\<close>

definition pipe_ok :: "nat \<Rightarrow> nat \<Rightarrow> pipe \<Rightarrow> terminal_event list \<Rightarrow> bool" where
  "pipe_ok limit i p evs \<longleftrightarrow>
     pi_data p = take limit (heard i evs @ pending (pi_decoder p))
     \<and> (pi_done p \<and> pi_failure p = None \<longrightarrow> pending (pi_decoder p) = [])
     \<and> (\<forall>later. (pi_done p \<longrightarrow> later = []) \<longrightarrow> utf8_valid (heard i evs @ pending (pi_decoder p) @ later) \<longrightarrow>
          (\<forall>e \<in> set evs. te_stream e = stream_of i \<longrightarrow> te_data_bytes e = None) \<and> utf8_valid (pending (pi_decoder p) @ later))"

lemma take_extend:
  assumes "d = take n xs"
  shows "(if length d < n then d @ take (min (n - length d) (length ys)) ys else d) = take n (xs @ ys)"
  using assms by (cases "length xs < n") (simp_all add: min_def)

lemma capture_chunk_ok:
  assumes c: "capture_chunk limit i chunk p = (p', evs)" and ok: "pipe_ok limit i p sink" and nd: "\<not> pi_done p"
  shows "pipe_ok limit i p' (sink @ evs) \<and> \<not> pi_done p'
    \<and> heard i evs @ pending (pi_decoder p') = pending (pi_decoder p) @ chunk"
proof -
  obtain out dec where d: "decode_bytes (pi_decoder p) chunk = (out, dec)" by fastforce
  note D = decode_bytes_facts [OF d]
  have p': "pi_decoder p' = dec" "pi_done p' = pi_done p" "evs = forward_chunk i out"
    "pi_data p' = (if length (pi_data p) < limit
       then pi_data p @ take (min (limit - length (pi_data p)) (length chunk)) chunk else pi_data p)"
    using c by (auto simp: capture_chunk_def d)
  have h: "heard i (sink @ evs) @ pending dec = (heard i sink @ pending (pi_decoder p)) @ chunk"
    using D(1) by (simp add: p' forward_chunk_facts)
  have "pi_data p' = take limit (heard i (sink @ evs) @ pending dec)"
    unfolding h p'(4) by (rule take_extend) (use ok in \<open>simp add: pipe_ok_def\<close>)
  moreover have "(\<forall>e \<in> set (sink @ evs). te_stream e = stream_of i \<longrightarrow> te_data_bytes e = None) \<and> utf8_valid (pending dec @ later)"
    if "utf8_valid (heard i (sink @ evs) @ pending dec @ later)" for later
  proof -
    have "utf8_valid (heard i sink @ pending (pi_decoder p) @ (chunk @ later))" using that h by (metis append.assoc)
    then have A: "\<forall>e \<in> set sink. te_stream e = stream_of i \<longrightarrow> te_data_bytes e = None"
      and B: "utf8_valid (pending (pi_decoder p) @ chunk @ later)"
      using ok nd by (auto simp: pipe_ok_def)
    from D(3) [OF B] A show ?thesis by (auto simp: p'(3) forward_chunk_facts(4))
  qed
  ultimately have "pipe_ok limit i p' (sink @ evs)" using nd unfolding pipe_ok_def p'(1,2) by simp
  then show ?thesis using nd h by (simp add: p'(1,2))
qed

lemma read_pipe_ok:
  assumes "read_pipe limit i rs p = (p', evs)" and "pipe_ok limit i p sink" and "\<not> pi_done p"
  shows "pipe_ok limit i p' (sink @ evs)
    \<and> heard i evs @ pending (pi_decoder p') = pending (pi_decoder p) @ read_data rs"
  using assms
proof (induction rs arbitrary: p p' evs sink)
  case Nil
  then show ?case by simp
next
  case (Cons r rs)
  have V: "(\<forall>e \<in> set sink. te_stream e = stream_of i \<longrightarrow> te_data_bytes e = None) \<and> utf8_valid (pending (pi_decoder p))"
    if "utf8_valid (heard i sink @ pending (pi_decoder p))"
    using Cons.prems(2,3) that unfolding pipe_ok_def by (metis append_Nil2)
  show ?case
  proof (cases r)
    case (RData chunk)
    obtain p1 ev1 where c: "capture_chunk limit i chunk p = (p1, ev1)" by fastforce
    obtain p2 ev2 where r: "read_pipe limit i rs p1 = (p2, ev2)" by fastforce
    from capture_chunk_ok [OF c Cons.prems(2,3)] have ok: "pipe_ok limit i p1 (sink @ ev1)" "\<not> pi_done p1"
      "heard i ev1 @ pending (pi_decoder p1) = pending (pi_decoder p) @ chunk" by simp_all
    have "p' = p2" "evs = ev1 @ ev2" using Cons.prems(1) by (simp_all add: RData c r)
    then show ?thesis using Cons.IH [OF r ok(1,2)] ok(3) RData by (metis append.assoc heard_append(1) read_data.simps(1))
  next
    case REof
    have e: "evs = forward_chunk i (pending (pi_decoder p))" "pending (pi_decoder p') = []" "pi_data p' = pi_data p" "pi_done p'"
      using Cons.prems(1) REof by (auto simp: flush_bytes_def)
    have h: "heard i evs = pending (pi_decoder p)" by (simp add: e forward_chunk_facts)
    have "pi_data p' = take limit (heard i (sink @ evs))" using Cons.prems(2) by (simp add: pipe_ok_def e(3) h)
    then have "pipe_ok limit i p' (sink @ evs)" using V e(4)
      by (auto simp: pipe_ok_def e(1,2) forward_chunk_facts(1,4) simp del: take_append)
    then show ?thesis using h by (simp add: e(2) REof)
  next
    case RError
    then show ?thesis using Cons.prems V by (auto simp: pipe_ok_def)
  qed (use Cons in auto)
qed

lemma read_pipe_stream: "read_pipe limit i rs p = (p', evs) \<Longrightarrow> e \<in> set evs \<Longrightarrow> te_stream e = stream_of i \<and> event_bytes e \<noteq> []"
proof (induction rs arbitrary: p p' evs)
  case (Cons r rs)
  then show ?case
    by (auto simp: capture_chunk_def flush_bytes_def forward_chunk_facts split: read_result.splits prod.splits)
qed simp

definition capture_ok :: "nat \<Rightarrow> capture \<Rightarrow> bool" where
  "capture_ok limit c \<longleftrightarrow> pipe_ok limit 0 (cp_out c) (cp_sink c) \<and> pipe_ok limit 1 (cp_err c) (cp_sink c)"

text \<open>Events of the other stream do not matter.\<close>

lemma pipe_ok_other:
  assumes "\<And>e. e \<in> set evs \<Longrightarrow> te_stream e \<noteq> stream_of i"
  shows "pipe_ok limit i p (sink @ evs) = pipe_ok limit i p sink"
proof -
  have "heard i evs = []" using assms by (simp add: heard_def filter_False)
  then show ?thesis using assms unfolding pipe_ok_def by (auto simp del: take_append)
qed

lemma read_both_ok:
  assumes "capture_ok limit c"
  shows "capture_ok limit (read_out limit r c)" "capture_ok limit (read_err limit r c)"
proof -
  have "capture_ok limit (read_out limit (Some rs) c)" if nd: "\<not> pi_done (cp_out c)" for rs
  proof -
    obtain p evs where r: "read_pipe limit 0 rs (cp_out c) = (p, evs)" by fastforce
    have "pipe_ok limit 1 (cp_err c) (cp_sink c @ evs)"
      using assms read_pipe_stream [OF r] by (subst pipe_ok_other) (auto simp: stream_of_def capture_ok_def)
    then show ?thesis using read_pipe_ok [OF r _ nd] assms nd by (auto simp: read_out_def capture_ok_def r)
  qed
  then show "capture_ok limit (read_out limit r c)" using assms by (cases r) (auto simp: read_out_def split: if_splits)
  have "capture_ok limit (read_err limit (Some rs) c)" if nd: "\<not> pi_done (cp_err c)" for rs
  proof -
    obtain p evs where r: "read_pipe limit 1 rs (cp_err c) = (p, evs)" by fastforce
    have "pipe_ok limit 0 (cp_out c) (cp_sink c @ evs)"
      using assms read_pipe_stream [OF r] by (subst pipe_ok_other) (auto simp: stream_of_def capture_ok_def)
    then show ?thesis using read_pipe_ok [OF r _ nd] assms nd by (auto simp: read_err_def capture_ok_def r simp del: One_nat_def)
  qed
  then show "capture_ok limit (read_err limit r c)" using assms by (cases r) (auto simp: read_err_def split: if_splits)
qed

lemma capture_ok_drain [simp]: "capture_ok limit (c\<lparr>cp_drain := d\<rparr>) = capture_ok limit c"
  "capture_ok limit (c\<lparr>cp_kills := k\<rparr>) = capture_ok limit c"
  by (simp_all add: capture_ok_def)

lemma capture_tick_ok: "capture_tick deadline limit t c = Inr c' \<Longrightarrow> capture_ok limit c \<Longrightarrow> capture_ok limit c'"
  by (auto simp: capture_tick_def Let_def read_both_ok split: if_splits poll_result.splits)

lemma capture_new_ok: "capture_ok limit capture_new"
  by (simp add: capture_ok_def capture_new_def pipe_new_def pipe_ok_def decoder_new_def)

lemma capture_loop_ok:
  assumes "capture_loop deadline limit ts c = Drained c' \<or> capture_loop deadline limit ts c = Running c'"
    and "capture_ok limit c"
  shows "capture_ok limit c'"
  using assms
proof (induction ts arbitrary: c)
  case Nil
  then show ?case by (auto simp: capture_loop.simps [of deadline limit "[]"] split: if_splits)
next
  case (Cons t ts)
  then show ?case
    by (auto simp: capture_loop.simps [of deadline limit "t # ts"] dest: capture_tick_ok split: if_splits sum.splits)
qed

lemma capture_loop_done:
  "capture_loop deadline limit ts c = Drained c' \<Longrightarrow> pi_done (cp_out c') \<and> pi_done (cp_err c')"
proof (induction ts arbitrary: c)
  case Nil
  then show ?case by (auto simp: capture_loop.simps [of deadline limit "[]"] split: if_splits)
next
  case (Cons t ts)
  then show ?case by (auto simp: capture_loop.simps [of deadline limit "t # ts"] split: if_splits sum.splits)
qed

text \<open>What \<open>bounded_output\<close> makes of the captured bytes.\<close>

lemma bounded_output_cases:
  "bounded_output bs mx = byte_array (take mx bs) \<and> \<not> utf8_valid bs
   \<or> (\<exists>n. min mx (length bs) \<le> n + 3 \<and> n \<le> mx \<and> utf8_valid (take n bs) \<and> bounded_output bs mx = JString (str_of_bytes (take n bs)))"
proof -
  let ?s = "take mx bs"
  obtain st d where d: "decode_bytes decoder_new ?s = (st, d)" by fastforce
  note D = decode_bytes_facts [OF d]
  have st: "st @ pending d = ?s" using D(1) by (simp add: decoder_new_def)
  then have pre: "st = take (length st) bs" "length st \<le> mx" "min mx (length bs) \<le> length st + 3"
  proof -
    have "length st + length (pending d) = min mx (length bs)" using arg_cong [OF st, of length] by (simp add: min.commute)
    then show "length st \<le> mx" "min mx (length bs) \<le> length st + 3" using D(2) by linarith+
    have "take (length st) ?s = st" using st by (metis append_eq_conv_conj)
    then show "st = take (length st) bs" using \<open>length st \<le> mx\<close> by (simp add: min_absorb1)
  qed
  have v: "utf8_valid st" if "utf8_valid bs"
    using D(3) [of "drop mx bs"] that by (simp add: decoder_new_def)
  show ?thesis
  proof (cases "utf8_valid ?s")
    case True
    then show ?thesis by (intro disjI2 exI [of _ mx]) (simp add: bounded_output_def Let_def)
  next
    case False
    show ?thesis
    proof (cases "utf8_valid st")
      case True
      then show ?thesis using False pre
        by (intro disjI2 exI [of _ "length st"]) (auto simp: bounded_output_def Let_def d)
    next
      case nv: False
      then show ?thesis using False v by (auto simp: bounded_output_def Let_def d)
    qed
  qed
qed

section \<open>Main properties\<close>

lemma drained_stream:
  assumes "pipe_ok limit i p sink" and "pi_done p" and "pi_failure p = None"
  shows "pi_data p = take limit (heard i sink)"
    "utf8_valid (heard i sink) \<Longrightarrow> e \<in> set sink \<Longrightarrow> te_stream e = stream_of i \<Longrightarrow> te_data_bytes e = None"
  using assms by (auto simp: pipe_ok_def)


text \<open>While the child has not been seen to exit, the deadline ends the loop.\<close>

lemma capture_tick_drain:
  "capture_tick deadline limit t c = Inr c' \<Longrightarrow> cp_drain c = None \<Longrightarrow> \<not> tk_exited t
     \<Longrightarrow> cp_drain c' = None \<and> tk_now t < deadline \<and> \<not> tk_cancel t"
  by (auto simp: capture_tick_def Let_def read_out_def read_err_def split: if_splits poll_result.splits option.splits prod.splits)

lemma running_before_deadline:
  "capture_loop deadline limit ts c = Running c' \<Longrightarrow> cp_drain c = None \<Longrightarrow> \<forall>t \<in> set ts. \<not> tk_exited t
     \<Longrightarrow> \<forall>t \<in> set ts. tk_now t < deadline \<and> \<not> tk_cancel t"
proof (induction ts arbitrary: c)
  case (Cons t ts)
  then show ?case
    by (auto simp: capture_loop.simps [of deadline limit "t # ts"] dest: capture_tick_drain split: if_splits sum.splits)
qed simp

lemma wait_returns:
  "wait_loop deadline ws = None \<longleftrightarrow> (\<forall>w \<in> set ws. wt_status w = Inr None \<and> \<not> wt_cancel w \<and> wt_now w < deadline)"
  by (induction ws) (auto split: sum.splits option.splits)

text \<open>
  A command is stopped by its deadline or by a cancellation: if the direct child is not seen to exit
  while its pipes are open, a round that starts at or after the deadline, or sees the cancellation
  flag, ends the wait for the pipes; and in the wait for the exit status such a round ends it always.
\<close>

theorem command_deadline:
  assumes "\<forall>t \<in> set ts. \<not> tk_exited t" and "\<exists>t \<in> set ts. deadline \<le> tk_now t \<or> tk_cancel t"
    and "\<exists>w \<in> set ws. deadline \<le> wt_now w \<or> wt_cancel w"
  shows "child_result deadline limit ts ws \<noteq> None"
proof -
  have n: "capture_loop deadline limit ts capture_new \<noteq> Running c" for c
    using running_before_deadline [of deadline limit ts capture_new c] assms(1,2)
    by (force simp: capture_new_def)
  have w: "wait_loop deadline ws \<noteq> None" using assms(3) unfolding wait_returns by force
  then show ?thesis using n
    by (auto simp: child_result_def split: capture_end.splits option.splits sum.splits)
qed

text \<open>A round of the drain window in which the window has expired.\<close>

definition late_tick :: "nat \<Rightarrow> tick" where
  "late_tick k = \<lparr>tk_cancel = False, tk_now = 5000 + 1000 * k, tk_later = 5000 + 1000 * k, tk_exited = True, tk_poll = PReady None None\<rparr>"

lemma late_ticks_run:
  assumes "\<not> pi_done (cp_out c)" and "cp_drain c = Some (5000 + 1000 * k)"
  shows "capture_loop deadline limit (map late_tick [k ..< k + n]) c
    = Running (c\<lparr>cp_kills := cp_kills c + n, cp_drain := Some (5000 + 1000 * (k + n))\<rparr>)"
  using assms
proof (induction n arbitrary: c k)
  case 0
  then show ?case by (simp add: capture_loop.simps [of deadline limit "[]"])
next
  case (Suc n)
  let ?c = "c\<lparr>cp_kills := cp_kills c + 1, cp_drain := Some (5000 + 1000 * Suc k)\<rparr>"
  have t: "capture_tick deadline limit (late_tick k) c = Inr ?c"
    using Suc.prems by (simp add: capture_tick_def late_tick_def)
  have l: "[k ..< k + Suc n] = k # [Suc k ..< Suc k + n]" by (simp add: upt_conv_Cons del: upt_Suc)
  have "capture_loop deadline limit (map late_tick [k ..< k + Suc n]) c
      = capture_loop deadline limit (map late_tick [Suc k ..< Suc k + n]) ?c"
    unfolding l using Suc.prems(1) by (simp add: capture_loop.simps [of deadline limit "late_tick k # x" for x] t del: upt_Suc)
  also have "\<dots> = Running (?c\<lparr>cp_kills := cp_kills ?c + n, cp_drain := Some (5000 + 1000 * (Suc k + n))\<rparr>)"
    by (rule Suc.IH) (use Suc.prems in simp_all)
  finally show ?case by simp
qed

text \<open>
  The window for draining the pipes is not bounded. Once the direct child has been seen to exit, an
  expired window is renewed for ever: when a descendant outside the process group keeps a pipe open,
  the wait can go on for any time \<open>n\<close> after the deadline although nobody cancels and no round fails.
\<close>

theorem drain_outlives_deadline:
  assumes "0 < deadline"
  shows "\<exists>ts c. capture_loop deadline limit ts capture_new = Running c \<and> sorted (map tk_now ts)
    \<and> (\<forall>t \<in> set ts. \<not> tk_cancel t \<and> tk_exited t) \<and> (\<exists>t \<in> set ts. deadline + n \<le> tk_now t) \<and> n \<le> cp_kills c"
proof -
  let ?t0 = "\<lparr>tk_cancel = False, tk_now = 0, tk_later = 0, tk_exited = True, tk_poll = PReady None None\<rparr>"
  let ?m = "Suc (deadline + n)"
  let ?ts = "?t0 # map late_tick [0 ..< ?m]"
  let ?c1 = "capture_new\<lparr>cp_drain := Some 5000\<rparr>"
  have t: "capture_tick deadline limit ?t0 capture_new = Inr ?c1"
    using assms by (simp add: capture_tick_def capture_new_def read_out_def read_err_def DRAIN_CAP_def)
  have nd: "\<not> pi_done (cp_out capture_new)" by (simp add: capture_new_def pipe_new_def)
  have run: "capture_loop deadline limit ?ts capture_new
      = Running (?c1\<lparr>cp_kills := cp_kills ?c1 + ?m, cp_drain := Some (5000 + 1000 * ?m)\<rparr>)"
    using late_ticks_run [of ?c1 0 deadline limit ?m] nd
    by (simp add: capture_loop.simps [of deadline limit "?t0 # x" for x] t del: upt_Suc)
  have "sorted_wrt (\<lambda>x y. tk_now (late_tick x) \<le> tk_now (late_tick y)) [0 ..< ?m]"
    by (rule sorted_wrt_mono_rel [OF _ sorted_wrt_upt]) (simp add: late_tick_def)
  then have s: "sorted (map tk_now ?ts)" by (simp add: sorted_wrt_map del: upt_Suc)
  have "late_tick (deadline + n) \<in> set ?ts" by simp
  moreover have "deadline + n \<le> tk_now (late_tick (deadline + n))" by (simp add: late_tick_def)
  ultimately have l: "\<exists>t \<in> set ?ts. deadline + n \<le> tk_now t" by blast
  show ?thesis using run s l by (intro exI [of _ ?ts] exI conjI) (auto simp: late_tick_def)
qed

section \<open>Witnesses\<close>

text \<open>A euro sign cut by two reads, and a silent standard error.\<close>

definition demo_tick :: "nat \<Rightarrow> read_result list \<Rightarrow> read_result list \<Rightarrow> tick" where
  "demo_tick now r0 r1 = \<lparr>tk_cancel = False, tk_now = now, tk_later = now, tk_exited = False, tk_poll = PReady (Some r0) (Some r1)\<rparr>"

definition demo_ticks :: "tick list" where
  "demo_ticks = [demo_tick 0 [RData [0xE2, 0x82], RWouldBlock] [RInterrupted, REof], demo_tick 1 [RData [0xAC], REof] []]"

definition demo_capture :: capture where
  "demo_capture = \<lparr>cp_out = \<lparr>pi_data = [0xE2, 0x82, 0xAC], pi_decoder = decoder_new, pi_done = True, pi_failure = None\<rparr>,
     cp_err = pipe_new\<lparr>pi_done := True\<rparr>,
     cp_sink = [\<lparr>te_stream = Stdout, te_data = str_of_bytes [0xE2, 0x82, 0xAC], te_data_bytes = None\<rparr>],
     cp_drain = None, cp_kills = 0\<rparr>"

lemma demo_capture_run: "capture_loop 9 100 demo_ticks capture_new = Drained demo_capture"
  by code_simp


theorem command_deadline_witness: "child_result 3 100 [demo_tick 3 [] []] [\<lparr>wt_status = Inr None, wt_cancel = True, wt_now = 0\<rparr>] \<noteq> None"
  by (rule command_deadline) (simp_all add: demo_tick_def)

theorem drain_outlives_deadline_witness:
  "\<exists>ts c. capture_loop 1 100 ts capture_new = Running c \<and> (\<exists>t \<in> set ts. 1 + 60000 \<le> tk_now t)"
  using drain_outlives_deadline [of 1 100 60000] by auto

end
