(* ===== verification/Turn_Executor.thy ===== *)
theory Turn_Executor
  imports Guest_Connection
begin

text \<open>
  The contract between the connection server and an executor, as a locale: an executor that is idle
  between calls and ends every turn. Its client is the whole system of connections, workers and
  runtime service; the lemmas here say what the system then promises. The workspace executor is an
  instance.
\<close>

definition turn_ended :: "string + guest_event list \<Rightarrow> bool" where
  "turn_ended r = (case r of Inl _ \<Rightarrow> True | Inr events \<Rightarrow> list_ex (\<lambda>e. terminal_kind (ge_kind e)) events)"

lemma handle_in_flight_active:
  "rs_executor sv = None \<Longrightarrow> rs_active_sessions (snd (handle x m sv)) = rs_active_sessions sv"
  by (cases m) (auto simp: handle_def handle_turn_in_flight_def returned_def hello_reply_def
      cancel_active_def store_flag_def Let_def split: option.split)

lemma replay_active [simp]: "rs_active_sessions (snd (replay_cached_turn turn sv)) = rs_active_sessions sv"
  using replay_state [of turn sv] by auto

text \<open>A turn that ended settles its session.\<close>

lemma settle_ended:
  assumes "turn_ended r" "turn_responses sid rid c r sv = (ms, sv')"
  shows "rs_active_sessions (settle sid ms sv') = alist_remove sid (rs_active_sessions sv)"
proof -
  obtain q where q: "sv' = sv\<lparr>rs_sequence := q\<rparr>" using turn_responses_state [of sid rid c r sv] assms(2) by auto
  have "list_ex response_completes_turn ms \<or> list_ex is_error_message ms"
  proof (cases r)
    case (Inl m)
    then show ?thesis using assms(2) by (auto simp: turn_responses_def cancelled_event_eq split: if_splits)
  next
    case (Inr evs)
    then show ?thesis using assms number_events_finished [of sid evs sv]
      by (simp add: turn_responses_def turn_ended_def)
  qed
  then show ?thesis by (simp add: settle_def q)
qed

lemma alist_remove_only: "fst ` set m \<subseteq> {k} \<Longrightarrow> alist_remove k m = []"
  by (auto simp: alist_remove_def filter_empty_conv)

locale turn_executor =
  fixes x :: "'e guest_executor" and idle :: "'e \<Rightarrow> bool"
  assumes start: "idle e \<Longrightarrow> x_start_turn x t (e, h) = (r, e', h') \<Longrightarrow> idle e' \<and> turn_ended r"
    and cancel: "idle e \<Longrightarrow> x_cancel x sid rid (e, h) = (r2, e', h') \<Longrightarrow> idle e'"
    and shutdown: "idle e \<Longrightarrow> x_shutdown x (e, h) = (r2, e', h') \<Longrightarrow> idle e'"
    and read: "idle e \<Longrightarrow> x_read_workspace_file x rd (e, h) = (r3, e', h') \<Longrightarrow> idle e'"
    and "write": "idle e \<Longrightarrow> x_write_workspace_file x wr (e, h) = (r2, e', h') \<Longrightarrow> idle e'"
    and rpc: "idle e \<Longrightarrow> x_filesystem_rpc x op path d (e, h) = (r3, e', h') \<Longrightarrow> idle e'"
    and reset: "idle e \<Longrightarrow> x_reset_cancel x (e, h) = (e', h') \<Longrightarrow> idle e'"
begin

text \<open>At rest the service has an idle executor and no session is active.\<close>

definition settled :: "'e runtime_service \<Rightarrow> bool" where
  "settled sv \<longleftrightarrow> (\<forall>e. rs_executor sv = Some e \<longrightarrow> idle e \<and> rs_active_sessions sv = [])"

lemma settled_fields:
  "settled (record_completed k v sv) = settled sv" "settled (record_cancelled k v sv) = settled sv"
  "settled (sv\<lparr>rs_sequence := q\<rparr>) = settled sv" "settled (sv\<lparr>rs_flags := h\<rparr>) = settled sv"
  by (simp_all add: settled_def)

lemma settled_start:
  assumes "settled sv" "rs_executor sv = Some e"
  shows "settled (snd (handle_start x turn sv))"
proof (cases "fresh_turn turn sv")
  case False
  then show ?thesis using handle_start_not_fresh [OF False, of x] assms(1) settled_fields(3) by fastforce
next
  case True
  let ?sid = "rq_session_id turn" and ?rid = "rq_request_id turn"
  have e: "idle e" "rs_active_sessions sv = []" using assms by (simp_all add: settled_def)
  obtain e1 h1 where r: "x_reset_cancel x (e, rs_flags sv) = (e1, h1)" by fastforce
  obtain res e2 h2 where s: "x_start_turn x turn (e1, h1) = (res, e2, h2)" by (metis prod_cases3)
  note s2 = start [OF reset [OF e(1) r] s]
  let ?sv = "sv\<lparr>rs_active_sessions := alist_insert ?sid ?rid (rs_active_sessions sv), rs_executor := Some e2, rs_flags := h2\<rparr>"
  obtain ms sv3 where t: "turn_responses ?sid ?rid False res ?sv = (ms, sv3)" by fastforce
  have "rs_active_sessions (settle ?sid ms sv3) = []"
    using settle_ended [OF conjunct2 [OF s2] t] e(2) by (simp add: alist_insert_def alist_remove_def)
  moreover have "rs_executor sv3 = Some e2"
    using turn_responses_state [of ?sid ?rid False res ?sv] t by auto
  ultimately have "settled (settle ?sid ms sv3)" using s2 by (simp add: settled_def)
  then show ?thesis using handle_start_fresh [OF True assms(2), of x]
    by (simp add: start_fresh_def Let_def r s t returned_def settled_fields)
qed

lemma settled_executor_mut:
  assumes "settled sv" "executor_mut f sv = (out, sv')"
    "\<And>e r e' h'. idle e \<Longrightarrow> f (e, rs_flags sv) = (r, e', h') \<Longrightarrow> idle e'"
  shows "settled sv'"
  using assms by (auto simp: executor_mut_def settled_def split: option.splits prod.splits)

lemma settled_handle:
  assumes s: "settled sv" and h: "handle x m sv = (out, sv')"
  shows "settled sv'"
proof (cases "rs_executor sv = None")
  case True
  then show ?thesis using executor_absent_handle [OF True, of x m] h by (simp add: settled_def)
next
  case False
  then obtain e where e: "rs_executor sv = Some e" by auto
  have mut: "settled sv1" if "executor_mut f sv = (o1, sv1)"
    "\<And>e r e' h'. idle e \<Longrightarrow> f (e, rs_flags sv) = (r, e', h') \<Longrightarrow> idle e'" for f o1 sv1
    using settled_executor_mut [OF s that] .
  show ?thesis
  proof (cases "rs_shutdown sv \<and> m \<noteq> CShutdown")
    case True
    then show ?thesis using h s by (auto simp: handle_def)
  next
    case live: False
    show ?thesis
    proof (cases m)
      case (CStartTurn t)
      then show ?thesis using h s settled_start [OF s e, of t] live e by (auto simp: handle_def split: if_splits)
    next
      case (CCancel sid rid)
      have "map_of (rs_active_sessions sv) sid = None" using s e by (simp add: settled_def)
      then have "handle_cancel x sid rid sv = (o2, sv2) \<Longrightarrow> sv2 = sv" for o2 sv2
        by (auto simp: handle_cancel_def Let_def split: option.splits)
      then show ?thesis using h s live e CCancel by (auto simp: handle_def split: if_splits)
    next
      case (CReadWorkspaceFile r)
      then show ?thesis using h s live e
        by (auto simp: handle_def split: if_splits prod.splits outcome.splits sum.splits dest: mut intro: read)
    next
      case (CWriteWorkspaceFile r)
      then show ?thesis using h s live e
        by (auto simp: handle_def split: if_splits prod.splits outcome.splits sum.splits dest: mut intro: "write")
    next
      case CShutdown
      then show ?thesis using h s e shutdown
        by (auto simp: handle_def handle_shutdown_def returned_def settled_def store_flag_def Let_def
            split: if_splits prod.splits option.splits sum.splits)
    qed (use h s live e in \<open>auto simp: handle_def hello_reply_def returned_def settled_def split: if_splits\<close>)
  qed
qed

lemma settled_complete:
  assumes "idle e" "turn_ended r" "fst ` set (rs_active_sessions sv) \<subseteq> {sid}" "complete_turn sid rid r e sv = (ms, sv')"
  shows "settled sv'"
proof -
  let ?c = "rs_cancelled_sessions sv (sid, rid) \<noteq> None \<or> r = Inl ''request cancelled''"
  let ?sv = "sv\<lparr>rs_executor := Some e, rs_turn_cancel := None\<rparr>"
  obtain ms2 sv2 where t: "turn_responses sid rid ?c r ?sv = (ms2, sv2)" by fastforce
  have "rs_active_sessions (settle sid ms2 sv2) = []"
    using settle_ended [OF assms(2) t] alist_remove_only [OF assms(3)] by simp
  moreover have "rs_executor sv2 = Some e" using turn_responses_state [of sid rid ?c r ?sv] t by auto
  ultimately have "settled (settle sid ms2 sv2)" using assms(1) by (simp add: settled_def)
  then show ?thesis using assms(4) t by (auto simp: complete_turn_eq Let_def settled_fields split: if_splits)
qed

lemma settled_spawn:
  assumes "settled sv" "spawn_turn x turn sv = (Inr e', sv')"
  shows "idle e' \<and> rs_executor sv' = None \<and> rs_active_sessions sv' = [(rq_session_id turn, rq_request_id turn)]"
  using assms reset
  by (auto simp: spawn_turn_def settled_def Let_def alist_insert_def alist_remove_def
      split: if_splits option.splits prod.splits)

text \<open>The workers: a running turn is the only active session, and a delivered one has ended.\<close>

fun calm_worker :: "(string \<times> string) list \<Rightarrow> 'e worker \<Rightarrow> bool" where
  "calm_worker act (Running t s e) \<longleftrightarrow> idle e \<and> fst ` set act \<subseteq> {rq_session_id t}"
| "calm_worker act (Delivered s sid rid r e) \<longleftrightarrow> idle e \<and> turn_ended r \<and> fst ` set act \<subseteq> {sid}"
| "calm_worker act w \<longleftrightarrow> True"

definition calm :: "'e system \<Rightarrow> bool" where
  "calm sys \<longleftrightarrow> owned_once sys \<and> settled (sys_service sys)
     \<and> (\<forall>i. calm_worker (rs_active_sessions (sys_service sys)) (cn_worker (sys_conns sys i)))"

lemma calm_worker_not_holding: "\<not> holds w \<Longrightarrow> calm_worker act w"
  by (cases w) auto

lemma calm_keep:
  assumes "calm sys" "settled sv" "calm_worker (rs_active_sessions sv) (cn_worker c)" "owned_once (set_conn i c sv sys)"
    "rs_executor (sys_service sys) = None \<Longrightarrow> set (rs_active_sessions sv) \<subseteq> set (rs_active_sessions (sys_service sys))"
  shows "calm (set_conn i c sv sys)"
  unfolding calm_def
proof (intro conjI allI)
  fix j
  show "calm_worker (rs_active_sessions (sys_service (set_conn i c sv sys))) (cn_worker (sys_conns (set_conn i c sv sys) j))"
  proof (cases "j = i")
    case False
    let ?w = "cn_worker (sys_conns sys j)"
    have old: "calm_worker (rs_active_sessions (sys_service sys)) ?w" using assms(1) by (simp add: calm_def)
    show ?thesis
    proof (cases "holds ?w")
      case True
      then have "rs_executor (sys_service sys) = None" using assms(1) by (auto simp: calm_def owned_once_def)
      from assms(5) [OF this] old False show ?thesis by (cases ?w) auto
    qed (use False in \<open>simp add: calm_worker_not_holding\<close>)
  qed (use assms(3) in simp)
qed (use assms in simp_all)

text \<open>A step that takes or returns the executor leaves no other worker holding one.\<close>

lemma calm_alone:
  assumes "owned_once (set_conn i c sv sys)" "settled sv" "calm_worker (rs_active_sessions sv) (cn_worker c)"
    "\<And>j. j \<noteq> i \<Longrightarrow> \<not> holds (cn_worker (sys_conns sys j))"
  shows "calm (set_conn i c sv sys)"
  using assms by (auto simp: calm_def calm_worker_not_holding)

lemma calm_conn: "calm sys \<Longrightarrow> calm_worker (rs_active_sessions (sys_service sys)) (cn_worker (sys_conns sys i))"
  by (simp add: calm_def)

lemma calm_step_complete:
  assumes "calm sys" "cn_worker (sys_conns sys i) = Delivered s sid rid r e"
    "complete_turn sid rid r e (sys_service sys) = (ms, sv)" "cn_worker c = Idle" "owned_once (set_conn i c sv sys)"
  shows "calm (set_conn i c sv sys)"
proof (rule calm_alone [OF assms(5)])
  show "settled sv" using calm_conn [OF assms(1), of i] assms(2) settled_complete [OF _ _ _ assms(3)] by simp
  show "\<not> holds (cn_worker (sys_conns sys j))" if "j \<noteq> i" for j
    using assms(1,2) that unfolding calm_def owned_once_def by (metis holds.simps(2))
qed (simp add: assms(4))

lemma calm_step: 
  assumes "step x sys sys'" "calm sys" shows "calm sys'"
proof -
  have o: "owned_once sys'" using step_owned_once [OF assms(1)] assms(2) by (simp add: calm_def)
  have s: "settled (sys_service sys)" using assms(2) by (simp add: calm_def)
  from assms o s show ?thesis
  proof (induction rule: step.induct)
    case (replay c sys i turn ms sv s)
    then show ?case using replay_state [of turn "sys_service sys"] calm_conn [OF replay.prems(1), of i]
      by (intro calm_keep) (auto simp: settled_fields)
  next
    case (claim c sys i turn sv s)
    then show ?case using replay_state [of turn "sys_service sys"] calm_conn [OF claim.prems(1), of i]
      by (intro calm_keep) (auto simp: settled_fields)
  next
    case (spawn c sys i turn s e sv)
    note sp = settled_spawn [OF spawn.prems(3) spawn.hyps(4)]
    show ?case
    proof (rule calm_alone [OF spawn.prems(2)])
      show "settled sv" using sp by (simp add: settled_def)
      show "\<not> holds (cn_worker (sys_conns sys j))" for j
        using spawn_takes_executor [OF spawn.hyps(4)] spawn.prems(1) unfolding calm_def owned_once_def by metis
    qed (use sp in simp)
  next
    case (refuse c sys i turn s m sv)
    have "sv = sys_service sys"
      using refuse.hyps(4) by (auto simp: spawn_turn_def Let_def split: if_splits option.splits prod.splits)
    then show ?case using refuse by (intro calm_keep) auto
  next
    case (control c sys i request ms sv c' s)
    have "settled sv" by (rule settled_handle [OF control.prems(3) control.hyps(5)])
    moreover have k: "rs_active_sessions sv = rs_active_sessions (sys_service sys)" if "rs_executor (sys_service sys) = None"
      using handle_in_flight_active [OF that, of x request] control.hyps(5) by simp
    moreover have "calm_worker (rs_active_sessions sv) (cn_worker c)"
      using calm_conn [OF control.prems(1), of i] k control.hyps(1) control.prems(1)
      by (cases "holds (cn_worker c)") (auto simp: calm_worker_not_holding calm_def owned_once_def)
    ultimately show ?case using control.prems control.hyps(6) by (intro calm_keep) auto
  next
    case (finish c sys i turn s e r e' h)
    have "idle e" "fst ` set (rs_active_sessions (sys_service sys)) \<subseteq> {rq_session_id turn}"
      using calm_conn [OF finish.prems(1), of i] finish.hyps(1,2) by auto
    with start [OF this(1) finish.hyps(3)] finish show ?case
      by (intro calm_keep) (auto simp: settled_fields)
  next
    case (panic c sys i turn s e)
    then show ?case by (intro calm_keep) auto
  next
    case (result c sys i s sid rid r e ms sv)
    then show ?case by (intro calm_step_complete) auto
  next
    case (joined c sys i ms sv)
    then show ?case
      by (intro calm_keep) (auto simp: abandon_active_turn_def settled_def)
  next
    case (io_break c sys i)
    then show ?case using calm_conn [OF io_break.prems(1), of i] by (intro calm_keep) auto
  next
    case (wait1 c sys i t n)
    then show ?case using calm_conn [OF wait1.prems(1), of i] by (intro calm_keep) auto
  next
    case (deliver1 c sys i t s sid rid r e ms sv)
    then show ?case by (intro calm_step_complete) auto
  next
    case (dropped1 c sys i t ms sv)
    then show ?case by (intro calm_keep) (auto simp: abandon_active_turn_def settled_def)
  next
    case (elapsed1 c sys i ms sv)
    have "calm_worker [] (cn_worker c)" using calm_conn [OF elapsed1.prems(1), of i] elapsed1.hyps(1)
      by (cases "cn_worker c") auto
    then show ?case using elapsed1 by (intro calm_keep) (auto simp: abandon_active_turn_def settled_def)
  next
    case (wait2 c sys i t n)
    then show ?case using calm_conn [OF wait2.prems(1), of i] by (intro calm_keep) auto
  next
    case (deliver2 c sys i t s sid rid r e ms sv)
    then show ?case by (intro calm_step_complete) auto
  next
    case (dropped2 c sys i t)
    then show ?case by (intro calm_keep) auto
  next
    case (elapsed2 c sys i)
    then show ?case using calm_conn [OF elapsed2.prems(1), of i] by (intro calm_keep) auto
  qed
qed

lemma reachable_calm:
  assumes "(step x)\<^sup>*\<^sup>* (system_start (with_executor limits e h)) sys" "idle e"
  shows "calm sys"
  using assms
proof induction
  case base
  then show ?case by (simp add: calm_def owned_once_def system_start_def settled_def with_executor_def)
qed (rule calm_step)

lemma ready_between_turns:
  assumes "(step x)\<^sup>*\<^sup>* (system_start (with_executor limits e h)) sys" "idle e" "rs_executor (sys_service sys) = Some e1"
  shows "idle e1 \<and> rs_active_sessions (sys_service sys) = []"
  using reachable_calm [OF assms(1,2)] assms(3) by (simp add: calm_def settled_def)

end

end
