(* ===== verification/Rfb_Json.thy ===== *)
theory Rfb_Json
  imports Path_Policy Child_Capture
begin

text \<open>
  Reading fields of JSON values the way the guest's request handlers do (\<^verbatim>\<open>serde_json::Value\<close> accessors with
  defaults), and the parts of the JSON and base64 libraries that are parameters of the model.
\<close>

record json_lib =
  jl_parse :: "bytes \<Rightarrow> string + json"
  jl_print :: "json \<Rightarrow> bytes"
  jl_terminal :: "terminal_event \<Rightarrow> bytes"
  jl_base64 :: "string \<Rightarrow> string + bytes"

fun as_bool :: "json \<Rightarrow> bool option" where
  "as_bool (JBool b) = Some b"
| "as_bool _ = None"

definition u64_field :: "string \<Rightarrow> json \<Rightarrow> nat option" where
  "u64_field k v = Option.bind (jget k v) as_u64"

definition str_field :: "string \<Rightarrow> json \<Rightarrow> string option" where
  "str_field k v = Option.bind (jget k v) as_str"

definition or_else :: "'a option \<Rightarrow> 'a \<Rightarrow> 'a" where
  "or_else x d = (case x of Some y \<Rightarrow> y | None \<Rightarrow> d)"

definition ok_or :: "'a option \<Rightarrow> string \<Rightarrow> string + 'a" where
  "ok_or x e = (case x of Some y \<Rightarrow> Inr y | None \<Rightarrow> Inl e)"

fun byte_of_json :: "json \<Rightarrow> byte option" where
  "byte_of_json v = Option.bind (as_u64 v) (\<lambda>n. if n < 256 then Some (word_of_nat n) else None)"

fun collect :: "('a \<Rightarrow> 'b option) \<Rightarrow> 'a list \<Rightarrow> 'b list option" where
  "collect f [] = Some []"
| "collect f (x # xs) = Option.bind (f x) (\<lambda>y. map_option ((#) y) (collect f xs))"

lemma collect_byte_array: "collect byte_of_json (map (\<lambda>b. JNumber (uint b)) bs) = Some bs"
proof (induction bs)
  case (Cons b bs)
  have "0 \<le> uint b" "uint b < 256" "unat b < 256" using uint_lt2p [of b] unat_lt2p [of b] by simp_all
  then have "byte_of_json (JNumber (uint b)) = Some b" by (simp add: as_u64_def)
  with Cons show ?case by simp
qed simp

end
