(* ===== verification/Workspace_Executor.thy ===== *)
theory Workspace_Executor
  imports Workspace_Files Glob Child_Capture Turn_Executor Rfb_Json
begin

text \<open>
  The workspace executor behind the guest transports: \<^verbatim>\<open>workspace_executor/dispatch.rs\<close> (structured requests),
  \<^verbatim>\<open>workspace_executor/process.rs\<close> (commands) and \<^verbatim>\<open>workspace_executor/cancel.rs\<close> (the \<^verbatim>\<open>GuestExecutor\<close> it
  implements), on top of the file operations.

  A child process is a parameter: whether it can be spawned, and what it writes, how it ends and what it
  does to the files. So are JSON text, base64 and the encoding of a terminal event. The cancellation
  flag, which other threads raise, is a function of how often it has been read in the operation. The
  tree does not change while an operation on files runs, so the stack of \<^verbatim>\<open>grep\<close> carries the objects
  along with their paths.
\<close>

section \<open>Parameters\<close>

text \<open>
  \<open>ch_run\<close> gets the arguments, directory, standard input and time limit in milliseconds; it gives the rounds
  of the two wait loops and what the child does to the files. A round beyond those given sees the
  cancellation flag. \<open>ch_killed\<close> is what a child does before it is killed because its request turns out
  to be invalid.
\<close>

record child_env =
  ch_reachable :: "string \<Rightarrow> bool"
  ch_spawn_error :: "string list \<Rightarrow> path \<Rightarrow> node \<Rightarrow> string option"
  ch_killed :: "string list \<Rightarrow> path \<Rightarrow> node \<Rightarrow> node"
  ch_run :: "string list \<Rightarrow> path \<Rightarrow> bytes option \<Rightarrow> nat \<Rightarrow> node \<Rightarrow> (tick list \<times> wait_obs list) \<times> node"

section \<open>Commands\<close>

definition stdin_bytes :: "json_lib \<Rightarrow> json \<Rightarrow> string + bytes option" where
  "stdin_bytes lib v =
     (case jget ''stdin_b64'' v of
        Some (JString text) \<Rightarrow>
          (case jl_base64 lib text of Inr b \<Rightarrow> Inr (Some b) | Inl e \<Rightarrow> Inl (''stdin_b64 is not valid base64: '' @ e))
      | Some _ \<Rightarrow> Inl ''stdin_b64 must be a base64 string''
      | None \<Rightarrow>
          (case jget ''stdin'' v of
             Some (JString text) \<Rightarrow> Inr (Some (as_bytes text))
           | Some (JArray items) \<Rightarrow> map_sum id Some (ok_or (collect byte_of_json items) ''stdin must be bytes in 0..=255'')
           | Some _ \<Rightarrow> Inl ''stdin must be a string or byte array''
           | None \<Rightarrow> Inr None))"

text \<open>The deadline asked for, in milliseconds; it is cut to \<^verbatim>\<open>max_runtime_seconds\<close>.\<close>

definition asked_timeout :: "json \<Rightarrow> runtime_limits \<Rightarrow> nat" where
  "asked_timeout v limits =
     (case u64_field ''timeout_ms'' v of
        Some ms \<Rightarrow> ms
      | None \<Rightarrow> (case u64_field ''timeout_secs'' v of
            Some s \<Rightarrow> s * 1000 | None \<Rightarrow> unat (max_runtime_seconds limits) * 1000))"

definition run_builtin :: "child_env \<Rightarrow> json \<Rightarrow> builtin_cmd \<Rightarrow> workspace \<Rightarrow> string + json" where
  "run_builtin ch v kind ws =
     res_bind (validate_builtin_request v) (\<lambda>_.
     res_bind (resolve_workspace ws (or_else (str_field ''cwd'' v) ''.'')) (\<lambda>_.
       let result = builtin_result (ch_reachable ch) v kind;
           out = or_else (jget ''stdout'' result) JNull;
           code = (case jget ''exit_code'' result of Some (JNumber n) \<Rightarrow> n | _ \<Rightarrow> 0)
       in Inr (exec_result out (JString []) (JNumber code) (code = 0))))"

definition run_child :: "child_env \<Rightarrow> json_lib \<Rightarrow> json \<Rightarrow> string list \<Rightarrow> path \<Rightarrow> workspace \<Rightarrow> (string + json) \<times> workspace" where
  "run_child ch lib v args cwd ws =
     (let limit = max_event_bytes (ws_limits ws) in
      case ch_spawn_error ch args cwd (ws_fs ws) of
        Some e \<Rightarrow>
          (Inr (exec_result (JString []) (bounded_output (as_bytes (''rfb-runtime: failed to spawn command: '' @ e)) limit)
             (JNumber (- 1)) False), ws)
      | None \<Rightarrow>
          (case stdin_bytes lib v of
             Inl e \<Rightarrow> (Inl e, ws\<lparr>ws_fs := ch_killed ch args cwd (ws_fs ws)\<rparr>)
           | Inr stdin \<Rightarrow>
              (if asked_timeout v (ws_limits ws) = 0
               then (Inl ''timeout_secs/timeout_ms must be non-zero'', ws\<lparr>ws_fs := ch_killed ch args cwd (ws_fs ws)\<rparr>)
               else
                 (let timeout = min (asked_timeout v (ws_limits ws)) (unat (max_runtime_seconds (ws_limits ws)) * 1000) in
                  case ch_run ch args cwd stdin timeout (ws_fs ws) of
                    ((ticks, waits), fs1) \<Rightarrow>
                      (case child_result timeout limit ticks waits of
                         Some r \<Rightarrow> r | None \<Rightarrow> Inl ''request cancelled'', ws\<lparr>ws_fs := fs1\<rparr>)))))"

definition exec_inner :: "child_env \<Rightarrow> json_lib \<Rightarrow> bool \<Rightarrow> json \<Rightarrow> workspace \<Rightarrow> (string + json) \<times> workspace" where
  "exec_inner ch lib cancelled v ws =
     (case Option.bind (jget ''args'' v) as_array of
        None \<Rightarrow> (Inl ''args must be an array'', ws)
      | Some args \<Rightarrow>
          if args = [] \<or> (\<exists>a \<in> set args. as_str a = None) then (Inl ''args must be a non-empty string array'', ws)
          else if cancelled then (Inl ''request cancelled'', ws)
          else if u64_field ''timeout_ms'' v = Some 0 \<or> u64_field ''timeout_secs'' v = Some 0
          then (Inl ''timeout_secs/timeout_ms must be non-zero'', ws)
          else (case builtin v of
              Some kind \<Rightarrow> (run_builtin ch v kind ws, ws)
            | None \<Rightarrow>
                (case resolve_workspace ws (or_else (str_field ''cwd'' v) ''.'') of
                   Inl e \<Rightarrow> (Inl e, ws)
                 | Inr cwd \<Rightarrow> run_child ch lib v (filter_strs args) cwd (invalidate_workspace_size ws))))"

definition exec :: "child_env \<Rightarrow> json_lib \<Rightarrow> bool \<Rightarrow> json \<Rightarrow> workspace \<Rightarrow> (string + json) \<times> workspace" where
  "exec ch lib cancelled v ws =
     (case exec_inner ch lib cancelled v ws of (r, ws1) \<Rightarrow> (r, invalidate_workspace_size ws1))"

section \<open>File requests\<close>

definition ws_read :: "os_env \<Rightarrow> json \<Rightarrow> workspace \<Rightarrow> string + json" where
  "ws_read os v ws =
     res_bind (ok_or (jget ''args'' v) ''args is required'') (\<lambda>a.
     res_bind (ok_or (str_field ''path'' a) ''path is required'') (\<lambda>p.
     res_bind (filesystem_read_offset os ws p (or_else (u64_field ''max_bytes'' a) FILE_RPC_MAX_BYTES)
                 (or_else (u64_field ''offset'' a) 0)) (\<lambda>(data, truncated, size).
       Inr (JObject [(''data'', byte_array data), (''truncated'', JBool truncated), (''total_bytes'', JNumber (int size))]))))"

definition write_args :: "json \<Rightarrow> string + string \<times> bool \<times> bytes \<times> nat option" where
  "write_args v =
     res_bind (ok_or (jget ''args'' v) ''args is required'') (\<lambda>a.
     res_bind (ok_or (str_field ''path'' a) ''path is required'') (\<lambda>p.
       let app = or_else (Option.bind (jget ''append'' a) as_bool) False in
       if (case jget ''append'' a of Some x \<Rightarrow> x \<noteq> JNull \<and> as_bool x = None | None \<Rightarrow> False)
       then Inl ''append must be a boolean''
       else
         res_bind (ok_or (Option.bind (jget ''data'' a) as_array) ''data is required'') (\<lambda>items.
         res_bind (ok_or (collect byte_of_json items) ''data must be bytes in 0..=255'') (\<lambda>data.
           Inr (p, app, data, u64_field ''mode'' a)))))"

definition ws_write :: "os_env \<Rightarrow> json \<Rightarrow> workspace \<Rightarrow> (string + json) \<times> workspace" where
  "ws_write os v ws =
     (case write_args v of
        Inl e \<Rightarrow> (Inl e, ws)
      | Inr (p, app, data, mode) \<Rightarrow>
          (case filesystem_write os \<lparr>fwr_request_id = ''fs'', fwr_path = p, fwr_content = data, fwr_append = app\<rparr> ws of
             (Inl e, ws1) \<Rightarrow> (Inl e, ws1)
           | (Inr _, ws1) \<Rightarrow>
              (let reply = JObject [(''bytes_written'', JNumber (int (length data)))] in
               case mode of
                 None \<Rightarrow> (Inr reply, ws1)
               | Some m \<Rightarrow>
                   (case resolve_workspace ws1 p of
                      Inl e \<Rightarrow> (Inl e, ws1)
                    | Inr q \<Rightarrow>
                       (case set_permissions (m mod 2 ^ 32) q (ws_fs ws1) of
                          (Inl e, fs2) \<Rightarrow> (Inl (os_error os e), ws1\<lparr>ws_fs := fs2\<rparr>)
                        | (Inr _, fs2) \<Rightarrow> (Inr reply, ws1\<lparr>ws_fs := fs2\<rparr>))))))"

definition args_root :: "json \<Rightarrow> workspace \<Rightarrow> string + json \<times> path" where
  "args_root v ws =
     res_bind (ok_or (jget ''args'' v) ''args is required'') (\<lambda>a.
     res_bind (resolve_workspace ws (or_else (str_field ''path'' a) ''.'')) (\<lambda>p. Inr (a, p)))"

definition max_results :: "json \<Rightarrow> nat" where
  "max_results a = or_else (u64_field ''max_results'' a) 100"

definition dir_entry :: "os_env \<Rightarrow> string \<times> node \<Rightarrow> json" where
  "dir_entry os e =
     JObject [(''name'', JString (lossy (fst e))), (''is_dir'', JBool (is_dir (snd e))),
       (''size'', JNumber (int (node_len (os_dir_len os) (snd e))))]"

fun list_loop :: "os_env \<Rightarrow> nat \<Rightarrow> (string \<times> node) list \<Rightarrow> json list \<Rightarrow> json list \<times> bool" where
  "list_loop os mx [] entries = (entries, False)"
| "list_loop os mx (e # es) entries =
     (if mx \<le> length entries then (entries, True) else list_loop os mx es (entries @ [dir_entry os e]))"

definition ws_list :: "os_env \<Rightarrow> json \<Rightarrow> workspace \<Rightarrow> string + json" where
  "ws_list os v ws =
     res_bind (args_root v ws) (\<lambda>(a, p).
     res_bind (os_result os (read_dir (ws_fs ws) p)) (\<lambda>es.
       case list_loop os (max_results a) es [] of (entries, truncated) \<Rightarrow>
         Inr (JObject [(''entries'', JArray entries), (''truncated'', JBool truncated)])))"

definition ws_find :: "os_env \<Rightarrow> (nat \<Rightarrow> bool) \<Rightarrow> json \<Rightarrow> workspace \<Rightarrow> string + json" where
  "ws_find os cancel v ws =
     res_bind (args_root v ws) (\<lambda>(a, p).
     res_bind (ok_or (str_field ''pattern'' a) ''pattern is required'') (\<lambda>pat.
     res_bind (os_result os (read_dir (ws_fs ws) p)) (\<lambda>es.
     res_bind (bounded_name_walk (glob_matches pat) (max_results a) True cancel [] es 0 []) (\<lambda>(truncated, k, out).
       Inr (JObject [(''matches'', JArray (map JString out)), (''truncated'', JBool truncated)])))))"

section \<open>grep\<close>

definition GREP_FILE_SCAN_CAP :: nat where
  "GREP_FILE_SCAN_CAP = 16 * 1024 * 1024"

fun str_contains :: "string \<Rightarrow> string \<Rightarrow> bool" where
  "str_contains pat [] = (pat = [])"
| "str_contains pat (c # cs) = (starts_with (c # cs) pat \<or> str_contains pat cs)"

definition grep_match :: "string \<Rightarrow> nat \<Rightarrow> string \<Rightarrow> json" where
  "grep_match display i line = JObject [(''path'', JString display), (''line'', JNumber (int i)), (''text'', JString line)]"

text \<open>The lines of one file; the flag says that \<open>mx\<close> matches have been collected.\<close>

fun grep_lines :: "string \<Rightarrow> nat \<Rightarrow> string \<Rightarrow> string list \<Rightarrow> nat \<Rightarrow> json list \<Rightarrow> json list \<times> bool" where
  "grep_lines pat mx display [] i matches = (matches, False)"
| "grep_lines pat mx display (line # lines) i matches =
     (if str_contains pat line
      then (let ms = matches @ [grep_match display i line] in
            if mx \<le> length ms then (ms, True) else grep_lines pat mx display lines (i + 1) ms)
      else grep_lines pat mx display lines (i + 1) matches)"

definition shown_file :: "string \<Rightarrow> path \<Rightarrow> string" where
  "shown_file asked p = (let rel = lossy (join ''/'' p) in if rel = [] then asked else rel)"

definition file_lines :: "bytes \<Rightarrow> string list" where
  "file_lines b = str_lines (str_of_bytes (from_utf8_lossy b))"

definition stack_weight :: "(path \<times> node) list \<Rightarrow> nat" where
  "stack_weight st = sum_list (map (\<lambda>(p, n). 1 + (case n of Dir es \<Rightarrow> entry_count es | _ \<Rightarrow> 0)) st)"

definition push_entries :: "path \<Rightarrow> (string \<times> node) list \<Rightarrow> (path \<times> node) list \<Rightarrow> (path \<times> node) list" where
  "push_entries p es st = rev (map (\<lambda>(c, n). (p @ [c], n)) es) @ st"

lemma stack_weight_simps [simp]:
  "stack_weight [] = 0"
  "stack_weight ((p, n) # st) = Suc (case n of Dir es \<Rightarrow> entry_count es | _ \<Rightarrow> 0) + stack_weight st"
  by (simp_all add: stack_weight_def)

lemma stack_weight_push [simp]: "stack_weight (push_entries p es st) = entry_count es + stack_weight st"
proof -
  have "sum_list (map (\<lambda>(q, n). 1 + (case n of Dir es \<Rightarrow> entry_count es | _ \<Rightarrow> 0)) (map (\<lambda>(c, n). (p @ [c], n)) es))
      = entry_count es"
    by (induction es) auto
  then show ?thesis by (simp add: push_entries_def stack_weight_def rev_map [symmetric])
qed

function grep_loop ::
  "(nat \<Rightarrow> bool) \<Rightarrow> string \<Rightarrow> nat \<Rightarrow> nat \<Rightarrow> string \<Rightarrow> (path \<times> node) list \<Rightarrow> path list \<Rightarrow> nat \<Rightarrow> nat
     \<Rightarrow> json list \<Rightarrow> bool \<Rightarrow> string + json list \<times> bool" where
  "grep_loop cancel pat mx maxb asked [] visited k scanned matches truncated = Inr (matches, truncated)"
| "grep_loop cancel pat mx maxb asked ((p, n) # st) visited k scanned matches truncated =
     (if cancel k then Inl ''request cancelled''
      else (case n of
          Link t \<Rightarrow> grep_loop cancel pat mx maxb asked st visited (k + 1) scanned matches truncated
        | Dir es \<Rightarrow>
            if p \<in> set visited then grep_loop cancel pat mx maxb asked st visited (k + 1) scanned matches truncated
            else grep_loop cancel pat mx maxb asked (push_entries p es st) (p # visited) (k + 1) scanned matches truncated
        | File b m \<Rightarrow>
            if maxb \<le> scanned then Inr (matches, True)
            else if GREP_FILE_SCAN_CAP < length b
            then grep_loop cancel pat mx maxb asked st visited (k + 1) scanned matches truncated
            else
              (let tr = (truncated \<or> maxb < scanned + length b) in
               case grep_lines pat mx (shown_file asked p) (file_lines b) 1 matches of
                 (ms, True) \<Rightarrow> Inr (ms, tr)
               | (ms, False) \<Rightarrow> grep_loop cancel pat mx maxb asked st visited (k + 1) (scanned + length b) ms tr)))"
  by pat_completeness auto
termination
  by (relation "measure (\<lambda>(cancel, pat, mx, maxb, asked, st, visited, k, scanned, matches, truncated). stack_weight st)") auto

text \<open>\<^verbatim>\<open>fs::symlink_metadata\<close>: the object itself, also when it is a link.\<close>

definition lstat :: "node \<Rightarrow> path \<Rightarrow> node option" where
  "lstat fs p =
     (if normals p = [] then Some fs
      else (case resolve_parent fs p of Inr (q, c) \<Rightarrow> lookup fs (q @ [c]) | Inl _ \<Rightarrow> None))"

definition ws_grep :: "(nat \<Rightarrow> bool) \<Rightarrow> json \<Rightarrow> workspace \<Rightarrow> string + json" where
  "ws_grep cancel v ws =
     res_bind (args_root v ws) (\<lambda>(a, p).
     res_bind (ok_or (str_field ''pattern'' a) ''pattern is required'') (\<lambda>pat.
     res_bind (grep_loop cancel pat (max_results a) (or_else (u64_field ''max_bytes'' a) (2 ^ 32 - 1))
                 (or_else (str_field ''path'' a) ''.'')
                 (case lstat (ws_fs ws) p of Some n \<Rightarrow> [([], n)] | None \<Rightarrow> []) [] 0 0 [] False) (\<lambda>(matches, truncated).
       Inr (JObject [(''matches'', JArray matches), (''truncated'', JBool truncated)]))))"

section \<open>Structured requests\<close>

fun terminal_output :: "json_lib \<Rightarrow> terminal_stream \<Rightarrow> json option \<Rightarrow> guest_event option" where
  "terminal_output lib stream (Some (JString data)) =
     (if data = [] then None
      else Some \<lparr>ge_kind = ''terminal.output'',
        ge_payload = jl_terminal lib \<lparr>te_stream = stream, te_data = data, te_data_bytes = None\<rparr>\<rparr>)"
| "terminal_output lib stream (Some (JArray items)) =
     (if items = [] then None
      else Some \<lparr>ge_kind = ''terminal.output'',
        ge_payload = jl_terminal lib \<lparr>te_stream = stream, te_data = [], te_data_bytes = collect byte_of_json items\<rparr>\<rparr>)"
| "terminal_output lib stream _ = None"

definition known_fields :: "string list" where
  "known_fields = [''op'', ''args'', ''cwd'', ''stdin'', ''stdin_b64'', ''timeout_secs'', ''timeout_ms'']"

text \<open>The operation a request names.\<close>

definition run_op ::
  "os_env \<Rightarrow> child_env \<Rightarrow> json_lib \<Rightarrow> (nat \<Rightarrow> bool) \<Rightarrow> string \<Rightarrow> json \<Rightarrow> workspace \<Rightarrow> (string + json) \<times> workspace" where
  "run_op os ch lib cancel op v ws =
     (if op = ''exec'' then exec ch lib (cancel 0) v ws
      else if op = ''ls'' then (ws_list os v ws, ws)
      else if op = ''find'' then (ws_find os cancel v ws, ws)
      else if op = ''grep'' then (ws_grep cancel v ws, ws)
      else if op = ''read'' then (ws_read os v ws, ws)
      else if op = ''write'' then ws_write os v ws
      else (Inl ''unsupported operation'', ws))"

definition completed_object :: "(string \<times> json) list \<Rightarrow> json" where
  "completed_object m =
     JObject (alist_insert ''stderr'' (JString []) (alist_insert ''stdout'' (JString [])
       (alist_insert ''success'' (JBool True) (alist_insert ''exit_code'' JNull m))))"

definition turn_events :: "json_lib \<Rightarrow> string \<Rightarrow> json \<Rightarrow> string + guest_event list" where
  "turn_events lib op result =
     (let started = \<lparr>ge_kind = ''turn.started'', ge_payload = []\<rparr>;
          terminals = (if op = ''exec''
            then (case terminal_output lib Stdout (jget ''stdout'' result) of Some e \<Rightarrow> [e] | None \<Rightarrow> [])
               @ (case terminal_output lib Stderr (jget ''stderr'' result) of Some e \<Rightarrow> [e] | None \<Rightarrow> []) else [])
      in res_bind (if op = ''exec'' then Inr result
                   else map_sum id completed_object
                     (ok_or (as_object result) ''operation result must be an object'')) (\<lambda>final.
           Inr (started # terminals @ [\<lparr>ge_kind = ''turn.completed'', ge_payload = jl_print lib final\<rparr>])))"

definition structured ::
  "os_env \<Rightarrow> child_env \<Rightarrow> json_lib \<Rightarrow> (nat \<Rightarrow> bool) \<Rightarrow> json \<Rightarrow> workspace
     \<Rightarrow> (string + guest_event list) \<times> workspace" where
  "structured os ch lib cancel v ws =
     (case str_field ''op'' v of
        None \<Rightarrow> (Inl ''request op is required'', ws)
      | Some op \<Rightarrow>
          if (case as_object v of None \<Rightarrow> True | Some m \<Rightarrow> \<exists>k \<in> fst ` set m. k \<notin> set known_fields)
          then (Inl ''unsupported request fields'', ws)
          else (case run_op os ch lib cancel op v ws of
              (Inl e, ws1) \<Rightarrow> (Inl e, ws1)
            | (Inr result, ws1) \<Rightarrow> (turn_events lib op result, ws1)))"

section \<open>The executor\<close>

definition start_turn ::
  "os_env \<Rightarrow> child_env \<Rightarrow> json_lib \<Rightarrow> (nat \<Rightarrow> bool) \<Rightarrow> session_request \<Rightarrow> workspace \<times> flag_heap
     \<Rightarrow> (string + guest_event list) \<times> workspace \<times> flag_heap" where
  "start_turn os ch lib raised request s =
     (case s of (ws, h) \<Rightarrow>
        if ws_active ws \<noteq> None then (Inl ''request already active'', ws, h)
        else (case jl_parse lib (as_bytes (rq_prompt request)) of
            Inl _ \<Rightarrow> (Inl ''prompt must be structured JSON'', ws, h)
          | Inr v \<Rightarrow>
              (case structured os ch lib (\<lambda>k. h (ws_cancel ws) \<or> raised k) v
                      (ws\<lparr>ws_active := Some (rq_session_id request, rq_request_id request)\<rparr>) of
                 (r, ws1) \<Rightarrow> (r, if turn_ended r then ws1\<lparr>ws_active := None\<rparr> else ws1, h))))"

definition ws_cancel_turn ::
  "string \<Rightarrow> string \<Rightarrow> workspace \<times> flag_heap \<Rightarrow> (string + unit) \<times> workspace \<times> flag_heap" where
  "ws_cancel_turn sid rid s =
     (case s of (ws, h) \<Rightarrow>
        (case ws_active ws of
           Some (s1, r1) \<Rightarrow>
             if s1 = sid \<and> r1 = rid then (Inr (), ws\<lparr>ws_active := None\<rparr>, h(ws_cancel ws := True))
             else (Inl ''active request identity mismatch'', ws, h)
         | None \<Rightarrow> (Inl ''request is not active'', ws, h)))"

definition fs_op_name :: "byte \<Rightarrow> string option" where
  "fs_op_name op =
     (if op = 1 then Some ''ls'' else if op = 2 then Some ''find'' else if op = 3 then Some ''grep''
      else if op = 4 then Some ''read'' else if op = 5 then Some ''write'' else None)"

definition strip_envelope :: "json \<Rightarrow> json" where
  "strip_envelope v =
     (case v of
        JObject m \<Rightarrow> JObject (fold alist_remove [''exit_code'', ''success'', ''stdout'', ''stderr'', ''timed_out''] m)
      | _ \<Rightarrow> v)"

definition fs_request :: "string \<Rightarrow> string \<Rightarrow> json \<Rightarrow> json" where
  "fs_request name p args =
     JObject [(''op'', JString name), (''args'', case args of JObject m \<Rightarrow> JObject (alist_insert ''path'' (JString p) m) | _ \<Rightarrow> args)]"

fun completed_payload :: "guest_event list \<Rightarrow> bytes option" where
  "completed_payload [] = None"
| "completed_payload (e # es) = (if ge_kind e = ''turn.completed'' then Some (ge_payload e) else completed_payload es)"

definition ws_filesystem_rpc ::
  "os_env \<Rightarrow> child_env \<Rightarrow> json_lib \<Rightarrow> (nat \<Rightarrow> bool) \<Rightarrow> byte \<Rightarrow> string \<Rightarrow> bytes \<Rightarrow> workspace \<times> flag_heap
     \<Rightarrow> (string + bytes) \<times> workspace \<times> flag_heap" where
  "ws_filesystem_rpc os ch lib raised op p data s =
     (case s of (ws, h) \<Rightarrow>
        (case jl_parse lib data of
           Inl e \<Rightarrow> (Inl (''invalid Fs payload: '' @ e), ws, h)
         | Inr args \<Rightarrow>
             (case fs_op_name op of
                None \<Rightarrow> (Inl ''unsupported Fs opcode'', ws, h)
              | Some name \<Rightarrow>
                  (case structured os ch lib (\<lambda>k. h (ws_cancel ws) \<or> raised k) (fs_request name p args) ws of
                     (Inl e, ws1) \<Rightarrow> (Inl e, ws1, h)
                   | (Inr events, ws1) \<Rightarrow>
                       (res_bind (ok_or (completed_payload events) ''filesystem operation did not complete'') (\<lambda>payload.
                          case jl_parse lib payload of
                            Inl e \<Rightarrow> Inl (''invalid fs turn payload: '' @ e)
                          | Inr v \<Rightarrow> Inr (jl_print lib (strip_envelope v))), ws1, h)))))"

definition workspace_executor ::
  "os_env \<Rightarrow> child_env \<Rightarrow> json_lib \<Rightarrow> (nat \<Rightarrow> bool) \<Rightarrow> workspace guest_executor" where
  "workspace_executor os ch lib raised =
     \<lparr>x_start_turn = start_turn os ch lib raised, x_cancel = ws_cancel_turn,
      x_shutdown = (\<lambda>(ws, h). (Inr (), ws\<lparr>ws_active := None\<rparr>, h)),
      x_read_workspace_file = (\<lambda>request (ws, h). (filesystem_read os ws request, ws, h)),
      x_write_workspace_file = (\<lambda>request (ws, h).
        case filesystem_write os request ws of (r, ws1) \<Rightarrow> (r, ws1, h)),
      x_filesystem_rpc = ws_filesystem_rpc os ch lib raised,
      x_cancel_handle = (\<lambda>ws. Some (ws_cancel ws)),
      x_reset_cancel = (\<lambda>(ws, h). (ws, h(ws_cancel ws := False)))\<rparr>"

section \<open>Between turns the executor is idle\<close>

lemma invalidate_fields [simp]:
  "ws_policy (invalidate_workspace_size ws) = ws_policy ws" "ws_limits (invalidate_workspace_size ws) = ws_limits ws"
  "ws_active (invalidate_workspace_size ws) = ws_active ws" "ws_cancel (invalidate_workspace_size ws) = ws_cancel ws"
  "ws_fs (invalidate_workspace_size ws) = ws_fs ws" "ws_cache (invalidate_workspace_size ws) = None"
  by (simp_all add: invalidate_workspace_size_def)

text \<open>What no operation changes.\<close>

definition same_executor :: "workspace \<Rightarrow> workspace \<Rightarrow> bool" where
  "same_executor ws ws' \<longleftrightarrow> ws_policy ws' = ws_policy ws \<and> ws_limits ws' = ws_limits ws
     \<and> ws_active ws' = ws_active ws \<and> ws_cancel ws' = ws_cancel ws"

lemma same_executor_simps [simp]:
  "same_executor ws ws" "same_executor ws (ws'\<lparr>ws_fs := f\<rparr>) = same_executor ws ws'"
  "same_executor ws (ws'\<lparr>ws_cache := k\<rparr>) = same_executor ws ws'"
  "same_executor ws (invalidate_workspace_size ws') = same_executor ws ws'"
  by (auto simp: same_executor_def)

lemma filesystem_write_same: "same_executor ws (snd (filesystem_write os request ws))"
  by (auto simp: filesystem_write_def Let_def split: sum.splits prod.splits)

lemma ws_write_same: "same_executor ws (snd (ws_write os v ws))"
  using filesystem_write_same [of ws os]
  by (auto simp: ws_write_def Let_def split: sum.splits prod.splits option.splits) (metis snd_conv)+

lemma exec_same: "same_executor ws (snd (exec ch lib cancelled v ws))"
  by (auto simp: exec_def exec_inner_def run_child_def Let_def split: sum.splits prod.splits option.splits if_splits)

lemma structured_same: "same_executor ws (snd (structured os ch lib cancel v ws))"
proof -
  have "same_executor ws (snd (run_op os ch lib cancel op v ws))" for op
    using exec_same [of ws ch lib "cancel 0" v] ws_write_same [of ws os v] by (simp add: run_op_def)
  then show ?thesis by (auto simp: structured_def split: option.splits prod.splits sum.splits) (metis snd_conv)+
qed

text \<open>A turn that does not fail ends with exactly one terminal event, its last.\<close>

lemma turn_events_end:
  assumes "turn_events lib op result = Inr evs"
  shows "\<exists>ms p. evs = ms @ [\<lparr>ge_kind = ''turn.completed'', ge_payload = p\<rparr>] \<and> \<not> list_ex (\<lambda>e. terminal_kind (ge_kind e)) ms"
proof -
  have t: "\<not> terminal_kind (ge_kind e)" if "terminal_output lib st y = Some e" for st y e
    using that by (cases "(lib, st, y)" rule: terminal_output.cases) (auto simp: terminal_kind_def split: if_splits)
  show ?thesis using assms t
    by (fastforce simp: turn_events_def Let_def res_bind_eq_Inr_conv terminal_kind_def split: if_splits option.splits)
qed

lemma structured_ended: "turn_ended (fst (structured os ch lib cancel v ws))"
  by (auto simp: structured_def turn_ended_def terminal_kind_def split: option.splits prod.splits sum.splits dest!: turn_events_end)

lemma start_turn_idle:
  assumes "ws_active ws = None" "start_turn os ch lib raised t (ws, h) = (r, ws', h')"
  shows "ws_active ws' = None \<and> turn_ended r"
proof (cases "jl_parse lib (as_bytes (rq_prompt t))")
  case (Inl e)
  then show ?thesis using assms by (auto simp: start_turn_def turn_ended_def)
next
  case (Inr v)
  let ?s = "structured os ch lib (\<lambda>k. h (ws_cancel ws) \<or> raised k) v (ws\<lparr>ws_active := Some (rq_session_id t, rq_request_id t)\<rparr>)"
  have "turn_ended (fst ?s)" by (rule structured_ended)
  then show ?thesis using assms Inr by (auto simp: start_turn_def split: prod.splits)
qed

lemma rpc_same: "ws_filesystem_rpc os ch lib raised op p d (ws, h) = (r, ws', h') \<Longrightarrow> same_executor ws ws'"
  using structured_same by (auto simp: ws_filesystem_rpc_def split: sum.splits option.splits prod.splits) (metis snd_conv)+

interpretation ws_turns: turn_executor "workspace_executor os ch lib raised" "\<lambda>ws. ws_active ws = None" for os ch lib raised
proof unfold_locales
  show "ws_active e' = None \<and> turn_ended r"
    if "ws_active e = None" "x_start_turn (workspace_executor os ch lib raised) t (e, h) = (r, e', h')" for e t h r e' h'
    using start_turn_idle that by (simp add: workspace_executor_def)
  show "ws_active e' = None"
    if "ws_active e = None" "x_write_workspace_file (workspace_executor os ch lib raised) wr (e, h) = (r, e', h')" for e wr h r e' h'
    using that filesystem_write_same [of e os wr] by (auto simp: workspace_executor_def same_executor_def split: prod.splits)
  show "ws_active e' = None"
    if "ws_active e = None" "x_filesystem_rpc (workspace_executor os ch lib raised) op path d (e, h) = (r, e', h')" for e op path d h r e' h'
    using that rpc_same by (auto simp: workspace_executor_def same_executor_def)
qed (auto simp: workspace_executor_def ws_cancel_turn_def)

section \<open>What grep finds\<close>

lemma str_contains_sublist: "str_contains pat s \<longleftrightarrow> sublist pat s"
proof (induction s)
  case (Cons c cs)
  then show ?case by (simp add: sublist_Cons_right starts_with_def strip_prefix_Some prefix_def)
qed simp

definition file_hits :: "string \<Rightarrow> string \<Rightarrow> nat \<Rightarrow> string list \<Rightarrow> json list" where
  "file_hits pat display i lines =
     map (\<lambda>(k, line). grep_match display k line) (filter (\<lambda>(k, line). sublist pat line) (enumerate i lines))"

text \<open>All matches below an object, in the order of the scan: the last entry of a directory first.\<close>

fun entries_hits :: "string \<Rightarrow> string \<Rightarrow> path \<Rightarrow> (string \<times> node) list \<Rightarrow> json list" where
  "entries_hits pat asked p [] = []"
| "entries_hits pat asked p ((c, n) # es) =
     entries_hits pat asked p es
     @ (case n of
          Dir sub \<Rightarrow> entries_hits pat asked (p @ [c]) sub
        | File b m \<Rightarrow> file_hits pat (shown_file asked (p @ [c])) 1 (file_lines b)
        | Link t \<Rightarrow> [])"

definition node_hits :: "string \<Rightarrow> string \<Rightarrow> path \<Rightarrow> node \<Rightarrow> json list" where
  "node_hits pat asked p n =
     (case n of
        Dir es \<Rightarrow> entries_hits pat asked p es
      | File b m \<Rightarrow> file_hits pat (shown_file asked p) 1 (file_lines b)
      | Link t \<Rightarrow> [])"

text \<open>No name occurs twice in a directory, and no file is too large to be scanned.\<close>

fun scannable_entries :: "(string \<times> node) list \<Rightarrow> bool" where
  "scannable_entries [] = True"
| "scannable_entries ((c, n) # es) \<longleftrightarrow> c \<notin> fst ` set es \<and> scannable_entries es
     \<and> (case n of Dir sub \<Rightarrow> scannable_entries sub | File b m \<Rightarrow> length b \<le> GREP_FILE_SCAN_CAP | Link t \<Rightarrow> True)"

definition scannable :: "node \<Rightarrow> bool" where
  "scannable n = (case n of Dir es \<Rightarrow> scannable_entries es | File b m \<Rightarrow> length b \<le> GREP_FILE_SCAN_CAP | Link t \<Rightarrow> True)"

lemma grep_lines_hits:
  assumes "length matches < max 1 mx"
  shows "grep_lines pat mx display lines i matches =
    (take (max 1 mx) (matches @ file_hits pat display i lines), max 1 mx \<le> length (matches @ file_hits pat display i lines))"
  using assms
proof (induction pat mx display lines i matches rule: grep_lines.induct)
  case (1 pat mx display i matches)
  then show ?case by (auto simp: file_hits_def max_def split: if_splits)
next
  case (2 pat mx display line lines i matches)
  let ?ms = "matches @ [grep_match display i line]"
  show ?case
  proof (cases "sublist pat line")
    case hit: True
    then have h: "matches @ file_hits pat display i (line # lines) = ?ms @ file_hits pat display (i + 1) lines"
      by (simp add: file_hits_def)
    show ?thesis
    proof (cases "mx \<le> length ?ms")
      case True
      then have "max 1 mx = length ?ms" using "2.prems" by auto
      then show ?thesis using hit True unfolding h by (simp add: str_contains_sublist)
    next
      case False
      then have "length ?ms < max 1 mx" by simp
      then show ?thesis using "2.IH"(1) [of ?ms] hit False unfolding h by (simp add: str_contains_sublist)
    qed
  next
    case False
    then have h: "file_hits pat display i (line # lines) = file_hits pat display (i + 1) lines" by (simp add: file_hits_def)
    show ?thesis using "2.IH"(2) "2.prems" False unfolding h by (simp add: str_contains_sublist)
  qed
qed

text \<open>The stack: its paths are not comparable, and none leads to a directory that was visited.\<close>

definition stack_ok :: "path list \<Rightarrow> (path \<times> node) list \<Rightarrow> bool" where
  "stack_ok visited st \<longleftrightarrow> (\<forall>q \<in> fst ` set st. \<forall>v \<in> set visited. \<not> prefix q v)
     \<and> sorted_wrt (\<lambda>a b. fst a \<parallel> fst b) st"

lemma stack_ok_push:
  assumes "stack_ok visited ((p, Dir es) # st)" "scannable_entries es"
  shows "stack_ok (p # visited) (push_entries p es st)"
proof -
  let ?ch = "map (\<lambda>(c, n). (p @ [c], n)) es"
  have dist: "sorted_wrt (\<lambda>a b. fst a \<parallel> fst b) (rev ?ch)"
    using assms(2)
  proof (induction es)
    case (Cons e es)
    have "fst a \<noteq> fst e" if "a \<in> set es" for a using Cons.prems that by (cases e) force
    then have "\<forall>a \<in> set es. fst e \<noteq> fst a" by metis
    then show ?case using Cons by (cases e) (fastforce simp: sorted_wrt_append parallel_def prefix_def)
  qed simp
  have up: "p \<parallel> fst b" if "b \<in> set st" for b using assms(1) that by (simp add: stack_ok_def)
  have child: "p @ [c] \<parallel> fst b" if "b \<in> set st" for c b
    using up [OF that] by (auto simp: parallel_def prefix_snoc dest: append_prefixD)
  have old: "\<not> prefix (p @ [c]) v" if "v \<in> set visited" for c v
    using assms(1) that by (auto simp: stack_ok_def dest: append_prefixD)
  have rest: "\<not> prefix (fst b) v" if "b \<in> set st" "v \<in> set (p # visited)" for b v
    using assms(1) up [OF that(1)] that by (auto simp: stack_ok_def)
  have "\<not> prefix (p @ [c]) p" for c by (auto dest: prefix_length_le)
  then show ?thesis
    using dist child old rest assms(1)
    by (auto simp: stack_ok_def push_entries_def sorted_wrt_append parallel_commute)
qed

definition stack_hits :: "string \<Rightarrow> string \<Rightarrow> (path \<times> node) list \<Rightarrow> json list" where
  "stack_hits pat asked st = concat (map (\<lambda>(p, n). node_hits pat asked p n) st)"

lemma stack_hits_simps [simp]:
  "stack_hits pat asked [] = []"
  "stack_hits pat asked ((p, n) # st) = node_hits pat asked p n @ stack_hits pat asked st"
  by (simp_all add: stack_hits_def)

lemma stack_hits_push: "stack_hits pat asked (push_entries p es st) = entries_hits pat asked p es @ stack_hits pat asked st"
  by (induction es arbitrary: st) (auto simp: push_entries_def stack_hits_def node_hits_def split: node.splits)

definition stack_size :: "(path \<times> node) list \<Rightarrow> nat" where
  "stack_size st = sum_list (map (node_size \<circ> snd) st)"

lemma stack_size_Cons [simp]: "stack_size ((p, n) # st) = node_size n + stack_size st"
  by (simp add: stack_size_def)

lemma stack_size_push [simp]: "stack_size (push_entries p es st) = entries_size es + stack_size st"
  by (induction es arbitrary: st) (auto simp: push_entries_def stack_size_def)

lemma scannable_push:
  "scannable_entries es \<Longrightarrow> list_all (scannable \<circ> snd) st \<Longrightarrow> list_all (scannable \<circ> snd) (push_entries p es st)"
  by (induction es arbitrary: st) (auto simp: push_entries_def scannable_def split: node.splits)

lemma stack_ok_tl: "stack_ok visited (x # st) \<Longrightarrow> stack_ok visited st"
  by (simp add: stack_ok_def)

lemma grep_loop_hits:
  assumes "\<forall>i. k \<le> i \<and> i < k + stack_weight st \<longrightarrow> \<not> cancel i" "stack_ok visited st" "list_all (scannable \<circ> snd) st"
    "scanned + stack_size st < maxb" "length matches < max 1 mx"
  shows "grep_loop cancel pat mx maxb asked st visited k scanned matches tr
    = Inr (take (max 1 mx) (matches @ stack_hits pat asked st), tr)"
  using assms
proof (induction cancel pat mx maxb asked st visited k scanned matches tr rule: grep_loop.induct)
  case (1 cancel pat mx maxb asked visited k scanned matches tr)
  then show ?case by simp
next
  case (2 cancel pat mx maxb asked p n st visited k scanned matches tr)
  have live: "\<not> cancel k" "\<forall>i. k + 1 \<le> i \<and> i < k + 1 + stack_weight st \<longrightarrow> \<not> cancel i"
    using "2.prems"(1) by auto
  have ok: "stack_ok visited st" using "2.prems"(2) by (rule stack_ok_tl)
  have sc: "scannable n" "list_all (scannable \<circ> snd) st" using "2.prems"(3) by (auto simp: comp_def)
  show ?case
  proof (cases n)
    case (Link t)
    then show ?thesis using "2.IH"(5) [OF live(1) Link live(2) ok sc(2)] "2.prems"(4,5) live(1)
      by (simp add: node_hits_def)
  next
    case (Dir es)
    have nv: "p \<notin> set visited" using "2.prems"(2) by (auto simp: stack_ok_def)
    have lv: "\<forall>i. k + 1 \<le> i \<and> i < k + 1 + stack_weight (push_entries p es st) \<longrightarrow> \<not> cancel i"
      using "2.prems"(1) Dir by auto
    have es: "scannable_entries es" using sc(1) Dir by (simp add: scannable_def)
    have "scanned + stack_size (push_entries p es st) < maxb" using "2.prems"(4) Dir by simp
    from "2.IH"(4) [OF live(1) Dir nv lv stack_ok_push [OF "2.prems"(2) [unfolded Dir] es] scannable_push [OF es sc(2)] this "2.prems"(5)]
    show ?thesis using Dir nv live(1) by (simp add: stack_hits_push node_hits_def)
  next
    case (File b m)
    let ?hits = "file_hits pat (shown_file asked p) 1 (file_lines b)"
    have sz: "scanned < maxb" "scanned + length b + stack_size st < maxb" "length b \<le> GREP_FILE_SCAN_CAP"
      using "2.prems"(4) sc(1) File by (auto simp: scannable_def)
    have tr: "(tr \<or> maxb < scanned + length b) = tr" using sz(2) by auto
    note g = grep_lines_hits [OF "2.prems"(5), of pat "shown_file asked p" "file_lines b" 1]
    show ?thesis
    proof (cases "max 1 mx \<le> length (matches @ ?hits)")
      case True
      then have "take (max 1 mx) (matches @ stack_hits pat asked ((p, n) # st)) = take (max 1 mx) (matches @ ?hits)"
        using File by (simp add: node_hits_def)
      then show ?thesis using File sz live(1) g True tr by (simp add: Let_def)
    next
      case False
      then have t: "take (max 1 mx) (matches @ ?hits) = matches @ ?hits" "length (matches @ ?hits) < max 1 mx" by auto
      have g': "(matches @ ?hits, False) = grep_lines pat mx (shown_file asked p) (file_lines b) 1 matches"
        using g False t(1) by simp
      have "grep_loop cancel pat mx maxb asked st visited (k + 1) (scanned + length b) (matches @ ?hits) tr
          = Inr (take (max 1 mx) ((matches @ ?hits) @ stack_hits pat asked st), tr)"
        using "2.IH"(2) [OF live(1) File _ _ tr [symmetric] g' refl live(2) ok sc(2) sz(2) t(2)] sz(1,3) by simp
      then show ?thesis using File sz live(1) g' [symmetric] t(1) tr by (simp add: Let_def node_hits_def)
    qed
  qed
qed

section \<open>File requests over the filesystem RPC\<close>

lemma structured_fs_request:
  assumes "fs_op_name op = Some name"
  shows "structured os ch lib cancel (fs_request name p (JObject m)) ws =
    (case run_op os ch lib cancel name (fs_request name p (JObject m)) ws of
       (Inl e, ws1) \<Rightarrow> (Inl e, ws1) | (Inr result, ws1) \<Rightarrow> (turn_events lib name result, ws1))"
  by (simp add: structured_def fs_request_def str_field_def known_fields_def)

lemma completed_payload_events:
  assumes "op \<noteq> ''exec''"
  shows "turn_events lib op (JObject m) = Inr evs \<Longrightarrow> completed_payload evs = Some (jl_print lib (completed_object m))"
  using assms by (auto simp: turn_events_def ok_or_def)

lemma turn_events_object:
  "op \<noteq> ''exec'' \<Longrightarrow> turn_events lib op (JObject m) = Inr [\<lparr>ge_kind = ''turn.started'', ge_payload = []\<rparr>,
     \<lparr>ge_kind = ''turn.completed'', ge_payload = jl_print lib (completed_object m)\<rparr>]"
  by (simp add: turn_events_def ok_or_def)

definition envelope_keys :: "string list" where
  "envelope_keys = [''exit_code'', ''success'', ''stdout'', ''stderr'', ''timed_out'']"

lemma strip_completed:
  assumes "\<forall>k \<in> fst ` set m. k \<notin> set envelope_keys"
  shows "strip_envelope (completed_object m) = JObject m"
proof -
  have "filter (\<lambda>x. fst x \<noteq> ''timed_out'' \<and> fst x \<noteq> ''stderr'' \<and> fst x \<noteq> ''stdout'' \<and> fst x \<noteq> ''success''
      \<and> fst x \<noteq> ''exit_code'') m = m"
    using assms by (intro filter_True) (auto simp: envelope_keys_def)
  then show ?thesis
    by (simp add: strip_envelope_def completed_object_def alist_insert_def alist_remove_def conj_ac)
qed

text \<open>One file request from its bytes to its reply.\<close>

lemma ws_filesystem_rpc_object:
  assumes "jl_parse lib d = Inr (JObject m)" "fs_op_name op = Some name" "name \<noteq> ''exec''"
    "run_op os ch lib (\<lambda>k. h (ws_cancel ws) \<or> raised k) name (fs_request name p (JObject m)) ws = (Inr (JObject out), ws1)"
    "jl_parse lib (jl_print lib (completed_object out)) = Inr (completed_object out)"
    "\<forall>k \<in> fst ` set out. k \<notin> set envelope_keys"
  shows "ws_filesystem_rpc os ch lib raised op p d (ws, h) = (Inr (jl_print lib (JObject out)), ws1, h)"
  using assms(1-5) strip_completed [OF assms(6)]
  by (simp add: ws_filesystem_rpc_def structured_fs_request [OF assms(2)] turn_events_object [OF assms(3)] ok_or_def)

lemma fs_request_fields:
  "jget ''args'' (fs_request name p (JObject m)) = Some (JObject (alist_insert ''path'' (JString p) m))"
  by (simp add: fs_request_def)

lemma file_after_overwrite: "\<not> fwr_append rq \<Longrightarrow> \<exists>m. file_after os rq old = File (fwr_content rq) m"
  by (simp add: file_after_def split: option.split node.split)

text \<open>Reading a file that is there.\<close>

lemma read_existing:
  assumes "link_free_workspace ws" "resolve_workspace ws path = Inr p" "lookup (ws_fs ws) p = Some (File b m)"
    "length b \<le> FILE_RPC_MAX_BYTES"
  shows "filesystem_read_offset os ws path FILE_RPC_MAX_BYTES 0 = Inr (b, False, length b)"
proof -
  have "plain p" using resolve_workspace_below(1) [OF assms(1,2)] .
  then have "open_at (ws_fs ws) p = Inr (File b m)" "read_file (ws_fs ws) p = Inr b"
    using canonicalize_physical [OF assms(3)] assms(3) by (simp_all add: read_file_def open_at_def)
  then show ?thesis using assms(2,4)
    by (simp add: filesystem_read_offset_def os_result_def FILE_RPC_MAX_BYTES_def)
qed

lemma write_resolves_again:
  assumes "link_free_workspace ws" "link_free_workspace ws'" "ws_policy ws' = ws_policy ws" "resolve_workspace ws path = Inr p"
  shows "resolve_workspace ws' path = Inr p"
  using assms safe_join_link_free by (simp add: resolve_workspace_def workspace_path_def link_free_workspace_def)

section \<open>Properties\<close>

text \<open>
  C16. Between turns the guest is ready. In every state that connections, workers and service reach together
  over a workspace executor, whenever the service has its executor, that executor is idle and no session
  is active: a turn whose identity was not used before is spawned, and the executor answers it by
  running its request and never with \<^verbatim>\<open>request already active\<close>.
\<close>

theorem guest_ready_between_turns:
  assumes "(step (workspace_executor os ch lib raised))\<^sup>*\<^sup>* (system_start (with_executor limits ws h)) sys"
    "ws_active ws = None" "rs_executor (sys_service sys) = Some ws1"
  shows "ws_active ws1 = None \<and> rs_active_sessions (sys_service sys) = []
    \<and> (rs_protocol_ready (sys_service sys) \<and> \<not> rs_shutdown (sys_service sys)
        \<and> validate_identity (rq_session_id turn) (rq_request_id turn) = None
        \<and> rs_completed_requests (sys_service sys) (rq_session_id turn, rq_request_id turn) = None
        \<and> (rq_session_id turn, rq_request_id turn) \<notin> set (rs_evicted_requests (sys_service sys))
        \<and> rs_cancelled_sessions (sys_service sys) (rq_session_id turn, rq_request_id turn) = None
        \<and> (rq_session_id turn, rq_request_id turn) \<notin> set (rs_evicted_cancelled (sys_service sys))
       \<longrightarrow> fst (spawn_turn (workspace_executor os ch lib raised) turn (sys_service sys)) = Inr ws1
        \<and> fst (start_turn os ch lib raised turn (ws1, g)) =
            (case jl_parse lib (as_bytes (rq_prompt turn)) of
               Inl _ \<Rightarrow> Inl ''prompt must be structured JSON''
             | Inr v \<Rightarrow> fst (structured os ch lib (\<lambda>k. g (ws_cancel ws1) \<or> raised k) v
                 (ws1\<lparr>ws_active := Some (rq_session_id turn, rq_request_id turn)\<rparr>))))"
proof -
  note r = ws_turns.ready_between_turns [OF assms]
  show ?thesis using r assms(3)
    by (auto simp: spawn_turn_def Let_def start_turn_def workspace_executor_def split: sum.splits prod.splits)
qed

text \<open>
  Commands fail closed. A command whose arguments are malformed, that is cancelled before it starts, that
  asks for no time or whose directory the policy refuses is an error and leaves the files alone, the same
  for a built-in command as for a program; a built-in command never touches the files; a program runs only
  in a directory below the workspace; and whatever happens, the cached size is dropped.
\<close>

theorem commands_fail_closed:
  assumes "link_free_workspace ws" "exec ch lib cancelled v ws = (r, ws')"
  shows "ws_cache ws' = None \<and> same_executor ws ws'
    \<and> (cancelled \<or> u64_field ''timeout_ms'' v = Some 0 \<or> u64_field ''timeout_secs'' v = Some 0
         \<or> \<not> is_ok (resolve_workspace ws (or_else (str_field ''cwd'' v) ''.''))
         \<or> Option.bind (jget ''args'' v) as_array \<in> {None, Some []} \<longrightarrow> \<not> is_ok r \<and> ws_fs ws' = ws_fs ws)
    \<and> (builtin v \<noteq> None \<longrightarrow> ws_fs ws' = ws_fs ws)
    \<and> (ws_fs ws' \<noteq> ws_fs ws \<longrightarrow>
         (\<exists>cwd args. resolve_workspace ws (or_else (str_field ''cwd'' v) ''.'') = Inr cwd \<and> plain cwd \<and> prefix (ws_root ws) cwd
           \<and> ch_spawn_error ch args cwd (ws_fs ws) = None))"
proof -
  have same: "same_executor ws ws'" "ws_cache ws' = None"
    using exec_same [of ws ch lib cancelled v] assms(2) by (auto simp: exec_def split: prod.splits)
  have fs: "ws_fs ws' = ws_fs ws \<or> (\<exists>cwd args. resolve_workspace ws (or_else (str_field ''cwd'' v) ''.'') = Inr cwd
      \<and> builtin v = None \<and> ch_spawn_error ch args cwd (ws_fs ws) = None)"
    using assms(2) by (auto simp: exec_def exec_inner_def run_child_def Let_def split: prod.splits option.splits if_splits sum.splits)
  have guard: "\<not> is_ok r \<and> ws_fs ws' = ws_fs ws"
    if "cancelled \<or> u64_field ''timeout_ms'' v = Some 0 \<or> u64_field ''timeout_secs'' v = Some 0
      \<or> \<not> is_ok (resolve_workspace ws (or_else (str_field ''cwd'' v) ''.''))
      \<or> Option.bind (jget ''args'' v) as_array \<in> {None, Some []}"
    using assms(2) that
    by (cases "resolve_workspace ws (or_else (str_field ''cwd'' v) ''.'')"; cases "validate_builtin_request v")
      (auto simp: exec_def exec_inner_def run_builtin_def split: prod.splits option.splits if_splits)
  have below: "plain cwd \<and> prefix (ws_root ws) cwd" if "resolve_workspace ws q = Inr cwd" for q cwd
    using resolve_workspace_below [OF assms(1) that] by simp
  have away: "\<exists>cwd args. resolve_workspace ws (or_else (str_field ''cwd'' v) ''.'') = Inr cwd \<and> plain cwd \<and> prefix (ws_root ws) cwd
      \<and> ch_spawn_error ch args cwd (ws_fs ws) = None" if "ws_fs ws' \<noteq> ws_fs ws"
    using fs below that by metis
  have bi: "ws_fs ws' = ws_fs ws" if "builtin v \<noteq> None" using fs that by metis
  show ?thesis by (intro conjI impI same guard bi away conjunct1 [OF guard] conjunct2 [OF guard])
qed

text \<open>
  \<^verbatim>\<open>grep\<close> finds the right lines. Over a tree that is scanned completely (no name twice in a directory, no
  file above the per-file cap, fewer bytes than \<open>max_bytes\<close>, no cancellation) the matches are the first
  \<open>max_results\<close>, but at least one, of the lines of the regular files that contain the pattern, with their file
  and line number; symbolic links are not followed. The flag \<open>truncated\<close> is false even when matches were
  left out.
\<close>

theorem grep_finds_first_matches:
  assumes "args_root v ws = Inr (a, p)" "str_field ''pattern'' a = Some pat" "lstat (ws_fs ws) p = Some n"
    "scannable n" "node_size n < or_else (u64_field ''max_bytes'' a) (2 ^ 32 - 1)" "\<forall>i < stack_weight [([], n)]. \<not> cancel i"
  shows "ws_grep cancel v ws = Inr (JObject [(''matches'',
      JArray (take (max 1 (max_results a)) (node_hits pat (or_else (str_field ''path'' a) ''.'') [] n))), (''truncated'', JBool False)])"
proof -
  have "stack_ok [] [([], n)]" "list_all (scannable \<circ> snd) [([], n)]" "0 + stack_size [([], n)] < or_else (u64_field ''max_bytes'' a) (2 ^ 32 - 1)"
    using assms(4,5) by (simp_all add: stack_ok_def stack_size_def)
  from grep_loop_hits [OF _ this, of 0 cancel "[]" "max_results a" pat "or_else (str_field ''path'' a) ''.''" False] assms
  show ?thesis by (simp add: ws_grep_def ok_or_def)
qed

text \<open>
  C25. A file written over the filesystem RPC is read back unchanged. If writing the bytes \<open>content\<close> to a path of
  a workspace without links succeeds, its reply is the number of bytes, exactly that file has changed, and
  a read of the path, whenever the JSON library gives back the values it printed, returns exactly \<open>content\<close>, its
  size, and that nothing was cut.
\<close>

theorem rpc_write_then_read:
  assumes ws: "link_free_workspace ws" "resolve_workspace ws path = Inr p" "tmp_fresh os (ws_fs ws) p"
    and args: "jl_parse lib dw = Inr (JObject [(''data'', byte_array content)])" "jl_parse lib dr = Inr (JObject [])"
    and json: "\<forall>m \<in> {[(''bytes_written'', JNumber (int (length content)))],
        [(''data'', byte_array content), (''truncated'', JBool False), (''total_bytes'', JNumber (int (length content)))]}.
        jl_parse lib (jl_print lib (completed_object m)) = Inr (completed_object m)"
    and w: "ws_filesystem_rpc os ch lib raised 5 path dw (ws, h) = (Inr reply, ws', h')"
  shows "reply = jl_print lib (JObject [(''bytes_written'', JNumber (int (length content)))])
    \<and> leaf (ws_fs ws') = (leaf (ws_fs ws))(p \<mapsto> file_after os
        \<lparr>fwr_request_id = ''fs'', fwr_path = path, fwr_content = content, fwr_append = False\<rparr> (leaf (ws_fs ws) p))
    \<and> ws_filesystem_rpc os ch lib raised' 4 path dr (ws', g) =
        (Inr (jl_print lib (JObject [(''data'', byte_array content), (''truncated'', JBool False),
           (''total_bytes'', JNumber (int (length content)))])), ws', g)"
proof -
  let ?rq = "\<lparr>fwr_request_id = ''fs'', fwr_path = path, fwr_content = content, fwr_append = False\<rparr>"
  let ?m = "[(''data'', byte_array content)]"
  obtain r ws1 where fw: "filesystem_write os ?rq ws = (r, ws1)" by fastforce
  have a: "write_args (fs_request ''write'' path (JObject ?m)) = Inr (path, False, content, None)"
    by (simp add: write_args_def fs_request_fields ok_or_def or_else_def str_field_def u64_field_def byte_array_def
        alist_insert_def alist_remove_def collect_byte_array)
  have op: "run_op os ch lib c ''write'' (fs_request ''write'' path (JObject ?m)) ws =
      (case r of Inl e \<Rightarrow> (Inl e, ws1) | Inr _ \<Rightarrow> (Inr (JObject [(''bytes_written'', JNumber (int (length content)))]), ws1))" for c
    by (simp add: run_op_def ws_write_def a fw split: sum.splits)
  have name: "fs_op_name 5 = Some ''write''" "fs_op_name 4 = Some ''read''" by (simp_all add: fs_op_name_def)
  have ok: "is_ok r"
  proof (rule ccontr)
    assume "\<not> is_ok r"
    then obtain e where "r = Inl e" by (cases r) auto
    then show False using w args(1) by (simp add: ws_filesystem_rpc_def name structured_fs_request [OF name(1)] op)
  qed
  then obtain u where r: "r = Inr u" by (cases r) auto
  have W: "ws_filesystem_rpc os ch lib raised 5 path dw (ws, h)
      = (Inr (jl_print lib (JObject [(''bytes_written'', JNumber (int (length content)))])), ws1, h)"
    by (rule ws_filesystem_rpc_object [OF args(1) name(1)]) (use json r in \<open>simp_all add: op envelope_keys_def\<close>)
  then have eq: "ws' = ws1" "reply = jl_print lib (JObject [(''bytes_written'', JNumber (int (length content)))])" using w by auto
  note keep = write_keeps_workspace [OF ws(1) _ ws(3) fw, simplified, OF ws(2)]
  have lf: "leaf (ws_fs ws1) = (leaf (ws_fs ws))(p \<mapsto> file_after os ?rq (leaf (ws_fs ws) p))" using keep(1) ok by simp
  obtain m where "file_after os ?rq (leaf (ws_fs ws) p) = File content m" using file_after_overwrite [of ?rq os] by auto
  then have "leaf (ws_fs ws1) p = Some (File content m)" unfolding lf by simp
  then have l: "lookup (ws_fs ws1) p = Some (File content m)" by simp
  have "ws_policy ws1 = ws_policy ws" using filesystem_write_same [of ws os ?rq] fw by (simp add: same_executor_def)
  then have rp: "resolve_workspace ws1 path = Inr p" using write_resolves_again ws(1,2) keep(2) by blast
  have "length content \<le> FILE_RPC_MAX_BYTES" using fw r by (auto simp: filesystem_write_def split: if_splits)
  note rd = read_existing [OF keep(2) rp l this]
  have R: "ws_filesystem_rpc os ch lib raised' 4 path dr (ws1, g)
      = (Inr (jl_print lib (JObject [(''data'', byte_array content), (''truncated'', JBool False),
           (''total_bytes'', JNumber (int (length content)))])), ws1, g)"
    by (rule ws_filesystem_rpc_object [OF args(2) name(2)])
      (use json rd in \<open>simp_all add: envelope_keys_def run_op_def ws_read_def fs_request_fields ok_or_def or_else_def
         str_field_def u64_field_def alist_insert_def alist_remove_def\<close>)
  show ?thesis using eq lf R by simp
qed

section \<open>Witnesses\<close>

text \<open>A JSON library that knows the four values of the example, and a child environment without programs.\<close>

definition demo_written :: json where
  "demo_written = completed_object [(''bytes_written'', JNumber 2)]"

definition demo_data :: json where
  "demo_data = completed_object [(''data'', byte_array [5, 6]), (''truncated'', JBool False), (''total_bytes'', JNumber 2)]"

definition demo_lib :: json_lib where
  "demo_lib = \<lparr>
     jl_parse = (\<lambda>d. if d = [1] then Inr (JObject [(''data'', byte_array [5, 6])]) else if d = [2] then Inr (JObject [])
       else if d = [3] then Inr demo_written else if d = [4] then Inr demo_data else Inl ''syntax''),
     jl_print = (\<lambda>v. if v = demo_written then [3] else if v = demo_data then [4] else [0]),
     jl_terminal = (\<lambda>_. []), jl_base64 = (\<lambda>_. Inl ''base64'')\<rparr>"

definition demo_child :: child_env where
  "demo_child = \<lparr>ch_reachable = (\<lambda>_. False), ch_spawn_error = (\<lambda>_ _ _. Some ''not found''), ch_killed = (\<lambda>_ _ fs. fs),
     ch_run = (\<lambda>_ _ _ _ fs. (([], []), fs))\<rparr>"

theorem guest_ready_between_turns_witness:
  "ws_active demo_ws = None \<and> rs_active_sessions (sys_service (system_start (with_executor (ws_limits demo_ws) demo_ws (\<lambda>_. False)))) = []"
proof -
  have "rs_executor (sys_service (system_start (with_executor (ws_limits demo_ws) demo_ws (\<lambda>_. False)))) = Some demo_ws" "ws_active demo_ws = None"
    by (simp_all add: system_start_def with_executor_def demo_ws_def)
  from guest_ready_between_turns [OF rtranclp.rtrancl_refl this(2,1)] show ?thesis by simp
qed

theorem commands_fail_closed_witness:
  "\<not> is_ok (fst (exec demo_child demo_lib True (JObject [(''args'', JArray [JString ''ls''])]) demo_ws))
   \<and> ws_fs (snd (exec demo_child demo_lib True (JObject [(''args'', JArray [JString ''ls''])]) demo_ws)) = plain_tree"
proof -
  let ?e = "exec demo_child demo_lib True (JObject [(''args'', JArray [JString ''ls''])]) demo_ws"
  have "\<not> is_ok (fst ?e) \<and> ws_fs (snd ?e) = ws_fs demo_ws"
    using commands_fail_closed [OF demo_ws_ok(1) prod.collapse [symmetric], of demo_child demo_lib True "JObject [(''args'', JArray [JString ''ls''])]"] by blast
  then show ?thesis by (simp add: demo_ws_def)
qed

definition demo_overwrite :: file_write_request where
  "demo_overwrite = \<lparr>fwr_request_id = ''fs'', fwr_path = ''f'', fwr_content = [5, 6], fwr_append = False\<rparr>"

lemma demo_overwrite_ok: "\<exists>ws'. filesystem_write demo_os demo_overwrite demo_ws = (Inr (), ws')"
proof -
  have u: "used_bytes demo_os demo_ws = Inr 1"
    by (simp add: used_bytes_def workspace_size_def read_dir_def open_at_def canonicalize_def demo_ws_def plain_tree_def sat_add_def)
  have m: "make_parents [''ws'', ''f''] plain_tree = (Inr (), plain_tree)"
    by (simp add: make_parents_def parent_def normals_def trim_dots_def create_dir_all.simps mkdir_def resolve_parent_def
        file_name_def path_is_dir_def open_at_def canonicalize_def plain_tree_def)
  have pl: "plain [''ws'', ''f'']" "has_parent plain_tree [''ws'', ''f'']" by (simp_all add: has_parent_def plain_tree_def)
  have c: "\<exists>fs2. write_content demo_os demo_overwrite [''ws'', ''f''] plain_tree = (Inr (), fs2)"
    using write_atomic_plain [OF pl demo_ws_ok(3)] by (simp add: write_content_def demo_overwrite_def) (simp add: plain_tree_def)
  have p: "projected_bytes demo_os demo_overwrite plain_tree [''ws'', ''f''] 1 \<le> 3"
    by (simp add: projected_bytes_def demo_overwrite_def sat_add_def)
  have d: "ws_fs demo_ws = plain_tree" "max_workspace_bytes (ws_limits demo_ws) = 100" "fwr_path demo_overwrite = ''f''"
    "length (fwr_content demo_overwrite) = 2" by (simp_all add: demo_ws_def demo_overwrite_def)
  show ?thesis using c p by (auto simp: filesystem_write_def Let_def u m d demo_ws_ok FILE_RPC_MAX_BYTES_def)
qed

theorem rpc_write_then_read_witness:
  "\<exists>reply ws' h'. ws_filesystem_rpc demo_os demo_child demo_lib (\<lambda>_. False) 5 ''f'' [1] (demo_ws, \<lambda>_. False) = (Inr reply, ws', h')
     \<and> is_ok (fst (ws_filesystem_rpc demo_os demo_child demo_lib (\<lambda>_. False) 4 ''f'' [2] (ws', \<lambda>_. False)))"
proof -
  let ?m = "[(''data'', byte_array [5, 6])]" and ?out = "[(''bytes_written'', JNumber (int (length [5 :: byte, 6])))]"
  let ?rd = "[(''data'', byte_array [5, 6]), (''truncated'', JBool False), (''total_bytes'', JNumber (int (length [5 :: byte, 6])))]"
  obtain ws1 where w: "filesystem_write demo_os demo_overwrite demo_ws = (Inr (), ws1)" using demo_overwrite_ok by blast
  have args: "jl_parse demo_lib [1] = Inr (JObject ?m)" "jl_parse demo_lib [2] = Inr (JObject [])" by (simp_all add: demo_lib_def)
  have ne: "demo_written \<noteq> demo_data" by (simp add: demo_written_def demo_data_def completed_object_def alist_insert_def alist_remove_def)
  have e: "completed_object ?out = demo_written" "completed_object ?rd = demo_data" by (simp_all add: demo_written_def demo_data_def)
  have json: "\<forall>m \<in> {?out, ?rd}. jl_parse demo_lib (jl_print demo_lib (completed_object m)) = Inr (completed_object m)"
    using ne e by (simp add: demo_lib_def)
  have a: "write_args (fs_request ''write'' ''f'' (JObject ?m)) = Inr (''f'', False, [5, 6], None)"
    using collect_byte_array [of "[5, 6]"]
    by (simp add: write_args_def fs_request_fields ok_or_def or_else_def str_field_def u64_field_def byte_array_def
        alist_insert_def alist_remove_def)
  have W: "ws_filesystem_rpc demo_os demo_child demo_lib (\<lambda>_. False) 5 ''f'' [1] (demo_ws, \<lambda>_. False)
      = (Inr (jl_print demo_lib (JObject ?out)), ws1, \<lambda>_. False)"
    by (rule ws_filesystem_rpc_object [OF args(1), of _ "''write''"])
      (use json w in \<open>simp_all add: fs_op_name_def run_op_def ws_write_def a demo_overwrite_def envelope_keys_def\<close>)
  from rpc_write_then_read [OF demo_ws_ok(1,2) _ args json W] demo_ws_ok(3)
  show ?thesis using W by (fastforce simp: demo_ws_def)
qed

definition demo_grep :: json where
  "demo_grep = JObject [(''args'', JObject [(''pattern'', JString [CHR 0x01]), (''path'', JString ''f'')])]"

theorem grep_finds_first_matches_witness:
  "ws_grep (\<lambda>_. False) demo_grep demo_ws
   = Inr (JObject [(''matches'', JArray [grep_match ''f'' 1 [CHR 0x01]]), (''truncated'', JBool False)])"
proof -
  let ?a = "JObject [(''pattern'', JString [CHR 0x01]), (''path'', JString ''f'')]" and ?n = "File [1] 420"
  have fl: "file_lines [1] = [[CHR 0x01]]" "shown_file ''f'' [] = ''f''" by code_simp+
  have h: "node_hits [CHR 0x01] ''f'' [] ?n = [grep_match ''f'' 1 [CHR 0x01]]"
    by (simp add: node_hits_def fl file_hits_def)
  have "lstat (ws_fs demo_ws) [''ws'', ''f''] = Some ?n"
    by (simp add: lstat_def demo_ws_def plain_tree_def resolve_parent_def file_name_def parent_def normals_def trim_dots_def
        canonicalize_def)
  moreover have "args_root demo_grep demo_ws = Inr (?a, [''ws'', ''f''])"
    using demo_ws_ok(2) by (simp add: args_root_def demo_grep_def ok_or_def or_else_def str_field_def)
  moreover have "scannable ?n" by (simp add: scannable_def GREP_FILE_SCAN_CAP_def)
  ultimately show ?thesis
    using grep_finds_first_matches [of demo_grep demo_ws ?a "[''ws'', ''f'']" "[CHR 0x01]" ?n "\<lambda>_. False"] h
    by (simp add: str_field_def u64_field_def or_else_def max_results_def)
qed

end
