(* ===== verification/Agent_Lines.thy ===== *)
theory Agent_Lines
  imports Rfb_Json
begin

text \<open>
  Lines, responses and the token gate of the forkd guest agent, \<^verbatim>\<open>rfb-runtime/src/agent/mod.rs\<close>: the bounded
  line reader over a buffered transport, \<^verbatim>\<open>write_json\<close>, \<^verbatim>\<open>constant_time_eq\<close> and \<^verbatim>\<open>authenticate\<close>.

  The transport is the list of what \<^verbatim>\<open>fill_buf\<close> returns; consuming a part of a buffer leaves the rest at the
  front, and the end of the list is the end of the stream. Written lines are collected in order; \<open>werr n\<close> is
  the error of the write after \<open>n\<close> lines, if it fails.
\<close>

section \<open>The line reader\<close>

definition MAX_LINE :: nat where
  "MAX_LINE = 1024 * 1024"

definition MAX_RESPONSE :: nat where
  "MAX_RESPONSE = 1024 * 1024"

datatype fill = FData bytes | FInterrupted | FError string

datatype incoming = Line bytes | Eof | Overflow | Blank

definition position :: "'a \<Rightarrow> 'a list \<Rightarrow> nat option" where
  "position c xs = (if c \<in> set xs then Some (length (takeWhile (\<lambda>x. x \<noteq> c) xs)) else None)"

definition push_back :: "bytes \<Rightarrow> fill list \<Rightarrow> fill list" where
  "push_back b fs = (if b = [] then fs else FData b # fs)"

text \<open>The loop of \<^verbatim>\<open>read_incoming\<close>: whether the line is complete, its bytes, and whether it was too long.\<close>

fun fill_scan :: "bytes \<Rightarrow> bool \<Rightarrow> fill list \<Rightarrow> (string + bool \<times> bytes \<times> bool) \<times> fill list" where
  "fill_scan line over [] = (Inr (line \<noteq> [], line, over), [])"
| "fill_scan line over (FInterrupted # fs) = fill_scan line over fs"
| "fill_scan line over (FError e # fs) = (Inl e, fs)"
| "fill_scan line over (FData available # fs) =
     (if available = [] then (Inr (line \<noteq> [], line, over), FData available # fs)
      else (case position 10 available of
          Some pos \<Rightarrow>
            (if MAX_LINE < length line + (pos + 1) then (Inr (True, line, True), push_back (drop (pos + 1) available) fs)
             else (Inr (True, line @ take (pos + 1) available, over), push_back (drop (pos + 1) available) fs))
        | None \<Rightarrow>
            (let over' = (over \<or> MAX_LINE < length line + length available)
             in fill_scan (if over' then line else line @ available) over' fs)))"

definition strip_eol :: "bytes \<Rightarrow> bytes" where
  "strip_eol line = rev (dropWhile (\<lambda>b. b = 10 \<or> b = 13) (rev line))"

definition read_incoming :: "fill list \<Rightarrow> (string + incoming) \<times> fill list" where
  "read_incoming fs =
     (case fill_scan [] False fs of
        (Inl e, rest) \<Rightarrow> (Inl e, rest)
      | (Inr (complete, line, over), rest) \<Rightarrow>
          (Inr (if over then Overflow else if \<not> complete then Eof
                else if strip_eol line = [] then Blank else Line (strip_eol line)), rest))"

section \<open>Responses and the token gate\<close>

definition json_line :: "json_lib \<Rightarrow> json \<Rightarrow> bytes" where
  "json_line lib v =
     (let text = jl_print lib v
      in (if length text > MAX_RESPONSE then jl_print lib (JObject [(''error'', JString ''response too large'')]) else text) @ [10])"

definition write_json ::
  "json_lib \<Rightarrow> (nat \<Rightarrow> string option) \<Rightarrow> json \<Rightarrow> bytes list \<Rightarrow> (string + unit) \<times> bytes list" where
  "write_json lib werr v out =
     (case werr (length out) of Some e \<Rightarrow> (Inl e, out) | None \<Rightarrow> (Inr (), out @ [json_line lib v]))"

text \<open>The running difference is a 64-bit word, as are the two lengths.\<close>

definition byte_at :: "bytes \<Rightarrow> nat \<Rightarrow> 64 word" where
  "byte_at b i = (if i < length b then ucast (b ! i) else 0)"

definition constant_time_eq :: "bytes \<Rightarrow> bytes \<Rightarrow> bool" where
  "constant_time_eq a b =
     (fold (\<lambda>i diff. or diff (xor (byte_at a i) (byte_at b i))) [0 ..< max (length a) (length b)]
        (xor (word_of_nat (length a)) (word_of_nat (length b))) = 0)"

definition auth_required :: json where
  "auth_required = JObject [(''error'', JString ''authentication required'')]"

text \<open>\<open>timely\<close>: the first line arrives within \<^verbatim>\<open>AUTH_TIMEOUT\<close>.\<close>

definition authenticate ::
  "json_lib \<Rightarrow> (nat \<Rightarrow> string option) \<Rightarrow> bool \<Rightarrow> string \<Rightarrow> fill list \<Rightarrow> bytes list
     \<Rightarrow> (string + bool) \<times> fill list \<times> bytes list" where
  "authenticate lib werr timely expected fs out =
     (case (timely, read_incoming fs) of
        (True, Inr (Line first), rest) \<Rightarrow>
          (let answer = (\<lambda>v ok. case write_json lib werr v out of
                 (Inl e, out1) \<Rightarrow> (Inl e, rest, out1) | (Inr _, out1) \<Rightarrow> (Inr ok, rest, out1))
           in case jl_parse lib first of
                Inl _ \<Rightarrow> answer auth_required False
              | Inr request \<Rightarrow>
                  if str_field ''action'' request \<noteq> Some ''auth'' then answer auth_required False
                  else if constant_time_eq (as_bytes expected) (as_bytes (or_else (str_field ''token'' request) []))
                  then answer (JObject [(''action'', JString ''auth''), (''ok'', JBool True)]) True
                  else answer (JObject [(''action'', JString ''auth''), (''ok'', JBool False),
                         (''error'', JString ''authentication failed'')]) False)
      | (_, _, rest) \<Rightarrow> (Inr False, rest, out))"

section \<open>The reader against a reference on the whole stream\<close>

fun fill_bytes :: "fill list \<Rightarrow> bytes" where
  "fill_bytes [] = []"
| "fill_bytes (FData b # fs) = b @ fill_bytes fs"
| "fill_bytes (_ # fs) = fill_bytes fs"

fun fill_ok :: "fill \<Rightarrow> bool" where
  "fill_ok (FData b) \<longleftrightarrow> b \<noteq> []"
| "fill_ok FInterrupted \<longleftrightarrow> True"
| "fill_ok (FError e) \<longleftrightarrow> False"

text \<open>The first line of a stream with its terminator, and what it counts as.\<close>

definition first_line :: "bytes \<Rightarrow> bytes" where
  "first_line bs = (if 10 \<in> set bs then takeWhile (\<lambda>b. b \<noteq> 10) bs @ [10] else bs)"

definition classify :: "bytes \<Rightarrow> incoming" where
  "classify l =
     (if MAX_LINE < length l then Overflow else if l = [] then Eof
      else if strip_eol l = [] then Blank else Line (strip_eol l))"

lemma push_back_simps [simp]: "fill_bytes (push_back b fs) = b @ fill_bytes fs"
  "list_all fill_ok (push_back b fs) = list_all fill_ok fs"
  by (simp_all add: push_back_def)

lemma position_cut:
  assumes "position c xs = Some pos"
  shows "c \<in> set xs" "take (pos + 1) xs = takeWhile (\<lambda>x. x \<noteq> c) xs @ [c]" "pos < length xs"
proof -
  let ?t = "takeWhile (\<lambda>x. x \<noteq> c) xs"
  from assms show c: "c \<in> set xs" by (simp add: position_def split: if_splits)
  have pos: "pos = length ?t" using assms c by (simp add: position_def)
  have ne: "dropWhile (\<lambda>x. x \<noteq> c) xs \<noteq> []" using c by (auto simp: dropWhile_eq_Nil_conv)
  have hd: "hd (dropWhile (\<lambda>x. x \<noteq> c) xs) = c" using hd_dropWhile [OF ne] by simp
  have xs: "xs = ?t @ c # tl (dropWhile (\<lambda>x. x \<noteq> c) xs)" using ne hd by (metis takeWhile_dropWhile_id list.collapse)
  show "take (pos + 1) xs = ?t @ [c]" unfolding pos by (subst (2) xs) simp
  show "pos < length xs" unfolding pos by (subst (2) xs) simp
qed

lemma first_line_append:
  "first_line (xs @ ys) = (if 10 \<in> set xs then first_line xs else xs @ first_line ys)"
proof -
  have "takeWhile (\<lambda>b. b \<noteq> 10) (xs @ ys) = xs @ takeWhile (\<lambda>b. b \<noteq> 10) ys" if "10 \<notin> set xs"
    using that by (intro takeWhile_append2) auto
  moreover have "takeWhile (\<lambda>b. b \<noteq> 10) (xs @ ys) = takeWhile (\<lambda>b. b \<noteq> 10) xs" if "10 \<in> set xs"
    using that by (intro takeWhile_append1) auto
  ultimately show ?thesis by (simp add: first_line_def)
qed

lemma fill_scan_spec:
  assumes "list_all fill_ok fs" and "over \<or> length line \<le> MAX_LINE"
  shows "\<exists>complete l over' rest. fill_scan line over fs = (Inr (complete, l, over'), rest)
    \<and> over' = (over \<or> MAX_LINE < length line + length (first_line (fill_bytes fs)))
    \<and> (\<not> over' \<longrightarrow> l = line @ first_line (fill_bytes fs) \<and> complete = (l \<noteq> []))
    \<and> fill_bytes rest = drop (length (first_line (fill_bytes fs))) (fill_bytes fs) \<and> list_all fill_ok rest"
  using assms
proof (induction line over fs rule: fill_scan.induct)
  case (1 line over)
  then show ?case by (auto simp: first_line_def not_less)
next
  case (4 line over available fs)
  then have ne: "available \<noteq> []" and ok: "list_all fill_ok fs" by auto
  show ?case
  proof (cases "position 10 available")
    case (Some pos)
    note cut = position_cut [OF Some]
    have fl: "first_line (fill_bytes (FData available # fs)) = take (pos + 1) available"
      using cut by (simp add: first_line_append) (simp add: first_line_def)
    have len: "length (take (pos + 1) available) = pos + 1" using cut(3) by simp
    show ?thesis
    proof (cases "MAX_LINE < length line + (pos + 1)")
      case True
      then show ?thesis using Some ne ok cut(3) unfolding fl len by auto
    next
      case False
      then show ?thesis using Some ne ok cut(3) unfolding fl len by (auto simp: Suc_le_eq)
    qed
  next
    case None
    then have no: "10 \<notin> set available" by (simp add: position_def split: if_splits)
    let ?o = "over \<or> MAX_LINE < length line + length available"
    have fl: "first_line (fill_bytes (FData available # fs)) = available @ first_line (fill_bytes fs)"
      using no by (simp add: first_line_append)
    have pr: "?o \<or> length (if ?o then line else line @ available) \<le> MAX_LINE" by auto
    obtain complete l over' rest where r: "fill_scan (if ?o then line else line @ available) ?o fs = (Inr (complete, l, over'), rest)"
      "over' = (?o \<or> MAX_LINE < length (if ?o then line else line @ available) + length (first_line (fill_bytes fs)))"
      "\<not> over' \<longrightarrow> l = (if ?o then line else line @ available) @ first_line (fill_bytes fs) \<and> complete = (l \<noteq> [])"
      "fill_bytes rest = drop (length (first_line (fill_bytes fs))) (fill_bytes fs)" "list_all fill_ok rest"
      using 4(1) [OF ne None refl ok pr] by blast
    have step: "fill_scan line over (FData available # fs) = (Inr (complete, l, over'), rest)"
      using ne None r(1) by (simp add: Let_def)
    show ?thesis unfolding step fl using r(2-5) by auto
  qed
qed auto

lemma read_incoming_spec:
  assumes "list_all fill_ok fs"
  shows "\<exists>rest. read_incoming fs = (Inr (classify (first_line (fill_bytes fs))), rest)
    \<and> fill_bytes rest = drop (length (first_line (fill_bytes fs))) (fill_bytes fs) \<and> list_all fill_ok rest"
proof -
  obtain complete l over' rest where r: "fill_scan [] False fs = (Inr (complete, l, over'), rest)"
    "over' = (MAX_LINE < length (first_line (fill_bytes fs)))"
    "\<not> over' \<longrightarrow> l = first_line (fill_bytes fs) \<and> complete = (l \<noteq> [])"
    "fill_bytes rest = drop (length (first_line (fill_bytes fs))) (fill_bytes fs)" "list_all fill_ok rest"
    using fill_scan_spec [OF assms, of False "[]"] by auto
  then show ?thesis by (auto simp: read_incoming_def classify_def)
qed

section \<open>Comparing tokens\<close>

lemma or_fold_zero:
  "fold (\<lambda>i diff. or diff (g i)) xs (d :: 64 word) = 0 \<longleftrightarrow> d = 0 \<and> (\<forall>i \<in> set xs. g i = 0)"
  by (induction xs arbitrary: d) (auto simp: or_eq_0_iff)

lemma xor_zero_eq: "xor a b = 0 \<longleftrightarrow> a = (b :: 64 word)"
  by (auto simp: bit_eq_iff bit_xor_iff)

lemma constant_time_eq_iff:
  assumes "length a < 2 ^ 64" "length b < 2 ^ 64"
  shows "constant_time_eq a b \<longleftrightarrow> a = b"
proof -
  have len: "(word_of_nat (length a) :: 64 word) = word_of_nat (length b) \<longleftrightarrow> length a = length b"
    using assms by (auto dest!: arg_cong [of _ _ unat] simp: unat_of_nat take_bit_nat_eq_self)
  have at: "byte_at a i = byte_at b i \<longleftrightarrow> a ! i = b ! i" if "i < length a" "length a = length b" for i
  proof -
    have "ucast (a ! i) = (ucast (b ! i) :: 64 word) \<longleftrightarrow> a ! i = b ! i"
      by (auto dest!: arg_cong [of _ _ unat] simp: unsigned_ucast_eq take_bit_nat_eq_self unat_lt2p [THEN less_le_trans] intro: word_unat_eq_iff [THEN iffD2])
    then show ?thesis using that by (simp add: byte_at_def)
  qed
  have "constant_time_eq a b \<longleftrightarrow> length a = length b \<and> (\<forall>i < max (length a) (length b). byte_at a i = byte_at b i)"
    by (simp add: constant_time_eq_def or_fold_zero xor_zero_eq len atLeast0LessThan lessThan_iff Ball_def)
  also have "\<dots> \<longleftrightarrow> a = b" using at by (auto simp: list_eq_iff_nth_eq)
  finally show ?thesis .
qed

end
