(* ===== verification/Agent_Exec.thy ===== *)
theory Agent_Exec
  imports Agent_Lines Workspace_Files
begin

text \<open>
  Commands of the forkd guest agent, \<^verbatim>\<open>rfb-runtime/src/agent/process_exec.rs\<close> and \<^verbatim>\<open>agent/builtin.rs\<close>: building a
  command, its deadline, bounded capture, the result on the wire and its fitting into the response limit.

  What happens to a spawned child is a parameter: it can end with the chunks read from its pipes and its
  exit code, fail with an I/O error, or outlive the deadline. The blocking pool's join error, which stands
  for a panic of a built-in command, does not occur.
\<close>

section \<open>Building a command\<close>

record command =
  cmd_args :: "string list"
  cmd_cwd :: path
  cmd_unset :: "string list"
  cmd_env :: "(string \<times> string) list"

datatype child_wait = WTimeout | WFailed string | WExited "bytes list" "bytes list" "int option"

record agent_env =
  ag_root :: path
  ag_pid :: nat
  ag_environment :: "string option"
  ag_os :: os_env
  ag_reachable :: "string \<Rightarrow> bool"
  ag_spawn_error :: "command \<Rightarrow> node \<Rightarrow> string option"
  ag_wait :: "command \<Rightarrow> nat \<Rightarrow> node \<Rightarrow> child_wait \<times> node"

definition path_error :: "os_env \<Rightarrow> guest_path_error \<Rightarrow> string" where
  "path_error os e = (case e of Invalid s \<Rightarrow> s | Denied s \<Rightarrow> s | Os n \<Rightarrow> os_error os n)"

definition agent_path :: "agent_env \<Rightarrow> node \<Rightarrow> json option \<Rightarrow> string + path" where
  "agent_path ag fs v = map_sum (path_error (ag_os ag)) id (guest_path fs (ag_root ag) v)"

definition env_pair :: "string \<times> json \<Rightarrow> (string \<times> string) option" where
  "env_pair kv = map_option (Pair (fst kv)) (as_str (snd kv))"

definition command_from :: "agent_env \<Rightarrow> node \<Rightarrow> json \<Rightarrow> string + command" where
  "command_from ag fs request =
     res_bind (ok_or (Option.bind (jget ''args'' request) as_array) ''args must be an array'') (\<lambda>args.
     res_bind (ok_or (collect as_str args) ''args must be strings'') (\<lambda>strings.
     if strings = [] then Inl ''args must not be empty''
     else
       res_bind (agent_path ag fs (jget ''cwd'' request)) (\<lambda>cwd.
       case jget ''env'' request of
         None \<Rightarrow> Inr \<lparr>cmd_args = strings, cmd_cwd = cwd, cmd_unset = [''FORKD_AGENT_TOKEN''], cmd_env = []\<rparr>
       | Some env \<Rightarrow>
           res_bind (ok_or (as_object env) ''env must be an object'') (\<lambda>m.
           res_bind (ok_or (collect env_pair m) ''env values must be strings'') (\<lambda>vars.
             Inr \<lparr>cmd_args = strings, cmd_cwd = cwd, cmd_unset = [''FORKD_AGENT_TOKEN''], cmd_env = vars\<rparr>)))))"

text \<open>
  The environment a spawned child sees: what it inherits from the agent without the removed variables, and
  over it what the request sets (\<^verbatim>\<open>env_remove\<close> and \<^verbatim>\<open>envs\<close> of \<^verbatim>\<open>std::process::Command\<close>).
\<close>

definition child_env :: "(string \<rightharpoonup> string) \<Rightarrow> command \<Rightarrow> (string \<rightharpoonup> string)" where
  "child_env inherited c = (inherited |` (- set (cmd_unset c))) ++ map_of (cmd_env c)"

text \<open>\<^verbatim>\<open>agent/builtin.rs\<close>: the shared checks, and the path policy when a directory is named.\<close>

definition agent_validate_builtin :: "agent_env \<Rightarrow> node \<Rightarrow> json \<Rightarrow> string + unit" where
  "agent_validate_builtin ag fs request =
     res_bind (validate_builtin_request request) (\<lambda>_.
       case jget ''cwd'' request of
         None \<Rightarrow> Inr ()
       | Some cwd \<Rightarrow> map_sum id (\<lambda>_. ()) (agent_path ag fs (Some cwd)))"

section \<open>Execution\<close>

definition DEFAULT_EXEC_TIMEOUT :: nat where
  "DEFAULT_EXEC_TIMEOUT = 30"

definition MAX_EXEC_STREAM_BYTES :: nat where
  "MAX_EXEC_STREAM_BYTES = 128 * 1024"

text \<open>Seconds.\<close>

definition effective_exec_timeout :: "json \<Rightarrow> nat" where
  "effective_exec_timeout request = or_else (u64_field ''timeout'' request) DEFAULT_EXEC_TIMEOUT"

text \<open>\<^verbatim>\<open>read_bounded\<close> over the chunks read until the end of the stream.\<close>

fun read_bounded :: "nat \<Rightarrow> bytes list \<Rightarrow> bytes \<times> bool \<Rightarrow> bytes \<times> bool" where
  "read_bounded limit [] st = st"
| "read_bounded limit (chunk # chunks) (data, truncated) =
     (if length data < limit
      then (let n = min (limit - length data) (length chunk)
            in read_bounded limit chunks (data @ take n chunk, truncated \<or> n < length chunk))
      else read_bounded limit chunks (data, True))"

definition bytes_to_wire :: "bytes \<Rightarrow> json" where
  "bytes_to_wire data = (if utf8_valid data then JString (str_of_bytes data) else byte_array data)"

text \<open>\<^verbatim>\<open>is_char_boundary\<close> and the loop that moves a cut back to one.\<close>

definition char_boundary :: "string \<Rightarrow> nat \<Rightarrow> bool" where
  "char_boundary s i \<longleftrightarrow> i = 0 \<or> i = length s \<or> (i < length s \<and> \<not> is_cont (as_bytes s ! i))"

fun cut_back :: "string \<Rightarrow> nat \<Rightarrow> nat" where
  "cut_back s 0 = 0"
| "cut_back s (Suc i) = (if char_boundary s (Suc i) then Suc i else cut_back s i)"

definition BUDGET :: nat where
  "BUDGET = 1024 * 1024 - 256"

fun halve :: "json \<Rightarrow> json option" where
  "halve (JArray items) = Some (JArray (take (length items div 2) items))"
| "halve (JString s) = Some (JString (take (cut_back s (length s div 2)) s))"
| "halve _ = None"

definition shrink_keys :: "string list" where
  "shrink_keys = [''out'', ''stdout'', ''err'', ''stderr'']"

text \<open>One round: halve the output fields, and set the flag if there was one.\<close>

definition shrink_field :: "string \<Rightarrow> json \<times> bool \<Rightarrow> json \<times> bool" where
  "shrink_field k st =
     (case st of (v, changed) \<Rightarrow>
        (case Option.bind (jget k v) halve of Some w \<Rightarrow> (jset k w v, True) | None \<Rightarrow> (v, changed)))"

definition shrink_round :: "json \<Rightarrow> json \<times> bool" where
  "shrink_round v =
     (case fold shrink_field shrink_keys (v, False) of
        (v1, changed) \<Rightarrow> (if changed then jset ''truncated'' (JBool True) v1 else v1, changed))"

fun shrink_loop :: "json_lib \<Rightarrow> nat \<Rightarrow> json \<Rightarrow> json" where
  "shrink_loop lib 0 v = v"
| "shrink_loop lib (Suc n) v =
     (if length (jl_print lib v) \<le> BUDGET then v
      else (case shrink_round v of (v1, changed) \<Rightarrow> if changed then shrink_loop lib n v1 else v1))"

definition shrink_to_wire_budget :: "json_lib \<Rightarrow> json \<Rightarrow> json" where
  "shrink_to_wire_budget lib response = shrink_loop lib 24 response"

definition timeout_response :: json where
  "timeout_response = JObject [(''out'', JString []), (''err'', JString ''process timeout''), (''stdout'', JString []),
     (''stderr'', JString ''process timeout''), (''exit_code'', JNull), (''timed_out'', JBool True), (''truncated'', JBool False)]"

definition exec_response :: "bytes \<times> bool \<Rightarrow> bytes \<times> bool \<Rightarrow> int option \<Rightarrow> json" where
  "exec_response out er code =
     JObject [(''out'', bytes_to_wire (fst out)), (''err'', bytes_to_wire (fst er)), (''stdout'', bytes_to_wire (fst out)),
       (''stderr'', bytes_to_wire (fst er)), (''exit_code'', case code of Some n \<Rightarrow> JNumber n | None \<Rightarrow> JNull),
       (''error'', JNull), (''timed_out'', JBool False), (''truncated'', JBool (snd out \<or> snd er))]"

definition execute :: "agent_env \<Rightarrow> json_lib \<Rightarrow> json \<Rightarrow> node \<Rightarrow> (string + json) \<times> node" where
  "execute ag lib request fs =
     (case builtin request of
        Some kind \<Rightarrow>
          (map_sum id (\<lambda>_. builtin_result (ag_reachable ag) request kind) (agent_validate_builtin ag fs request), fs)
      | None \<Rightarrow>
          (case command_from ag fs request of
             Inl e \<Rightarrow> (Inl e, fs)
           | Inr command \<Rightarrow>
               (case ag_spawn_error ag command fs of
                  Some e \<Rightarrow> (Inl e, fs)
                | None \<Rightarrow>
                    (case ag_wait ag command (effective_exec_timeout request) fs of
                       (WTimeout, fs1) \<Rightarrow> (Inr timeout_response, fs1)
                     | (WFailed e, fs1) \<Rightarrow> (Inl e, fs1)
                     | (WExited outs errs code, fs1) \<Rightarrow>
                         (Inr (shrink_to_wire_budget lib (exec_response
                            (read_bounded MAX_EXEC_STREAM_BYTES outs ([], False))
                            (read_bounded MAX_EXEC_STREAM_BYTES errs ([], False)) code)), fs1)))))"

section \<open>Capture and shrinking\<close>

lemma read_bounded_spec:
  assumes "\<forall>c \<in> set chunks. c \<noteq> []" "data = take limit seen"
  shows "read_bounded limit chunks (data, limit < length seen) = (take limit (seen @ concat chunks), limit < length (seen @ concat chunks))"
  using assms
proof (induction chunks arbitrary: data seen)
  case Nil
  then show ?case by simp
next
  case (Cons c cs)
  have d: "(if length data < limit then data @ take (min (limit - length data) (length c)) c else data) = take limit (seen @ c)"
    using Cons.prems(2) by (rule take_extend)
  have ih: "read_bounded limit cs (take limit (seen @ c), limit < length (seen @ c))
      = (take limit ((seen @ c) @ concat cs), limit < length ((seen @ c) @ concat cs))"
    by (rule Cons.IH) (use Cons.prems(1) in auto)
  have "read_bounded limit (c # cs) (data, limit < length seen) = read_bounded limit cs (take limit (seen @ c), limit < length (seen @ c))"
  proof (cases "length data < limit")
    case True
    then have "(limit < length seen \<or> min (limit - length data) (length c) < length c) = (limit < length (seen @ c))"
      using Cons.prems(2) by auto
    then show ?thesis using True d by (simp add: Let_def)
  next
    case False
    then have "limit < length (seen @ c)" using Cons.prems by (cases c) auto
    then show ?thesis using False d by simp
  qed
  then show ?case using ih by simp
qed

lemma cut_back_boundary: "char_boundary s (cut_back s n) \<and> cut_back s n \<le> n"
  by (induction n) (auto simp: char_boundary_def)

lemma is_str_cut: "is_str s \<Longrightarrow> is_str (take (cut_back s n) s)"
proof -
  assume s: "is_str s"
  let ?n = "cut_back s n" and ?b = "as_bytes s"
  have "as_bytes (take ?n s) = take ?n ?b" by (simp add: as_bytes_def take_map)
  moreover have "utf8_valid (take ?n ?b)"
  proof (cases "?n = 0")
    case False
    then have "drop ?n ?b = [] \<or> \<not> is_cont (hd (drop ?n ?b))"
      using cut_back_boundary [of s n] by (auto simp: char_boundary_def hd_drop_conv_nth)
    then show ?thesis using utf8_valid_cut [of "take ?n ?b" "drop ?n ?b"] s by (auto simp: is_str_def)
  qed simp
  ultimately show "is_str (take ?n s)" by (simp add: is_str_def)
qed

text \<open>A shorter output: a prefix, which is text when the output was.\<close>

fun cut_of :: "json \<Rightarrow> json \<Rightarrow> bool" where
  "cut_of (JArray a) (JArray b) \<longleftrightarrow> prefix a b"
| "cut_of (JString a) (JString b) \<longleftrightarrow> prefix a b \<and> (is_str b \<longrightarrow> is_str a)"
| "cut_of v w \<longleftrightarrow> v = w"

lemma cut_of_refl [simp]: "cut_of v v"
  by (cases v) auto

lemma cut_of_trans: "cut_of u v \<Longrightarrow> cut_of v w \<Longrightarrow> cut_of u w"
  by (cases u; cases v; cases w) (auto dest: prefix_order.trans)

lemma halve_cut: "halve v = Some w \<Longrightarrow> cut_of w v"
  by (cases v) (auto simp: take_is_prefix is_str_cut)

text \<open>What shrinking may do to a response.\<close>

definition shrunk :: "(string \<times> json) list \<Rightarrow> (string \<times> json) list \<Rightarrow> bool" where
  "shrunk m m' \<longleftrightarrow>
     (\<forall>k. k \<notin> set shrink_keys \<and> k \<noteq> ''truncated'' \<longrightarrow> map_of m' k = map_of m k)
     \<and> (\<forall>k \<in> set shrink_keys. rel_option cut_of (map_of m' k) (map_of m k))
     \<and> (map_of m' = map_of m \<or> map_of m' ''truncated'' = Some (JBool True))"

lemma rel_option_cut_refl [simp]: "rel_option cut_of x x"
  by (cases x) auto

lemma rel_option_cut_trans: "rel_option cut_of x y \<Longrightarrow> rel_option cut_of y z \<Longrightarrow> rel_option cut_of x z"
  by (cases x; cases y; cases z) (auto dest: cut_of_trans)

lemma shrunk_refl [simp]: "shrunk m m"
  by (simp add: shrunk_def)

lemma shrunk_trans:
  assumes "shrunk m m1" "shrunk m1 m2"
  shows "shrunk m m2"
  unfolding shrunk_def
proof (intro conjI ballI allI impI)
  fix k assume "k \<notin> set shrink_keys \<and> k \<noteq> ''truncated''"
  then show "map_of m2 k = map_of m k" using assms by (simp add: shrunk_def)
next
  fix k assume "k \<in> set shrink_keys"
  then have "rel_option cut_of (map_of m2 k) (map_of m1 k)" "rel_option cut_of (map_of m1 k) (map_of m k)"
    using assms by (simp_all add: shrunk_def)
  then show "rel_option cut_of (map_of m2 k) (map_of m k)" by (rule rel_option_cut_trans)
next
  show "map_of m2 = map_of m \<or> map_of m2 ''truncated'' = Some (JBool True)"
    using assms by (auto simp: shrunk_def)
qed

text \<open>The fields during a round, before the flag is set.\<close>

lemma shrink_field_step:
  assumes "k \<in> set shrink_keys" "shrink_field k (JObject m, ch) = (v1, ch1)"
  shows "\<exists>m1. v1 = JObject m1 \<and> (\<forall>j. j \<notin> set shrink_keys \<longrightarrow> map_of m1 j = map_of m j)
    \<and> (\<forall>j. rel_option cut_of (map_of m1 j) (map_of m j)) \<and> (ch1 \<or> (\<not> ch \<and> m1 = m)) \<and> (ch \<longrightarrow> ch1)"
proof (cases "Option.bind (map_of m k) halve")
  case None
  then show ?thesis using assms(2) by (auto simp: shrink_field_def)
next
  case (Some w)
  then obtain v where v: "map_of m k = Some v" "halve v = Some w" by (auto simp: bind_eq_Some_conv)
  have "v1 = JObject (alist_insert k w m)" "ch1" using assms(2) Some by (auto simp: shrink_field_def)
  then show ?thesis using assms(1) v halve_cut [OF v(2)] by auto
qed

lemma shrink_fields_fold:
  assumes "set ks \<subseteq> set shrink_keys" "fold shrink_field ks (JObject m, ch) = (v1, ch1)"
  shows "\<exists>m1. v1 = JObject m1 \<and> (\<forall>j. j \<notin> set shrink_keys \<longrightarrow> map_of m1 j = map_of m j)
    \<and> (\<forall>j. rel_option cut_of (map_of m1 j) (map_of m j)) \<and> (ch1 \<or> (\<not> ch \<and> m1 = m)) \<and> (ch \<longrightarrow> ch1)"
  using assms
proof (induction ks arbitrary: m ch)
  case Nil
  then show ?case by auto
next
  case (Cons k ks)
  obtain v2 ch2 where s: "shrink_field k (JObject m, ch) = (v2, ch2)" by fastforce
  obtain m2 where m2: "v2 = JObject m2" "\<forall>j. j \<notin> set shrink_keys \<longrightarrow> map_of m2 j = map_of m j"
    "\<forall>j. rel_option cut_of (map_of m2 j) (map_of m j)" "ch2 \<or> (\<not> ch \<and> m2 = m)" "ch \<longrightarrow> ch2"
    using shrink_field_step [OF _ s] Cons.prems(1) by auto
  have "fold shrink_field ks (JObject m2, ch2) = (v1, ch1)" using Cons.prems(2) s m2(1) by simp
  from Cons.IH [OF _ this] Cons.prems(1) obtain m1 where "v1 = JObject m1" "\<forall>j. j \<notin> set shrink_keys \<longrightarrow> map_of m1 j = map_of m2 j"
    "\<forall>j. rel_option cut_of (map_of m1 j) (map_of m2 j)" "ch1 \<or> (\<not> ch2 \<and> m1 = m2)" "ch2 \<longrightarrow> ch1" by auto
  then show ?case using m2 rel_option_cut_trans by (intro exI [of _ m1]) (simp, metis)
qed

lemma shrink_round_shrunk:
  assumes "shrink_round (JObject m) = (v1, changed)"
  shows "\<exists>m1. v1 = JObject m1 \<and> shrunk m m1"
proof -
  obtain v2 ch2 where f: "fold shrink_field shrink_keys (JObject m, False) = (v2, ch2)" by fastforce
  obtain m2 where m2: "v2 = JObject m2" "\<forall>j. j \<notin> set shrink_keys \<longrightarrow> map_of m2 j = map_of m j"
    "\<forall>j. rel_option cut_of (map_of m2 j) (map_of m j)" "ch2 \<or> m2 = m"
    using shrink_fields_fold [OF _ f] by auto
  show ?thesis
  proof (cases ch2)
    case True
    then have "v1 = JObject (alist_insert ''truncated'' (JBool True) m2)" using assms f m2(1) by (simp add: shrink_round_def)
    then show ?thesis using m2(2,3) by (auto simp: shrunk_def shrink_keys_def)
  next
    case False
    then have "v1 = JObject m" using assms f m2(1,4) by (simp add: shrink_round_def)
    then show ?thesis by simp
  qed
qed

lemma shrink_loop_shrunk: "\<exists>m1. shrink_loop lib n (JObject m) = JObject m1 \<and> shrunk m m1"
proof (induction n arbitrary: m)
  case 0
  then show ?case by simp
next
  case (Suc n)
  obtain v1 ch where r: "shrink_round (JObject m) = (v1, ch)" by fastforce
  then obtain m1 where m1: "v1 = JObject m1" "shrunk m m1" using shrink_round_shrunk by blast
  show ?case using r m1 Suc [of m1] shrunk_trans by (auto split: if_splits)
qed

section \<open>Properties\<close>

text \<open>
  C28. An executed command is reported faithfully. When the child ends in time, the result is a terminal
  response: it carries the exit code and says that it did not time out; its output fields are prefixes of
  the captured streams, as text exactly when they are valid UTF-8 or cut to valid UTF-8, and when the
  response does not claim to be truncated they are the complete streams. A child that outlives the
  deadline, which is the one asked for or thirty seconds, gives the time-out response.
\<close>

theorem agent_exec_faithful:
  assumes "builtin request = None" "command_from ag fs request = Inr c" "ag_spawn_error ag c fs = None"
    "ag_wait ag c (or_else (u64_field ''timeout'' request) 30) fs = (w, fs1)"
    "w = WExited outs errs code \<or> w = WTimeout" "\<forall>ch \<in> set (outs @ errs). ch \<noteq> []"
  shows "\<exists>r. execute ag lib request fs = (Inr r, fs1)
    \<and> jget ''timed_out'' r = Some (JBool (w = WTimeout))
    \<and> (w = WTimeout \<longrightarrow> r = timeout_response)
    \<and> (w = WExited outs errs code \<longrightarrow>
         jget ''exit_code'' r = Some (case code of Some n \<Rightarrow> JNumber n | None \<Rightarrow> JNull)
       \<and> (\<forall>(k, chunks) \<in> {(''out'', outs), (''stdout'', outs), (''err'', errs), (''stderr'', errs)}.
            rel_option cut_of (jget k r) (Some (bytes_to_wire (take MAX_EXEC_STREAM_BYTES (concat chunks))))
          \<and> (jget ''truncated'' r = Some (JBool False) \<longrightarrow> jget k r = Some (bytes_to_wire (concat chunks)))))"
proof -
  note ex = assms(1-4)
  show ?thesis
  proof (cases "w = WTimeout")
    case True
    then show ?thesis using ex by (simp add: execute_def effective_exec_timeout_def DEFAULT_EXEC_TIMEOUT_def timeout_response_def)
  next
    case False
    then have w: "w = WExited outs errs code" using assms(5) by simp
    let ?o = "(take MAX_EXEC_STREAM_BYTES (concat outs), MAX_EXEC_STREAM_BYTES < length (concat outs))"
    let ?e = "(take MAX_EXEC_STREAM_BYTES (concat errs), MAX_EXEC_STREAM_BYTES < length (concat errs))"
    have rb: "read_bounded MAX_EXEC_STREAM_BYTES outs ([], False) = ?o" "read_bounded MAX_EXEC_STREAM_BYTES errs ([], False) = ?e"
      using read_bounded_spec [of outs "[]" MAX_EXEC_STREAM_BYTES "[]"] read_bounded_spec [of errs "[]" MAX_EXEC_STREAM_BYTES "[]"] assms(6)
      by simp_all
    obtain m where m: "exec_response ?o ?e code = JObject m" by (simp add: exec_response_def)
    obtain m1 where m1: "shrink_to_wire_budget lib (JObject m) = JObject m1" "shrunk m m1"
      using shrink_loop_shrunk unfolding shrink_to_wire_budget_def by blast
    have run: "execute ag lib request fs = (Inr (JObject m1), fs1)"
      using ex w m m1(1) rb by (simp add: execute_def effective_exec_timeout_def DEFAULT_EXEC_TIMEOUT_def)
    have keep: "map_of m1 ''exit_code'' = map_of m ''exit_code''" "map_of m1 ''timed_out'' = map_of m ''timed_out''"
      using m1(2) by (simp_all add: shrunk_def shrink_keys_def)
    have cut: "rel_option cut_of (map_of m1 k) (map_of m k)" if "k \<in> set shrink_keys" for k
      using m1(2) that by (simp add: shrunk_def)
    have fields: "map_of m ''exit_code'' = Some (case code of Some n \<Rightarrow> JNumber n | None \<Rightarrow> JNull)"
      "map_of m ''timed_out'' = Some (JBool False)" "map_of m ''truncated'' = Some (JBool (snd ?o \<or> snd ?e))"
      "map_of m ''out'' = Some (bytes_to_wire (fst ?o))" "map_of m ''stdout'' = Some (bytes_to_wire (fst ?o))"
      "map_of m ''err'' = Some (bytes_to_wire (fst ?e))" "map_of m ''stderr'' = Some (bytes_to_wire (fst ?e))"
      using m by (auto simp: exec_response_def)
    have full: "map_of m1 k = map_of m k \<and> take MAX_EXEC_STREAM_BYTES (concat outs) = concat outs
        \<and> take MAX_EXEC_STREAM_BYTES (concat errs) = concat errs"
      if "map_of m1 ''truncated'' = Some (JBool False)" for k
      using m1(2) that fields(3) by (auto simp: shrunk_def)
    show ?thesis
      using run keep fields w cut [of "''out''"] cut [of "''stdout''"] cut [of "''err''"] cut [of "''stderr''"] full
      by (intro exI [of _ "JObject m1"]) (auto simp: shrink_keys_def)
  qed
qed

lemma ok_or_eq_Inr: "ok_or x e = Inr y \<longleftrightarrow> x = Some y"
  by (simp add: ok_or_def split: option.split)

lemma collect_env_pair:
  assumes "collect env_pair m = Some vars" "(k, v) \<in> set vars"
  shows "\<exists>j. (k, j) \<in> set m \<and> as_str j = Some v"
  using assms
proof (induction m arbitrary: vars)
  case (Cons kj m)
  then obtain kv vs where "env_pair kj = Some kv" "collect env_pair m = Some vs" "vars = kv # vs"
    by (auto simp: bind_eq_Some_conv)
  with Cons show ?case by (cases kj) (auto simp: env_pair_def)
qed simp

text \<open>
  The agent's token is withheld from the programs it runs: whatever the agent's own environment holds, a child
  started for a request sees no token unless the request itself sets that variable, every variable it sets
  comes from the request as a string, and all other variables are inherited unchanged.
\<close>

theorem agent_token_withheld:
  assumes "command_from ag fs request = Inr c"
  shows "child_env inherited c ''FORKD_AGENT_TOKEN'' = map_of (cmd_env c) ''FORKD_AGENT_TOKEN''
    \<and> (\<forall>(k, v) \<in> set (cmd_env c). \<exists>env m j. jget ''env'' request = Some env \<and> as_object env = Some m
          \<and> (k, j) \<in> set m \<and> as_str j = Some v)
    \<and> (\<forall>k. k \<noteq> ''FORKD_AGENT_TOKEN'' \<longrightarrow> k \<notin> fst ` set (cmd_env c) \<longrightarrow> child_env inherited c k = inherited k)"
proof -
  have unset: "cmd_unset c = [''FORKD_AGENT_TOKEN'']"
    and vars: "cmd_env c = [] \<or> (\<exists>env m. jget ''env'' request = Some env \<and> as_object env = Some m
        \<and> collect env_pair m = Some (cmd_env c))"
    using assms by (cases "jget ''env'' request";
      auto simp: command_from_def res_bind_eq_Inr_conv ok_or_eq_Inr split: if_splits)+
  show ?thesis
  proof (intro conjI)
    show "child_env inherited c ''FORKD_AGENT_TOKEN'' = map_of (cmd_env c) ''FORKD_AGENT_TOKEN''"
      by (simp add: child_env_def unset map_add_def split: option.split)
    show "\<forall>(k, v) \<in> set (cmd_env c). \<exists>env m j. jget ''env'' request = Some env \<and> as_object env = Some m
          \<and> (k, j) \<in> set m \<and> as_str j = Some v"
      using vars collect_env_pair by fastforce
    show "\<forall>k. k \<noteq> ''FORKD_AGENT_TOKEN'' \<longrightarrow> k \<notin> fst ` set (cmd_env c) \<longrightarrow> child_env inherited c k = inherited k"
      by (auto simp: child_env_def unset map_add_def map_of_eq_None_iff [symmetric])
  qed
qed

section \<open>Witness\<close>

definition demo_agent :: agent_env where
  "demo_agent = \<lparr>ag_root = [''ws''], ag_pid = 1, ag_environment = None, ag_os = demo_os, ag_reachable = (\<lambda>_. False),
     ag_spawn_error = (\<lambda>_ _. None), ag_wait = (\<lambda>c t fs. (WExited [[104, 105]] [] (Some 0), fs))\<rparr>"

definition demo_exec :: json where
  "demo_exec = JObject [(''args'', JArray [JString ''/bin/ls''])]"

lemma demo_command: "command_from demo_agent plain_tree demo_exec = Inr \<lparr>cmd_args = [''/bin/ls''], cmd_cwd = [''ws''], cmd_unset = [''FORKD_AGENT_TOKEN''], cmd_env = []\<rparr>"
  by code_simp

theorem agent_token_withheld_witness:
  "(\<exists>c. command_from demo_agent plain_tree demo_exec = Inr c
      \<and> child_env [''FORKD_AGENT_TOKEN'' \<mapsto> ''secret'', ''HOME'' \<mapsto> ''/root''] c ''FORKD_AGENT_TOKEN'' = None
      \<and> child_env [''FORKD_AGENT_TOKEN'' \<mapsto> ''secret'', ''HOME'' \<mapsto> ''/root''] c ''HOME'' = Some ''/root'')"
  using agent_token_withheld [OF demo_command, of "[''FORKD_AGENT_TOKEN'' \<mapsto> ''secret'', ''HOME'' \<mapsto> ''/root'']"] demo_command
  by auto

theorem agent_exec_faithful_witness:
  "\<exists>r. execute demo_agent \<lparr>jl_parse = (\<lambda>_. Inl []), jl_print = (\<lambda>_. []), jl_terminal = (\<lambda>_. []), jl_base64 = (\<lambda>_. Inl [])\<rparr> demo_exec plain_tree
      = (Inr r, plain_tree) \<and> jget ''exit_code'' r = Some (JNumber 0)"
proof -
  have "builtin demo_exec = None" by code_simp
  moreover have "ag_wait demo_agent c t plain_tree = (WExited [[104, 105]] [] (Some 0), plain_tree)"
    "ag_spawn_error demo_agent c plain_tree = None" for c t by (simp_all add: demo_agent_def)
  ultimately show ?thesis
    using agent_exec_faithful [OF _ demo_command, of "WExited [[104, 105]] [] (Some 0)" plain_tree "[[104, 105]]" "[]" "Some 0"] by fastforce
qed

end
