(* ===== verification/Agent_Search.thy ===== *)
theory Agent_Search
  imports Agent_Exec Glob "HOL-Library.List_Lexorder" "HOL-Library.Char_ord"
begin

text \<open>
  Structured requests of the forkd guest agent, \<^verbatim>\<open>rfb-runtime/src/agent/search.rs\<close>: directory listing, name and
  content search, reading, writing and evaluation, on the tree of the guest's files.
\<close>

section \<open>Listing\<close>

definition agent_entry :: "string \<times> node \<Rightarrow> json" where
  "agent_entry e =
     JObject [(''name'', JString (lossy (fst e))), (''is_dir'', JBool (is_dir (snd e))),
       (''size'', case snd e of File b m \<Rightarrow> JNumber (int (length b)) | _ \<Rightarrow> JNull)]"

fun scan_loop :: "nat \<Rightarrow> (string \<times> node) list \<Rightarrow> json list \<Rightarrow> json list \<times> bool" where
  "scan_loop cap [] entries = (entries, False)"
| "scan_loop cap (e # es) entries =
     (if cap \<le> length entries then (entries, True) else scan_loop cap es (entries @ [agent_entry e]))"

definition entry_name :: "json \<Rightarrow> string" where
  "entry_name v = or_else (str_field ''name'' v) []"

definition agent_ls :: "agent_env \<Rightarrow> json \<Rightarrow> node \<Rightarrow> string + json" where
  "agent_ls ag request fs =
     res_bind (agent_path ag fs (jget ''path'' request)) (\<lambda>p.
     res_bind (agent_limit (jget ''max_results'' request) MAX_RESULTS MAX_RESULTS) (\<lambda>mx.
     res_bind (os_result (ag_os ag) (read_dir fs p)) (\<lambda>es.
       case scan_loop (mx * 2 + 1) es [] of (entries, stopped) \<Rightarrow>
         (let sorted = sort_key entry_name entries
          in Inr (JObject [(''entries'', JArray (take mx sorted)), (''truncated'', JBool (stopped \<or> mx < length sorted))])))))"

section \<open>Searching\<close>

definition agent_find :: "agent_env \<Rightarrow> json \<Rightarrow> node \<Rightarrow> string + json" where
  "agent_find ag request fs =
     res_bind (agent_path ag fs (jget ''path'' request)) (\<lambda>p.
     res_bind (agent_pattern request) (\<lambda>pat.
     res_bind (agent_limit (jget ''max_results'' request) MAX_RESULTS MAX_RESULTS) (\<lambda>mx.
     res_bind (os_result (ag_os ag) (read_dir fs p)) (\<lambda>es.
     res_bind (bounded_name_walk (glob_matches pat) mx False (\<lambda>_. False) [] es 0 []) (\<lambda>(truncated, k, out).
       Inr (JObject [(''matches'', JArray (map JString out)), (''truncated'', JBool truncated)]))))))"

definition GREP_SCAN_CAP :: nat where
  "GREP_SCAN_CAP = 16 * 1024 * 1024"

text \<open>The lines \<^verbatim>\<open>read_until\<close> delivers, with their terminators.\<close>

function raw_lines :: "bytes \<Rightarrow> bytes list" where
  "raw_lines b = (if b = [] then [] else first_line b # raw_lines (drop (length (first_line b)) b))"
  by pat_completeness auto
termination
  by (relation "measure length") (auto simp: first_line_def)

declare raw_lines.simps [simp del]

definition has_window :: "bytes \<Rightarrow> bytes \<Rightarrow> bool" where
  "has_window needle line \<longleftrightarrow> needle \<in> set (map (\<lambda>i. take (length needle) (drop i line)) [0 ..< length line + 1 - length needle])"

definition grep_item :: "string \<Rightarrow> nat \<Rightarrow> bytes \<Rightarrow> json" where
  "grep_item p n line =
     JObject [(''path'', JString p), (''line'', JNumber (int n)), (''text'', JString (str_of_bytes (from_utf8_lossy line)))]"

text \<open>The lines of one file; the flag says that a limit was reached.\<close>

fun grep_file ::
  "json_lib \<Rightarrow> bytes \<Rightarrow> string \<Rightarrow> nat \<Rightarrow> nat \<Rightarrow> bytes list \<Rightarrow> nat \<Rightarrow> nat \<Rightarrow> json list \<Rightarrow> bool \<times> json list" where
  "grep_file lib needle p mx maxb [] n consumed out = (False, out)"
| "grep_file lib needle p mx maxb (line # lines) n consumed out =
     (if has_window needle line
      then (let item = grep_item p (n + 1) line; size = length (jl_print lib item) in
            if maxb < consumed + size \<and> out \<noteq> [] then (True, out)
            else if mx \<le> length (out @ [item]) \<or> maxb \<le> consumed + size then (True, out @ [item])
            else grep_file lib needle p mx maxb lines (n + 1) (consumed + size) (out @ [item]))
      else grep_file lib needle p mx maxb lines (n + 1) consumed out)"

fun grep_walk ::
  "json_lib \<Rightarrow> bytes \<Rightarrow> nat \<Rightarrow> nat \<Rightarrow> path \<Rightarrow> (string \<times> node) list \<Rightarrow> json list \<Rightarrow> bool \<times> json list" where
  "grep_walk lib needle mx maxb rel [] out = (mx \<le> length out, out)"
| "grep_walk lib needle mx maxb rel ((name, n) # es) out =
     (case n of
        Link t \<Rightarrow> grep_walk lib needle mx maxb rel es out
      | Dir sub \<Rightarrow>
          (if length out < mx
           then (case grep_walk lib needle mx maxb (rel @ [name]) sub out of
               (True, out1) \<Rightarrow> (True, out1) | (False, out1) \<Rightarrow> grep_walk lib needle mx maxb rel es out1)
           else grep_walk lib needle mx maxb rel es out)
      | File b m \<Rightarrow>
          (if GREP_SCAN_CAP < length b then grep_walk lib needle mx maxb rel es out
           else (case grep_file lib needle (shown_path (rel @ [name])) mx maxb (raw_lines b) 0 0 out of
               (True, out1) \<Rightarrow> (True, out1) | (False, out1) \<Rightarrow> grep_walk lib needle mx maxb rel es out1)))"

definition agent_grep :: "agent_env \<Rightarrow> json_lib \<Rightarrow> json \<Rightarrow> node \<Rightarrow> string + json" where
  "agent_grep ag lib request fs =
     res_bind (agent_path ag fs (jget ''path'' request)) (\<lambda>p.
     res_bind (agent_pattern request) (\<lambda>pat.
     res_bind (agent_limit (jget ''max_results'' request) MAX_RESULTS MAX_RESULTS) (\<lambda>mx.
     res_bind (agent_limit (jget ''max_bytes'' request) AGENT_MAX_BYTES AGENT_MAX_BYTES) (\<lambda>maxb.
     res_bind (os_result (ag_os ag) (read_dir fs p)) (\<lambda>es.
       case grep_walk lib (as_bytes pat) mx maxb [] es [] of (truncated, out) \<Rightarrow>
         Inr (JObject [(''matches'', JArray out), (''truncated'', JBool truncated)]))))))"

section \<open>Reading and writing\<close>

definition agent_read :: "agent_env \<Rightarrow> json \<Rightarrow> node \<Rightarrow> string + json" where
  "agent_read ag request fs =
     res_bind (agent_path ag fs (jget ''path'' request)) (\<lambda>p.
     res_bind (agent_limit (jget ''max_bytes'' request) AGENT_MAX_BYTES AGENT_MAX_BYTES) (\<lambda>mx.
     let offset = or_else (u64_field ''offset'' request) 0 in
     res_bind (os_result (ag_os ag) (open_at fs p)) (\<lambda>file.
     res_bind (if 2 ^ 63 \<le> offset then Inl (os_error (ag_os ag) EINVAL) else Inr ()) (\<lambda>_.
     res_bind (os_result (ag_os ag) (read_file fs p)) (\<lambda>content.
       let total_bytes = node_len (os_dir_len (ag_os ag)) file; data = take mx (drop offset content)
       in Inr (JObject [(''data'', byte_array data), (''truncated'', JBool (offset + length data < total_bytes)),
            (''total_bytes'', JNumber (int total_bytes))]))))))"

definition write_data :: "json \<Rightarrow> string + bytes" where
  "write_data request =
     res_bind (ok_or (case jget ''data'' request of Some d \<Rightarrow> Some d | None \<Rightarrow> jget ''content'' request) ''data is required'') (\<lambda>d.
     res_bind (case d of
         JString s \<Rightarrow> Inr (as_bytes s)
       | JArray items \<Rightarrow> ok_or (collect byte_of_json items) ''data must be bytes or string''
       | _ \<Rightarrow> Inl ''data must be bytes or string'') (\<lambda>bytes.
       if AGENT_MAX_BYTES < length bytes then Inl ''payload too large'' else Inr bytes))"

definition agent_write :: "agent_env \<Rightarrow> json \<Rightarrow> node \<Rightarrow> (string + json) \<times> node" where
  "agent_write ag request fs =
     (case agent_path ag fs (jget ''path'' request) of
        Inl e \<Rightarrow> (Inl e, fs)
      | Inr p \<Rightarrow>
          (case write_data request of
             Inl e \<Rightarrow> (Inl e, fs)
           | Inr bytes \<Rightarrow>
               (case make_parents p fs of
                  (Inl e, fs1) \<Rightarrow> (Inl (os_error (ag_os ag) e), fs1)
                | (Inr _, fs1) \<Rightarrow>
                    (case write_file (or_else (Option.bind (jget ''append'' request) as_bool) False)
                            (os_new_mode (ag_os ag)) p bytes fs1 of
                       (Inl e, fs2) \<Rightarrow> (Inl (os_error (ag_os ag) e), fs2)
                     | (Inr _, fs2) \<Rightarrow>
                         (let reply = JObject [(''bytes_written'', JNumber (int (length bytes)))] in
                          case u64_field ''mode'' request of
                            None \<Rightarrow> (Inr reply, fs2)
                          | Some mode \<Rightarrow>
                              (case set_permissions (mode mod 2 ^ 32) p fs2 of
                                 (Inl e, fs3) \<Rightarrow> (Inl (os_error (ag_os ag) e), fs3)
                               | (Inr _, fs3) \<Rightarrow> (Inr reply, fs3)))))))"

section \<open>Evaluation and dispatch\<close>

definition eval_output :: "json option \<Rightarrow> bytes" where
  "eval_output v =
     (case v of
        Some (JString s) \<Rightarrow> as_bytes s
      | Some (JArray items) \<Rightarrow> or_else (collect byte_of_json items) []
      | _ \<Rightarrow> [])"

definition agent_eval :: "agent_env \<Rightarrow> json_lib \<Rightarrow> json \<Rightarrow> node \<Rightarrow> (string + json) \<times> node" where
  "agent_eval ag lib request fs =
     (case str_field ''code'' request of
        None \<Rightarrow> (Inl ''code must be a string'', fs)
      | Some code \<Rightarrow>
          if blank code \<or> MAX_CODE < length code then (Inl ''invalid eval code'', fs)
          else (let r1 = jset ''args'' (JArray [JString ''/bin/sh'', JString ''-c'', JString code]) request;
                    r = (case jget ''cwd'' request of Some cwd \<Rightarrow> jset ''cwd'' cwd r1 | None \<Rightarrow> r1)
                in case execute ag lib r fs of
                     (Inl e, fs1) \<Rightarrow> (Inl e, fs1)
                   | (Inr result, fs1) \<Rightarrow>
                       (Inr (JObject [(''output'', byte_array (eval_output (jget ''out'' result))),
                          (''status'', or_else (jget ''exit_code'' result) JNull),
                          (''timed_out'', or_else (jget ''timed_out'' result) JNull)]), fs1)))"

text \<open>\<^verbatim>\<open>structured\<close>; the connection calls it for these actions only.\<close>

definition agent_structured :: "agent_env \<Rightarrow> json_lib \<Rightarrow> string \<Rightarrow> json \<Rightarrow> node \<Rightarrow> (string + json) \<times> node" where
  "agent_structured ag lib action request fs =
     (if action = ''ls'' then (agent_ls ag request fs, fs)
      else if action = ''find'' then (agent_find ag request fs, fs)
      else if action = ''grep'' then (agent_grep ag lib request fs, fs)
      else if action = ''read'' then (agent_read ag request fs, fs)
      else if action = ''write'' then agent_write ag request fs
      else agent_eval ag lib request fs)"

section \<open>What the searches find\<close>

lemma scan_loop_spec:
  "length entries \<le> cap \<Longrightarrow> scan_loop cap es entries =
     (entries @ map agent_entry (take (cap - length entries) es), cap < length entries + length es)"
proof (induction cap es entries rule: scan_loop.induct)
  case (2 cap e es entries)
  show ?case
  proof (cases "cap \<le> length entries")
    case True
    then show ?thesis using 2(2) by simp
  next
    case False
    then have "cap - length entries = Suc (cap - Suc (length entries))" by simp
    then show ?thesis using 2(1) [OF False] False by simp
  qed
qed simp

text \<open>All matches of one file and of a directory, in the order of the walk.\<close>

definition agent_file_hits :: "bytes \<Rightarrow> string \<Rightarrow> nat \<Rightarrow> bytes list \<Rightarrow> json list" where
  "agent_file_hits needle p n lines =
     map (\<lambda>(k, line). grep_item p k line) (filter (\<lambda>(k, line). sublist needle line) (enumerate (n + 1) lines))"

fun agent_hits :: "bytes \<Rightarrow> path \<Rightarrow> (string \<times> node) list \<Rightarrow> json list" where
  "agent_hits needle rel [] = []"
| "agent_hits needle rel ((name, n) # es) =
     (case n of
        Link t \<Rightarrow> []
      | Dir sub \<Rightarrow> agent_hits needle (rel @ [name]) sub
      | File b m \<Rightarrow> if GREP_SCAN_CAP < length b then [] else agent_file_hits needle (shown_path (rel @ [name])) 0 (raw_lines b))
     @ agent_hits needle rel es"

lemma has_window_sublist: "has_window needle line \<longleftrightarrow> sublist needle line"
proof
  assume "has_window needle line"
  then obtain i where "needle = take (length needle) (drop i line)" by (auto simp: has_window_def)
  moreover have "line = take i line @ take (length needle) (drop i line) @ drop (length needle) (drop i line)"
    by (metis append_take_drop_id)
  ultimately show "sublist needle line" by (metis sublist_appendI)
next
  assume "sublist needle line"
  then obtain u v where l: "line = u @ needle @ v" by (auto simp: sublist_def)
  then have "needle = take (length needle) (drop (length u) line)" "length u < length line + 1 - length needle" by simp_all
  then show "has_window needle line" unfolding has_window_def by (metis (mono_tags, lifting) atLeastLessThan_iff image_eqI set_map set_upt zero_le)
qed

lemma grep_file_spec:
  assumes "grep_file lib needle p mx maxb lines n consumed out = (stop, out')" "length out < mx"
  shows "prefix out' (out @ agent_file_hits needle p n lines) \<and> length out' \<le> mx
    \<and> (\<not> stop \<longrightarrow> out' = out @ agent_file_hits needle p n lines \<and> length out' < mx)"
  using assms
proof (induction lib needle p mx maxb lines n consumed out rule: grep_file.induct)
  case (1 lib needle p mx maxb n consumed out)
  then show ?case by (simp add: agent_file_hits_def)
next
  case (2 lib needle p mx maxb line lines n consumed out)
  let ?item = "grep_item p (n + 1) line"
  let ?size = "length (jl_print lib ?item)"
  show ?case
  proof (cases "sublist needle line")
    case hit: True
    then have h: "out @ agent_file_hits needle p n (line # lines) = (out @ [?item]) @ agent_file_hits needle p (n + 1) lines"
      by (simp add: agent_file_hits_def)
    consider (full) "maxb < consumed + ?size" "out \<noteq> []"
      | (last) "\<not> (maxb < consumed + ?size \<and> out \<noteq> [])" "mx \<le> length (out @ [?item]) \<or> maxb \<le> consumed + ?size"
      | (more) "\<not> (maxb < consumed + ?size \<and> out \<noteq> [])" "\<not> (mx \<le> length (out @ [?item]) \<or> maxb \<le> consumed + ?size)" by blast
    then show ?thesis
    proof cases
      case full
      then have "stop" "out' = out" using "2.prems"(1) hit by (auto simp: has_window_sublist Let_def)
      then show ?thesis using "2.prems"(2) by simp
    next
      case last
      then have "stop" "out' = out @ [?item]" using "2.prems"(1) hit by (auto simp: has_window_sublist Let_def split: if_splits)
      then show ?thesis using "2.prems"(2) unfolding h by simp
    next
      case more
      then have "grep_file lib needle p mx maxb lines (n + 1) (consumed + ?size) (out @ [?item]) = (stop, out')"
        using "2.prems"(1) hit by (auto simp: has_window_sublist Let_def)
      from "2.IH"(1) [OF _ refl refl more this] hit more(2) show ?thesis unfolding h by (auto simp: has_window_sublist)
    qed
  next
    case False
    then have "agent_file_hits needle p n (line # lines) = agent_file_hits needle p (n + 1) lines" by (simp add: agent_file_hits_def)
    then show ?thesis using "2.IH"(2) "2.prems" False by (auto simp: has_window_sublist)
  qed
qed

lemma grep_walk_spec:
  assumes "grep_walk lib needle mx maxb rel es out = (stop, out')" "length out < mx"
  shows "prefix out' (out @ agent_hits needle rel es) \<and> length out' \<le> mx
    \<and> (\<not> stop \<longrightarrow> out' = out @ agent_hits needle rel es \<and> length out' < mx)"
  using assms
proof (induction lib needle mx maxb rel es out arbitrary: stop out' rule: grep_walk.induct)
  case (1 lib needle mx maxb rel out)
  then show ?case by auto
next
  case (2 lib needle mx maxb rel name n es out)
  have go: ?case if h: "agent_hits needle rel ((name, n) # es) = hits @ agent_hits needle rel es"
    and first: "prefix out1 (out @ hits) \<and> length out1 \<le> mx \<and> (\<not> stop1 \<longrightarrow> out1 = out @ hits \<and> length out1 < mx)"
    and ends: "stop1 \<Longrightarrow> stop \<and> out' = out1"
    and rest: "\<not> stop1 \<Longrightarrow> prefix out' (out1 @ agent_hits needle rel es) \<and> length out' \<le> mx
      \<and> (\<not> stop \<longrightarrow> out' = out1 @ agent_hits needle rel es \<and> length out' < mx)" for hits stop1 out1
  proof (cases stop1)
    case True
    have "prefix (out @ hits) (out @ hits @ agent_hits needle rel es)" by simp
    then have "prefix out1 (out @ hits @ agent_hits needle rel es)" using first by (blast intro: prefix_order.trans)
    then show ?thesis using True first ends unfolding h by simp
  next
    case False
    then show ?thesis using first rest unfolding h by auto
  qed
  show ?case
  proof (cases n)
    case (Link t)
    have "prefix out' (out @ agent_hits needle rel es) \<and> length out' \<le> mx
        \<and> (\<not> stop \<longrightarrow> out' = out @ agent_hits needle rel es \<and> length out' < mx)"
      using 2(6) [OF Link _ "2.prems"(2)] "2.prems"(1) Link by auto
    then show ?thesis using Link by auto
  next
    case (Dir sub)
    obtain stop1 out1 where s: "grep_walk lib needle mx maxb (rel @ [name]) sub out = (stop1, out1)" by fastforce
    have f: "prefix out1 (out @ agent_hits needle (rel @ [name]) sub) \<and> length out1 \<le> mx
        \<and> (\<not> stop1 \<longrightarrow> out1 = out @ agent_hits needle (rel @ [name]) sub \<and> length out1 < mx)"
      using 2(3) [OF Dir "2.prems"(2) s "2.prems"(2)] .
    show ?thesis
    proof (rule go [OF _ f])
      show "agent_hits needle rel ((name, n) # es) = agent_hits needle (rel @ [name]) sub @ agent_hits needle rel es" using Dir by simp
      show "stop \<and> out' = out1" if stop1 using "2.prems" Dir s that by simp
      assume "\<not> stop1"
      then show "prefix out' (out1 @ agent_hits needle rel es) \<and> length out' \<le> mx
          \<and> (\<not> stop \<longrightarrow> out' = out1 @ agent_hits needle rel es \<and> length out' < mx)"
        using 2(4) [OF Dir "2.prems"(2) s [symmetric]] "2.prems" Dir s f by auto
    qed
  next
    case (File b m)
    show ?thesis
    proof (cases "GREP_SCAN_CAP < length b")
      case True
      have "prefix out' (out @ agent_hits needle rel es) \<and> length out' \<le> mx
          \<and> (\<not> stop \<longrightarrow> out' = out @ agent_hits needle rel es \<and> length out' < mx)"
        using 2(1) [OF File True _ "2.prems"(2)] "2.prems"(1) File True by auto
      then show ?thesis using File True by auto
    next
      case False
      let ?hits = "agent_file_hits needle (shown_path (rel @ [name])) 0 (raw_lines b)"
      obtain stop1 out1 where s: "grep_file lib needle (shown_path (rel @ [name])) mx maxb (raw_lines b) 0 0 out = (stop1, out1)" by fastforce
      note f = grep_file_spec [OF s "2.prems"(2)]
      show ?thesis
      proof (rule go [OF _ f])
        show "agent_hits needle rel ((name, n) # es) = ?hits @ agent_hits needle rel es" using File False by simp
        show "stop \<and> out' = out1" if stop1 using "2.prems"(1) File s that False by simp
        assume "\<not> stop1"
        then show "prefix out' (out1 @ agent_hits needle rel es) \<and> length out' \<le> mx
            \<and> (\<not> stop \<longrightarrow> out' = out1 @ agent_hits needle rel es \<and> length out' < mx)"
          using 2(2) [OF File False s [symmetric]] "2.prems"(1) File s f False by auto
      qed
    qed
  qed
qed

section \<open>Properties\<close>

text \<open>
  Searches of the agent are bounded, sound and honest. A listing has at most \<open>max_results\<close> entries, in the order
  of their names; up to \<open>2 * max_results + 1\<close> entries of the directory they are the first ones of the whole
  directory. A content search reports a prefix of the matching lines of the regular files in the order of
  the walk, at most \<open>max_results\<close> of them. In both cases \<open>truncated\<close> is false only when nothing is missing.
\<close>

theorem agent_searches_honest:
  assumes "agent_path ag fs (jget ''path'' request) = Inr p" "read_dir fs p = Inr es"
    "agent_limit (jget ''max_results'' request) MAX_RESULTS MAX_RESULTS = Inr mx"
  shows "(\<exists>entries. agent_ls ag request fs = Inr (JObject [(''entries'', JArray entries), (''truncated'', JBool (mx < length es))])
      \<and> length entries = min mx (length es) \<and> sorted (map entry_name entries) \<and> set entries \<subseteq> set (map agent_entry es)
      \<and> (length es \<le> 2 * mx + 1 \<longrightarrow> entries = take mx (sort_key entry_name (map agent_entry es))))
    \<and> (agent_pattern request = Inr pat \<and> agent_limit (jget ''max_bytes'' request) AGENT_MAX_BYTES AGENT_MAX_BYTES = Inr maxb \<longrightarrow>
       (\<exists>out stop. agent_grep ag lib request fs = Inr (JObject [(''matches'', JArray out), (''truncated'', JBool stop)])
         \<and> prefix out (agent_hits (as_bytes pat) [] es) \<and> length out \<le> mx \<and> (\<not> stop \<longrightarrow> out = agent_hits (as_bytes pat) [] es)))"
proof (intro conjI impI)
  let ?all = "map agent_entry (take (mx * 2 + 1) es)"
  let ?entries = "take mx (sort_key entry_name ?all)"
  have sc: "scan_loop (mx * 2 + 1) es [] = (?all, mx * 2 + 1 < length es)" using scan_loop_spec [of "[]" "mx * 2 + 1" es] by simp
  have tr: "(mx * 2 + 1 < length es \<or> mx < length (sort_key entry_name ?all)) = (mx < length es)" by auto
  have "sorted (map entry_name (sort_key entry_name ?all))" by simp
  then have "sorted (map entry_name ?entries)" by (metis sorted_wrt_take take_map)
  moreover have "set ?entries \<subseteq> set (map agent_entry es)"
    using set_take_subset [of mx "sort_key entry_name ?all"] set_take_subset [of "mx * 2 + 1" es] by auto
  moreover have "agent_ls ag request fs = Inr (JObject [(''entries'', JArray ?entries), (''truncated'', JBool (mx < length es))])"
    using assms sc tr by (simp add: agent_ls_def os_result_def Let_def del: One_nat_def)
  ultimately show "\<exists>entries. agent_ls ag request fs = Inr (JObject [(''entries'', JArray entries), (''truncated'', JBool (mx < length es))])
      \<and> length entries = min mx (length es) \<and> sorted (map entry_name entries) \<and> set entries \<subseteq> set (map agent_entry es)
      \<and> (length es \<le> 2 * mx + 1 \<longrightarrow> entries = take mx (sort_key entry_name (map agent_entry es)))"
    by (intro exI [of _ ?entries]) auto
next
  assume g: "agent_pattern request = Inr pat \<and> agent_limit (jget ''max_bytes'' request) AGENT_MAX_BYTES AGENT_MAX_BYTES = Inr maxb"
  obtain stop out where w: "grep_walk lib (as_bytes pat) mx maxb [] es [] = (stop, out)" by fastforce
  have "0 < mx" using assms(3) by (auto simp: agent_limit_def Let_def split: if_splits)
  with grep_walk_spec [OF w] have "prefix out (agent_hits (as_bytes pat) [] es)" "length out \<le> mx" "\<not> stop \<longrightarrow> out = agent_hits (as_bytes pat) [] es"
    by auto
  moreover have "agent_grep ag lib request fs = Inr (JObject [(''matches'', JArray out), (''truncated'', JBool stop)])"
    using assms g w by (simp add: agent_grep_def os_result_def)
  ultimately show "\<exists>out stop. agent_grep ag lib request fs = Inr (JObject [(''matches'', JArray out), (''truncated'', JBool stop)])
         \<and> prefix out (agent_hits (as_bytes pat) [] es) \<and> length out \<le> mx \<and> (\<not> stop \<longrightarrow> out = agent_hits (as_bytes pat) [] es)"
    by blast
qed

text \<open>What a write leaves in a file, and the file system around it.\<close>

lemma agent_write_effect:
  assumes "plain p" "is_dir fs" "\<not> link_on fs [] p" "p \<noteq> []" "make_parents p fs = (Inr u, fs1)" "write_file app mode p d fs1 = (Inr u2, fs2)"
  shows "leaf fs2 = (leaf fs)(p \<mapsto> (case leaf fs p of Some (File b m) \<Rightarrow> File ((if app then b else []) @ d) m | _ \<Rightarrow> File d mode))"
proof -
  note g = make_parents_grown [OF assms(1-3,5)]
  have par: "has_parent fs1 p" using g(2) assms(4) by simp
  have leaf: "leaf fs1 = leaf fs" using g(1) by (simp add: grown_def)
  have nl: "\<not> link_on fs1 [] p" using grown_link_on [OF g(1)] assms(3) by simp
  note wr = write_file_plain [OF assms(1) par]
  show ?thesis
  proof (cases "lookup fs1 p")
    case None
    then have "leaf fs p = None" unfolding leaf [symmetric] by (simp add: leaf_def)
    moreover have "fs2 = put_at p (Some (File d mode)) fs1" using wr(1) [OF None, of app mode d] assms(6) by simp
    ultimately show ?thesis using leaf_put [of fs1 p "Some (File d mode)"] par leaf None by simp
  next
    case (Some n)
    show ?thesis
    proof (cases n)
      case (File b m)
      then have lf: "leaf fs p = Some (File b m)" using Some unfolding leaf [symmetric] by (simp add: leaf_def)
      have f2: "fs2 = put_at p (Some (File (if app then b @ d else d) m)) fs1"
        using wr(2) [of b m app mode d] assms(6) Some File by simp
      show ?thesis unfolding f2 lf using leaf_put [of fs1 p "Some (File (if app then b @ d else d) m)"] par leaf Some File by simp
    next
      case (Dir es)
      then show ?thesis using wr(3) [of es app mode d] assms(6) Some by simp
    next
      case (Link t)
      then show ?thesis using nl Some by (auto simp: link_on_def)
    qed
  qed
qed

text \<open>
  Files of the agent. In a workspace without symbolic links, a write that succeeds changes exactly the file
  the request names, to the bytes sent or, for an append, to the old bytes and those, and when the request
  sets no mode the file keeps its own or gets the default one. A read of a file below the root returns the window of at most \<open>max_bytes\<close> from the offset, the size
  of the file, and says whether anything follows the window.
\<close>

theorem agent_file_access:
  assumes "is_dir fs" "canonicalize fs (ag_root ag) = Inr (ag_root ag)" "link_free_below fs (ag_root ag)"
    "guest_path fs (ag_root ag) (jget ''path'' request) = Inr p" "p \<noteq> []"
  shows "(agent_write ag request fs = (Inr reply, fs') \<and> u64_field ''mode'' request = None \<longrightarrow>
      (\<exists>bytes. write_data request = Inr bytes \<and> reply = JObject [(''bytes_written'', JNumber (int (length bytes)))]
        \<and> leaf fs' = (leaf fs)(p \<mapsto> (case leaf fs p of
            Some (File b m) \<Rightarrow> File ((if or_else (Option.bind (jget ''append'' request) as_bool) False then b else []) @ bytes) m
          | _ \<Rightarrow> File bytes (os_new_mode (ag_os ag))))))
    \<and> (leaf fs p = Some (File b m) \<and> agent_limit (jget ''max_bytes'' request) AGENT_MAX_BYTES AGENT_MAX_BYTES = Inr mx
         \<and> or_else (u64_field ''offset'' request) 0 < 2 ^ 63 \<longrightarrow>
       agent_read ag request fs = Inr (JObject [(''data'', byte_array (take mx (drop (or_else (u64_field ''offset'' request) 0) b))),
         (''truncated'', JBool (or_else (u64_field ''offset'' request) 0 + mx < length b)),
         (''total_bytes'', JNumber (int (length b)))]))"
proof (intro conjI impI)
  note g = agent.guarded [OF assms(1,2,4)]
  have nl: "\<not> link_on fs [] p" by (rule agent.not_linked [OF assms(1,2,4,3)])
  have pl: "plain p" using g by simp
  have ap: "agent_path ag fs (jget ''path'' request) = Inr p" using assms(4) by (simp add: agent_path_def)
  let ?app = "or_else (Option.bind (jget ''append'' request) as_bool) False"
  show "\<exists>bytes. write_data request = Inr bytes \<and> reply = JObject [(''bytes_written'', JNumber (int (length bytes)))]
      \<and> leaf fs' = (leaf fs)(p \<mapsto> (case leaf fs p of Some (File b m) \<Rightarrow> File ((if ?app then b else []) @ bytes) m
          | _ \<Rightarrow> File bytes (os_new_mode (ag_os ag))))"
    if w: "agent_write ag request fs = (Inr reply, fs') \<and> u64_field ''mode'' request = None"
  proof -
    obtain bytes u fs1 u2 where s: "write_data request = Inr bytes" "make_parents p fs = (Inr u, fs1)"
      "write_file ?app (os_new_mode (ag_os ag)) p bytes fs1 = (Inr u2, fs')"
      "reply = JObject [(''bytes_written'', JNumber (int (length bytes)))]"
      using w ap by (auto simp: agent_write_def Let_def split: sum.splits prod.splits)
    then show ?thesis using agent_write_effect [OF pl assms(1) nl assms(5) s(2,3)] by simp
  qed
  let ?off = "or_else (u64_field ''offset'' request) 0"
  show "agent_read ag request fs = Inr (JObject [(''data'', byte_array (take mx (drop ?off b))),
      (''truncated'', JBool (?off + mx < length b)), (''total_bytes'', JNumber (int (length b)))])"
    if r: "leaf fs p = Some (File b m) \<and> agent_limit (jget ''max_bytes'' request) AGENT_MAX_BYTES AGENT_MAX_BYTES = Inr mx \<and> ?off < 2 ^ 63"
  proof -
    have l: "lookup fs p = Some (File b m)" using r by simp
    then have o: "open_at fs p = Inr (File b m)" "read_file fs p = Inr b"
      using open_at_plain [OF pl nl] canonicalize_physical [OF l _ pl] by (simp_all add: read_file_def open_at_def)
    have "(?off + length (take mx (drop ?off b)) < length b) = (?off + mx < length b)" by auto
    then show ?thesis using ap o r by (simp add: agent_read_def os_result_def Let_def)
  qed
qed

section \<open>Witnesses\<close>

theorem agent_searches_honest_witness:
  "\<exists>entries. agent_ls demo_agent (JObject []) plain_tree = Inr (JObject [(''entries'', JArray entries), (''truncated'', JBool False)])
     \<and> length entries = 1"
proof -
  have a: "agent_path demo_agent plain_tree (jget ''path'' (JObject [])) = Inr [''ws'']" by code_simp
  have b: "read_dir plain_tree [''ws''] = Inr [(''f'', File [1] 420)]" by code_simp
  have c: "agent_limit (jget ''max_results'' (JObject [])) MAX_RESULTS MAX_RESULTS = Inr 1000"
    by (simp add: agent_limit_def MAX_RESULTS_def)
  from conjunct1 [OF agent_searches_honest [OF a b c]] obtain entries where
    "agent_ls demo_agent (JObject []) plain_tree = Inr (JObject [(''entries'', JArray entries), (''truncated'', JBool (1000 < length [(''f'', File [1] 420)]))])"
    "length entries = min 1000 (length [(''f'', File [1] 420)])" by blast
  then show ?thesis by simp
qed

theorem agent_file_access_witness:
  "agent_read demo_agent (JObject [(''path'', JString ''f''), (''max_bytes'', JNumber 9)]) plain_tree =
     Inr (JObject [(''data'', byte_array [1]), (''truncated'', JBool False), (''total_bytes'', JNumber 1)])"
proof -
  let ?r = "JObject [(''path'', JString ''f''), (''max_bytes'', JNumber 9)]"
  have g: "guest_path plain_tree (ag_root demo_agent) (jget ''path'' ?r) = Inr [''ws'', ''f'']" by code_simp
  have l: "agent_limit (jget ''max_bytes'' ?r) AGENT_MAX_BYTES AGENT_MAX_BYTES = Inr 9"
    by (simp add: agent_limit_def as_u64_def AGENT_MAX_BYTES_def)
  have r: "ag_root demo_agent = [''ws'']" by (simp add: demo_agent_def)
  have f: "leaf plain_tree [''ws'', ''f''] = Some (File [1] 420)" by (simp add: plain_tree_def leaf_def)
  have o: "or_else (u64_field ''offset'' ?r) 0 = 0" by (simp add: u64_field_def or_else_def)
  note c = conjunct2 [OF agent_file_access [OF plain_tree_facts(1) plain_tree_facts(2,3) [folded r] g, where b = "[1]" and m = 420 and mx = 9]]
  have "agent_read demo_agent ?r plain_tree = Inr (JObject [(''data'', byte_array (take 9 (drop 0 [1]))),
      (''truncated'', JBool (0 + 9 < length [1 :: byte])), (''total_bytes'', JNumber (int (length [1 :: byte])))])"
    using mp [OF c] f l unfolding o by simp
  then show ?thesis by simp
qed

end
