(* ===== verification/Agent_Stream.thy ===== *)
theory Agent_Stream
  imports Agent_Exec
begin

text \<open>
  Streamed commands of the forkd guest agent, \<^verbatim>\<open>rfb-runtime/src/agent/stream.rs\<close>: the loop that multiplexes the
  child's two pipes, its exit, the deadline and the client's input lines, and the final draining.

  The loop is driven by the branches that win its \<^verbatim>\<open>select!\<close>, in order. Polling the line reader may consume
  buffers without completing a line; such a poll is an event of its own that leaves the loop where it is.
  Every completed branch drops the other futures, the unfinished line among them. A frame is the value given
  to \<^verbatim>\<open>write_json\<close>; \<open>werr n\<close> is the error of the write after \<open>n\<close> frames, if it fails.
\<close>

section \<open>Events and state\<close>

text \<open>How forwarding a text to the child's standard input ends.\<close>

datatype forward_end = FwOk | FwBroken | FwTimeout

datatype stream_event =
    SvTimeout
  | SvExit "string + int option"
  | SvOut "string + bytes"
  | SvErr "string + bytes"
  | SvInput "string + bytes" forward_end

text \<open>While the pipes are drained: what a read returns, or that the time is up.\<close>

datatype drain_event = DOut "string + bytes" | DErr "string + bytes" | DCap

record stream_state =
  ss_out :: utf8_chunk_decoder
  ss_err :: utf8_chunk_decoder
  ss_out_open :: bool
  ss_err_open :: bool
  ss_buffer :: bytes
  ss_input :: bytes
  ss_stdin :: "string list"
  ss_frames :: "json list"

definition emit :: "(nat \<Rightarrow> string option) \<Rightarrow> json \<Rightarrow> stream_state \<Rightarrow> string + stream_state" where
  "emit werr v st =
     (case werr (length (ss_frames st)) of Some e \<Rightarrow> Inl e | None \<Rightarrow> Inr (st\<lparr>ss_frames := ss_frames st @ [v]\<rparr>))"

definition emit_chunk :: "(nat \<Rightarrow> string option) \<Rightarrow> string \<Rightarrow> bytes \<Rightarrow> stream_state \<Rightarrow> string + stream_state" where
  "emit_chunk werr key text st =
     (if text = [] then Inr st else emit werr (JObject [(key, JString (str_of_bytes text))]) st)"

text \<open>One read of a pipe: nothing read means the end of the stream.\<close>

definition feed_out :: "(nat \<Rightarrow> string option) \<Rightarrow> bytes \<Rightarrow> stream_state \<Rightarrow> string + stream_state" where
  "feed_out werr b st =
     (if b = []
      then map_sum id (\<lambda>s. s\<lparr>ss_out := snd (flush (ss_out st))\<rparr>) (emit_chunk werr ''out'' (fst (flush (ss_out st))) st)
      else map_sum id (\<lambda>s. s\<lparr>ss_out := snd (decode (ss_out st) b)\<rparr>) (emit_chunk werr ''out'' (fst (decode (ss_out st) b)) st))"

definition feed_err :: "(nat \<Rightarrow> string option) \<Rightarrow> bytes \<Rightarrow> stream_state \<Rightarrow> string + stream_state" where
  "feed_err werr b st =
     (if b = []
      then map_sum id (\<lambda>s. s\<lparr>ss_err := snd (flush (ss_err st))\<rparr>) (emit_chunk werr ''err'' (fst (flush (ss_err st))) st)
      else map_sum id (\<lambda>s. s\<lparr>ss_err := snd (decode (ss_err st) b)\<rparr>) (emit_chunk werr ''err'' (fst (decode (ss_err st) b)) st))"

section \<open>Draining\<close>

text \<open>
  \<^verbatim>\<open>drain_streams_bounded\<close> with its attempts left; reads on a closed side are not polled. Beyond the events
  given the time is up.
\<close>

fun drain :: "(nat \<Rightarrow> string option) \<Rightarrow> nat \<Rightarrow> bool \<Rightarrow> bool \<Rightarrow> drain_event list \<Rightarrow> stream_state \<Rightarrow> string + stream_state" where
  "drain werr attempts out_open err_open evs st =
     (if attempts = 0 \<or> (\<not> out_open \<and> \<not> err_open) then Inr st
      else (case evs of
          [] \<Rightarrow> Inr st
        | DCap # evs1 \<Rightarrow> drain werr (attempts - 1) True True evs1 st
        | DOut r # evs1 \<Rightarrow>
            if \<not> out_open then drain werr attempts out_open err_open evs1 st
            else res_bind r (\<lambda>b. res_bind (feed_out werr b st) (\<lambda>st1. drain werr attempts (b \<noteq> []) err_open evs1 st1))
        | DErr r # evs1 \<Rightarrow>
            if \<not> err_open then drain werr attempts out_open err_open evs1 st
            else res_bind r (\<lambda>b. res_bind (feed_err werr b st) (\<lambda>st1. drain werr attempts out_open (b \<noteq> []) evs1 st1))))"

declare drain.simps [simp del]

definition done_frame :: "bool \<Rightarrow> json" where
  "done_frame timed_out = JObject [(''exit_code'', JNull), (''timed_out'', JBool timed_out), (''done'', JBool True)]"

definition exit_frame :: "int option \<Rightarrow> json" where
  "exit_frame code = JObject [(''exit_code'', case code of Some n \<Rightarrow> JNumber n | None \<Rightarrow> JNull), (''timed_out'', JBool False)]"

text \<open>Drain both pipes, then write the terminal frame.\<close>

definition finish_stream ::
  "(nat \<Rightarrow> string option) \<Rightarrow> json \<Rightarrow> drain_event list \<Rightarrow> stream_state \<Rightarrow> string + stream_state" where
  "finish_stream werr last_frame devs st = res_bind (drain werr 2 True True devs st) (emit werr last_frame)"

section \<open>Input lines\<close>

datatype line_outcome = LsEof | LsTooLong | LsLine bytes bytes | LsMore bytes

text \<open>\<^verbatim>\<open>read_line_bounded\<close> on one buffer: the line with its rest of the buffer, or the line so far.\<close>

definition line_step :: "nat \<Rightarrow> bytes \<Rightarrow> bytes \<Rightarrow> line_outcome" where
  "line_step cap input available =
     (if available = [] then (if input = [] then LsEof else LsLine input [])
      else (case position 10 available of
          Some pos \<Rightarrow>
            if cap < length input + pos + 1 then LsTooLong
            else LsLine (input @ take (pos + 1) available) (drop (pos + 1) available)
        | None \<Rightarrow> if cap < length input + length available then LsTooLong else LsMore (input @ available)))"

definition trim_ascii :: "bytes \<Rightarrow> bytes" where
  "trim_ascii b = (let ws = (\<lambda>c. c \<in> {9, 10, 12, 13, 32}) in rev (dropWhile ws (rev (dropWhile ws b))))"

section \<open>The loop\<close>

datatype stream_end = Ended stream_state | Broken string | Going stream_state

definition ended :: "string + stream_state \<Rightarrow> stream_end" where
  "ended r = (case r of Inl e \<Rightarrow> Broken e | Inr st \<Rightarrow> Ended st)"

text \<open>A completed branch other than the line reader: its partial line is dropped.\<close>

abbreviation next_round :: "stream_state \<Rightarrow> stream_state" where
  "next_round st \<equiv> st\<lparr>ss_input := []\<rparr>"

definition stream_line ::
  "json_lib \<Rightarrow> (nat \<Rightarrow> string option) \<Rightarrow> drain_event list \<Rightarrow> bytes \<Rightarrow> forward_end \<Rightarrow> stream_state \<Rightarrow> stream_end" where
  "stream_line lib werr devs line fw st =
     (let v = (case jl_parse lib (trim_ascii line) of Inr v \<Rightarrow> v | Inl _ \<Rightarrow> JNull) in
      if str_field ''action'' v = Some ''stop'' then ended (finish_stream werr (done_frame False) devs st)
      else (case str_field ''in'' v of
          None \<Rightarrow> Going (next_round st)
        | Some text \<Rightarrow>
            (case fw of
               FwOk \<Rightarrow> Going (next_round (st\<lparr>ss_stdin := ss_stdin st @ [text]\<rparr>))
             | FwBroken \<Rightarrow> Going (next_round st)
             | FwTimeout \<Rightarrow> ended (finish_stream werr (done_frame False) devs st))))"

definition stream_step ::
  "json_lib \<Rightarrow> (nat \<Rightarrow> string option) \<Rightarrow> drain_event list \<Rightarrow> stream_event \<Rightarrow> stream_state \<Rightarrow> stream_end" where
  "stream_step lib werr devs ev st =
     (case ev of
        SvTimeout \<Rightarrow> ended (finish_stream werr (done_frame True) devs st)
      | SvExit (Inl e) \<Rightarrow> Broken e
      | SvExit (Inr code) \<Rightarrow> ended (finish_stream werr (exit_frame code) devs st)
      | SvOut r \<Rightarrow>
          if \<not> ss_out_open st then Going st
          else (case res_bind r (\<lambda>b. map_sum id (\<lambda>s. s\<lparr>ss_out_open := b \<noteq> []\<rparr>) (feed_out werr b st)) of
              Inl e \<Rightarrow> Broken e | Inr st1 \<Rightarrow> Going (next_round st1))
      | SvErr r \<Rightarrow>
          if \<not> ss_err_open st then Going st
          else (case res_bind r (\<lambda>b. map_sum id (\<lambda>s. s\<lparr>ss_err_open := b \<noteq> []\<rparr>) (feed_err werr b st)) of
              Inl e \<Rightarrow> Broken e | Inr st1 \<Rightarrow> Going (next_round st1))
      | SvInput r fw \<Rightarrow>
          (case (if ss_buffer st \<noteq> [] then Inr (ss_buffer st) else r) of
             Inl e \<Rightarrow> Broken e
           | Inr available \<Rightarrow>
               (case line_step MAX_LINE (ss_input st) available of
                  LsEof \<Rightarrow> ended (finish_stream werr (done_frame False) devs st)
                | LsTooLong \<Rightarrow> ended (finish_stream werr (done_frame False) devs st)
                | LsMore input \<Rightarrow> Going (st\<lparr>ss_buffer := [], ss_input := input\<rparr>)
                | LsLine line rest \<Rightarrow> stream_line lib werr devs line fw (st\<lparr>ss_buffer := rest\<rparr>))))"

fun stream_loop ::
  "json_lib \<Rightarrow> (nat \<Rightarrow> string option) \<Rightarrow> drain_event list \<Rightarrow> stream_event list \<Rightarrow> stream_state \<Rightarrow> stream_end" where
  "stream_loop lib werr devs [] st = Going st"
| "stream_loop lib werr devs (ev # evs) st =
     (case stream_step lib werr devs ev st of Going st1 \<Rightarrow> stream_loop lib werr devs evs st1 | r \<Rightarrow> r)"

definition stream_start :: "bytes \<Rightarrow> stream_state" where
  "stream_start buffer = \<lparr>ss_out = decoder_new, ss_err = decoder_new, ss_out_open = True, ss_err_open = True,
     ss_buffer = buffer, ss_input = [], ss_stdin = [], ss_frames = []\<rparr>"

definition started_frame :: "json \<Rightarrow> json" where
  "started_frame pid = JObject [(''stream'', JString ''started''), (''pid'', pid), (''pty'', JBool False)]"

text \<open>The whole request; \<open>evs\<close> and \<open>devs\<close> are the events of the spawned child's session.\<close>

definition stream_process ::
  "agent_env \<Rightarrow> json_lib \<Rightarrow> (nat \<Rightarrow> string option) \<Rightarrow> json \<Rightarrow> json \<Rightarrow> stream_event list \<Rightarrow> drain_event list \<Rightarrow> bytes \<Rightarrow> node \<Rightarrow> stream_end" where
  "stream_process ag lib werr pid request evs devs buffer fs =
     (let st = stream_start buffer in
      if or_else (Option.bind (jget ''pty'' request) as_bool) False
      then ended (emit werr (JObject [(''error'', JString ''pty is not supported''), (''exit_code'', JNumber 1)]) st)
      else (case builtin request of
          Some kind \<Rightarrow>
            ended (res_bind (agent_validate_builtin ag fs request) (\<lambda>_.
              let result = builtin_result (ag_reachable ag) request kind;
                  out = or_else (str_field ''out'' result) []
              in res_bind (emit werr (started_frame JNull) st) (\<lambda>st1.
                 res_bind (if out = [] then Inr st1 else emit werr (JObject [(''out'', or_else (jget ''out'' result) JNull)]) st1) (\<lambda>st2.
                   emit werr (JObject [(''exit_code'', or_else (jget ''exit_code'' result) JNull), (''timed_out'', JBool False)]) st2))))
        | None \<Rightarrow>
            (case command_from ag fs request of
               Inl e \<Rightarrow> Broken e
             | Inr command \<Rightarrow>
                 (case ag_spawn_error ag command fs of
                    Some e \<Rightarrow> Broken e
                  | None \<Rightarrow>
                      (case emit werr (started_frame pid) st of
                         Inl e \<Rightarrow> Broken e
                       | Inr st1 \<Rightarrow> stream_loop lib werr devs evs st1)))))"

section \<open>Frames\<close>

text \<open>A terminal frame is one with an exit code; the frames of a running session have none.\<close>

definition is_terminal :: "json \<Rightarrow> bool" where
  "is_terminal v \<longleftrightarrow> jget ''exit_code'' v \<noteq> None"

definition extends :: "stream_state \<Rightarrow> stream_state \<Rightarrow> bool" where
  "extends st st1 \<longleftrightarrow> (\<exists>fs. ss_frames st1 = ss_frames st @ fs \<and> list_all (\<lambda>v. \<not> is_terminal v) fs)"

lemma extends_refl [simp]: "extends st st"
  by (simp add: extends_def)

lemma extends_trans: "extends a b \<Longrightarrow> extends b c \<Longrightarrow> extends a c"
  by (auto simp: extends_def)

lemma extends_fields [simp]:
  "extends st (st1\<lparr>ss_out := d\<rparr>) = extends st st1" "extends st (st1\<lparr>ss_err := d\<rparr>) = extends st st1"
  "extends st (st1\<lparr>ss_input := i\<rparr>) = extends st st1" "extends st (st1\<lparr>ss_buffer := b\<rparr>) = extends st st1"
  "extends st (st1\<lparr>ss_out_open := x\<rparr>) = extends st st1" "extends st (st1\<lparr>ss_err_open := x\<rparr>) = extends st st1"
  "extends st (st1\<lparr>ss_stdin := l\<rparr>) = extends st st1"
  by (simp_all add: extends_def)

lemma emit_chunk_extends: "emit_chunk werr key text st = Inr st1 \<Longrightarrow> key \<noteq> ''exit_code'' \<Longrightarrow> extends st st1"
  by (auto simp: emit_chunk_def emit_def extends_def is_terminal_def split: if_splits option.splits)

lemma map_sum_Inr: "map_sum id f r = Inr y \<longleftrightarrow> (\<exists>x. r = Inr x \<and> y = f x)"
  by (cases r) auto

lemma feed_extends: "feed_out werr b st = Inr st1 \<Longrightarrow> extends st st1" "feed_err werr b st = Inr st1 \<Longrightarrow> extends st st1"
  by (auto simp: feed_out_def feed_err_def map_sum_Inr dest: emit_chunk_extends split: if_splits)

lemma drain_extends: "drain werr n o1 o2 evs st = Inr st1 \<Longrightarrow> extends st st1"
proof (induction evs arbitrary: n o1 o2 st)
  case Nil
  then show ?case by (subst (asm) drain.simps) (auto split: if_splits)
next
  case (Cons ev evs)
  note IH = Cons.IH
  show ?case
  proof (cases "n = 0 \<or> (\<not> o1 \<and> \<not> o2)")
    case True
    then show ?thesis using Cons.prems by (subst (asm) drain.simps) auto
  next
    case False
    show ?thesis
    proof (cases ev)
      case DCap
      then show ?thesis using Cons.prems False IH by (subst (asm) drain.simps) auto
    next
      case (DOut r)
      then show ?thesis using Cons.prems False
        by (subst (asm) drain.simps) (auto simp: res_bind_eq_Inr_conv split: if_splits dest!: IH feed_extends(1) intro: extends_trans)
    next
      case (DErr r)
      then show ?thesis using Cons.prems False
        by (subst (asm) drain.simps) (auto simp: res_bind_eq_Inr_conv split: if_splits dest!: IH feed_extends(2) intro: extends_trans)
    qed
  qed
qed

text \<open>The end of a session: a terminal frame behind frames that are none.\<close>

definition closed_by :: "stream_state \<Rightarrow> stream_state \<Rightarrow> bool" where
  "closed_by st st1 \<longleftrightarrow> (\<exists>fs t. ss_frames st1 = ss_frames st @ fs @ [t] \<and> list_all (\<lambda>v. \<not> is_terminal v) fs \<and> is_terminal t)"

lemma closed_by_extends: "extends a b \<Longrightarrow> closed_by b c \<Longrightarrow> closed_by a c"
proof -
  assume "extends a b" "closed_by b c"
  then obtain fs1 fs t where "ss_frames b = ss_frames a @ fs1" "list_all (\<lambda>v. \<not> is_terminal v) fs1"
    "ss_frames c = ss_frames b @ fs @ [t]" "list_all (\<lambda>v. \<not> is_terminal v) fs" "is_terminal t"
    by (auto simp: extends_def closed_by_def)
  then show "closed_by a c" unfolding closed_by_def by (intro exI [of _ "fs1 @ fs"] exI [of _ t]) auto
qed

lemma finish_closed:
  assumes "finish_stream werr t devs st = Inr st1" "is_terminal t"
  shows "closed_by st st1"
proof -
  obtain st2 where d: "drain werr 2 True True devs st = Inr st2" "emit werr t st2 = Inr st1"
    using assms(1) by (auto simp: finish_stream_def res_bind_eq_Inr_conv)
  then have "closed_by st2 st1" using assms(2) by (auto simp: emit_def closed_by_def split: option.splits)
  then show ?thesis using closed_by_extends drain_extends [OF d(1)] by blast
qed

lemma terminal_frames [simp]: "is_terminal (done_frame b)" "is_terminal (exit_frame code)"
  by (simp_all add: is_terminal_def done_frame_def exit_frame_def)

lemma ended_Ended: "ended r = Ended st \<longleftrightarrow> r = Inr st" "ended r \<noteq> Going st"
  by (auto simp: ended_def split: sum.splits)

lemma stream_line_frames:
  "stream_line lib werr devs line fw st = Ended st1 \<Longrightarrow> closed_by st st1"
  "stream_line lib werr devs line fw st = Going st1 \<Longrightarrow> extends st st1"
  by (auto simp: stream_line_def Let_def ended_Ended split: if_splits option.splits forward_end.splits intro: finish_closed)

lemma closed_by_buffer [simp]: "closed_by (st\<lparr>ss_buffer := b\<rparr>) st1 = closed_by st st1" "extends (st\<lparr>ss_buffer := b\<rparr>) st1 = extends st st1"
  by (simp_all add: closed_by_def extends_def)

lemma stream_step_frames:
  assumes "stream_step lib werr devs ev st = r"
  shows "r = Ended st1 \<Longrightarrow> closed_by st st1" "r = Going st1 \<Longrightarrow> extends st st1"
  using assms stream_line_frames [of lib werr devs _ _ "st\<lparr>ss_buffer := _\<rparr>" st1]
  by (auto simp: stream_step_def ended_Ended map_sum_Inr res_bind_eq_Inr_conv feed_extends
      split: stream_event.splits sum.splits if_splits line_outcome.splits intro: finish_closed)

lemma stream_loop_closed: "stream_loop lib werr devs evs st = Ended st1 \<Longrightarrow> closed_by st st1"
proof (induction evs arbitrary: st)
  case (Cons ev evs)
  then show ?case
    using stream_step_frames [OF refl, of lib werr devs ev st]
    by (auto split: stream_end.splits intro: closed_by_extends)
qed simp

section \<open>Properties\<close>

text \<open>
  C29. A streamed command has exactly one terminal frame, and it is the last: whichever branch ends the session
  (exit, deadline, stop, end of input, an oversized line, a blocked standard input), a session that ends
  without a transport error has written one frame with an exit code, behind all output.
\<close>

theorem stream_ends_once:
  assumes "stream_process ag lib werr pid request evs devs buffer fs = Ended st"
  shows "\<exists>mids t. ss_frames st = mids @ [t] \<and> is_terminal t \<and> list_all (\<lambda>v. \<not> is_terminal v) mids"
proof (cases "or_else (Option.bind (jget ''pty'' request) as_bool) False")
  case True
  then show ?thesis using assms
    by (auto simp: stream_process_def Let_def ended_Ended emit_def stream_start_def is_terminal_def split: option.splits)
next
  case npty: False
  show ?thesis
  proof (cases "builtin request")
    case (Some kind)
    then show ?thesis using assms npty
      by (auto simp: stream_process_def Let_def ended_Ended emit_def stream_start_def is_terminal_def started_frame_def
          res_bind_eq_Inr_conv split: option.splits if_splits)
  next
    case None
    then obtain st1 where s: "emit werr (started_frame pid) (stream_start buffer) = Inr st1" "stream_loop lib werr devs evs st1 = Ended st"
      using assms npty by (auto simp: stream_process_def Let_def split: sum.splits option.splits)
    then have f: "ss_frames st1 = [started_frame pid]" by (auto simp: emit_def stream_start_def split: option.splits)
    from stream_loop_closed [OF s(2)] obtain mids t where "ss_frames st = [started_frame pid] @ mids @ [t]" "is_terminal t"
      "list_all (\<lambda>v. \<not> is_terminal v) mids" by (auto simp: closed_by_def f)
    then show ?thesis
      by (intro exI [of _ "started_frame pid # mids"] exI [of _ t]) (auto simp: is_terminal_def started_frame_def)
  qed
qed

text \<open>
  Input can be lost. An input line that reaches the agent in two buffers is forwarded when nothing happens in
  between; but when the child writes output between the two, the first part has been consumed and is
  dropped with the unfinished line reader, the second part is not a message, and the text is never forwarded.
\<close>

theorem stream_input_lost:
  assumes "10 \<notin> set a" "a \<noteq> []" "10 \<notin> set b" "length a + length b < MAX_LINE" "x \<noteq> []" "\<forall>n. werr n = None"
    "jl_parse lib (trim_ascii (a @ b @ [10])) = Inr (JObject [(''in'', JString text)])" "jl_parse lib (trim_ascii (b @ [10])) = Inl e"
    "ss_buffer st = []" "ss_input st = []" "ss_out_open st"
  shows "(\<exists>st1. stream_loop lib werr devs [SvInput (Inr a) fw, SvInput (Inr (b @ [10])) FwOk] st = Going st1
      \<and> ss_stdin st1 = ss_stdin st @ [text])
    \<and> (\<exists>st1. stream_loop lib werr devs [SvInput (Inr a) fw, SvOut (Inr x), SvInput (Inr (b @ [10])) FwOk] st = Going st1
      \<and> ss_stdin st1 = ss_stdin st \<and> ss_buffer st1 = [] \<and> ss_input st1 = [])"
proof
  have "takeWhile (\<lambda>x. x \<noteq> 10) (b @ [10]) = b"
    using assms(3) by (subst takeWhile_append2) auto
  then have pos: "position 10 a = None" "position 10 (b @ [10]) = Some (length b)"
    using assms(1) by (simp_all add: position_def)
  have more: "line_step MAX_LINE [] a = LsMore a" using assms(2,4) pos(1) by (simp add: line_step_def)
  have full: "line_step MAX_LINE a (b @ [10]) = LsLine (a @ b @ [10]) []" "line_step MAX_LINE [] (b @ [10]) = LsLine (b @ [10]) []"
    using assms(4) pos(2) by (simp_all add: line_step_def)
  show "\<exists>st1. stream_loop lib werr devs [SvInput (Inr a) fw, SvInput (Inr (b @ [10])) FwOk] st = Going st1
      \<and> ss_stdin st1 = ss_stdin st @ [text]"
    using assms(7,9,10) more full(1) by (simp add: stream_step_def stream_line_def Let_def str_field_def)
  let ?st = "st\<lparr>ss_buffer := [], ss_input := a\<rparr>"
  have "\<exists>st3. feed_out werr x ?st = Inr st3"
    using assms(5,6) by (cases "fst (decode (ss_out st) x) = []") (simp_all add: feed_out_def emit_chunk_def emit_def)
  then obtain st3 where "feed_out werr x ?st = Inr st3" by blast
  moreover from this have "ss_stdin st3 = ss_stdin ?st \<and> ss_buffer st3 = ss_buffer ?st"
    using assms(5,6) by (auto simp: feed_out_def emit_chunk_def emit_def split: if_splits)
  ultimately have f: "feed_out werr x ?st = Inr st3" "ss_stdin st3 = ss_stdin st" "ss_buffer st3 = []" by simp_all
  then show "\<exists>st1. stream_loop lib werr devs [SvInput (Inr a) fw, SvOut (Inr x), SvInput (Inr (b @ [10])) FwOk] st = Going st1
      \<and> ss_stdin st1 = ss_stdin st \<and> ss_buffer st1 = [] \<and> ss_input st1 = []"
    using assms(5,8-11) more full(2) by (simp add: stream_step_def stream_line_def Let_def str_field_def)
qed

section \<open>Witnesses\<close>

definition demo_stream_lib :: json_lib where
  "demo_stream_lib = \<lparr>jl_parse = (\<lambda>d. if d = [1, 2] then Inr (JObject [(''in'', JString ''hi'')]) else Inl ''syntax''),
     jl_print = (\<lambda>_. []), jl_terminal = (\<lambda>_. []), jl_base64 = (\<lambda>_. Inl [])\<rparr>"

theorem stream_ends_once_witness:
  "\<exists>st mids t. stream_process demo_agent demo_stream_lib (\<lambda>_. None) (JNumber 7) demo_exec [SvOut (Inr [104]), SvExit (Inr (Some 0))] [] [] plain_tree
      = Ended st \<and> ss_frames st = mids @ [t] \<and> is_terminal t"
proof -
  let ?p = "stream_process demo_agent demo_stream_lib (\<lambda>_. None) (JNumber 7) demo_exec [SvOut (Inr [104]), SvExit (Inr (Some 0))] [] [] plain_tree"
  have "case ?p of Ended _ \<Rightarrow> True | _ \<Rightarrow> False" by code_simp
  then obtain st where "?p = Ended st" by (cases ?p) auto
  with stream_ends_once [OF this] show ?thesis by blast
qed

theorem stream_input_lost_witness:
  "\<exists>st1. stream_loop demo_stream_lib (\<lambda>_. None) [] [SvInput (Inr [1]) FwOk, SvOut (Inr [104]), SvInput (Inr ([2] @ [10])) FwOk] (stream_start [])
      = Going st1 \<and> ss_stdin st1 = []"
proof -
  have "trim_ascii ([1] @ [2] @ [10]) = [1, 2]" "trim_ascii ([2] @ [10]) = [2]" by (simp_all add: trim_ascii_def)
  then have "jl_parse demo_stream_lib (trim_ascii ([1] @ [2] @ [10])) = Inr (JObject [(''in'', JString ''hi'')])"
    "jl_parse demo_stream_lib (trim_ascii ([2] @ [10])) = Inl ''syntax''" by (simp_all add: demo_stream_lib_def)
  with stream_input_lost [of "[1]" "[2]" "[104]" "\<lambda>_. None" demo_stream_lib "''hi''" "''syntax''" "stream_start []" "[]" FwOk]
  show ?thesis by (auto simp: stream_start_def MAX_LINE_def simp del: stream_loop.simps)
qed

end
