(* ===== verification/Agent_Server.thy ===== *)
theory Agent_Server
  imports Agent_Search Agent_Stream
begin

text \<open>
  A connection of the forkd guest agent, \<^verbatim>\<open>handle_connection\<close> of \<^verbatim>\<open>rfb-runtime/src/agent/mod.rs\<close>: the token gate, then
  one request per line. A \<^verbatim>\<open>stream\<close> request hands the connection over to \<^verbatim>\<open>stream_process\<close>, which ends it; the
  other requests run to their response before the next line is read.
\<close>

definition DEFAULT_GUEST_PATH :: string where
  "DEFAULT_GUEST_PATH = ''/usr/local/sbin:/usr/local/bin:/usr/sbin:/usr/bin:/sbin:/bin''"

text \<open>The first \<^verbatim>\<open>PATH=\<close> line of \<^verbatim>\<open>/etc/environment\<close>.\<close>

fun path_line :: "string list \<Rightarrow> string option" where
  "path_line [] = None"
| "path_line (raw # lines) =
     (let line = trim raw in
      if line = [] \<or> starts_with line ''#'' then path_line lines
      else (case strip_prefix ''PATH='' line of Some v \<Rightarrow> Some (trim v) | None \<Rightarrow> path_line lines))"

definition container_path :: "agent_env \<Rightarrow> string" where
  "container_path ag = or_else (Option.bind (ag_environment ag) (path_line \<circ> str_lines)) DEFAULT_GUEST_PATH"

definition ping_response :: "agent_env \<Rightarrow> json" where
  "ping_response ag =
     JObject [(''pong'', JBool True), (''numpy_version'', JString ''not-installed''), (''pid'', JNumber (int (ag_pid ag))),
       (''agent_lang'', JString ''rust''), (''warmup_ready'', JBool False), (''protocol_version'', JNumber 1),
       (''path'', JString (container_path ag))]"

definition structured_actions :: "string list" where
  "structured_actions = [''ls'', ''find'', ''grep'', ''read'', ''write'', ''eval'']"

definition agent_action :: "agent_env \<Rightarrow> json_lib \<Rightarrow> string \<Rightarrow> json \<Rightarrow> node \<Rightarrow> (string + json) \<times> node" where
  "agent_action ag lib action request fs =
     (if action = ''ping'' then (Inr (ping_response ag), fs)
      else if action = ''exec'' then execute ag lib request fs
      else if action \<in> set structured_actions then agent_structured ag lib action request fs
      else (Inl (''unknown action: '' @ action), fs))"

datatype conn_end = CClosed "string + unit" | CStream json

definition error_object :: "string \<Rightarrow> json" where
  "error_object e = JObject [(''error'', JString e), (''exit_code'', JNumber 1)]"

text \<open>Every line read shortens what is left of the transport.\<close>

fun fill_weight :: "fill list \<Rightarrow> nat" where
  "fill_weight [] = 0"
| "fill_weight (FData b # fs) = Suc (length b) + fill_weight fs"
| "fill_weight (_ # fs) = Suc (fill_weight fs)"

lemma fill_weight_push: "fill_weight (push_back b fs) \<le> Suc (length b) + fill_weight fs"
  by (simp add: push_back_def)

lemma fill_scan_weight:
  "fill_scan line over fs = (Inr (complete, l, over'), rest) \<Longrightarrow>
     fill_weight rest < fill_weight fs \<or> (complete = (line \<noteq> []) \<and> fill_weight rest = fill_weight fs)"
proof (induction line over fs rule: fill_scan.induct)
  case (4 line over available fs)
  show ?case
  proof (cases "available = []")
    case True
    then show ?thesis using 4(2) by auto
  next
    case ne: False
    show ?thesis
    proof (cases "position 10 available")
      case (Some pos)
      have "fill_weight rest \<le> Suc (length available - (pos + 1)) + fill_weight fs"
        using 4(2) ne Some fill_weight_push [of "drop (pos + 1) available" fs] by (auto split: if_splits)
      then show ?thesis using position_cut(3) [OF Some] by auto
    next
      case None
      then show ?thesis using 4(1) [OF ne None refl] 4(2) ne by (auto simp: Let_def)
    qed
  qed
qed auto

lemma read_incoming_weight:
  "read_incoming fs = (Inr i, rest) \<Longrightarrow> i = Blank \<or> i = Line l \<Longrightarrow> fill_weight rest < fill_weight fs"
  by (auto simp: read_incoming_def dest!: fill_scan_weight split: prod.splits sum.splits if_splits)

function agent_loop ::
  "agent_env \<Rightarrow> json_lib \<Rightarrow> (nat \<Rightarrow> string option) \<Rightarrow> fill list \<Rightarrow> bytes list \<Rightarrow> node
     \<Rightarrow> conn_end \<times> fill list \<times> bytes list \<times> node" where
  "agent_loop ag lib werr fills out fs =
     (case read_incoming fills of
        (Inl e, rest) \<Rightarrow> (CClosed (Inl e), rest, out, fs)
      | (Inr Eof, rest) \<Rightarrow> (CClosed (Inr ()), rest, out, fs)
      | (Inr Overflow, rest) \<Rightarrow>
          (case write_json lib werr (JObject [(''error'', JString ''line too large'')]) out of
             (r, out1) \<Rightarrow> (CClosed r, rest, out1, fs))
      | (Inr Blank, rest) \<Rightarrow> agent_loop ag lib werr rest out fs
      | (Inr (Line line), rest) \<Rightarrow>
          (case jl_parse lib line of
             Inl e \<Rightarrow>
               (case write_json lib werr (JObject [(''error'', JString (''invalid JSON: '' @ e))]) out of
                  (Inl e1, out1) \<Rightarrow> (CClosed (Inl e1), rest, out1, fs)
                | (Inr _, out1) \<Rightarrow> agent_loop ag lib werr rest out1 fs)
           | Inr request \<Rightarrow>
               (let action = or_else (str_field ''action'' request) [] in
                if action = ''stream'' then (CStream request, rest, out, fs)
                else (case agent_action ag lib action request fs of
                    (r, fs1) \<Rightarrow>
                      (case write_json lib werr (case r of Inr v \<Rightarrow> v | Inl e \<Rightarrow> error_object e) out of
                         (Inl e1, out1) \<Rightarrow> (CClosed (Inl e1), rest, out1, fs1)
                       | (Inr _, out1) \<Rightarrow> agent_loop ag lib werr rest out1 fs1)))))"
  by pat_completeness auto
termination
  by (relation "measure (\<lambda>(ag, lib, werr, fills, out, fs). fill_weight fills)") (auto dest: read_incoming_weight [OF sym])

declare agent_loop.simps [simp del]

definition agent_connection ::
  "agent_env \<Rightarrow> json_lib \<Rightarrow> (nat \<Rightarrow> string option) \<Rightarrow> bool \<Rightarrow> string option \<Rightarrow> fill list \<Rightarrow> node
     \<Rightarrow> conn_end \<times> fill list \<times> bytes list \<times> node" where
  "agent_connection ag lib werr timely token fills fs =
     (case token of
        None \<Rightarrow> agent_loop ag lib werr fills [] fs
      | Some expected \<Rightarrow>
          (case authenticate lib werr timely expected fills [] of
             (Inl e, rest, out) \<Rightarrow> (CClosed (Inl e), rest, out, fs)
           | (Inr False, rest, out) \<Rightarrow> (CClosed (Inr ()), rest, out, fs)
           | (Inr True, rest, out) \<Rightarrow> agent_loop ag lib werr rest out fs))"

section \<open>Properties\<close>

text \<open>
  Lines do not depend on how the transport cuts the stream: for every sequence of non-empty buffers, with
  interruptions anywhere, the reader delivers what the first line of the whole stream is (too long when it
  exceeds \<open>MAX_LINE\<close> with its terminator, blank, or its content without the line end), never holds more than that, and
  leaves exactly the bytes behind the line for the next one.
\<close>

theorem agent_lines_chunk_independent:
  assumes "list_all fill_ok fills"
  shows "\<exists>rest. read_incoming fills = (Inr (classify (first_line (fill_bytes fills))), rest)
    \<and> fill_bytes fills = first_line (fill_bytes fills) @ fill_bytes rest \<and> list_all fill_ok rest"
proof -
  obtain rest where r: "read_incoming fills = (Inr (classify (first_line (fill_bytes fills))), rest)"
    "fill_bytes rest = drop (length (first_line (fill_bytes fills))) (fill_bytes fills)" "list_all fill_ok rest"
    using read_incoming_spec [OF assms] by blast
  have "prefix (first_line bs) bs" for bs :: bytes
  proof (cases "10 \<in> set bs")
    case True
    then obtain u v where u: "bs = u @ 10 # v" "10 \<notin> set u" by (meson split_list_first)
    have "takeWhile (\<lambda>b. b \<noteq> 10) bs = u" unfolding u(1) using u(2) by (subst takeWhile_append2) auto
    then show ?thesis using u(1) by (simp add: first_line_def)
  qed (simp add: first_line_def)
  then have "fill_bytes fills = first_line (fill_bytes fills) @ fill_bytes rest"
    unfolding r(2) by (metis append_eq_conv_conj prefixE)
  then show ?thesis using r(1,3) by blast
qed

text \<open>What the gate lets through.\<close>

lemma authenticate_True:
  assumes "list_all fill_ok fills" "authenticate lib werr timely expected fills [] = (Inr True, rest, out)"
  shows "timely \<and> (\<exists>l request. classify (first_line (fill_bytes fills)) = Line l \<and> jl_parse lib l = Inr request
    \<and> str_field ''action'' request = Some ''auth''
    \<and> constant_time_eq (as_bytes expected) (as_bytes (or_else (str_field ''token'' request) [])))"
proof -
  obtain r where r: "read_incoming fills = (Inr (classify (first_line (fill_bytes fills))), r)"
    using read_incoming_spec [OF assms(1)] by blast
  show ?thesis using assms(2)
    by (auto simp: authenticate_def r Let_def split: bool.splits incoming.splits sum.splits prod.splits if_splits)
qed

lemma authenticate_writes:
  assumes "authenticate lib werr timely expected fills [] = (res, rest, out)"
  shows "length out \<le> 1"
  using assms
  by (auto simp: authenticate_def write_json_def Let_def split: bool.splits incoming.splits sum.splits prod.splits if_splits option.splits)

text \<open>
  C27. The token gate fails closed. On an agent with a token no request is executed and no file changes unless the
  first line arrives in time and is an \<^verbatim>\<open>auth\<close> message with exactly the token; otherwise the connection is
  closed after at most one response. The comparison without early exit is equality.
\<close>

theorem agent_token_gate:
  assumes "list_all fill_ok fills" "length expected < 2 ^ 64"
    "\<forall>l request. jl_parse lib l = Inr request \<longrightarrow> length (or_else (str_field ''token'' request) []) < 2 ^ 64"
    "agent_connection ag lib werr timely (Some expected) fills fs = (e, rest, out, fs')"
  shows "(timely \<and> (\<exists>l request. classify (first_line (fill_bytes fills)) = Line l \<and> jl_parse lib l = Inr request
        \<and> str_field ''action'' request = Some ''auth'' \<and> or_else (str_field ''token'' request) [] = expected))
    \<or> (fs' = fs \<and> length out \<le> 1 \<and> (\<exists>r. e = CClosed r))"
proof -
  obtain res rest1 out1 where a: "authenticate lib werr timely expected fills [] = (res, rest1, out1)" by (metis prod_cases3)
  show ?thesis
  proof (cases "res = Inr True")
    case True
    from authenticate_True [OF assms(1) a [unfolded True]] obtain l request where
      t: "timely" "classify (first_line (fill_bytes fills)) = Line l" "jl_parse lib l = Inr request" "str_field ''action'' request = Some ''auth''"
      "constant_time_eq (as_bytes expected) (as_bytes (or_else (str_field ''token'' request) []))" by blast
    have "as_bytes expected = as_bytes (or_else (str_field ''token'' request) [])"
      using t(3,5) assms(2,3) constant_time_eq_iff by simp
    then show ?thesis using t by (auto simp: as_bytes_inj)
  next
    case False
    then show ?thesis using assms(4) a authenticate_writes [OF a]
      by (cases res) (auto simp: agent_connection_def)
  qed
qed

section \<open>Witnesses\<close>

theorem agent_lines_chunk_independent_witness:
  "\<exists>rest. read_incoming [FData [104], FInterrupted, FData [105, 13, 10, 33]] = (Inr (Line [104, 105]), rest) \<and> fill_bytes rest = [33]"
proof -
  let ?f = "[FData [104], FInterrupted, FData [105, 13, 10, 33]]"
  have l: "first_line (fill_bytes ?f) = [104, 105, 13, 10]" by (simp add: first_line_def)
  have c: "classify [104, 105, 13, 10] = Line [104, 105]" by (simp add: classify_def strip_eol_def MAX_LINE_def)
  have "list_all fill_ok ?f" by simp
  from agent_lines_chunk_independent [OF this] show ?thesis unfolding l c by auto
qed

theorem agent_token_gate_witness:
  "snd (snd (snd (agent_connection demo_agent demo_stream_lib (\<lambda>_. None) True (Some ''secret'') [FData [1, 10]] plain_tree))) = plain_tree"
proof -
  let ?c = "agent_connection demo_agent demo_stream_lib (\<lambda>_. None) True (Some ''secret'') [FData [1, 10]] plain_tree"
  obtain e rest out fs' where c: "?c = (e, rest, out, fs')" by (metis prod_cases4)
  have t: "\<forall>l request. jl_parse demo_stream_lib l = Inr request \<longrightarrow> length (or_else (str_field ''token'' request) []) < 2 ^ 64"
    by (auto simp: demo_stream_lib_def str_field_def or_else_def split: if_splits)
  have "classify (first_line (fill_bytes [FData [1, 10]])) = Line [1]"
    by (simp add: first_line_def classify_def strip_eol_def MAX_LINE_def)
  moreover have "jl_parse demo_stream_lib [1] = Inl ''syntax''" by (simp add: demo_stream_lib_def)
  ultimately have "fs' = plain_tree" using agent_token_gate [OF _ _ t c] by force
  then show ?thesis using c by simp
qed

end
