(* ===== verification/Session_Pool.thy ===== *)
theory Session_Pool
  imports Contract "HOL-Library.Multiset"
begin

text \<open>
  The pool of guest connections of a ZeroBoot sandbox, \<^verbatim>\<open>SessionPool\<close> of \<^verbatim>\<open>rfb/src/zeroboot/provider.rs\<close>: slots with
  a busy and a dead flag, a semaphore with one permit per slot, and \<^verbatim>\<open>acquire\<close> and the drop of a claimed slot,
  which any number of tasks run concurrently.

  Every atomic access of \<^verbatim>\<open>acquire\<close> is a step of its own: \<open>advance\<close> is the next step of a task, its place in
  the code being a \<open>pool_pc\<close>, and \<open>pool_step\<close> interleaves the tasks with the death of connections. The
  semaphore hands permits to any waiting task. The test that all slots are dead reads the flags one by
  one; they are never lowered, so that reading them at once has the same outcomes.
\<close>

section \<open>The pool\<close>

record session_pool =
  po_alive :: "bool list"
  po_busy :: "bool list"
  po_dead :: "bool list"
  po_permits :: nat
  po_closed :: bool

definition pool_new :: "bool list \<Rightarrow> session_pool" where
  "pool_new sessions = \<lparr>po_alive = sessions, po_busy = replicate (length sessions) False,
     po_dead = replicate (length sessions) False, po_permits = length sessions, po_closed = False\<rparr>"

text \<open>\<^verbatim>\<open>primary_alive\<close>: the first connection not reported dead, or the first one.\<close>

definition primary_alive :: "session_pool \<Rightarrow> nat" where
  "primary_alive p = (case filter (\<lambda>i. po_alive p ! i) [0..<length (po_alive p)] of i # _ \<Rightarrow> i | [] \<Rightarrow> 0)"

datatype pool_error = AllDead | NoneFree

definition pool_error_of :: "pool_error \<Rightarrow> provider_error" where
  "pool_error_of e = Unavailable (case e of
     AllDead \<Rightarrow> ''all pooled guest connections are dead''
   | NoneFree \<Rightarrow> ''no live pooled guest connection is free'')"

text \<open>
  Where a task stands: waiting for a permit; about to load the dead flag of a slot; about to claim it; about
  to test its connection; condemning it in three steps; testing whether any slot is left; closing the
  semaphore; giving the permit back because no slot was found; holding a \<^verbatim>\<open>PooledSession\<close>; having
  cleared its flag with the permit still held; or at the end.
\<close>

datatype pool_pc =
    Waiting
  | Scan nat
  | Claim nat
  | Check nat
  | Condemn nat
  | Unclaim nat
  | Forget
  | Test_All
  | Closing
  | No_Slot
  | Owned nat
  | Releasing
  | Released
  | Failed pool_error

definition advance :: "session_pool \<Rightarrow> pool_pc \<Rightarrow> (session_pool \<times> pool_pc) option" where
  "advance p pc = (case pc of
     Waiting \<Rightarrow>
       if po_closed p then Some (p, Failed AllDead)
       else if 0 < po_permits p then Some (p\<lparr>po_permits := po_permits p - 1\<rparr>, Scan 0) else None
   | Scan i \<Rightarrow>
       if length (po_busy p) \<le> i then Some (p, No_Slot)
       else if po_dead p ! i then Some (p, Scan (Suc i)) else Some (p, Claim i)
   | Claim i \<Rightarrow> if po_busy p ! i then Some (p, Scan (Suc i)) else Some (p\<lparr>po_busy := (po_busy p)[i := True]\<rparr>, Check i)
   | Check i \<Rightarrow> if po_alive p ! i then Some (p, Owned i) else Some (p, Condemn i)
   | Condemn i \<Rightarrow> Some (p\<lparr>po_dead := (po_dead p)[i := True]\<rparr>, Unclaim i)
   | Unclaim i \<Rightarrow> Some (p\<lparr>po_busy := (po_busy p)[i := False]\<rparr>, Forget)
   | Forget \<Rightarrow> Some (p, Test_All)
   | Test_All \<Rightarrow> if list_all id (po_dead p) then Some (p, Closing) else Some (p, Waiting)
   | Closing \<Rightarrow> Some (p\<lparr>po_closed := True\<rparr>, Failed AllDead)
   | No_Slot \<Rightarrow> Some (p\<lparr>po_permits := po_permits p + 1\<rparr>, Failed NoneFree)
   | Owned i \<Rightarrow> Some (p\<lparr>po_busy := (po_busy p)[i := False]\<rparr>, Releasing)
   | Releasing \<Rightarrow> Some (p\<lparr>po_permits := po_permits p + 1\<rparr>, Released)
   | Released \<Rightarrow> None
   | Failed _ \<Rightarrow> None)"

inductive pool_step :: "session_pool \<times> pool_pc multiset \<Rightarrow> session_pool \<times> pool_pc multiset \<Rightarrow> bool" where
  start: "pool_step (p, M) (p, add_mset Waiting M)"
| run: "advance p pc = Some (p', pc') \<Longrightarrow> pool_step (p, add_mset pc M) (p', add_mset pc' M)"
| abandon: "pool_step (p, add_mset Waiting M) (p, M)"
| die: "i < length (po_alive p) \<Longrightarrow> pool_step (p, M) (p\<lparr>po_alive := (po_alive p)[i := False]\<rparr>, M)"

section \<open>The invariant\<close>

text \<open>Which slot a task has claimed, and from where on a task looks for one.\<close>

fun holds :: "nat \<Rightarrow> pool_pc \<Rightarrow> bool" where
  "holds i (Check j) = (i = j)"
| "holds i (Condemn j) = (i = j)"
| "holds i (Unclaim j) = (i = j)"
| "holds i (Owned j) = (i = j)"
| "holds i _ = False"

fun seeks :: "nat \<Rightarrow> pool_pc \<Rightarrow> bool" where
  "seeks q (Scan j) = (q \<le> j)"
| "seeks q (Claim j) = (q \<le> j)"
| "seeks q _ = False"

definition free_slots :: "session_pool \<Rightarrow> nat set" where
  "free_slots p = {i. i < length (po_busy p) \<and> \<not> po_dead p ! i \<and> \<not> po_busy p ! i}"

definition free_from :: "nat \<Rightarrow> session_pool \<Rightarrow> nat" where
  "free_from q p = card (free_slots p \<inter> {q..})"

abbreviation holders :: "nat \<Rightarrow> pool_pc multiset \<Rightarrow> nat" where
  "holders i M \<equiv> size (filter_mset (holds i) M)"

abbreviation seekers :: "nat \<Rightarrow> pool_pc multiset \<Rightarrow> nat" where
  "seekers q M \<equiv> size (filter_mset (seeks q) M)"

text \<open>What is true of the place of a task in every pool.\<close>

fun pc_ok :: "session_pool \<Rightarrow> pool_pc \<Rightarrow> bool" where
  "pc_ok p (Scan i) = (i \<le> length (po_busy p))"
| "pc_ok p (Claim i) = (i < length (po_busy p))"
| "pc_ok p (Check i) = (i < length (po_busy p))"
| "pc_ok p (Condemn i) = (i < length (po_busy p) \<and> \<not> po_alive p ! i)"
| "pc_ok p (Unclaim i) = (i < length (po_busy p) \<and> po_dead p ! i)"
| "pc_ok p (Owned i) = (i < length (po_busy p) \<and> \<not> po_dead p ! i)"
| "pc_ok p No_Slot = False"
| "pc_ok p (Failed NoneFree) = False"
| "pc_ok p Closing = list_all id (po_dead p)"
| "pc_ok p (Failed AllDead) = list_all id (po_dead p)"
| "pc_ok p _ = True"

definition flags_ok :: "session_pool \<Rightarrow> bool" where
  "flags_ok p \<longleftrightarrow>
     length (po_alive p) = length (po_busy p) \<and> length (po_dead p) = length (po_busy p)
   \<and> (\<forall>i < length (po_busy p). po_dead p ! i \<longrightarrow> \<not> po_alive p ! i) \<and> (po_closed p \<longrightarrow> list_all id (po_dead p))"

definition claims_ok :: "session_pool \<Rightarrow> pool_pc multiset \<Rightarrow> bool" where
  "claims_ok p M \<longleftrightarrow> (\<forall>i < length (po_busy p). holders i M = of_bool (po_busy p ! i))"

text \<open>
  Every task that looks for a slot from position \<open>q\<close> on finds one there: there are at least as many free slots
  from \<open>q\<close> on as tasks looking there, and over all slots there is a free one for each permit as well.
\<close>

definition slots_ok :: "session_pool \<Rightarrow> pool_pc multiset \<Rightarrow> bool" where
  "slots_ok p M \<longleftrightarrow> (\<forall>q. seekers q M \<le> free_from q p)
     \<and> po_permits p + seekers 0 M + count M Releasing \<le> free_from 0 p"

definition pool_inv :: "session_pool \<times> pool_pc multiset \<Rightarrow> bool" where
  "pool_inv s \<longleftrightarrow> flags_ok (fst s) \<and> (\<forall>pc \<in># snd s. pc_ok (fst s) pc) \<and> claims_ok (fst s) (snd s) \<and> slots_ok (fst s) (snd s)"

lemma free_from_antimono: "q \<le> q' \<Longrightarrow> free_from q' p \<le> free_from q p"
  unfolding free_from_def by (rule card_mono) (auto simp: free_slots_def)

lemma finite_free [simp]: "finite (free_slots p)"
  by (simp add: free_slots_def)

lemma free_from_claim:
  assumes "i \<in> free_slots p"
  shows "free_from q (p\<lparr>po_busy := (po_busy p)[i := True]\<rparr>) + of_bool (q \<le> i) = free_from q p"
proof -
  have "free_slots (p\<lparr>po_busy := (po_busy p)[i := True]\<rparr>) = free_slots p - {i}"
    using assms by (auto simp: free_slots_def nth_list_update split: if_splits)
  moreover have "free_slots p \<inter> {q..} = (if q \<le> i then insert i ((free_slots p - {i}) \<inter> {q..}) else (free_slots p - {i}) \<inter> {q..})"
    using assms by auto
  ultimately show ?thesis by (simp add: free_from_def)
qed

lemma free_from_release:
  assumes "i < length (po_busy p)" "\<not> po_dead p ! i" "po_busy p ! i"
  shows "free_from q (p\<lparr>po_busy := (po_busy p)[i := False]\<rparr>) = free_from q p + of_bool (q \<le> i)"
proof -
  have "free_slots (p\<lparr>po_busy := (po_busy p)[i := False]\<rparr>) = insert i (free_slots p)" "i \<notin> free_slots p"
    using assms by (auto simp: free_slots_def nth_list_update split: if_splits)
  moreover have "insert i (free_slots p) \<inter> {q..} = (if q \<le> i then insert i (free_slots p \<inter> {q..}) else free_slots p \<inter> {q..})"
    by auto
  ultimately show ?thesis by (simp add: free_from_def)
qed

lemma free_from_dead:
  assumes "i < length (po_busy p)" "po_dead p ! i"
  shows "free_from q (p\<lparr>po_busy := (po_busy p)[i := b]\<rparr>) = free_from q p"
proof -
  have "free_slots (p\<lparr>po_busy := (po_busy p)[i := b]\<rparr>) = free_slots p"
    using assms by (auto simp: free_slots_def nth_list_update split: if_splits)
  then show ?thesis by (simp add: free_from_def)
qed

lemma free_from_condemn:
  assumes "i < length (po_busy p)" "po_busy p ! i" "length (po_dead p) = length (po_busy p)"
  shows "free_from q (p\<lparr>po_dead := (po_dead p)[i := True]\<rparr>) = free_from q p"
proof -
  have "free_slots (p\<lparr>po_dead := (po_dead p)[i := True]\<rparr>) = free_slots p"
    using assms by (auto simp: free_slots_def nth_list_update split: if_splits)
  then show ?thesis by (simp add: free_from_def)
qed

lemma free_from_same [simp]:
  "free_from q (p\<lparr>po_permits := n\<rparr>) = free_from q p" "free_from q (p\<lparr>po_closed := b\<rparr>) = free_from q p"
  "free_from q (p\<lparr>po_alive := a\<rparr>) = free_from q p"
  by (simp_all add: free_from_def free_slots_def)

text \<open>A seeker behind the last slot would need a free slot there.\<close>

lemma free_from_end: "length (po_busy p) \<le> q \<Longrightarrow> free_from q p = 0"
  by (auto simp: free_from_def free_slots_def)

lemma seekers_antimono: "q \<le> q' \<Longrightarrow> seekers q' M \<le> seekers q M"
proof (induction M)
  case (add pc M)
  then have "seeks q' pc \<longrightarrow> seeks q pc" by (cases pc) auto
  with add show ?case by auto
qed simp

lemma free_from_Suc: "j \<notin> free_slots p \<Longrightarrow> free_from (Suc j) p = free_from j p"
  unfolding free_from_def by (rule arg_cong [where f = card]) (auto simp: Suc_le_eq order_le_less)

lemma pc_ok_stable:
  assumes "pc_ok p pc" "length (po_busy p') = length (po_busy p)" "length (po_alive p') = length (po_alive p)"
    "length (po_dead p') = length (po_dead p)" "\<And>i. i < length (po_busy p) \<Longrightarrow> po_alive p' ! i \<longrightarrow> po_alive p ! i"
    "\<And>i. i < length (po_dead p) \<Longrightarrow> po_dead p ! i \<longrightarrow> po_dead p' ! i" "length (po_dead p) = length (po_busy p)"
    "\<And>i. pc = Owned i \<Longrightarrow> po_dead p' ! i = po_dead p ! i"
  shows "pc_ok p' pc"
  using assms by (cases "(p, pc)" rule: pc_ok.cases) (auto simp: list_all_length)


lemma advance_flags:
  assumes "flags_ok p" "pc_ok p pc" "advance p pc = Some (p', pc')"
  shows "flags_ok p' \<and> length (po_busy p') = length (po_busy p) \<and> length (po_alive p') = length (po_alive p)
    \<and> length (po_dead p') = length (po_dead p) \<and> po_alive p' = po_alive p
    \<and> (\<forall>i < length (po_dead p). po_dead p ! i \<longrightarrow> po_dead p' ! i)
    \<and> (\<forall>i < length (po_dead p). po_dead p' ! i \<longrightarrow> po_dead p ! i \<or> holds i pc)"
  using assms
  by (cases pc) (auto simp: flags_ok_def advance_def nth_list_update list_all_length split: if_splits)

lemma count_task: "size (filter_mset P (add_mset pc M)) = of_bool (P pc) + size (filter_mset P M)"
  by simp

text \<open>A slot that one task has claimed no other task has.\<close>

lemma held_once:
  assumes "claims_ok p (add_mset pc M)" "holds i pc" "i < length (po_busy p)"
  shows "po_busy p ! i \<and> holders i M = 0"
proof -
  have "holders i (add_mset pc M) = of_bool (po_busy p ! i)" using assms(1,3) unfolding claims_ok_def by blast
  then show ?thesis using assms(2) unfolding count_task by (simp add: of_bool_def split: if_splits)
qed

lemma not_held: "holders i M = 0 \<Longrightarrow> pc \<in># M \<Longrightarrow> \<not> holds i pc"
  by (auto simp: filter_mset_eq_conv)

lemma advance_claims:
  assumes "claims_ok p (add_mset pc M)" "pc_ok p pc" "advance p pc = Some (p', pc')"
  shows "claims_ok p' (add_mset pc' M)"
  unfolding claims_ok_def
proof (intro allI impI)
  fix i assume "i < length (po_busy p')"
  then have i: "i < length (po_busy p)"
    using assms(3) by (cases pc) (auto simp: advance_def split: if_splits)
  have busy: "po_busy p ! i" if "holds i pc" using held_once [OF assms(1) that i] ..
  have "of_bool (po_busy p' ! i) + of_bool (holds i pc) = (of_bool (po_busy p ! i) + of_bool (holds i pc') :: nat)"
    using assms(2,3) busy i by (cases pc) (auto simp: advance_def nth_list_update split: if_splits)
  moreover have "holders i (add_mset pc M) = of_bool (po_busy p ! i)" using assms(1) i unfolding claims_ok_def by blast
  ultimately show "holders i (add_mset pc' M) = of_bool (po_busy p' ! i)" unfolding count_task by linarith
qed

lemma advance_slots:
  assumes "slots_ok p (add_mset pc M)" "claims_ok p (add_mset pc M)" "flags_ok p" "pc_ok p pc" "advance p pc = Some (p', pc')"
  shows "slots_ok p' (add_mset pc' M)"
proof -
  have busy: "po_busy p ! i" if "holds i pc" "i < length (po_busy p)" for i using held_once [OF assms(2) that] ..
  have s: "of_bool (seeks q pc) + seekers q M \<le> free_from q p"
    and z: "po_permits p + (of_bool (seeks 0 pc) + seekers 0 M) + count (add_mset pc M) Releasing \<le> free_from 0 p" for q
    using assms(1) unfolding slots_ok_def count_task by blast+
  have step: "of_bool (seeks q pc') + seekers q M \<le> free_from q p'" for q
  proof (cases pc)
    case Waiting
    then show ?thesis using assms(5) s [of q] z free_from_antimono [of 0 q p]
      by (cases "q = 0") (auto simp: advance_def split: if_splits)
  next
    case (Scan j)
    have "free_from (Suc j) p = free_from j p" if "po_dead p ! j" using that by (intro free_from_Suc) (simp add: free_slots_def)
    then show ?thesis using Scan assms(5) s [of q] s [of j] seekers_antimono [of j "Suc j" M]
      by (cases "q = Suc j") (auto simp: advance_def le_Suc_eq split: if_splits)
  next
    case (Claim j)
    show ?thesis
    proof (cases "po_busy p ! j")
      case True
      then have "free_from (Suc j) p = free_from j p" by (intro free_from_Suc) (simp add: free_slots_def)
      then show ?thesis using True Claim assms(5) s [of q] s [of j] seekers_antimono [of j "Suc j" M]
        by (cases "q = Suc j") (auto simp: advance_def le_Suc_eq)
    next
      case False
      then show ?thesis
        using Claim assms(4,5) s [of q] free_from_claim [of j p q] free_from_dead [of j p q True]
        by (cases "po_dead p ! j") (auto simp: advance_def free_slots_def)
    qed
  next
    case (Condemn j)
    then show ?thesis using assms(3-5) s [of q] busy [of j] by (auto simp: advance_def flags_ok_def free_from_condemn)
  next
    case (Unclaim j)
    then show ?thesis using assms(3-5) s [of q] by (auto simp: advance_def free_from_dead)
  next
    case (Owned j)
    then show ?thesis using assms(3-5) s [of q] busy [of j] by (auto simp: advance_def free_from_release)
  qed (use assms(5) s [of q] in \<open>auto simp: advance_def split: if_splits\<close>)
  have "po_permits p' + (of_bool (seeks 0 pc') + seekers 0 M) + count (add_mset pc' M) Releasing \<le> free_from 0 p'"
  proof (cases pc)
    case (Claim j)
    then show ?thesis
      using assms(4,5) z free_from_claim [of j p 0] free_from_dead [of j p 0 True]
      by (cases "po_dead p ! j"; cases "po_busy p ! j") (auto simp: advance_def free_slots_def)
  next
    case (Condemn j)
    then show ?thesis using assms(3-5) z busy [of j] by (auto simp: advance_def flags_ok_def free_from_condemn)
  next
    case (Unclaim j)
    then show ?thesis using assms(3-5) z by (auto simp: advance_def free_from_dead)
  next
    case (Owned j)
    then show ?thesis using assms(3-5) z busy [of j] by (auto simp: advance_def free_from_release)
  qed (use assms(4,5) z in \<open>auto simp: advance_def split: if_splits\<close>)
  with step show ?thesis unfolding slots_ok_def count_task by blast
qed


lemma advance_pc_ok:
  assumes "pool_inv (p, add_mset pc M)" "advance p pc = Some (p', pc')"
  shows "pc_ok p' pc'"
proof -
  have ok: "flags_ok p" "pc_ok p pc" "slots_ok p (add_mset pc M)" using assms(1) by (auto simp: pool_inv_def)
  have "i < length (po_busy p)" if "pc = Scan i" for i
  proof (rule ccontr)
    assume "\<not> i < length (po_busy p)"
    then show False using ok(3) free_from_end [of p i] that unfolding slots_ok_def count_task by (auto dest!: spec [of _ i])
  qed
  then show ?thesis using ok(1,2) assms(2)
    by (cases pc) (auto simp: advance_def flags_ok_def nth_list_update list_all_length split: if_splits)
qed

text \<open>Whatever the tasks do and whenever connections die, the pool stays consistent.\<close>

lemma pool_inv_step:
  assumes "pool_step s s'" "pool_inv s"
  shows "pool_inv s'"
  using assms
proof (induction rule: pool_step.induct)
  case (start p M)
  then show ?case by (simp add: pool_inv_def claims_ok_def slots_ok_def)
next
  case (run p pc p' pc' M)
  then have ok: "flags_ok p" "pc_ok p pc" "claims_ok p (add_mset pc M)" "slots_ok p (add_mset pc M)"
    "\<forall>pc \<in># M. pc_ok p pc" by (auto simp: pool_inv_def)
  note f = advance_flags [OF ok(1,2) run(1)]
  have "pc_ok p' pc0" if "pc0 \<in># M" for pc0
  proof (rule pc_ok_stable)
    fix i assume o: "pc0 = Owned i"
    then have "i < length (po_dead p)" using ok(1,5) that by (auto simp: flags_ok_def)
    moreover have "\<not> holds i pc" using held_once [OF ok(3)] not_held [OF _ that] o ok(5) that by fastforce
    ultimately show "po_dead p' ! i = po_dead p ! i" using f by blast
  qed (use f ok that in \<open>auto simp: flags_ok_def\<close>)
  then show ?case
    using f advance_pc_ok [OF run(2,1)] advance_claims [OF ok(3,2) run(1)] advance_slots [OF ok(4,3,1,2) run(1)]
    by (simp add: pool_inv_def)
next
  case (abandon p M)
  then show ?case by (simp add: pool_inv_def claims_ok_def slots_ok_def)
next
  case (die i p M)
  let ?p = "p\<lparr>po_alive := (po_alive p)[i := False]\<rparr>"
  have "pc_ok ?p pc" if "pc \<in># M" for pc
    using die that by (intro pc_ok_stable [of p pc ?p]) (auto simp: pool_inv_def flags_ok_def nth_list_update split: if_splits)
  then show ?case using die
    by (auto simp: pool_inv_def flags_ok_def claims_ok_def slots_ok_def nth_list_update split: if_splits)
qed

lemma pool_new_inv: "pool_inv (pool_new sessions, {#})"
proof -
  have "free_slots (pool_new sessions) = {..<length sessions}" by (auto simp: free_slots_def pool_new_def)
  then have "free_from 0 (pool_new sessions) = length sessions" by (simp add: free_from_def)
  then show ?thesis by (simp add: pool_inv_def flags_ok_def claims_ok_def slots_ok_def) (simp add: pool_new_def)
qed

lemma pool_reachable_inv:
  assumes "pool_step\<^sup>*\<^sup>* (pool_new sessions, {#}) s"
  shows "pool_inv s"
  using assms by (induction rule: rtranclp_induct) (auto intro: pool_new_inv pool_inv_step)


section \<open>Properties\<close>

text \<open>
  C10. Slots are exclusive and permits are backed. In every interleaving of acquisitions, drops and dying
  connections, a slot is owned by at most one task, and it is then busy and not condemned; every available
  permit, and every task that has one and still looks, has a free slot that is not condemned, so that an
  acquisition never ends with the error that no connection is free; and the error that all connections are
  dead is reported, and the semaphore closed, only when they are.
\<close>

theorem pool_slots_exclusive:
  assumes "pool_step\<^sup>*\<^sup>* (pool_new sessions, {#}) (p, M)"
  shows "(\<forall>i. Owned i \<in># M \<longrightarrow> count M (Owned i) = 1 \<and> po_busy p ! i \<and> \<not> po_dead p ! i)
    \<and> po_permits p + seekers 0 M \<le> card (free_slots p)
    \<and> No_Slot \<notin># M \<and> Failed NoneFree \<notin># M
    \<and> (po_closed p \<or> Failed AllDead \<in># M \<longrightarrow> (\<forall>a \<in> set (po_alive p). \<not> a))"
proof -
  have inv: "pool_inv (p, M)" by (rule pool_reachable_inv [OF assms])
  have own: "count M (Owned i) = 1 \<and> po_busy p ! i \<and> \<not> po_dead p ! i" if o: "Owned i \<in># M" for i
  proof -
    obtain N where N: "M = add_mset (Owned i) N" using o by (metis multi_member_split)
    have ok: "i < length (po_busy p)" "\<not> po_dead p ! i" using inv N by (auto simp: pool_inv_def)
    have h: "po_busy p ! i" "holders i N = 0" using inv N held_once [of p "Owned i" N i] ok(1) by (auto simp: pool_inv_def)
    then have "Owned i \<notin># N" using not_held [of i N "Owned i"] by auto
    then show ?thesis using N ok h by (simp add: not_in_iff)
  qed
  have dead: "\<not> a" if "po_closed p \<or> Failed AllDead \<in># M" "a \<in> set (po_alive p)" for a
  proof -
    have "list_all id (po_dead p)" using that(1) inv by (auto simp: pool_inv_def flags_ok_def)
    then show ?thesis using inv that(2) by (auto simp: pool_inv_def flags_ok_def list_all_length in_set_conv_nth)
  qed
  have free: "free_from 0 p = card (free_slots p)" by (simp add: free_from_def)
  show ?thesis using own dead inv free by (auto simp: pool_inv_def slots_ok_def)
qed

lemma run_steps:
  "advance p pc = Some (p1, pc1) \<Longrightarrow> pool_step\<^sup>*\<^sup>* (p1, add_mset pc1 M) s \<Longrightarrow> pool_step\<^sup>*\<^sup>* (p, add_mset pc M) s"
  by (meson converse_rtranclp_into_rtranclp pool_step.run)

text \<open>A pool in which one connection has died, \<open>k\<close> of its \<open>n\<close> permits being left.\<close>

definition hurt_pool :: "nat \<Rightarrow> nat \<Rightarrow> bool \<Rightarrow> session_pool" where
  "hurt_pool n k condemned = \<lparr>po_alive = False # replicate (n - 1) True, po_busy = replicate n False,
     po_dead = condemned # replicate (n - 1) False, po_permits = k, po_closed = False\<rparr>"

lemma take_permits:
  assumes "0 < n" "k \<le> n"
  shows "pool_step\<^sup>*\<^sup>* (hurt_pool n n False, M) (hurt_pool n (n - k) False, repeat_mset k {#Claim 0#} + M)"
  using assms(2)
proof (induction k)
  case (Suc k)
  let ?M = "repeat_mset k {#Claim 0#} + M"
  have "pool_step (hurt_pool n (n - k) False, ?M) (hurt_pool n (n - k) False, add_mset Waiting ?M)" by (rule start)
  moreover have "pool_step\<^sup>*\<^sup>* (hurt_pool n (n - k) False, add_mset Waiting ?M) (hurt_pool n (n - Suc k) False, add_mset (Claim 0) ?M)"
  proof (rule run_steps [of _ _ "hurt_pool n (n - Suc k) False" "Scan 0"])
    show "advance (hurt_pool n (n - k) False) Waiting = Some (hurt_pool n (n - Suc k) False, Scan 0)"
      using Suc.prems by (simp add: advance_def hurt_pool_def)
    show "pool_step\<^sup>*\<^sup>* (hurt_pool n (n - Suc k) False, add_mset (Scan 0) ?M) (hurt_pool n (n - Suc k) False, add_mset (Claim 0) ?M)"
      using assms(1) by (intro r_into_rtranclp pool_step.run) (simp add: advance_def hurt_pool_def)
  qed
  ultimately show ?case using Suc by (simp add: rtranclp.rtrancl_into_rtrancl)
qed simp


text \<open>A task that is about to claim the slot retires it, whether or not it was retired before.\<close>

lemma retire_again:
  assumes "2 \<le> n"
  shows "pool_step\<^sup>*\<^sup>* (hurt_pool n 0 c, add_mset (Claim 0) M) (hurt_pool n 0 True, add_mset Waiting M)"
proof -
  obtain m where n: "n = Suc (Suc m)" using assms by (metis add_2_eq_Suc le_Suc_ex)
  let ?b = "hurt_pool n 0 c\<lparr>po_busy := True # replicate (n - 1) False\<rparr>"
  let ?d = "hurt_pool n 0 True\<lparr>po_busy := True # replicate (n - 1) False\<rparr>"
  have "advance (hurt_pool n 0 c) (Claim 0) = Some (?b, Check 0)" "advance ?b (Check 0) = Some (?b, Condemn 0)"
    "advance ?b (Condemn 0) = Some (?d, Unclaim 0)" "advance ?d (Unclaim 0) = Some (hurt_pool n 0 True, Forget)"
    "advance (hurt_pool n 0 True) Forget = Some (hurt_pool n 0 True, Test_All)"
    "advance (hurt_pool n 0 True) Test_All = Some (hurt_pool n 0 True, Waiting)"
    by (simp_all add: advance_def hurt_pool_def n)
  then show ?thesis by (meson run_steps rtranclp.rtrancl_refl)
qed

lemma retire_all:
  assumes "2 \<le> n"
  shows "pool_step\<^sup>*\<^sup>* (hurt_pool n 0 c, repeat_mset (Suc k) {#Claim 0#} + M) (hurt_pool n 0 True, repeat_mset (Suc k) {#Waiting#} + M)"
proof (induction k arbitrary: c M)
  case 0
  then show ?case using retire_again [OF assms] by simp
next
  case (Suc k)
  have "pool_step\<^sup>*\<^sup>* (hurt_pool n 0 c, add_mset (Claim 0) (repeat_mset (Suc k) {#Claim 0#} + M))
      (hurt_pool n 0 True, add_mset Waiting (repeat_mset (Suc k) {#Claim 0#} + M))" by (rule retire_again [OF assms])
  also have "pool_step\<^sup>*\<^sup>* \<dots> (hurt_pool n 0 True, repeat_mset (Suc k) {#Waiting#} + add_mset Waiting M)"
    using Suc.IH [of True "add_mset Waiting M"] by simp
  finally show ?case by simp
qed

text \<open>Without permits and with an open semaphore, waiting tasks wait for ever.\<close>

lemma parked_step:
  assumes "pool_step s s'" "po_permits (fst s) = 0" "\<not> po_closed (fst s)" "set_mset (snd s) \<subseteq> {Waiting}"
  shows "po_permits (fst s') = 0 \<and> \<not> po_closed (fst s') \<and> set_mset (snd s') \<subseteq> {Waiting}"
  using assms by (induction rule: pool_step.induct) (auto simp: advance_def)

lemma parked:
  assumes "pool_step\<^sup>*\<^sup>* s s'" "po_permits (fst s) = 0" "\<not> po_closed (fst s)" "set_mset (snd s) \<subseteq> {Waiting}"
  shows "po_permits (fst s') = 0 \<and> \<not> po_closed (fst s') \<and> set_mset (snd s') \<subseteq> {Waiting}"
  using assms(1) by (induction rule: rtranclp_induct) (use assms parked_step in blast)+

text \<open>
  C39. A dead slot can be retired more than once. A task loads the dead flag of a slot before it claims it; when
  another task condemns and frees the slot in between, the claim succeeds and the slot is condemned
  again, with one more permit lost. In a pool of at least two connections of which a single one has died,
  \<open>n\<close> concurrent acquisitions can so use up all permits: they all wait for ever, as does every later
  acquisition, although all other connections are alive and idle.
\<close>

theorem pool_wedged_by_one_death:
  assumes "2 \<le> n"
  shows "\<exists>p. pool_step\<^sup>*\<^sup>* (pool_new (replicate n True), {#}) (p, repeat_mset n {#Waiting#})
    \<and> po_alive p = False # replicate (n - 1) True \<and> po_busy p = replicate n False
    \<and> (\<forall>p' M. pool_step\<^sup>*\<^sup>* (p, repeat_mset n {#Waiting#}) (p', M) \<longrightarrow> set_mset M \<subseteq> {Waiting} \<and> po_permits p' = 0)"
proof -
  obtain k where n: "n = Suc k" using assms by (cases n) auto
  have "pool_step (pool_new (replicate n True), {#}) (hurt_pool n n False, {#})"
    using die [of 0 "pool_new (replicate n True)" "{#}"] by (simp add: hurt_pool_def pool_new_def n)
  also have "pool_step\<^sup>*\<^sup>* (hurt_pool n n False, {#}) (hurt_pool n 0 False, repeat_mset n {#Claim 0#})"
    using take_permits [of n n "{#}"] assms by simp
  also have "pool_step\<^sup>*\<^sup>* \<dots> (hurt_pool n 0 True, repeat_mset n {#Waiting#})"
    using retire_all [OF assms, of False k "{#}"] n by simp
  finally (rtranclp_trans) have run: "pool_step\<^sup>*\<^sup>* (pool_new (replicate n True), {#}) (hurt_pool n 0 True, repeat_mset n {#Waiting#})"
    by simp
  show ?thesis
  proof (intro exI conjI allI impI)
    show "pool_step\<^sup>*\<^sup>* (pool_new (replicate n True), {#}) (hurt_pool n 0 True, repeat_mset n {#Waiting#})" by (rule run)
    fix p' M assume "pool_step\<^sup>*\<^sup>* (hurt_pool n 0 True, repeat_mset n {#Waiting#}) (p', M)"
    from parked [OF this] show "set_mset M \<subseteq> {Waiting}" "po_permits p' = 0" by (auto simp: hurt_pool_def)
  qed (simp_all add: hurt_pool_def)
qed


section \<open>Acquisitions one at a time\<close>

lemma scan_to_free:
  assumes "flags_ok p" "j \<in> free_slots p" "\<forall>i < j. i \<notin> free_slots p" "k \<le> j"
  shows "pool_step\<^sup>*\<^sup>* (p, add_mset (Scan k) M) (p, add_mset (Claim j) M)"
  using assms(4)
proof (induction rule: inc_induct)
  case base
  then show ?case using assms(2) by (intro r_into_rtranclp pool_step.run) (simp add: advance_def free_slots_def)
next
  case (step k)
  have k: "k < length (po_busy p)" "k \<notin> free_slots p" using step(2) assms(2,3) by (auto simp: free_slots_def)
  show ?case
  proof (cases "po_dead p ! k")
    case True
    then show ?thesis using k by (intro run_steps [OF _ step(3)]) (simp add: advance_def)
  next
    case False
    then have "advance p (Scan k) = Some (p, Claim k)" "advance p (Claim k) = Some (p, Scan (Suc k))"
      using k by (auto simp: advance_def free_slots_def)
    then show ?thesis by (meson run_steps step(3))
  qed
qed

definition condemned :: "nat \<Rightarrow> session_pool \<Rightarrow> session_pool" where
  "condemned j p = p\<lparr>po_dead := (po_dead p)[j := True], po_permits := po_permits p - 1\<rparr>"

definition claimed :: "nat \<Rightarrow> session_pool \<Rightarrow> session_pool" where
  "claimed j p = p\<lparr>po_busy := (po_busy p)[j := True], po_permits := po_permits p - 1\<rparr>"

lemma acquire_round:
  assumes "flags_ok p" "j \<in> free_slots p" "\<forall>i < j. i \<notin> free_slots p" "0 < po_permits p" "\<not> po_closed p"
  shows "pool_step\<^sup>*\<^sup>* (p, add_mset Waiting M) (if po_alive p ! j then (claimed j p, add_mset (Owned j) M)
      else (condemned j p, add_mset Test_All M))"
proof -
  let ?p = "p\<lparr>po_permits := po_permits p - 1\<rparr>"
  let ?c = "claimed j p" and ?d = "(claimed j p)\<lparr>po_dead := (po_dead p)[j := True]\<rparr>"
  have j: "j < length (po_busy p)" "\<not> po_dead p ! j" "\<not> po_busy p ! j" using assms(2) by (auto simp: free_slots_def)
  have "free_slots ?p = free_slots p" by (simp add: free_slots_def)
  moreover have "flags_ok ?p" using assms(1) by (simp add: flags_ok_def)
  ultimately have scan: "pool_step\<^sup>*\<^sup>* (?p, add_mset (Scan 0) M) (?p, add_mset (Claim j) M)" using scan_to_free [of ?p j 0] assms(2,3) by simp
  have a: "advance p Waiting = Some (?p, Scan 0)" using assms(4,5) by (simp add: advance_def)
  have b: "advance ?p (Claim j) = Some (?c, Check j)" using j by (simp add: advance_def claimed_def)
  have busy: "(po_busy p)[j := True, j := False] = po_busy p" using j by (simp add: list_update_same_conv)
  show ?thesis
  proof (cases "po_alive p ! j")
    case True
    then have "advance ?c (Check j) = Some (?c, Owned j)" by (simp add: advance_def claimed_def)
    then show ?thesis using True
      by (simp, intro run_steps [OF a] rtranclp_trans [OF scan] run_steps [OF b]) (blast intro: run_steps)
  next
    case False
    then have "advance ?c (Check j) = Some (?c, Condemn j)" "advance ?c (Condemn j) = Some (?d, Unclaim j)"
      "advance ?d (Unclaim j) = Some (condemned j p, Forget)" "advance (condemned j p) Forget = Some (condemned j p, Test_All)"
      using busy by (simp_all add: advance_def claimed_def condemned_def)
    then show ?thesis using False
      by (simp, intro run_steps [OF a] rtranclp_trans [OF scan] run_steps [OF b]) (meson run_steps rtranclp.rtrancl_refl)
  qed
qed


text \<open>What a pool is when no task is in the middle of an acquisition or a drop.\<close>

definition quiet :: "session_pool \<Rightarrow> bool" where
  "quiet p \<longleftrightarrow> flags_ok p \<and> po_permits p = card (free_slots p) \<and> po_closed p = list_all id (po_dead p)"

definition first_live :: "session_pool \<Rightarrow> nat \<Rightarrow> bool" where
  "first_live p i \<longleftrightarrow> i \<in> free_slots p \<and> po_alive p ! i \<and> (\<forall>j \<in> free_slots p. j < i \<longrightarrow> \<not> po_alive p ! j)"

lemma free_slots_claimed: "j \<in> free_slots p \<Longrightarrow> free_slots (claimed j p) = free_slots p - {j}"
  by (auto simp: free_slots_def claimed_def nth_list_update split: if_splits)

lemma free_slots_condemned:
  "flags_ok p \<Longrightarrow> j \<in> free_slots p \<Longrightarrow> free_slots (condemned j p) = free_slots p - {j}"
  by (auto simp: free_slots_def condemned_def flags_ok_def nth_list_update split: if_splits)

lemma flags_ok_condemned:
  "flags_ok p \<Longrightarrow> j \<in> free_slots p \<Longrightarrow> \<not> po_alive p ! j \<Longrightarrow> \<not> po_closed p \<Longrightarrow> flags_ok (condemned j p)"
  by (auto simp: flags_ok_def condemned_def free_slots_def nth_list_update split: if_splits)

definition owned_somewhere :: "session_pool \<Rightarrow> bool" where
  "owned_somewhere p \<longleftrightarrow> (\<exists>i < length (po_busy p). po_busy p ! i \<and> \<not> po_dead p ! i)"

text \<open>The outcome of an acquisition: the first live slot, waiting for a drop, or that all connections are dead.\<close>

definition acquired :: "session_pool \<Rightarrow> session_pool \<Rightarrow> pool_pc \<Rightarrow> bool" where
  "acquired p p' pc \<longleftrightarrow> quiet p'
     \<and> (if \<exists>i. first_live p i then \<exists>i. first_live p i \<and> pc = Owned i \<and> po_busy p' = (po_busy p)[i := True]
        else if owned_somewhere p then pc = Waiting \<and> po_permits p' = 0
        else pc = Failed AllDead \<and> po_closed p')"

lemma acquired_condemned:
  assumes "flags_ok p" "j \<in> free_slots p" "\<not> po_alive p ! j"
  shows "acquired (condemned j p) p' pc = acquired p p' pc"
proof -
  have "first_live (condemned j p) i = first_live p i" for i
    using assms(3) free_slots_condemned [OF assms(1,2)] by (auto simp: first_live_def) (auto simp: condemned_def)
  moreover have "owned_somewhere (condemned j p) = owned_somewhere p"
    using assms(1,2) by (auto simp: owned_somewhere_def condemned_def free_slots_def nth_list_update flags_ok_def split: if_splits)
  moreover have "po_busy (condemned j p) = po_busy p" by (simp add: condemned_def)
  ultimately show ?thesis by (simp add: acquired_def)
qed

lemma acquire_nothing_free:
  assumes "quiet p" "free_slots p = {}"
  shows "\<exists>pc. pool_step\<^sup>*\<^sup>* (p, add_mset Waiting M) (p, add_mset pc M) \<and> acquired p p pc"
proof -
  have q: "flags_ok p" "po_permits p = card (free_slots p)" "po_closed p = list_all id (po_dead p)"
    using assms(1) by (simp_all add: quiet_def)
  have none: "\<not> first_live p i" for i using assms(2) by (simp add: first_live_def)
  show ?thesis
  proof (cases "po_closed p")
    case True
    then have "\<not> owned_somewhere p" using q(1,3) by (auto simp: flags_ok_def owned_somewhere_def list_all_length)
    moreover have "advance p Waiting = Some (p, Failed AllDead)" using True by (simp add: advance_def)
    ultimately show ?thesis using True none assms(1) by (auto simp: acquired_def intro: pool_step.run)
  next
    case False
    then have "owned_somewhere p" using assms(2) q(1,3) by (auto simp: flags_ok_def list_all_length free_slots_def owned_somewhere_def)
    then show ?thesis using assms none q(2) by (auto simp: acquired_def)
  qed
qed

lemma acquire_last_dead:
  assumes "flags_ok p" "po_permits p = card (free_slots p)" "list_all id (po_dead p)"
  shows "\<exists>p'. pool_step\<^sup>*\<^sup>* (p, add_mset Test_All M) (p', add_mset (Failed AllDead) M) \<and> acquired p p' (Failed AllDead)"
proof -
  let ?e = "p\<lparr>po_closed := True\<rparr>"
  have "advance p Test_All = Some (p, Closing)" "advance p Closing = Some (?e, Failed AllDead)"
    using assms(3) by (simp_all add: advance_def)
  then have "pool_step\<^sup>*\<^sup>* (p, add_mset Test_All M) (?e, add_mset (Failed AllDead) M)"
    by (meson run_steps rtranclp.rtrancl_refl)
  moreover have "acquired p ?e (Failed AllDead)"
    using assms by (auto simp: acquired_def quiet_def flags_ok_def free_slots_def first_live_def owned_somewhere_def list_all_length)
  ultimately show ?thesis by blast
qed

lemma acquire_outcome:
  assumes "quiet p"
  shows "\<exists>p' pc. pool_step\<^sup>*\<^sup>* (p, add_mset Waiting M) (p', add_mset pc M) \<and> acquired p p' pc"
  using assms
proof (induction "card (free_slots p)" arbitrary: p rule: less_induct)
  case less
  then have q: "flags_ok p" "po_permits p = card (free_slots p)" "po_closed p = list_all id (po_dead p)" by (simp_all add: quiet_def)
  show ?case
  proof (cases "free_slots p = {}")
    case False
    define j where "j = Min (free_slots p)"
    have j: "j \<in> free_slots p" "\<forall>i < j. i \<notin> free_slots p"
      using False by (auto simp: j_def intro: Min_in dest: Min_le [OF finite_free])
    have opn: "\<not> po_closed p" using j(1) q(1,3) by (auto simp: free_slots_def flags_ok_def list_all_length)
    have permit: "0 < po_permits p" using q(2) False by (simp add: card_gt_0_iff)
    note round = acquire_round [OF q(1) j permit opn, of M]
    show ?thesis
    proof (cases "po_alive p ! j")
      case True
      have "first_live p j" using j True by (auto simp: first_live_def)
      moreover have "quiet (claimed j p)"
        using q j(1) by (auto simp: quiet_def free_slots_claimed) (simp_all add: claimed_def flags_ok_def)
      ultimately have "acquired p (claimed j p) (Owned j)" by (auto simp: acquired_def claimed_def)
      then show ?thesis using round True by auto
    next
      case dead: False
      let ?p = "condemned j p"
      have f: "free_slots ?p = free_slots p - {j}" "flags_ok ?p" "po_permits ?p = card (free_slots ?p)"
        using free_slots_condemned [OF q(1) j(1)] flags_ok_condemned [OF q(1) j(1) dead opn] q(2) j(1)
        by (simp_all add: condemned_def)
      from round dead have r: "pool_step\<^sup>*\<^sup>* (p, add_mset Waiting M) (?p, add_mset Test_All M)" by simp
      note same = acquired_condemned [OF q(1) j(1) dead]
      show ?thesis
      proof (cases "list_all id (po_dead ?p)")
        case True
        then show ?thesis using acquire_last_dead [OF f(2,3) True, of M] r unfolding same by (meson rtranclp_trans)
      next
        case some: False
        have "quiet ?p" using f(2,3) some opn by (simp add: quiet_def) (simp add: condemned_def)
        moreover have "card (free_slots ?p) < card (free_slots p)" unfolding f(1) by (rule card_Diff1_less) (use j in auto)
        ultimately obtain p' pc where "pool_step\<^sup>*\<^sup>* (?p, add_mset Waiting M) (p', add_mset pc M)" "acquired p p' pc"
          using less.hyps [of ?p] unfolding same by blast
        moreover have "advance ?p Test_All = Some (?p, Waiting)" using some by (simp add: advance_def)
        ultimately show ?thesis by (meson r run_steps rtranclp_trans)
      qed
    qed
  qed (use acquire_nothing_free [OF less.prems] in blast)
qed

text \<open>
  An acquisition that no other task disturbs ends, and rightly. In a pool whose permits are its free slots,
  it gets the first free slot whose connection is alive, or waits because all live slots are owned, or
  fails because every connection is dead; dead connections it met are retired once each, so that the
  permits are the free slots again.
\<close>

theorem acquire_undisturbed:
  assumes "flags_ok p" "po_permits p = card (free_slots p)" "po_closed p = list_all id (po_dead p)"
  shows "\<exists>p' pc. pool_step\<^sup>*\<^sup>* (p, add_mset Waiting M) (p', add_mset pc M)
    \<and> po_permits p' = card (free_slots p')
    \<and> (if \<exists>i. first_live p i then \<exists>i. first_live p i \<and> pc = Owned i \<and> po_busy p' = (po_busy p)[i := True]
       else if owned_somewhere p then pc = Waiting \<and> po_permits p' = 0
       else pc = Failed AllDead \<and> po_closed p')"
proof -
  have "quiet p" using assms by (simp add: quiet_def)
  then show ?thesis using acquire_outcome [of p M] unfolding quiet_def acquired_def by blast
qed

section \<open>Witnesses\<close>

theorem pool_slots_exclusive_witness:
  "\<exists>p. pool_step\<^sup>*\<^sup>* (pool_new [True], {#}) (p, {#Owned 0#}) \<and> po_busy p ! 0 \<and> \<not> po_dead p ! 0"
proof -
  let ?a = "\<lparr>po_alive = [True], po_busy = [False], po_dead = [False], po_permits = 0, po_closed = False\<rparr>"
  let ?b = "?a\<lparr>po_busy := [True]\<rparr>"
  have "pool_step (pool_new [True], {#}) (pool_new [True], {#Waiting#})" by (rule pool_step.start)
  moreover have "advance (pool_new [True]) Waiting = Some (?a, Scan 0)" "advance ?a (Scan 0) = Some (?a, Claim 0)"
    "advance ?a (Claim 0) = Some (?b, Check 0)" "advance ?b (Check 0) = Some (?b, Owned 0)"
    by (simp_all add: advance_def pool_new_def)
  ultimately have run: "pool_step\<^sup>*\<^sup>* (pool_new [True], {#}) (?b, {#Owned 0#})"
    by (meson run_steps rtranclp.rtrancl_refl converse_rtranclp_into_rtranclp)
  with pool_slots_exclusive [OF run] show ?thesis by (metis union_single_eq_member)
qed

theorem pool_wedged_by_one_death_witness:
  "\<exists>p. pool_step\<^sup>*\<^sup>* (pool_new (replicate 8 True), {#}) (p, repeat_mset 8 {#Waiting#})
    \<and> po_alive p = False # replicate 7 True \<and> po_busy p = replicate 8 False"
  using pool_wedged_by_one_death [of 8] by auto

theorem acquire_undisturbed_witness:
  "\<exists>p' pc. pool_step\<^sup>*\<^sup>* (pool_new [False, True], {#Waiting#}) (p', {#pc#}) \<and> pc = Owned 1 \<and> po_permits p' = card (free_slots p')"
proof -
  let ?p = "pool_new [False, True]"
  have fs: "free_slots ?p = {0, 1}" by (auto simp: free_slots_def pool_new_def)
  have live: "first_live ?p i \<longleftrightarrow> i = 1" for i unfolding first_live_def fs by (auto simp: pool_new_def)
  have "flags_ok ?p" by (simp add: flags_ok_def pool_new_def nth_Cons')
  moreover have "po_permits ?p = card (free_slots ?p)" unfolding fs by (simp add: pool_new_def)
  moreover have "po_closed ?p = list_all id (po_dead ?p)" by (simp add: pool_new_def)
  ultimately show ?thesis using acquire_undisturbed [of ?p "{#}"] unfolding live by auto
qed

end
