(* ===== verification/Host_Session.thy ===== *)
theory Host_Session
  imports Zbrt_Wire Contract
begin

text \<open>
  A host session with a ZeroBoot guest, \<^verbatim>\<open>ZeroBootSession\<close> and \<^verbatim>\<open>ZeroBootStream\<close> of \<^verbatim>\<open>rfb/src/zeroboot/provider.rs\<close>: the
  payloads of requests, the demultiplexer that routes the frames of the guest into one bounded channel per
  request, and the operations that read from such a channel.

  The demultiplexer task is \<open>demux_step\<close>: the frames it reads, the retries of a terminal frame, and what the
  tasks that own the channels do in between are actions in any order. An operation is a function of what it
  receives: frames, that the connection has gone, or that the deadline has passed. Byte counters are
  natural numbers; a \<^verbatim>\<open>u64\<close> does not overflow before $2^{64}$ bytes have been sent.
\<close>

section \<open>Requests\<close>

fun capability_name :: "capability \<Rightarrow> string option" where
  "capability_name CapExecute = Some ''execute''"
| "capability_name CapHealth = Some ''health''"
| "capability_name CapStream = Some ''stream''"
| "capability_name CapLs = Some ''filesystem''"
| "capability_name CapFind = Some ''filesystem''"
| "capability_name CapGrep = Some ''filesystem''"
| "capability_name CapReadFile = Some ''filesystem''"
| "capability_name CapWriteFile = Some ''filesystem''"
| "capability_name CapCancel = Some ''cancel''"
| "capability_name _ = None"

text \<open>Milliseconds of a duration, saturating at the largest \<^verbatim>\<open>u32\<close>.\<close>

definition wire_millis :: "nat \<Rightarrow> u32" where
  "wire_millis d = word_of_nat (min (d div 1000000) (2 ^ 32 - 1))"

definition execute_request :: "exec_spec \<Rightarrow> nat \<Rightarrow> contract_error + execute" where
  "execute_request spec timeout =
     res_bind (exec_spec_validate spec) (\<lambda>_.
       Inr \<lparr>exec_argv = ex_command spec # ex_args spec, exec_cwd = ex_cwd spec,
         exec_stdin = (case ex_stdin spec of Some b \<Rightarrow> b | None \<Rightarrow> []),
         exec_timeout_ms = wire_millis (case ex_timeout spec of Some t \<Rightarrow> t | None \<Rightarrow> timeout)\<rparr>)"

definition filesystem_request :: "byte \<Rightarrow> string \<Rightarrow> bytes \<Rightarrow> zfs" where
  "filesystem_request op path data = \<lparr>fs_op = op, fs_path = path, fs_data = data\<rparr>"

definition cancel_payload :: "string option \<Rightarrow> bytes option \<Rightarrow> cancel" where
  "cancel_payload reason target = \<lparr>cancel_reason = reason, cancel_target = target\<rparr>"

definition health_request :: health where
  "health_request = \<lparr>health_healthy = True, health_message = None\<rparr>"

definition stream_to_execute :: "stream_spec \<Rightarrow> nat \<Rightarrow> sandbox_error + execute" where
  "stream_to_execute spec timeout =
     (if st_pty spec = Some True then Inl (SExecution ''pty is not supported by ZeroBoot V1 streams'')
      else if st_env spec \<noteq> [] then Inl (SExecution ''environment is not supported by ZeroBoot V1 streams'')
      else Inr \<lparr>exec_argv = st_command spec # st_args spec, exec_cwd = st_cwd spec, exec_stdin = [],
        exec_timeout_ms = wire_millis (case st_timeout spec of Some t \<Rightarrow> t | None \<Rightarrow> timeout)\<rparr>)"

section \<open>Errors and results\<close>

datatype session_error = SeIo string | SeRemote u32 string | SeProtocol string | SeTimeout

text \<open>The text of an error of the wire codecs.\<close>

fun io_text :: "io_error \<Rightarrow> string" where
  "io_text (InvalidData s) = s"
| "io_text UnexpectedEof = ''failed to fill whole buffer''"

definition protocol_error :: "io_error \<Rightarrow> session_error" where
  "protocol_error e = SeProtocol (io_text e)"

definition remote_error :: "bytes \<Rightarrow> session_error" where
  "remote_error payload = (case decode_payload error_dec payload of
     Inr e \<Rightarrow> SeRemote (err_code e) (err_message e)
   | Inl e \<Rightarrow> SeProtocol (''invalid ZBRT Error payload: '' @ io_text e))"

fun map_session_error :: "session_error \<Rightarrow> sandbox_error" where
  "map_session_error SeTimeout = STimeout"
| "map_session_error (SeRemote _ m) = SExecution m"
| "map_session_error (SeIo m) = STransport m"
| "map_session_error (SeProtocol m) = STransport m"

record exec_result =
  er_status :: "int option"
  er_stdout :: bytes
  er_stderr :: bytes
  er_timed_out :: bool

definition parse_legacy_result :: "bytes \<Rightarrow> session_error + int \<times> bytes \<times> bytes" where
  "parse_legacy_result payload =
     (if length payload < 12 then Inl (SeProtocol ''legacy Result payload too short'')
      else (let out = unat (u32_from_be_bytes (take 4 (drop 4 payload)));
                er = unat (u32_from_be_bytes (take 4 (drop 8 payload)))
            in if 12 + out + er \<noteq> length payload then Inl (SeProtocol ''legacy Result payload length mismatch'')
               else Inr (sint (u32_from_be_bytes (take 4 payload)), take out (drop 12 payload), drop (12 + out) payload)))"

text \<open>The \<^verbatim>\<open>Debug\<close> form of a frame kind in error texts.\<close>

fun kind_debug :: "kind \<Rightarrow> string" where
  "kind_debug KHello = ''Hello''"
| "kind_debug KHelloAck = ''HelloAck''"
| "kind_debug KExecute = ''Execute''"
| "kind_debug KOutput = ''Output''"
| "kind_debug KExit = ''Exit''"
| "kind_debug KCancel = ''Cancel''"
| "kind_debug KCancelAck = ''CancelAck''"
| "kind_debug KFs = ''Fs''"
| "kind_debug KFsResult = ''FsResult''"
| "kind_debug KHealth = ''Health''"
| "kind_debug KHealthAck = ''HealthAck''"
| "kind_debug KError = ''Error''"
| "kind_debug KResult = ''Result''"

definition unexpected :: "string \<Rightarrow> kind \<Rightarrow> session_error" where
  "unexpected what k = SeProtocol (what @ kind_debug k)"

section \<open>Operations on a channel\<close>

text \<open>What waiting for the next frame of a request gives.\<close>

datatype received = Got zframe | Gone | Late

definition GONE :: string where
  "GONE = ''ZeroBoot guest connection closed''"

definition MAX_EXEC_OUTPUT_BYTES :: nat where
  "MAX_EXEC_OUTPUT_BYTES = 16 * 1024 * 1024"

definition EXCEEDED :: string where
  "EXCEEDED = ''guest output exceeded the 16 MiB limit''"

text \<open>\<^verbatim>\<open>exec\<close> on one frame: the loop goes on with the output so far, or ends.\<close>

definition exec_frame :: "bytes \<Rightarrow> bytes \<Rightarrow> bytes \<Rightarrow> zframe \<Rightarrow> bytes \<times> bytes + (session_error + exec_result)" where
  "exec_frame rid out er f =
     (if fr_request_id f \<noteq> rid then Inr (Inl (SeProtocol ''request_id mismatch''))
      else (case fr_kind f of
          KOutput \<Rightarrow>
            (case decode_payload output_dec (fr_payload f) of
               Inl e \<Rightarrow> Inr (Inl (protocol_error e))
             | Inr o1 \<Rightarrow>
                 if 1 < out_stream o1 then Inr (Inl (SeProtocol (''unknown output stream '' @ dec_string (unat (out_stream o1)))))
                 else (let out1 = (if out_stream o1 = 0 then out @ out_data o1 else out);
                           err1 = (if out_stream o1 = 0 then er else er @ out_data o1)
                       in if MAX_EXEC_OUTPUT_BYTES < length out1 + length err1 then Inr (Inl (SeProtocol EXCEEDED))
                          else Inl (out1, err1)))
        | KExit \<Rightarrow>
            (case decode_payload exit_dec (fr_payload f) of
               Inl e \<Rightarrow> Inr (Inl (protocol_error e))
             | Inr x \<Rightarrow> Inr (Inr \<lparr>er_status = Some (sint (exit_code x)), er_stdout = out, er_stderr = er, er_timed_out = False\<rparr>))
        | KResult \<Rightarrow>
            Inr (map_sum id (\<lambda>(code, o1, e1). \<lparr>er_status = Some code, er_stdout = o1, er_stderr = e1, er_timed_out = False\<rparr>)
              (parse_legacy_result (fr_payload f)))
        | KCancelAck \<Rightarrow> Inl (out, er)
        | KError \<Rightarrow> Inr (Inl (remote_error (fr_payload f)))
        | k \<Rightarrow> Inr (Inl (unexpected ''unexpected frame while awaiting exit: '' k))))"

text \<open>
  The loop; \<open>None\<close> while it waits for more. After the deadline the guest is asked to cancel and the channel
  is drained for at most five seconds, which does not change the result.
\<close>

fun exec_loop :: "bytes \<Rightarrow> bytes \<Rightarrow> bytes \<Rightarrow> received list \<Rightarrow> (session_error + exec_result) option" where
  "exec_loop rid out er [] = None"
| "exec_loop rid out er (Gone # _) = Some (Inl (SeIo GONE))"
| "exec_loop rid out er (Late # _) = Some (Inl SeTimeout)"
| "exec_loop rid out er (Got f # rs) =
     (case exec_frame rid out er f of Inl (o1, e1) \<Rightarrow> exec_loop rid o1 e1 rs | Inr r \<Rightarrow> Some r)"

text \<open>\<^verbatim>\<open>exchange\<close>: one request, one answer.\<close>

definition exchange :: "bytes \<Rightarrow> received \<Rightarrow> session_error + zframe" where
  "exchange rid r = (case r of
     Got f \<Rightarrow> if fr_request_id f \<noteq> rid then Inl (SeProtocol ''request_id mismatch'') else Inr f
   | Gone \<Rightarrow> Inl (SeIo GONE)
   | Late \<Rightarrow> Inl SeTimeout)"

definition hello_answer :: "zframe \<Rightarrow> session_error + hello_ack" where
  "hello_answer f = (case fr_kind f of
     KHelloAck \<Rightarrow> map_sum protocol_error id (decode_payload hello_ack_dec (fr_payload f))
   | KError \<Rightarrow> Inl (remote_error (fr_payload f))
   | k \<Rightarrow> Inl (unexpected ''unexpected Hello response '' k))"

definition health_answer :: "zframe \<Rightarrow> session_error + health" where
  "health_answer f = (case fr_kind f of
     KHealthAck \<Rightarrow> map_sum protocol_error id (decode_payload health_dec (fr_payload f))
   | KError \<Rightarrow> Inl (remote_error (fr_payload f))
   | k \<Rightarrow> Inl (unexpected ''unexpected health response '' k))"

definition cancel_answer :: "zframe \<Rightarrow> session_error + unit" where
  "cancel_answer f = (case fr_kind f of
     KCancelAck \<Rightarrow> Inr ()
   | KError \<Rightarrow> Inl (remote_error (fr_payload f))
   | k \<Rightarrow> Inl (unexpected ''unexpected cancel response '' k))"

definition fs_answer :: "zframe \<Rightarrow> session_error + bytes" where
  "fs_answer f = (case fr_kind f of
     KFsResult \<Rightarrow> Inr (fr_payload f)
   | KError \<Rightarrow> Inl (remote_error (fr_payload f))
   | k \<Rightarrow> Inl (unexpected ''unexpected fs response '' k))"


section \<open>Streams\<close>

datatype stream_out = EvStarted | EvStdout bytes | EvStderr bytes | EvExit "int option"

fun event_data_len :: "stream_out \<Rightarrow> nat" where
  "event_data_len (EvStdout d) = length d"
| "event_data_len (EvStderr d) = length d"
| "event_data_len _ = 0"

text \<open>
  The state of a stream; \<open>zs_guard\<close> says that it still owns the turn, its registration and its pool slot.
\<close>

record zstream =
  zs_request_id :: bytes
  zs_terminated :: bool
  zs_pending :: "stream_out list"
  zs_guard :: bool
  zs_output_bytes :: nat

definition stream_new :: "bytes \<Rightarrow> zstream" where
  "stream_new rid = \<lparr>zs_request_id = rid, zs_terminated = False, zs_pending = [], zs_guard = True, zs_output_bytes = 0\<rparr>"

definition discharge :: "zstream \<Rightarrow> zstream" where
  "discharge s = s\<lparr>zs_terminated := True, zs_guard := False\<rparr>"

definition legacy_events :: "int \<times> bytes \<times> bytes \<Rightarrow> stream_out list" where
  "legacy_events r = (case r of (code, out, er) \<Rightarrow>
     (if out = [] then [] else [EvStdout out]) @ (if er = [] then [] else [EvStderr er]) @ [EvExit (Some code)])"

definition session_text :: "session_error \<Rightarrow> string" where
  "session_text e = (case e of
     SeIo m \<Rightarrow> ''ZeroBoot session I/O error: '' @ m
   | SeRemote c m \<Rightarrow> ''ZeroBoot guest error '' @ dec_string (unat c) @ '': '' @ m
   | SeProtocol m \<Rightarrow> ''ZeroBoot protocol error: '' @ m
   | SeTimeout \<Rightarrow> ''ZeroBoot session timed out'')"

definition stream_frame :: "zframe \<Rightarrow> zstream \<Rightarrow> (sandbox_error + stream_out option) \<times> zstream" where
  "stream_frame f s =
     (if fr_request_id f \<noteq> zs_request_id s then (Inl (STransport ''request_id mismatch on stream frame''), discharge s)
      else (case fr_kind f of
          KOutput \<Rightarrow>
            (case decode_payload output_dec (fr_payload f) of
               Inl e \<Rightarrow> (Inl (STransport (''invalid Output frame: '' @ io_text e)), s)
             | Inr o1 \<Rightarrow>
                 if 1 < out_stream o1
                 then (Inl (STransport (''unknown output stream id '' @ dec_string (unat (out_stream o1)))), discharge s)
                 else (let ev = (if out_stream o1 = 0 then EvStdout (out_data o1) else EvStderr (out_data o1));
                           s1 = s\<lparr>zs_output_bytes := zs_output_bytes s + event_data_len ev\<rparr>
                       in if MAX_EXEC_OUTPUT_BYTES < zs_output_bytes s1 then (Inl (STransport EXCEEDED), discharge s1)
                          else (Inr (Some ev), s1)))
        | KExit \<Rightarrow>
            (case decode_payload exit_dec (fr_payload f) of
               Inl e \<Rightarrow> (Inl (STransport (''invalid Exit frame: '' @ io_text e)), s)
             | Inr x \<Rightarrow> (Inr (Some (EvExit (Some (sint (exit_code x))))), discharge s))
        | KResult \<Rightarrow>
            (case parse_legacy_result (fr_payload f) of
               Inl e \<Rightarrow> (Inl (STransport (session_text e)), s)
             | Inr r \<Rightarrow> (Inr (Some (hd (legacy_events r))), (discharge s)\<lparr>zs_pending := zs_pending s @ tl (legacy_events r)\<rparr>))
        | KError \<Rightarrow>
            (Inl (case remote_error (fr_payload f) of SeRemote _ m \<Rightarrow> SExecution m | e \<Rightarrow> STransport (session_text e)), discharge s)
        | k \<Rightarrow> (Inl (STransport (''unexpected stream frame '' @ kind_debug k)), s)))"

text \<open>\<^verbatim>\<open>next_event\<close>: what it returns, the stream afterwards, and what is left to receive.\<close>

definition next_event :: "zstream \<Rightarrow> received list \<Rightarrow> ((sandbox_error + stream_out option) \<times> zstream \<times> received list) option" where
  "next_event s rs = (case zs_pending s of
     ev # evs \<Rightarrow> Some (Inr (Some ev), s\<lparr>zs_pending := evs\<rparr>, rs)
   | [] \<Rightarrow>
       if zs_terminated s then Some (Inr None, s, rs)
       else (case rs of
           [] \<Rightarrow> None
         | Gone # rs1 \<Rightarrow> Some (Inr None, discharge s, rs1)
         | Late # rs1 \<Rightarrow> Some (Inl STimeout, discharge s, rs1)
         | Got f # rs1 \<Rightarrow> (case stream_frame f s of (r, s1) \<Rightarrow> Some (r, s1, rs1))))"

text \<open>\<^verbatim>\<open>stop\<close> after its cancel request: drain to the terminal frame. A failed write of the request counts as \<open>Gone\<close> later.\<close>

fun stop_drain :: "zstream \<Rightarrow> received list \<Rightarrow> ((sandbox_error + unit) \<times> zstream) option" where
  "stop_drain s [] = None"
| "stop_drain s (Gone # _) = Some (Inr (), discharge s)"
| "stop_drain s (Late # _) = Some (Inl STimeout, discharge s)"
| "stop_drain s (Got f # rs) =
     (if fr_kind f \<in> {KExit, KError, KResult} then Some (Inr (), discharge s) else stop_drain s rs)"

definition stream_stop :: "session_error option \<Rightarrow> zstream \<Rightarrow> received list \<Rightarrow> ((sandbox_error + unit) \<times> zstream) option" where
  "stream_stop cancel_error s rs =
     (if zs_terminated s then Some (Inr (), s)
      else (case cancel_error of
          None \<Rightarrow> stop_drain s rs
        | Some (SeIo _) \<Rightarrow> stop_drain s rs
        | Some e \<Rightarrow> Some (Inl (map_session_error e), s)))"

section \<open>The demultiplexer\<close>

definition FRAME_CHANNEL_CAPACITY :: nat where
  "FRAME_CHANNEL_CAPACITY = 256"

definition DEMUX_REQUEST_BYTE_BUDGET :: nat where
  "DEMUX_REQUEST_BYTE_BUDGET = 32 * 1024 * 1024"

text \<open>
  A channel is what is queued in it and whether its receiver is still there. The senders of the request map
  are the identifiers in \<open>dx_inflight\<close>; a task that lets its registration go keeps its receiver.
\<close>

record demux =
  dx_inflight :: "bytes set"
  dx_queue :: "bytes \<Rightarrow> zframe list"
  dx_receiver :: "bytes \<Rightarrow> bool"
  dx_admitted :: "bytes \<rightharpoonup> nat"
  dx_dropped :: "bytes \<rightharpoonup> nat"
  dx_held :: "zframe option"
  dx_alive :: bool

definition demux_new :: demux where
  "demux_new = \<lparr>dx_inflight = {}, dx_queue = (\<lambda>_. []), dx_receiver = (\<lambda>_. False), dx_admitted = Map.empty,
     dx_dropped = Map.empty, dx_held = None, dx_alive = True\<rparr>"

datatype sent = Sent | Full | Closed

definition try_send :: "zframe \<Rightarrow> demux \<Rightarrow> sent \<times> demux" where
  "try_send f d = (let i = fr_request_id f in
     if \<not> dx_receiver d i then (Closed, d)
     else if FRAME_CHANNEL_CAPACITY \<le> length (dx_queue d i) then (Full, d)
     else (Sent, d\<lparr>dx_queue := (dx_queue d)(i := dx_queue d i @ [f])\<rparr>))"

definition frame_bytes :: "zframe \<Rightarrow> nat" where
  "frame_bytes f = HEADER_LEN + length (fr_payload f)"

definition or_zero :: "nat option \<Rightarrow> nat" where
  "or_zero n = (case n of Some k \<Rightarrow> k | None \<Rightarrow> 0)"

definition note_dropped :: "zframe \<Rightarrow> demux \<Rightarrow> demux" where
  "note_dropped f d = (let i = fr_request_id f in
     d\<lparr>dx_dropped := (dx_dropped d)(i \<mapsto> or_zero (dx_dropped d i) + frame_bytes f)\<rparr>)"

definition lost_message :: "nat \<Rightarrow> string" where
  "lost_message n = ''host dropped '' @ dec_string n @ '' byte(s) of guest output (demux overflow); the result is incomplete''"

definition terminal_frame :: "zframe \<Rightarrow> nat \<Rightarrow> zframe" where
  "terminal_frame f dropped_bytes =
     (if dropped_bytes = 0 \<or> fr_kind f = KError then f
      else \<lparr>fr_kind = KError, fr_flags = 0, fr_request_id = fr_request_id f,
        fr_payload = (case error_encode \<lparr>err_code = 1, err_message = lost_message dropped_bytes\<rparr> of Inr b \<Rightarrow> b | Inl _ \<Rightarrow> [])\<rparr>)"

definition is_terminal_kind :: "kind \<Rightarrow> bool" where
  "is_terminal_kind k \<longleftrightarrow> k \<in> {KExit, KResult, KError}"

text \<open>A terminal frame that does not fit is held; while one is held the demultiplexer reads no other frame.\<close>

definition deliver :: "zframe \<Rightarrow> demux \<Rightarrow> demux" where
  "deliver f d = (case try_send f d of (Full, _) \<Rightarrow> d\<lparr>dx_held := Some f\<rparr> | (_, d1) \<Rightarrow> d1\<lparr>dx_held := None\<rparr>)"

definition enqueue :: "zframe \<Rightarrow> demux \<Rightarrow> demux" where
  "enqueue f d = (case try_send f d of
     (Full, _) \<Rightarrow> if fr_kind f = KOutput then note_dropped f d else d
   | (_, d1) \<Rightarrow> d1)"

definition route :: "zframe \<Rightarrow> demux \<Rightarrow> demux" where
  "route f d = (let i = fr_request_id f in
     if i \<notin> dx_inflight d then d\<lparr>dx_admitted := (dx_admitted d)(i := None), dx_dropped := (dx_dropped d)(i := None)\<rparr>
     else if is_terminal_kind (fr_kind f) then
       deliver (terminal_frame f (or_zero (dx_dropped d i)))
         (d\<lparr>dx_admitted := (dx_admitted d)(i := None), dx_dropped := (dx_dropped d)(i := None)\<rparr>)
     else if fr_kind f = KOutput then
       (let n = or_zero (dx_admitted d i) in
        if DEMUX_REQUEST_BYTE_BUDGET < n + frame_bytes f
        then note_dropped f (d\<lparr>dx_admitted := (dx_admitted d)(i \<mapsto> n)\<rparr>)
        else enqueue f (d\<lparr>dx_admitted := (dx_admitted d)(i \<mapsto> n + frame_bytes f)\<rparr>))
     else enqueue f d)"

text \<open>
  The actions: the demultiplexer reads a frame, tries a held frame again or gives it up after its window, or
  ends with the connection; a task registers a request, receives its next frame, drops its registration or
  its receiver. A frame is read only when none is held.
\<close>

datatype demux_action = Read zframe | Retry | Give_Up | Ended | Register bytes | Receive bytes | Unregister bytes | Drop_Receiver bytes

fun demux_step :: "demux_action \<Rightarrow> demux \<Rightarrow> demux" where
  "demux_step (Read f) d = (if dx_alive d \<and> dx_held d = None then route f d else d)"
| "demux_step Retry d = (case dx_held d of Some f \<Rightarrow> deliver f d | None \<Rightarrow> d)"
| "demux_step Give_Up d = d\<lparr>dx_held := None\<rparr>"
| "demux_step Ended d = (if dx_held d = None then d\<lparr>dx_alive := False, dx_inflight := {}\<rparr> else d)"
| "demux_step (Register i) d = d\<lparr>dx_inflight := insert i (dx_inflight d), dx_queue := (dx_queue d)(i := []), dx_receiver := (dx_receiver d)(i := True)\<rparr>"
| "demux_step (Receive i) d = d\<lparr>dx_queue := (dx_queue d)(i := tl (dx_queue d i))\<rparr>"
| "demux_step (Unregister i) d = d\<lparr>dx_inflight := dx_inflight d - {i}\<rparr>"
| "demux_step (Drop_Receiver i) d = d\<lparr>dx_receiver := (dx_receiver d)(i := False)\<rparr>"

definition demux_run :: "demux_action list \<Rightarrow> demux \<Rightarrow> demux" where
  "demux_run acts d = fold demux_step acts d"

text \<open>The frames of a request that are read, and those its task receives.\<close>

fun was_read :: "bytes \<Rightarrow> demux_action list \<Rightarrow> demux \<Rightarrow> zframe list" where
  "was_read i [] d = []"
| "was_read i (a # acts) d =
     (case a of Read f \<Rightarrow> if dx_alive d \<and> dx_held d = None \<and> fr_request_id f = i then [f] else [] | _ \<Rightarrow> []) @ was_read i acts (demux_step a d)"

fun was_received :: "bytes \<Rightarrow> demux_action list \<Rightarrow> demux \<Rightarrow> zframe list" where
  "was_received i [] d = []"
| "was_received i (a # acts) d =
     (if a = Receive i then take 1 (dx_queue d i) else []) @ was_received i acts (demux_step a d)"


section \<open>No output is lost silently\<close>

abbreviation terminal :: "zframe \<Rightarrow> bool" where
  "terminal f \<equiv> is_terminal_kind (fr_kind f)"

abbreviation outputs :: "zframe list \<Rightarrow> zframe list" where
  "outputs fs \<equiv> filter (\<lambda>f. fr_kind f = KOutput) fs"

definition held_for :: "bytes \<Rightarrow> demux \<Rightarrow> zframe list" where
  "held_for i d = (case dx_held d of Some f \<Rightarrow> if fr_request_id f = i then [f] else [] | None \<Rightarrow> [])"

text \<open>What has reached the request or will, when \<open>W\<close> is what it received.\<close>

definition delivered :: "bytes \<Rightarrow> demux \<Rightarrow> zframe list \<Rightarrow> zframe list" where
  "delivered i d W = W @ dx_queue d i @ held_for i d"

text \<open>
  The invariant of a registered request, \<open>R\<close> being its frames read so far: before the terminal frame nothing of
  the output is missing unless it is noted as dropped; afterwards the frames end with the terminal frame
  and the output before it is complete, or with an error frame, or the terminal frame was given up.
\<close>

definition request_ok :: "bytes \<Rightarrow> demux \<Rightarrow> zframe list \<Rightarrow> zframe list \<Rightarrow> bool" where
  "request_ok i d R W \<longleftrightarrow> dx_receiver d i \<and> (dx_alive d \<longrightarrow> i \<in> dx_inflight d)
     \<and> (if list_ex terminal R
        then list_all (\<lambda>f. \<not> terminal f) (delivered i d W)
           \<or> (\<exists>C t. delivered i d W = C @ [t] \<and> terminal t \<and> list_all (\<lambda>f. \<not> terminal f) C
                \<and> (fr_kind t = KError \<or> R = butlast R @ [t] \<and> outputs C = outputs (butlast R)))
        else held_for i d = [] \<and> list_all (\<lambda>f. \<not> terminal f) (delivered i d W)
           \<and> (or_zero (dx_dropped d i) = 0 \<longrightarrow> outputs (delivered i d W) = outputs R))"

definition one_end :: "zframe list \<Rightarrow> bool" where
  "one_end R \<longleftrightarrow> list_all (\<lambda>f. \<not> terminal f) (butlast R)"

lemma one_end_append: "one_end (R @ S) \<Longrightarrow> one_end R"
  by (cases S rule: rev_cases) (auto simp: one_end_def simp flip: append_assoc dest: list_all_append [THEN iffD1] in_set_butlastD simp: list_all_iff)

lemma try_send_facts:
  "try_send f d = (r, d') \<Longrightarrow> d' = d \<and> r \<noteq> Sent \<or>
     r = Sent \<and> d' = d\<lparr>dx_queue := (dx_queue d)(fr_request_id f := dx_queue d (fr_request_id f) @ [f])\<rparr>"
  by (auto simp: try_send_def Let_def split: if_splits)

text \<open>Frames of other requests do not touch this one.\<close>

definition same_request :: "bytes \<Rightarrow> demux \<Rightarrow> demux \<Rightarrow> bool" where
  "same_request i d d' \<longleftrightarrow> dx_queue d' i = dx_queue d i \<and> dx_receiver d' i = dx_receiver d i
     \<and> or_zero (dx_dropped d' i) = or_zero (dx_dropped d i) \<and> dx_alive d' = dx_alive d
     \<and> (i \<in> dx_inflight d' \<longleftrightarrow> i \<in> dx_inflight d)"

lemma route_other:
  "fr_request_id f \<noteq> i \<Longrightarrow> dx_held d = None \<Longrightarrow> same_request i d (route f d) \<and> held_for i (route f d) = held_for i d"
  by (auto simp: same_request_def route_def deliver_def enqueue_def note_dropped_def try_send_def held_for_def
      terminal_frame_def Let_def split: sent.splits)

lemma request_ok_same:
  assumes "request_ok i d R W" "same_request i d d'" "held_for i d' = held_for i d"
  shows "request_ok i d' R W"
proof -
  have eqs: "dx_receiver d' i = dx_receiver d i" "dx_alive d' = dx_alive d" "(i \<in> dx_inflight d') = (i \<in> dx_inflight d)"
    "or_zero (dx_dropped d' i) = or_zero (dx_dropped d i)" "delivered i d' W = delivered i d W"
    using assms(2,3) by (simp_all add: same_request_def delivered_def)
  show ?thesis using assms(1) unfolding request_ok_def eqs assms(3) .
qed

lemma frame_bytes_pos [simp]: "0 < frame_bytes f"
  by (simp add: frame_bytes_def HEADER_LEN_def)


lemma dropped_noted: "or_zero (dx_dropped (note_dropped f d) (fr_request_id f)) \<noteq> 0"
  by (simp add: note_dropped_def Let_def or_zero_def split: option.split)

text \<open>A frame that is not terminal: it reaches the channel, or its loss is noted, or it is no output.\<close>

lemma route_plain:
  assumes "fr_request_id f = i" "\<not> terminal f" "i \<in> dx_inflight d" "dx_receiver d i"
  shows "dx_receiver (route f d) i \<and> dx_alive (route f d) = dx_alive d \<and> dx_inflight (route f d) = dx_inflight d
    \<and> dx_held (route f d) = dx_held d
    \<and> (dx_queue (route f d) i = dx_queue d i @ [f] \<and> or_zero (dx_dropped (route f d) i) = or_zero (dx_dropped d i)
      \<or> dx_queue (route f d) i = dx_queue d i
        \<and> (or_zero (dx_dropped (route f d) i) \<noteq> 0 \<or> fr_kind f \<noteq> KOutput \<and> or_zero (dx_dropped (route f d) i) = or_zero (dx_dropped d i)))"
  using assms dropped_noted [of f]
  by (auto simp: route_def enqueue_def try_send_def note_dropped_def Let_def or_zero_def split: option.splits)

lemma terminal_frame_facts:
  "terminal f \<Longrightarrow> terminal (terminal_frame f n) \<and> fr_request_id (terminal_frame f n) = fr_request_id f
     \<and> (fr_kind (terminal_frame f n) = KError \<or> n = 0 \<and> terminal_frame f n = f)"
  by (auto simp: terminal_frame_def is_terminal_kind_def)

lemma deliver_facts:
  assumes "fr_request_id f = i" "dx_receiver d i" "held_for i d = [] \<or> dx_held d = Some f"
  shows "dx_receiver (deliver f d) i \<and> dx_alive (deliver f d) = dx_alive d \<and> dx_inflight (deliver f d) = dx_inflight d
    \<and> dx_queue (deliver f d) i @ held_for i (deliver f d) = dx_queue d i @ [f]"
  using assms by (auto simp: deliver_def try_send_def held_for_def Let_def)

lemma route_terminal:
  assumes "fr_request_id f = i" "terminal f" "i \<in> dx_inflight d" "dx_receiver d i" "dx_held d = None"
  shows "dx_receiver (route f d) i \<and> dx_alive (route f d) = dx_alive d \<and> dx_inflight (route f d) = dx_inflight d
    \<and> (\<exists>t. dx_queue (route f d) i @ held_for i (route f d) = dx_queue d i @ [t] \<and> terminal t
        \<and> (fr_kind t = KError \<or> or_zero (dx_dropped d i) = 0 \<and> t = f))"
proof -
  let ?d = "d\<lparr>dx_admitted := (dx_admitted d)(i := None), dx_dropped := (dx_dropped d)(i := None)\<rparr>"
  let ?t = "terminal_frame f (or_zero (dx_dropped d i))"
  have "route f d = deliver ?t ?d" using assms(1-3) by (simp add: route_def)
  moreover have "fr_request_id ?t = i" using terminal_frame_facts [OF assms(2)] assms(1) by simp
  ultimately show ?thesis
    using deliver_facts [of ?t i ?d] terminal_frame_facts [OF assms(2), of "or_zero (dx_dropped d i)"] assms(4,5)
    by (auto simp: held_for_def)
qed


lemma request_ok_delivered:
  assumes "request_ok i d R W" "dx_receiver d' i" "dx_alive d' \<longrightarrow> i \<in> dx_inflight d'" "delivered i d' W' = delivered i d W"
    "held_for i d = [] \<longrightarrow> held_for i d' = []" "or_zero (dx_dropped d' i) = or_zero (dx_dropped d i)"
  shows "request_ok i d' R W'"
  using assms(1-3,5) unfolding request_ok_def assms(4,6) by (cases "list_ex terminal R") auto

lemma request_read:
  assumes "request_ok i d R W" "fr_request_id f = i" "dx_alive d" "dx_held d = None" "one_end (R @ [f])"
  shows "request_ok i (route f d) (R @ [f]) W"
proof -
  have R: "\<not> list_ex terminal R" using assms(5) by (simp add: one_end_def list_all_iff list_ex_iff)
  have ok: "i \<in> dx_inflight d" "dx_receiver d i" "held_for i d = []" "list_all (\<lambda>f. \<not> terminal f) (delivered i d W)"
    "or_zero (dx_dropped d i) = 0 \<longrightarrow> outputs (delivered i d W) = outputs R"
    using assms(1,3) R by (simp_all add: request_ok_def)
  show ?thesis
  proof (cases "terminal f")
    case True
    obtain t where t: "dx_queue (route f d) i @ held_for i (route f d) = dx_queue d i @ [t]" "terminal t"
      "fr_kind t = KError \<or> or_zero (dx_dropped d i) = 0 \<and> t = f"
      using route_terminal [OF assms(2) True ok(1,2) assms(4)] by blast
    have "delivered i (route f d) W = delivered i d W @ [t]" using t(1) ok(3) by (simp add: delivered_def)
    moreover have "list_ex terminal (R @ [f])" using True by simp
    ultimately show ?thesis
      using route_terminal [OF assms(2) True ok(1,2) assms(4)] ok t(2,3) by (auto simp: request_ok_def)
  next
    case False
    have h: "held_for i (route f d) = []" using route_plain [OF assms(2) False ok(1,2)] assms(4) by (simp add: held_for_def)
    then have "delivered i (route f d) W = W @ dx_queue (route f d) i" "delivered i d W = W @ dx_queue d i"
      using ok(3) by (simp_all add: delivered_def)
    then show ?thesis using route_plain [OF assms(2) False ok(1,2)] ok h False R by (auto simp: request_ok_def)
  qed
qed

lemma held_tail:
  "request_ok i d R W \<Longrightarrow> request_ok i (d\<lparr>dx_held := None\<rparr>) R W"
proof -
  assume ok: "request_ok i d R W"
  have d: "delivered i d W = delivered i (d\<lparr>dx_held := None\<rparr>) W @ held_for i d" by (simp add: delivered_def held_for_def)
  show ?thesis
  proof (cases "held_for i d")
    case Nil
    then show ?thesis using d by (intro request_ok_delivered [OF ok]) (use ok in \<open>auto simp: request_ok_def held_for_def\<close>)
  next
    case (Cons f fs)
    then have "held_for i d = [f]" by (auto simp: held_for_def split: option.splits if_splits)
    then show ?thesis using ok d by (auto simp: request_ok_def)
  qed
qed

lemma request_step:
  assumes "request_ok i d R W" "a \<notin> {Register i, Unregister i, Drop_Receiver i}" "one_end (R @ was_read i [a] d)"
  shows "request_ok i (demux_step a d) (R @ was_read i [a] d) (W @ was_received i [a] d)"
proof (cases a)
  case (Read f)
  then show ?thesis
    using assms request_read [OF assms(1), of f] request_ok_same [OF assms(1)] route_other [of f i d] by auto
next
  case Retry
  show ?thesis
  proof (cases "dx_held d")
    case (Some f)
    have ok: "dx_receiver d i" "dx_alive d \<longrightarrow> i \<in> dx_inflight d" using assms(1) by (simp_all add: request_ok_def)
    have "request_ok i (deliver f d) R W"
    proof (cases "fr_request_id f = i")
      case True
      then have "held_for i d = [f]" using Some by (simp add: held_for_def)
      then show ?thesis using deliver_facts [OF True ok(1)] Some ok(2)
        by (intro request_ok_delivered [OF assms(1)]) (auto simp: delivered_def deliver_def try_send_def Let_def)
    next
      case False
      then show ?thesis using Some
        by (intro request_ok_same [OF assms(1)]) (auto simp: same_request_def deliver_def try_send_def held_for_def Let_def)
    qed
    then show ?thesis using Retry Some by simp
  qed (use Retry assms in simp)
next
  case (Receive j)
  have "delivered i (demux_step a d) (W @ was_received i [a] d) = delivered i d W"
    using Receive by (cases "dx_queue d i") (auto simp: delivered_def held_for_def)
  then have "request_ok i (demux_step a d) R (W @ was_received i [a] d)"
    using Receive assms(1) by (intro request_ok_delivered [OF assms(1)]) (auto simp: request_ok_def held_for_def)
  then show ?thesis using Receive by simp
next
  case Give_Up
  then show ?thesis using held_tail [OF assms(1)] by simp
next
  case Ended
  have "request_ok i (demux_step Ended d) R W"
    using assms(1) by (intro request_ok_delivered [OF assms(1)]) (auto simp: request_ok_def delivered_def held_for_def)
  then show ?thesis using Ended by simp
next
  case (Register j)
  then have "request_ok i (demux_step a d) R W" using assms(2)
    by (intro request_ok_same [OF assms(1)]) (auto simp: same_request_def held_for_def)
  then show ?thesis using Register by simp
next
  case (Unregister j)
  then have "request_ok i (demux_step a d) R W" using assms(2)
    by (intro request_ok_same [OF assms(1)]) (auto simp: same_request_def held_for_def)
  then show ?thesis using Unregister by simp
next
  case (Drop_Receiver j)
  then have "request_ok i (demux_step a d) R W" using assms(2)
    by (intro request_ok_same [OF assms(1)]) (auto simp: same_request_def held_for_def)
  then show ?thesis using Drop_Receiver by simp
qed

lemma request_run:
  assumes "request_ok i d R W" "\<forall>a \<in> set acts. a \<notin> {Register i, Unregister i, Drop_Receiver i}" "one_end (R @ was_read i acts d)"
  shows "request_ok i (demux_run acts d) (R @ was_read i acts d) (W @ was_received i acts d)"
  using assms
proof (induction acts arbitrary: d R W)
  case (Cons a acts)
  have r: "was_read i (a # acts) d = was_read i [a] d @ was_read i acts (demux_step a d)"
    and w: "was_received i (a # acts) d = was_received i [a] d @ was_received i acts (demux_step a d)" by simp_all
  have "one_end (R @ was_read i [a] d)" using Cons.prems(3) one_end_append unfolding r by (metis append_assoc)
  then have "request_ok i (demux_step a d) (R @ was_read i [a] d) (W @ was_received i [a] d)"
    using Cons.prems request_step by simp
  from Cons.IH [OF this] Cons.prems show ?case unfolding r w by (simp add: demux_run_def)
qed (simp add: demux_run_def)

section \<open>What a command returns\<close>

text \<open>The bytes an output frame carries for a stream.\<close>

definition stream_data :: "byte \<Rightarrow> zframe \<Rightarrow> bytes" where
  "stream_data k f = (case decode_payload output_dec (fr_payload f) of
     Inr o1 \<Rightarrow> if out_stream o1 = k then out_data o1 else [] | Inl _ \<Rightarrow> [])"

lemma byte_le_1:
  assumes "\<not> 1 < (b :: byte)" "b \<noteq> 0"
  shows "b = 1"
proof -
  have "unat b \<le> 1" "unat b \<noteq> 0" using assms by (simp_all add: word_less_nat_alt unat_eq_0)
  then have "unat b = unat (1 :: byte)" by simp
  then show ?thesis by (simp only: word_unat_eq_iff)
qed

lemma exec_frame_goes_on:
  assumes "exec_frame rid out er f = Inl (o1, e1)"
  shows "\<not> terminal f \<and> (fr_kind f \<noteq> KOutput \<and> o1 = out \<and> e1 = er
    \<or> fr_kind f = KOutput \<and> o1 = out @ stream_data 0 f \<and> e1 = er @ stream_data 1 f)"
proof (cases "fr_kind f = KOutput")
  case True
  then obtain o1' where "decode_payload output_dec (fr_payload f) = Inr o1'" "\<not> 1 < out_stream o1'"
    using assms by (auto simp: exec_frame_def split: if_splits sum.splits)
  then show ?thesis using assms True byte_le_1 [of "out_stream o1'"]
    by (auto simp: exec_frame_def is_terminal_kind_def stream_data_def Let_def split: if_splits)
next
  case False
  then show ?thesis using assms by (cases "fr_kind f") (auto simp: exec_frame_def is_terminal_kind_def split: if_splits sum.splits)
qed

lemma exec_frame_result:
  assumes "exec_frame rid out er f = Inr (Inr res)"
  shows "fr_kind f = KExit \<and> (\<exists>x. decode_payload exit_dec (fr_payload f) = Inr x
      \<and> res = \<lparr>er_status = Some (sint (exit_code x)), er_stdout = out, er_stderr = er, er_timed_out = False\<rparr>)
    \<or> fr_kind f = KResult \<and> (\<exists>code o1 e1. parse_legacy_result (fr_payload f) = Inr (code, o1, e1)
      \<and> res = \<lparr>er_status = Some code, er_stdout = o1, er_stderr = e1, er_timed_out = False\<rparr>)"
  using assms
  by (cases "fr_kind f"; cases "parse_legacy_result (fr_payload f)") (auto simp: exec_frame_def Let_def split: if_splits sum.splits)

lemma exec_frame_returns: "exec_frame rid out er f = Inr (Inr res) \<Longrightarrow> terminal f \<and> fr_kind f \<noteq> KError"
  using exec_frame_result [of rid out er f res] by (auto simp: is_terminal_kind_def)

text \<open>A successful result comes from a terminal frame, and the frames before it contribute their data.\<close>

lemma exec_loop_returns:
  assumes "exec_loop rid out er (map Got W) = Some (Inr res)"
  shows "\<exists>C t rest. W = C @ t # rest \<and> list_all (\<lambda>f. \<not> terminal f) C \<and> terminal t \<and> fr_kind t \<noteq> KError
    \<and> exec_frame rid (out @ concat (map (stream_data 0) (outputs C))) (er @ concat (map (stream_data 1) (outputs C))) t = Inr (Inr res)"
  using assms
proof (induction W arbitrary: out er)
  case (Cons f W)
  show ?case
  proof (cases "exec_frame rid out er f")
    case (Inl oe)
    obtain o1 e1 where oe: "oe = (o1, e1)" by (cases oe)
    note g = exec_frame_goes_on [OF Inl [unfolded oe]]
    from Cons Inl oe obtain C t rest where "W = C @ t # rest" "list_all (\<lambda>f. \<not> terminal f) C" "terminal t" "fr_kind t \<noteq> KError"
      "exec_frame rid (o1 @ concat (map (stream_data 0) (outputs C))) (e1 @ concat (map (stream_data 1) (outputs C))) t = Inr (Inr res)"
      by fastforce
    then show ?thesis using g by (intro exI [of _ "f # C"] exI [of _ t] exI [of _ rest]) auto
  next
    case (Inr r)
    then have "exec_frame rid out er f = Inr (Inr res)" using Cons.prems by simp
    then show ?thesis using exec_frame_returns by (intro exI [of _ "[]"] exI [of _ f] exI [of _ W]) auto
  qed
qed simp


definition fresh_request :: "bytes \<Rightarrow> demux \<Rightarrow> bool" where
  "fresh_request i d \<longleftrightarrow> dx_alive d \<and> i \<in> dx_inflight d \<and> dx_receiver d i \<and> dx_queue d i = [] \<and> dx_held d = None
     \<and> dx_admitted d i = None \<and> dx_dropped d i = None"

lemma register_fresh:
  "dx_alive d \<Longrightarrow> dx_held d = None \<Longrightarrow> dx_admitted d i = None \<Longrightarrow> dx_dropped d i = None \<Longrightarrow> fresh_request i (demux_step (Register i) d)"
  by (simp add: fresh_request_def)

text \<open>A task that receives every frame as soon as it is read gets all of them.\<close>

definition promptly :: "bytes \<Rightarrow> zframe list \<Rightarrow> demux_action list" where
  "promptly i fs = concat (map (\<lambda>f. [Read f, Receive i]) fs)"

lemma prompt_frame:
  assumes "dx_alive d" "i \<in> dx_inflight d" "dx_receiver d i" "dx_queue d i = []" "dx_held d = None" "fr_request_id f = i"
    "dx_dropped d i = None" "fr_kind f = KOutput \<longrightarrow> or_zero (dx_admitted d i) + frame_bytes f \<le> DEMUX_REQUEST_BYTE_BUDGET"
  shows "dx_queue (route f d) i = [f] \<and> dx_alive (route f d) \<and> i \<in> dx_inflight (route f d) \<and> dx_receiver (route f d) i
    \<and> dx_held (route f d) = None \<and> dx_dropped (route f d) i = None
    \<and> or_zero (dx_admitted (route f d) i) \<le> or_zero (dx_admitted d i) + (if fr_kind f = KOutput then frame_bytes f else 0)"
  using assms
  by (auto simp: route_def deliver_def enqueue_def try_send_def terminal_frame_def note_dropped_def or_zero_def Let_def
      FRAME_CHANNEL_CAPACITY_def is_terminal_kind_def split: option.splits)

lemma prompt_receives:
  assumes "dx_alive d" "i \<in> dx_inflight d" "dx_receiver d i" "dx_queue d i = []" "dx_held d = None" "dx_dropped d i = None"
    "\<forall>f \<in> set fs. fr_request_id f = i"
    "or_zero (dx_admitted d i) + sum_list (map frame_bytes (outputs fs)) \<le> DEMUX_REQUEST_BYTE_BUDGET"
  shows "was_received i (promptly i fs) d = fs \<and> was_read i (promptly i fs) d = fs"
  using assms
proof (induction fs arbitrary: d)
  case (Cons f fs)
  let ?d = "demux_step (Receive i) (route f d)"
  have b: "fr_kind f = KOutput \<longrightarrow> or_zero (dx_admitted d i) + frame_bytes f \<le> DEMUX_REQUEST_BYTE_BUDGET"
    using Cons.prems(8) by auto
  have p: "dx_queue (route f d) i = [f]" "dx_alive (route f d)" "i \<in> dx_inflight (route f d)" "dx_receiver (route f d) i"
    "dx_held (route f d) = None" "dx_dropped (route f d) i = None"
    "or_zero (dx_admitted (route f d) i) \<le> or_zero (dx_admitted d i) + (if fr_kind f = KOutput then frame_bytes f else 0)"
    using prompt_frame [OF Cons.prems(1-5) _ Cons.prems(6), of f] Cons.prems(7) b by simp_all
  have "was_received i (promptly i fs) ?d = fs \<and> was_read i (promptly i fs) ?d = fs"
    by (rule Cons.IH) (use Cons.prems p in \<open>auto split: if_splits\<close>)
  then show ?case using Cons.prems p(1) by (simp add: promptly_def)
qed (simp add: promptly_def)

section \<open>Properties\<close>

text \<open>
  C14. A command that succeeds has lost no output. However the demultiplexer, the task and other requests
  interleave, whatever the sizes, and even if the channel overflows or the connection ends: when \<^verbatim>\<open>exec\<close>
  returns a result, the guest's terminal frame was read, and for an \<^verbatim>\<open>Exit\<close> the standard output and standard
  error are the data of all output frames the guest sent before it, in order, with its exit code. The
  guest is assumed to send nothing behind its terminal frame.
\<close>

theorem exec_output_complete:
  assumes "fresh_request i d" "\<forall>a \<in> set acts. a \<notin> {Register i, Unregister i, Drop_Receiver i}" "one_end (was_read i acts d)"
    "exec_loop i [] [] (map Got (was_received i acts d)) = Some (Inr res)"
  shows "\<exists>os t. was_read i acts d = os @ [t] \<and> list_all (\<lambda>f. \<not> terminal f) os
    \<and> (fr_kind t = KExit \<and> (\<exists>x. decode_payload exit_dec (fr_payload t) = Inr x
          \<and> res = \<lparr>er_status = Some (sint (exit_code x)), er_stdout = concat (map (stream_data 0) (outputs os)),
                   er_stderr = concat (map (stream_data 1) (outputs os)), er_timed_out = False\<rparr>)
      \<or> fr_kind t = KResult \<and> (\<exists>code out er. parse_legacy_result (fr_payload t) = Inr (code, out, er)
          \<and> res = \<lparr>er_status = Some code, er_stdout = out, er_stderr = er, er_timed_out = False\<rparr>))"
proof -
  let ?R = "was_read i acts d" and ?W = "was_received i acts d" and ?d = "demux_run acts d"
  have "request_ok i d [] []" using assms(1) by (auto simp: fresh_request_def request_ok_def delivered_def held_for_def or_zero_def)
  from request_run [OF this assms(2)] assms(3) have ok: "request_ok i ?d ?R ?W" by simp
  obtain C t rest where W: "?W = C @ t # rest" "list_all (\<lambda>f. \<not> terminal f) C" "terminal t" "fr_kind t \<noteq> KError"
    "exec_frame i (concat (map (stream_data 0) (outputs C))) (concat (map (stream_data 1) (outputs C))) t = Inr (Inr res)"
    using exec_loop_returns [OF assms(4)] by auto
  have del: "delivered i ?d ?W = C @ t # (rest @ dx_queue ?d i @ held_for i ?d)" using W(1) by (simp add: delivered_def)
  then have nt: "\<not> list_all (\<lambda>f. \<not> terminal f) (delivered i ?d ?W)" using W(3) by simp
  then obtain C1 t1 where C1: "delivered i ?d ?W = C1 @ [t1]" "terminal t1" "list_all (\<lambda>f. \<not> terminal f) C1"
    "fr_kind t1 = KError \<or> ?R = butlast ?R @ [t1] \<and> outputs C1 = outputs (butlast ?R)"
    using ok unfolding request_ok_def by (auto split: if_splits)
  have "C = C1 \<and> t = t1"
  proof -
    have "C @ t # (rest @ dx_queue ?d i @ held_for i ?d) = C1 @ [t1]" using del C1(1) by simp
    then show ?thesis using W(2,3) C1(2,3)
      by (cases "rest @ dx_queue ?d i @ held_for i ?d" rule: rev_cases) auto
  qed
  then have R: "?R = butlast ?R @ [t]" "outputs C = outputs (butlast ?R)" using C1(4) W(4) by auto
  moreover have "list_all (\<lambda>f. \<not> terminal f) (butlast ?R)" using assms(3) by (simp add: one_end_def)
  ultimately show ?thesis
    using exec_frame_result [OF W(5)] unfolding R(2) by (intro exI [of _ "butlast ?R"] exI [of _ t] conjI)
qed


section \<open>Properties of streams\<close>

text \<open>The results of up to \<open>n\<close> calls of \<^verbatim>\<open>next_event\<close>, as far as frames have arrived.\<close>

fun stream_calls :: "nat \<Rightarrow> zstream \<Rightarrow> received list \<Rightarrow> (sandbox_error + stream_out option) list" where
  "stream_calls 0 s rs = []"
| "stream_calls (Suc n) s rs =
     (case next_event s rs of None \<Rightarrow> [] | Some (r, s1, rs1) \<Rightarrow> r # stream_calls n s1 rs1)"

lemma ended_calls:
  "zs_terminated s \<Longrightarrow> stream_calls n s rs = map (Inr \<circ> Some) (take n (zs_pending s)) @ replicate (n - length (zs_pending s)) (Inr None)"
proof (induction n arbitrary: s)
  case (Suc n)
  then show ?case by (cases "zs_pending s") (simp_all add: next_event_def)
qed simp

fun is_exit :: "stream_out \<Rightarrow> bool" where
  "is_exit (EvExit _) = True"
| "is_exit _ = False"

text \<open>What one frame does to a stream that is not terminated.\<close>

lemma stream_frame_cases:
  assumes "stream_frame f s = (r, s1)" "\<not> zs_terminated s" "zs_pending s = []"
  shows "\<not> zs_terminated s1 \<and> zs_pending s1 = [] \<and> (\<forall>c. r \<noteq> Inr (Some (EvExit c))) \<and> zs_guard s1 = zs_guard s
    \<or> zs_terminated s1 \<and> \<not> zs_guard s1 \<and> (zs_pending s1 = [] \<or>
        (\<exists>ev evs c. r = Inr (Some ev) \<and> \<not> is_exit ev \<and> zs_pending s1 = evs @ [EvExit c] \<and> list_all (\<lambda>e. \<not> is_exit e) evs))"
  using assms
  by (cases "fr_kind f")
    (auto simp: stream_frame_def discharge_def legacy_events_def Let_def split: if_splits sum.splits prod.splits)

fun exits_last :: "(sandbox_error + stream_out option) list \<Rightarrow> bool" where
  "exits_last [] = True"
| "exits_last (Inr (Some (EvExit _)) # xs) = list_all (\<lambda>y. y = Inr None) xs"
| "exits_last (_ # xs) = exits_last xs"

lemma exits_last_split:
  "exits_last (xs @ Inr (Some (EvExit code)) # ys) \<Longrightarrow>
     list_all (\<lambda>y. y = Inr None) ys \<and> list_all (\<lambda>x. \<forall>c. x \<noteq> Inr (Some (EvExit c))) xs"
  by (induction xs rule: exits_last.induct) auto

lemma exits_last_step: "exits_last xs \<Longrightarrow> \<forall>c. r \<noteq> Inr (Some (EvExit c)) \<Longrightarrow> exits_last (r # xs)"
  by (cases "r # xs" rule: exits_last.cases) auto

lemma exits_last_replicate [simp]: "exits_last (replicate n (Inr None))"
  by (induction n) auto

lemma exits_last_ended:
  assumes "list_all (\<lambda>e. \<not> is_exit e) evs"
  shows "exits_last (map (Inr \<circ> Some) (take n (evs @ [EvExit c])) @ replicate k (Inr None))"
  using assms
proof (induction evs arbitrary: n)
  case Nil
  then show ?case by (cases n) (simp_all add: list_all_iff)
next
  case (Cons ev evs)
  then show ?case by (cases n; cases ev) simp_all
qed

lemma stream_calls_exits_last:
  "\<not> zs_terminated s \<Longrightarrow> zs_pending s = [] \<Longrightarrow> exits_last (stream_calls n s rs)"
proof (induction n arbitrary: s rs)
  case (Suc n)
  show ?case
  proof (cases rs)
    case (Cons x rs1)
    show ?thesis
    proof (cases x)
      case (Got f)
      obtain r s1 where f: "stream_frame f s = (r, s1)" by fastforce
      have calls: "stream_calls (Suc n) s rs = r # stream_calls n s1 rs1" using Suc.prems Cons Got f by (simp add: next_event_def)
      from stream_frame_cases [OF f Suc.prems] consider
          "\<not> zs_terminated s1" "zs_pending s1 = []" "\<forall>c. r \<noteq> Inr (Some (EvExit c))"
        | "zs_terminated s1" "zs_pending s1 = []"
        | ev evs c where "zs_terminated s1" "r = Inr (Some ev)" "\<not> is_exit ev" "zs_pending s1 = evs @ [EvExit c]" "list_all (\<lambda>e. \<not> is_exit e) evs"
        by blast
      then show ?thesis
      proof cases
        case 1
        then show ?thesis unfolding calls by (intro exits_last_step Suc.IH)
      next
        case 2
        then show ?thesis unfolding calls using ended_calls [of s1 n rs1]
          by (cases "\<exists>c. r = Inr (Some (EvExit c))") (auto intro: exits_last_step simp: list_all_iff)
      next
        case 3
        then show ?thesis unfolding calls using ended_calls [of s1 n rs1] exits_last_ended [OF 3(5)]
          by (intro exits_last_step) (auto simp del: take_append)
      qed
    qed (use Suc.prems Cons ended_calls [of "discharge s" n rs1] in \<open>simp_all add: next_event_def discharge_def\<close>)
  qed (use Suc.prems in \<open>simp add: next_event_def\<close>)
qed simp

text \<open>
  A stream exits once and then ends. Whatever frames arrive and however often the caller asks, after the
  event with the exit code every call says that the stream has ended, and before it there is no other; this
  holds also for the results of old guests that carry everything in one frame.
\<close>

theorem stream_exits_once:
  assumes "stream_calls n (stream_new rid) rs = xs @ Inr (Some (EvExit code)) # ys"
  shows "list_all (\<lambda>y. y = Inr None) ys \<and> list_all (\<lambda>x. \<forall>c. x \<noteq> Inr (Some (EvExit c))) xs"
  using stream_calls_exits_last [of "stream_new rid" n rs] exits_last_split [of xs code ys] assms
  by (simp add: stream_new_def)

section \<open>Witness\<close>

definition demo_rid :: bytes where
  "demo_rid = replicate 16 7"

definition demo_output :: zframe where
  "demo_output = \<lparr>fr_kind = KOutput, fr_flags = 0, fr_request_id = demo_rid, fr_payload = [0, 0, 0, 0, 2, 104, 105]\<rparr>"

definition demo_exit :: zframe where
  "demo_exit = \<lparr>fr_kind = KExit, fr_flags = 0, fr_request_id = demo_rid, fr_payload = [0, 0, 0, 3, 0]\<rparr>"

definition demo_demux :: demux where
  "demo_demux = demux_step (Register demo_rid) demux_new"

lemma demo_prompt:
  "was_received demo_rid (promptly demo_rid [demo_output, demo_exit]) demo_demux = [demo_output, demo_exit]
   \<and> was_read demo_rid (promptly demo_rid [demo_output, demo_exit]) demo_demux = [demo_output, demo_exit]"
  by (rule prompt_receives)
    (simp_all add: demo_demux_def demux_new_def demo_output_def demo_exit_def or_zero_def frame_bytes_def HEADER_LEN_def DEMUX_REQUEST_BYTE_BUDGET_def)

theorem exec_output_complete_witness:
  "\<exists>res. exec_loop demo_rid [] [] (map Got [demo_output, demo_exit]) = Some (Inr res) \<and> er_stdout res = [104, 105] \<and> er_status res = Some 3"
proof -
  have d: "decode_payload output_dec (fr_payload demo_output) = Inr \<lparr>out_stream = 0, out_data = [104, 105]\<rparr>"
    "decode_payload exit_dec (fr_payload demo_exit) = Inr \<lparr>exit_code = 3, exit_signal = None\<rparr>" by code_simp+
  have k: "fr_kind demo_output = KOutput" "fr_kind demo_exit = KExit" "fr_request_id demo_output = demo_rid" "fr_request_id demo_exit = demo_rid"
    by (simp_all add: demo_output_def demo_exit_def)
  have "\<exists>res. exec_loop demo_rid [] [] (map Got [demo_output, demo_exit]) = Some (Inr res)"
    using d by (simp add: exec_frame_def k MAX_EXEC_OUTPUT_BYTES_def)
  then obtain res where res: "exec_loop demo_rid [] [] (map Got [demo_output, demo_exit]) = Some (Inr res)" by blast
  have f: "fresh_request demo_rid demo_demux" unfolding demo_demux_def by (rule register_fresh) (simp_all add: demux_new_def)
  have o: "one_end [demo_output, demo_exit]" by (simp add: one_end_def is_terminal_kind_def k)
  have "\<forall>a \<in> set (promptly demo_rid [demo_output, demo_exit]). a \<notin> {Register demo_rid, Unregister demo_rid, Drop_Receiver demo_rid}"
    by (simp add: promptly_def)
  from exec_output_complete [OF f this] obtain os t where
    "[demo_output, demo_exit] = os @ [t]" "fr_kind t = KExit \<and> (\<exists>x. decode_payload exit_dec (fr_payload t) = Inr x
          \<and> res = \<lparr>er_status = Some (sint (exit_code x)), er_stdout = concat (map (stream_data 0) (outputs os)),
                   er_stderr = concat (map (stream_data 1) (outputs os)), er_timed_out = False\<rparr>) \<or> fr_kind t = KResult"
    using o res demo_prompt by metis
  then have "os = [demo_output]" "t = demo_exit" "res = \<lparr>er_status = Some 3, er_stdout = stream_data 0 demo_output,
      er_stderr = stream_data 1 demo_output, er_timed_out = False\<rparr>"
    using d k by (auto simp: append_eq_Cons_conv)
  then show ?thesis using res d by (simp add: stream_data_def)
qed


theorem stream_exits_once_witness:
  "stream_calls 3 (stream_new demo_rid) [Got demo_exit, Got demo_output] = [Inr (Some (EvExit (Some 3))), Inr None, Inr None]"
proof -
  have d: "decode_payload exit_dec (fr_payload demo_exit) = Inr \<lparr>exit_code = 3, exit_signal = None\<rparr>" by code_simp
  let ?s = "discharge (stream_new demo_rid)"
  have "next_event (stream_new demo_rid) [Got demo_exit, Got demo_output] = Some (Inr (Some (EvExit (Some 3))), ?s, [Got demo_output])"
    using d by (simp add: next_event_def stream_new_def stream_frame_def demo_exit_def)
  then have c: "stream_calls 3 (stream_new demo_rid) [Got demo_exit, Got demo_output]
      = [] @ Inr (Some (EvExit (Some 3))) # stream_calls 2 ?s [Got demo_output]" by (simp add: numeral_3_eq_3 numeral_2_eq_2)
  have "length (stream_calls 2 ?s [Got demo_output]) = 2" using ended_calls [of ?s 2] by (simp add: discharge_def stream_new_def)
  moreover have "list_all (\<lambda>y. y = Inr None) (stream_calls 2 ?s [Got demo_output])" using stream_exits_once [OF c] by blast
  ultimately have "stream_calls 2 ?s [Got demo_output] = [Inr None, Inr None]"
    by (auto simp: length_Suc_conv numeral_2_eq_2)
  then show ?thesis using c by simp
qed

end
