(* ===== verification/End_To_End.thy ===== *)
theory End_To_End
  imports Host_Session Zbrt_Connection
begin

text \<open>
  A command from the guest's executor to the host's result: the events the executor sends to its sink
  (\<^verbatim>\<open>zeroboot_connection.rs\<close>), the frames the server writes for them, their bytes on the wire
  (\<^verbatim>\<open>zeroboot_protocol.rs\<close>), the host's demultiplexer and \<^verbatim>\<open>ZeroBootSession::exec\<close> (\<^verbatim>\<open>rfb/src/zeroboot/provider.rs\<close>).
\<close>

text \<open>The bytes an event of the executor means on a stream.\<close>

definition event_bytes :: "zbrt_lib \<Rightarrow> terminal_stream \<Rightarrow> guest_event \<Rightarrow> bytes" where
  "event_bytes lib st e =
     (if ge_kind e \<noteq> ''terminal.output'' then []
      else (case l_terminal_event lib (ge_payload e) of
          None \<Rightarrow> []
        | Some t \<Rightarrow> if te_stream t = st then (case te_data_bytes t of Some b \<Rightarrow> b | None \<Rightarrow> as_bytes (te_data t)) else []))"

lemma output_frame_facts:
  assumes "output_frame lib rid e = Some (Inr f)"
  shows "fr_kind f = KOutput \<and> fr_request_id f = rid \<and> fr_flags f = 0
    \<and> (\<exists>o1. decode_payload output_dec (fr_payload f) = Inr o1 \<and> \<not> 1 < out_stream o1)
    \<and> stream_data 0 f = event_bytes lib Stdout e \<and> stream_data 1 f = event_bytes lib Stderr e
    \<and> length (fr_payload f) = 5 + length (event_bytes lib Stdout e) + length (event_bytes lib Stderr e)"
proof -
  obtain t p where t: "ge_kind e = ''terminal.output''" "l_terminal_event lib (ge_payload e) = Some t"
    "output_encode \<lparr>out_stream = (case te_stream t of Stdout \<Rightarrow> 0 | Stderr \<Rightarrow> 1),
       out_data = (case te_data_bytes t of Some b \<Rightarrow> b | None \<Rightarrow> as_bytes (te_data t))\<rparr> = Inr p"
    "f = zreply KOutput rid p"
    using assms by (auto simp: output_frame_def res_bind_eq_Inr_conv split: if_splits option.splits)
  have d: "decode_payload output_dec p = Inr \<lparr>out_stream = (case te_stream t of Stdout \<Rightarrow> 0 | Stderr \<Rightarrow> 1),
       out_data = (case te_data_bytes t of Some b \<Rightarrow> b | None \<Rightarrow> as_bytes (te_data t))\<rparr>"
    using output_codec.roundtrip [OF TrueI t(3)] by simp
  have l: "length p = 5 + length (case te_data_bytes t of Some b \<Rightarrow> b | None \<Rightarrow> as_bytes (te_data t))"
    using t(3) by (auto simp: output_encode_def put_def split: if_splits)
  show ?thesis using t d l by (cases "te_stream t") (auto simp: stream_data_def event_bytes_def)
qed


abbreviation stdout_of :: "zbrt_lib \<Rightarrow> guest_event list \<Rightarrow> bytes" where
  "stdout_of lib es \<equiv> concat (map (event_bytes lib Stdout) es)"

abbreviation stderr_of :: "zbrt_lib \<Rightarrow> guest_event list \<Rightarrow> bytes" where
  "stderr_of lib es \<equiv> concat (map (event_bytes lib Stderr) es)"

definition output_ok :: "bytes \<Rightarrow> zframe \<Rightarrow> bool" where
  "output_ok rid f \<longleftrightarrow> fr_kind f = KOutput \<and> fr_request_id f = rid
     \<and> (\<exists>o1. decode_payload output_dec (fr_payload f) = Inr o1 \<and> \<not> 1 < out_stream o1)"

lemma forward_frames:
  assumes "forward_events lib rid es c = (True, c1)"
  shows "\<exists>os. zc_written c1 = zc_written c @ os \<and> list_all (output_ok rid) os
    \<and> concat (map (stream_data 0) os) = stdout_of lib es \<and> concat (map (stream_data 1) os) = stderr_of lib es
    \<and> sum_list (map frame_bytes os) \<le> 33 * length es + length (stdout_of lib es) + length (stderr_of lib es)"
  using assms
proof (induction es arbitrary: c)
  case (Cons e es)
  show ?case
  proof (cases "output_frame lib rid e")
    case None
    then have "event_bytes lib Stdout e = [] \<and> event_bytes lib Stderr e = []"
      by (auto simp: output_frame_def event_bytes_def split: if_splits option.splits)
    then show ?thesis using Cons None by (force simp: forward_event_def)
  next
    case (Some r)
    then obtain f where f: "output_frame lib rid e = Some (Inr f)" "emit f c = (True, c\<lparr>zc_written := zc_written c @ [f],
        zc_budget := map_option (\<lambda>n. n - 1) (zc_budget c)\<rparr>)"
      using Cons.prems by (cases r) (auto simp: forward_event_def emit_def split: if_splits)
    with Cons obtain os where os: "zc_written c1 = zc_written c @ f # os" "list_all (output_ok rid) os"
      "concat (map (stream_data 0) os) = stdout_of lib es" "concat (map (stream_data 1) os) = stderr_of lib es"
      "sum_list (map frame_bytes os) \<le> 33 * length es + length (stdout_of lib es) + length (stderr_of lib es)"
      by (fastforce simp: forward_event_def)
    moreover have "output_ok rid f" "stream_data 0 f = event_bytes lib Stdout e" "stream_data 1 f = event_bytes lib Stderr e"
      "frame_bytes f = 33 + length (event_bytes lib Stdout e) + length (event_bytes lib Stderr e)"
      using output_frame_facts [OF f(1)] by (simp_all add: output_ok_def frame_bytes_def HEADER_LEN_def)
    ultimately show ?thesis by (intro exI [of _ "f # os"]) simp
  qed
qed simp

lemma exec_loop_outputs:
  assumes "list_all (output_ok rid) os"
    "length (out @ concat (map (stream_data 0) os)) + length (er @ concat (map (stream_data 1) os)) \<le> MAX_EXEC_OUTPUT_BYTES"
  shows "exec_loop rid out er (map Got os @ rs)
    = exec_loop rid (out @ concat (map (stream_data 0) os)) (er @ concat (map (stream_data 1) os)) rs"
  using assms
proof (induction os arbitrary: out er)
  case (Cons f os)
  then obtain o1 where "fr_kind f = KOutput" "fr_request_id f = rid" "decode_payload output_dec (fr_payload f) = Inr o1" "\<not> 1 < out_stream o1"
    by (auto simp: output_ok_def)
  then have "exec_frame rid out er f = Inl (out @ stream_data 0 f, er @ stream_data 1 f)"
    using Cons.prems(2) byte_le_1 [of "out_stream o1"] by (auto simp: exec_frame_def stream_data_def Let_def)
  then show ?case using Cons by simp
qed simp

lemma exit_frame_facts:
  assumes "- (2 ^ 31) \<le> code" "code < 2 ^ 31"
  shows "\<exists>x. decode_payload exit_dec (fr_payload (exit_frame rid code)) = Inr x \<and> sint (exit_code x) = code"
proof -
  have "exit_encode \<lparr>exit_code = word_of_int code, exit_signal = None\<rparr> = Inr (fr_payload (exit_frame rid code))"
    by (simp add: exit_frame_def exit_encode_def unwrap_or_default_def)
  from exit_codec.roundtrip [OF TrueI this] have "decode_payload exit_dec (fr_payload (exit_frame rid code)) = Inr \<lparr>exit_code = word_of_int code, exit_signal = None\<rparr>" .
  moreover have "sint (word_of_int code :: 32 word) = code" using assms by (simp add: sint_sbintrunc' signed_take_bit_int_eq_self)
  ultimately show ?thesis by auto
qed


section \<open>Properties\<close>

text \<open>
  C15. A command's output and exit code cross the wire unchanged. Let the server forward the live events of a
  turn and then write its terminal frame, an exit with some code. Then the host's frame reader delivers
  exactly the frames written, and \<^verbatim>\<open>exec\<close>, receiving them as they are read, returns the bytes of all
  standard output events and of all standard error events, in order, with that exit code, provided that
  they fit the 16 MiB of a result and the 32 MiB of frames the host admits.
\<close>

theorem command_crosses_the_wire:
  assumes "length rid = 16" "forward_events lib rid es c = (True, c1)" "emit_terminal lib rid responses c1 = (True, c2)"
    "Zbrt_Connection.terminal_frame lib rid responses = exit_frame rid code" "- (2 ^ 31) \<le> code" "code < 2 ^ 31"
    "write_frames [] (drop (length (zc_written c)) (zc_written c2)) = Inr b" "read_frame_async tail = Inl e"
    "fresh_request rid d" "length (stdout_of lib es) + length (stderr_of lib es) \<le> MAX_EXEC_OUTPUT_BYTES"
    "33 * length es \<le> MAX_EXEC_OUTPUT_BYTES"
  shows "\<exists>fs. frame_reader (b @ tail) = (fs, e)
    \<and> exec_loop rid [] [] (map Got (was_received rid (promptly rid fs) d))
      = Some (Inr \<lparr>er_status = Some code, er_stdout = stdout_of lib es, er_stderr = stderr_of lib es, er_timed_out = False\<rparr>)"
proof -
  obtain os where os: "zc_written c1 = zc_written c @ os" "list_all (output_ok rid) os"
    "concat (map (stream_data 0) os) = stdout_of lib es" "concat (map (stream_data 1) os) = stderr_of lib es"
    "sum_list (map frame_bytes os) \<le> 33 * length es + length (stdout_of lib es) + length (stderr_of lib es)"
    using forward_frames [OF assms(2)] by blast
  let ?t = "exit_frame rid code" and ?fs = "os @ [exit_frame rid code]"
  have "zc_written c2 = zc_written c1 @ [?t]"
    using assms(3,4) by (auto simp: emit_terminal_def emit_def Let_def split: if_splits)
  then have w: "drop (length (zc_written c)) (zc_written c2) = ?fs" using os(1) by simp
  have t: "fr_kind ?t = KExit" "fr_request_id ?t = rid" by (simp_all add: exit_frame_def)
  have ids: "\<forall>f \<in> set ?fs. fr_request_id f = rid" using os(2) t by (auto simp: output_ok_def list_all_iff)
  have "frame_reader (b @ tail) = (?fs, e)"
    using frame_reader_frames [of ?fs b tail e] assms(1,7,8) ids unfolding w by (simp add: list_all_iff wf_frame_def)
  moreover have "outputs ?fs = os" using os(2) t by (simp add: filter_id_conv output_ok_def list_all_iff)
  then have "was_received rid (promptly rid ?fs) d = ?fs"
    using prompt_receives [of d rid ?fs] assms(9-11) ids os(5)
    by (simp add: fresh_request_def or_zero_def MAX_EXEC_OUTPUT_BYTES_def DEMUX_REQUEST_BYTE_BUDGET_def)
  moreover obtain x where "decode_payload exit_dec (fr_payload ?t) = Inr x" "sint (exit_code x) = code"
    using exit_frame_facts [OF assms(5,6)] by blast
  then have "exec_frame rid out er ?t = Inr (Inr \<lparr>er_status = Some code, er_stdout = out, er_stderr = er, er_timed_out = False\<rparr>)" for out er
    using t by (simp add: exec_frame_def)
  then have "exec_loop rid [] [] (map Got ?fs) = Some (Inr \<lparr>er_status = Some code, er_stdout = stdout_of lib es,
      er_stderr = stderr_of lib es, er_timed_out = False\<rparr>)"
    using exec_loop_outputs [OF os(2), of "[]" "[]" "[Got ?t]"] assms(10) os(3,4) by simp
  ultimately show ?thesis by auto
qed


section \<open>Witness\<close>

definition hi_lib :: zbrt_lib where
  "hi_lib = Zbrt_Connection.demo_lib\<lparr>l_terminal_event := (\<lambda>_. Some \<lparr>te_stream = Stdout, te_data = [], te_data_bytes = Some [104, 105]\<rparr>),
     l_exit_code := (\<lambda>_. Some (Some 3))\<rparr>"

definition hi_event :: guest_event where
  "hi_event = \<lparr>ge_kind = ''terminal.output'', ge_payload = []\<rparr>"

definition hi_done :: "runtime_message list" where
  "hi_done = [REvent \<lparr>ev_session_id = ''s'', ev_sequence = 1, ev_kind = ''turn.completed'', ev_payload = []\<rparr>]"

theorem command_crosses_the_wire_witness:
  "\<exists>fs. exec_loop demo_rid [] [] (map Got (was_received demo_rid (promptly demo_rid fs) demo_demux))
     = Some (Inr \<lparr>er_status = Some 3, er_stdout = [104, 105], er_stderr = [], er_timed_out = False\<rparr>)"
proof -
  have bytes: "event_bytes hi_lib Stdout hi_event = [104, 105]" "event_bytes hi_lib Stderr hi_event = []"
    by (simp_all add: event_bytes_def hi_lib_def hi_event_def)
  have rid: "length demo_rid = 16" by (simp add: demo_rid_def)
  obtain f where f: "output_frame hi_lib demo_rid hi_event = Some (Inr f)"
    by (simp add: output_frame_def hi_event_def hi_lib_def output_encode_def put_def)
  note ff = output_frame_facts [OF f] bytes
  have len: "length (fr_payload f) \<le> MAX_PAYLOAD" using ff by (simp add: MAX_PAYLOAD_def)
  let ?c1 = "demo_conn0\<lparr>zc_written := [f]\<rparr>"
  have fwd: "forward_events hi_lib demo_rid [hi_event] demo_conn0 = (True, ?c1)"
    using f ff len by (simp add: forward_event_def emit_def is_ok_def frame_encode_def demo_conn0_def zconn_start_def)
  have tf: "Zbrt_Connection.terminal_frame hi_lib demo_rid hi_done = exit_frame demo_rid 3"
    by (simp add: Zbrt_Connection.terminal_frame_def hi_done_def hi_lib_def i32_try_from_def)
  have small: "length (fr_payload (exit_frame demo_rid 3)) \<le> MAX_PAYLOAD" "fr_flags (exit_frame demo_rid 3) = 0"
    by (simp_all add: exit_frame_def exit_encode_def unwrap_or_default_def MAX_PAYLOAD_def u32_to_be_bytes_def)
  obtain c2 where fin: "emit_terminal hi_lib demo_rid hi_done ?c1 = (True, c2)" "zc_written c2 = [f, exit_frame demo_rid 3]"
    using small by (auto simp: emit_terminal_def tf emit_def is_ok_def Let_def frame_encode_def demo_conn0_def zconn_start_def)
  obtain b where b: "write_frames [] (drop (length (zc_written demo_conn0)) (zc_written c2)) = Inr b"
    using small len ff by (simp add: fin demo_conn0_def zconn_start_def write_frame_async_def frame_encode_def)
  have tail: "read_frame_async [] = Inl UnexpectedEof"
    by (simp add: read_frame_async_def pbind_def read_exact_def HEADER_LEN_def)
  have d: "fresh_request demo_rid demo_demux" unfolding demo_demux_def by (rule register_fresh) (simp_all add: demux_new_def)
  show ?thesis
    using command_crosses_the_wire [OF rid fwd fin(1) tf _ _ b tail d] bytes by (auto simp: MAX_EXEC_OUTPUT_BYTES_def)
qed

end
