(* ===== verification/Forkd_Guest.thy ===== *)
theory Forkd_Guest
  imports Agent_Server Contract
begin

text \<open>
  The host's side of a forkd guest connection, \<^verbatim>\<open>rfb/src/forkd/guest.rs\<close>: bounded JSON lines over a buffered
  reader, the token handshake, one request and its answer, structured tools and streams, and how they meet
  the guest agent of \<^theory_text>\<open>Agent_Server\<close> at the other end of the connection.

  What arrives on a socket is a list of chunks, in which a read may also time out or fail; the end of the list
  is the end of the stream. A write succeeds or fails as a whole, which is an argument of the operation. The
  serde conversions of the request types are parameters.
\<close>

section \<open>Errors and lines\<close>

datatype guest_error = GTimedOut string | GIo string | GTooLarge | GJson string | GRemote string | GInvalidPath | GLimitExceeded | GUnsupported string

definition MAX_LINE_BYTES :: nat where
  "MAX_LINE_BYTES = 1024 * 1024"

definition MAX_GUEST_RESULT_ENCODED_BYTES :: nat where
  "MAX_GUEST_RESULT_ENCODED_BYTES = 1024 * 1024"

datatype arrival = Chunk bytes | TimeUp | Failed string

record reader =
  rd_buffer :: bytes
  rd_arrivals :: "arrival list"

text \<open>\<^verbatim>\<open>read_until\<close> on the reader limited to \<open>lim\<close> more bytes: what it got, or how it failed.\<close>

function read_until :: "nat \<Rightarrow> bytes \<Rightarrow> bytes \<Rightarrow> arrival list \<Rightarrow> (guest_error + bytes) \<times> reader" where
  "read_until lim acc buf arr =
     (if lim = 0 then (Inr acc, \<lparr>rd_buffer = buf, rd_arrivals = arr\<rparr>)
      else if buf = [] then
        (case arr of
           [] \<Rightarrow> (Inr acc, \<lparr>rd_buffer = [], rd_arrivals = []\<rparr>)
         | TimeUp # as \<Rightarrow> (Inl (GTimedOut ''guest response timeout''), \<lparr>rd_buffer = [], rd_arrivals = as\<rparr>)
         | Failed e # as \<Rightarrow> (Inl (GIo e), \<lparr>rd_buffer = [], rd_arrivals = as\<rparr>)
         | Chunk c # as \<Rightarrow>
             if c = [] then (Inr acc, \<lparr>rd_buffer = [], rd_arrivals = as\<rparr>) else read_until lim acc c as)
      else
        (let available = take lim buf in
         case position 10 available of
           Some p \<Rightarrow> (Inr (acc @ take (p + 1) available), \<lparr>rd_buffer = drop (p + 1) buf, rd_arrivals = arr\<rparr>)
         | None \<Rightarrow> read_until (lim - length available) (acc @ available) (drop (length available) buf) arr))"
  by pat_completeness auto
termination by (relation "measures [\<lambda>(lim, acc, buf, arr). length arr, \<lambda>(lim, acc, buf, arr). length buf]") auto

declare read_until.simps [simp del]

fun arrival_weight :: "arrival \<Rightarrow> nat" where
  "arrival_weight (Chunk c) = Suc (length c)"
| "arrival_weight _ = 1"

definition reader_weight :: "reader \<Rightarrow> nat" where
  "reader_weight rd = length (rd_buffer rd) + sum_list (map arrival_weight (rd_arrivals rd))"

lemma read_until_weight:
  "read_until lim acc buf arr = (Inr line, rd) \<Longrightarrow>
     reader_weight rd + length line \<le> length buf + sum_list (map arrival_weight arr) + length acc"
proof (induction lim acc buf arr rule: read_until.induct)
  case (1 lim acc buf arr)
  show ?case
  proof (cases "lim = 0 \<or> buf = []")
    case True
    then show ?thesis using 1(1,3)
      by (auto simp: read_until.simps [of lim acc buf arr] reader_weight_def split: list.splits arrival.splits if_splits)
  next
    case False
    then show ?thesis using 1(2) [of "take lim buf"] 1(3)
      by (cases "position 10 (take lim buf)")
         (auto simp: read_until.simps [of lim acc buf arr] reader_weight_def Let_def dest!: position_cut(3))
  qed
qed

text \<open>One JSON value of a line; blank lines are skipped, and \<open>None\<close> is the end of the stream.\<close>

function read_json_line :: "json_lib \<Rightarrow> reader \<Rightarrow> (guest_error + json option) \<times> reader" where
  "read_json_line lib rd =
     (case read_until (MAX_LINE_BYTES + 1) [] (rd_buffer rd) (rd_arrivals rd) of
        (Inl e, rd1) \<Rightarrow> (Inl e, rd1)
      | (Inr buf, rd1) \<Rightarrow>
          if buf = [] then (Inr None, rd1)
          else if MAX_LINE_BYTES < length buf then (Inl GTooLarge, rd1)
          else if last buf \<noteq> 10 then (Inl (GRemote ''guest closed mid-line''), rd1)
          else if strip_eol buf = [] then read_json_line lib rd1
          else (map_sum GJson Some (jl_parse lib (strip_eol buf)), rd1))"
  by pat_completeness auto
termination
proof (relation "measure (\<lambda>(lib, rd). reader_weight rd)"; clarsimp)
  fix rd rd1 :: reader and buf :: bytes
  assume "(Inr buf, rd1) = read_until (Suc MAX_LINE_BYTES) [] (rd_buffer rd) (rd_arrivals rd)" "buf \<noteq> []"
  from read_until_weight [OF this(1) [symmetric]] this(2) show "reader_weight rd1 < reader_weight rd"
    by (cases buf) (auto simp: reader_weight_def [of rd])
qed

declare read_json_line.simps [simp del]

definition check_remote_error :: "json \<Rightarrow> guest_error + unit" where
  "check_remote_error v = (case str_field ''error'' v of Some e \<Rightarrow> Inl (GRemote e) | None \<Rightarrow> Inr ())"

section \<open>Handshake and exchange\<close>

definition auth_message :: "string \<Rightarrow> json" where
  "auth_message token = JObject [(''action'', JString ''auth''), (''token'', JString token)]"

text \<open>The client's token: the environment variable, ignored when it is blank.\<close>

definition agent_token :: "string option \<Rightarrow> string option" where
  "agent_token var = (case var of Some v \<Rightarrow> if trim v = [] then None else Some v | None \<Rightarrow> None)"

text \<open>\<open>werr\<close>: the error of a write, if it fails.\<close>

definition client_authenticate ::
  "json_lib \<Rightarrow> guest_error option \<Rightarrow> string option \<Rightarrow> reader \<Rightarrow> (guest_error + unit) \<times> reader" where
  "client_authenticate lib werr token rd =
     (case token of
        None \<Rightarrow> (Inr (), rd)
      | Some t \<Rightarrow>
          (case werr of
             Some e \<Rightarrow> (Inl e, rd)
           | None \<Rightarrow>
               (case read_json_line lib rd of
                  (Inl e, rd1) \<Rightarrow> (Inl e, rd1)
                | (Inr None, rd1) \<Rightarrow> (Inl (GRemote ''guest closed before auth response''), rd1)
                | (Inr (Some value), rd1) \<Rightarrow>
                    (if str_field ''action'' value = Some ''auth'' \<and> Option.bind (jget ''ok'' value) as_bool = Some True
                     then Inr ()
                     else Inl (GRemote (''guest agent auth failed''
                       @ (case str_field ''error'' value of Some e \<Rightarrow> '': '' @ e | None \<Rightarrow> []))), rd1))))"

definition MAX_RESPONSE_BYTES :: nat where
  "MAX_RESPONSE_BYTES = 16 * 1024 * 1024"

definition MAX_RESPONSE_LINES :: nat where
  "MAX_RESPONSE_LINES = 65536"

definition terminal_keys :: "string list" where
  "terminal_keys = [''exit_code'', ''pong'', ''results'', ''entries'', ''matches'', ''data'', ''content'', ''output'',
     ''status'', ''ok'', ''healthy'', ''done'', ''cancelled'', ''bytes_written'']"

definition ends_response :: "json \<Rightarrow> bool" where
  "ends_response v \<longleftrightarrow> list_ex (\<lambda>k. jget k v \<noteq> None) terminal_keys"

text \<open>The loop over response lines; at most \<open>fuel\<close> of them are accepted, which is the code's own limit.\<close>

fun collect_responses ::
  "json_lib \<Rightarrow> nat \<Rightarrow> json list \<Rightarrow> nat \<Rightarrow> reader \<Rightarrow> (guest_error + json list) \<times> reader" where
  "collect_responses lib fuel responses collected rd =
     (case read_json_line lib rd of
        (Inl e, rd1) \<Rightarrow> (Inl e, rd1)
      | (Inr None, rd1) \<Rightarrow> (Inl (GRemote ''guest closed before response''), rd1)
      | (Inr (Some value), rd1) \<Rightarrow>
          (case check_remote_error value of
             Inl e \<Rightarrow> (Inl e, rd1)
           | Inr _ \<Rightarrow>
               (let collected1 = collected + length (jl_print lib value) in
                if MAX_RESPONSE_BYTES < collected1 \<or> fuel = 0 then (Inl (GRemote ''guest response exceeded limit''), rd1)
                else if ends_response value then (Inr (responses @ [value]), rd1)
                else (case fuel of
                    Suc n \<Rightarrow> collect_responses lib n (responses @ [value]) collected1 rd1
                  | 0 \<Rightarrow> (Inl (GRemote ''guest response exceeded limit''), rd1)))))"

declare collect_responses.simps [simp del]

definition client_exchange ::
  "json_lib \<Rightarrow> guest_error option \<Rightarrow> reader \<Rightarrow> (guest_error + json list) \<times> reader" where
  "client_exchange lib werr rd =
     (case werr of Some e \<Rightarrow> (Inl e, rd) | None \<Rightarrow> collect_responses lib MAX_RESPONSE_LINES [] 0 rd)"

text \<open>The last line of the responses, as \<^verbatim>\<open>ping\<close>, \<^verbatim>\<open>exec_in\<close> and \<^verbatim>\<open>eval_request\<close> take it.\<close>

definition last_response :: "string \<Rightarrow> guest_error + json list \<Rightarrow> guest_error + json" where
  "last_response what r = res_bind r (\<lambda>vs. if vs = [] then Inl (GRemote (''empty '' @ what @ '' response'')) else Inr (last vs))"

section \<open>Structured tools\<close>

definition PER_ITEM_ALLOWANCE :: nat where
  "PER_ITEM_ALLOWANCE = 32"

fun text_len :: "json \<Rightarrow> nat" where
  "text_len (JString t) = length t"
| "text_len _ = 0"

fun item_bytes :: "json \<Rightarrow> nat" where
  "item_bytes (JString t) = PER_ITEM_ALLOWANCE + length t"
| "item_bytes (JObject flds) = PER_ITEM_ALLOWANCE + sum_list (map (text_len \<circ> snd) flds)"
| "item_bytes _ = PER_ITEM_ALLOWANCE"

fun field_bytes :: "string \<times> json \<Rightarrow> nat" where
  "field_bytes (k, JArray items) = (if k = ''data'' then length items else sum_list (map item_bytes items))"
| "field_bytes (k, JString t) = length t"
| "field_bytes _ = 0"

fun raw_response_bytes :: "json \<Rightarrow> nat" where
  "raw_response_bytes (JObject flds) = sum_list (map field_bytes flds)"
| "raw_response_bytes _ = 0"

text \<open>The serde conversions of a tool's request type: from and to JSON.\<close>

record tool_serde =
  ts_from :: "string \<Rightarrow> json \<Rightarrow> string + guest_request"
  ts_to :: "guest_request \<Rightarrow> json"

definition tools :: "string list" where
  "tools = [''ls'', ''find'', ''grep'', ''read'', ''write'', ''eval'']"

text \<open>The action to send, or the error without sending anything; \<open>text\<close> is the text of a contract error.\<close>

definition tool_action :: "tool_serde \<Rightarrow> (contract_error \<Rightarrow> string) \<Rightarrow> string \<Rightarrow> json \<Rightarrow> guest_error + json" where
  "tool_action ts text tool args =
     (if tool \<notin> set tools then Inl (GUnsupported tool)
      else res_bind (map_sum GJson id (ts_from ts tool args)) (\<lambda>req.
        res_bind (map_sum (GRemote \<circ> text) id (request_validate req)) (\<lambda>_.
          Inr (jset ''action'' (JString tool) (ts_to ts req)))))"

definition tool_answer :: "json_lib \<Rightarrow> json \<Rightarrow> guest_error + json" where
  "tool_answer lib value =
     (if MAX_GUEST_RESULT_BYTES < raw_response_bytes value \<or> MAX_GUEST_RESULT_ENCODED_BYTES < length (jl_print lib value)
      then Inl GTooLarge
      else (case Option.bind (jget ''results'' value) as_array of
          Some results \<Rightarrow> if MAX_GUEST_RESULTS < length results then Inl GLimitExceeded else Inr value
        | None \<Rightarrow> Inr value))"

section \<open>Streams\<close>

text \<open>A stream with the lines it has written.\<close>

record guest_stream =
  gs_reader :: reader
  gs_written :: "json list"
  gs_stopped :: bool
  gs_terminal :: bool

definition stream_next :: "json_lib \<Rightarrow> guest_stream \<Rightarrow> (guest_error + json option) \<times> guest_stream" where
  "stream_next lib s =
     (case read_json_line lib (gs_reader s) of
        (Inl e, rd1) \<Rightarrow> (Inl e, s\<lparr>gs_reader := rd1\<rparr>)
      | (Inr None, rd1) \<Rightarrow> (Inr None, s\<lparr>gs_reader := rd1\<rparr>)
      | (Inr (Some value), rd1) \<Rightarrow>
          (case check_remote_error value of
             Inl e \<Rightarrow> (Inl e, s\<lparr>gs_reader := rd1\<rparr>)
           | Inr _ \<Rightarrow> (Inr (Some value),
               s\<lparr>gs_reader := rd1, gs_terminal := gs_terminal s \<or> jget ''exit_code'' value \<noteq> None\<rparr>)))"

definition stream_send_input :: "guest_error option \<Rightarrow> string \<Rightarrow> guest_stream \<Rightarrow> (guest_error + unit) \<times> guest_stream" where
  "stream_send_input werr input s =
     (if gs_terminal s \<or> gs_stopped s then (Inl (GRemote ''guest stream is no longer running''), s)
      else (case werr of
          Some e \<Rightarrow> (Inl e, s)
        | None \<Rightarrow> (Inr (), s\<lparr>gs_written := gs_written s @ [JObject [(''in'', JString input)]]\<rparr>)))"

definition stop_message :: json where
  "stop_message = JObject [(''action'', JString ''stop'')]"

definition stream_stop :: "guest_error option \<Rightarrow> guest_stream \<Rightarrow> (guest_error + unit) \<times> guest_stream" where
  "stream_stop werr s =
     (if gs_terminal s \<or> gs_stopped s then (Inr (), s)
      else (case werr of
          Some e \<Rightarrow> (Inl e, s)
        | None \<Rightarrow> (Inr (), s\<lparr>gs_written := gs_written s @ [stop_message], gs_stopped := True\<rparr>)))"


section \<open>Reading a line that has arrived\<close>

text \<open>The reader will deliver exactly these bytes, however they are cut into chunks.\<close>

definition holds :: "reader \<Rightarrow> bytes \<Rightarrow> bool" where
  "holds rd bs \<longleftrightarrow> (\<exists>cs. rd_arrivals rd = map Chunk cs \<and> [] \<notin> set cs \<and> rd_buffer rd @ concat cs = bs)"

lemma first_line_mem: "10 \<in> set bs \<Longrightarrow> first_line bs \<noteq> [] \<and> last (first_line bs) = 10"
  by (simp add: first_line_def)

lemma read_until_line:
  assumes "10 \<in> set (buf @ concat cs)" "length (first_line (buf @ concat cs)) \<le> lim" "[] \<notin> set cs"
  shows "\<exists>rd. read_until lim acc buf (map Chunk cs) = (Inr (acc @ first_line (buf @ concat cs)), rd)
    \<and> holds rd (drop (length (first_line (buf @ concat cs))) (buf @ concat cs))"
  using assms
proof (induction lim acc buf "map Chunk cs" arbitrary: cs rule: read_until.induct)
  case (1 lim acc buf)
  let ?S = "buf @ concat cs"
  have lim: "lim \<noteq> 0" using first_line_mem [OF 1(3)] 1(4) by (cases "first_line (buf @ concat cs)") auto
  show ?case
  proof (cases "buf = []")
    case True
    then obtain c cs' where cs: "cs = c # cs'" using 1(3) by (cases cs) auto
    then have "c \<noteq> []" using 1(5) by auto
    have "\<exists>rd. read_until lim acc c (map Chunk cs') = (Inr (acc @ first_line (c @ concat cs')), rd)
        \<and> holds rd (drop (length (first_line (c @ concat cs'))) (c @ concat cs'))"
      using 1(1) [OF lim True] 1(3-5) True cs \<open>c \<noteq> []\<close> by auto
    then show ?thesis
      using True cs lim \<open>c \<noteq> []\<close> by (simp add: read_until.simps [of lim acc "[]"])
  next
    case False
    let ?a = "take lim buf"
    have S: "?S = ?a @ (drop lim buf @ concat cs)" by simp
    show ?thesis
    proof (cases "position 10 ?a")
      case (Some p)
      have fl: "first_line ?S = take (p + 1) ?a"
        using position_cut [OF Some] by (subst S, subst first_line_append) (simp add: first_line_def)
      have p: "p + 1 \<le> lim" "p + 1 \<le> length buf" using position_cut(3) [OF Some] by auto
      then have fl': "first_line ?S = take (p + 1) buf" "length (first_line ?S) = p + 1" unfolding fl by (auto simp: min_def)
      have "holds \<lparr>rd_buffer = drop (p + 1) buf, rd_arrivals = map Chunk cs\<rparr> (drop (p + 1) ?S)"
        using 1(5) p(2) unfolding holds_def by (intro exI [of _ cs]) simp
      then show ?thesis using lim False Some
        unfolding fl'(2) by (simp add: read_until.simps [of lim acc buf] Let_def fl)
    next
      case None
      then have no: "10 \<notin> set ?a" by (simp add: position_def split: if_splits)
      have fl: "first_line ?S = ?a @ first_line (drop lim buf @ concat cs)"
        by (subst S, subst first_line_append) (simp add: no)
      have mem: "10 \<in> set (drop lim buf @ concat cs)" using 1(3) no by (subst (asm) S) (auto simp del: append_take_drop_id)
      then have "length buf < lim" using 1(4) first_line_mem [OF mem] unfolding fl by (cases "first_line (drop lim buf @ concat cs)") (auto simp: min_def split: if_splits)
      then have a: "?a = buf" "drop lim buf = []" by simp_all
      have fl: "first_line ?S = buf @ first_line (concat cs)" using fl a by simp
      have "\<exists>rd. read_until (lim - length ?a) (acc @ ?a) (drop (length ?a) buf) (map Chunk cs)
          = (Inr ((acc @ ?a) @ first_line (drop (length ?a) buf @ concat cs)), rd)
        \<and> holds rd (drop (length (first_line (drop (length ?a) buf @ concat cs))) (drop (length ?a) buf @ concat cs))"
        by (rule 1(2) [OF lim False refl None refl _ _ 1(5)]) (use mem a 1(4) in \<open>simp_all add: fl\<close>)
      then show ?thesis
        using lim False None a unfolding fl by (simp add: read_until.simps [of lim acc buf] Let_def)
    qed
  qed
qed

text \<open>A value whose text is one line below the limits of both sides and parses back to it.\<close>

definition line_ok :: "json_lib \<Rightarrow> json \<Rightarrow> bool" where
  "line_ok lib v \<longleftrightarrow> jl_parse lib (jl_print lib v) = Inr v \<and> jl_print lib v \<noteq> [] \<and> 10 \<notin> set (jl_print lib v)
     \<and> 13 \<notin> set (jl_print lib v) \<and> length (jl_print lib v) < 1024 * 1024"

lemma strip_eol_line: "10 \<notin> set t \<Longrightarrow> 13 \<notin> set t \<Longrightarrow> strip_eol (t @ [10]) = t"
  by (cases t rule: rev_cases) (auto simp: strip_eol_def)

lemma line_ok_first:
  "line_ok lib v \<Longrightarrow> first_line (jl_print lib v @ 10 # rest) = jl_print lib v @ [10]"
  by (subst first_line_append) (simp add: line_ok_def first_line_def)

lemma line_ok_json_line: "line_ok lib v \<Longrightarrow> json_line lib v = jl_print lib v @ [10]"
  by (simp add: json_line_def line_ok_def MAX_RESPONSE_def)

lemma read_value:
  assumes "line_ok lib v" "holds rd (json_line lib v @ rest)"
  shows "\<exists>rd'. read_json_line lib rd = (Inr (Some v), rd') \<and> holds rd' rest"
proof -
  let ?t = "jl_print lib v"
  obtain cs where cs: "rd_arrivals rd = map Chunk cs" "[] \<notin> set cs" "rd_buffer rd @ concat cs = ?t @ 10 # rest"
    using assms(2) by (auto simp: holds_def line_ok_json_line [OF assms(1)])
  have fl: "first_line (rd_buffer rd @ concat cs) = ?t @ [10]" unfolding cs(3) by (rule line_ok_first [OF assms(1)])
  have "10 \<in> set (rd_buffer rd @ concat cs)" unfolding cs(3) by simp
  moreover have "length (first_line (rd_buffer rd @ concat cs)) \<le> MAX_LINE_BYTES + 1"
    unfolding fl using assms(1) by (simp add: line_ok_def MAX_LINE_BYTES_def)
  ultimately obtain rd' where r: "read_until (MAX_LINE_BYTES + 1) [] (rd_buffer rd) (map Chunk cs) = (Inr (?t @ [10]), rd')"
    "holds rd' (drop (length (?t @ [10])) (rd_buffer rd @ concat cs))"
    using read_until_line [of "rd_buffer rd" cs "MAX_LINE_BYTES + 1" "[]"] cs(2) unfolding fl by auto
  have "\<not> MAX_LINE_BYTES < length (?t @ [10])" "strip_eol (?t @ [10]) = ?t"
    using assms(1) strip_eol_line by (auto simp: line_ok_def MAX_LINE_BYTES_def)
  then have "read_json_line lib rd = (Inr (Some v), rd')"
    using assms(1) r(1) by (simp add: read_json_line.simps [of lib rd] cs(1) line_ok_def)
  then show ?thesis using r(2) unfolding cs(3) by simp
qed

text \<open>One exchange: the first line decides when it is an error or ends the response.\<close>

lemma exchange_value:
  assumes "line_ok lib v" "holds rd (json_line lib v @ rest)" "check_remote_error v \<noteq> Inr () \<or> ends_response v"
  shows "\<exists>rd'. client_exchange lib None rd = (res_bind (check_remote_error v) (\<lambda>_. Inr [v]), rd') \<and> holds rd' rest"
proof -
  obtain rd' where r: "read_json_line lib rd = (Inr (Some v), rd')" "holds rd' rest" using read_value [OF assms(1,2)] by blast
  have "\<not> MAX_RESPONSE_BYTES < length (jl_print lib v)" "MAX_RESPONSE_LINES \<noteq> 0"
    using assms(1) by (simp_all add: line_ok_def MAX_RESPONSE_BYTES_def MAX_RESPONSE_LINES_def)
  then show ?thesis using r assms(3)
    by (cases "check_remote_error v") (auto simp: client_exchange_def collect_responses.simps [of lib MAX_RESPONSE_LINES] Let_def)
qed


section \<open>The agent at the other end\<close>

definition reply :: "string + json \<Rightarrow> json" where
  "reply r = (case r of Inr v \<Rightarrow> v | Inl e \<Rightarrow> error_object e)"

text \<open>What a sequence of requests does on the guest: the results in order, and the tree afterwards.\<close>

fun served :: "agent_env \<Rightarrow> json_lib \<Rightarrow> json list \<Rightarrow> node \<Rightarrow> (string + json) list \<times> node" where
  "served ag lib [] fs = ([], fs)"
| "served ag lib (v # vs) fs =
     (case agent_action ag lib (or_else (str_field ''action'' v) []) v fs of
        (r, fs1) \<Rightarrow> (case served ag lib vs fs1 of (rs, fs2) \<Rightarrow> (r # rs, fs2)))"

definition request_lines :: "json_lib \<Rightarrow> json list \<Rightarrow> bytes" where
  "request_lines lib vs = concat (map (\<lambda>v. jl_print lib v @ [10]) vs)"

lemma read_request:
  assumes "line_ok lib v" "list_all fill_ok fills" "fill_bytes fills = jl_print lib v @ 10 # rest"
  shows "\<exists>fills'. read_incoming fills = (Inr (Line (jl_print lib v)), fills') \<and> fill_bytes fills' = rest \<and> list_all fill_ok fills'"
proof -
  have fl: "first_line (fill_bytes fills) = jl_print lib v @ [10]" unfolding assms(3) by (rule line_ok_first [OF assms(1)])
  have "classify (jl_print lib v @ [10]) = Line (jl_print lib v)"
    using assms(1) strip_eol_line by (auto simp: classify_def line_ok_def MAX_LINE_def)
  then show ?thesis using read_incoming_spec [OF assms(2)] unfolding fl by (auto simp: assms(3))
qed

lemma agent_serves:
  assumes "list_all (line_ok lib) vs" "list_all (\<lambda>v. str_field ''action'' v \<noteq> Some ''stream'') vs"
    "list_all fill_ok fills" "fill_bytes fills = request_lines lib vs" "served ag lib vs fs = (rs, fs1)"
  shows "\<exists>rest. agent_loop ag lib (\<lambda>_. None) fills out fs = (CClosed (Inr ()), rest, out @ map (json_line lib \<circ> reply) rs, fs1)"
  using assms
proof (induction vs arbitrary: fills out fs rs)
  case Nil
  then have "first_line (fill_bytes fills) = []" by (simp add: request_lines_def first_line_def)
  then obtain rest where "read_incoming fills = (Inr Eof, rest)"
    using read_incoming_spec [OF Nil.prems(3)] by (auto simp: classify_def MAX_LINE_def)
  then show ?case using Nil.prems(5) by (simp add: agent_loop.simps [of ag lib "\<lambda>_. None" fills])
next
  case (Cons v vs)
  let ?action = "or_else (str_field ''action'' v) []"
  obtain r fs2 where a: "agent_action ag lib ?action v fs = (r, fs2)" by fastforce
  obtain rs2 where s: "served ag lib vs fs2 = (rs2, fs1)" "rs = r # rs2"
    using Cons.prems(5) a by (auto split: prod.splits)
  have ns: "?action \<noteq> ''stream''" using Cons.prems(2) by (auto simp: or_else_def split: option.splits)
  have ok: "line_ok lib v" using Cons.prems(1) by simp
  have "fill_bytes fills = jl_print lib v @ 10 # request_lines lib vs" using Cons.prems(4) by (simp add: request_lines_def)
  from read_request [OF ok Cons.prems(3) this] obtain fills' where
    f: "read_incoming fills = (Inr (Line (jl_print lib v)), fills')" "fill_bytes fills' = request_lines lib vs" "list_all fill_ok fills'" by blast
  have "agent_loop ag lib (\<lambda>_. None) fills out fs = agent_loop ag lib (\<lambda>_. None) fills' (out @ [json_line lib (reply r)]) fs2"
    using f(1) ok a ns by (simp add: agent_loop.simps [of ag lib "\<lambda>_. None" fills] Let_def write_json_def line_ok_def reply_def)
  then show ?case
    using Cons.IH [OF _ _ f(3,2) s(1), of "out @ [json_line lib (reply r)]"] Cons.prems(1,2) s(2) by simp
qed

text \<open>Every answer of the agent ends the client's exchange: it is an error, or has a key that ends a response.\<close>

lemma shrunk_ends: "(\<exists>w. map_of m ''exit_code'' = Some w) \<Longrightarrow> shrunk m m' \<Longrightarrow> ends_response (JObject m')"
  by (auto simp: shrunk_def ends_response_def terminal_keys_def shrink_keys_def)

lemma shrunk_no_error: "map_of m ''error'' = Some JNull \<Longrightarrow> shrunk m m' \<Longrightarrow> check_remote_error (JObject m') = Inr ()"
  by (auto simp: shrunk_def check_remote_error_def str_field_def shrink_keys_def)

definition final_answer :: "json \<Rightarrow> bool" where
  "final_answer w \<longleftrightarrow> check_remote_error w = Inr () \<and> ends_response w"

lemma execute_answer:
  assumes "execute ag lib v fs = (Inr w, fs1)"
  shows "final_answer w"
proof (cases "builtin v")
  case (Some kind)
  then show ?thesis using assms
    by (cases "agent_validate_builtin ag fs v")
       (auto simp: execute_def builtin_result_def Let_def final_answer_def check_remote_error_def str_field_def ends_response_def terminal_keys_def split: prod.splits)
next
  case None
  then obtain command where c: "command_from ag fs v = Inr command" "ag_spawn_error ag command fs = None"
    using assms by (auto simp: execute_def split: sum.splits option.splits)
  show ?thesis
  proof (cases "fst (ag_wait ag command (effective_exec_timeout v) fs)")
    case (WExited outs errs code)
    let ?r = "exec_response (read_bounded MAX_EXEC_STREAM_BYTES outs ([], False)) (read_bounded MAX_EXEC_STREAM_BYTES errs ([], False)) code"
    have "\<exists>m. ?r = JObject m \<and> map_of m ''error'' = Some JNull \<and> (\<exists>w. map_of m ''exit_code'' = Some w)"
      unfolding exec_response_def by (intro exI conjI, rule refl) simp_all
    then obtain m where m: "?r = JObject m" "map_of m ''error'' = Some JNull" "\<exists>w. map_of m ''exit_code'' = Some w" by blast
    obtain m1 where m1: "shrink_loop lib 24 (JObject m) = JObject m1" "shrunk m m1" using shrink_loop_shrunk by blast
    have "w = JObject m1"
      using assms None c WExited m(1) m1(1) by (auto simp: execute_def shrink_to_wire_budget_def split: prod.splits)
    then show ?thesis using shrunk_ends [OF m(3) m1(2)] shrunk_no_error [OF m(2) m1(2)] by (simp add: final_answer_def)
  next
    case (WFailed e)
    then show ?thesis using assms None c by (auto simp: execute_def split: prod.splits)
  next
    case WTimeout
    then show ?thesis using assms None c
      by (auto simp: execute_def timeout_response_def final_answer_def check_remote_error_def str_field_def ends_response_def terminal_keys_def split: prod.splits)
  qed
qed

lemma search_answer:
  "agent_ls ag v fs = Inr w \<Longrightarrow> final_answer w"
  "agent_find ag v fs = Inr w \<Longrightarrow> final_answer w"
  "agent_grep ag lib v fs = Inr w \<Longrightarrow> final_answer w"
  "agent_read ag v fs = Inr w \<Longrightarrow> final_answer w"
  by (auto simp: agent_ls_def agent_find_def agent_grep_def agent_read_def final_answer_def check_remote_error_def str_field_def
      ends_response_def terminal_keys_def Let_def dest!: res_bind_eq_Inr_conv [THEN iffD1] split: prod.splits if_splits)

lemma write_answer:
  "agent_write ag v fs = (Inr w, fs1) \<Longrightarrow> final_answer w"
  by (auto simp: agent_write_def Let_def final_answer_def check_remote_error_def str_field_def ends_response_def terminal_keys_def
      split: sum.splits prod.splits option.splits)

lemma eval_answer:
  "agent_eval ag lib v fs = (Inr w, fs1) \<Longrightarrow> final_answer w"
  by (auto simp: agent_eval_def Let_def final_answer_def check_remote_error_def str_field_def ends_response_def terminal_keys_def
      split: sum.splits prod.splits option.splits if_splits)

lemma ping_answer: "final_answer (ping_response ag)"
  by (simp add: ping_response_def final_answer_def check_remote_error_def str_field_def ends_response_def terminal_keys_def)

lemma agent_answer:
  "agent_action ag lib action v fs = (Inr w, fs1) \<Longrightarrow> final_answer w"
  using execute_answer search_answer write_answer eval_answer
  by (auto simp: agent_action_def agent_structured_def ping_answer split: if_splits)


section \<open>Conversations\<close>

lemma reply_exchange:
  assumes "agent_action ag lib action v fs = (r, fs1)" "line_ok lib (reply r)" "holds rd (json_line lib (reply r) @ rest)"
  shows "\<exists>rd'. client_exchange lib None rd = (map_sum GRemote (\<lambda>w. [w]) r, rd') \<and> holds rd' rest"
proof (cases r)
  case (Inr w)
  then have "final_answer w" using agent_answer assms(1) by blast
  then show ?thesis using exchange_value [OF assms(2,3)] Inr by (auto simp: reply_def final_answer_def)
next
  case (Inl e)
  have "check_remote_error (error_object e) = Inl (GRemote e)" by (simp add: check_remote_error_def str_field_def error_object_def)
  then show ?thesis using exchange_value [OF assms(2,3)] Inl by (auto simp: reply_def)
qed

text \<open>Exchanges on one connection until the first failure, with which the client drops it.\<close>

fun conversation :: "json_lib \<Rightarrow> nat \<Rightarrow> reader \<Rightarrow> (guest_error + json list) list" where
  "conversation lib 0 rd = []"
| "conversation lib (Suc n) rd =
     (case client_exchange lib None rd of
        (Inl e, _) \<Rightarrow> [Inl e]
      | (Inr vs, rd1) \<Rightarrow> Inr vs # conversation lib n rd1)"

fun until_error :: "(string + json) list \<Rightarrow> (guest_error + json list) list" where
  "until_error [] = []"
| "until_error (Inr v # rs) = Inr [v] # until_error rs"
| "until_error (Inl e # rs) = [Inl (GRemote e)]"

lemma conversation_served:
  assumes "served ag lib vs fs = (rs, fs1)" "list_all (\<lambda>r. line_ok lib (reply r)) rs"
    "holds rd (concat (map (json_line lib \<circ> reply) rs))"
  shows "conversation lib (length vs) rd = until_error rs"
  using assms
proof (induction vs arbitrary: fs rs rd)
  case (Cons v vs)
  obtain r fs2 where a: "agent_action ag lib (or_else (str_field ''action'' v) []) v fs = (r, fs2)" by fastforce
  obtain rs2 where s: "served ag lib vs fs2 = (rs2, fs1)" "rs = r # rs2" using Cons.prems(1) a by (auto split: prod.splits)
  have "line_ok lib (reply r)" "holds rd (json_line lib (reply r) @ concat (map (json_line lib \<circ> reply) rs2))"
    using Cons.prems(2,3) s(2) by (simp_all add: comp_def)
  from reply_exchange [OF a this] obtain rd' where
    rd': "client_exchange lib None rd = (map_sum GRemote (\<lambda>w. [w]) r, rd')" "holds rd' (concat (map (json_line lib \<circ> reply) rs2))" by blast
  have "list_all (\<lambda>r. line_ok lib (reply r)) rs2" using Cons.prems(2) s(2) by simp
  from Cons.IH [OF s(1) this rd'(2)] show ?case using rd'(1) s(2) by (cases r) simp_all
qed simp

text \<open>The handshake of a client with a token.\<close>

definition auth_ok :: json where
  "auth_ok = JObject [(''action'', JString ''auth''), (''ok'', JBool True)]"

definition auth_refused :: json where
  "auth_refused = JObject [(''action'', JString ''auth''), (''ok'', JBool False), (''error'', JString ''authentication failed'')]"

lemma constant_time_eq_refl [simp]: "constant_time_eq a a"
proof -
  have "fold (\<lambda>i diff. diff) xs d = d" for xs :: "nat list" and d :: "64 word" by (induction xs) simp_all
  then show ?thesis by (simp add: constant_time_eq_def)
qed

lemma client_auth_reads:
  assumes "line_ok lib v" "holds rd (json_line lib v @ rest)"
  shows "\<exists>r rd'. client_authenticate lib None (Some t) rd = (r, rd') \<and> holds rd' rest
    \<and> (r = Inr () \<longleftrightarrow> str_field ''action'' v = Some ''auth'' \<and> Option.bind (jget ''ok'' v) as_bool = Some True)"
  using read_value [OF assms] by (auto simp: client_authenticate_def)

lemma agent_authenticates:
  assumes "line_ok lib (auth_message t)" "list_all fill_ok fills" "fill_bytes fills = jl_print lib (auth_message t) @ 10 # rest"
  shows "\<exists>fills'. fill_bytes fills' = rest \<and> list_all fill_ok fills' \<and> authenticate lib (\<lambda>_. None) True expected fills []
      = (Inr (constant_time_eq (as_bytes expected) (as_bytes t)), fills',
         [json_line lib (if constant_time_eq (as_bytes expected) (as_bytes t) then auth_ok else auth_refused)])"
proof -
  obtain fills' where f: "read_incoming fills = (Inr (Line (jl_print lib (auth_message t))), fills')" "fill_bytes fills' = rest" "list_all fill_ok fills'"
    using read_request [OF assms] by blast
  have "jl_parse lib (jl_print lib (auth_message t)) = Inr (auth_message t)" using assms(1) by (simp add: line_ok_def)
  then have "authenticate lib (\<lambda>_. None) True expected fills []
      = (Inr (constant_time_eq (as_bytes expected) (as_bytes t)), fills',
         [json_line lib (if constant_time_eq (as_bytes expected) (as_bytes t) then auth_ok else auth_refused)])"
    using f(1) by (auto simp: authenticate_def auth_message_def str_field_def or_else_def write_json_def auth_ok_def auth_refused_def)
  then show ?thesis using f by blast
qed

section \<open>The latches of a stream and the size of a listing\<close>

datatype stream_op = DoNext | DoInput "guest_error option" string | DoStop "guest_error option"

fun stream_do :: "json_lib \<Rightarrow> stream_op \<Rightarrow> guest_stream \<Rightarrow> guest_stream" where
  "stream_do lib DoNext s = snd (stream_next lib s)"
| "stream_do lib (DoInput werr input) s = snd (stream_send_input werr input s)"
| "stream_do lib (DoStop werr) s = snd (stream_stop werr s)"

definition stop_once :: "guest_stream \<Rightarrow> bool" where
  "stop_once s \<longleftrightarrow> stop_message \<notin> set (butlast (gs_written s)) \<and> (gs_stopped s \<longleftrightarrow> stop_message \<in> set (gs_written s))"

lemma stream_next_keeps:
  "gs_written (snd (stream_next lib s)) = gs_written s \<and> gs_stopped (snd (stream_next lib s)) = gs_stopped s
     \<and> (gs_terminal s \<longrightarrow> gs_terminal (snd (stream_next lib s)))"
  by (auto simp: stream_next_def split: prod.splits sum.splits option.splits)

lemma stream_do_stop_once: "stop_once s \<Longrightarrow> stop_once (stream_do lib op s)"
  by (cases op) (auto simp: stop_once_def stream_next_keeps stream_send_input_def stream_stop_def stop_message_def
    butlast_append dest: in_set_butlastD split: option.splits)

lemma stream_stops_once: "stop_once s \<Longrightarrow> stop_once (fold (stream_do lib) ops s)"
  by (induction ops arbitrary: s) (simp_all add: stream_do_stop_once)

lemma stream_do_quiet:
  "gs_terminal s \<or> gs_stopped s \<Longrightarrow> gs_written (stream_do lib op s) = gs_written s
     \<and> (gs_terminal (stream_do lib op s) \<or> gs_stopped (stream_do lib op s))"
  by (cases op) (use stream_next_keeps [of lib s] in \<open>auto simp: stream_send_input_def stream_stop_def\<close>)

lemma stream_quiet_after_end:
  "gs_terminal s \<or> gs_stopped s \<Longrightarrow> gs_written (fold (stream_do lib) ops s) = gs_written s"
  by (induction ops arbitrary: s) (simp_all add: stream_do_quiet)

lemma sum_insort: "sum_list (map f (insort_key k x xs)) = (f x :: nat) + sum_list (map f xs)"
  by (induction xs) simp_all

lemma sum_sort: "sum_list (map f (sort_key k xs)) = (sum_list (map f xs) :: nat)"
  by (induction xs) (simp_all add: sum_insort)

text \<open>
  The client's measure of a complete listing is 32 bytes for each entry and the names, so that a listing of a
  thousand files that the agent answers in full is refused when the names are longer than nineteen bytes.
\<close>

lemma listing_size:
  assumes "agent_path ag fs (jget ''path'' request) = Inr p" "agent_limit (jget ''max_results'' request) MAX_RESULTS MAX_RESULTS = Inr mx"
    "os_result (ag_os ag) (read_dir fs p) = Inr es" "length es \<le> mx"
  shows "\<exists>v. agent_ls ag request fs = Inr v \<and> jget ''truncated'' v = Some (JBool False)
    \<and> raw_response_bytes v = (\<Sum>e\<leftarrow>es. PER_ITEM_ALLOWANCE + length (lossy (fst e)))"
proof -
  let ?sorted = "sort_key entry_name (map agent_entry es)"
  have len: "length ?sorted \<le> mx" using assms(4) by simp
  have sc: "scan_loop (mx * 2 + 1) es [] = (map agent_entry es, False)" using scan_loop_spec [of "[]" "mx * 2 + 1" es] assms(4) by simp
  have ls: "agent_ls ag request fs = Inr (JObject [(''entries'', JArray ?sorted), (''truncated'', JBool False)])"
    using len sc by (simp add: agent_ls_def assms(1-3))
  have "sum_list (map item_bytes ?sorted) = sum_list (map item_bytes (map agent_entry es))"
    by (rule sum_sort)
  also have "\<dots> = (\<Sum>e\<leftarrow>es. PER_ITEM_ALLOWANCE + length (lossy (fst e)))"
    by (simp add: comp_def agent_entry_def split: node.splits cong: map_cong) (auto intro!: arg_cong [where f = sum_list] map_cong split: node.splits)
  finally show ?thesis using ls by simp
qed

lemma listing_refused:
  "MAX_GUEST_RESULT_BYTES < raw_response_bytes v \<Longrightarrow> tool_answer lib v = Inl GTooLarge"
  by (simp add: tool_answer_def)

section \<open>Properties\<close>

definition client_lines :: "json_lib \<Rightarrow> string option \<Rightarrow> json list \<Rightarrow> bytes" where
  "client_lines lib token vs = request_lines lib ((case token of Some t \<Rightarrow> [auth_message t] | None \<Rightarrow> []) @ vs)"

definition client_session :: "json_lib \<Rightarrow> string option \<Rightarrow> nat \<Rightarrow> reader \<Rightarrow> (guest_error + json list) list" where
  "client_session lib token n rd =
     (case client_authenticate lib None token rd of (Inl e, _) \<Rightarrow> [Inl e] | (Inr _, rd1) \<Rightarrow> conversation lib n rd1)"

text \<open>
  C17. Every request gets its own answer. A client and an agent with the same token, or both without, talk over
  one connection, cut into chunks in any way in both directions: the requests are served in order, the i-th
  exchange of the client returns exactly the agent's i-th result, one value or the agent's error, up to the
  first error, with which the client drops the connection. The JSON library is assumed to print the values
  of the conversation on one line each, below the limit of 1 MiB, from which they are parsed back.
\<close>

theorem forkd_conversation:
  assumes "list_all (line_ok lib) vs" "list_all (\<lambda>v. str_field ''action'' v \<noteq> Some ''stream'') vs"
    "\<forall>t. token = Some t \<longrightarrow> line_ok lib (auth_message t) \<and> line_ok lib auth_ok"
    "served ag lib vs fs = (rs, fs1)" "list_all (\<lambda>r. line_ok lib (reply r)) rs"
    "list_all fill_ok fills" "fill_bytes fills = client_lines lib token vs"
    "agent_connection ag lib (\<lambda>_. None) True token fills fs = (e, rest, out, fs')" "holds rd (concat out)"
  shows "client_session lib token (length vs) rd = until_error rs \<and> fs' = fs1 \<and> e = CClosed (Inr ())"
proof (cases token)
  case None
  then have f: "fill_bytes fills = request_lines lib vs" using assms(7) by (simp add: client_lines_def)
  obtain rest' where a: "agent_loop ag lib (\<lambda>_. None) fills [] fs = (CClosed (Inr ()), rest', [] @ map (json_line lib \<circ> reply) rs, fs1)"
    using agent_serves [OF assms(1,2,6) f assms(4)] by blast
  then have o: "out = map (json_line lib \<circ> reply) rs" "fs' = fs1" "e = CClosed (Inr ())"
    using assms(8) None by (simp_all add: agent_connection_def)
  show ?thesis using conversation_served [OF assms(4,5)] assms(9) o None
    by (simp add: client_session_def client_authenticate_def)
next
  case (Some t)
  then have ok: "line_ok lib (auth_message t)" "line_ok lib auth_ok" using assms(3) by simp_all
  have f: "fill_bytes fills = jl_print lib (auth_message t) @ 10 # request_lines lib vs"
    using assms(7) Some by (simp add: client_lines_def request_lines_def)
  obtain fills' where g: "fill_bytes fills' = request_lines lib vs" "list_all fill_ok fills'"
    "authenticate lib (\<lambda>_. None) True t fills [] = (Inr True, fills', [json_line lib auth_ok])"
    using agent_authenticates [OF ok(1) assms(6) f, of t] by auto
  obtain rest' where a: "agent_loop ag lib (\<lambda>_. None) fills' [json_line lib auth_ok] fs
      = (CClosed (Inr ()), rest', [json_line lib auth_ok] @ map (json_line lib \<circ> reply) rs, fs1)"
    using agent_serves [OF assms(1,2) g(2,1) assms(4)] by blast
  then have o: "out = [json_line lib auth_ok] @ map (json_line lib \<circ> reply) rs" "fs' = fs1" "e = CClosed (Inr ())"
    using assms(8) Some g(3) by (simp_all add: agent_connection_def)
  then have "holds rd (json_line lib auth_ok @ concat (map (json_line lib \<circ> reply) rs))" using assms(9) by simp
  from client_auth_reads [OF ok(2) this, of t] obtain rd' where
    rd': "client_authenticate lib None (Some t) rd = (Inr (), rd')" "holds rd' (concat (map (json_line lib \<circ> reply) rs))"
    by (auto simp: auth_ok_def str_field_def)
  show ?thesis using conversation_served [OF assms(4,5) rd'(2)] rd'(1) o(2,3) Some by (simp add: client_session_def)
qed

text \<open>
  The handshake succeeds exactly when both sides have the same token. A client with a token gets through its
  handshake if and only if the agent is configured with the same one; against an agent without a token it
  fails too. The handshake itself changes no file.
\<close>

theorem handshake_needs_same_token:
  assumes "line_ok lib (auth_message t)" "list_all (line_ok lib) [auth_ok, auth_refused, error_object ''unknown action: auth'']"
    "length t < 2 ^ 64" "\<forall>u. token = Some u \<longrightarrow> length u < 2 ^ 64"
    "list_all fill_ok fills" "fill_bytes fills = client_lines lib (Some t) []"
    "agent_connection ag lib (\<lambda>_. None) True token fills fs = (e, rest, out, fs')" "holds rd (concat out)"
  shows "(fst (client_authenticate lib None (Some t) rd) = Inr () \<longleftrightarrow> token = Some t) \<and> fs' = fs"
proof (cases token)
  case None
  let ?v = "auth_message t"
  have a: "agent_action ag lib (or_else (str_field ''action'' ?v) []) ?v fs = (Inl ''unknown action: auth'', fs)"
    by (simp add: auth_message_def str_field_def or_else_def agent_action_def structured_actions_def)
  have "served ag lib [?v] fs = ([Inl ''unknown action: auth''], fs)" using a by simp
  from agent_serves [OF _ _ assms(5) _ this, of "[]"] assms(1,6) obtain rest' where
    "agent_loop ag lib (\<lambda>_. None) fills [] fs = (CClosed (Inr ()), rest', [json_line lib (error_object ''unknown action: auth'')], fs)"
    by (auto simp: client_lines_def auth_message_def str_field_def reply_def)
  then have o: "concat out = json_line lib (error_object ''unknown action: auth'') @ []" "fs' = fs"
    using assms(7) None by (auto simp: agent_connection_def)
  have ok: "line_ok lib (error_object ''unknown action: auth'')" using assms(2) by simp
  have "fst (client_authenticate lib None (Some t) rd) \<noteq> Inr ()"
    using client_auth_reads [OF ok assms(8) [unfolded o(1)], of t] by (auto simp: error_object_def str_field_def)
  then show ?thesis using None o(2) by simp
next
  case (Some u)
  have f: "fill_bytes fills = jl_print lib (auth_message t) @ 10 # []"
    using assms(6) by (simp add: client_lines_def request_lines_def)
  obtain fills' where g: "fill_bytes fills' = []" "list_all fill_ok fills'"
    "authenticate lib (\<lambda>_. None) True u fills [] = (Inr (constant_time_eq (as_bytes u) (as_bytes t)), fills',
       [json_line lib (if constant_time_eq (as_bytes u) (as_bytes t) then auth_ok else auth_refused)])"
    using agent_authenticates [OF assms(1,5) f, of u] by auto
  have eq: "constant_time_eq (as_bytes u) (as_bytes t) \<longleftrightarrow> u = t"
    using constant_time_eq_iff [of "as_bytes u" "as_bytes t"] assms(3,4) Some by (simp add: as_bytes_inj)
  have l': "\<exists>r1. agent_loop ag lib (\<lambda>_. None) fills' out1 fs = (CClosed (Inr ()), r1, out1, fs)" for out1
    using agent_serves [of lib "[]" fills' ag fs "[]" fs out1] g(1,2) by (auto simp: request_lines_def)
  have o: "concat out = json_line lib (if u = t then auth_ok else auth_refused) @ []" "fs' = fs"
    using assms(7) Some g(3) l' [of "[json_line lib auth_ok]"] unfolding eq by (auto simp: agent_connection_def split: if_splits)
  have ok: "line_ok lib (if u = t then auth_ok else auth_refused)" using assms(2) by simp
  show ?thesis
    using client_auth_reads [OF ok assms(8) [unfolded o(1)], of t] Some o(2)
    by (auto simp: auth_ok_def auth_refused_def str_field_def split: if_splits)
qed

text \<open>
  A pause in the middle of a line loses its beginning. When the deadline of \<^verbatim>\<open>next_event\<close> passes while a part of
  a line has been read, the call fails with a time-out and the bytes are gone: the stream goes on as if they
  had never been sent, so that the rest of that line is taken for a line of its own.
\<close>

theorem timeout_drops_bytes:
  assumes "gs_reader s = \<lparr>rd_buffer = a, rd_arrivals = TimeUp # arr\<rparr>" "10 \<notin> set a" "length a \<le> MAX_LINE_BYTES"
  shows "stream_next lib s = (Inl (GTimedOut ''guest response timeout''), s\<lparr>gs_reader := \<lparr>rd_buffer = [], rd_arrivals = arr\<rparr>\<rparr>)"
proof -
  have p: "position 10 a = None" using assms(2) by (simp add: position_def)
  have e: "read_until lim acc [] (TimeUp # arr) = (Inl (GTimedOut ''guest response timeout''), \<lparr>rd_buffer = [], rd_arrivals = arr\<rparr>)"
    if "lim \<noteq> 0" for lim acc using that by (simp add: read_until.simps)
  have "read_until (MAX_LINE_BYTES + 1) [] a (TimeUp # arr) = (Inl (GTimedOut ''guest response timeout''), \<lparr>rd_buffer = [], rd_arrivals = arr\<rparr>)"
  proof (cases "a = []")
    case False
    then show ?thesis using assms(3) p e by (subst read_until.simps) (simp add: Let_def)
  qed (simp add: e)
  then show ?thesis using assms(1) by (simp add: stream_next_def read_json_line.simps)
qed


section \<open>Witnesses\<close>

definition talk_ping :: json where
  "talk_ping = JObject [(''action'', JString ''ping'')]"

definition talk_bad :: json where
  "talk_bad = JObject [(''action'', JString ''fly'')]"

definition talk_table :: "(json \<times> byte) list" where
  "talk_table = [(talk_ping, 65), (talk_bad, 66), (auth_message ''k'', 67), (auth_ok, 68), (auth_refused, 69),
     (error_object ''unknown action: auth'', 70), (error_object ''unknown action: fly'', 71), (ping_response demo_agent, 72)]"

definition talk_lib :: json_lib where
  "talk_lib = demo_stream_lib\<lparr>jl_print := (\<lambda>v. [or_else (map_of talk_table v) 64]),
     jl_parse := (\<lambda>b. ok_or (map_of (map (\<lambda>(v, x). ([x], v)) talk_table) b) ''syntax'')\<rparr>"

lemma talk_ok:
  "list_all (line_ok talk_lib) [talk_ping, talk_bad, auth_message ''k'', auth_ok, auth_refused,
     error_object ''unknown action: auth'', error_object ''unknown action: fly'', ping_response demo_agent]"
  by (simp add: line_ok_def talk_lib_def talk_table_def ok_or_def or_else_def talk_ping_def talk_bad_def auth_message_def
      auth_ok_def auth_refused_def error_object_def ping_response_def)

lemma talk_served:
  "served demo_agent talk_lib [talk_ping, talk_bad] plain_tree = ([Inr (ping_response demo_agent), Inl ''unknown action: fly''], plain_tree)"
  by (simp add: talk_ping_def talk_bad_def str_field_def or_else_def agent_action_def structured_actions_def)

theorem forkd_conversation_witness:
  "\<exists>out. fst (snd (snd (agent_connection demo_agent talk_lib (\<lambda>_. None) True (Some ''k'') [FData [67, 10], FData [65, 10, 66], FData [10]] plain_tree))) = out
     \<and> client_session talk_lib (Some ''k'') 2 \<lparr>rd_buffer = concat out, rd_arrivals = []\<rparr>
       = [Inr [ping_response demo_agent], Inl (GRemote ''unknown action: fly'')]"
proof -
  let ?fills = "[FData [67, 10], FData [65, 10, 66], FData [10 :: byte]]" and ?vs = "[talk_ping, talk_bad]"
  obtain e rest out fs' where c: "agent_connection demo_agent talk_lib (\<lambda>_. None) True (Some ''k'') ?fills plain_tree = (e, rest, out, fs')"
    by (metis prod_cases4)
  have l: "fill_bytes ?fills = client_lines talk_lib (Some ''k'') ?vs"
    by (simp add: client_lines_def request_lines_def talk_lib_def talk_table_def or_else_def talk_ping_def talk_bad_def auth_message_def)
  have ns: "list_all (\<lambda>v. str_field ''action'' v \<noteq> Some ''stream'') ?vs" by (simp add: talk_ping_def talk_bad_def str_field_def)
  have ok: "list_all (line_ok talk_lib) ?vs" "\<forall>t. Some ''k'' = Some t \<longrightarrow> line_ok talk_lib (auth_message t) \<and> line_ok talk_lib auth_ok"
    "list_all (\<lambda>r. line_ok talk_lib (reply r)) [Inr (ping_response demo_agent), Inl ''unknown action: fly'']" "list_all fill_ok ?fills"
    using talk_ok by (simp_all add: reply_def)
  have "holds \<lparr>rd_buffer = concat out, rd_arrivals = []\<rparr> (concat out)" by (auto simp: holds_def)
  from forkd_conversation [OF ok(1) ns ok(2) talk_served ok(3,4) l c this] c show ?thesis by (simp add: numeral_2_eq_2)
qed

theorem handshake_needs_same_token_witness:
  "\<exists>out. fst (snd (snd (agent_connection demo_agent talk_lib (\<lambda>_. None) True (Some ''x'') [FData [67, 10]] plain_tree))) = out
     \<and> fst (client_authenticate talk_lib None (Some ''k'') \<lparr>rd_buffer = concat out, rd_arrivals = []\<rparr>) \<noteq> Inr ()"
proof -
  obtain e rest out fs' where c: "agent_connection demo_agent talk_lib (\<lambda>_. None) True (Some ''x'') [FData [67, 10]] plain_tree = (e, rest, out, fs')"
    by (metis prod_cases4)
  have l: "fill_bytes [FData [67, 10 :: byte]] = client_lines talk_lib (Some ''k'') []"
    by (simp add: client_lines_def request_lines_def talk_lib_def talk_table_def or_else_def talk_ping_def talk_bad_def auth_message_def)
  have ok: "line_ok talk_lib (auth_message ''k'')" "list_all (line_ok talk_lib) [auth_ok, auth_refused, error_object ''unknown action: auth'']"
    "length ''k'' < 2 ^ 64" "\<forall>u. Some ''x'' = Some u \<longrightarrow> length u < 2 ^ 64" "list_all fill_ok [FData [67, 10 :: byte]]"
    using talk_ok by simp_all
  have "holds \<lparr>rd_buffer = concat out, rd_arrivals = []\<rparr> (concat out)" by (auto simp: holds_def)
  from handshake_needs_same_token [OF ok l c this] c show ?thesis by simp
qed

theorem timeout_drops_bytes_witness:
  "stream_next talk_lib \<lparr>gs_reader = \<lparr>rd_buffer = [65, 66], rd_arrivals = [TimeUp, Chunk [65, 10]]\<rparr>, gs_written = [], gs_stopped = False, gs_terminal = False\<rparr>
     = (Inl (GTimedOut ''guest response timeout''),
        \<lparr>gs_reader = \<lparr>rd_buffer = [], rd_arrivals = [Chunk [65, 10]]\<rparr>, gs_written = [], gs_stopped = False, gs_terminal = False\<rparr>)"
  by (subst timeout_drops_bytes [of _ "[65, 66]" "[Chunk [65, 10]]"]) (simp_all add: MAX_LINE_BYTES_def)

end
