(* ===== verification/Forkd_Controller.thy ===== *)
theory Forkd_Controller
  imports Cluster Rfb_Utf8 Rfb_Builtin
begin

text \<open>
  The HTTP client of a forkd controller, \<^verbatim>\<open>rfb/src/forkd/controller.rs\<close>: the requests it builds, the bounded
  reading of responses, and the waits and fallbacks over several requests. The HTTP and URL libraries and
  the JSON decoding are parameters: sending a request is a function of the state of the world, a response is
  its status, its announced length and the chunks of its body, each of which may fail to arrive.
\<close>

section \<open>Requests\<close>

datatype http_method = GET | POST | DELETE

record http_request =
  hq_method :: http_method
  hq_url :: string
  hq_token :: "string option"
  hq_body :: "json option"

record http_response =
  hr_status :: nat
  hr_length :: "nat option"
  hr_chunks :: "(forkd_client_error + bytes) list"

record forkd_client =
  fk_base_url :: string
  fk_token :: "string option"

definition trim_end_matches :: "char \<Rightarrow> string \<Rightarrow> string" where
  "trim_end_matches c s = rev (dropWhile (\<lambda>d. d = c) (rev s))"

text \<open>\<open>parse_url\<close>: scheme and host of a URL; \<open>build_error\<close>: the HTTP library's refusal, if any.\<close>

definition forkd_client_new ::
  "(string \<Rightarrow> string + (string \<times> string option)) \<Rightarrow> forkd_client_error option \<Rightarrow> string \<Rightarrow> string option
     \<Rightarrow> forkd_client_error + forkd_client" where
  "forkd_client_new parse_url build_error base token =
     res_bind (map_sum Decode id (parse_url base)) (\<lambda>(scheme, host).
       if scheme \<notin> {''http'', ''https''} \<or> host = None
       then Inl (Decode ''forkd URL must include http(s) scheme and host'')
       else (case build_error of
           Some e \<Rightarrow> Inl e
         | None \<Rightarrow> Inr \<lparr>fk_base_url = trim_end_matches (CHR ''/'') base,
             fk_token = (case token of Some t \<Rightarrow> if trim t = [] then None else Some t | None \<Rightarrow> None)\<rparr>))"

definition forkd_client_from_env ::
  "(string \<Rightarrow> string + (string \<times> string option)) \<Rightarrow> forkd_client_error option \<Rightarrow> (string \<rightharpoonup> string) \<Rightarrow> forkd_client_error + forkd_client" where
  "forkd_client_from_env parse_url build_error env =
     forkd_client_new parse_url build_error
       (case env ''FORKD_URL'' of Some u \<Rightarrow> u | None \<Rightarrow> ''http://127.0.0.1:8889'')
       (case env ''FORKD_TOKEN'' of Some t \<Rightarrow> if trim t = [] then None else Some t | None \<Rightarrow> None)"

definition fk_request :: "forkd_client \<Rightarrow> http_method \<Rightarrow> string \<Rightarrow> json option \<Rightarrow> http_request" where
  "fk_request k m path body = \<lparr>hq_method = m, hq_url = fk_base_url k @ path, hq_token = fk_token k, hq_body = body\<rparr>"

section \<open>Path segments and identifiers\<close>

definition unreserved :: "char \<Rightarrow> bool" where
  "unreserved c \<longleftrightarrow>
     (let n = (of_char c :: nat) in (65 \<le> n \<and> n \<le> 90) \<or> (97 \<le> n \<and> n \<le> 122) \<or> (48 \<le> n \<and> n \<le> 57))
     \<or> c \<in> {CHR ''-'', CHR ''.'', CHR ''_'', CHR ''~''}"

definition upper_hex :: "nat \<Rightarrow> char" where
  "upper_hex n = char_of (if n < 10 then 48 + n else 55 + n)"

definition encode_char :: "char \<Rightarrow> string" where
  "encode_char c = (if unreserved c then [c] else [CHR ''%'', upper_hex (of_char c div 16), upper_hex (of_char c mod 16)])"

definition encode_path_segment :: "string \<Rightarrow> string" where
  "encode_path_segment s = concat (map encode_char s)"

definition validate_sandbox_id :: "string \<Rightarrow> forkd_client_error + unit" where
  "validate_sandbox_id i =
     (if i = [] \<or> length i > 128 \<or> \<not> list_all is_id_char i then Inl (Decode ''invalid forkd sandbox id'') else Inr ())"

text \<open>\<open>socket_addr\<close>: whether a text is an address with a port.\<close>

definition validate_guest_address :: "(string \<Rightarrow> bool) \<Rightarrow> string \<Rightarrow> forkd_client_error + unit" where
  "validate_guest_address socket_addr a = (if socket_addr a then Inr () else Inl (Decode ''invalid forkd guest address''))"

section \<open>Responses\<close>

definition MAX_BODY_BYTES :: nat where
  "MAX_BODY_BYTES = 16 * 1024 * 1024"

fun read_chunks :: "bytes \<Rightarrow> (forkd_client_error + bytes) list \<Rightarrow> forkd_client_error + bytes" where
  "read_chunks body [] = Inr body"
| "read_chunks body (Inl e # _) = Inl e"
| "read_chunks body (Inr chunk # cs) =
     (if MAX_BODY_BYTES < length body + length chunk then Inl (Decode ''controller response too large'')
      else read_chunks (body @ chunk) cs)"

definition read_body_capped :: "http_response \<Rightarrow> forkd_client_error + string" where
  "read_body_capped r =
     (if (case hr_length r of Some n \<Rightarrow> MAX_BODY_BYTES < n | None \<Rightarrow> False) then Inl (Decode ''controller response too large'')
      else map_sum id (str_of_bytes \<circ> from_utf8_lossy) (read_chunks [] (hr_chunks r)))"

definition is_success :: "nat \<Rightarrow> bool" where
  "is_success status \<longleftrightarrow> 200 \<le> status \<and> status < 300"

text \<open>The characters of a text: at most \<open>n\<close> of them.\<close>

fun take_chars :: "nat \<Rightarrow> bytes \<Rightarrow> bytes" where
  "take_chars n [] = []"
| "take_chars n (b # bs) =
     (if is_cont b then b # take_chars n bs else (case n of 0 \<Rightarrow> [] | Suc m \<Rightarrow> b # take_chars m bs))"

text \<open>\<open>de\<close> decodes a body as the expected type, \<open>js\<close> as any JSON value.\<close>

definition parse_response ::
  "(string \<Rightarrow> string + json) \<Rightarrow> (string \<Rightarrow> string + 'a) \<Rightarrow> http_response \<Rightarrow> forkd_client_error + 'a" where
  "parse_response js de r =
     res_bind (read_body_capped r) (\<lambda>body.
       if \<not> is_success (hr_status r)
       then Inl (Http (hr_status r)
         (case js body of
            Inr v \<Rightarrow> (case Option.bind (jget ''error'' v) as_str of
                Some e \<Rightarrow> e | None \<Rightarrow> str_of_bytes (take_chars 1024 (as_bytes body)))
          | Inl _ \<Rightarrow> str_of_bytes (take_chars 1024 (as_bytes body))))
       else map_sum Decode id (de body))"

section \<open>Operations\<close>

record forkd_info = sandbox_info +
  sb_guest_addr :: string

record controller_serde =
  cs_json :: "string \<Rightarrow> string + json"
  cs_snapshots :: "string \<Rightarrow> string + snapshot_info list"
  cs_snapshot :: "string \<Rightarrow> string + snapshot_info"
  cs_sandboxes :: "string \<Rightarrow> string + forkd_info list"

type_synonym 'w sender = "http_request \<Rightarrow> 'w \<Rightarrow> (forkd_client_error + http_response) \<times> 'w"

definition NOT_FOUND :: nat where
  "NOT_FOUND = 404"

definition fetch :: "'w sender \<Rightarrow> http_request \<Rightarrow> (http_response \<Rightarrow> forkd_client_error + 'a) \<Rightarrow> 'w \<Rightarrow> (forkd_client_error + 'a) \<times> 'w" where
  "fetch send q f w = (case send q w of (r, w1) \<Rightarrow> (res_bind r f, w1))"

definition list_snapshots :: "controller_serde \<Rightarrow> 'w sender \<Rightarrow> forkd_client \<Rightarrow> 'w \<Rightarrow> (forkd_client_error + snapshot_info list) \<times> 'w" where
  "list_snapshots cs send k = fetch send (fk_request k GET ''/v1/snapshots'' None) (parse_response (cs_json cs) (cs_snapshots cs))"

definition snapshot_info_of ::
  "controller_serde \<Rightarrow> 'w sender \<Rightarrow> forkd_client \<Rightarrow> string \<Rightarrow> 'w \<Rightarrow> (forkd_client_error + snapshot_info option) \<times> 'w" where
  "snapshot_info_of cs send k tag w =
     (let seg = encode_path_segment tag; parse = (\<lambda>r. map_sum id Some (parse_response (cs_json cs) (cs_snapshot cs) r)) in
      case send (fk_request k GET (''/v1/snapshots/'' @ seg @ ''/info'') None) w of
        (Inl e, w1) \<Rightarrow> (Inl e, w1)
      | (Inr preferred, w1) \<Rightarrow>
          if hr_status preferred \<noteq> NOT_FOUND then (parse preferred, w1)
          else (case send (fk_request k GET (''/v1/snapshots/'' @ seg) None) w1 of
              (Inl e, w2) \<Rightarrow> (Inl e, w2)
            | (Inr legacy, w2) \<Rightarrow> if hr_status legacy = NOT_FOUND then (Inr None, w2) else (parse legacy, w2)))"

definition snapshot_ready_in :: "snapshot_info list \<Rightarrow> string \<Rightarrow> bool" where
  "snapshot_ready_in snapshots tag \<longleftrightarrow>
     list_ex (\<lambda>s. sn_tag s = tag \<and> eq_ignore_ascii_case (sn_status s) ''ready'' \<and> sn_bootable s) snapshots"

definition snapshot_ready :: "controller_serde \<Rightarrow> 'w sender \<Rightarrow> forkd_client \<Rightarrow> string \<Rightarrow> 'w \<Rightarrow> (forkd_client_error + bool) \<times> 'w" where
  "snapshot_ready cs send k tag w =
     (case list_snapshots cs send k w of (r, w1) \<Rightarrow> (map_sum id (\<lambda>ss. snapshot_ready_in ss tag) r, w1))"

text \<open>
  The polling loop. \<open>answers n\<close> is what the n-th listing returns and how long it takes; \<open>now\<close> is the clock in
  nanoseconds. The result comes with the number of listings made and the time of return.
\<close>

definition POLL_INTERVAL :: nat where
  "POLL_INTERVAL = 100000000"

function wait_for_snapshot ::
  "(nat \<Rightarrow> (forkd_client_error + snapshot_info list) \<times> nat) \<Rightarrow> string \<Rightarrow> nat \<Rightarrow> nat \<Rightarrow> nat
     \<Rightarrow> (forkd_client_error + unit) \<times> nat \<times> nat" where
  "wait_for_snapshot answers tag deadline now n =
     (let now1 = now + snd (answers n);
          go = (if now1 \<ge> deadline then (Inl Timeout, Suc n, now1)
                else wait_for_snapshot answers tag deadline (now1 + min POLL_INTERVAL (deadline - now1)) (Suc n))
      in case fst (answers n) of
           Inl e \<Rightarrow> (Inl e, Suc n, now1)
         | Inr snapshots \<Rightarrow>
             (case find (\<lambda>s. sn_tag s = tag) snapshots of
                None \<Rightarrow> go
              | Some s \<Rightarrow>
                  if eq_ignore_ascii_case (sn_status s) ''failed''
                  then (Inl (Remote (''forkd snapshot `'' @ tag @ ''` is Failed'')), Suc n, now1)
                  else if snapshot_ready_in snapshots tag then (Inr (), Suc n, now1)
                  else go))"
  by pat_completeness auto
termination
  by (relation "measure (\<lambda>(answers, tag, deadline, now, n). deadline - now)") (auto simp: POLL_INTERVAL_def)

declare wait_for_snapshot.simps [simp del]

definition create_sandbox ::
  "controller_serde \<Rightarrow> 'w sender \<Rightarrow> forkd_client \<Rightarrow> json \<Rightarrow> 'w \<Rightarrow> (forkd_client_error + forkd_info list) \<times> 'w" where
  "create_sandbox cs send k request =
     fetch send (fk_request k POST ''/v1/sandboxes'' (Some request)) (parse_response (cs_json cs) (cs_sandboxes cs))"

definition list_sandboxes :: "controller_serde \<Rightarrow> 'w sender \<Rightarrow> forkd_client \<Rightarrow> 'w \<Rightarrow> (forkd_client_error + forkd_info list) \<times> 'w" where
  "list_sandboxes cs send k = fetch send (fk_request k GET ''/v1/sandboxes'' None) (parse_response (cs_json cs) (cs_sandboxes cs))"

definition ping_sandbox :: "controller_serde \<Rightarrow> 'w sender \<Rightarrow> forkd_client \<Rightarrow> string \<Rightarrow> 'w \<Rightarrow> (forkd_client_error + json) \<times> 'w" where
  "ping_sandbox cs send k i w =
     (case validate_sandbox_id i of
        Inl e \<Rightarrow> (Inl e, w)
      | Inr _ \<Rightarrow> fetch send (fk_request k POST (''/v1/sandboxes/'' @ i @ ''/ping'') None) (parse_response (cs_json cs) (cs_json cs)) w)"

definition delete_sandbox :: "controller_serde \<Rightarrow> 'w sender \<Rightarrow> forkd_client \<Rightarrow> string \<Rightarrow> 'w \<Rightarrow> (forkd_client_error + unit) \<times> 'w" where
  "delete_sandbox cs send k i w =
     (case validate_sandbox_id i of
        Inl e \<Rightarrow> (Inl e, w)
      | Inr _ \<Rightarrow> fetch send (fk_request k DELETE (''/v1/sandboxes/'' @ i) None)
          (\<lambda>r. if hr_status r = NOT_FOUND \<or> is_success (hr_status r) then Inr ()
               else map_sum id (\<lambda>_. ()) (parse_response (cs_json cs) (cs_json cs) r)) w)"


section \<open>Lemmas\<close>

fun hex_value :: "char \<Rightarrow> nat" where
  "hex_value c = (let n = of_char c in if n < 65 then n - 48 else n - 55)"

text \<open>Decoding a segment, as the receiving side does.\<close>

fun percent_decode :: "string \<Rightarrow> string" where
  "percent_decode [] = []"
| "percent_decode (c # cs) =
     (if c = CHR ''%'' then (case cs of a # b # rest \<Rightarrow> char_of (16 * hex_value a + hex_value b) # percent_decode rest | _ \<Rightarrow> [c])
      else c # percent_decode cs)"

lemma upper_hex_value: "n < 16 \<Longrightarrow> hex_value (upper_hex n) = n"
  by (simp add: upper_hex_def Let_def)

lemma upper_hex_unreserved: "n < 16 \<Longrightarrow> unreserved (upper_hex n)"
  by (simp add: upper_hex_def unreserved_def Let_def)

lemma unreserved_not: "unreserved c \<Longrightarrow> c \<noteq> CHR ''%'' \<and> c \<noteq> CHR ''/'' \<and> c \<noteq> CHR ''?'' \<and> c \<noteq> CHR ''#''"
  by (auto simp: unreserved_def)

lemma nibbles: "(of_char c :: nat) div 16 < 16" "(of_char c :: nat) mod 16 < 16"
proof -
  have "(of_char c :: nat) mod 256 < 256" by simp
  then have "(of_char c :: nat) < 256" by (simp only: of_char_mod_256)
  then show "(of_char c :: nat) div 16 < 16" "(of_char c :: nat) mod 16 < 16" by (simp_all add: less_mult_imp_div_less)
qed

lemma decode_encoded_char: "percent_decode (encode_char c @ rest) = c # percent_decode rest"
proof (cases "unreserved c")
  case False
  have "16 * (of_char c div 16) + of_char c mod 16 = (of_char c :: nat)" by simp
  then show ?thesis using False upper_hex_value [OF nibbles(1), of c] upper_hex_value [OF nibbles(2), of c]
    by (simp add: encode_char_def del: hex_value.simps)
qed (simp add: encode_char_def unreserved_not)

lemma decode_segment: "percent_decode (encode_path_segment s) = s"
  by (induction s) (simp_all add: encode_path_segment_def decode_encoded_char)

lemma segment_chars: "c \<in> set (encode_path_segment s) \<Longrightarrow> unreserved c \<or> c = CHR ''%''"
  using upper_hex_unreserved nibbles by (auto simp: encode_path_segment_def encode_char_def split: if_splits)

lemma id_char_unreserved: "is_id_char c \<Longrightarrow> unreserved c"
  by (auto simp: is_id_char_def unreserved_def Let_def)

lemma split_on_prefix: "CHR ''/'' \<notin> set a \<Longrightarrow> split_on (CHR ''/'') (a @ CHR ''/'' # rest) = a # split_on (CHR ''/'') rest"
  by (induction a) auto

lemma split_on_last: "CHR ''/'' \<notin> set a \<Longrightarrow> split_on (CHR ''/'') a = [a]"
  by (induction a) auto

lemma count_step: "m \<le> Suc n + 1 + (q :: nat) \<Longrightarrow> Suc q \<le> q' \<Longrightarrow> m \<le> n + 1 + q'"
  by simp

section \<open>Properties\<close>

text \<open>
  A tag is one segment of the path. Whatever characters a snapshot tag has, the path of its request has
  exactly the segments \<^verbatim>\<open>v1\<close>, \<^verbatim>\<open>snapshots\<close>, the encoded tag and \<^verbatim>\<open>info\<close>, without query or fragment, and
  the receiver decodes the segment to the tag; different tags give different requests.
\<close>

theorem tag_is_one_segment:
  "split_on (CHR ''/'') (''/v1/snapshots/'' @ encode_path_segment tag @ ''/info'')
      = [[], ''v1'', ''snapshots'', encode_path_segment tag, ''info'']
   \<and> percent_decode (encode_path_segment tag) = tag \<and> CHR ''?'' \<notin> set (encode_path_segment tag) \<and> CHR ''#'' \<notin> set (encode_path_segment tag)"
proof -
  have no: "c \<notin> set (encode_path_segment tag)" if "c \<in> {CHR ''/'', CHR ''?'', CHR ''#''}" for c
    using segment_chars [of c tag] that unreserved_not [of c] by auto
  have "split_on (CHR ''/'') (encode_path_segment tag @ CHR ''/'' # ''info'') = [encode_path_segment tag, ''info'']"
    using no by (subst split_on_prefix) simp_all
  then show ?thesis using no decode_segment by simp
qed

text \<open>
  Waiting for a snapshot ends. Whatever the controller answers and however long it takes, the wait returns:
  not later than the deadline plus the duration of its last request, after at most one request for each
  started tenth of a second and one more; success means that the last listing had the tag ready and bootable, and a
  time-out is reported only when the deadline has passed.
\<close>

theorem snapshot_wait_bounded:
  assumes "wait_for_snapshot answers tag deadline now n = (r, m, t)"
  shows "n < m \<and> m \<le> n + 1 + (deadline - now + POLL_INTERVAL - 1) div POLL_INTERVAL \<and> t \<le> max now deadline + snd (answers (m - 1))
    \<and> (r = Inr () \<longrightarrow> (\<exists>ss. fst (answers (m - 1)) = Inr ss \<and> snapshot_ready_in ss tag)) \<and> (r = Inl Timeout \<longrightarrow>
        deadline \<le> t \<or> fst (answers (m - 1)) = Inl Timeout)"
  using assms
proof (induction answers tag deadline now n arbitrary: r m t rule: wait_for_snapshot.induct)
  case (1 answers tag deadline now n)
  let ?now1 = "now + snd (answers n)" and ?next = "now + snd (answers n) + min POLL_INTERVAL (deadline - (now + snd (answers n)))"
  consider (stop) "(r, m, t) = (r, Suc n, ?now1)" "wait_for_snapshot answers tag deadline now n = (r, Suc n, ?now1)"
      "r = Inr () \<longrightarrow> (\<exists>ss. fst (answers n) = Inr ss \<and> snapshot_ready_in ss tag)" "r = Inl Timeout \<longrightarrow> deadline \<le> ?now1 \<or> fst (answers n) = Inl Timeout"
    | (again) "\<not> ?now1 \<ge> deadline" "wait_for_snapshot answers tag deadline ?next (Suc n) = (r, m, t)"
    using 1(2) unfolding wait_for_snapshot.simps [of answers tag deadline now n]
    by (auto simp: Let_def split: sum.splits option.splits if_splits)
  then show ?case
  proof cases
    case stop
    then show ?thesis by auto
  next
    case again
    let ?D = "deadline - now" and ?E = "deadline - ?next"
    have ih: "Suc n < m \<and> m \<le> Suc n + 1 + (?E + POLL_INTERVAL - 1) div POLL_INTERVAL
        \<and> t \<le> max ?next deadline + snd (answers (m - 1))
        \<and> (r = Inr () \<longrightarrow> (\<exists>ss. fst (answers (m - 1)) = Inr ss \<and> snapshot_ready_in ss tag))
        \<and> (r = Inl Timeout \<longrightarrow> deadline \<le> t \<or> fst (answers (m - 1)) = Inl Timeout)"
      using 1(1) again by blast
    have "Suc ((?E + POLL_INTERVAL - 1) div POLL_INTERVAL) \<le> (?D + POLL_INTERVAL - 1) div POLL_INTERVAL"
    proof (cases "POLL_INTERVAL \<le> deadline - ?now1")
      case True
      have p: "0 < POLL_INTERVAL" by (simp add: POLL_INTERVAL_def)
      have "?E + POLL_INTERVAL - 1 = deadline - ?now1 - 1" using True p by simp
      then have "Suc ((?E + POLL_INTERVAL - 1) div POLL_INTERVAL) = (deadline - ?now1 - 1 + POLL_INTERVAL) div POLL_INTERVAL"
        using p div_add_self2 [of POLL_INTERVAL "deadline - ?now1 - 1"] by simp
      also have "\<dots> \<le> (?D + POLL_INTERVAL - 1) div POLL_INTERVAL" using again(1) by (intro div_le_mono) simp
      finally show ?thesis .
    next
      case False
      then have "?E = 0" by simp
      then have "(?E + POLL_INTERVAL - 1) div POLL_INTERVAL = 0" by (simp add: POLL_INTERVAL_def)
      moreover have "POLL_INTERVAL \<le> ?D + POLL_INTERVAL - 1" "0 < POLL_INTERVAL" using again(1) by (simp_all add: POLL_INTERVAL_def)
      then have "0 < (?D + POLL_INTERVAL - 1) div POLL_INTERVAL" by (simp add: div_greater_zero_iff)
      ultimately show ?thesis by simp
    qed
    then have "m \<le> n + 1 + (?D + POLL_INTERVAL - 1) div POLL_INTERVAL" by (rule count_step [OF ih [THEN conjunct2, THEN conjunct1]])
    moreover have "max ?next deadline \<le> max now deadline" using again(1) by simp
    then have "t \<le> max now deadline + snd (answers (m - 1))"
      by (rule order.trans [OF ih [THEN conjunct2, THEN conjunct2, THEN conjunct1] add_right_mono])
    moreover have "n < m" by (rule Suc_lessD [OF ih [THEN conjunct1]])
    ultimately show ?thesis using ih by blast
  qed
qed

section \<open>Witness\<close>

theorem snapshot_wait_bounded_witness:
  "snd (snd (wait_for_snapshot (\<lambda>n. (Inr [\<lparr>sn_tag = ''t'', sn_status = (if n = 0 then ''building'' else ''Ready''), sn_bootable = True, sn_digest = None\<rparr>], 5))
      ''t'' 1000000000 0 0)) \<le> 1000000005"
proof -
  let ?a = "\<lambda>n :: nat. (Inr [\<lparr>sn_tag = ''t'', sn_status = (if n = 0 then ''building'' else ''Ready''), sn_bootable = True, sn_digest = None\<rparr>], 5 :: nat)
    :: (forkd_client_error + snapshot_info list) \<times> nat"
  obtain r m t where w: "wait_for_snapshot ?a ''t'' 1000000000 0 0 = (r, m, t)" by (metis prod_cases3)
  from snapshot_wait_bounded [OF w] show ?thesis by (simp add: w)
qed

end
