(* ===== verification/Forkd_Provider.thy ===== *)
theory Forkd_Provider
  imports Forkd_Guest Forkd_Controller Host_Session Runtime_Service
begin

text \<open>
  Forkd sandboxes, \<^verbatim>\<open>rfb/src/forkd/provider.rs\<close>, and the mapping of guest responses of the client facade,
  \<^verbatim>\<open>rfb/src/client/ndjson.rs\<close>: configuration and creation, and how JSON answers of the guest become results, stream
  events and errors of the sandbox contract; how these meet what the guest agent writes.
\<close>

section \<open>Configuration and creation\<close>

datatype guest_profile = Minimal | DefaultProfile | CustomShell

fun profile_capabilities :: "guest_profile \<Rightarrow> capability list" where
  "profile_capabilities Minimal = [CapExecute, CapHealth]"
| "profile_capabilities DefaultProfile = [CapExecute, CapHealth, CapStream, CapLs, CapFind, CapGrep, CapReadFile, CapWriteFile]"
| "profile_capabilities CustomShell = [CapExecute, CapHealth, CapStream, CapLs, CapFind, CapGrep, CapReadFile, CapWriteFile, CapEval]"

record forkd_settings = forkd_config +
  fs_profile :: guest_profile
  fs_capabilities :: "capability list"

definition forkd_settings_default :: forkd_settings where
  "forkd_settings_default = forkd_config.extend forkd_config_default
     \<lparr>fs_profile = DefaultProfile, fs_capabilities = profile_capabilities DefaultProfile\<rparr>"

definition with_guest_profile :: "guest_profile \<Rightarrow> forkd_settings \<Rightarrow> forkd_settings" where
  "with_guest_profile p c = c\<lparr>fs_profile := p, fs_capabilities := profile_capabilities p\<rparr>"

definition profile_named :: "string \<Rightarrow> guest_profile" where
  "profile_named v =
     (if v = ''minimal'' then Minimal else if v = ''custom-shell'' \<or> v = ''custom_shell'' then CustomShell else DefaultProfile)"

definition settings_from_env :: "(string \<rightharpoonup> string) \<Rightarrow> forkd_settings" where
  "settings_from_env env =
     (let c = forkd_settings_default;
          c = (case env ''FORKD_URL'' of Some v \<Rightarrow> if trim v = [] then c else c\<lparr>fc_base_url := trim v\<rparr> | None \<Rightarrow> c);
          c = (case env ''FORKD_TOKEN'' of Some v \<Rightarrow> if trim v = [] then c else c\<lparr>fc_token := Some v\<rparr> | None \<Rightarrow> c);
          c = (case env ''FORKD_SNAPSHOT_TAG'' of Some v \<Rightarrow> if trim v = [] then c else c\<lparr>fc_snapshot_tag := Some v\<rparr> | None \<Rightarrow> c)
      in case env ''FORKD_GUEST_PROFILE'' of
           Some v \<Rightarrow> with_guest_profile (profile_named (to_ascii_lowercase v)) c
         | None \<Rightarrow> c)"

definition create_request :: "string \<Rightarrow> u64 option \<Rightarrow> json" where
  "create_request tag memory =
     JObject [(''snapshot_tag'', JString tag), (''n'', JNumber 1), (''per_child_netns'', JBool False),
       (''memory_limit_mib'', case memory of Some m \<Rightarrow> JNumber (uint m) | None \<Rightarrow> JNull),
       (''prewarm'', JBool False), (''live_fork'', JBool False), (''hugepages'', JBool False)]"

text \<open>\<^verbatim>\<open>ForkdClient::create\<close>: one sandbox, with a usable identifier and guest address.\<close>

definition forkd_create ::
  "controller_serde \<Rightarrow> (string \<Rightarrow> bool) \<Rightarrow> 'w sender \<Rightarrow> forkd_client \<Rightarrow> json \<Rightarrow> 'w \<Rightarrow> (forkd_client_error + forkd_info) \<times> 'w" where
  "forkd_create cs socket_addr send k request w =
     (case create_sandbox cs send k request w of (r, w1) \<Rightarrow>
        (res_bind r (\<lambda>xs.
           if xs = [] then Inl (Decode ''forkd returned no sandboxes'')
           else (let x = last xs in
                 res_bind (validate_sandbox_id (sb_id x)) (\<lambda>_.
                 res_bind (validate_guest_address socket_addr (sb_guest_addr x)) (\<lambda>_. Inr x)))), w1))"

text \<open>\<open>times_out\<close>: whether a transport error is a time-out; \<open>text\<close>: the text of an error.\<close>

definition class_create_error :: "(string \<Rightarrow> bool) \<Rightarrow> (forkd_client_error \<Rightarrow> string) \<Rightarrow> forkd_client_error \<Rightarrow> provider_error" where
  "class_create_error times_out text e =
     (if (case e of Timeout \<Rightarrow> True | Transport t \<Rightarrow> times_out t | _ \<Rightarrow> False)
      then Unavailable ''forkd create request timed out; the controller may have created the sandbox anyway''
      else Unavailable (text e))"

definition provider_create ::
  "controller_serde \<Rightarrow> (string \<Rightarrow> bool) \<Rightarrow> (string \<Rightarrow> bool) \<Rightarrow> (forkd_client_error \<Rightarrow> string) \<Rightarrow> 'w sender \<Rightarrow> forkd_client
     \<Rightarrow> forkd_settings \<Rightarrow> sandbox_spec \<Rightarrow> 'w \<Rightarrow> (provider_error + forkd_info) \<times> 'w" where
  "provider_create cs socket_addr times_out text send k c spec w =
     (case check_create_spec spec (fs_capabilities c) of
        Inl e \<Rightarrow> (Inl e, w)
      | Inr _ \<Rightarrow>
          (case check_create_resources spec True of
             Inl e \<Rightarrow> (Inl e, w)
           | Inr memory \<Rightarrow>
               (case fc_snapshot_tag c of
                  None \<Rightarrow> (Inl (Unavailable ''snapshot tag is required''), w)
                | Some tag \<Rightarrow>
                    (case forkd_create cs socket_addr send k (create_request tag memory) w of
                       (r, w1) \<Rightarrow> (map_sum (class_create_error times_out text) id r, w1)))))"

section \<open>Results\<close>

definition as_i64 :: "json \<Rightarrow> int option" where
  "as_i64 v = (case v of JNumber n \<Rightarrow> if - (2 ^ 63) \<le> n \<and> n < 2 ^ 63 then Some n else None | _ \<Rightarrow> None)"

text \<open>\<^verbatim>\<open>i32::try_from(code).unwrap_or(-1)\<close>.\<close>

definition clamp_code :: "int \<Rightarrow> int" where
  "clamp_code n = (if - (2 ^ 31) \<le> n \<and> n < 2 ^ 31 then n else - 1)"

text \<open>A field with output: text, an array of bytes, or nothing; \<open>message\<close> is the error otherwise.\<close>

definition output_bytes :: "string \<Rightarrow> json option \<Rightarrow> sandbox_error + bytes" where
  "output_bytes message v =
     (case v of
        None \<Rightarrow> Inr []
      | Some JNull \<Rightarrow> Inr []
      | Some (JString s) \<Rightarrow> Inr (as_bytes s)
      | Some (JArray items) \<Rightarrow> (case collect byte_of_json items of Some b \<Rightarrow> Inr b | None \<Rightarrow> Inl (SExecution message))
      | Some _ \<Rightarrow> Inl (SExecution message))"

definition first_of :: "string \<Rightarrow> string \<Rightarrow> json \<Rightarrow> json option" where
  "first_of k l v = (case jget k v of Some x \<Rightarrow> Some x | None \<Rightarrow> jget l v)"

definition code_of :: "json option \<Rightarrow> int option" where
  "code_of v = map_option clamp_code (Option.bind v as_i64)"

definition timed_out_of :: "json \<Rightarrow> bool" where
  "timed_out_of v = or_else (Option.bind (jget ''timed_out'' v) as_bool) False"

definition exec_result_of :: "json \<Rightarrow> sandbox_error + exec_result" where
  "exec_result_of v =
     res_bind (output_bytes ''invalid output'' (first_of ''out'' ''stdout'' v)) (\<lambda>out.
     res_bind (output_bytes ''invalid output'' (first_of ''err'' ''stderr'' v)) (\<lambda>er.
       Inr \<lparr>er_status = code_of (jget ''exit_code'' v), er_stdout = out, er_stderr = er, er_timed_out = timed_out_of v\<rparr>))"

record eval_result =
  ev_output :: bytes
  ev_status :: "int option"
  ev_timed_out :: bool

definition eval_result_of :: "json \<Rightarrow> sandbox_error + eval_result" where
  "eval_result_of v =
     res_bind (output_bytes ''invalid output'' (first_of ''out'' ''output'' v)) (\<lambda>out.
       Inr \<lparr>ev_output = out, ev_status = code_of (first_of ''status'' ''exit_code'' v), ev_timed_out = timed_out_of v\<rparr>)"

definition ping_healthy :: "json \<Rightarrow> bool" where
  "ping_healthy v = or_else (Option.bind (jget ''pong'' v) as_bool) False"

fun forkd_error :: "guest_error \<Rightarrow> sandbox_error" where
  "forkd_error (GTimedOut _) = STimeout"
| "forkd_error (GIo e) = STransport e"
| "forkd_error GTooLarge = STransport ''guest response exceeded limit''"
| "forkd_error (GJson e) = SExecution e"
| "forkd_error (GRemote m) = SExecution m"
| "forkd_error GInvalidPath = SExecution ''invalid guest path''"
| "forkd_error GLimitExceeded = SExecution ''guest result limit exceeded''"
| "forkd_error (GUnsupported tool) = SExecution (''unsupported forkd guest RPC: '' @ tool)"

section \<open>Execution\<close>

text \<open>Durations are nanoseconds; whole seconds rounded up, at least one, saturating like the code's \<^verbatim>\<open>u64\<close>.\<close>

definition SECOND :: nat where
  "SECOND = 1000000000"

definition duration_to_timeout_secs :: "nat \<Rightarrow> nat" where
  "duration_to_timeout_secs d = max 1 (min (2 ^ 64 - 1) (d div SECOND + (if d mod SECOND \<noteq> 0 then 1 else 0)))"

definition DURATION_MAX :: nat where
  "DURATION_MAX = (2 ^ 64 - 1) * SECOND + 999999999"

definition exec_read_timeout :: "nat \<Rightarrow> nat \<Rightarrow> nat" where
  "exec_read_timeout timeout secs = min DURATION_MAX (min DURATION_MAX (timeout + secs * SECOND) + 5 * SECOND)"

definition exec_action :: "string \<Rightarrow> string list \<Rightarrow> nat \<Rightarrow> json" where
  "exec_action cwd args secs =
     JObject [(''action'', JString ''exec''), (''cwd'', JString cwd), (''args'', JArray (map JString args)), (''timeout'', JNumber (int secs))]"

text \<open>\<^verbatim>\<open>ForkdSandbox::exec\<close> up to the request, and the whole of it over one exchange.\<close>

definition exec_prepare :: "forkd_settings \<Rightarrow> exec_spec \<Rightarrow> sandbox_error + json" where
  "exec_prepare c spec =
     res_bind (map_sum SInvalidSpec id (exec_spec_validate spec)) (\<lambda>_.
       if ex_stdin spec \<noteq> None then Inl (SExecution ''forkd guest does not support stdin'')
       else Inr (exec_action (case ex_cwd spec of Some d \<Rightarrow> d | None \<Rightarrow> ''/workspace'') (ex_command spec # ex_args spec)
         (duration_to_timeout_secs (case ex_timeout spec of Some t \<Rightarrow> t | None \<Rightarrow> fc_guest_timeout_ms c * 1000000))))"

definition forkd_exec ::
  "json_lib \<Rightarrow> forkd_settings \<Rightarrow> exec_spec \<Rightarrow> guest_error option \<Rightarrow> (json \<Rightarrow> reader) \<Rightarrow> sandbox_error + exec_result" where
  "forkd_exec lib c spec werr guest =
     res_bind (exec_prepare c spec) (\<lambda>action.
     res_bind (map_sum forkd_error id (last_response ''exec'' (fst (client_exchange lib werr (guest action))))) exec_result_of)"

section \<open>Stream events\<close>

definition started_event :: "json \<Rightarrow> bool" where
  "started_event v \<longleftrightarrow> Option.bind (jget ''started'' v) as_bool = Some True \<or> str_field ''stream'' v = Some ''started''
     \<or> str_field ''event'' v = Some ''started''"

fun output_key :: "(string \<times> bool) list \<Rightarrow> json \<Rightarrow> (json \<times> bool) option" where
  "output_key [] v = None"
| "output_key ((k, stderr) # ks) v = (case jget k v of Some x \<Rightarrow> Some (x, stderr) | None \<Rightarrow> output_key ks v)"

definition output_keys :: "(string \<times> bool) list" where
  "output_keys = [(''stdout'', False), (''out'', False), (''stderr'', True), (''err'', True)]"

definition OUTPUT_SHAPE :: string where
  "OUTPUT_SHAPE = ''execution output must be UTF-8 or byte array''"

definition forkd_stream_event :: "json \<Rightarrow> sandbox_error + stream_out" where
  "forkd_stream_event v =
     (if jget ''exit_code'' v \<noteq> None then Inr (EvExit (code_of (jget ''exit_code'' v)))
      else if Option.bind (jget ''done'' v) as_bool = Some True then Inr (EvExit None)
      else (case output_key output_keys v of
          Some (x, stderr) \<Rightarrow> map_sum id (if stderr then EvStderr else EvStdout) (output_bytes OUTPUT_SHAPE (Some x))
        | None \<Rightarrow> if started_event v then Inr EvStarted else Inl (SExecution ''invalid guest stream event'')))"

text \<open>\<^verbatim>\<open>next_event\<close> of the stream adapter.\<close>

definition adapter_next :: "json_lib \<Rightarrow> guest_stream \<Rightarrow> (sandbox_error + stream_out option) \<times> guest_stream" where
  "adapter_next lib s =
     (case stream_next lib s of
        (Inl e, s1) \<Rightarrow> (Inl (forkd_error e), s1)
      | (Inr None, s1) \<Rightarrow> (Inr None, s1)
      | (Inr (Some v), s1) \<Rightarrow> (map_sum id Some (forkd_stream_event v), s1))"

section \<open>The facade's mapping\<close>

datatype facade_error = Decoding string

definition value_bytes :: "json option \<Rightarrow> facade_error + bytes" where
  "value_bytes v =
     (case v of
        None \<Rightarrow> Inr []
      | Some JNull \<Rightarrow> Inr []
      | Some (JString s) \<Rightarrow> Inr (as_bytes s)
      | Some (JArray items) \<Rightarrow>
          (case collect byte_of_json items of Some b \<Rightarrow> Inr b | None \<Rightarrow> Inl (Decoding ''output must be a UTF-8 string or byte array''))
      | Some _ \<Rightarrow> Inl (Decoding ''output must be a UTF-8 string or byte array''))"

record guest_exec_result =
  ge_exit_code :: int
  ge_stdout :: bytes
  ge_stderr :: bytes
  ge_timed_out :: bool

definition facade_exec_result :: "json \<Rightarrow> facade_error + guest_exec_result" where
  "facade_exec_result v =
     res_bind (value_bytes (first_of ''stdout'' ''out'' v)) (\<lambda>out.
     res_bind (value_bytes (first_of ''stderr'' ''err'' v)) (\<lambda>er.
       Inr \<lparr>ge_exit_code = or_else (code_of (jget ''exit_code'' v)) (- 1), ge_stdout = out, ge_stderr = er, ge_timed_out = timed_out_of v\<rparr>))"

definition facade_eval_result :: "json \<Rightarrow> facade_error + guest_exec_result" where
  "facade_eval_result v =
     res_bind (value_bytes (first_of ''output'' ''out'' v)) (\<lambda>out.
       Inr \<lparr>ge_exit_code = or_else (code_of (first_of ''status'' ''exit_code'' v)) 0, ge_stdout = out, ge_stderr = [],
         ge_timed_out = timed_out_of v\<rparr>)"

definition facade_stream_event :: "json \<Rightarrow> facade_error + stream_out option" where
  "facade_stream_event v =
     (if jget ''exit_code'' v \<noteq> None then Inr (Some (EvExit (code_of (jget ''exit_code'' v))))
      else if Option.bind (jget ''done'' v) as_bool = Some True then Inr (Some (EvExit None))
      else (case output_key output_keys v of
          Some (x, stderr) \<Rightarrow> map_sum id (Some \<circ> (if stderr then EvStderr else EvStdout)) (value_bytes (Some x))
        | None \<Rightarrow> if started_event v then Inr (Some EvStarted) else Inr None))"


section \<open>Lemmas\<close>

lemma output_cut:
  assumes "cut_of w (bytes_to_wire d)"
  shows "\<exists>b. output_bytes m (Some w) = Inr b \<and> prefix b d"
proof (cases "utf8_valid d")
  case True
  then obtain a where a: "w = JString a" "prefix a (str_of_bytes d)" using assms by (cases w) (auto simp: bytes_to_wire_def)
  have "prefix (as_bytes a) (as_bytes (str_of_bytes d))" using a(2) unfolding as_bytes_def by (rule map_mono_prefix)
  then show ?thesis using a(1) by (simp add: output_bytes_def)
next
  case False
  then obtain a where a: "w = JArray a" "prefix a (map (\<lambda>b. JNumber (uint b)) d)"
    using assms by (cases w) (auto simp: bytes_to_wire_def byte_array_def)
  then have "a = map (\<lambda>b. JNumber (uint b)) (take (length a) d)"
    by (metis append_eq_conv_conj prefixE take_map)
  then have "collect byte_of_json a = Some (take (length a) d)" by (metis collect_byte_array)
  then show ?thesis using a(1) by (auto simp: output_bytes_def take_is_prefix)
qed

lemma output_whole: "output_bytes m (Some (bytes_to_wire d)) = Inr d"
  by (simp add: bytes_to_wire_def output_bytes_def byte_array_def collect_byte_array)

text \<open>The agent's answer for a child that has exited.\<close>

lemma exited_answer:
  assumes "builtin request = None" "command_from ag fs request = Inr c" "ag_spawn_error ag c fs = None"
    "ag_wait ag c (effective_exec_timeout request) fs = (WExited outs errs code, fs1)" "\<forall>ch \<in> set (outs @ errs). ch \<noteq> []"
  shows "\<exists>m. execute ag lib request fs = (Inr (JObject m), fs1)
    \<and> map_of m ''exit_code'' = Some (case code of Some n \<Rightarrow> JNumber n | None \<Rightarrow> JNull) \<and> map_of m ''timed_out'' = Some (JBool False)
    \<and> rel_option cut_of (map_of m ''out'') (Some (bytes_to_wire (take MAX_EXEC_STREAM_BYTES (concat outs))))
    \<and> rel_option cut_of (map_of m ''err'') (Some (bytes_to_wire (take MAX_EXEC_STREAM_BYTES (concat errs))))
    \<and> (map_of m ''truncated'' = Some (JBool False) \<longrightarrow>
        map_of m ''out'' = Some (bytes_to_wire (concat outs)) \<and> map_of m ''err'' = Some (bytes_to_wire (concat errs)))"
proof -
  let ?o = "(take MAX_EXEC_STREAM_BYTES (concat outs), MAX_EXEC_STREAM_BYTES < length (concat outs))"
  let ?e = "(take MAX_EXEC_STREAM_BYTES (concat errs), MAX_EXEC_STREAM_BYTES < length (concat errs))"
  have rb: "read_bounded MAX_EXEC_STREAM_BYTES outs ([], False) = ?o" "read_bounded MAX_EXEC_STREAM_BYTES errs ([], False) = ?e"
    using read_bounded_spec [of outs "[]" MAX_EXEC_STREAM_BYTES "[]"] read_bounded_spec [of errs "[]" MAX_EXEC_STREAM_BYTES "[]"] assms(5)
    by simp_all
  define m where "m = [(''out'', bytes_to_wire (fst ?o)), (''err'', bytes_to_wire (fst ?e)), (''stdout'', bytes_to_wire (fst ?o)),
    (''stderr'', bytes_to_wire (fst ?e)), (''exit_code'', case code of Some n \<Rightarrow> JNumber n | None \<Rightarrow> JNull),
    (''error'', JNull), (''timed_out'', JBool False), (''truncated'', JBool (snd ?o \<or> snd ?e))]"
  obtain m1 where m1: "shrink_to_wire_budget lib (JObject m) = JObject m1" "shrunk m m1"
    using shrink_loop_shrunk [of lib 24 m] by (auto simp: shrink_to_wire_budget_def)
  have "execute ag lib request fs = (Inr (JObject m1), fs1)"
    using assms(1-4) m1(1) unfolding execute_def by (simp add: rb exec_response_def m_def)
  moreover have "map_of m1 ''exit_code'' = map_of m ''exit_code''" "map_of m1 ''timed_out'' = map_of m ''timed_out''"
    using m1(2) by (simp_all add: shrunk_def shrink_keys_def)
  moreover have "rel_option cut_of (map_of m1 ''out'') (map_of m ''out'')" "rel_option cut_of (map_of m1 ''err'') (map_of m ''err'')"
    using m1(2) by (simp_all add: shrunk_def shrink_keys_def)
  moreover have "map_of m1 ''truncated'' = Some (JBool False) \<longrightarrow> map_of m1 = map_of m"
    using m1(2) by (auto simp: shrunk_def)
  moreover have "map_of m ''truncated'' = Some (JBool False) \<longrightarrow> fst ?o = concat outs \<and> fst ?e = concat errs"
    by (simp add: m_def)
  moreover have "map_of m ''exit_code'' = Some (case code of Some n \<Rightarrow> JNumber n | None \<Rightarrow> JNull)" "map_of m ''timed_out'' = Some (JBool False)"
    "map_of m ''out'' = Some (bytes_to_wire (fst ?o))" "map_of m ''err'' = Some (bytes_to_wire (fst ?e))"
    by (simp_all add: m_def)
  ultimately show ?thesis by (intro exI [of _ m1]) auto
qed

lemma exec_action_fields:
  "jget ''action'' (exec_action cwd args secs) = Some (JString ''exec'')" "jget ''cwd'' (exec_action cwd args secs) = Some (JString cwd)"
  "jget ''args'' (exec_action cwd args secs) = Some (JArray (map JString args))"
  "jget ''timeout'' (exec_action cwd args secs) = Some (JNumber (int secs))" "jget ''env'' (exec_action cwd args secs) = None"
  by (simp_all add: exec_action_def)

lemma div_cover:
  assumes "d \<le> k * (s :: nat)" "0 < s"
  shows "d div s + (if d mod s \<noteq> 0 then 1 else 0) \<le> k"
proof (cases "d mod s = 0")
  case True
  then show ?thesis using div_le_mono [OF assms(1), of s] assms(2) by simp
next
  case False
  then have "d < k * s" using assms by (metis le_neq_implies_less mod_mult_self2_is_0)
  then show ?thesis using less_mult_imp_div_less by fastforce
qed

text \<open>The whole seconds sent cover the duration asked for, and are less than one second more.\<close>

lemma timeout_secs_cover:
  assumes "0 < d" "d \<le> (2 ^ 64 - 1) * SECOND"
  shows "d \<le> duration_to_timeout_secs d * SECOND \<and> duration_to_timeout_secs d * SECOND < d + SECOND"
proof -
  have e: "d = d div SECOND * SECOND + d mod SECOND" by simp
  have lt: "d mod SECOND < SECOND" by (simp add: SECOND_def)
  let ?n = "d div SECOND + (if d mod SECOND \<noteq> 0 then 1 else 0)"
  have le: "?n \<le> 2 ^ 64 - 1" using div_cover [OF assms(2)] by (simp add: SECOND_def)
  have pos: "1 \<le> ?n" using assms(1) e by (auto simp: SECOND_def)
  have "duration_to_timeout_secs d = ?n" using le pos unfolding duration_to_timeout_secs_def by linarith
  then have n: "duration_to_timeout_secs d * SECOND = d div SECOND * SECOND + (if d mod SECOND \<noteq> 0 then SECOND else 0)"
    by (simp add: distrib_right)
  show ?thesis
  proof (cases "d mod SECOND = 0")
    case True
    then have t: "(if d mod SECOND \<noteq> 0 then SECOND else 0) = 0" by simp
    show ?thesis unfolding n t using e lt True by (intro conjI; linarith)
  next
    case False
    then have t: "(if d mod SECOND \<noteq> 0 then SECOND else 0) = SECOND" by simp
    show ?thesis unfolding n t using e lt False by (intro conjI; linarith)
  qed
qed

section \<open>Typed frames\<close>

text \<open>A frame that the stream's client does not take for an error, and that the adapter maps to an event.\<close>

definition frame_event :: "json \<Rightarrow> bool" where
  "frame_event v \<longleftrightarrow> check_remote_error v = Inr () \<and> (\<exists>e. forkd_stream_event v = Inr e)"

definition typed :: "stream_state \<Rightarrow> bool" where
  "typed st \<longleftrightarrow> list_all frame_event (ss_frames st)"

lemma typed_fields [simp]:
  "typed (st\<lparr>ss_out := d\<rparr>) = typed st" "typed (st\<lparr>ss_err := d\<rparr>) = typed st" "typed (st\<lparr>ss_input := i\<rparr>) = typed st"
  "typed (st\<lparr>ss_buffer := b\<rparr>) = typed st" "typed (st\<lparr>ss_out_open := x\<rparr>) = typed st" "typed (st\<lparr>ss_err_open := x\<rparr>) = typed st"
  "typed (st\<lparr>ss_stdin := l\<rparr>) = typed st" "typed (stream_start buffer)"
  by (simp_all add: typed_def stream_start_def)

lemma frame_events [simp]:
  "frame_event (JObject [(''out'', JString t)])" "frame_event (JObject [(''err'', JString t)])" "frame_event (done_frame b)"
  "frame_event (Agent_Stream.exit_frame code)" "frame_event (started_frame pid)"
  "frame_event (JObject [(''exit_code'', c), (''timed_out'', JBool False)])"
  by (simp_all add: frame_event_def check_remote_error_def forkd_stream_event_def output_keys_def output_bytes_def done_frame_def
      Agent_Stream.exit_frame_def started_frame_def started_event_def str_field_def)

lemma emit_typed: "Agent_Stream.emit werr v st = Inr st1 \<Longrightarrow> frame_event v \<Longrightarrow> typed st \<Longrightarrow> typed st1"
  by (auto simp: Agent_Stream.emit_def typed_def split: option.splits)

lemma emit_chunk_typed: "emit_chunk werr key t st = Inr st1 \<Longrightarrow> key \<in> {''out'', ''err''} \<Longrightarrow> typed st \<Longrightarrow> typed st1"
  by (auto simp: emit_chunk_def split: if_splits intro: emit_typed [OF _ frame_events(1)] emit_typed [OF _ frame_events(2)])

lemma feed_typed:
  "feed_out werr b st = Inr st1 \<Longrightarrow> typed st \<Longrightarrow> typed st1" "feed_err werr b st = Inr st1 \<Longrightarrow> typed st \<Longrightarrow> typed st1"
  by (auto simp: feed_out_def feed_err_def map_sum_Inr split: if_splits dest: emit_chunk_typed)

lemma drain_typed: "drain werr n o1 o2 evs st = Inr st1 \<Longrightarrow> typed st \<Longrightarrow> typed st1"
proof (induction evs arbitrary: n o1 o2 st)
  case Nil
  then show ?case by (subst (asm) drain.simps) (auto split: if_splits)
next
  case (Cons ev evs)
  show ?case
  proof (cases "n = 0 \<or> (\<not> o1 \<and> \<not> o2)")
    case True
    then show ?thesis using Cons.prems by (subst (asm) drain.simps) auto
  next
    case False
    then show ?thesis using Cons.prems
      by (cases ev; subst (asm) drain.simps)
         (auto simp: res_bind_eq_Inr_conv split: if_splits dest: feed_typed intro: Cons.IH)
  qed
qed

lemma finish_typed: "finish_stream werr t devs st = Inr st1 \<Longrightarrow> frame_event t \<Longrightarrow> typed st \<Longrightarrow> typed st1"
  by (auto simp: finish_stream_def res_bind_eq_Inr_conv dest: drain_typed intro: emit_typed)

lemma builtin_fields:
  "\<exists>t c. jget ''out'' (builtin_result reachable request kind) = Some (JString t) \<and> jget ''exit_code'' (builtin_result reachable request kind) = Some c"
  unfolding builtin_result_def Let_def by (simp split: prod.split)

lemma stream_line_typed:
  "typed st \<Longrightarrow> stream_line lib werr devs line fw st = stream_end.Ended st1 \<or> stream_line lib werr devs line fw st = Going st1 \<Longrightarrow> typed st1"
  by (auto simp: stream_line_def Let_def ended_Ended split: if_splits option.splits forward_end.splits intro: finish_typed)

lemma stream_step_typed:
  "typed st \<Longrightarrow> stream_step lib werr devs ev st = stream_end.Ended st1 \<or> stream_step lib werr devs ev st = Going st1 \<Longrightarrow> typed st1"
  using stream_line_typed [of "st\<lparr>ss_buffer := _\<rparr>" lib werr devs _ _ st1]
  by (auto simp: stream_step_def ended_Ended map_sum_Inr res_bind_eq_Inr_conv
      split: stream_event.splits sum.splits if_splits line_outcome.splits intro: finish_typed dest: feed_typed)

lemma stream_loop_typed:
  "typed st \<Longrightarrow> stream_loop lib werr devs evs st = stream_end.Ended st1 \<or> stream_loop lib werr devs evs st = Going st1 \<Longrightarrow> typed st1"
proof (induction evs arbitrary: st)
  case (Cons ev evs)
  then show ?case using stream_step_typed [of st lib werr devs ev] by (auto split: stream_end.splits)
qed simp


section \<open>Properties\<close>

text \<open>
  C18. A command over forkd reports what it did. For a command that the guest runs to its end, the result of
  \<^verbatim>\<open>exec\<close> has the child's exit code, no time-out, and as standard output and standard error prefixes of the
  bytes the child wrote, complete when the agent's answer is not marked as truncated; a child that outlives
  the deadline gives a result that says so. The answer may arrive in any chunks.
\<close>

theorem forkd_exec_reports:
  assumes "exec_prepare c spec = Inr action" "builtin action = None" "command_from ag fs action = Inr command"
    "ag_spawn_error ag command fs = None" "ag_wait ag command (effective_exec_timeout action) fs = (w, fs1)"
    "w = WExited outs errs code \<or> w = WTimeout" "\<forall>ch \<in> set (outs @ errs). ch \<noteq> []"
    "code = map_option clamp_code code" "agent_action ag lib ''exec'' action fs = (Inr r, fs2)" "line_ok lib r"
    "holds (guest action) (json_line lib r)"
  shows "\<exists>res. forkd_exec lib c spec None guest = Inr res \<and> er_timed_out res = (w = WTimeout)
    \<and> er_status res = (if w = WTimeout then None else code)
    \<and> (w = WTimeout \<or> prefix (er_stdout res) (concat outs) \<and> prefix (er_stderr res) (concat errs)
       \<and> (jget ''truncated'' r = Some (JBool False) \<longrightarrow> er_stdout res = concat outs \<and> er_stderr res = concat errs))"
proof -
  have ex: "execute ag lib action fs = (Inr r, fs2)" using assms(9) by (simp add: agent_action_def)
  have fin: "final_answer r" by (rule agent_answer [OF assms(9)])
  have "fst (client_exchange lib None (guest action)) = Inr [r]"
    using exchange_value [OF assms(10), of "guest action" "[]"] assms(11) fin by (auto simp: final_answer_def)
  then have f: "forkd_exec lib c spec None guest = exec_result_of r"
    using assms(1) by (simp add: forkd_exec_def last_response_def)
  show ?thesis
  proof (cases "w = WTimeout")
    case True
    then have "r = timeout_response" using ex assms(2-5) by (simp add: execute_def)
    then show ?thesis using True f
      by (simp add: exec_result_of_def timeout_response_def first_of_def output_bytes_def code_of_def as_i64_def timed_out_of_def or_else_def)
  next
    case False
    then have w: "w = WExited outs errs code" using assms(6) by simp
    have aw: "ag_wait ag command (effective_exec_timeout action) fs = (WExited outs errs code, fs1)" using assms(5) w by simp
    obtain m where m: "r = JObject m" "map_of m ''exit_code'' = Some (case code of Some n \<Rightarrow> JNumber n | None \<Rightarrow> JNull)"
      "map_of m ''timed_out'' = Some (JBool False)"
      "rel_option cut_of (map_of m ''out'') (Some (bytes_to_wire (take MAX_EXEC_STREAM_BYTES (concat outs))))"
      "rel_option cut_of (map_of m ''err'') (Some (bytes_to_wire (take MAX_EXEC_STREAM_BYTES (concat errs))))"
      "map_of m ''truncated'' = Some (JBool False) \<longrightarrow>
        map_of m ''out'' = Some (bytes_to_wire (concat outs)) \<and> map_of m ''err'' = Some (bytes_to_wire (concat errs))"
      using exited_answer [OF assms(2-4) aw assms(7), of lib] ex by auto
    obtain wo we where k: "map_of m ''out'' = Some wo" "map_of m ''err'' = Some we"
      "cut_of wo (bytes_to_wire (take MAX_EXEC_STREAM_BYTES (concat outs)))" "cut_of we (bytes_to_wire (take MAX_EXEC_STREAM_BYTES (concat errs)))"
      using m(4,5) by (auto simp: option_rel_Some2)
    obtain bo be where b: "output_bytes ''invalid output'' (Some wo) = Inr bo" "prefix bo (take MAX_EXEC_STREAM_BYTES (concat outs))"
      "output_bytes ''invalid output'' (Some we) = Inr be" "prefix be (take MAX_EXEC_STREAM_BYTES (concat errs))"
      using output_cut [OF k(3)] output_cut [OF k(4)] by blast
    have code: "code_of (map_of m ''exit_code'') = code" using assms(8) unfolding m(2)
      by (cases code) (auto simp: code_of_def as_i64_def clamp_code_def split: if_splits)
    have res: "exec_result_of r = Inr \<lparr>er_status = code, er_stdout = bo, er_stderr = be, er_timed_out = False\<rparr>"
      using k(1,2) b(1,3) code m(1,3) by (simp add: exec_result_of_def first_of_def timed_out_of_def or_else_def)
    have "bo = concat outs \<and> be = concat errs" if "map_of m ''truncated'' = Some (JBool False)"
      using that m(6) k(1,2) b(1,3) output_whole [of "''invalid output''"] by auto
    then show ?thesis using f res False m(1) b(2,4) prefix_order.trans [OF _ take_is_prefix] by auto
  qed
qed

text \<open>A request for a terminal is the only one answered with an error on the stream.\<close>

abbreviation pty_asked :: "json \<Rightarrow> bool" where
  "pty_asked request \<equiv> or_else (Option.bind (jget ''pty'' request) as_bool) False"

definition pty_frame :: json where
  "pty_frame = JObject [(''error'', JString ''pty is not supported''), (''exit_code'', JNumber 1)]"

lemma pty_frames:
  assumes "stream_process ag lib werr pid request evs devs buffer fs = r" "r = stream_end.Ended st \<or> r = Going st" "pty_asked request"
  shows "ss_frames st = [pty_frame]"
  using assms by (auto simp: stream_process_def Let_def ended_Ended stream_start_def Agent_Stream.emit_def pty_frame_def split: option.splits)

lemma stream_frames_events:
  assumes "stream_process ag lib werr pid request evs devs buffer fs = r" "r = stream_end.Ended st \<or> r = Going st"
    and npty: "\<not> pty_asked request"
  shows "list_all frame_event (ss_frames st)"
proof (cases "builtin request")
  case (Some kind)
  obtain t c where b: "jget ''out'' (builtin_result (ag_reachable ag) request kind) = Some (JString t)"
    "jget ''exit_code'' (builtin_result (ag_reachable ag) request kind) = Some c"
    using builtin_fields by blast
  have "typed st" using assms(1,2) npty Some b
    by (auto simp: stream_process_def Let_def ended_Ended res_bind_eq_Inr_conv or_else_def split: if_splits dest!: emit_typed)
  then show ?thesis by (simp add: typed_def)
next
  case None
  then obtain st1 where s: "Agent_Stream.emit werr (started_frame pid) (stream_start buffer) = Inr st1" "stream_loop lib werr devs evs st1 = r"
    using assms(1,2) npty by (auto simp: stream_process_def Let_def split: sum.splits option.splits)
  have "typed st1" using emit_typed [OF s(1)] by simp
  then show ?thesis using stream_loop_typed [of st1 lib werr devs evs st] s(2) assms(2) by (auto simp: typed_def)
qed

text \<open>Successive calls of the adapter's \<^verbatim>\<open>next_event\<close>.\<close>

fun adapter_events :: "nat \<Rightarrow> json_lib \<Rightarrow> guest_stream \<Rightarrow> (sandbox_error + stream_out option) list \<times> guest_stream" where
  "adapter_events 0 lib s = ([], s)"
| "adapter_events (Suc n) lib s =
     (case adapter_next lib s of (r, s1) \<Rightarrow> (case adapter_events n lib s1 of (rs, s2) \<Rightarrow> (r # rs, s2)))"

lemma adapter_reads_event:
  assumes "frame_event v" "line_ok lib v" "holds (gs_reader s) (json_line lib v @ rest)"
  shows "\<exists>e s'. adapter_next lib s = (Inr (Some e), s') \<and> forkd_stream_event v = Inr e \<and> holds (gs_reader s') rest"
proof -
  obtain rd where "read_json_line lib (gs_reader s) = (Inr (Some v), rd)" "holds rd rest"
    using read_value [OF assms(2,3)] by blast
  then show ?thesis using assms(1) by (auto simp: adapter_next_def stream_next_def frame_event_def)
qed

lemma adapter_reads_events:
  assumes "list_all frame_event vs" "list_all (line_ok lib) vs" "holds (gs_reader s) (concat (map (json_line lib) vs) @ rest)"
  shows "\<exists>es s'. adapter_events (length vs) lib s = (map (Inr \<circ> Some) es, s') \<and> map forkd_stream_event vs = map Inr es
    \<and> holds (gs_reader s') rest"
  using assms
proof (induction vs arbitrary: s)
  case Nil
  then show ?case by simp
next
  case (Cons v vs)
  obtain e s1 where 1: "adapter_next lib s = (Inr (Some e), s1)" "forkd_stream_event v = Inr e"
    "holds (gs_reader s1) (concat (map (json_line lib) vs) @ rest)"
    using adapter_reads_event [of v lib s "concat (map (json_line lib) vs) @ rest"] Cons.prems by auto
  obtain es s' where "adapter_events (length vs) lib s1 = (map (Inr \<circ> Some) es, s')" "map forkd_stream_event vs = map Inr es"
    "holds (gs_reader s') rest" using Cons.IH [OF _ _ 1(3)] Cons.prems by auto
  then show ?case using 1 by (intro exI [of _ "e # es"] exI [of _ s']) simp
qed

text \<open>
  C19. What the agent writes on a stream, the host's adapter reads as it is meant: whatever the child does, however the
  session ends and the bytes are cut on the way, as many calls of \<^verbatim>\<open>next_event\<close> as frames were written return
  one start, output or exit event for each, in order, and none is taken for an error or rejected; only the answer to
  a request for a terminal, a single frame, is reported as the agent's error. The frames' lines are read back by the JSON
  library as printed and are below the host's limit of a line.
\<close>

theorem stream_frames_typed:
  assumes "stream_process ag lib werr pid request evs devs buffer fs = r" "r = stream_end.Ended st \<or> r = Going st"
    "list_all (line_ok lib) (ss_frames st)" "holds (gs_reader s) (concat (map (json_line lib) (ss_frames st)) @ rest)"
  shows "\<exists>rs s'. adapter_events (length (ss_frames st)) lib s = (rs, s') \<and> holds (gs_reader s') rest
    \<and> (if pty_asked request then rs = [Inl (SExecution ''pty is not supported'')]
       else (\<exists>es. rs = map (Inr \<circ> Some) es \<and> map forkd_stream_event (ss_frames st) = map Inr es))"
proof (cases "pty_asked request")
  case True
  then have f: "ss_frames st = [pty_frame]" using pty_frames assms(1,2) by blast
  obtain rd where "read_json_line lib (gs_reader s) = (Inr (Some pty_frame), rd)" "holds rd rest"
    using read_value [of lib pty_frame "gs_reader s" rest] assms(3,4) by (auto simp: f)
  then show ?thesis using True
    by (auto simp: f adapter_next_def stream_next_def check_remote_error_def str_field_def pty_frame_def)
next
  case False
  with adapter_reads_events [OF stream_frames_events [OF assms(1,2)] assms(3,4)] show ?thesis by auto
qed

text \<open>
  The two host surfaces read streams alike: the facade's mapping accepts exactly the events of the sandbox
  adapter, with the same kind, bytes and exit code, and ignores exactly the lines that the adapter rejects
  as unknown.
\<close>

theorem stream_surfaces_agree:
  "(forkd_stream_event v = Inr e \<longleftrightarrow> facade_stream_event v = Inr (Some e))
   \<and> (forkd_stream_event v = Inl (SExecution ''invalid guest stream event'') \<longleftrightarrow> facade_stream_event v = Inr None)"
proof -
  have b: "(output_bytes OUTPUT_SHAPE x = Inr d) = (value_bytes x = Inr d)" for x d
    by (auto simp: output_bytes_def value_bytes_def split: option.splits json.splits)
  have n: "output_bytes OUTPUT_SHAPE x \<noteq> Inl (SExecution ''invalid guest stream event'')" for x
    by (auto simp: output_bytes_def OUTPUT_SHAPE_def split: option.splits json.splits)
  show ?thesis
  proof (cases "jget ''exit_code'' v \<noteq> None \<or> Option.bind (jget ''done'' v) as_bool = Some True")
    case True
    then show ?thesis by (auto simp: forkd_stream_event_def facade_stream_event_def)
  next
    case False
    show ?thesis
    proof (cases "output_key output_keys v")
      case None
      then show ?thesis using False by (auto simp: forkd_stream_event_def facade_stream_event_def)
    next
      case (Some xs)
      obtain x stderr where xs: "xs = (x, stderr)" by fastforce
      have f: "forkd_stream_event v = map_sum id (if stderr then EvStderr else EvStdout) (output_bytes OUTPUT_SHAPE (Some x))"
        "facade_stream_event v = map_sum id (Some \<circ> (if stderr then EvStderr else EvStdout)) (value_bytes (Some x))"
        using False Some xs by (simp_all add: forkd_stream_event_def facade_stream_event_def)
      show ?thesis
      proof (cases "output_bytes OUTPUT_SHAPE (Some x)")
        case (Inr d)
        then show ?thesis using b [of "Some x" d] f by auto
      next
        case (Inl m)
        then obtain m' where "value_bytes (Some x) = Inl m'" using b [of "Some x"] by (cases "value_bytes (Some x)") auto
        then show ?thesis using Inl n [of "Some x"] f by auto
      qed
    qed
  qed
qed

text \<open>
  The convenience calls that run in the guest root can never succeed with this agent, which confines working
  directories to the workspace and refuses \<^verbatim>\<open>/\<close>.
\<close>

theorem root_directory_refused:
  "\<exists>e. agent_action ag lib ''exec'' (exec_action ''/'' args secs) fs = (Inl e, fs)"
proof -
  have "guest_path fs (ag_root ag) (Some (JString ''/'')) = Inl (Invalid ''invalid guest path'')"
    by (simp add: guest_path_def guest_relative_def Let_def MAX_PATH_def starts_with_def)
  then have p: "agent_path ag fs (Some (JString ''/'')) = Inl ''invalid guest path''" by (simp add: agent_path_def path_error_def)
  show ?thesis
  proof (cases "builtin (exec_action ''/'' args secs)")
    case (Some kind)
    have "\<exists>e. agent_validate_builtin ag fs (exec_action ''/'' args secs) = Inl e"
      using p by (cases "validate_builtin_request (exec_action ''/'' args secs)") (auto simp: agent_validate_builtin_def exec_action_fields)
    then show ?thesis using Some by (auto simp: agent_action_def execute_def)
  next
    case None
    have "\<exists>e. command_from ag fs (exec_action ''/'' args secs) = Inl e"
      using p by (cases "command_from ag fs (exec_action ''/'' args secs)")
        (auto simp: command_from_def exec_action_fields res_bind_eq_Inr_conv ok_or_def split: if_splits option.splits)
    then show ?thesis using None by (auto simp: agent_action_def execute_def)
  qed
qed


section \<open>Witnesses\<close>

definition hi_answer :: json where
  "hi_answer = exec_response ([104, 105], False) ([], False) (Some 0)"

definition hi_json :: json_lib where
  "hi_json = demo_stream_lib\<lparr>jl_print := (\<lambda>_. [65]), jl_parse := (\<lambda>b. if b = [65] then Inr hi_answer else Inl ''syntax'')\<rparr>"

definition ls_action :: json where
  "ls_action = exec_action ''/workspace'' [''/bin/ls''] 30"

lemma ls_prepared: "exec_prepare forkd_settings_default (exec_spec_new ''/bin/ls'') = Inr ls_action"
  by (simp add: exec_prepare_def exec_spec_validate_def exec_spec_new_def blank_def trim_def ls_action_def forkd_settings_default_def
      forkd_config_default_def forkd_config.defs duration_to_timeout_secs_def SECOND_def) code_simp

lemma ls_command: "builtin ls_action = None" "command_from demo_agent plain_tree ls_action
    = Inr \<lparr>cmd_args = [''/bin/ls''], cmd_cwd = [''ws''], cmd_unset = [''FORKD_AGENT_TOKEN''], cmd_env = []\<rparr>"
  by code_simp+

lemma demo_fields: "ag_spawn_error demo_agent c fs = None" "ag_wait demo_agent c n fs = (WExited [[104, 105]] [] (Some 0), fs)"
  by (simp_all add: demo_agent_def)

lemma shrink_small: "length (jl_print lib v) \<le> BUDGET \<Longrightarrow> shrink_loop lib n v = v"
  by (cases n) simp_all

lemma ls_answered: "agent_action demo_agent hi_json ''exec'' ls_action plain_tree = (Inr hi_answer, plain_tree)"
proof -
  have "read_bounded MAX_EXEC_STREAM_BYTES [[104, 105]] ([], False) = ([104, 105], False)"
    by (simp add: MAX_EXEC_STREAM_BYTES_def)
  moreover have "shrink_to_wire_budget hi_json v = v" for v
    unfolding shrink_to_wire_budget_def by (rule shrink_small) (simp add: hi_json_def BUDGET_def)
  ultimately show ?thesis by (simp add: agent_action_def execute_def ls_command demo_fields hi_answer_def)
qed

theorem forkd_exec_reports_witness:
  "\<exists>res. forkd_exec hi_json forkd_settings_default (exec_spec_new ''/bin/ls'') None (\<lambda>_. \<lparr>rd_buffer = [65, 10], rd_arrivals = []\<rparr>) = Inr res
     \<and> er_status res = Some 0 \<and> er_stdout res = [104, 105]"
proof -
  have l: "line_ok hi_json hi_answer" "json_line hi_json hi_answer = [65, 10]"
    by (simp_all add: line_ok_def hi_json_def json_line_def MAX_RESPONSE_def)
  have h: "holds \<lparr>rd_buffer = [65, 10], rd_arrivals = []\<rparr> (json_line hi_json hi_answer)" by (simp add: l(2) holds_def)
  have w: "ag_wait demo_agent \<lparr>cmd_args = [''/bin/ls''], cmd_cwd = [''ws''], cmd_unset = [''FORKD_AGENT_TOKEN''], cmd_env = []\<rparr>
      (effective_exec_timeout ls_action) plain_tree = (WExited [[104, 105]] [] (Some 0), plain_tree)"
    "ag_spawn_error demo_agent \<lparr>cmd_args = [''/bin/ls''], cmd_cwd = [''ws''], cmd_unset = [''FORKD_AGENT_TOKEN''], cmd_env = []\<rparr> plain_tree = None"
    by (simp_all add: demo_fields)
  have "jget ''truncated'' hi_answer = Some (JBool False)" by (simp add: hi_answer_def exec_response_def)
  then show ?thesis
    using forkd_exec_reports [OF ls_prepared ls_command w(2,1), of "[[104, 105]]" "[]" "Some 0" hi_json hi_answer plain_tree
        "\<lambda>_. \<lparr>rd_buffer = [65, 10], rd_arrivals = []\<rparr>"] ls_answered l(1) h
    by (auto simp: clamp_code_def)
qed

text \<open>A child that exits at once, its two frames read by the host in two pieces.\<close>

definition quick_lib :: json_lib where
  "quick_lib = demo_stream_lib\<lparr>jl_print := (\<lambda>v. if v = started_frame JNull then [65] else [66]),
     jl_parse := (\<lambda>b. if b = [65] then Inr (started_frame JNull)
        else if b = [66] then Inr (Agent_Stream.exit_frame (Some 0)) else Inl ''syntax'')\<rparr>"

definition quick_stream :: guest_stream where
  "quick_stream = \<lparr>gs_reader = \<lparr>rd_buffer = [65, 10, 66], rd_arrivals = [Chunk [10]]\<rparr>, gs_written = [], gs_stopped = False, gs_terminal = False\<rparr>"

theorem stream_frames_typed_witness:
  "fst (adapter_events 2 quick_lib quick_stream) = [Inr (Some EvStarted), Inr (Some (EvExit (Some 0)))]"
proof -
  let ?frames = "[started_frame JNull, Agent_Stream.exit_frame (Some 0)]"
  have b: "builtin demo_exec = None" by code_simp
  obtain c where c: "command_from demo_agent plain_tree demo_exec = Inr c" "ag_spawn_error demo_agent c plain_tree = None"
    using demo_command demo_fields(1) by blast
  have "jget ''pty'' demo_exec = None" by (simp add: demo_exec_def)
  then have pty: "\<not> pty_asked demo_exec" by (simp add: or_else_def)
  have p: "stream_process demo_agent quick_lib (\<lambda>_. None) JNull demo_exec [SvExit (Inr (Some 0))] [] [] plain_tree
      = stream_end.Ended ((stream_start [])\<lparr>ss_frames := ?frames\<rparr>)"
    using pty by (simp add: stream_process_def b c Agent_Stream.emit_def stream_step_def finish_stream_def drain.simps
        ended_def stream_start_def Let_def)
  have ne: "started_frame JNull \<noteq> Agent_Stream.exit_frame (Some 0)"
    by (simp add: started_frame_def Agent_Stream.exit_frame_def)
  then have l: "list_all (line_ok quick_lib) ?frames" "map (json_line quick_lib) ?frames = [[65, 10], [66, 10]]"
    by (auto simp: line_ok_def quick_lib_def json_line_def MAX_RESPONSE_def)
  have "holds (gs_reader quick_stream) (concat (map (json_line quick_lib) ?frames) @ [])"
    unfolding l(2) by (simp add: quick_stream_def holds_def) (intro exI [of _ "[[10]]"], simp)
  then obtain es where es: "fst (adapter_events 2 quick_lib quick_stream) = map (Inr \<circ> Some) es"
    "map forkd_stream_event ?frames = map Inr es"
    using stream_frames_typed [OF p, of _ quick_stream "[]"] l(1) pty by (fastforce simp: numeral_2_eq_2)
  moreover have "map forkd_stream_event ?frames = [Inr EvStarted, Inr (EvExit (Some 0))]"
    by (simp add: forkd_stream_event_def started_frame_def Agent_Stream.exit_frame_def output_keys_def started_event_def
        str_field_def code_of_def as_i64_def clamp_code_def)
  ultimately show ?thesis by (cases es; cases "tl es") auto
qed

end
