(* ===== verification/Forkd_Pool.thy ===== *)
theory Forkd_Pool
  imports Forkd_Guest
begin

text \<open>
  The pool of warm connections of a forkd guest client, \<^verbatim>\<open>request_with_read_timeout\<close> of \<^verbatim>\<open>rfb/src/forkd/guest.rs\<close>.
  Any number of requests run concurrently; the pool is locked only to pop and to push. A request takes
  connections from the end of the pool until one was used less than a second ago, closing older ones, or
  dials a new one and runs the handshake; a connection goes back only after a successful exchange that left
  nothing in its buffer. The clock is in nanoseconds.
\<close>

record pooled =
  pc_conn :: nat
  pc_reader :: reader
  pc_last_used :: nat

text \<open>
  The state; a busy entry is a request with its connection. \<open>fp_next\<close> numbers new connections, \<open>fp_ready\<close> are
  those that have passed the handshake, \<open>fp_closed\<close> those that have been dropped.
\<close>

record forkd_pool =
  fp_idle :: "pooled list"
  fp_busy :: "(nat \<times> nat \<times> reader) list"
  fp_next :: nat
  fp_ready :: "nat set"
  fp_closed :: "nat set"

definition forkd_pool_new :: forkd_pool where
  "forkd_pool_new = \<lparr>fp_idle = [], fp_busy = [], fp_next = 0, fp_ready = {}, fp_closed = {}\<rparr>"

definition POOL_CAPACITY :: nat where
  "POOL_CAPACITY = 16"

definition IDLE_LIMIT :: nat where
  "IDLE_LIMIT = 1000000000"

text \<open>
  The actions of a request: pop once, dial and authenticate, exchange and give back. What arrives on the
  socket, write errors and the clock are chosen by the environment.
\<close>

datatype pool_action =
    Pop nat nat
  | Dial nat "guest_error option" "arrival list"
  | Exchange nat "guest_error option" "arrival list" nat

definition give_back :: "nat \<Rightarrow> bool \<Rightarrow> reader \<Rightarrow> nat \<Rightarrow> forkd_pool \<Rightarrow> forkd_pool" where
  "give_back c ok rd now s =
     (if ok \<and> rd_buffer rd = [] \<and> length (fp_idle s) < POOL_CAPACITY
      then s\<lparr>fp_idle := fp_idle s @ [\<lparr>pc_conn = c, pc_reader = rd, pc_last_used = now\<rparr>]\<rparr>
      else s\<lparr>fp_closed := insert c (fp_closed s)\<rparr>)"

fun pool_step :: "json_lib \<Rightarrow> string option \<Rightarrow> pool_action \<Rightarrow> forkd_pool \<Rightarrow> forkd_pool" where
  "pool_step lib token (Pop r now) s =
     (if r \<in> fst ` set (fp_busy s) \<or> fp_idle s = [] then s
      else (let e = last (fp_idle s); s1 = s\<lparr>fp_idle := butlast (fp_idle s)\<rparr> in
            if now - pc_last_used e < IDLE_LIMIT then s1\<lparr>fp_busy := (r, pc_conn e, pc_reader e) # fp_busy s\<rparr>
            else s1\<lparr>fp_closed := insert (pc_conn e) (fp_closed s)\<rparr>))"
| "pool_step lib token (Dial r werr arr) s =
     (if r \<in> fst ` set (fp_busy s) then s
      else (let c = fp_next s; s1 = s\<lparr>fp_next := Suc c\<rparr> in
            case client_authenticate lib werr token \<lparr>rd_buffer = [], rd_arrivals = arr\<rparr> of
              (Inl _, _) \<Rightarrow> s1\<lparr>fp_closed := insert c (fp_closed s)\<rparr>
            | (Inr _, rd) \<Rightarrow> s1\<lparr>fp_ready := insert c (fp_ready s), fp_busy := (r, c, rd) # fp_busy s\<rparr>))"
| "pool_step lib token (Exchange r werr arr now) s =
     (case map_of (fp_busy s) r of
        None \<Rightarrow> s
      | Some (c, rd) \<Rightarrow>
          (case client_exchange lib werr (rd\<lparr>rd_arrivals := arr\<rparr>) of
             (res, rd1) \<Rightarrow> give_back c (\<exists>vs. res = Inr vs) rd1 now (s\<lparr>fp_busy := filter (\<lambda>b. fst b \<noteq> r) (fp_busy s)\<rparr>)))"

text \<open>The connections in use, idle ones first.\<close>

definition pool_conns :: "forkd_pool \<Rightarrow> nat list" where
  "pool_conns s = map pc_conn (fp_idle s) @ map (\<lambda>b. fst (snd b)) (fp_busy s)"

definition pool_ok :: "forkd_pool \<Rightarrow> bool" where
  "pool_ok s \<longleftrightarrow> length (fp_idle s) \<le> POOL_CAPACITY \<and> distinct (pool_conns s) \<and> distinct (map fst (fp_busy s))
     \<and> list_all (\<lambda>e. rd_buffer (pc_reader e) = []) (fp_idle s) \<and> set (pool_conns s) \<inter> fp_closed s = {}
     \<and> set (pool_conns s) \<subseteq> fp_ready s \<and> (\<forall>c \<in> set (pool_conns s) \<union> fp_closed s. c < fp_next s)"

lemma pop_ok:
  assumes "pool_ok s"
  shows "pool_ok (pool_step lib token (Pop r now) s)"
proof (cases "r \<in> fst ` set (fp_busy s) \<or> fp_idle s = []")
  case False
  then obtain es e where e: "fp_idle s = es @ [e]" by (cases "fp_idle s" rule: rev_cases) auto
  then show ?thesis using assms False by (auto simp: pool_ok_def pool_conns_def Let_def)
qed (use assms in auto)

lemma dial_ok:
  assumes "pool_ok s"
  shows "pool_ok (pool_step lib token (Dial r werr arr) s)"
proof -
  have "fp_next s \<notin> set (pool_conns s)" "fp_next s \<notin> fp_closed s" using assms by (auto simp: pool_ok_def)
  then show ?thesis using assms
    by (auto simp: pool_ok_def pool_conns_def Let_def less_Suc_eq split: prod.splits sum.splits)
qed

lemma exchange_ok:
  assumes "pool_ok s"
  shows "pool_ok (pool_step lib token (Exchange r werr arr now) s)"
proof (cases "map_of (fp_busy s) r")
  case (Some cr)
  obtain c rd where cr: "cr = (c, rd)" by fastforce
  obtain res rd1 where x: "client_exchange lib werr (rd\<lparr>rd_arrivals := arr\<rparr>) = (res, rd1)" by fastforce
  have mem: "(r, c, rd) \<in> set (fp_busy s)" using Some cr by (simp add: map_of_SomeD)
  then obtain us vs where sp: "fp_busy s = us @ (r, c, rd) # vs" by (meson split_list)
  have "r \<notin> fst ` set us" "r \<notin> fst ` set vs" using assms sp by (auto simp: pool_ok_def)
  then have "filter (\<lambda>b. fst b \<noteq> r) us = us" "filter (\<lambda>b. fst b \<noteq> r) vs = vs" by (auto intro!: filter_True)
  then have fl: "filter (\<lambda>b. fst b \<noteq> r) (fp_busy s) = us @ vs" unfolding sp by simp
  let ?s = "s\<lparr>fp_busy := us @ vs\<rparr>"
  have ok: "pool_ok ?s" "c \<notin> set (pool_conns ?s)" "c \<in> fp_ready s" "c < fp_next s" "c \<notin> fp_closed s"
    using assms sp by (auto simp: pool_ok_def pool_conns_def)
  have "pool_ok (give_back c b rd1 now ?s)" for b
  proof (cases "b \<and> rd_buffer rd1 = [] \<and> length (fp_idle s) < POOL_CAPACITY")
    case True
    then show ?thesis using ok by (auto simp: pool_ok_def pool_conns_def give_back_def)
  next
    case False
    then have "give_back c b rd1 now ?s = ?s\<lparr>fp_closed := insert c (fp_closed s)\<rparr>" by (auto simp: give_back_def)
    then show ?thesis using ok by (auto simp: pool_ok_def pool_conns_def)
  qed
  then show ?thesis using Some cr x by (simp add: fl)
qed (use assms in simp)

lemma pool_step_ok: "pool_ok s \<Longrightarrow> pool_ok (pool_step lib token a s)"
  using pop_ok dial_ok exchange_ok by (cases a) (simp_all del: pool_step.simps)

lemma pool_run_ok: "pool_ok s \<Longrightarrow> pool_ok (fold (pool_step lib token) acts s)"
  by (induction acts arbitrary: s) (simp_all add: pool_step_ok)

text \<open>
  C20. However requests interleave, the pool holds at most sixteen connections; every connection serves at most
  one request at a time and is not idle meanwhile; all of them have passed the handshake; idle ones have
  nothing buffered; and a connection that was dropped, after a failure, a time-out, left-over bytes or a second
  of disuse, is never used again.
\<close>

theorem forkd_pool_exclusive:
  "let s = fold (pool_step lib token) acts forkd_pool_new in
     length (fp_idle s) \<le> POOL_CAPACITY \<and> distinct (pool_conns s) \<and> set (pool_conns s) \<subseteq> fp_ready s
     \<and> list_all (\<lambda>e. rd_buffer (pc_reader e) = []) (fp_idle s) \<and> set (pool_conns s) \<inter> fp_closed s = {}"
proof -
  have "pool_ok forkd_pool_new" by (simp add: pool_ok_def pool_conns_def forkd_pool_new_def)
  from pool_run_ok [OF this, of lib token acts] show ?thesis by (simp add: pool_ok_def Let_def)
qed

end
