(* ===== verification/Session_Turn.thy ===== *)
theory Session_Turn
  imports Rfb_Prelude
begin

text \<open>
  The turn of a ZeroBoot session, \<^verbatim>\<open>begin_turn\<close>, \<^verbatim>\<open>TurnGuard\<close>, \<^verbatim>\<open>InflightGuard\<close> and \<^verbatim>\<open>cancel_active\<close> of
  \<^verbatim>\<open>rfb/src/zeroboot/provider.rs\<close>: the lock that serializes turns, the channels registered by request identifier, and the
  published identifier of the active turn. Every access of a turn or a cancel to one of them is a step, and so is the end of
  \<^verbatim>\<open>spawn_reader\<close>, which drains the table of channels when the connection is gone; futures may be dropped
  wherever they wait, and a guard that finds a mutex taken leaves its clean-up to a task of its own.
  Request identifiers are fresh; they are random in the code. The entries of other requests, under identifiers of
  their own, are left out of the table.
\<close>

section \<open>Steps\<close>

text \<open>
  A task that runs a turn waits for the lock; has it; has registered its channel; has published its identifier
  and owns the guard; has dropped the guard as far as clearing the identifier; or as far as removing the
  channel. A task that cancels has read the identifier, and then sends. \<open>Ended_turn\<close> is the end of both.
  \<open>tu_drained\<close> says that the reader has ended and drained the table; a turn can still register afterwards.
\<close>

datatype turn_pc =
    No_turn
  | Queued nat
  | Locked nat
  | Registered nat
  | Turning nat
  | Cleared nat
  | Unregistered nat
  | Cancelling "nat option"
  | Ended_turn

record turn_state =
  tu_lock :: "nat option"
  tu_inflight :: "nat set"
  tu_drained :: bool
  tu_active :: "nat option"
  tu_used :: "nat set"
  tu_task :: "nat \<Rightarrow> turn_pc"
  tu_clears :: "nat set"
  tu_removes :: "nat set"
  tu_sent :: "nat list"

definition turn_new :: turn_state where
  "turn_new = \<lparr>tu_lock = None, tu_inflight = {}, tu_drained = False, tu_active = None, tu_used = {}, tu_task = (\<lambda>_. No_turn),
     tu_clears = {}, tu_removes = {}, tu_sent = []\<rparr>"

definition at :: "nat \<Rightarrow> turn_pc \<Rightarrow> turn_state \<Rightarrow> turn_state" where
  "at t pc s = s\<lparr>tu_task := (tu_task s)(t := pc)\<rparr>"

text \<open>The conditional clear of the guard.\<close>

definition clear_active :: "nat \<Rightarrow> turn_state \<Rightarrow> turn_state" where
  "clear_active r s = (if tu_active s = Some r then s\<lparr>tu_active := None\<rparr> else s)"

text \<open>The end of the reader: every registered channel is closed.\<close>

definition drain_inflight :: "turn_state \<Rightarrow> turn_state" where
  "drain_inflight s = s\<lparr>tu_inflight := {}, tu_drained := True\<rparr>"

inductive turn_step :: "nat \<Rightarrow> turn_state \<Rightarrow> turn_state \<Rightarrow> bool" for t :: nat where
  start: "tu_task s t = No_turn \<Longrightarrow> r \<notin> tu_used s \<Longrightarrow> turn_step t s (at t (Queued r) (s\<lparr>tu_used := insert r (tu_used s)\<rparr>))"
| lock: "tu_task s t = Queued r \<Longrightarrow> tu_lock s = None \<Longrightarrow> turn_step t s (at t (Locked r) (s\<lparr>tu_lock := Some t\<rparr>))"
| drop_queued: "tu_task s t = Queued r \<Longrightarrow> turn_step t s (at t Ended_turn s)"
| register: "tu_task s t = Locked r \<Longrightarrow> turn_step t s (at t (Registered r) (s\<lparr>tu_inflight := insert r (tu_inflight s)\<rparr>))"
| drop_locked: "tu_task s t = Locked r \<Longrightarrow> turn_step t s (at t Ended_turn (s\<lparr>tu_lock := None\<rparr>))"
| publish: "tu_task s t = Registered r \<Longrightarrow> turn_step t s (at t (Turning r) (s\<lparr>tu_active := Some r\<rparr>))"
| drop_registered: "tu_task s t = Registered r \<Longrightarrow> turn_step t s (at t Ended_turn (s\<lparr>tu_lock := None\<rparr>))"
| clear: "tu_task s t = Turning r \<Longrightarrow> turn_step t s (at t (Cleared r) (clear_active r s))"
| clear_later: "tu_task s t = Turning r \<Longrightarrow> turn_step t s (at t (Cleared r) (s\<lparr>tu_clears := insert r (tu_clears s)\<rparr>))"
| unregister: "tu_task s t = Cleared r \<Longrightarrow> turn_step t s (at t (Unregistered r) (s\<lparr>tu_inflight := tu_inflight s - {r}\<rparr>))"
| unregister_later: "tu_task s t = Cleared r \<Longrightarrow>
     turn_step t s (at t (Unregistered r) (s\<lparr>tu_removes := insert r (tu_removes s)\<rparr>))"
| unlock: "tu_task s t = Unregistered r \<Longrightarrow> turn_step t s (at t Ended_turn (s\<lparr>tu_lock := None\<rparr>))"
| cleared: "r \<in> tu_clears s \<Longrightarrow> turn_step t s (clear_active r (s\<lparr>tu_clears := tu_clears s - {r}\<rparr>))"
| removed: "r \<in> tu_removes s \<Longrightarrow>
     turn_step t s (s\<lparr>tu_removes := tu_removes s - {r}, tu_inflight := tu_inflight s - {r}\<rparr>)"
| drain: "\<not> tu_drained s \<Longrightarrow> turn_step t s (drain_inflight s)"
| cancel: "tu_task s t = No_turn \<Longrightarrow> turn_step t s (at t (Cancelling (tu_active s)) s)"
| send: "tu_task s t = Cancelling (Some r) \<Longrightarrow> turn_step t s (at t Ended_turn (s\<lparr>tu_sent := tu_sent s @ [r]\<rparr>))"
| idle: "tu_task s t = Cancelling None \<Longrightarrow> turn_step t s (at t Ended_turn s)"
| drop_cancel: "tu_task s t = Cancelling x \<Longrightarrow> turn_step t s (at t Ended_turn s)"

definition turn_run :: "turn_state \<Rightarrow> turn_state \<Rightarrow> bool" where
  "turn_run = (\<lambda>s s'. \<exists>t. turn_step t s s')\<^sup>*\<^sup>*"

section \<open>The invariant\<close>

fun turn_id :: "turn_pc \<Rightarrow> nat option" where
  "turn_id (Queued r) = Some r"
| "turn_id (Locked r) = Some r"
| "turn_id (Registered r) = Some r"
| "turn_id (Turning r) = Some r"
| "turn_id (Cleared r) = Some r"
| "turn_id (Unregistered r) = Some r"
| "turn_id _ = None"

fun in_turn :: "turn_pc \<Rightarrow> bool" where
  "in_turn (Locked r) = True"
| "in_turn (Registered r) = True"
| "in_turn (Turning r) = True"
| "in_turn (Cleared r) = True"
| "in_turn (Unregistered r) = True"
| "in_turn _ = False"

fun registered :: "turn_pc \<Rightarrow> bool" where
  "registered (Registered r) = True"
| "registered (Turning r) = True"
| "registered (Cleared r) = True"
| "registered _ = False"

definition lock_ok :: "turn_state \<Rightarrow> bool" where
  "lock_ok s \<longleftrightarrow> (\<forall>t. in_turn (tu_task s t) \<longleftrightarrow> tu_lock s = Some t)"

definition ids_ok :: "turn_state \<Rightarrow> bool" where
  "ids_ok s \<longleftrightarrow> (\<forall>t r. turn_id (tu_task s t) = Some r \<longrightarrow> r \<in> tu_used s)
     \<and> (\<forall>t u r. turn_id (tu_task s t) = Some r \<longrightarrow> turn_id (tu_task s u) = Some r \<longrightarrow> t = u)
     \<and> tu_clears s \<subseteq> tu_used s \<and> tu_removes s \<subseteq> tu_used s"

fun before_clear :: "turn_pc \<Rightarrow> bool" where
  "before_clear (Queued r) = True"
| "before_clear (Locked r) = True"
| "before_clear (Registered r) = True"
| "before_clear (Turning r) = True"
| "before_clear _ = False"

definition pending_ok :: "turn_state \<Rightarrow> bool" where
  "pending_ok s \<longleftrightarrow> (\<forall>t r. turn_id (tu_task s t) = Some r \<longrightarrow>
       (before_clear (tu_task s t) \<longrightarrow> r \<notin> tu_clears s)
     \<and> (tu_task s t \<noteq> Unregistered r \<longrightarrow> r \<notin> tu_removes s)
     \<and> (registered (tu_task s t) \<longrightarrow> r \<in> tu_inflight s \<or> tu_drained s))"

definition active_ok :: "turn_state \<Rightarrow> bool" where
  "active_ok s \<longleftrightarrow> (\<forall>r. tu_active s = Some r \<longrightarrow> r \<in> tu_clears s \<or> (\<exists>t. tu_task s t = Turning r))
     \<and> (\<forall>t r. tu_task s t = Turning r \<longrightarrow> tu_active s = Some r)"

definition turn_inv :: "turn_state \<Rightarrow> bool" where
  "turn_inv s \<longleftrightarrow> lock_ok s \<and> ids_ok s \<and> pending_ok s \<and> active_ok s"

lemma turn_inv_new: "turn_inv turn_new"
  by (simp add: turn_inv_def turn_new_def lock_ok_def ids_ok_def pending_ok_def active_ok_def)

lemmas turn_simps = at_def clear_active_def drain_inflight_def

lemma lock_ok_step:
  assumes "turn_step t s s'" "lock_ok s"
  shows "lock_ok s'"
proof -
  have t: "in_turn (tu_task s t) \<longleftrightarrow> tu_lock s = Some t" and u: "in_turn (tu_task s u) \<longleftrightarrow> tu_lock s = Some u" for u
    using assms(2) unfolding lock_ok_def by blast+
  show ?thesis unfolding lock_ok_def using assms(1) t
    by cases (auto simp: turn_simps u split: if_splits)
qed

lemma ids_ok_step:
  assumes "turn_step t s s'" "ids_ok s"
  shows "ids_ok s'"
proof -
  have t: "turn_id (tu_task s t) = Some r \<Longrightarrow> r \<in> tu_used s"
    and u: "turn_id (tu_task s u) = Some r \<Longrightarrow> r \<in> tu_used s"
    and tu: "turn_id (tu_task s t) = Some r \<Longrightarrow> turn_id (tu_task s u) = Some r \<Longrightarrow> u = t"
    and uv: "turn_id (tu_task s u) = Some r \<Longrightarrow> turn_id (tu_task s v) = Some r \<Longrightarrow> u = v"
    and p: "tu_clears s \<subseteq> tu_used s" "tu_removes s \<subseteq> tu_used s" for r u v
    using assms(2) unfolding ids_ok_def by blast+
  have "tu_used s \<subseteq> tu_used s'" "tu_clears s' \<subseteq> tu_used s'" "tu_removes s' \<subseteq> tu_used s'"
    using assms(1) t p by (cases; auto simp: turn_simps split: if_splits)+
  moreover have "turn_id (tu_task s' u) = Some r \<Longrightarrow> r \<in> tu_used s'" for u r
    using assms(1) t u by cases (auto simp: turn_simps split: if_splits)
  moreover have "turn_id (tu_task s' u) = Some r \<Longrightarrow> turn_id (tu_task s' v) = Some r \<Longrightarrow> u = v" for u v r
    using assms(1) u t tu uv by cases (auto simp: turn_simps split: if_splits)
  ultimately show ?thesis unfolding ids_ok_def by blast
qed

lemma pending_ok_step:
  assumes "turn_step t s s'" "ids_ok s" "pending_ok s"
  shows "pending_ok s'"
proof -
  have tu: "turn_id (tu_task s t) = Some r \<Longrightarrow> turn_id (tu_task s u) = Some r \<Longrightarrow> u = t"
    and p: "r \<in> tu_clears s \<Longrightarrow> r \<in> tu_used s" "r \<in> tu_removes s \<Longrightarrow> r \<in> tu_used s" for r u
    using assms(2) unfolding ids_ok_def by blast+
  have pu: "turn_id (tu_task s u) = Some r \<Longrightarrow> before_clear (tu_task s u) \<Longrightarrow> r \<notin> tu_clears s"
    "turn_id (tu_task s u) = Some r \<Longrightarrow> tu_task s u \<noteq> Unregistered r \<Longrightarrow> r \<notin> tu_removes s"
    "turn_id (tu_task s u) = Some r \<Longrightarrow> registered (tu_task s u) \<Longrightarrow> r \<in> tu_inflight s \<or> tu_drained s" for u r
    using assms(3) unfolding pending_ok_def by blast+
  have reg: "registered pc \<Longrightarrow> pc \<noteq> Unregistered r" for pc r by auto
  show ?thesis unfolding pending_ok_def
  proof (intro allI impI)
    fix u r assume id: "turn_id (tu_task s' u) = Some r"
    show "(before_clear (tu_task s' u) \<longrightarrow> r \<notin> tu_clears s') \<and> (tu_task s' u \<noteq> Unregistered r \<longrightarrow> r \<notin> tu_removes s')
      \<and> (registered (tu_task s' u) \<longrightarrow> r \<in> tu_inflight s' \<or> tu_drained s')"
      using assms(1) id
      by cases (use p pu [of u] pu [of t] tu [of r u] reg in \<open>auto simp: turn_simps split: if_splits\<close>)
  qed
qed

lemma active_ok_step:
  assumes "turn_step t s s'" "lock_ok s" "pending_ok s" "active_ok s"
  shows "active_ok s'"
proof -
  have one: "in_turn (tu_task s u) \<Longrightarrow> in_turn (tu_task s v) \<Longrightarrow> u = v" for u v
    using assms(2) unfolding lock_ok_def by (metis option.inject)
  have act: "tu_active s = Some r \<Longrightarrow> r \<in> tu_clears s \<or> (\<exists>v. tu_task s v = Turning r)"
    and pub: "tu_task s u = Turning r \<Longrightarrow> tu_active s = Some r" for r u using assms(4) unfolding active_ok_def by blast+
  have pend: "tu_task s u = Turning r \<Longrightarrow> r \<notin> tu_clears s" for u r 
    using assms(3) unfolding pending_ok_def by (metis before_clear.simps(4) turn_id.simps(4))
  show ?thesis unfolding active_ok_def
  proof (intro conjI allI impI)
    fix r assume r: "tu_active s' = Some r"
    show "r \<in> tu_clears s' \<or> (\<exists>v. tu_task s' v = Turning r)"
    proof (cases "r \<in> tu_clears s \<or> (\<exists>v. v \<noteq> t \<and> tu_task s v = Turning r)")
      case True
      show ?thesis using assms(1) r True by cases (auto simp: turn_simps split: if_splits)
    next
      case False
      then have mine: "tu_active s = Some r \<Longrightarrow> tu_task s t = Turning r" using act [of r] by metis
      show ?thesis using assms(1) r mine by cases (auto simp: turn_simps split: if_splits)
    qed
  next
    fix u r assume u: "tu_task s' u = Turning r"
    have only: "tu_task s u = Turning r \<Longrightarrow> u \<noteq> t \<Longrightarrow> \<not> in_turn (tu_task s t)" using one [of u t] by auto
    show "tu_active s' = Some r"
      using assms(1) u by cases (use pub [of u r] pend [of u r] only in \<open>auto simp: turn_simps split: if_splits\<close>)
  qed
qed

lemma turn_inv_step: "turn_step t s s' \<Longrightarrow> turn_inv s \<Longrightarrow> turn_inv s'"
  unfolding turn_inv_def by (blast intro: lock_ok_step ids_ok_step pending_ok_step active_ok_step)

lemma turn_run_inv: "turn_run turn_new s \<Longrightarrow> turn_inv s"
  unfolding turn_run_def by (induction rule: rtranclp_induct) (auto intro: turn_inv_new turn_inv_step)

text \<open>
  C13. At most one task is in a turn of the session, and it holds the lock. The identifier that a cancel reads is that
  of the turn whose guard is alive, or of one whose guard has been dropped and has left the clearing of the
  identifier to a task that has not run yet. The channel of the turn whose guard is alive is registered, as
  long as the reader has not drained the table at the end of the connection.
\<close>

theorem one_turn_per_session:
  assumes "turn_run turn_new s"
  shows "(\<forall>t u. in_turn (tu_task s t) \<longrightarrow> in_turn (tu_task s u) \<longrightarrow> t = u)
     \<and> (\<forall>t. in_turn (tu_task s t) = (tu_lock s = Some t))
     \<and> (\<forall>r. tu_active s = Some r \<longrightarrow> r \<notin> tu_clears s \<longrightarrow> (\<exists>t. tu_task s t = Turning r))
     \<and> (\<forall>t r. tu_task s t = Turning r \<longrightarrow> tu_active s = Some r \<and> (tu_drained s \<or> r \<in> tu_inflight s))"
proof -
  have inv: "lock_ok s" "pending_ok s" "active_ok s" using turn_run_inv [OF assms] by (simp_all add: turn_inv_def)
  have reg: "tu_drained s \<or> r \<in> tu_inflight s" if "tu_task s t = Turning r" for t r
    using inv(2) [unfolded pending_ok_def, rule_format, of t r] by (auto simp: that)
  have lk: "in_turn (tu_task s t) = (tu_lock s = Some t)" for t using inv(1) unfolding lock_ok_def by blast
  moreover have "in_turn (tu_task s t) \<Longrightarrow> in_turn (tu_task s u) \<Longrightarrow> t = u" for t u using lk by (metis option.inject)
  ultimately show ?thesis using inv(3) reg unfolding active_ok_def by blast
qed

section \<open>What is left behind\<close>

lemma turn_run_step: "turn_step t s s' \<Longrightarrow> turn_run s' s'' \<Longrightarrow> turn_run s s''"
  unfolding turn_run_def by (blast intro: converse_rtranclp_into_rtranclp)

lemma turn_run_refl [simp]: "turn_run s s"
  by (simp add: turn_run_def)

lemma at_task [simp]: "tu_task (at t pc s) t = pc" "tu_task (at t pc s) u = (if u = t then pc else tu_task s u)"
  by (simp_all add: at_def)

definition quiescent :: "turn_state \<Rightarrow> bool" where
  "quiescent s \<longleftrightarrow> (\<forall>t. tu_task s t \<in> {No_turn, Ended_turn}) \<and> tu_lock s = None \<and> tu_clears s = {} \<and> tu_removes s = {}"

lemma turn_starts:
  "\<exists>s. turn_run turn_new s \<and> s = turn_new\<lparr>tu_lock := Some 0, tu_inflight := {7}, tu_active := Some 7, tu_used := {7},
     tu_task := (\<lambda>_. No_turn)(0 := Turning 7)\<rparr>"
proof -
  define a where "a = at 0 (Queued 7) (turn_new\<lparr>tu_used := {7}\<rparr>)"
  define b where "b = at 0 (Locked 7) (a\<lparr>tu_lock := Some 0\<rparr>)"
  define c where "c = at 0 (Registered 7) (b\<lparr>tu_inflight := {7}\<rparr>)"
  define d where "d = at 0 (Turning 7) (c\<lparr>tu_active := Some 7\<rparr>)"
  have "turn_step 0 turn_new a" using turn_step.start [of turn_new 0 7] by (simp add: a_def turn_new_def)
  moreover have "turn_step 0 a b" using turn_step.lock [of a 0 7] by (simp add: b_def) (simp add: a_def at_def turn_new_def)
  moreover have "turn_step 0 b c"
    using turn_step.register [of b 0 7] by (simp add: c_def) (simp add: b_def a_def at_def turn_new_def)
  moreover have "turn_step 0 c d" using turn_step.publish [of c 0 7] by (simp add: d_def) (simp add: c_def)
  ultimately have "turn_run turn_new d" by (meson turn_run_refl turn_run_step)
  then show ?thesis by (simp add: d_def c_def b_def a_def at_def turn_new_def)
qed

text \<open>
  A guard that is dropped while a cancel reads the identifier leaves the clearing for later, but removes the
  channel and releases the lock at once: the identifier then names a turn that nobody waits for.
\<close>

theorem cancel_targets_ended_turn:
  "\<exists>s. turn_run turn_new s \<and> tu_lock s = None \<and> tu_active s = Some 7 \<and> tu_task s 0 = Ended_turn \<and> tu_inflight s = {}
     \<and> (\<exists>s'. turn_run s s' \<and> tu_sent s' = [7])"
proof -
  from turn_starts obtain a where a: "turn_run turn_new a"
    "a = turn_new\<lparr>tu_lock := Some 0, tu_inflight := {7}, tu_active := Some 7, tu_used := {7}, tu_task := (\<lambda>_. No_turn)(0 := Turning 7)\<rparr>"
    by blast
  define b where "b = at 0 (Cleared 7) (a\<lparr>tu_clears := {7}\<rparr>)"
  define c where "c = at 0 (Unregistered 7) (b\<lparr>tu_inflight := {}\<rparr>)"
  define d where "d = at 0 Ended_turn (c\<lparr>tu_lock := None\<rparr>)"
  have "turn_step 0 a b" using turn_step.clear_later [of a 0 7] by (simp add: b_def) (simp add: a(2) turn_new_def)
  moreover have "turn_step 0 b c" using turn_step.unregister [of b 0 7] by (simp add: c_def) (simp add: b_def a(2) at_def turn_new_def)
  moreover have "turn_step 0 c d" using turn_step.unlock [of c 0 7] by (simp add: d_def) (simp add: c_def)
  ultimately have run: "turn_run a d" by (meson turn_run_refl turn_run_step)
  have d: "tu_lock d = None" "tu_active d = Some 7" "tu_task d 0 = Ended_turn" "tu_inflight d = {}" "tu_task d 1 = No_turn" "tu_sent d = []"
    by (simp_all add: d_def c_def b_def a(2) at_def turn_new_def)
  let ?e = "at 1 (Cancelling (Some 7)) d"
  have "turn_step 1 d ?e" using turn_step.cancel [of d 1] d by simp
  moreover have "turn_step 1 ?e (at 1 Ended_turn (?e\<lparr>tu_sent := [7]\<rparr>))"
    using turn_step.send [of ?e 1 7] d(6) by (simp add: at_def)
  ultimately have "turn_run d (at 1 Ended_turn (?e\<lparr>tu_sent := [7]\<rparr>))" by (meson turn_run_refl turn_run_step)
  moreover have "tu_sent (at 1 Ended_turn (?e\<lparr>tu_sent := [7]\<rparr>)) = [7]" by (simp add: at_def)
  moreover have "turn_run turn_new d" using a(1) run unfolding turn_run_def by simp
  ultimately show ?thesis using d by blast
qed

definition abandoned :: "nat \<Rightarrow> turn_state \<Rightarrow> bool" where
  "abandoned r s \<longleftrightarrow> (tu_drained s \<or> r \<in> tu_inflight s) \<and> r \<in> tu_used s \<and> r \<notin> tu_removes s \<and> (\<forall>u. turn_id (tu_task s u) \<noteq> Some r)"

lemma abandoned_step:
  assumes "turn_step t s s'" "abandoned r s"
  shows "abandoned r s'"
proof -
  have a: "tu_drained s \<or> r \<in> tu_inflight s" "r \<in> tu_used s" "r \<notin> tu_removes s" "turn_id (tu_task s t) \<noteq> Some r"
    and u: "turn_id (tu_task s u) \<noteq> Some r" for u using assms(2) unfolding abandoned_def by blast+
  have "tu_drained s' \<or> r \<in> tu_inflight s'" using assms(1) a(1,3,4) by cases (auto simp: turn_simps split: if_splits)
  moreover have "r \<in> tu_used s'" using assms(1) a(2) by cases (auto simp: turn_simps split: if_splits)
  moreover have "r \<notin> tu_removes s'" using assms(1) a(3,4) by cases (auto simp: turn_simps split: if_splits)
  moreover have "turn_id (tu_task s' u) \<noteq> Some r" for u
    using assms(1) u [of u] a(2,4) by cases (auto simp: turn_simps split: if_splits)
  ultimately show ?thesis unfolding abandoned_def by blast
qed

lemma abandoned_run: "turn_run s s' \<Longrightarrow> abandoned r s \<Longrightarrow> abandoned r s'"
  unfolding turn_run_def by (induction rule: rtranclp_induct) (blast intro: abandoned_step)+

lemma dropped_registration:
  assumes "turn_run turn_new s" "tu_task s t = Registered r" "turn_step t s s1" "tu_task s1 t = Ended_turn"
  shows "abandoned r s1"
proof -
  have inv: "ids_ok s" "pending_ok s" using turn_run_inv [OF assms(1)] by (simp_all add: turn_inv_def)
  have s1: "s1 = at t Ended_turn (s\<lparr>tu_lock := None\<rparr>)"
    using assms(3,2,4) by cases (auto simp: turn_simps split: if_splits)
  have id: "turn_id (tu_task s t) = Some r" by (simp add: assms(2))
  then have "r \<in> tu_used s" "turn_id (tu_task s u) = Some r \<Longrightarrow> u = t" for u using inv(1) unfolding ids_ok_def by blast+
  moreover have "r \<notin> tu_removes s" "tu_drained s \<or> r \<in> tu_inflight s" 
    using inv(2) [unfolded pending_ok_def, rule_format, OF id] by (auto simp: assms(2))
  ultimately show ?thesis by (auto simp: s1 abandoned_def at_def)
qed

lemma turn_registers:
  "\<exists>s. turn_run turn_new s \<and> tu_task s = (\<lambda>_. No_turn)(0 := Registered 7) \<and> tu_clears s = {} \<and> tu_removes s = {} \<and> \<not> tu_drained s"
proof -
  define a where "a = at 0 (Queued 7) (turn_new\<lparr>tu_used := {7}\<rparr>)"
  define b where "b = at 0 (Locked 7) (a\<lparr>tu_lock := Some 0\<rparr>)"
  define c where "c = at 0 (Registered 7) (b\<lparr>tu_inflight := {7}\<rparr>)"
  have "turn_step 0 turn_new a" using turn_step.start [of turn_new 0 7] by (simp add: a_def turn_new_def)
  moreover have "turn_step 0 a b" using turn_step.lock [of a 0 7] by (simp add: b_def) (simp add: a_def at_def turn_new_def)
  moreover have "turn_step 0 b c"
    using turn_step.register [of b 0 7] by (simp add: c_def) (simp add: b_def a_def at_def turn_new_def)
  ultimately have "turn_run turn_new c" by (meson turn_run_refl turn_run_step)
  moreover have "tu_task c = (\<lambda>_. No_turn)(0 := Registered 7) \<and> tu_clears c = {} \<and> tu_removes c = {} \<and> \<not> tu_drained c"
    by (auto simp: c_def b_def a_def at_def turn_new_def)
  ultimately show ?thesis by blast
qed

text \<open>
  C38. A future that is dropped while it waits to publish its identifier has registered a channel and has no guard
  yet: whatever all tasks do afterwards, no task owns the channel, and it stays registered until the reader
  drains the table at the end of the connection.
\<close>

theorem abandoned_registration_leaks:
  assumes "turn_run turn_new s" "tu_task s t = Registered r" "turn_step t s s1" "tu_task s1 t = Ended_turn"
    and "turn_run s1 s'"
  shows "(\<forall>u. turn_id (tu_task s' u) \<noteq> Some r) \<and> (tu_drained s' \<or> r \<in> tu_inflight s')"
  using abandoned_run [OF assms(5) dropped_registration [OF assms(1-4)]] by (simp add: abandoned_def)

section \<open>Witnesses\<close>

theorem one_turn_per_session_witness:
  "\<exists>s. turn_run turn_new s \<and> tu_active s = Some 7 \<and> (\<exists>t. tu_task s t = Turning 7 \<and> 7 \<in> tu_inflight s)"
proof -
  from turn_starts obtain s where s: "turn_run turn_new s" "tu_active s = Some 7" "tu_clears s = {}" "\<not> tu_drained s"
    by (auto simp: turn_new_def)
  note one = one_turn_per_session [OF s(1), THEN conjunct2, THEN conjunct2]
  obtain t where t: "tu_task s t = Turning 7" using one s(2,3) by blast
  then have "7 \<in> tu_inflight s" using one s(4) by blast
  then show ?thesis using s(1,2) t by blast
qed

theorem abandoned_registration_leaks_witness:
  "\<exists>s. turn_run turn_new s \<and> quiescent s \<and> \<not> tu_drained s \<and> 7 \<in> tu_inflight s"
proof -
  obtain s where s: "turn_run turn_new s" "tu_task s = (\<lambda>_. No_turn)(0 := Registered 7)" "tu_clears s = {}" "tu_removes s = {}" "\<not> tu_drained s"
    using turn_registers by blast
  define s1 where "s1 = at 0 Ended_turn (s\<lparr>tu_lock := None\<rparr>)"
  have step: "turn_step 0 s s1" using turn_step.drop_registered [of s 0 7] by (simp add: s1_def s(2))
  then have "turn_run turn_new s1" using s(1) unfolding turn_run_def by (blast intro: rtranclp.rtrancl_into_rtrancl)
  moreover have d: "\<not> tu_drained s1" by (simp add: s1_def s(5) at_def)
  moreover have reg: "tu_task s 0 = Registered 7" by (simp add: s(2))
  moreover have ended: "tu_task s1 0 = Ended_turn" by (simp add: s1_def)
  moreover have "7 \<in> tu_inflight s1"
    using abandoned_registration_leaks [OF s(1) reg step ended turn_run_refl] d by blast
  moreover have "quiescent s1" by (simp add: quiescent_def s1_def s(2-4) at_def)
  ultimately show ?thesis by blast
qed

end
