(* ===== verification/Zeroboot_Locks.thy ===== *)
theory Zeroboot_Locks
  imports Rfb_Utf8
begin

text \<open>
  Ownership of the work and checkpoint directories of the ZeroBoot provider, \<^verbatim>\<open>rfb/src/zeroboot/provider.rs\<close>: creators
  take a lock file with \<^verbatim>\<open>create_owned_lock\<close> and hold it for as long as they live, and \<^verbatim>\<open>scavenge_stale_in\<close> removes
  directories whose lock it can take. Every system call of both is a step of its own, and any number of
  tasks interleave and die.

  A directory is its files, each with an inode; a lock of \<^verbatim>\<open>flock\<close> belongs to an inode and to the open file that
  took it, here to the task, and goes with it. A task is one call of a creator or of the scavenger; the death of a
  process is the death of its tasks. Entries of a directory other than lock files do not matter.
\<close>

section \<open>Names and markers\<close>

definition WORK_LOCK :: string where "WORK_LOCK = ''work.lock''"
definition WORK_PREFIX :: string where "WORK_PREFIX = ''rfb-zeroboot-''"
definition FORK_LOCK :: string where "FORK_LOCK = ''fork.lock''"
definition FORK_PREFIX :: string where "FORK_PREFIX = ''fork-''"

definition work_marker :: bytes where "work_marker = as_bytes (''rfb-work-lock'' @ [CHR 0x0A])"
definition fork_marker :: bytes where "fork_marker = as_bytes (''rfb-fork-lock'' @ [CHR 0x0A])"

text \<open>The temporary name of a lock file, from the process and a counter.\<close>

definition temp_name :: "string \<Rightarrow> nat \<Rightarrow> nat \<Rightarrow> string" where
  "temp_name lock pid seq = lock @ ''.tmp-'' @ dec_string pid @ ''-'' @ dec_string seq"

definition fork_dir_name :: "nat \<Rightarrow> nat \<Rightarrow> string" where
  "fork_dir_name pid index = FORK_PREFIX @ dec_string pid @ ''-'' @ dec_string index"

text \<open>The content of a lock file that makes the scavenger leave its directory alone.\<close>

definition foreign_content :: "bytes \<Rightarrow> bool" where
  "foreign_content content \<longleftrightarrow>
     (case from_utf8 content of
        None \<Rightarrow> False
      | Some magic \<Rightarrow> magic \<noteq> [] \<and> \<not> starts_with magic ''rfb-work-lock'' \<and> \<not> starts_with magic ''rfb-fork-lock'')"

section \<open>Steps\<close>

text \<open>
  Where a task stands. A creator has made its directory; created the temporary file; locked it; marked it; seen
  that there is no lock file; renamed the file, and owns the directory; or it cleans up: after an error with
  the file open, with the temporary file still there, with the directory still there, or, its directory
  removed, with the lock held. The scavenger has a list of names to go; is about to open the lock file of a
  directory; has opened it; has accepted its content; or has locked it and removes the directory.
\<close>

datatype lock_pc =
    Idle
  | Made string
  | Temp string string nat
  | Held string string nat
  | Marked string string nat
  | Checked string string nat
  | Owner string nat
  | Errored string string nat
  | Untemp string string
  | Abandon string
  | Dropping nat
  | Scan "string list"
  | Probe string "string list"
  | Peek string nat "string list"
  | Try string nat "string list"
  | Wipe string nat "string list"
  | Finished

record lock_world =
  lw_dirs :: "string \<rightharpoonup> (string \<rightharpoonup> nat)"
  lw_content :: "nat \<Rightarrow> bytes"
  lw_holder :: "nat \<Rightarrow> nat option"
  lw_next :: nat
  lw_used :: "string set"
  lw_task :: "nat \<Rightarrow> lock_pc"

definition go :: "nat \<Rightarrow> lock_pc \<Rightarrow> lock_world \<Rightarrow> lock_world" where
  "go t pc w = w\<lparr>lw_task := (lw_task w)(t := pc)\<rparr>"

definition set_dir :: "string \<Rightarrow> (string \<rightharpoonup> nat) option \<Rightarrow> lock_world \<Rightarrow> lock_world" where
  "set_dir d es w = w\<lparr>lw_dirs := (lw_dirs w)(d := es)\<rparr>"

definition take_lock :: "nat \<Rightarrow> nat \<Rightarrow> lock_world \<Rightarrow> lock_world" where
  "take_lock t i w = w\<lparr>lw_holder := (lw_holder w)(i := Some t)\<rparr>"

text \<open>Closing a file gives up its lock, if it has one; a death closes all files.\<close>

definition close_file :: "nat \<Rightarrow> nat \<Rightarrow> lock_world \<Rightarrow> lock_world" where
  "close_file t i w = (if lw_holder w i = Some t then w\<lparr>lw_holder := (lw_holder w)(i := None)\<rparr> else w)"

definition close_all :: "nat \<Rightarrow> lock_world \<Rightarrow> lock_world" where
  "close_all t w = w\<lparr>lw_holder := (\<lambda>i. if lw_holder w i = Some t then None else lw_holder w i)\<rparr>"

text \<open>\<^verbatim>\<open>path.exists()\<close> for the lock file of a directory.\<close>

definition lock_file :: "string \<Rightarrow> string \<Rightarrow> lock_world \<Rightarrow> nat option" where
  "lock_file lock d w = Option.bind (lw_dirs w d) (\<lambda>es. es lock)"

definition new_entry :: "string \<Rightarrow> string \<Rightarrow> (string \<rightharpoonup> nat) \<Rightarrow> lock_world \<Rightarrow> lock_world" where
  "new_entry d n es w =
     (set_dir d (Some (es(n \<mapsto> lw_next w))) w)
       \<lparr>lw_content := (lw_content w)(lw_next w := []), lw_next := Suc (lw_next w)\<rparr>"

text \<open>
  \<open>lock\<close> and \<open>pre\<close> are the lock name and the name prefix of the directories. \<open>reuse\<close> says whether a creator may come
  up with a name that has been used before; \<^verbatim>\<open>create_dir_all\<close> then keeps what is there. Errors of system calls
  are steps that may happen at any time.
\<close>

inductive lock_step :: "bool \<Rightarrow> string \<Rightarrow> string \<Rightarrow> nat \<Rightarrow> lock_world \<Rightarrow> lock_world \<Rightarrow> bool"
  for reuse :: bool and lock pre :: string and t :: nat where
  make: "lw_task w t = Idle \<Longrightarrow> reuse \<or> d \<notin> lw_used w \<Longrightarrow>
     lock_step reuse lock pre t w (go t (Made d)
       ((set_dir d (Some (case lw_dirs w d of Some es \<Rightarrow> es | None \<Rightarrow> Map.empty)) w)\<lparr>lw_used := insert d (lw_used w)\<rparr>))"
| create_temp: "lw_task w t = Made d \<Longrightarrow> lw_dirs w d = Some es \<Longrightarrow> n = temp_name lock pid seq \<Longrightarrow> es n = None \<Longrightarrow>
     lock_step reuse lock pre t w (go t (Temp d n (lw_next w)) (new_entry d n es w))"
| create_fails: "lw_task w t = Made d \<Longrightarrow> lock_step reuse lock pre t w (go t (Abandon d) w)"
| lock_temp: "lw_task w t = Temp d n i \<Longrightarrow> lw_holder w i = None \<Longrightarrow>
     lock_step reuse lock pre t w (go t (Held d n i) (take_lock t i w))"
| lock_fails: "lw_task w t = Temp d n i \<Longrightarrow> lock_step reuse lock pre t w (go t (Errored d n i) w)"
| mark: "lw_task w t = Held d n i \<Longrightarrow> marker \<in> {work_marker, fork_marker} \<Longrightarrow>
     lock_step reuse lock pre t w (go t (Marked d n i) (w\<lparr>lw_content := (lw_content w)(i := take k marker)\<rparr>))"
| check: "lw_task w t = Marked d n i \<Longrightarrow>
     lock_step reuse lock pre t w (go t (if lock_file lock d w = None then Checked d n i else Errored d n i) w)"
| rename: "lw_task w t = Checked d n i \<Longrightarrow> lw_dirs w d = Some es \<Longrightarrow> es n = Some j \<Longrightarrow>
     lock_step reuse lock pre t w (go t (Owner d i) (set_dir d (Some ((es(n := None))(lock \<mapsto> j))) w))"
| rename_fails: "lw_task w t = Checked d n i \<Longrightarrow> lock_step reuse lock pre t w (go t (Errored d n i) w)"
| close_temp: "lw_task w t = Errored d n i \<Longrightarrow> lock_step reuse lock pre t w (go t (Untemp d n) (close_file t i w))"
| remove_temp: "lw_task w t = Untemp d n \<Longrightarrow>
     lock_step reuse lock pre t w (go t (Abandon d) (set_dir d (map_option (\<lambda>es. es(n := None)) (lw_dirs w d)) w))"
| abandon: "lw_task w t = Abandon d \<Longrightarrow> lock_step reuse lock pre t w (go t Finished (set_dir d None w))"
| drop_dir: "lw_task w t = Owner d i \<Longrightarrow> lock_step reuse lock pre t w (go t (Dropping i) (set_dir d None w))"
| drop_lock: "lw_task w t = Dropping i \<Longrightarrow> lock_step reuse lock pre t w (go t Finished (close_file t i w))"
| list_names: "lw_task w t = Idle \<Longrightarrow> lock_step reuse lock pre t w (go t (Scan ds) w)"
| visit: "lw_task w t = Scan (d # ds) \<Longrightarrow> lw_dirs w d = Some es \<Longrightarrow> starts_with d pre \<Longrightarrow>
     lock_step reuse lock pre t w (go t (Probe d ds) w)"
| pass: "lw_task w t = Scan (d # ds) \<Longrightarrow> lw_dirs w d = None \<or> \<not> starts_with d pre \<Longrightarrow>
     lock_step reuse lock pre t w (go t (Scan ds) w)"
| listed: "lw_task w t = Scan [] \<Longrightarrow> lock_step reuse lock pre t w (go t Finished w)"
| open_lock: "lw_task w t = Probe d ds \<Longrightarrow> lock_file lock d w = Some i \<Longrightarrow> lock_step reuse lock pre t w (go t (Peek d i ds) w)"
| open_fails: "lw_task w t = Probe d ds \<Longrightarrow> lock_step reuse lock pre t w (go t (Scan ds) w)"
| read_ours: "lw_task w t = Peek d i ds \<Longrightarrow> \<not> foreign_content (lw_content w i) \<Longrightarrow>
     lock_step reuse lock pre t w (go t (Try d i ds) w)"
| read_foreign: "lw_task w t = Peek d i ds \<Longrightarrow> foreign_content (lw_content w i) \<Longrightarrow>
     lock_step reuse lock pre t w (go t (Scan ds) w)"
| take_it: "lw_task w t = Try d i ds \<Longrightarrow> lw_holder w i = None \<Longrightarrow>
     lock_step reuse lock pre t w (go t (Wipe d i ds) (take_lock t i w))"
| leave_it: "lw_task w t = Try d i ds \<Longrightarrow> lock_step reuse lock pre t w (go t (Scan ds) w)"
| wipe: "lw_task w t = Wipe d i ds \<Longrightarrow>
     lock_step reuse lock pre t w (go t (Scan ds) (close_file t i (set_dir d None w)))"
| wipe_fails: "lw_task w t = Wipe d i ds \<Longrightarrow> lw_dirs w d = Some es \<Longrightarrow>
     lock_step reuse lock pre t w (go t (Scan ds) (close_file t i (set_dir d (Some (es |` kept)) w)))"
| die: "lw_task w t \<noteq> Idle \<Longrightarrow> lock_step reuse lock pre t w (go t Finished (close_all t w))"

text \<open>At the start there may be directories left behind by earlier processes, with any lock files.\<close>

definition lock_start :: "lock_world \<Rightarrow> bool" where
  "lock_start w \<longleftrightarrow> lw_task w = (\<lambda>_. Idle) \<and> lw_holder w = (\<lambda>_. None) \<and> lw_used w = dom (lw_dirs w)
     \<and> (\<forall>d es n i. lw_dirs w d = Some es \<longrightarrow> es n = Some i \<longrightarrow> i < lw_next w)"

section \<open>Directories of live owners\<close>

text \<open>The directory a creator has made and not begun to remove.\<close>

fun owned_dir :: "lock_pc \<Rightarrow> string option" where
  "owned_dir (Made d) = Some d"
| "owned_dir (Temp d n i) = Some d"
| "owned_dir (Held d n i) = Some d"
| "owned_dir (Marked d n i) = Some d"
| "owned_dir (Checked d n i) = Some d"
| "owned_dir (Owner d i) = Some d"
| "owned_dir (Errored d n i) = Some d"
| "owned_dir (Untemp d n) = Some d"
| "owned_dir (Abandon d) = Some d"
| "owned_dir _ = None"

definition only_owner :: "lock_world \<Rightarrow> string \<Rightarrow> nat \<Rightarrow> bool" where
  "only_owner w d i \<longleftrightarrow> d \<in> lw_used w \<and> (\<forall>u. owned_dir (lw_task w u) = Some d \<longrightarrow> lw_task w u = Owner d i)"

fun lock_pc_ok :: "string \<Rightarrow> lock_world \<Rightarrow> nat \<Rightarrow> lock_pc \<Rightarrow> bool" where
  "lock_pc_ok lock w t (Made d) = (\<exists>es. lw_dirs w d = Some es \<and> es lock = None)"
| "lock_pc_ok lock w t (Temp d n i) = (n \<noteq> lock \<and> (\<exists>es. lw_dirs w d = Some es \<and> es lock = None \<and> es n = Some i))"
| "lock_pc_ok lock w t (Held d n i) = (n \<noteq> lock \<and> lw_holder w i = Some t \<and> (\<exists>es. lw_dirs w d = Some es \<and> es lock = None \<and> es n = Some i))"
| "lock_pc_ok lock w t (Marked d n i) = (n \<noteq> lock \<and> lw_holder w i = Some t \<and> (\<exists>es. lw_dirs w d = Some es \<and> es lock = None \<and> es n = Some i))"
| "lock_pc_ok lock w t (Checked d n i) = (n \<noteq> lock \<and> lw_holder w i = Some t \<and> (\<exists>es. lw_dirs w d = Some es \<and> es lock = None \<and> es n = Some i))"
| "lock_pc_ok lock w t (Owner d i) = (lw_holder w i = Some t \<and> (\<exists>es. lw_dirs w d = Some es \<and> es lock = Some i))"
| "lock_pc_ok lock w t (Errored d n i) = (n \<noteq> lock \<and> (\<exists>es. lw_dirs w d = Some es \<and> es lock = None \<and> es n = Some i))"
| "lock_pc_ok lock w t (Untemp d n) = (\<exists>es. lw_dirs w d = Some es \<and> es lock = None)"
| "lock_pc_ok lock w t (Abandon d) = (\<exists>es. lw_dirs w d = Some es \<and> es lock = None)"
| "lock_pc_ok lock w t (Peek d i ds) = only_owner w d i"
| "lock_pc_ok lock w t (Try d i ds) = only_owner w d i"
| "lock_pc_ok lock w t (Wipe d i ds) = (lw_holder w i = Some t \<and> only_owner w d i)"
| "lock_pc_ok lock w t _ = True"

definition lock_inv :: "string \<Rightarrow> lock_world \<Rightarrow> bool" where
  "lock_inv lock w \<longleftrightarrow>
     (\<forall>t. lock_pc_ok lock w t (lw_task w t))
   \<and> (\<forall>t u d. owned_dir (lw_task w t) = Some d \<longrightarrow> owned_dir (lw_task w u) = Some d \<longrightarrow> t = u)
   \<and> dom (lw_dirs w) \<subseteq> lw_used w"

lemma temp_name_other [simp]: "temp_name lock pid seq \<noteq> lock" "lock \<noteq> temp_name lock pid seq"
  by (simp_all add: temp_name_def)

lemmas world_simps = go_def set_dir_def take_lock_def close_file_def close_all_def new_entry_def lock_file_def

lemma owned_dir_exists: "lock_inv lock w \<Longrightarrow> owned_dir (lw_task w t) = Some d \<Longrightarrow> \<exists>es. lw_dirs w d = Some es \<and> d \<in> lw_used w"
  unfolding lock_inv_def by (cases "lw_task w t") (force dest!: spec [where x = t])+

text \<open>What a step of one task must leave alone for the other tasks to be right where they are.\<close>

definition undisturbed :: "nat \<Rightarrow> lock_world \<Rightarrow> lock_world \<Rightarrow> bool" where
  "undisturbed t w w' \<longleftrightarrow>
     (\<forall>u. u \<noteq> t \<longrightarrow> lw_task w' u = lw_task w u)
   \<and> (\<forall>u d. u \<noteq> t \<longrightarrow> owned_dir (lw_task w u) = Some d \<longrightarrow> lw_dirs w' d = lw_dirs w d)
   \<and> (\<forall>u i. u \<noteq> t \<longrightarrow> lw_holder w i = Some u \<longrightarrow> lw_holder w' i = Some u)
   \<and> lw_used w \<subseteq> lw_used w'
   \<and> (\<forall>d i. owned_dir (lw_task w' t) = Some d \<longrightarrow> d \<in> lw_used w \<longrightarrow>
        owned_dir (lw_task w t) = Some d \<and> (lw_task w t = Owner d i \<longrightarrow> lw_task w' t = Owner d i))"

lemma undisturbed_ok:
  assumes "undisturbed t w w'" "lock_pc_ok lock w u pc" "pc = lw_task w u" "u \<noteq> t"
  shows "lock_pc_ok lock w' u pc"
proof -
  have o: "only_owner w d i \<Longrightarrow> only_owner w' d i" for d i
    using assms(1) unfolding only_owner_def undisturbed_def by (metis subsetD)
  have d: "owned_dir pc = Some d \<Longrightarrow> lw_dirs w' d = lw_dirs w d" for d
    using assms(1,3,4) unfolding undisturbed_def by blast
  have h: "lw_holder w i = Some u \<Longrightarrow> lw_holder w' i = Some u" for i
    using assms(1,4) unfolding undisturbed_def by blast
  show ?thesis using assms(2) d h o by (cases pc) auto
qed


lemma lock_inv_step:
  assumes "lock_inv lock w" "undisturbed t w w'" "lock_pc_ok lock w' t (lw_task w' t)"
    "\<And>d. owned_dir (lw_task w' t) = Some d \<Longrightarrow> owned_dir (lw_task w t) = Some d \<or> d \<notin> lw_used w"
    "dom (lw_dirs w') \<subseteq> lw_used w'"
  shows "lock_inv lock w'"
proof -
  have same: "lw_task w' u = lw_task w u" if "u \<noteq> t" for u using assms(2) that unfolding undisturbed_def by blast
  have "lock_pc_ok lock w' u (lw_task w' u)" for u
    using assms(1,3) undisturbed_ok [OF assms(2)] same unfolding lock_inv_def by (cases "u = t") auto
  moreover have "u = v" if "owned_dir (lw_task w' u) = Some d" "owned_dir (lw_task w' v) = Some d" for u v d
    using that assms(1,4) same owned_dir_exists [OF assms(1)] unfolding lock_inv_def by (metis (no_types))
  ultimately show ?thesis using assms(5) unfolding lock_inv_def by blast
qed

lemma lock_step_facts:
  assumes "lock_step False lock pre t w w'" "lock_inv lock w"
  shows step_undisturbed: "undisturbed t w w'"
    and step_pc_ok: "lock_pc_ok lock w' t (lw_task w' t)"
    and step_owned: "owned_dir (lw_task w' t) = Some d \<Longrightarrow> owned_dir (lw_task w t) = Some d \<or> d \<notin> lw_used w"
    and step_dom: "dom (lw_dirs w') \<subseteq> lw_used w'"
proof -
  have ok: "lock_pc_ok lock w t (lw_task w t)" using assms(2) by (simp add: lock_inv_def)
  have one: "owned_dir (lw_task w t) = Some d \<Longrightarrow> owned_dir (lw_task w u) = Some d \<Longrightarrow> t = u" for u d
    using assms(2) unfolding lock_inv_def by blast
  have used: "dom (lw_dirs w) \<subseteq> lw_used w" using assms(2) by (simp add: lock_inv_def)
  note ex = owned_dir_exists [OF assms(2)]
  have held: "lw_task w u = Owner d i \<Longrightarrow> lw_holder w i = Some u" for u d i
    using assms(2) unfolding lock_inv_def by (metis lock_pc_ok.simps(6))
  have fresh: "d \<notin> lw_used w \<Longrightarrow> lw_dirs w d = None" for d using used by auto
  have found: "only_owner w d i" if "lock_file lock d w = Some i" for d i
  proof -
    obtain es where es: "lw_dirs w d = Some es" "es lock = Some i" using \<open>lock_file lock d w = Some i\<close>
      by (auto simp: lock_file_def bind_eq_Some_conv)
    have "lw_task w u = Owner d i" if "owned_dir (lw_task w u) = Some d" for u
      using that es assms(2) unfolding lock_inv_def by (cases "lw_task w u") (force dest!: spec [where x = u])+
    then show ?thesis using es used by (auto simp: only_owner_def)
  qed
  show "dom (lw_dirs w') \<subseteq> lw_used w'" using assms(1) used ok by cases (auto simp: world_simps split: if_splits)
  show "owned_dir (lw_task w' t) = Some d \<Longrightarrow> owned_dir (lw_task w t) = Some d \<or> d \<notin> lw_used w"
    using assms(1) by cases (auto simp: world_simps split: if_splits)
  show "undisturbed t w w'" using assms(1) used ok one ex held
    by cases (auto simp: world_simps undisturbed_def only_owner_def split: if_splits)
  show "lock_pc_ok lock w' t (lw_task w' t)" using assms(1) ok one ex held
    by cases (use fresh found in \<open>auto simp: world_simps only_owner_def split: if_splits\<close>)
qed


lemma lock_inv_preserved:
  assumes "lock_step False lock pre t w w'" "lock_inv lock w"
  shows "lock_inv lock w'"
  using lock_inv_step [OF assms(2) lock_step_facts(1,2) [OF assms]] lock_step_facts(3,4) [OF assms] by blast

lemma lock_inv_start: "lock_start w \<Longrightarrow> lock_inv lock w"
  by (auto simp: lock_start_def lock_inv_def)

definition lock_run :: "bool \<Rightarrow> string \<Rightarrow> string \<Rightarrow> lock_world \<Rightarrow> lock_world \<Rightarrow> bool" where
  "lock_run reuse lock pre = (\<lambda>w w'. \<exists>t. lock_step reuse lock pre t w w')\<^sup>*\<^sup>*"

lemma lock_run_inv: "lock_run False lock pre w w' \<Longrightarrow> lock_start w \<Longrightarrow> lock_inv lock w'"
  unfolding lock_run_def by (induction rule: rtranclp_induct) (auto intro: lock_inv_start lock_inv_preserved)

text \<open>
  C11. In every interleaving of creations, drops, deaths and scavengers, and whatever was left behind before, the
  directory of a live owner exists, contains its lock file, and the owner holds the lock; what a creator has
  made is there until it removes it itself. So long as no name is used twice.
\<close>

theorem live_directory_kept:
  assumes "lock_start w" "lock_run False lock pre w w'" "owned_dir (lw_task w' t) = Some d"
  shows "\<exists>es. lw_dirs w' d = Some es \<and> (\<forall>i. lw_task w' t = Owner d i \<longrightarrow> es lock = Some i \<and> lw_holder w' i = Some t)
     \<and> (\<forall>u. owned_dir (lw_task w' u) = Some d \<longrightarrow> u = t)"
proof -
  note inv = lock_run_inv [OF assms(2,1)]
  from owned_dir_exists [OF inv assms(3)] obtain es where "lw_dirs w' d = Some es" by blast
  moreover have "lock_pc_ok lock w' t (lw_task w' t)" using inv by (simp add: lock_inv_def)
  moreover have "owned_dir (lw_task w' u) = Some d \<Longrightarrow> u = t" for u using inv assms(3) unfolding lock_inv_def by blast
  ultimately show ?thesis by auto
qed


section \<open>Directories of dead owners\<close>

lemma lock_run_refl [simp]: "lock_run reuse lock pre w w"
  by (simp add: lock_run_def)

lemma lock_run_step: "lock_step reuse lock pre t w w' \<Longrightarrow> lock_run reuse lock pre w' w'' \<Longrightarrow> lock_run reuse lock pre w w''"
  unfolding lock_run_def by (blast intro: converse_rtranclp_into_rtranclp)

lemma lock_run_trans: "lock_run reuse lock pre w w' \<Longrightarrow> lock_run reuse lock pre w' w'' \<Longrightarrow> lock_run reuse lock pre w w''"
  by (simp add: lock_run_def)

lemma go_task [simp]: "lw_task (go t pc w) t = pc" "lw_dirs (go t pc w) = lw_dirs w" "lw_holder (go t pc w) = lw_holder w"
  "lw_content (go t pc w) = lw_content w" "go t pc (go t pc' w) = go t pc w"
  by (simp_all add: go_def)

text \<open>Whether a directory is one the scavenger may take: its name, its lock file, what is in it, and that it is not locked.\<close>

definition reclaimable :: "string \<Rightarrow> string \<Rightarrow> lock_world \<Rightarrow> string \<Rightarrow> bool" where
  "reclaimable lock pre w d \<longleftrightarrow> starts_with d pre
     \<and> (case lock_file lock d w of Some i \<Rightarrow> \<not> foreign_content (lw_content w i) \<and> lw_holder w i = None | None \<Rightarrow> False)"

lemma scan_one:
  assumes "lw_task w t = Scan (d # ds)" "reclaimable lock pre w d"
  shows "lock_run reuse lock pre w (go t (Scan ds) (set_dir d None w))"
proof -
  obtain i es where i: "lw_dirs w d = Some es" "es lock = Some i" "\<not> foreign_content (lw_content w i)" "lw_holder w i = None"
    and p: "starts_with d pre"
    using assms(2) by (auto simp: reclaimable_def lock_file_def bind_eq_Some_conv split: option.splits)
  let ?w = "take_lock t i w"
  have "lock_step reuse lock pre t w (go t (Probe d ds) w)"
    using lock_step.visit [OF assms(1) i(1) p] .
  moreover have "lock_step reuse lock pre t (go t (Probe d ds) w) (go t (Peek d i ds) w)"
    using lock_step.open_lock [of "go t (Probe d ds) w" t d ds lock i] i(1,2) by (simp add: lock_file_def)
  moreover have "lock_step reuse lock pre t (go t (Peek d i ds) w) (go t (Try d i ds) w)"
    using lock_step.read_ours [of "go t (Peek d i ds) w" t d i ds] i(3) by simp
  moreover have "lock_step reuse lock pre t (go t (Try d i ds) w) (go t (Wipe d i ds) ?w)"
    using lock_step.take_it [of "go t (Try d i ds) w" t d i ds] i(4) by (simp add: take_lock_def go_def)
  moreover have "lock_step reuse lock pre t (go t (Wipe d i ds) ?w) (go t (Scan ds) (set_dir d None w))"
  proof -
    have "go t (Scan ds) (close_file t i (set_dir d None (go t (Wipe d i ds) ?w))) = go t (Scan ds) (set_dir d None w)"
      using i(4) by (auto simp: world_simps fun_upd_idem)
    then show ?thesis using lock_step.wipe [of "go t (Wipe d i ds) ?w" t d i ds] by (metis go_task(1))
  qed
  ultimately show ?thesis by (meson lock_run_refl lock_run_step)
qed

lemma scan_skip:
  assumes "lw_task w t = Scan (d # ds)"
  shows "lock_run reuse lock pre w (go t (Scan ds) w)"
proof (cases "\<exists>es. lw_dirs w d = Some es \<and> starts_with d pre")
  case True
  then have "lock_step reuse lock pre t w (go t (Probe d ds) w)" using lock_step.visit [OF assms] by blast
  moreover have "lock_step reuse lock pre t (go t (Probe d ds) w) (go t (Scan ds) w)"
    using lock_step.open_fails [of "go t (Probe d ds) w" t d ds] by simp
  ultimately show ?thesis by (meson lock_run_refl lock_run_step)
next
  case False
  then have "lock_step reuse lock pre t w (go t (Scan ds) w)" using lock_step.pass [OF assms] by (meson not_None_eq)
  then show ?thesis by (meson lock_run_refl lock_run_step)
qed

fun reclaimed :: "string \<Rightarrow> string \<Rightarrow> string list \<Rightarrow> lock_world \<Rightarrow> lock_world" where
  "reclaimed lock pre [] w = w"
| "reclaimed lock pre (d # ds) w = reclaimed lock pre ds (if reclaimable lock pre w d then set_dir d None w else w)"

lemma reclaimable_set_dir: "reclaimable lock pre (set_dir a None w) d \<longleftrightarrow> d \<noteq> a \<and> reclaimable lock pre w d"
  by (auto simp: reclaimable_def lock_file_def set_dir_def split: option.splits)

lemma reclaimed_dirs:
  "lw_dirs (reclaimed lock pre ds w) d = (if d \<in> set ds \<and> reclaimable lock pre w d then None else lw_dirs w d)"
  by (induction ds arbitrary: w) (auto simp: reclaimable_set_dir, auto simp: set_dir_def)

lemma reclaimed_go: "reclaimed lock pre ds (go t pc w) = go t pc (reclaimed lock pre ds w)"
proof (induction ds arbitrary: w)
  case (Cons d ds)
  have "reclaimable lock pre (go t pc w) d = reclaimable lock pre w d"
    by (simp add: reclaimable_def lock_file_def split: option.splits)
  moreover have "set_dir d None (go t pc w) = go t pc (set_dir d None w)" by (simp add: set_dir_def go_def)
  ultimately show ?case using Cons by simp
qed simp

lemma scan_all: "lw_task w t = Scan ds \<Longrightarrow> lock_run reuse lock pre w (go t (Scan []) (reclaimed lock pre ds w))"
proof (induction ds arbitrary: w)
  case Nil
  then have "go t (Scan []) w = w" by (simp add: go_def fun_upd_idem)
  then show ?case by simp
next
  case (Cons d ds)
  let ?w = "if reclaimable lock pre w d then set_dir d None w else w"
  have "lock_run reuse lock pre w (go t (Scan ds) ?w)" using scan_one [OF Cons.prems] scan_skip [OF Cons.prems] by simp
  moreover have "lock_run reuse lock pre (go t (Scan ds) ?w) (go t (Scan []) (reclaimed lock pre ds (go t (Scan ds) ?w)))"
    by (rule Cons.IH) simp
  ultimately show ?case unfolding lock_run_def reclaimed_go by (metis go_task(5) reclaimed.simps(2) rtranclp_trans)
qed

text \<open>What a scavenger does that nobody disturbs and whose calls succeed, in any state.\<close>

theorem dead_directories_reclaimed:
  assumes "lw_task w t = Idle"
  shows "\<exists>w'. lock_run False lock pre w w' \<and> lw_task w' t = Finished
     \<and> (\<forall>d. lw_dirs w' d = (if d \<in> set ds \<and> reclaimable lock pre w d then None else lw_dirs w d))"
proof -
  let ?r = "reclaimed lock pre ds w"
  have "lock_step False lock pre t w (go t (Scan ds) w)" by (rule lock_step.list_names [OF assms])
  moreover have "lock_run False lock pre (go t (Scan ds) w) (go t (Scan []) ?r)"
    using scan_all [of "go t (Scan ds) w" t ds False lock pre] by (simp add: reclaimed_go)
  moreover have "lock_step False lock pre t (go t (Scan []) ?r) (go t Finished ?r)"
    using lock_step.listed [of "go t (Scan []) ?r" t False lock pre] by simp
  ultimately have "lock_run False lock pre w (go t Finished ?r)" by (meson lock_run_refl lock_run_step lock_run_trans)
  then show ?thesis by (intro exI [of _ "go t Finished ?r"]) (simp add: reclaimed_dirs)
qed


section \<open>Names that come back\<close>

lemma creates:
  assumes "lw_task w t = Idle" "lw_dirs w d = None" "d \<notin> lw_used w" "lw_holder w (lw_next w) = None"
  shows "\<exists>w'. lock_run reuse lock pre w w' \<and> lw_task w' = (lw_task w)(t := Owner d (lw_next w))
    \<and> lw_dirs w' = (lw_dirs w)(d \<mapsto> [lock \<mapsto> lw_next w]) \<and> lw_holder w' = (lw_holder w)(lw_next w \<mapsto> t)
    \<and> lw_next w' = Suc (lw_next w) \<and> lw_used w' = insert d (lw_used w)"
proof -
  let ?i = "lw_next w" and ?n = "temp_name lock 0 0"
  define w1 where "w1 = go t (Made d) ((set_dir d (Some Map.empty) w)\<lparr>lw_used := insert d (lw_used w)\<rparr>)"
  define w2 where "w2 = go t (Temp d ?n ?i) (new_entry d ?n Map.empty w1)"
  define w3 where "w3 = go t (Held d ?n ?i) (take_lock t ?i w2)"
  define w4 where "w4 = go t (Marked d ?n ?i) (w3\<lparr>lw_content := (lw_content w3)(?i := take (length fork_marker) fork_marker)\<rparr>)"
  define w5 where "w5 = go t (Checked d ?n ?i) w4"
  define w6 where "w6 = go t (Owner d ?i) (set_dir d (Some (([?n \<mapsto> ?i](?n := None))(lock \<mapsto> ?i))) w5)"
  have "lock_step reuse lock pre t w w1" using lock_step.make [of w t reuse d] assms by (simp add: w1_def)
  moreover have "lock_step reuse lock pre t w1 w2"
    using lock_step.create_temp [of w1 t d Map.empty ?n lock 0 0 reuse pre] by (simp add: w2_def) (simp add: w1_def world_simps)
  moreover have "lock_step reuse lock pre t w2 w3"
    using lock_step.lock_temp [of w2 t d ?n ?i reuse lock pre] assms(4) by (simp add: w3_def) (simp add: w2_def w1_def world_simps)
  moreover have "lock_step reuse lock pre t w3 w4"
    using lock_step.mark [of w3 t d ?n ?i fork_marker reuse lock pre "length fork_marker"] by (simp add: w4_def) (simp add: w3_def)
  moreover have "lock_step reuse lock pre t w4 w5"
  proof -
    have "lock_file lock d w4 = None" by (simp add: w4_def w3_def w2_def w1_def world_simps)
    then show ?thesis using lock_step.check [of w4 t d ?n ?i reuse lock pre] by (simp add: w5_def) (simp add: w4_def)
  qed
  moreover have "lock_step reuse lock pre t w5 w6"
    using lock_step.rename [of w5 t d ?n ?i "[?n \<mapsto> ?i]" ?i reuse lock pre]
    by (simp add: w6_def) (simp add: w5_def w4_def w3_def w2_def w1_def world_simps)
  ultimately have "lock_run reuse lock pre w w6" by (meson lock_run_refl lock_run_step)
  moreover have "lw_task w6 = (lw_task w)(t := Owner d ?i)" "lw_dirs w6 = (lw_dirs w)(d \<mapsto> [lock \<mapsto> ?i])"
    "lw_holder w6 = (lw_holder w)(?i \<mapsto> t)" "lw_next w6 = Suc ?i" "lw_used w6 = insert d (lw_used w)"
    by (simp_all add: w6_def w5_def w4_def w3_def w2_def w1_def world_simps)
  ultimately show ?thesis by blast
qed

lemma collides:
  assumes "lw_task w t = Idle" "lw_dirs w d = Some [lock \<mapsto> i]" "lw_holder w (lw_next w) = None"
  shows "\<exists>w'. lock_run True lock pre w w' \<and> lw_task w' = (lw_task w)(t := Finished) \<and> lw_dirs w' d = None
    \<and> lw_holder w' = lw_holder w"
proof -
  let ?i = "lw_next w" and ?n = "temp_name lock 0 0"
  define w1 where "w1 = go t (Made d) ((set_dir d (Some [lock \<mapsto> i]) w)\<lparr>lw_used := insert d (lw_used w)\<rparr>)"
  define w2 where "w2 = go t (Temp d ?n ?i) (new_entry d ?n [lock \<mapsto> i] w1)"
  define w3 where "w3 = go t (Held d ?n ?i) (take_lock t ?i w2)"
  define w4 where "w4 = go t (Marked d ?n ?i) (w3\<lparr>lw_content := (lw_content w3)(?i := take (length fork_marker) fork_marker)\<rparr>)"
  define w5 where "w5 = go t (Errored d ?n ?i) w4"
  define w6 where "w6 = go t (Untemp d ?n) (close_file t ?i w5)"
  define w7 where "w7 = go t (Abandon d) (set_dir d (map_option (\<lambda>es. es(?n := None)) (lw_dirs w6 d)) w6)"
  define w8 where "w8 = go t Finished (set_dir d None w7)"
  have "lock_step True lock pre t w w1" using lock_step.make [of w t True d] assms by (simp add: w1_def)
  moreover have "lock_step True lock pre t w1 w2"
    using lock_step.create_temp [of w1 t d "[lock \<mapsto> i]" ?n lock 0 0 True pre] by (simp add: w2_def) (simp add: w1_def world_simps)
  moreover have "lock_step True lock pre t w2 w3"
    using lock_step.lock_temp [of w2 t d ?n ?i True lock pre] assms(3) by (simp add: w3_def) (simp add: w2_def w1_def world_simps)
  moreover have "lock_step True lock pre t w3 w4"
    using lock_step.mark [of w3 t d ?n ?i fork_marker True lock pre "length fork_marker"] by (simp add: w4_def) (simp add: w3_def)
  moreover have "lock_step True lock pre t w4 w5"
  proof -
    have "lock_file lock d w4 = Some i" by (simp add: w4_def w3_def w2_def w1_def world_simps)
    then show ?thesis using lock_step.check [of w4 t d ?n ?i True lock pre] by (simp add: w5_def) (simp add: w4_def)
  qed
  moreover have "lock_step True lock pre t w5 w6" using lock_step.close_temp [of w5 t d ?n ?i] by (simp add: w6_def w5_def)
  moreover have "lock_step True lock pre t w6 w7" using lock_step.remove_temp [of w6 t d ?n] by (simp add: w7_def w6_def)
  moreover have "lock_step True lock pre t w7 w8" using lock_step.abandon [of w7 t d] by (simp add: w8_def w7_def)
  ultimately have "lock_run True lock pre w w8" by (meson lock_run_refl lock_run_step)
  moreover have "lw_task w8 = (lw_task w)(t := Finished)" "lw_dirs w8 d = None" "lw_holder w8 = lw_holder w"
    using assms(3) by (simp_all add: w8_def w7_def w6_def w5_def w4_def w3_def w2_def w1_def world_simps fun_upd_idem)
  ultimately show ?thesis by blast
qed

definition empty_world :: lock_world where
  "empty_world = \<lparr>lw_dirs = Map.empty, lw_content = (\<lambda>_. []), lw_holder = (\<lambda>_. None), lw_next = 0, lw_used = {}, lw_task = (\<lambda>_. Idle)\<rparr>"

text \<open>
  The name of a checkpoint directory is the process identifier and a counter. When two processes have the same
  identifier, as they can in separate containers that share the snapshot directory, the second one finds the lock
  file of the first, gives up, and on its way out removes the directory of the first, which still holds the lock.
\<close>

theorem reused_name_loses_directory:
  "\<exists>w. lock_run True FORK_LOCK FORK_PREFIX empty_world w \<and> lw_task w 0 = Owner (fork_dir_name pid index) 0
     \<and> lw_holder w 0 = Some 0 \<and> lw_dirs w (fork_dir_name pid index) = None"
proof -
  let ?d = "fork_dir_name pid index"
  from creates [of empty_world 0 ?d True FORK_LOCK FORK_PREFIX] obtain w where w: "lock_run True FORK_LOCK FORK_PREFIX empty_world w"
    "lw_task w = (\<lambda>_. Idle)(0 := Owner ?d 0)" "lw_dirs w = [?d \<mapsto> [FORK_LOCK \<mapsto> 0]]" "lw_holder w = [0 \<mapsto> 0]" "lw_next w = 1"
    by (auto simp: empty_world_def)
  from w collides [of w 1 ?d FORK_LOCK 0 FORK_PREFIX] obtain w' where "lock_run True FORK_LOCK FORK_PREFIX w w'"
    "lw_task w' = (lw_task w)(1 := Finished)" "lw_dirs w' ?d = None" "lw_holder w' = lw_holder w" by auto
  then show ?thesis using w by (intro exI [of _ w']) (auto intro: lock_run_trans)
qed


section \<open>Witnesses\<close>

text \<open>Two directories left behind; a lock file that is not text counts as ours, other text does not.\<close>

definition old_world :: lock_world where
  "old_world = \<lparr>lw_dirs = [''fork-a'' \<mapsto> [FORK_LOCK \<mapsto> 0], ''fork-b'' \<mapsto> [FORK_LOCK \<mapsto> 1]],
     lw_content = (\<lambda>i. if i = 0 then [255] else as_bytes ''mine''), lw_holder = (\<lambda>_. None), lw_next = 2,
     lw_used = {''fork-a'', ''fork-b''}, lw_task = (\<lambda>_. Idle)\<rparr>"

lemma old_contents: "\<not> foreign_content [255]" "foreign_content (as_bytes ''mine'')"
  by (simp_all add: foreign_content_def from_utf8_def as_bytes_def str_of_bytes_def char_width_def utf8_valid.simps Let_def starts_with_def)

theorem live_directory_kept_witness:
  "\<exists>w es. lock_run False WORK_LOCK WORK_PREFIX empty_world w \<and> lw_task w 3 = Owner ''rfb-zeroboot-x'' 0
     \<and> lw_dirs w ''rfb-zeroboot-x'' = Some es \<and> es WORK_LOCK = Some 0 \<and> lw_holder w 0 = Some 3"
proof -
  have s: "lock_start empty_world" by (auto simp: lock_start_def empty_world_def)
  obtain w where w: "lock_run False WORK_LOCK WORK_PREFIX empty_world w" "lw_task w 3 = Owner ''rfb-zeroboot-x'' 0"
    using creates [of empty_world 3 "''rfb-zeroboot-x''" False WORK_LOCK WORK_PREFIX] by (fastforce simp: empty_world_def)
  then have "owned_dir (lw_task w 3) = Some ''rfb-zeroboot-x''" by simp
  from live_directory_kept [OF s w(1) this] w show ?thesis by blast
qed

theorem dead_directories_reclaimed_witness:
  "\<exists>w. lock_run False FORK_LOCK FORK_PREFIX old_world w \<and> lw_dirs w ''fork-a'' = None \<and> lw_dirs w ''fork-b'' \<noteq> None"
proof -
  have "reclaimable FORK_LOCK FORK_PREFIX old_world ''fork-a''" "\<not> reclaimable FORK_LOCK FORK_PREFIX old_world ''fork-b''"
    using old_contents by (simp_all add: reclaimable_def old_world_def lock_file_def FORK_PREFIX_def starts_with_def)
  moreover have "lw_dirs old_world ''fork-b'' \<noteq> None" by (simp add: old_world_def)
  moreover have "lw_task old_world 0 = Idle" by (simp add: old_world_def)
  note dead_directories_reclaimed [OF this, of FORK_LOCK FORK_PREFIX "[''fork-a'', ''fork-b'']"]
  ultimately show ?thesis by auto
qed

end
