(* ===== verification/Zeroboot_Verify.thy ===== *)
theory Zeroboot_Verify
  imports Guest_Fs Rfb_Utf8 Runtime_Service Contract Rfb_Builtin
begin

text \<open>
  The check of the Firecracker binary, \<^verbatim>\<open>rfb/src/zeroboot/verification.rs\<close>: the search for a \<^verbatim>\<open>SHA256SUMS\<close> manifest
  next to or above the binary, its format, and the cache of results. The host's files are a tree with
  modification times; paths are absolute. SHA-256, the texts of system errors and the display of paths are
  parameters.
\<close>

section \<open>Manifests\<close>

lemma white_space_nonempty: "[] \<notin> set white_space"
  by (simp add: white_space_def)

text \<open>\<^verbatim>\<open>str::split_whitespace\<close>: \<open>acc\<close> is the word read so far.\<close>

function words_from :: "string \<Rightarrow> string \<Rightarrow> string list" where
  "words_from acc s =
     (case first_strip white_space s of
        Some r \<Rightarrow> (if acc = [] then [] else [acc]) @ words_from [] r
      | None \<Rightarrow> (case s of [] \<Rightarrow> if acc = [] then [] else [acc] | c # cs \<Rightarrow> words_from (acc @ [c]) cs))"
  by pat_completeness auto
termination
  by (relation "measure (\<lambda>(acc, s). length s)") (auto dest!: first_strip_shorter [OF _ white_space_nonempty])

declare words_from.simps [simp del]

definition split_whitespace :: "string \<Rightarrow> string list" where
  "split_whitespace s = words_from [] s"

text \<open>\<^verbatim>\<open>rsplit(['/', '\\']).next()\<close>.\<close>

definition last_component :: "string \<Rightarrow> string" where
  "last_component s = rev (takeWhile (\<lambda>c. c \<noteq> CHR ''/'' \<and> c \<noteq> CHR 0x5C) (rev s))"

definition manifest_line :: "string \<Rightarrow> (string \<times> string) option" where
  "manifest_line line =
     (let line = trim line in
      if line = [] \<or> starts_with line ''#'' then None
      else (case split_whitespace line of
          digest # relpath # _ \<Rightarrow>
            if length digest \<noteq> 64 \<or> \<not> list_all is_ascii_hexdigit digest then None
            else Some (to_ascii_lowercase digest, last_component (dropWhile (\<lambda>c. c = CHR ''*'') relpath))
        | _ \<Rightarrow> None))"

fun parse_lines :: "string \<Rightarrow> string list \<Rightarrow> string option" where
  "parse_lines name [] = None"
| "parse_lines name (line # lines) =
     (case manifest_line line of
        Some (digest, entry) \<Rightarrow> if entry = name then Some digest else parse_lines name lines
      | None \<Rightarrow> parse_lines name lines)"

definition parse_manifest :: "string \<Rightarrow> string \<Rightarrow> string option" where
  "parse_manifest content name = parse_lines name (str_lines content)"

section \<open>The search\<close>

record host_env =
  he_sha256 :: "bytes \<Rightarrow> bytes"
  he_error :: "errno \<Rightarrow> string"
  he_not_utf8 :: string
  he_display :: "path \<Rightarrow> string"

definition hex_digit :: "nat \<Rightarrow> char" where
  "hex_digit n = char_of (if n < 10 then 48 + n else 87 + n)"

definition hex_text :: "bytes \<Rightarrow> string" where
  "hex_text b = concat (map (\<lambda>x. [hex_digit (unat x div 16), hex_digit (unat x mod 16)]) b)"

text \<open>A directory can be opened but not read.\<close>

definition sha256_file :: "host_env \<Rightarrow> node \<Rightarrow> path \<Rightarrow> string + string" where
  "sha256_file env fs p =
     (case read_file fs p of
        Inl EISDIR \<Rightarrow> Inl (''read '' @ he_display env p @ '': '' @ he_error env EISDIR)
      | Inl e \<Rightarrow> Inl (''open '' @ he_display env p @ '': '' @ he_error env e)
      | Inr content \<Rightarrow> Inr (hex_text (he_sha256 env content)))"

definition path_is_file :: "node \<Rightarrow> path \<Rightarrow> bool" where
  "path_is_file fs p = (case open_at fs p of Inr (File _ _) \<Rightarrow> True | _ \<Rightarrow> False)"

definition manifest_entry :: "host_env \<Rightarrow> node \<Rightarrow> path \<Rightarrow> string \<Rightarrow> string + string option" where
  "manifest_entry env fs manifest name =
     (case read_file fs manifest of
        Inl e \<Rightarrow> Inl (''read '' @ he_display env manifest @ '': '' @ he_error env e)
      | Inr b \<Rightarrow> (case from_utf8 b of
          None \<Rightarrow> Inl (''read '' @ he_display env manifest @ '': '' @ he_not_utf8 env)
        | Some content \<Rightarrow> Inr (parse_manifest content name)))"

definition MANIFEST_SEARCH_LEVELS :: nat where
  "MANIFEST_SEARCH_LEVELS = 3"

definition mismatch :: "host_env \<Rightarrow> path \<Rightarrow> string \<Rightarrow> string \<Rightarrow> string" where
  "mismatch env p expected actual =
     ''firecracker sha256 mismatch for '' @ he_display env p @ '': manifest expects '' @ expected @ '', binary hashes to '' @ actual"

fun search_levels :: "host_env \<Rightarrow> node \<Rightarrow> path \<Rightarrow> string \<Rightarrow> nat \<Rightarrow> path option \<Rightarrow> string + string option" where
  "search_levels env fs p name 0 dir = Inr None"
| "search_levels env fs p name (Suc k) None = Inr None"
| "search_levels env fs p name (Suc k) (Some current) =
     (let manifest = current @ [''SHA256SUMS''] in
      res_bind (if path_is_file fs manifest then manifest_entry env fs manifest name else Inr None) (\<lambda>entry.
        case entry of
          Some expected \<Rightarrow> res_bind (sha256_file env fs p) (\<lambda>actual.
            if actual \<noteq> expected then Inl (mismatch env p expected actual) else Inr (Some expected))
        | None \<Rightarrow> search_levels env fs p name k (parent current)))"

definition verify_uncached :: "host_env \<Rightarrow> node \<Rightarrow> path \<Rightarrow> string + string option" where
  "verify_uncached env fs p =
     (case file_name p of
        Some name \<Rightarrow>
          if is_str name then search_levels env fs p name MANIFEST_SEARCH_LEVELS (parent p)
          else Inl (''firecracker path '' @ he_display env p @ '' has no file name to match a manifest'')
      | None \<Rightarrow> Inl (''firecracker path '' @ he_display env p @ '' has no file name to match a manifest''))"

section \<open>The cache\<close>

text \<open>The host's files at a moment: the tree and the modification times by resolved path; what a directory's length is does not matter.\<close>

record host_files =
  hf_tree :: node
  hf_mtime :: "path \<Rightarrow> nat"

definition file_stamp :: "host_files \<Rightarrow> path \<Rightarrow> errno + nat \<times> nat" where
  "file_stamp h p =
     res_bind (canonicalize (hf_tree h) p) (\<lambda>q. res_bind (open_at (hf_tree h) p) (\<lambda>n. Inr (node_len 4096 n, hf_mtime h q)))"

type_synonym verify_cache = "path \<rightharpoonup> (nat \<times> nat) \<times> (string + string option)"

definition verify_firecracker_binary ::
  "host_env \<Rightarrow> host_files \<Rightarrow> path \<Rightarrow> verify_cache \<Rightarrow> (string + string option) \<times> verify_cache" where
  "verify_firecracker_binary env h p cache =
     (case file_stamp h p of
        Inl e \<Rightarrow> (Inl (''firecracker binary '' @ he_display env p @ '' is not readable: '' @ he_error env e), cache)
      | Inr stamp \<Rightarrow>
          (case cache p of
             Some (stamp', result) \<Rightarrow>
               if stamp' = stamp then (result, cache)
               else (let result = verify_uncached env (hf_tree h) p in (result, cache(p \<mapsto> (stamp, result))))
           | None \<Rightarrow> (let result = verify_uncached env (hf_tree h) p in (result, cache(p \<mapsto> (stamp, result))))))"

text \<open>The results of calls in one process, each on the files of its time.\<close>

fun verify_calls :: "host_env \<Rightarrow> (host_files \<times> path) list \<Rightarrow> verify_cache \<Rightarrow> (string + string option) list" where
  "verify_calls env [] cache = []"
| "verify_calls env ((h, p) # calls) cache =
     (case verify_firecracker_binary env h p cache of (r, cache1) \<Rightarrow> r # verify_calls env calls cache1)"

section \<open>Lines of coreutils\<close>

definition graphic :: "char \<Rightarrow> bool" where
  "graphic c \<longleftrightarrow> 33 \<le> (of_char c :: nat) \<and> (of_char c :: nat) < 127"

text \<open>A path as a manifest lists it: printable, without blanks, and not starting with the mark of binary mode.\<close>

definition listed_path :: "string \<Rightarrow> bool" where
  "listed_path r \<longleftrightarrow> r \<noteq> [] \<and> hd r \<noteq> CHR ''*'' \<and> list_all graphic r"

text \<open>\<^verbatim>\<open>sha256sum\<close> in text and in binary mode.\<close>

definition sha256sum_line :: "bool \<Rightarrow> bytes \<times> string \<Rightarrow> string" where
  "sha256sum_line binary e = hex_text (fst e) @ (if binary then '' *'' else ''  '') @ snd e"

lemma first_strip_head: "list_all (\<lambda>p. p \<noteq> [] \<and> hd p \<noteq> c) ps \<Longrightarrow> first_strip ps (c # cs) = None"
proof (induction ps)
  case (Cons p ps)
  then show ?case by (cases p) auto
qed simp

lemma white_space_heads:
  "list_all (\<lambda>p. p \<noteq> [] \<and> \<not> graphic (hd p)) white_space" "list_all (\<lambda>p. p \<noteq> [] \<and> \<not> graphic (hd p)) (map rev white_space)"
  by (simp_all add: white_space_def graphic_def)

lemma graphic_not_space:
  assumes "graphic c"
  shows "first_strip white_space (c # cs) = None" "first_strip (map rev white_space) (c # cs) = None"
  using assms white_space_heads by (auto intro!: first_strip_head elim!: list.pred_mono_strong)

lemma words_graphic:
  "list_all graphic w \<Longrightarrow> words_from acc (w @ s) = words_from (acc @ w) s"
proof (induction w arbitrary: acc)
  case (Cons c w)
  then show ?case by (subst words_from.simps) (simp add: graphic_not_space)
qed simp

lemma words_space: "words_from acc (CHR '' '' # s) = (if acc = [] then [] else [acc]) @ words_from [] s"
  by (subst words_from.simps) (simp add: white_space_def)

lemma words_end: "words_from acc [] = (if acc = [] then [] else [acc])"
  by (subst words_from.simps) (simp add: white_space_def)

lemma trim_graphic:
  assumes "graphic c" "graphic d"
  shows "trim (c # s @ [d]) = c # s @ [d]"
proof -
  have "trim_start (c # s @ [d]) = c # s @ [d]"
    unfolding trim_start_def by (subst drop_encodings.simps) (simp add: graphic_not_space [OF assms(1)] white_space_nonempty)
  moreover have "trim_end (c # s @ [d]) = c # s @ [d]"
    unfolding trim_end_def by (subst drop_encodings.simps) (simp add: graphic_not_space [OF assms(2)] white_space_nonempty)
  ultimately show ?thesis by (simp add: trim_def)
qed

lemma hex_digit_facts: "n < 16 \<Longrightarrow> graphic (hex_digit n) \<and> is_ascii_hexdigit (hex_digit n)
    \<and> to_ascii_lowercase [hex_digit n] = [hex_digit n]"
proof -
  assume "n < 16"
  then have "n \<in> {0..<16}" by simp
  then show ?thesis by (auto simp: hex_digit_def graphic_def is_ascii_hexdigit_def to_ascii_lowercase_def)
qed


lemma hex_text_facts:
  "list_all is_ascii_hexdigit (hex_text b)" "list_all graphic (hex_text b)" "length (hex_text b) = 2 * length b"
  "to_ascii_lowercase (hex_text b) = hex_text b"
proof -
  have d: "unat x div 16 < 16" "unat x mod 16 < 16" for x :: byte using unat_lt2p [of x] by simp_all
  note h = hex_digit_facts [OF d(1)] hex_digit_facts [OF d(2)]
  show "list_all is_ascii_hexdigit (hex_text b)" "list_all graphic (hex_text b)" "length (hex_text b) = 2 * length b"
    using h by (induction b) (auto simp: hex_text_def)
  show "to_ascii_lowercase (hex_text b) = hex_text b"
    using h by (induction b) (auto simp: hex_text_def to_ascii_lowercase_def)
qed

lemma line_parsed:
  assumes "length b = 32" "listed_path r"
  shows "manifest_line (sha256sum_line binary (b, r)) = Some (hex_text b, last_component r)"
proof -
  let ?l = "sha256sum_line binary (b, r)"
  have r: "r \<noteq> []" "hd r \<noteq> CHR ''*''" "list_all graphic r" using assms(2) by (simp_all add: listed_path_def)
  obtain c h where h: "hex_text b = c # h" using hex_text_facts(3) [of b] assms(1) by (cases "hex_text b") auto
  have c: "graphic c" "c \<noteq> CHR ''#''" using hex_text_facts(1,2) [of b] h by (auto simp: is_ascii_hexdigit_def)
  have "?l = c # (h @ (if binary then '' *'' else ''  '') @ butlast r) @ [last r]" using r(1) h by (simp add: sha256sum_line_def)
  moreover have "graphic (last r)" using r(1,3) by (simp add: list_all_iff)
  ultimately have t: "trim ?l = ?l" using trim_graphic [OF c(1)] by metis
  have start: "?l \<noteq> []" "\<not> starts_with ?l ''#''" using c(2) h by (simp_all add: sha256sum_line_def starts_with_def)
  have w: "words_from [] r = [r]" if "list_all graphic r" "r \<noteq> []" for r
    using words_graphic [OF that(1), of "[]" "[]"] that(2) by (simp add: words_end)
  have star: "words_from [] (CHR ''*'' # r) = [CHR ''*'' # r]" using r by (intro w) (simp_all add: graphic_def)
  have split: "split_whitespace ?l = [hex_text b, (if binary then CHR ''*'' # r else r)]"
    using words_graphic [OF hex_text_facts(2), of "[]" b] w [OF r(3,1)] star h
    by (simp add: split_whitespace_def sha256sum_line_def words_space)
  have "dropWhile (\<lambda>c. c = CHR ''*'') r = r" using r(1,2) by (cases r) auto
  then show ?thesis using t start split hex_text_facts(1,3,4) [of b] assms(1) by (simp add: manifest_line_def Let_def)
qed

text \<open>A manifest as \<^verbatim>\<open>sha256sum\<close> writes it.\<close>

definition manifest_text :: "bool \<Rightarrow> (bytes \<times> string) list \<Rightarrow> string" where
  "manifest_text binary es = concat (map (\<lambda>e. sha256sum_line binary e @ [CHR 0x0A]) es)"

lemma str_lines_unlines:
  assumes "list_all (\<lambda>l. CHR 0x0A \<notin> set l \<and> chop_cr l = l) ls"
  shows "str_lines (concat (map (\<lambda>l. l @ [CHR 0x0A]) ls)) = ls"
proof -
  have "split_on (CHR 0x0A) (concat (map (\<lambda>l. l @ [CHR 0x0A]) ls)) = ls @ [[]]"
    using assms by (induction ls) (simp_all add: split_on_append)
  then show ?thesis using assms by (simp add: str_lines_def list_all_iff map_idI)
qed

lemma line_plain:
  assumes "listed_path r"
  shows "CHR 0x0A \<notin> set (sha256sum_line binary (b, r)) \<and> chop_cr (sha256sum_line binary (b, r)) = sha256sum_line binary (b, r)"
proof -
  have g: "list_all graphic (hex_text b)" "list_all graphic r" "r \<noteq> []" using assms hex_text_facts(2) by (simp_all add: listed_path_def)
  have "\<not> graphic (CHR 0x0A)" "\<not> graphic (CHR 0x0D)" by (simp_all add: graphic_def)
  then have n: "CHR 0x0A \<notin> set (hex_text b)" "CHR 0x0A \<notin> set r" "last r \<noteq> CHR 0x0D"
    using g last_in_set [OF g(3)] unfolding list_all_iff by metis+
  then show ?thesis using g(3) by (auto simp: sha256sum_line_def chop_cr_def)
qed

fun first_listed :: "(bytes \<times> string) list \<Rightarrow> string \<Rightarrow> bytes option" where
  "first_listed [] name = None"
| "first_listed ((b, r) # es) name = (if last_component r = name then Some b else first_listed es name)"

lemma manifest_parsed:
  assumes "list_all (\<lambda>(b, r). length b = 32 \<and> listed_path r) es"
  shows "parse_manifest (manifest_text binary es) name = map_option hex_text (first_listed es name)"
proof -
  let ?ls = "map (sha256sum_line binary) es"
  have "list_all (\<lambda>l. CHR 0x0A \<notin> set l \<and> chop_cr l = l) ?ls" using assms line_plain by (auto simp: list_all_iff)
  then have "str_lines (manifest_text binary es) = ?ls" using str_lines_unlines [of ?ls] by (simp add: manifest_text_def comp_def)
  moreover have "parse_lines name ?ls = map_option hex_text (first_listed es name)"
    using assms by (induction es name rule: first_listed.induct) (auto simp: line_parsed)
  ultimately show ?thesis by (simp add: parse_manifest_def)
qed


section \<open>What a verdict says\<close>

text \<open>The directories that are searched: the parent of the binary, its parent, and so on.\<close>

fun ancestor :: "nat \<Rightarrow> path \<Rightarrow> path option" where
  "ancestor 0 p = parent p"
| "ancestor (Suc k) p = Option.bind (ancestor k p) parent"

abbreviation sums :: "path \<Rightarrow> path" where
  "sums dir \<equiv> dir @ [''SHA256SUMS'']"

fun up :: "nat \<Rightarrow> path option \<Rightarrow> path option" where
  "up 0 d = d"
| "up (Suc k) d = up k (Option.bind d parent)"

lemma up_ancestor: "up k (parent p) = ancestor k p"
proof -
  have "up (Suc k) d = Option.bind (up k d) parent" for k d by (induction k arbitrary: d) (simp, metis up.simps(2))
  then show ?thesis by (induction k) (simp_all del: up.simps(2))
qed

lemma up_None [simp]: "up k None = None"
  by (induction k) auto

lemma search_levels_at:
  assumes "up k start = Some dir" "k < n" "path_is_file fs (sums dir)" "manifest_entry env fs (sums dir) name = Inr (Some d)"
    "\<forall>j < k. \<forall>e. up j start = Some e \<longrightarrow> \<not> path_is_file fs (sums e)" "sha256_file env fs p = Inr actual"
  shows "search_levels env fs p name n start = (if actual = d then Inr (Some d) else Inl (mismatch env p d actual))"
  using assms(1,2,5)
proof (induction k arbitrary: start n)
  case 0
  then show ?case using assms(3,4,6) by (cases n) auto
next
  case (Suc k)
  then obtain m where n: "n = Suc m" by (cases n) auto
  obtain c where c: "start = Some c" using Suc.prems(1) by (cases start) auto
  have "\<not> path_is_file fs (sums c)" using Suc.prems(3) c by (metis up.simps(1) zero_less_Suc)
  moreover have "search_levels env fs p name m (parent c) = (if actual = d then Inr (Some d) else Inl (mismatch env p d actual))"
  proof (rule Suc.IH)
    show "up k (parent c) = Some dir" "k < m" using Suc.prems(1,2) c n by auto
    show "\<forall>j < k. \<forall>e. up j (parent c) = Some e \<longrightarrow> \<not> path_is_file fs (sums e)"
      using Suc.prems(3) c by (metis Suc_less_eq bind.bind_lunit up.simps(2))
  qed
  ultimately show ?case using c n by simp
qed

lemma hex_digit_inject: "m < 16 \<Longrightarrow> n < 16 \<Longrightarrow> hex_digit m = hex_digit n \<longleftrightarrow> m = n"
proof
  assume lt: "m < 16" "n < 16" and "hex_digit m = hex_digit n"
  then have "(of_char (hex_digit m) :: nat) = of_char (hex_digit n)" by simp
  then have "(if m < 10 then 48 + m else 87 + m) = (if n < 10 then 48 + n else 87 + n)"
    using lt by (simp add: hex_digit_def split: if_splits)
  then show "m = n" using lt by (simp split: if_splits)
qed simp

lemma hex_text_inject [simp]: "hex_text a = hex_text b \<longleftrightarrow> a = b"
proof
  show "hex_text a = hex_text b \<Longrightarrow> a = b"
  proof (induction a b rule: list_induct2')
    case (4 x xs y ys)
    have d: "unat z div 16 < 16" "unat z mod 16 < 16" for z :: byte using unat_lt2p [of z] by simp_all
    have "unat x div 16 = unat y div 16" "unat x mod 16 = unat y mod 16" and t: "hex_text xs = hex_text ys"
      using "4.prems" hex_digit_inject [OF d(1) d(1)] hex_digit_inject [OF d(2) d(2)] by (simp_all add: hex_text_def)
    then have "unat x = unat y" by (metis div_mult_mod_eq)
    then have "x = y" by (simp add: word_unat_eq_iff)
    then show ?case using "4.IH" [OF t] by simp
  qed (simp_all add: hex_text_def)
qed simp

lemma manifest_entry_text:
  assumes "read_file fs m = Inr (as_bytes (manifest_text binary es))" "list_all (\<lambda>(b, r). length b = 32 \<and> listed_path r) es"
  shows "manifest_entry env fs m name = Inr (map_option hex_text (first_listed es name))" "path_is_file fs m"
proof -
  have g: "graphic c \<Longrightarrow> (of_char c :: nat) < 128" for c by (simp add: graphic_def)
  have "(of_char c :: nat) < 128" if "c \<in> set (manifest_text binary es)" for c
    using that assms(2) hex_text_facts(2) g
    by (fastforce simp: manifest_text_def sha256sum_line_def list_all_iff listed_path_def split: if_splits)
  then have "utf8_valid (as_bytes (manifest_text binary es))"
    by (intro utf8_valid_ascii) (force simp: as_bytes_def word_le_nat_alt unat_of_nat)
  then show "manifest_entry env fs m name = Inr (map_option hex_text (first_listed es name))"
    using assms manifest_parsed [OF assms(2)] by (simp add: manifest_entry_def from_utf8_def)
  show "path_is_file fs m" using assms(1)
    by (cases "open_at fs m") (auto simp: read_file_def path_is_file_def split: node.splits)
qed

lemma listed_binary_outcome:
  assumes "file_name p = Some name" "is_str name" "ancestor k p = Some dir" "k < 3"
    "\<forall>j < k. \<forall>e. ancestor j p = Some e \<longrightarrow> \<not> path_is_file fs (sums e)"
    "read_file fs (sums dir) = Inr (as_bytes (manifest_text binary es))"
    "list_all (\<lambda>(b, r). length b = 32 \<and> listed_path r) es" "first_listed es name = Some digest"
    "read_file fs p = Inr content"
  shows "verify_uncached env fs p =
    (if he_sha256 env content = digest then Inr (Some (hex_text digest))
     else Inl (mismatch env p (hex_text digest) (hex_text (he_sha256 env content))))"
proof -
  note m = manifest_entry_text [OF assms(6,7)]
  have "sha256_file env fs p = Inr (hex_text (he_sha256 env content))" using assms(9) by (simp add: sha256_file_def)
  with search_levels_at [of k "parent p" dir 3 fs env name "hex_text digest" p] m assms show ?thesis
    by (simp add: verify_uncached_def MANIFEST_SEARCH_LEVELS_def up_ancestor)
qed

text \<open>
  C37. When a manifest of \<^verbatim>\<open>sha256sum\<close> in one of the three directories above the binary lists it, no nearer directory
  has a manifest, and every path in the manifest consists of printable ASCII characters without a blank and does
  not begin with an asterisk, the binary is accepted exactly if its hash is the first one listed for its name.
  The condition on the paths matters: a path ends at its first blank, so that a binary with a blank in its name
  is never found in a manifest and passes unverified, as \<open>blank_names_unlisted\<close> below shows.
\<close>

theorem listed_binary_verified:
  assumes "file_name p = Some name" "is_str name" "ancestor k p = Some dir" "k < 3"
    "\<forall>j < k. \<forall>e. ancestor j p = Some e \<longrightarrow> \<not> path_is_file fs (sums e)"
    "read_file fs (sums dir) = Inr (as_bytes (manifest_text binary es))"
    "list_all (\<lambda>(b, r). length b = 32 \<and> listed_path r) es" "first_listed es name = Some digest"
    "read_file fs p = Inr content"
  shows "verify_uncached env fs p =
    (if he_sha256 env content = digest then Inr (Some (hex_text digest))
     else Inl (mismatch env p (hex_text digest) (hex_text (he_sha256 env content))))"
  by (rule listed_binary_outcome [OF assms])

lemma words_no_blank: "CHR '' '' \<notin> set acc \<Longrightarrow> w \<in> set (words_from acc s) \<Longrightarrow> CHR '' '' \<notin> set w"
proof (induction acc s rule: words_from.induct)
  case (1 acc s)
  show ?case
  proof (cases "first_strip white_space s")
    case None
    then have blank: "s \<noteq> CHR '' '' # t" for t by (auto simp: white_space_def)
    show ?thesis
    proof (cases s)
      case Nil
      then show ?thesis using "1.prems" by (auto simp: words_end split: if_splits)
    next
      case (Cons c cs)
      then have "w \<in> set (words_from (acc @ [c]) cs)" using "1.prems"(2) None Cons
        by (simp add: words_from.simps [of acc "c # cs"])
      moreover have "CHR '' '' \<notin> set (acc @ [c])" using "1.prems"(1) blank Cons by auto
      ultimately show ?thesis using "1.IH"(1) [OF None Cons] by blast
    qed
  next
    case (Some r)
    then show ?thesis using 1 by (auto simp: words_from.simps [of acc s] split: if_splits)
  qed
qed

lemma manifest_line_no_blank: "manifest_line line = Some (d, entry) \<Longrightarrow> CHR '' '' \<notin> set entry"
  using words_no_blank [of "[]" _ "trim line"]
  by (auto simp: manifest_line_def Let_def split_whitespace_def last_component_def split: if_splits list.splits
      dest!: set_takeWhileD set_dropWhileD)

text \<open>
  A path in a manifest ends at its first blank. So a binary with a blank in its name is listed by no manifest, and
  every manifest leaves it unverified.
\<close>

theorem blank_names_unlisted:
  assumes "CHR '' '' \<in> set name" "file_name p = Some name" "verify_uncached env fs p = Inr verdict"
  shows "verdict = None"
proof -
  have "parse_lines name lines = None" for lines
    using assms(1) manifest_line_no_blank by (induction lines) (fastforce split: option.splits)+
  then have "manifest_entry env fs m name = Inr e \<Longrightarrow> e = None" for m e
    by (auto simp: manifest_entry_def parse_manifest_def split: sum.splits option.splits)
  then have "search_levels env fs p name n d = Inr v \<Longrightarrow> v = None" for n d v
    by (induction n arbitrary: d) (case_tac d; fastforce simp: Let_def res_bind_eq_Inr_conv split: if_splits)+
  then show ?thesis using assms(2,3) by (auto simp: verify_uncached_def split: if_splits)
qed

section \<open>What a cached verdict says\<close>

definition earlier :: "host_env \<Rightarrow> (host_files \<times> path) list \<Rightarrow> verify_cache \<Rightarrow> bool" where
  "earlier env calls cache \<longleftrightarrow> (\<forall>p stamp r. cache p = Some (stamp, r) \<longrightarrow>
     (\<exists>h. (h, p) \<in> set calls \<and> file_stamp h p = Inr stamp \<and> r = verify_uncached env (hf_tree h) p))"

lemma verify_call:
  assumes "earlier env past cache" "verify_firecracker_binary env h p cache = (r, cache1)"
  shows "earlier env (past @ [(h, p)]) cache1"
    and "file_stamp h p = Inr stamp \<Longrightarrow>
      \<exists>h'. (h', p) \<in> set (past @ [(h, p)]) \<and> file_stamp h' p = Inr stamp \<and> r = verify_uncached env (hf_tree h') p"
proof -
  show "earlier env (past @ [(h, p)]) cache1"
    using assms by (auto simp: earlier_def verify_firecracker_binary_def Let_def split: sum.splits option.splits if_splits prod.splits) blast+
  show "\<exists>h'. (h', p) \<in> set (past @ [(h, p)]) \<and> file_stamp h' p = Inr stamp \<and> r = verify_uncached env (hf_tree h') p"
    if "file_stamp h p = Inr stamp"
    using assms that
    by (auto simp: earlier_def verify_firecracker_binary_def Let_def split: sum.splits option.splits if_splits prod.splits) blast+
qed

lemma verify_calls_earlier:
  assumes "earlier env past cache" "i < length calls" "calls ! i = (h, p)" "file_stamp h p = Inr stamp"
  shows "\<exists>h'. (h', p) \<in> set (past @ take (Suc i) calls) \<and> file_stamp h' p = Inr stamp
    \<and> verify_calls env calls cache ! i = verify_uncached env (hf_tree h') p"
  using assms
proof (induction env calls cache arbitrary: past i rule: verify_calls.induct)
  case (2 env g q calls cache)
  obtain r cache1 where v: "verify_firecracker_binary env g q cache = (r, cache1)" by fastforce
  show ?case
  proof (cases i)
    case 0
    then show ?thesis using verify_call(2) [OF "2.prems"(1) v] "2.prems" v by auto
  next
    case (Suc j)
    with "2.IH" [OF v [symmetric] verify_call(1) [OF "2.prems"(1) v], of j] "2.prems" v show ?thesis by auto
  qed
qed simp

text \<open>
  Every verdict on a readable binary is what the search finds in the files of that call, or of an earlier
  one in the process at which the binary had the same length and modification time.
\<close>

theorem cached_verdict_current:
  assumes "i < length calls" "calls ! i = (h, p)" "file_stamp h p = Inr stamp"
  shows "\<exists>h'. (h', p) \<in> set (take (Suc i) calls) \<and> file_stamp h' p = Inr stamp
    \<and> verify_calls env calls Map.empty ! i = verify_uncached env (hf_tree h') p"
  using verify_calls_earlier [of env "[]" Map.empty i calls h p stamp] assms by (simp add: earlier_def)


section \<open>Witnesses\<close>

definition sums_host :: host_env where
  "sums_host = \<lparr>he_sha256 = (\<lambda>b. replicate 32 (hd b)), he_error = (\<lambda>_. ''error''), he_not_utf8 = ''invalid'',
     he_display = (\<lambda>p. concat (map (\<lambda>c. ''/'' @ c) p))\<rparr>"

definition sums_tree :: "byte \<Rightarrow> node" where
  "sums_tree b = Dir [(''opt'', Dir [(''SHA256SUMS'', File (as_bytes (manifest_text True [(replicate 32 7, ''bin/fc'')])) 420),
     (''bin'', Dir [(''fc'', File [b] 493)])])]"

lemma sums_tree_facts:
  "file_name [''opt'', ''bin'', ''fc''] = Some ''fc''" "is_str ''fc''" "ancestor 1 [''opt'', ''bin'', ''fc''] = Some [''opt'']"
  "\<forall>j < 1. \<forall>e. ancestor j [''opt'', ''bin'', ''fc''] = Some e \<longrightarrow> \<not> path_is_file (sums_tree b) (sums e)"
  "read_file (sums_tree b) (sums [''opt'']) = Inr (as_bytes (manifest_text True [(replicate 32 7, ''bin/fc'')]))"
  "read_file (sums_tree b) [''opt'', ''bin'', ''fc''] = Inr [b]"
  "list_all (\<lambda>(b, r). length b = 32 \<and> listed_path r) [(replicate 32 7 :: bytes, ''bin/fc'')]"
  "first_listed [(replicate 32 7, ''bin/fc'')] ''fc'' = Some (replicate 32 7)"
  by (simp_all add: file_name_def normals_def parent_def trim_dots_def is_str_def as_bytes_def utf8_valid.simps char_width_def
      path_is_file_def open_at_def canonicalize_def sums_tree_def read_file_def listed_path_def graphic_def last_component_def)

lemma sums_mismatch: "\<exists>m. verify_uncached sums_host (sums_tree 8) [''opt'', ''bin'', ''fc''] = Inl m"
proof -
  note f = sums_tree_facts
  have "(replicate 32 8 :: bytes) \<noteq> replicate 32 7" by (simp add: numeral_eq_Suc)
  then show ?thesis using listed_binary_outcome [OF f(1-3) _ f(4) [of 8] f(5) [of 8] f(7,8) f(6) [of 8], where env = sums_host] by (simp add: sums_host_def)
qed

theorem listed_binary_verified_witness:
  "verify_uncached sums_host (sums_tree 7) [''opt'', ''bin'', ''fc''] = Inr (Some (hex_text (replicate 32 7)))"
proof -
  note f = sums_tree_facts
  show ?thesis using listed_binary_verified [OF f(1-3) _ f(4) [of 7] f(5) [of 7] f(7,8) f(6) [of 7], where env = sums_host] by (simp add: sums_host_def)
qed

theorem cached_verdict_current_witness:
  "verify_calls sums_host [(\<lparr>hf_tree = sums_tree 8, hf_mtime = (\<lambda>_. 5)\<rparr>, [''opt'', ''bin'', ''fc''])] Map.empty ! 0
     = verify_uncached sums_host (sums_tree 8) [''opt'', ''bin'', ''fc'']"
proof -
  let ?h = "\<lparr>hf_tree = sums_tree 8, hf_mtime = (\<lambda>_. 5)\<rparr>"
  have "file_stamp ?h [''opt'', ''bin'', ''fc''] = Inr (1, 5)"
    by (simp add: file_stamp_def open_at_def canonicalize_def sums_tree_def)
  from cached_verdict_current [of 0 "[(?h, [''opt'', ''bin'', ''fc''])]", OF _ _ this, of sums_host] show ?thesis by auto
qed


theorem blank_names_unlisted_witness:
  "verify_uncached sums_host (Dir [(''a b'', File [1] 493)]) [''a b''] = Inr None"
proof -
  have f: "file_name [''a b''] = Some ''a b''" by (simp add: file_name_def normals_def)
  obtain v where v: "verify_uncached sums_host (Dir [(''a b'', File [1] 493)]) [''a b''] = Inr v"
    by (simp add: verify_uncached_def f is_str_def as_bytes_def utf8_valid.simps char_width_def MANIFEST_SEARCH_LEVELS_def numeral_3_eq_3
        parent_def trim_dots_def normals_def path_is_file_def open_at_def canonicalize_def)
  with blank_names_unlisted [OF _ f v] show ?thesis by simp
qed

end
