(* ===== verification/Zeroboot_Provider.thy ===== *)
theory Zeroboot_Provider
  imports Zeroboot_Verify Host_Session Session_Pool Rfb_Json "HOL-Library.Countable"
begin

text \<open>
  The ZeroBoot provider of \<^verbatim>\<open>rfb/src/zeroboot/provider.rs\<close>: its configuration and the settings from the environment,
  the identity of a stored parent snapshot and when it is reused, the order of the checks on the way to a running
  virtual machine, and the operations of a sandbox over its pool of sessions.

  What starts virtual machines and talks to them is a record of operations over the state of the world; the
  caches and counters of the process are state. A worker thread does not panic.
\<close>

section \<open>Configuration\<close>

record zb_config =
  zc_kernel :: "path option"
  zc_rootfs :: "path option"
  zc_firecracker :: "path option"
  zc_guest_port :: u32
  zc_timeout :: nat

definition GUEST_PORT :: u32 where "GUEST_PORT = 5000"

definition zb_config_default :: zb_config where
  "zb_config_default = \<lparr>zc_kernel = None, zc_rootfs = None, zc_firecracker = None, zc_guest_port = GUEST_PORT,
     zc_timeout = 30 * 1000000000\<rparr>"

definition zb_validate :: "zb_config \<Rightarrow> string + unit" where
  "zb_validate c =
     (if zc_kernel c = None then Inl ''kernel path is required''
      else if zc_rootfs c = None then Inl ''rootfs path is required''
      else if zc_firecracker c = None then Inl ''Firecracker path is required''
      else if zc_guest_port c = 0 then Inl ''guest port must be non-zero''
      else if zc_timeout c = 0 then Inl ''timeout must be non-zero''
      else Inr ())"

datatype zb_error = ZUnsupported capability | ZInvalidConfiguration string | ZBackend string

fun zb_kind :: "zb_error \<Rightarrow> string" where
  "zb_kind (ZUnsupported _) = ''unsupported''"
| "zb_kind (ZInvalidConfiguration _) = ''invalid_configuration''"
| "zb_kind (ZBackend _) = ''backend''"

fun capability_debug :: "capability \<Rightarrow> string" where
  "capability_debug CapExecute = ''Execute''"
| "capability_debug CapSnapshot = ''Snapshot''"
| "capability_debug CapHealth = ''Health''"
| "capability_debug CapStream = ''Stream''"
| "capability_debug CapLs = ''Ls''"
| "capability_debug CapFind = ''Find''"
| "capability_debug CapGrep = ''Grep''"
| "capability_debug CapReadFile = ''ReadFile''"
| "capability_debug CapWriteFile = ''WriteFile''"
| "capability_debug CapEval = ''Eval''"
| "capability_debug CapCancel = ''Cancel''"

fun zb_text :: "zb_error \<Rightarrow> string" where
  "zb_text (ZUnsupported c) = ''ZeroBoot unsupported capability: '' @ capability_debug c"
| "zb_text (ZInvalidConfiguration s) = ''invalid ZeroBoot configuration: '' @ s"
| "zb_text (ZBackend s) = ''ZeroBoot backend error: '' @ s"

section \<open>Settings from the environment\<close>

type_synonym environment = "string \<rightharpoonup> string"

definition env_positive :: "environment \<Rightarrow> string \<Rightarrow> nat option" where
  "env_positive env name =
     (case Option.bind (env name) (parse_uint (2 ^ 32)) of Some n \<Rightarrow> if 0 < n then Some n else None | None \<Rightarrow> None)"

definition VM_MEM_MIB :: nat where "VM_MEM_MIB = 128"
definition VM_VCPU :: nat where "VM_VCPU = 1"
definition VM_SESSIONS :: nat where "VM_SESSIONS = 8"

definition vm_mem_mib :: "environment \<Rightarrow> nat" where
  "vm_mem_mib env =
     (case env_positive env ''RFB_ZBRT_VM_MEM_MIB'' of Some v \<Rightarrow> if v < 32 then VM_MEM_MIB else v | None \<Rightarrow> VM_MEM_MIB)"

definition vm_vcpu :: "environment \<Rightarrow> nat" where
  "vm_vcpu env = or_else (env_positive env ''RFB_ZBRT_VM_VCPU'') VM_VCPU"

definition vm_sessions :: "environment \<Rightarrow> nat" where
  "vm_sessions env = or_else (env_positive env ''RFB_ZBRT_SESSIONS'') VM_SESSIONS"

definition snapshot_dir :: "environment \<Rightarrow> string option" where
  "snapshot_dir env = (case env ''RFB_ZBRT_SNAPSHOT_DIR'' of Some v \<Rightarrow> if trim v = [] then None else Some v | None \<Rightarrow> None)"

definition snapshot_shards :: "environment \<Rightarrow> nat" where
  "snapshot_shards env = min (or_else (env_positive env ''RFB_ZBRT_SNAPSHOT_SHARDS'') 2) 64"

text \<open>\<^verbatim>\<open>Path::join\<close> with a plain name. The counter wraps around.\<close>

definition join_name :: "string \<Rightarrow> string \<Rightarrow> string" where
  "join_name base name = (if base \<noteq> [] \<and> last base = CHR ''/'' then base @ name else base @ ''/'' @ name)"

definition shard_dir :: "string \<Rightarrow> nat \<Rightarrow> string" where
  "shard_dir base i = join_name base (''shard-'' @ dec_string i)"

definition snapshot_shard :: "environment \<Rightarrow> u64 \<Rightarrow> string option \<times> u64" where
  "snapshot_shard env next =
     (case snapshot_dir env of
        None \<Rightarrow> (None, next)
      | Some base \<Rightarrow>
          if snapshot_shards env \<le> 1 then (Some base, next)
          else (Some (shard_dir base (unat next mod snapshot_shards env)), next + 1))"

section \<open>The identity of a snapshot\<close>

type_synonym hash_cache = "path \<rightharpoonup> (nat \<times> nat) \<times> string"

definition file_sha256 :: "host_env \<Rightarrow> host_files \<Rightarrow> path \<Rightarrow> hash_cache \<Rightarrow> (errno + string) \<times> hash_cache" where
  "file_sha256 env h p cache =
     (let fresh = map_sum id (\<lambda>b. hex_text (he_sha256 env b)) (read_file (hf_tree h) p) in
      case file_stamp h p of
        Inl _ \<Rightarrow> (fresh, cache)
      | Inr stamp \<Rightarrow>
          (case cache p of
             Some (stamp', hash) \<Rightarrow> if stamp' = stamp then (Inr hash, cache)
                else (fresh, case fresh of Inr hash \<Rightarrow> cache(p \<mapsto> (stamp, hash)) | Inl _ \<Rightarrow> cache)
           | None \<Rightarrow> (fresh, case fresh of Inr hash \<Rightarrow> cache(p \<mapsto> (stamp, hash)) | Inl _ \<Rightarrow> cache)))"

definition asset_hash :: "host_env \<Rightarrow> host_files \<Rightarrow> path option \<Rightarrow> hash_cache \<Rightarrow> (errno + string) \<times> hash_cache" where
  "asset_hash env h p cache =
     (case p of
        Some q \<Rightarrow> if path_is_file (hf_tree h) q then file_sha256 env h q cache else (Inr ''missing'', cache)
      | None \<Rightarrow> (Inr ''missing'', cache))"

definition SNAPSHOT_IDENTITY_VERSION :: int where
  "SNAPSHOT_IDENTITY_VERSION = 2"

definition identity_object :: "string \<Rightarrow> string \<Rightarrow> string \<Rightarrow> u32 \<Rightarrow> nat \<Rightarrow> nat \<Rightarrow> json" where
  "identity_object kern rootfs firecracker port mem vcpus = JObject
     [(''version'', JNumber SNAPSHOT_IDENTITY_VERSION), (''kernel_sha256'', JString kern), (''rootfs_sha256'', JString rootfs),
      (''firecracker_sha256'', JString firecracker), (''guest_port'', JNumber (uint port)), (''mem_mib'', JNumber (int mem)),
      (''vcpus'', JNumber (int vcpus))]"

text \<open>\<open>print\<close> is the text of a JSON value.\<close>

definition snapshot_identity ::
  "(json \<Rightarrow> string) \<Rightarrow> host_env \<Rightarrow> environment \<Rightarrow> host_files \<Rightarrow> zb_config \<Rightarrow> hash_cache \<Rightarrow> (errno + string) \<times> hash_cache" where
  "snapshot_identity print henv env h c cache =
     (case asset_hash henv h (zc_kernel c) cache of
        (Inl e, cache1) \<Rightarrow> (Inl e, cache1)
      | (Inr k, cache1) \<Rightarrow>
          (case asset_hash henv h (zc_rootfs c) cache1 of
             (Inl e, cache2) \<Rightarrow> (Inl e, cache2)
           | (Inr r, cache2) \<Rightarrow>
               (case asset_hash henv h (zc_firecracker c) cache2 of
                  (Inl e, cache3) \<Rightarrow> (Inl e, cache3)
                | (Inr f, cache3) \<Rightarrow>
                    (Inr (print (identity_object k r f (zc_guest_port c) (vm_mem_mib env) (vm_vcpu env))), cache3))))"

definition path_text :: "path \<Rightarrow> string option" where
  "path_text p = (if list_all is_str p then Some (if p = [] then ''/'' else concat (map (\<lambda>c. ''/'' @ c) p)) else None)"

definition vm_paths :: "zb_config \<Rightarrow> zb_error + string \<times> string \<times> string" where
  "vm_paths c =
     (case Option.bind (zc_firecracker c) path_text of
        None \<Rightarrow> Inl (ZInvalidConfiguration ''Firecracker path is required'')
      | Some f \<Rightarrow>
          (case Option.bind (zc_kernel c) path_text of
             None \<Rightarrow> Inl (ZInvalidConfiguration ''kernel path is required'')
           | Some k \<Rightarrow>
               (case Option.bind (zc_rootfs c) path_text of
                  None \<Rightarrow> Inl (ZInvalidConfiguration ''rootfs path is required'')
                | Some r \<Rightarrow> Inr (f, k, r))))"

text \<open>The first part of \<^verbatim>\<open>ensure_parent_snapshot\<close>: whether the stored snapshot in a directory is used as it is.\<close>

definition parent_reusable ::
  "(json \<Rightarrow> string) \<Rightarrow> host_env \<Rightarrow> environment \<Rightarrow> host_files \<Rightarrow> zb_config \<Rightarrow> path \<Rightarrow> hash_cache \<Rightarrow> (zb_error + bool) \<times> hash_cache" where
  "parent_reusable print henv env h c dir cache =
     (let parent = dir @ [''parent''] in
      if path_is_file (hf_tree h) (parent @ [''vmstate'']) \<and> path_is_file (hf_tree h) (parent @ [''memory.bin''])
      then (case snapshot_identity print henv env h c cache of
          (Inl e, cache1) \<Rightarrow> (Inl (ZBackend (''snapshot identity: '' @ he_error henv e)), cache1)
        | (Inr identity, cache1) \<Rightarrow>
            (Inr (case read_file (hf_tree h) (parent @ [''identity.json'']) of
                Inl _ \<Rightarrow> False
              | Inr b \<Rightarrow> from_utf8 b = Some identity), cache1))
      else (Inr False, cache))"


section \<open>Starting a virtual machine\<close>

text \<open>
  What the process keeps, beside the world: the two caches, the shard counter, which kind of restore the
  Firecracker build takes, and whether the start-up clean-up has run.
\<close>

record 'w zb_state =
  zs_world :: 'w
  zs_verified :: verify_cache
  zs_hashes :: hash_cache
  zs_next :: u64
  zs_mode :: nat
  zs_scavenged :: bool

text \<open>
  The operations: files and directories, the lock of a snapshot directory, Firecracker, and sessions. Texts
  are error texts; a machine that runs has perhaps a relay path, a session the capabilities of its guest.
\<close>

record 'w zb_ops =
  zo_files :: "'w \<Rightarrow> host_files"
  zo_scavenge :: "string option \<Rightarrow> 'w \<Rightarrow> 'w"
  zo_lock :: "string \<Rightarrow> 'w \<Rightarrow> (string + unit) \<times> 'w"
  zo_unlock :: "string \<Rightarrow> 'w \<Rightarrow> 'w"
  zo_close_base :: "string option \<Rightarrow> 'w \<Rightarrow> 'w"
  zo_remove :: "path \<Rightarrow> 'w \<Rightarrow> 'w"
  zo_mkdir_private :: "path \<Rightarrow> 'w \<Rightarrow> (string + unit) \<times> 'w"
  zo_harden :: "path \<Rightarrow> 'w \<Rightarrow> (string + unit) \<times> 'w"
  zo_work_dir :: "'w \<Rightarrow> (string + string) \<times> 'w"
  zo_copy :: "string \<Rightarrow> string \<Rightarrow> 'w \<Rightarrow> (string + unit) \<times> 'w"
  zo_write :: "path \<Rightarrow> string \<Rightarrow> 'w \<Rightarrow> (string + unit) \<times> 'w"
  zo_boot :: "string \<Rightarrow> string \<Rightarrow> string \<Rightarrow> string \<Rightarrow> nat \<Rightarrow> nat \<Rightarrow> 'w \<Rightarrow> (string + string option) \<times> 'w"
  zo_restore :: "string \<Rightarrow> string \<Rightarrow> nat \<Rightarrow> nat \<Rightarrow> string \<Rightarrow> path \<Rightarrow> path \<Rightarrow> 'w \<Rightarrow> (string + bool \<times> string option) \<times> 'w"
  zo_snapshot :: "string \<Rightarrow> string \<Rightarrow> 'w \<Rightarrow> (string + unit) \<times> 'w"
  zo_open :: "string \<Rightarrow> u32 \<Rightarrow> 'w \<Rightarrow> (session_error + string list) \<times> 'w"
  zo_open_extra :: "string \<Rightarrow> u32 \<Rightarrow> nat \<Rightarrow> 'w \<Rightarrow> (session_error + string list) list \<times> 'w"
  zo_close_probe :: "'w \<Rightarrow> 'w"
  zo_log :: "string \<Rightarrow> 'w \<Rightarrow> string"

type_synonym ('w, 'a) zb_act = "'w zb_state \<Rightarrow> (zb_error + 'a) \<times> 'w zb_state"

definition ret :: "'a \<Rightarrow> ('w, 'a) zb_act" where
  "ret a s = (Inr a, s)"

definition lift_result :: "zb_error + 'a \<Rightarrow> ('w, 'a) zb_act" where
  "lift_result r s = (r, s)"

definition and_then :: "('w, 'a) zb_act \<Rightarrow> ('a \<Rightarrow> ('w, 'b) zb_act) \<Rightarrow> ('w, 'b) zb_act" where
  "and_then m f s = (case m s of (Inl e, s1) \<Rightarrow> (Inl e, s1) | (Inr a, s1) \<Rightarrow> f a s1)"

text \<open>An operation on the world, its error text extended; and one that cannot fail.\<close>

definition on_world :: "('e \<Rightarrow> zb_error) \<Rightarrow> ('w \<Rightarrow> ('e + 'a) \<times> 'w) \<Rightarrow> ('w, 'a) zb_act" where
  "on_world g op s = (case op (zs_world s) of (r, w) \<Rightarrow> (map_sum g id r, s\<lparr>zs_world := w\<rparr>))"

definition do_world :: "('w \<Rightarrow> 'w) \<Rightarrow> ('w, unit) zb_act" where
  "do_world op s = (Inr (), s\<lparr>zs_world := op (zs_world s)\<rparr>)"

definition verify_firecracker :: "'w zb_ops \<Rightarrow> host_env \<Rightarrow> zb_config \<Rightarrow> ('w, unit) zb_act" where
  "verify_firecracker ops henv c s =
     (case zc_firecracker c of
        None \<Rightarrow> (Inl (ZInvalidConfiguration ''Firecracker path is required''), s)
      | Some p \<Rightarrow>
          (case verify_firecracker_binary henv (zo_files ops (zs_world s)) p (zs_verified s) of
             (r, cache) \<Rightarrow> (map_sum ZBackend (\<lambda>_. ()) r, s\<lparr>zs_verified := cache\<rparr>)))"

definition stage_private_rootfs :: "'w zb_ops \<Rightarrow> string \<Rightarrow> string \<Rightarrow> ('w, string) zb_act" where
  "stage_private_rootfs ops work source =
     (let staged = join_name work ''rootfs.ext4'' in
      and_then (on_world (\<lambda>e. ZBackend (''staging private rootfs failed: '' @ e)) (zo_copy ops source staged)) (\<lambda>_. ret staged))"

definition vm_uds :: "string option \<Rightarrow> ('w, string) zb_act" where
  "vm_uds u = lift_result (case u of Some p \<Rightarrow> Inr p | None \<Rightarrow> Inl (ZBackend ''missing vsock UDS''))"

definition boot_vm_with_staged_rootfs ::
  "'w zb_ops \<Rightarrow> environment \<Rightarrow> string \<Rightarrow> string \<Rightarrow> string \<Rightarrow> string \<Rightarrow> ('w, string) zb_act" where
  "boot_vm_with_staged_rootfs ops env firecracker kern rootfs work =
     and_then (stage_private_rootfs ops work rootfs) (\<lambda>staged.
     and_then (on_world ZBackend (zo_boot ops firecracker kern staged work (vm_mem_mib env) (vm_vcpu env))) (\<lambda>uds.
       vm_uds uds))"

fun all_sessions :: "(session_error + string list) list \<Rightarrow> zb_error + string list list" where
  "all_sessions [] = Inr []"
| "all_sessions (Inl e # rs) = Inl (ZBackend (''ZeroBoot session open failed: '' @ session_text e))"
| "all_sessions (Inr c # rs) = res_bind (all_sessions rs) (\<lambda>cs. Inr (c # cs))"

definition open_extra_sessions :: "'w zb_ops \<Rightarrow> environment \<Rightarrow> string \<Rightarrow> u32 \<Rightarrow> ('w, string list list) zb_act" where
  "open_extra_sessions ops env uds port s =
     (let extra = vm_sessions env - 1 in
      if extra = 0 then (Inr [], s)
      else (case zo_open_extra ops uds port extra (zs_world s) of (rs, w) \<Rightarrow> (all_sessions rs, s\<lparr>zs_world := w\<rparr>)))"

definition log_tail :: "string \<Rightarrow> string" where
  "log_tail log = (case take 8 (rev (str_lines log)) of [] \<Rightarrow> [] | l # ls \<Rightarrow> l @ concat (map (\<lambda>x. '' | '' @ x) ls))"

definition open_primary_pool ::
  "'w zb_ops \<Rightarrow> environment \<Rightarrow> zb_config \<Rightarrow> string \<Rightarrow> string option \<Rightarrow> ('w, string list list) zb_act" where
  "open_primary_pool ops env c uds work s =
     (case zo_open ops uds (zc_guest_port c) (zs_world s) of
        (Inl e, w) \<Rightarrow>
          (Inl (ZBackend (''ZeroBoot session open failed: '' @ session_text e @
             (case work of
                Some d \<Rightarrow> ''; firecracker log tail: '' @ log_tail (zo_log ops (d @ ''/firecracker.log'') w)
              | None \<Rightarrow> []))), s\<lparr>zs_world := w\<rparr>)
      | (Inr primary, w) \<Rightarrow>
          and_then (open_extra_sessions ops env uds (zc_guest_port c)) (\<lambda>extra. ret (primary # extra)) (s\<lparr>zs_world := w\<rparr>))"

definition boot_and_open :: "'w zb_ops \<Rightarrow> host_env \<Rightarrow> environment \<Rightarrow> zb_config \<Rightarrow> ('w, string list list) zb_act" where
  "boot_and_open ops henv env c =
     and_then (lift_result (vm_paths c)) (\<lambda>(firecracker, kern, rootfs).
     and_then (verify_firecracker ops henv c) (\<lambda>_.
     and_then (on_world ZBackend (zo_work_dir ops)) (\<lambda>work.
     and_then (boot_vm_with_staged_rootfs ops env firecracker kern rootfs work) (\<lambda>uds.
       open_primary_pool ops env c uds None))))"

definition identity_now ::
  "'w zb_ops \<Rightarrow> (json \<Rightarrow> string) \<Rightarrow> host_env \<Rightarrow> environment \<Rightarrow> zb_config \<Rightarrow> ('w, string) zb_act" where
  "identity_now ops print henv env c s =
     (case snapshot_identity print henv env (zo_files ops (zs_world s)) c (zs_hashes s) of
        (r, cache) \<Rightarrow> (map_sum (\<lambda>e. ZBackend (he_error henv e)) id r, s\<lparr>zs_hashes := cache\<rparr>))"

definition reusable_now ::
  "'w zb_ops \<Rightarrow> (json \<Rightarrow> string) \<Rightarrow> host_env \<Rightarrow> environment \<Rightarrow> zb_config \<Rightarrow> path \<Rightarrow> ('w, bool) zb_act" where
  "reusable_now ops print henv env c dir s =
     (case parent_reusable print henv env (zo_files ops (zs_world s)) c dir (zs_hashes s) of
        (r, cache) \<Rightarrow> (r, s\<lparr>zs_hashes := cache\<rparr>))"

definition text_of_path :: "string \<Rightarrow> path \<Rightarrow> ('w, string) zb_act" where
  "text_of_path message p = lift_result (case path_text p of Some t \<Rightarrow> Inr t | None \<Rightarrow> Inl (ZBackend message))"

definition prepare_parent ::
  "'w zb_ops \<Rightarrow> (json \<Rightarrow> string) \<Rightarrow> host_env \<Rightarrow> environment \<Rightarrow> zb_config \<Rightarrow> path \<Rightarrow> ('w, path \<times> path) zb_act" where
  "prepare_parent ops print henv env c dir =
     (let parent = dir @ [''parent'']; vmstate = parent @ [''vmstate'']; mem = parent @ [''memory.bin''] in
      and_then (lift_result (vm_paths c)) (\<lambda>(firecracker, kern, rootfs).
      and_then (verify_firecracker ops henv c) (\<lambda>_.
      and_then (on_world ZBackend (zo_mkdir_private ops parent)) (\<lambda>_.
      and_then (text_of_path ''parent work path is not valid UTF-8'' (parent @ [''work''])) (\<lambda>work.
      and_then (on_world ZBackend (zo_mkdir_private ops (parent @ [''work'']))) (\<lambda>_.
      and_then (boot_vm_with_staged_rootfs ops env firecracker kern rootfs work) (\<lambda>uds.
      and_then (on_world (\<lambda>e. ZBackend (''ZeroBoot parent probe failed: '' @ session_text e)) (zo_open ops uds (zc_guest_port c))) (\<lambda>caps.
      and_then (lift_result (if ''execute'' \<in> set caps then Inr () else Inl (ZBackend ''ZeroBoot parent guest did not advertise execute''))) (\<lambda>_.
      and_then (do_world (zo_close_probe ops)) (\<lambda>_.
      and_then (text_of_path ''vmstate path is not valid UTF-8'' vmstate) (\<lambda>vmstate_text.
      and_then (text_of_path ''mem path is not valid UTF-8'' mem) (\<lambda>mem_text.
      and_then (on_world ZBackend (zo_snapshot ops vmstate_text mem_text)) (\<lambda>_.
      and_then (identity_now ops print henv env c) (\<lambda>identity s.
        (case zo_write ops (parent @ [''identity.json'']) identity (zs_world s) of
           (written, w) \<Rightarrow>
             and_then (on_world ZBackend (zo_harden ops parent)) (\<lambda>_.
             and_then (lift_result (map_sum ZBackend id written)) (\<lambda>_. ret (vmstate, mem))) (s\<lparr>zs_world := w\<rparr>))))))))))))))))"

text \<open>A stored snapshot that does not match is removed.\<close>

definition discard_stale :: "'w zb_ops \<Rightarrow> path \<Rightarrow> ('w, unit) zb_act" where
  "discard_stale ops stale s =
     (let t = hf_tree (zo_files ops (zs_world s)) in
      if path_is_file t (stale @ [''vmstate'']) \<and> path_is_file t (stale @ [''memory.bin'']) then do_world (zo_remove ops stale) s
      else (Inr (), s))"

definition ensure_parent_snapshot ::
  "'w zb_ops \<Rightarrow> (json \<Rightarrow> string) \<Rightarrow> host_env \<Rightarrow> environment \<Rightarrow> zb_config \<Rightarrow> path \<Rightarrow> ('w, path \<times> path) zb_act" where
  "ensure_parent_snapshot ops print henv env c dir =
     (let parent = dir @ [''parent''] in
      and_then (reusable_now ops print henv env c dir) (\<lambda>reuse.
        if reuse then ret (parent @ [''vmstate''], parent @ [''memory.bin''])
        else and_then (discard_stale ops parent) (\<lambda>_. prepare_parent ops print henv env c dir)))"

definition restore_and_open ::
  "'w zb_ops \<Rightarrow> (json \<Rightarrow> string) \<Rightarrow> host_env \<Rightarrow> environment \<Rightarrow> zb_config \<Rightarrow> path \<Rightarrow> ('w, string list list) zb_act" where
  "restore_and_open ops print henv env c dir =
     and_then (ensure_parent_snapshot ops print henv env c dir) (\<lambda>(vmstate, mem).
     and_then (on_world ZBackend (zo_harden ops (dir @ [''parent'']))) (\<lambda>_.
     and_then (verify_firecracker ops henv c) (\<lambda>_.
     and_then (lift_result (vm_paths c)) (\<lambda>(firecracker, kern, rootfs).
     and_then (on_world ZBackend (zo_work_dir ops)) (\<lambda>work.
     and_then (\<lambda>s. if zs_mode s = 2 then (Inr rootfs, s) else stage_private_rootfs ops work rootfs s) (\<lambda>child_rootfs.
     and_then (on_world ZBackend (zo_restore ops firecracker work (vm_mem_mib env) (vm_vcpu env) child_rootfs vmstate mem)) (\<lambda>(bare, uds).
     and_then (\<lambda>s. (Inr (), s\<lparr>zs_mode := (if bare then 2 else 1)\<rparr>)) (\<lambda>_.
     and_then (vm_uds uds) (\<lambda>u.
       open_primary_pool ops env c u (Some work))))))))))"


definition zb_capabilities :: "capability list" where
  "zb_capabilities = [CapExecute, CapHealth, CapStream, CapCancel, CapLs, CapFind, CapGrep, CapReadFile, CapWriteFile]"

definition scavenge_once :: "'w zb_ops \<Rightarrow> environment \<Rightarrow> 'w zb_state \<Rightarrow> 'w zb_state" where
  "scavenge_once ops env s =
     (if zs_scavenged s then s
      else s\<lparr>zs_world := zo_scavenge ops (snapshot_dir env) (zs_world s), zs_scavenged := True\<rparr>)"

definition unavailable :: "(zb_error + 'a) \<times> 'w zb_state \<Rightarrow> (provider_error + 'a) \<times> 'w zb_state" where
  "unavailable r = (map_sum (\<lambda>e. Unavailable (zb_text e)) id (fst r), snd r)"

text \<open>The result: the capabilities of the guest as each session of the pool got them, and the shard.\<close>

definition create_zero_boot ::
  "'w zb_ops \<Rightarrow> (json \<Rightarrow> string) \<Rightarrow> host_env \<Rightarrow> environment \<Rightarrow> zb_config \<Rightarrow> sandbox_spec \<Rightarrow> 'w zb_state
     \<Rightarrow> (provider_error + string list list \<times> string option) \<times> 'w zb_state" where
  "create_zero_boot ops print henv env c spec s =
     (case check_create_spec spec zb_capabilities of
        Inl e \<Rightarrow> (Inl e, s)
      | Inr _ \<Rightarrow>
          (case check_create_resources spec False of
             Inl e \<Rightarrow> (Inl e, s)
           | Inr _ \<Rightarrow>
               (let s1 = scavenge_once ops env s in
                case zb_validate c of
                  Inl m \<Rightarrow> (Inl (Unavailable (zb_text (ZInvalidConfiguration m))), s1)
                | Inr _ \<Rightarrow>
                    (case snapshot_shard env (zs_next s1) of
                       (None, next) \<Rightarrow> unavailable (and_then (boot_and_open ops henv env c) (\<lambda>cs. ret (cs, None)) (s1\<lparr>zs_next := next\<rparr>))
                     | (Some dir, next) \<Rightarrow>
                         (case zo_lock ops dir (zs_world s1) of
                            (Inl e, w) \<Rightarrow> (Inl (Unavailable e), s1\<lparr>zs_next := next, zs_world := w\<rparr>)
                          | (Inr _, w) \<Rightarrow>
                              (case restore_and_open ops print henv env c (os_components dir)
                                   (s1\<lparr>zs_next := next, zs_world := zo_close_base ops (snapshot_dir env) w\<rparr>) of
                                 (r, s2) \<Rightarrow> unavailable (map_sum id (\<lambda>cs. (cs, Some dir)) r,
                                   s2\<lparr>zs_world := zo_unlock ops dir (zs_world s2)\<rparr>)))))))"

section \<open>The operations of a sandbox\<close>

definition capabilities_from_negotiated :: "string list \<Rightarrow> capability list" where
  "capabilities_from_negotiated negotiated =
     filter (\<lambda>c. case capability_name c of Some n \<Rightarrow> n \<in> set negotiated | None \<Rightarrow> False)
       [CapExecute, CapHealth, CapStream, CapCancel, CapEval, CapLs, CapFind, CapGrep, CapReadFile, CapWriteFile]"

text \<open>A sandbox: the time limit of its configuration, and what each session negotiated; the first one is the primary.\<close>

record zb_sandbox =
  zb_timeout :: nat
  zb_negotiated :: "string list list"
  zb_advertised :: "capability list"

definition from_pool :: "nat \<Rightarrow> string list list \<Rightarrow> zb_sandbox" where
  "from_pool timeout sessions =
     \<lparr>zb_timeout = timeout, zb_negotiated = sessions, zb_advertised = capabilities_from_negotiated (hd sessions)\<rparr>"

definition check_supported :: "string list \<Rightarrow> capability \<Rightarrow> sandbox_error + unit" where
  "check_supported negotiated c =
     (case capability_name c of
        Some n \<Rightarrow> if n \<in> set negotiated then Inr () else Inl (SUnsupportedCapability c)
      | None \<Rightarrow> Inl (SUnsupportedCapability c))"

definition valid_or :: "contract_error + unit \<Rightarrow> sandbox_error + unit" where
  "valid_or r = map_sum SInvalidSpec id r"

text \<open>
  The parameters: the texts of errors, what claiming a slot of the pool gives, and what the session of a slot
  answers. They are functions of nothing or of the slot, so that an operation that fails earlier does not use them.
\<close>

record zb_texts =
  zt_contract :: "contract_error \<Rightarrow> string"
  zt_provider :: "provider_error \<Rightarrow> string"

definition map_provider_error :: "zb_texts \<Rightarrow> provider_error \<Rightarrow> sandbox_error" where
  "map_provider_error tx e = STransport (zt_provider tx e)"

definition sandbox_exec ::
  "zb_texts \<Rightarrow> zb_sandbox \<Rightarrow> exec_spec \<Rightarrow> provider_error + nat \<Rightarrow> (nat \<Rightarrow> execute \<Rightarrow> session_error + exec_result)
     \<Rightarrow> sandbox_error + exec_result" where
  "sandbox_exec tx sb spec acquire run =
     res_bind (valid_or (exec_spec_validate spec)) (\<lambda>_.
     res_bind (check_supported (hd (zb_negotiated sb)) CapExecute) (\<lambda>_.
     res_bind (map_sum (SExecution \<circ> zt_contract tx) id (execute_request spec (zb_timeout sb))) (\<lambda>request.
     res_bind (map_sum (map_provider_error tx) id acquire) (\<lambda>slot.
       map_sum map_session_error id (run slot request)))))"

definition sandbox_health :: "zb_sandbox \<Rightarrow> session_pool \<Rightarrow> (nat \<Rightarrow> session_error + health) \<Rightarrow> sandbox_error + health" where
  "sandbox_health sb pool run =
     (let i = primary_alive pool in
      res_bind (check_supported (zb_negotiated sb ! i) CapHealth) (\<lambda>_. map_sum map_session_error id (run i)))"

text \<open>\<^verbatim>\<open>ZeroBootSession::stream\<close> tests the capability once more.\<close>

definition session_stream :: "string list \<Rightarrow> session_error + 's \<Rightarrow> session_error + 's" where
  "session_stream negotiated begun =
     (if ''stream'' \<in> set negotiated then begun else Inl (SeProtocol ''guest does not advertise the stream capability''))"

definition sandbox_stream ::
  "zb_texts \<Rightarrow> zb_sandbox \<Rightarrow> stream_spec \<Rightarrow> provider_error + nat \<Rightarrow> (nat \<Rightarrow> execute \<Rightarrow> session_error + 's) \<Rightarrow> sandbox_error + nat \<times> 's" where
  "sandbox_stream tx sb spec acquire begin_turn =
     res_bind (valid_or (stream_validate spec)) (\<lambda>_.
     res_bind (check_supported (hd (zb_negotiated sb)) CapStream) (\<lambda>_.
     res_bind (stream_to_execute spec (zb_timeout sb)) (\<lambda>request.
     res_bind (map_sum (map_provider_error tx) id acquire) (\<lambda>slot.
       map_sum map_session_error (\<lambda>x. (slot, x)) (session_stream (zb_negotiated sb ! slot) (begin_turn slot request))))))"

text \<open>\<^verbatim>\<open>cancel_active\<close>: the identifier of the active turn, if any, and what writing the cancel frame gives.\<close>

definition cancel_active :: "bytes option \<Rightarrow> (bytes \<Rightarrow> session_error + unit) \<Rightarrow> session_error + bool" where
  "cancel_active active send = (case active of None \<Rightarrow> Inr False | Some r \<Rightarrow> map_sum id (\<lambda>_. True) (send r))"

fun cancel_all :: "(session_error + bool) list \<Rightarrow> bool \<Rightarrow> session_error option \<Rightarrow> bool \<times> session_error option" where
  "cancel_all [] targeted last_error = (targeted, last_error)"
| "cancel_all (Inr sent # rs) targeted last_error = cancel_all rs (targeted \<or> sent) last_error"
| "cancel_all (Inl e # rs) targeted last_error = cancel_all rs targeted (Some e)"

definition sandbox_cancel :: "zb_sandbox \<Rightarrow> cancel_request \<Rightarrow> (session_error + bool) list \<Rightarrow> sandbox_error + bool" where
  "sandbox_cancel sb request outcomes =
     res_bind (valid_or (cancel_validate request)) (\<lambda>_.
     res_bind (check_supported (hd (zb_negotiated sb)) CapCancel) (\<lambda>_.
       (case cancel_all outcomes False None of
          (_, Some e) \<Rightarrow> Inl (map_session_error e)
        | (targeted, None) \<Rightarrow> Inr targeted)))"

text \<open>\<^verbatim>\<open>fs_rpc\<close>; \<open>payload\<close> and \<open>parse\<close> are the JSON serializer and parser of the request and the result.\<close>

definition sandbox_fs_rpc ::
  "zb_texts \<Rightarrow> zb_sandbox \<Rightarrow> capability \<Rightarrow> byte \<Rightarrow> string \<Rightarrow> contract_error + unit \<Rightarrow> string + bytes \<Rightarrow> (bytes \<Rightarrow> string + 'r)
     \<Rightarrow> provider_error + nat \<Rightarrow> (nat \<Rightarrow> zfs \<Rightarrow> session_error + bytes) \<Rightarrow> sandbox_error + 'r" where
  "sandbox_fs_rpc tx sb c op path valid payload parse acquire run =
     res_bind (valid_or valid) (\<lambda>_.
     res_bind (map_sum (map_provider_error tx) id acquire) (\<lambda>slot.
     res_bind (check_supported (zb_negotiated sb ! slot) c) (\<lambda>_.
     res_bind (map_sum SExecution id payload) (\<lambda>data.
     res_bind (map_sum map_session_error id (run slot (filesystem_request op path data))) (\<lambda>answer.
       map_sum (\<lambda>e. SExecution (''invalid FsResult payload: '' @ e)) id (parse answer))))))"

fun fs_op_of :: "capability \<Rightarrow> byte" where
  "fs_op_of CapLs = 1"
| "fs_op_of CapFind = 2"
| "fs_op_of CapGrep = 3"
| "fs_op_of CapReadFile = 4"
| "fs_op_of CapWriteFile = 5"
| "fs_op_of _ = 0"


section \<open>Shards\<close>

fun shard_sequence :: "environment \<Rightarrow> nat \<Rightarrow> u64 \<Rightarrow> string option list" where
  "shard_sequence env 0 next = []"
| "shard_sequence env (Suc k) next = (case snapshot_shard env next of (d, next1) \<Rightarrow> d # shard_sequence env k next1)"

lemma shard_dir_inject: "shard_dir base a = shard_dir base b \<longleftrightarrow> a = b"
proof -
  have "dec_string a = dec_string b \<longleftrightarrow> a = b" by (metis digits_value_dec_string)
  then show ?thesis by (simp add: shard_dir_def join_name_def)
qed

lemma shard_at:
  assumes "snapshot_dir env = Some base" "1 < snapshot_shards env" "unat next + k < 2 ^ 64"
  shows "shard_sequence env k next =
    map (\<lambda>i. Some (shard_dir base ((unat next + i) mod snapshot_shards env))) [0..<k]"
  using assms(3)
proof (induction k arbitrary: "next")
  case (Suc k)
  have n: "unat (next + 1) = unat next + 1" using Suc.prems by (simp add: unat_word_ariths)
  show ?case using assms(1,2) Suc.IH [of "next + 1"] Suc.prems n
    by (simp add: snapshot_shard_def map_upt_Suc del: upt_Suc)
qed simp

text \<open>Any creations in a row, as many as there are shards, go to different shards.\<close>

theorem shards_take_turns:
  assumes "snapshot_dir env = Some base" "1 < snapshot_shards env" "unat next + snapshot_shards env < 2 ^ 64"
  shows "distinct (shard_sequence env (snapshot_shards env) next)"
proof -
  let ?n = "snapshot_shards env"
  have less: "(unat next + x) mod ?n \<noteq> (unat next + y) mod ?n" if "x < y" "y < ?n" for x y
  proof
    assume "(unat next + x) mod ?n = (unat next + y) mod ?n"
    then have "?n dvd y - x" using mod_eq_dvd_iff_nat [of "unat next + x" "unat next + y" ?n] that(1) by simp
    then show False using that by (auto dest: dvd_imp_le)
  qed
  have "inj_on (\<lambda>i. (unat next + i) mod ?n) {0..<?n}"
    unfolding inj_on_def using less by (metis atLeastLessThan_iff linorder_neqE_nat)
  note inj = inj_onD [OF this]
  show ?thesis unfolding shard_at [OF assms] distinct_map
  proof (intro conjI inj_onI)
    fix x y assume xy: "x \<in> set [0..<?n]" "y \<in> set [0..<?n]"
      and "Some (shard_dir base ((unat next + x) mod ?n)) = Some (shard_dir base ((unat next + y) mod ?n))"
    then have "(unat next + x) mod ?n = (unat next + y) mod ?n" by (simp only: option.inject shard_dir_inject)
    then show "x = y" by (rule inj) (use xy in simp_all)
  qed simp
qed

section \<open>Stored snapshots\<close>

text \<open>What an asset is by its content, and caches whose entries are right for the files.\<close>

definition asset_digest :: "host_env \<Rightarrow> node \<Rightarrow> path option \<Rightarrow> errno + string" where
  "asset_digest henv t p =
     (case p of
        Some q \<Rightarrow> if path_is_file t q then map_sum id (\<lambda>b. hex_text (he_sha256 henv b)) (read_file t q) else Inr ''missing''
      | None \<Rightarrow> Inr ''missing'')"

definition cache_right :: "host_env \<Rightarrow> host_files \<Rightarrow> hash_cache \<Rightarrow> bool" where
  "cache_right henv h cache \<longleftrightarrow> (\<forall>p stamp hash. cache p = Some (stamp, hash) \<longrightarrow> file_stamp h p = Inr stamp \<longrightarrow>
     map_sum id (\<lambda>b. hex_text (he_sha256 henv b)) (read_file (hf_tree h) p) = Inr hash)"

lemma asset_hash_right:
  assumes "cache_right henv h cache" "asset_hash henv h p cache = (r, cache1)"
  shows "r = asset_digest henv (hf_tree h) p \<and> cache_right henv h cache1"
proof (cases p)
  case None
  then show ?thesis using assms by (simp add: asset_hash_def asset_digest_def)
next
  case (Some q)
  show ?thesis
  proof (cases "path_is_file (hf_tree h) q")
    case False
    then show ?thesis using assms Some by (simp add: asset_hash_def asset_digest_def)
  next
    case True
    let ?fresh = "map_sum id (\<lambda>b. hex_text (he_sha256 henv b)) (read_file (hf_tree h) q)"
    have a: "asset_hash henv h p cache = file_sha256 henv h q cache" "asset_digest henv (hf_tree h) p = ?fresh"
      using Some True by (simp_all add: asset_hash_def asset_digest_def)
    show ?thesis
    proof (cases "file_stamp h q")
      case (Inl e)
      then show ?thesis using assms a by (simp add: file_sha256_def)
    next
      case (Inr stamp)
      show ?thesis
      proof (cases "\<exists>hash. cache q = Some (stamp, hash)")
        case True
        then obtain hash where "cache q = Some (stamp, hash)" by blast
        moreover from this have "?fresh = Inr hash" using assms(1) Inr unfolding cache_right_def by blast
        ultimately show ?thesis using assms a Inr by (simp add: file_sha256_def)
      next
        case False
        then have "file_sha256 henv h q cache =
            (?fresh, case ?fresh of Inr hash \<Rightarrow> cache(q \<mapsto> (stamp, hash)) | Inl _ \<Rightarrow> cache)"
          using Inr by (auto simp: file_sha256_def Let_def split: option.splits prod.splits)
        then have r: "r = ?fresh" "cache1 = (case ?fresh of Inr hash \<Rightarrow> cache(q \<mapsto> (stamp, hash)) | Inl _ \<Rightarrow> cache)"
          using assms(2) a by (metis prod.inject)+
        have "cache_right henv h cache1"
          using assms(1) Inr unfolding r(2) by (cases ?fresh) (auto simp: cache_right_def)
        then show ?thesis using r(1) a(2) by simp
      qed
    qed
  qed
qed

lemma snapshot_identity_right:
  assumes "cache_right henv h cache" "snapshot_identity print henv env h c cache = (Inr text, cache1)"
  shows "\<exists>k r f. asset_digest henv (hf_tree h) (zc_kernel c) = Inr k \<and> asset_digest henv (hf_tree h) (zc_rootfs c) = Inr r
    \<and> asset_digest henv (hf_tree h) (zc_firecracker c) = Inr f
    \<and> text = print (identity_object k r f (zc_guest_port c) (vm_mem_mib env) (vm_vcpu env))"
proof -
  obtain k c1 where k: "asset_hash henv h (zc_kernel c) cache = (Inr k, c1)"
    using assms(2) by (auto simp: snapshot_identity_def split: prod.splits sum.splits)
  obtain r c2 where r: "asset_hash henv h (zc_rootfs c) c1 = (Inr r, c2)"
    using assms(2) k by (auto simp: snapshot_identity_def split: prod.splits sum.splits)
  obtain f c3 where f: "asset_hash henv h (zc_firecracker c) c2 = (Inr f, c3)"
    using assms(2) k r by (auto simp: snapshot_identity_def split: prod.splits sum.splits)
  note 1 = asset_hash_right [OF assms(1) k]
  note 2 = asset_hash_right [OF conjunct2 [OF 1] r]
  note 3 = asset_hash_right [OF conjunct2 [OF 2] f]
  have "asset_digest henv (hf_tree h) (zc_kernel c) = Inr k" "asset_digest henv (hf_tree h) (zc_rootfs c) = Inr r"
    "asset_digest henv (hf_tree h) (zc_firecracker c) = Inr f" using 1 2 3 by simp_all
  moreover have "text = print (identity_object k r f (zc_guest_port c) (vm_mem_mib env) (vm_vcpu env))"
    using assms(2) k r f by (simp add: snapshot_identity_def)
  ultimately show ?thesis by blast
qed

text \<open>
  A stored snapshot is used only when kernel, root file system and Firecracker binary have the digests, and the
  port and the shape of the machine the values, that they had when its identity was taken.
\<close>

theorem snapshot_reused_for_same_assets:
  assumes "inj print"
    "snapshot_identity print henv env0 h0 c0 cache0 = (Inr text, cache0')" "cache_right henv h0 cache0"
    "read_file (hf_tree h) (dir @ [''parent'', ''identity.json'']) = Inr stored" "from_utf8 stored = Some text"
    "parent_reusable print henv env h c dir cache = (Inr True, cache')" "cache_right henv h cache"
  shows "asset_digest henv (hf_tree h) (zc_kernel c) = asset_digest henv (hf_tree h0) (zc_kernel c0)
     \<and> asset_digest henv (hf_tree h) (zc_rootfs c) = asset_digest henv (hf_tree h0) (zc_rootfs c0)
     \<and> asset_digest henv (hf_tree h) (zc_firecracker c) = asset_digest henv (hf_tree h0) (zc_firecracker c0)
     \<and> zc_guest_port c = zc_guest_port c0 \<and> vm_mem_mib env = vm_mem_mib env0 \<and> vm_vcpu env = vm_vcpu env0"
proof -
  obtain text' cache1 where now: "snapshot_identity print henv env h c cache = (Inr text', cache1)" "from_utf8 stored = Some text'"
    using assms(4,6) by (auto simp: parent_reusable_def Let_def split: if_splits prod.splits sum.splits)
  from snapshot_identity_right [OF assms(3,2)] snapshot_identity_right [OF assms(7) now(1)] assms(1,5) now(2)
  show ?thesis by (auto simp: identity_object_def word_uint_eq_iff dest!: injD)
qed


section \<open>No unverified binary runs\<close>

text \<open>The process has no verdict in its cache that accepts the binary.\<close>

definition no_acceptance :: "zb_config \<Rightarrow> 'w zb_state \<Rightarrow> bool" where
  "no_acceptance c s \<longleftrightarrow> (\<forall>p stamp v. zc_firecracker c = Some p \<longrightarrow> zs_verified s p \<noteq> Some (stamp, Inr v))"

definition always_refused :: "'w zb_ops \<Rightarrow> host_env \<Rightarrow> zb_config \<Rightarrow> bool" where
  "always_refused ops henv c \<longleftrightarrow>
     (\<forall>p w v. zc_firecracker c = Some p \<longrightarrow> verify_uncached henv (hf_tree (zo_files ops w)) p \<noteq> Inr v)"

text \<open>An action that neither depends on the operations that start machines nor gives an acceptance, and one that also fails.\<close>

definition same :: "zb_config \<Rightarrow> ('w, 'a) zb_act \<Rightarrow> ('w, 'a) zb_act \<Rightarrow> bool" where
  "same c A B \<longleftrightarrow> (\<forall>s. no_acceptance c s \<longrightarrow> A s = B s \<and> no_acceptance c (snd (A s)))"

definition refuses :: "zb_config \<Rightarrow> ('w, 'a) zb_act \<Rightarrow> bool" where
  "refuses c A \<longleftrightarrow> (\<forall>s. no_acceptance c s \<longrightarrow> (\<exists>e. fst (A s) = Inl e))"

lemma same_and_then:
  fixes A B :: "('w, 'a) zb_act"
  assumes "same c A B" "\<And>a. same c (F a) (G a)"
  shows "same c (and_then A F) (and_then B G)"
  unfolding same_def
proof (intro allI impI)
  fix s :: "'w zb_state" assume "no_acceptance c s"
  then have "A s = B s" "no_acceptance c (snd (A s))" using assms(1) unfolding same_def by blast+
  then show "and_then A F s = and_then B G s \<and> no_acceptance c (snd (and_then A F s))"
  proof (cases "B s")
    case (Pair r t)
    show ?thesis
    proof (cases r)
      case (Inr a)
      have "F a t = G a t" "no_acceptance c (snd (F a t))"
        using assms(2) [of a] \<open>A s = B s\<close> \<open>no_acceptance c (snd (A s))\<close> Pair unfolding same_def by auto
      then show ?thesis using \<open>A s = B s\<close> Pair Inr by (simp add: and_then_def)
    qed (use \<open>A s = B s\<close> \<open>no_acceptance c (snd (A s))\<close> Pair in \<open>simp add: and_then_def\<close>)
  qed
qed

lemma same_refused:
  fixes A B :: "('w, 'a) zb_act"
  assumes "same c A B" "refuses c B"
  shows "same c (and_then A F) (and_then B G)"
  unfolding same_def
proof (intro allI impI)
  fix s :: "'w zb_state" assume s: "no_acceptance c s"
  then obtain e t where "B s = (Inl e, t)" using assms(2) unfolding refuses_def by (metis prod.collapse)
  then show "and_then A F s = and_then B G s \<and> no_acceptance c (snd (and_then A F s))"
    using assms(1) s by (auto simp: and_then_def same_def)
qed

lemma refuses_and_then: "refuses c A \<Longrightarrow> refuses c (and_then A F)"
  by (fastforce simp: refuses_def and_then_def split: prod.splits sum.splits)

lemma refuses_after:
  fixes A :: "('w, 'a) zb_act"
  assumes "same c A A" "\<And>a. refuses c (F a)"
  shows "refuses c (and_then A F)"
  unfolding refuses_def
proof (intro allI impI)
  fix s :: "'w zb_state" assume "no_acceptance c s"
  then have "no_acceptance c (snd (A s))" using assms(1) by (simp add: same_def)
  then show "\<exists>e. fst (and_then A F s) = Inl e"
    using assms(2) by (cases "A s") (auto simp: and_then_def refuses_def split: sum.splits)
qed

lemma no_acceptance_world [simp]:
  "no_acceptance c (s\<lparr>zs_world := w\<rparr>) = no_acceptance c s" "no_acceptance c (s\<lparr>zs_hashes := hs\<rparr>) = no_acceptance c s"
  "no_acceptance c (s\<lparr>zs_next := n\<rparr>) = no_acceptance c s" "no_acceptance c (s\<lparr>zs_scavenged := b\<rparr>) = no_acceptance c s"
  by (simp_all add: no_acceptance_def)

lemma same_simple:
  "same c (lift_result r) (lift_result r)" "same c (on_world g op) (on_world g op)" "same c (do_world f) (do_world f)"
  "same c (ret a) (ret a)" "same c (reusable_now ops print henv env d dir) (reusable_now ops print henv env d dir)"
  "same c (discard_stale (ops\<lparr>zo_boot := b, zo_restore := r'\<rparr>) stale) (discard_stale ops stale)"
  by (auto simp: same_def lift_result_def on_world_def do_world_def ret_def reusable_now_def discard_stale_def Let_def split: prod.splits)

lemma same_self: "same c A B \<Longrightarrow> same c B B"
  unfolding same_def by metis

lemma verify_refuses:
  assumes "always_refused ops henv c"
  shows "refuses c (verify_firecracker ops henv c) \<and> same c (verify_firecracker ops henv c) (verify_firecracker ops henv c)"
proof -
  have "(\<exists>e. fst (verify_firecracker ops henv c s) = Inl e) \<and> no_acceptance c (snd (verify_firecracker ops henv c s))"
    if s: "no_acceptance c s" for s
  proof (cases "zc_firecracker c")
    case (Some p)
    let ?h = "zo_files ops (zs_world s)"
    have un: "verify_uncached henv (hf_tree ?h) p \<noteq> Inr v" for v using assms Some by (simp add: always_refused_def)
    have c: "zs_verified s p \<noteq> Some (st, Inr v)" for st v using s Some by (cases st) (simp add: no_acceptance_def)
    obtain r cache where v: "verify_firecracker_binary henv ?h p (zs_verified s) = (r, cache)" by fastforce
    have "(\<exists>e. r = Inl e) \<and> (\<forall>st v. cache p \<noteq> Some (st, Inr v))"
      using v un c by (auto simp: verify_firecracker_binary_def Let_def split: sum.splits option.splits prod.splits if_splits)
        (metis sum.exhaust)+
    then show ?thesis using Some v by (auto simp: verify_firecracker_def no_acceptance_def)
  qed (simp add: verify_firecracker_def s)
  then show ?thesis by (simp add: refuses_def same_def)
qed


text \<open>The same operations with other ways to start a machine.\<close>

lemma boot_and_open_same:
  fixes ops :: "'w zb_ops"
  assumes "always_refused ops henv c"
  shows "same c (boot_and_open (ops\<lparr>zo_boot := b, zo_restore := r\<rparr>) henv env c) (boot_and_open ops henv env c)"
    and "refuses c (boot_and_open ops henv env c)"
proof -
  have v: "verify_firecracker (ops\<lparr>zo_boot := b, zo_restore := r\<rparr>) henv c = verify_firecracker ops henv c"
    by (simp add: fun_eq_iff verify_firecracker_def cong: option.case_cong)
  note ref = verify_refuses [OF assms]
  show "same c (boot_and_open (ops\<lparr>zo_boot := b, zo_restore := r\<rparr>) henv env c) (boot_and_open ops henv env c)"
    unfolding boot_and_open_def v
    by (rule same_and_then [OF same_simple(1)]) (auto split: prod.splits intro!: same_refused conjunct1 [OF ref] conjunct2 [OF ref])
  show "refuses c (boot_and_open ops henv env c)"
    unfolding boot_and_open_def
    by (rule refuses_after [OF same_simple(1)]) (auto split: prod.splits intro!: refuses_and_then conjunct1 [OF ref])
qed

lemma restore_and_open_same:
  fixes ops :: "'w zb_ops"
  assumes "always_refused ops henv c"
  shows "same c (restore_and_open (ops\<lparr>zo_boot := b, zo_restore := r\<rparr>) print henv env c dir) (restore_and_open ops print henv env c dir)"
    and "refuses c (restore_and_open ops print henv env c dir)"
proof -
  let ?ops = "ops\<lparr>zo_boot := b, zo_restore := r\<rparr>"
  have v: "verify_firecracker ?ops henv c = verify_firecracker ops henv c"
    "reusable_now ?ops print henv env c dir = reusable_now ops print henv env c dir"
    by (simp_all add: fun_eq_iff verify_firecracker_def reusable_now_def cong: option.case_cong)
  note ref = verify_refuses [OF assms]
  have p: "same c (prepare_parent ?ops print henv env c dir) (prepare_parent ops print henv env c dir)"
    unfolding prepare_parent_def v Let_def
    by (rule same_and_then [OF same_simple(1)]) (auto split: prod.splits intro!: same_refused conjunct1 [OF ref] conjunct2 [OF ref])
  have e: "same c (ensure_parent_snapshot ?ops print henv env c dir) (ensure_parent_snapshot ops print henv env c dir)"
    unfolding ensure_parent_snapshot_def v Let_def
    by (rule same_and_then [OF same_simple(5)]) (auto intro: same_simple(4) same_and_then [OF same_simple(6) p])
  show "same c (restore_and_open ?ops print henv env c dir) (restore_and_open ops print henv env c dir)"
    unfolding restore_and_open_def v
    by (rule same_and_then [OF e]) (auto split: prod.splits intro!: same_and_then [OF same_simple(2)] same_refused conjunct1 [OF ref] conjunct2 [OF ref])
  from same_self [OF e] show "refuses c (restore_and_open ops print henv env c dir)"
    unfolding restore_and_open_def
    by (rule refuses_after)
       (simp split: prod.split, intro allI impI refuses_after [OF same_simple(2)], rule refuses_and_then [OF conjunct1 [OF ref]])
qed


text \<open>
  C12. When the checksum manifests refuse the Firecracker binary and the process has not accepted it before, creating a
  sandbox fails, and the same way whatever starting or restoring a machine would do: no machine is started, be it
  a fresh one, the parent of a snapshot, or one restored from a snapshot that is already there.
\<close>

theorem unverified_binary_never_runs:
  fixes ops :: "'w zb_ops" and s :: "'w zb_state"
  assumes "always_refused ops henv c" "no_acceptance c s"
  shows "create_zero_boot (ops\<lparr>zo_boot := b, zo_restore := r\<rparr>) print henv env c spec s = create_zero_boot ops print henv env c spec s
     \<and> (\<exists>e. fst (create_zero_boot ops print henv env c spec s) = Inl e)"
proof -
  let ?ops = "ops\<lparr>zo_boot := b, zo_restore := r\<rparr>"
  have sc: "scavenge_once ?ops env s = scavenge_once ops env s" "no_acceptance c (scavenge_once ops env s)"
    using assms(2) by (simp_all add: scavenge_once_def)
  have cold: "and_then (boot_and_open ?ops henv env c) F t = and_then (boot_and_open ops henv env c) F t
      \<and> (\<exists>e t'. and_then (boot_and_open ops henv env c) F t = (Inl e, t'))" if "no_acceptance c t" for F and t :: "'w zb_state"
    using boot_and_open_same(1) [OF assms(1), where b = b and r = r and env = env] boot_and_open_same(2) [OF assms(1), where env = env] that
    by (cases "boot_and_open ops henv env c t") (auto simp: same_def refuses_def and_then_def)
  have hot: "restore_and_open ?ops print henv env c d t = restore_and_open ops print henv env c d t
      \<and> (\<exists>e t'. restore_and_open ops print henv env c d t = (Inl e, t'))" if "no_acceptance c t" for d and t :: "'w zb_state"
    using restore_and_open_same(1) [OF assms(1), where b = b and r = r and print = print and env = env and dir = d]
      restore_and_open_same(2) [OF assms(1), where print = print and env = env and dir = d] that
    by (cases "restore_and_open ops print henv env c d t") (auto simp: same_def refuses_def)
  have restored: "restore_and_open ?ops print henv env c d t = restore_and_open ops print henv env c d t"
    "\<exists>e t'. restore_and_open ops print henv env c d t = (Inl e, t')" if "no_acceptance c t" for d and t :: "'w zb_state"
    using hot [OF that] by blast+
  show ?thesis
  proof (cases "check_create_spec spec zb_capabilities")
    case (Inr a)
    show ?thesis
    proof (cases "check_create_resources spec False")
      case (Inr b)
      show ?thesis
      proof (cases "zb_validate c")
        case (Inr u)
        let ?s = "scavenge_once ops env s"
        obtain shard n where sh: "snapshot_shard env (zs_next ?s) = (shard, n)" by fastforce
        show ?thesis
        proof (cases shard)
          case None
          let ?F = "\<lambda>cs. ret (cs, None :: string option)"
          have "no_acceptance c (?s\<lparr>zs_next := n\<rparr>)" using sc(2) by simp
          from cold [OF this, of ?F] obtain e t' where
            "and_then (boot_and_open ?ops henv env c) ?F (?s\<lparr>zs_next := n\<rparr>) = (Inl e, t')"
            "and_then (boot_and_open ops henv env c) ?F (?s\<lparr>zs_next := n\<rparr>) = (Inl e, t')" by auto
          then show ?thesis
            using sc \<open>check_create_spec spec zb_capabilities = Inr a\<close> \<open>check_create_resources spec False = Inr b\<close> Inr sh None
            by (simp add: create_zero_boot_def unavailable_def)
        next
          case (Some d)
          obtain l w where l: "zo_lock ops d (zs_world ?s) = (l, w)" by fastforce
          let ?t = "?s\<lparr>zs_next := n, zs_world := zo_close_base ops (snapshot_dir env) w\<rparr>"
          show ?thesis
            using restored [of ?t "os_components d"] sc \<open>check_create_spec spec zb_capabilities = Inr a\<close>
              \<open>check_create_resources spec False = Inr b\<close> Inr sh Some l
            by (cases l) (auto simp: create_zero_boot_def unavailable_def)
        qed
      qed (use sc Inr \<open>check_create_spec spec zb_capabilities = Inr a\<close> in \<open>simp add: create_zero_boot_def\<close>)
    qed (use Inr in \<open>simp add: create_zero_boot_def\<close>)
  qed (simp add: create_zero_boot_def)
qed


section \<open>What a sandbox lets through\<close>

lemma advertised_iff: "c \<in> set (capabilities_from_negotiated n) \<longleftrightarrow> check_supported n c = Inr ()"
  by (cases c) (auto simp: capabilities_from_negotiated_def check_supported_def)

lemma check_supported_other: "check_supported n c \<noteq> Inr () \<Longrightarrow> check_supported n c = Inl (SUnsupportedCapability c)"
  by (auto simp: check_supported_def split: option.splits if_splits)

lemma check_supported_same: "set n = set m \<Longrightarrow> check_supported n c = check_supported m c"
  by (auto simp: check_supported_def split: option.splits)

text \<open>An operation that is refused without anything being claimed or sent.\<close>

definition refused :: "contract_error + unit \<Rightarrow> capability \<Rightarrow> sandbox_error + 'a \<Rightarrow> bool" where
  "refused valid c r \<longleftrightarrow> r = (case valid of Inl e \<Rightarrow> Inl (SInvalidSpec e) | Inr _ \<Rightarrow> Inl (SUnsupportedCapability c))"

text \<open>
  When all sessions of a sandbox negotiated the same capabilities, an operation whose capability is not advertised
  is refused before anything is sent to a guest; a file operation claims a slot first.
\<close>

theorem unadvertised_refused:
  assumes "sb = from_pool timeout sessions" "\<And>n. n \<in> set sessions \<Longrightarrow> set n = set (hd sessions)"
    "primary_alive pool < length sessions" "slot < length sessions"
  shows "(CapExecute \<notin> set (zb_advertised sb) \<longrightarrow> refused (exec_spec_validate spec) CapExecute (sandbox_exec tx sb spec acquire run))
     \<and> (CapStream \<notin> set (zb_advertised sb) \<longrightarrow> refused (stream_validate sspec) CapStream (sandbox_stream tx sb sspec acquire begin_turn))
     \<and> (CapCancel \<notin> set (zb_advertised sb) \<longrightarrow> refused (cancel_validate creq) CapCancel (sandbox_cancel sb creq outcomes))
     \<and> (CapHealth \<notin> set (zb_advertised sb) \<longrightarrow> refused (Inr ()) CapHealth (sandbox_health sb pool probe))
     \<and> (c \<notin> set (zb_advertised sb) \<longrightarrow> refused valid c (sandbox_fs_rpc tx sb c op path valid payload parse (Inr slot) fs))"
proof -
  have adv: "zb_advertised sb = capabilities_from_negotiated (hd sessions)" "zb_negotiated sb = sessions"
    using assms(1) by (simp_all add: from_pool_def)
  have no: "check_supported (hd sessions) d = Inl (SUnsupportedCapability d)" if "d \<notin> set (zb_advertised sb)" for d
    using that check_supported_other unfolding adv advertised_iff by blast
  have no_at: "check_supported (sessions ! i) d = Inl (SUnsupportedCapability d)" if "i < length sessions" "d \<notin> set (zb_advertised sb)" for i d
    using no [OF that(2)] check_supported_same [OF assms(2) [OF nth_mem [OF that(1)]]] by simp
  show ?thesis
    using no no_at assms(3,4) adv
    by (auto simp: refused_def sandbox_exec_def sandbox_stream_def sandbox_cancel_def sandbox_health_def sandbox_fs_rpc_def
        valid_or_def Let_def split: sum.splits)
qed

section \<open>Witnesses\<close>

instance json :: countable
  by countable_datatype

definition count_print :: "json \<Rightarrow> string" where
  "count_print j = dec_string (to_nat j)"

lemma inj_count_print: "inj count_print"
  by (rule injI) (metis count_print_def digits_value_dec_string to_nat_split)


definition fc_path :: path where
  "fc_path = [''opt'', ''bin'', ''fc'']"

definition fc_config :: zb_config where
  "fc_config = zb_config_default\<lparr>zc_kernel := Some [''k''], zc_rootfs := Some [''r''], zc_firecracker := Some fc_path\<rparr>"

text \<open>A host whose Firecracker binary is not the one its manifest lists.\<close>

definition bad_ops :: "unit zb_ops" where
  "bad_ops = \<lparr>zo_files = (\<lambda>_. \<lparr>hf_tree = sums_tree 8, hf_mtime = (\<lambda>_. 0)\<rparr>), zo_scavenge = (\<lambda>_ w. w), zo_lock = (\<lambda>_ w. (Inr (), w)),
     zo_unlock = (\<lambda>_ w. w), zo_close_base = (\<lambda>_ w. w), zo_remove = (\<lambda>_ w. w), zo_mkdir_private = (\<lambda>_ w. (Inr (), w)),
     zo_harden = (\<lambda>_ w. (Inr (), w)), zo_work_dir = (\<lambda>w. (Inr ''/tmp/d'', w)), zo_copy = (\<lambda>_ _ w. (Inr (), w)),
     zo_write = (\<lambda>_ _ w. (Inr (), w)), zo_boot = (\<lambda>_ _ _ _ _ _ w. (Inr (Some ''uds''), w)),
     zo_restore = (\<lambda>_ _ _ _ _ _ _ w. (Inr (True, Some ''uds''), w)), zo_snapshot = (\<lambda>_ _ w. (Inr (), w)),
     zo_open = (\<lambda>_ _ w. (Inr [''execute''], w)), zo_open_extra = (\<lambda>_ _ n w. (replicate n (Inr [''execute'']), w)),
     zo_close_probe = (\<lambda>w. w), zo_log = (\<lambda>_ _. [])\<rparr>"

definition fresh_process :: "unit zb_state" where
  "fresh_process = \<lparr>zs_world = (), zs_verified = Map.empty, zs_hashes = Map.empty, zs_next = 0, zs_mode = 0, zs_scavenged = False\<rparr>"

theorem shards_take_turns_witness:
  "distinct (shard_sequence [''RFB_ZBRT_SNAPSHOT_DIR'' \<mapsto> ''/s''] 2 5)"
proof -
  let ?e = "[''RFB_ZBRT_SNAPSHOT_DIR'' \<mapsto> ''/s'']"
  have "trim ''/s'' = ''/s''" using trim_graphic [of "CHR ''/''" "CHR ''s''" "[]"] by (simp add: graphic_def)
  then have "snapshot_dir ?e = Some ''/s''" by (simp add: snapshot_dir_def)
  moreover have n: "snapshot_shards ?e = 2" by (simp add: snapshot_shards_def env_positive_def or_else_def)
  ultimately show ?thesis using shards_take_turns [of ?e "''/s''" 5] by simp
qed

theorem snapshot_reused_for_same_assets_witness:
  "\<exists>stored. asset_digest sums_host (Dir [(''s'', Dir [(''parent'', Dir [(''vmstate'', File [] 384), (''memory.bin'', File [] 384),
       (''identity.json'', File stored 384)])]), (''k'', File [7] 420)]) (Some [''k''])
     = asset_digest sums_host (Dir [(''k'', File [7] 420)]) (Some [''k''])"
proof -
  let ?c = "zb_config_default\<lparr>zc_kernel := Some [''k'']\<rparr>" and ?h0 = "\<lparr>hf_tree = Dir [(''k'', File [7] 420)], hf_mtime = (\<lambda>_. 0)\<rparr>"
  obtain idt cache0 where id0: "snapshot_identity count_print sums_host Map.empty ?h0 ?c Map.empty = (Inr idt, cache0)"
    and printed: "\<exists>j. idt = count_print j"
    by (simp add: snapshot_identity_def asset_hash_def file_sha256_def file_stamp_def read_file_def path_is_file_def open_at_def
        canonicalize_def zb_config_default_def) blast
  let ?stored = "as_bytes idt"
  let ?h = "\<lparr>hf_tree = Dir [(''s'', Dir [(''parent'', Dir [(''vmstate'', File [] 384), (''memory.bin'', File [] 384),
       (''identity.json'', File ?stored 384)])]), (''k'', File [7] 420)], hf_mtime = (\<lambda>_. 0)\<rparr>"
  have dig: "c \<in> set idt \<Longrightarrow> (of_char c :: nat) < 128" for c
    using printed dec_string_digits by (fastforce simp: count_print_def list_all_iff is_digit_def)
  have "utf8_valid ?stored"
    using dig by (intro utf8_valid_ascii) (force simp: as_bytes_def word_le_nat_alt unat_of_nat)
  then have st: "from_utf8 ?stored = Some idt" by (simp add: from_utf8_def)
  have rd: "read_file (hf_tree ?h) ([''s''] @ [''parent'', ''identity.json'']) = Inr ?stored"
    by (simp add: read_file_def open_at_def canonicalize_def)
  obtain cache1 where id1: "snapshot_identity count_print sums_host Map.empty ?h ?c Map.empty = (Inr idt, cache1)"
    using id0 by (simp add: snapshot_identity_def asset_hash_def file_sha256_def file_stamp_def read_file_def path_is_file_def
        open_at_def canonicalize_def zb_config_default_def)
  have "parent_reusable count_print sums_host Map.empty ?h ?c [''s''] Map.empty = (Inr True, cache1)"
    using id1 rd st by (simp add: parent_reusable_def path_is_file_def open_at_def canonicalize_def Let_def)
  from snapshot_reused_for_same_assets [OF inj_count_print id0 _ rd st this] show ?thesis
    by (auto simp: cache_right_def zb_config_default_def)
qed

theorem unverified_binary_never_runs_witness:
  "\<exists>e. fst (create_zero_boot bad_ops count_print sums_host Map.empty fc_config sandbox_spec_default fresh_process) = Inl e"
proof -
  obtain m where m: "verify_uncached sums_host (sums_tree 8) fc_path = Inl m"
    using sums_mismatch by (auto simp: fc_path_def)
  have "always_refused bad_ops sums_host fc_config" using m by (simp add: always_refused_def bad_ops_def fc_config_def)
  moreover have "no_acceptance fc_config fresh_process" by (simp add: no_acceptance_def fresh_process_def)
  ultimately show ?thesis using unverified_binary_never_runs [of bad_ops sums_host fc_config fresh_process] by blast
qed

theorem unadvertised_refused_witness:
  "sandbox_cancel (from_pool 5 [[''execute''], [''execute'']]) \<lparr>cancel_id = None\<rparr> [Inr True, Inr False]
     = Inl (SUnsupportedCapability CapCancel)"
proof -
  let ?s = "[[''execute''], [''execute'']]"
  have p: "n \<in> set ?s \<Longrightarrow> set n = set (hd ?s)" "primary_alive (pool_new [True, True]) < length ?s" "0 < length ?s" for n
    by (simp_all add: primary_alive_def pool_new_def)
  note u = unadvertised_refused [OF refl p, where creq = "\<lparr>cancel_id = None\<rparr>" and outcomes = "[Inr True, Inr False]" and timeout = 5]
  have "CapCancel \<notin> set (zb_advertised (from_pool 5 ?s))" by (simp add: from_pool_def capabilities_from_negotiated_def)
  with conjunct1 [OF conjunct2 [OF conjunct2 [OF u]]] show ?thesis by (simp add: refused_def cancel_validate_def)
qed

end
