(* ===== verification/Spec2Isabelle.thy ===== *)
theory Spec2Isabelle
  imports Guest_Connection Cluster Orchestration Zbrt_Connection Workspace_Executor Agent_Server Session_Pool End_To_End Forkd_Provider Forkd_Pool Session_Turn Zeroboot_Locks Zeroboot_Provider
begin

text \<open>
  \<^bold>\<open>rfb: a verification development.\<close>

  rfb runs commands of an agent in disposable sandboxes: micro virtual machines with a guest program that
  serves requests over vsock or TCP. The repository has two main crates. \<^verbatim>\<open>rfb-runtime\<close> holds the guest side (the
  runtime service and its connections, the executor that works on the guest's files, the NDJSON agent)
  and the host side of a session; \<^verbatim>\<open>rfb\<close> holds the contract of sandboxes and its providers (a cluster of
  forkd controllers, ZeroBoot machines). All paths below are relative to \<^verbatim>\<open>src/\<close>.

  \<^bold>\<open>How the parts interact.\<close> A client builds a request of the contract; a provider chooses or starts a machine
  and sends the request as frames over a connection. In the guest a connection server reads the frames,
  hands turns to the runtime service, which owns the executor and runs at most one turn at a time in
  a worker; the executor resolves paths with the path policy, touches files and spawns programs, whose
  output returns as frames. The agent is a second, simpler server over lines of JSON with the same policy.

  \<^bold>\<open>Theories.\<close>

  \<^item> \<open>Rfb_Prelude\<close>: bytes, results as sums (\<open>res_bind\<close> is the question mark operator), big and little endian
    encodings, string operations of the standard library, association lists.
  \<^item> \<open>Rfb_Utf8\<close> (\<^verbatim>\<open>rfb-runtime/src/utf8_boundary.rs\<close>): the chunk decoder; it equals lossy decoding of the whole.
  \<^item> \<open>Zbrt_Wire\<close> (\<^verbatim>\<open>zeroboot_protocol.rs\<close>, \<^verbatim>\<open>connection_util.rs\<close>): payload codecs behind the locales \<open>wire_codec\<close> and
    \<open>strict_wire_codec\<close>, frames, stream readers, \<open>HostSession\<close>; round trips, canonicity, strictness.
  \<^item> \<open>Rfb_Resources\<close> (\<^verbatim>\<open>resources.rs\<close>, \<^verbatim>\<open>config.rs\<close>), \<open>Rfb_Codec\<close> (\<^verbatim>\<open>codec.rs\<close>), \<open>Rfb_Session\<close> (\<^verbatim>\<open>session.rs\<close>,
    \<^verbatim>\<open>guest_protocol.rs\<close>): limits, the RFB1 frame codec and the messages over it; round trips and bounds.
  \<^item> \<open>Runtime_Service\<close> (\<^verbatim>\<open>runtime_service/\<close>): the service as a record with one function per handler; its
    bookkeeping invariant, at most one execution per turn, replay, cancellation, shutdown.
  \<^item> \<open>Guest_Connection\<close> (\<^verbatim>\<open>guest_connection.rs\<close>): any number of connections and workers around one service, as a
    step relation. \<open>Turn_Executor\<close> states as a locale what the system relies on in an executor.
  \<^item> \<open>Zbrt_Connection\<close> (\<^verbatim>\<open>zeroboot_connection.rs\<close>): the ZBRT server as a step relation over one connection with
    its worker and bounded channel; one terminal frame per request, progress, bounds. \<open>Rfb_Builtin\<close>
    (\<^verbatim>\<open>builtin.rs\<close>): commands that need no shell.
  \<^item> \<open>Orchestration\<close> (\<^verbatim>\<open>orchestration.rs\<close>): the session manager of the host, its calls cut at their suspension
    points and interleaved; no worker is lost, provisioning is not repeated, cleanup ends.
  \<^item> \<open>Contract\<close> (\<^verbatim>\<open>rfb/src/core.rs\<close>, \<^verbatim>\<open>guest/\<close>, \<^verbatim>\<open>client/validation.rs\<close>): requests, validation, creation guards.
  \<^item> \<open>Cluster\<close> (\<^verbatim>\<open>rfb/src/cluster.rs\<close>): scheduling, failover, half-open recovery, reconciliation, accounting.
  \<^item> \<open>Guest_Fs\<close>: the guest's file system, a tree with files, directories and symbolic links, and the system
    calls the code uses. \<open>Path_Policy\<close> (\<^verbatim>\<open>policy.rs\<close>, \<^verbatim>\<open>agent/transport.rs\<close>), \<open>Glob\<close> (\<^verbatim>\<open>glob.rs\<close>),
    \<open>Workspace_Files\<close> (\<^verbatim>\<open>workspace_executor/filesystem.rs\<close>), \<open>Child_Capture\<close> (the poll loop of
    \<^verbatim>\<open>workspace_executor/process.rs\<close>), \<open>Workspace_Executor\<close> (the rest of \<^verbatim>\<open>workspace_executor/\<close>): confinement, the
    matcher against its language, writes as updates of one file, the exact size cache, faithful output,
    deadlines. \<open>Workspace_Executor\<close> interprets the locale of \<open>Turn_Executor\<close>.
  \<^item> \<open>Rfb_Json\<close>: access to JSON values. \<open>Agent_Lines\<close>, \<open>Agent_Exec\<close>, \<open>Agent_Search\<close>, \<open>Agent_Stream\<close>,
    \<open>Agent_Server\<close> (\<^verbatim>\<open>agent/\<close>): the line reader, the token gate, commands, searches, streamed commands and the
    connection loop of the NDJSON agent.
  \<^item> \<open>Session_Pool\<close> (\<^verbatim>\<open>SessionPool\<close> of \<^verbatim>\<open>rfb/src/zeroboot/provider.rs\<close>): the pool of guest connections, every
    atomic access a step; exclusive slots, backed permits, and a race that loses permits.
  \<^item> \<open>Host_Session\<close> (\<^verbatim>\<open>ZeroBootSession\<close>, \<^verbatim>\<open>ZeroBootStream\<close> and \<^verbatim>\<open>spawn_reader\<close> of \<^verbatim>\<open>rfb/src/zeroboot/provider.rs\<close>): the requests
    of the host, the demultiplexer with its bounded channels as actions in any order, and \<^verbatim>\<open>exec\<close> and the
    streams as functions of what they receive. A command that returns a result has lost no output.
  \<^item> \<open>End_To_End\<close>: the guest's connection server, the wire format and the host session together.
  \<^item> \<open>Forkd_Guest\<close> (\<^verbatim>\<open>rfb/src/forkd/guest.rs\<close>): the host's end of an agent connection, and the conversation of both ends:
    every request gets its own answer, and the handshake succeeds exactly with equal tokens.
  \<^item> \<open>Forkd_Pool\<close> (the same file): the pool of warm connections under any interleaving of requests.
  \<^item> \<open>Forkd_Controller\<close> (\<^verbatim>\<open>rfb/src/forkd/controller.rs\<close>): requests, bounded responses and waits of the HTTP client,
    whose transport is a parameter.
  \<^item> \<open>Forkd_Provider\<close> (\<^verbatim>\<open>rfb/src/forkd/provider.rs\<close>, \<^verbatim>\<open>rfb/src/client/ndjson.rs\<close>): how answers and frames of the agent become
    results and events, with exec proved from the child's bytes to the host's result.
  \<^item> \<open>Session_Turn\<close> (\<^verbatim>\<open>begin_turn\<close>, the guards and \<^verbatim>\<open>cancel_active\<close> of \<^verbatim>\<open>rfb/src/zeroboot/provider.rs\<close>): the turn lock, the registered
    channels and the published identifier; every access of a turn or a cancel and the drain at the end of the reader are steps,
    and futures are dropped wherever they wait.
  \<^item> \<open>Zeroboot_Locks\<close> (\<^verbatim>\<open>create_owned_lock\<close> and \<^verbatim>\<open>scavenge_stale_in\<close>, same file): directories, lock files and \<^verbatim>\<open>flock\<close> with any
    number of creators, scavengers and deaths; the directory of a live owner stays.
  \<^item> \<open>Zeroboot_Verify\<close> (\<^verbatim>\<open>rfb/src/zeroboot/verification.rs\<close>): checksum manifests and the cached verdicts on the binary.
  \<^item> \<open>Zeroboot_Provider\<close> (the rest of the provider): settings, the identity of snapshots, creation up to the session
    pool, and the operations of a sandbox; no machine runs an unverified binary.

  \<^bold>\<open>How code becomes definitions.\<close> A struct is a record, an enum a datatype, a fallible function returns a sum
  with \<open>Inl\<close> the error, a method that changes its object returns it. Machine integers are words where they
  can wrap and natural numbers where the code bounds them; a duration is a number. Strings are lists of
  characters that stand for their UTF-8 bytes. Code outside the repository is a parameter: JSON and zstd
  libraries with their round trip as hypothesis, controllers of a cluster, clocks, the executor in the
  service, a child process as the observations the operating system makes of it. Concurrent code is a step
  relation whose steps are the pieces between suspension points, or single atomic accesses in the pool.

  \<^bold>\<open>Loops and fuel.\<close> Loops over data are structural or have a measure; the resolution of symbolic links has the
  kernel's bound of forty; shrinking a response has the source's bound of twenty-four rounds. Loops that
  wait for the outside are functions of the list of what they observe, so that an endless wait is an
  observation list without an end, and the liveness properties say which observations end it.

  \<^bold>\<open>Not modelled.\<close> Listeners and accept loops, mounting and boot of the guest, the Firecracker process and its
  API socket, the command line, image building and benchmarks are input and
  output around the parts above; the language interpreters and small tools are separate programs; the ADK
  adapter binds a third-party framework. The client's float timeout check needs floating point numbers.
  The unified client over ZBRT
  (\<^verbatim>\<open>client/zbrt.rs\<close>, \<^verbatim>\<open>client/facade.rs\<close>), the host's vsock server and the starting and forking of ZeroBoot machines, which the
  provider's model takes as parameters, are left out.
  The reader threads used where \<^verbatim>\<open>poll\<close> does not exist are left out.
\<close>

end
